(* ===== verification/Prelude.thy ===== *)
theory Prelude
  imports Main "HOL-Library.AList"
begin

text \<open>
  Shared vocabulary of the development: fallible results as sums, Python dictionaries as
  association lists that keep insertion order, small facts on lists and integer division, and
  the two generic interfaces every component uses: a keyed store and a machine with an
  invariant. Facts about fallible results are collected in \<open>result_simps\<close>, facts about
  dictionaries in \<open>dict_simps\<close>.
\<close>

named_theorems result_simps "sequencing of fallible results"
named_theorems dict_simps "lookup and update of Python dictionaries"

section \<open>Fallible results\<close>

text \<open>
  A call that raises is \<open>Inl e\<close>, a call that returns is \<open>Inr x\<close>. \<open>then_do\<close> runs the rest of a
  body after a call that may raise; \<open>ensure\<close> is a guard that raises.
\<close>

definition then_do :: "'e + 'a \<Rightarrow> ('a \<Rightarrow> 'e + 'b) \<Rightarrow> 'e + 'b" where
  "then_do r k = (case r of Inl e \<Rightarrow> Inl e | Inr x \<Rightarrow> k x)"

definition ensure :: "bool \<Rightarrow> 'e \<Rightarrow> 'e + 'b \<Rightarrow> 'e + 'b" where
  "ensure b e k = (if b then k else Inl e)"

lemma then_do_Inl [simp, result_simps]: "then_do (Inl e) k = Inl e"
  by (simp add: then_do_def)

lemma then_do_Inr [simp, result_simps]: "then_do (Inr x) k = k x"
  by (simp add: then_do_def)

lemma then_do_eq_Inr [result_simps]:
  "then_do r k = Inr y \<longleftrightarrow> (\<exists>x. r = Inr x \<and> k x = Inr y)"
  by (cases r) auto

lemma then_do_eq_Inl [result_simps]:
  "then_do r k = Inl e \<longleftrightarrow> r = Inl e \<or> (\<exists>x. r = Inr x \<and> k x = Inl e)"
  by (cases r) auto

lemma ensure_True [simp]: "ensure True e k = k"
  by (simp add: ensure_def)

lemma ensure_False [simp]: "ensure False e k = Inl e"
  by (simp add: ensure_def)

lemma ensure_eq_Inr [simp, result_simps]: "ensure b e k = Inr y \<longleftrightarrow> b \<and> k = Inr y"
  by (simp add: ensure_def)

lemma ensure_eq_Inl [result_simps]:
  "ensure b e k = Inl e' \<longleftrightarrow> (if b then k = Inl e' else e = e')"
  by (auto simp: ensure_def)

definition result_ok :: "'e + 'a \<Rightarrow> bool" where
  "result_ok r = (case r of Inl _ \<Rightarrow> False | Inr _ \<Rightarrow> True)"

lemma result_ok_simps [simp]: "result_ok (Inr x)" "\<not> result_ok (Inl e)"
  by (simp_all add: result_ok_def)

lemma result_ok_iff: "result_ok r \<longleftrightarrow> (\<exists>x. r = Inr x)"
  by (cases r) auto

text \<open>
  A method of a mutable object that may raise returns its outcome together with the object's
  state, because writes made before the raise stay. \<open>and_then\<close> runs the rest of the body on the
  state the call left, unless the call raised.
\<close>

definition and_then ::
  "('e + 'a) \<times> 's \<Rightarrow> ('a \<Rightarrow> 's \<Rightarrow> ('e + 'b) \<times> 's) \<Rightarrow> ('e + 'b) \<times> 's" where
  "and_then r k = (case r of (Inl e, s) \<Rightarrow> (Inl e, s) | (Inr x, s) \<Rightarrow> k x s)"

lemma and_then_simps [simp, result_simps]:
  "and_then (Inl e, s) k = (Inl e, s)" "and_then (Inr x, s) k = k x s"
  by (simp_all add: and_then_def)

lemma and_then_eq_Inr [result_simps]:
  "and_then r k = (Inr y, t) \<longleftrightarrow> (\<exists>x s. r = (Inr x, s) \<and> k x s = (Inr y, t))"
  by (cases r; cases "fst r") auto

text \<open>A Python generator summed left to right, where computing one summand may raise.\<close>

fun sum_results :: "('e + int) list \<Rightarrow> 'e + int" where
  "sum_results [] = Inr 0"
| "sum_results (r # rs) =
     then_do r (\<lambda>x. then_do (sum_results rs) (\<lambda>s. Inr (x + s)))"

lemma sum_results_map_Inr:
  assumes "\<And>x. x \<in> set xs \<Longrightarrow> f x = Inr (g x)"
  shows "sum_results (map f xs) = Inr (sum_list (map g xs))"
  using assms by (induction xs) auto

section \<open>Keyed stores\<close>

text \<open>
  What a client of a dictionary or of a keyed table relies on. \<open>del\<close> is the store without the
  key; the two client lemmas say that writes to different keys do not interfere and that the
  last write to a key wins.
\<close>

locale keyed_store =
  fixes lookup :: "'m \<Rightarrow> 'k \<Rightarrow> 'v option"
    and put :: "'k \<Rightarrow> 'v \<Rightarrow> 'm \<Rightarrow> 'm"
    and del :: "'k \<Rightarrow> 'm \<Rightarrow> 'm"
    and invar :: "'m \<Rightarrow> bool"
  assumes lookup_put: "lookup (put k v m) = (lookup m)(k \<mapsto> v)"
    and lookup_del: "invar m \<Longrightarrow> lookup (del k m) = (lookup m)(k := None)"
    and invar_put: "invar m \<Longrightarrow> invar (put k v m)"
    and invar_del: "invar m \<Longrightarrow> invar (del k m)"
begin

lemma put_same: "lookup (put k v m) k = Some v"
  by (simp add: lookup_put)

lemma put_other: "k \<noteq> j \<Longrightarrow> lookup (put k v m) j = lookup m j"
  by (simp add: lookup_put)

lemma put_put: "lookup (put k w (put k v m)) = lookup (put k w m)"
  by (simp add: lookup_put)

lemma put_commute: "k \<noteq> j \<Longrightarrow> lookup (put k v (put j w m)) = lookup (put j w (put k v m))"
  by (auto simp: lookup_put fun_eq_iff)

lemma del_put: "invar m \<Longrightarrow> lookup (del k (put k v m)) = lookup (del k m)"
  by (auto simp: lookup_del lookup_put invar_put fun_eq_iff)

lemma dom_put: "dom (lookup (put k v m)) = insert k (dom (lookup m))"
  by (simp add: lookup_put)

end

section \<open>Python dictionaries\<close>

text \<open>
  A dictionary is the list of its items in insertion order: assigning to an existing key keeps
  its place, assigning to a new key appends, \<open>pop\<close> removes. \<open>dict_get0 d k\<close> is
  \<open>d.get(k, 0)\<close>.
\<close>

type_synonym ('k, 'v) dict = "('k \<times> 'v) list"

abbreviation dict_set :: "'k \<Rightarrow> 'v \<Rightarrow> ('k, 'v) dict \<Rightarrow> ('k, 'v) dict" where
  "dict_set \<equiv> AList.update"

abbreviation dict_pop :: "'k \<Rightarrow> ('k, 'v) dict \<Rightarrow> ('k, 'v) dict" where
  "dict_pop \<equiv> AList.delete"

definition dict_keys :: "('k, 'v) dict \<Rightarrow> 'k list" where
  "dict_keys d = map fst d"

definition dict_ok :: "('k, 'v) dict \<Rightarrow> bool" where
  "dict_ok d = distinct (dict_keys d)"

definition dict_get0 :: "('k, int) dict \<Rightarrow> 'k \<Rightarrow> int" where
  "dict_get0 d k = (case map_of d k of None \<Rightarrow> 0 | Some v \<Rightarrow> v)"

definition dict_sum :: "('v \<Rightarrow> int) \<Rightarrow> ('k, 'v) dict \<Rightarrow> int" where
  "dict_sum f d = sum_list (map (f \<circ> snd) d)"

lemma map_of_dict_set [simp, dict_simps]: "map_of (dict_set k v d) = (map_of d)(k \<mapsto> v)"
  by (rule update_conv')

lemma map_of_dict_pop [simp, dict_simps]: "map_of (dict_pop k d) = (map_of d)(k := None)"
  by (rule delete_conv')

lemma dict_ok_set [simp, dict_simps]: "dict_ok d \<Longrightarrow> dict_ok (dict_set k v d)"
  by (simp add: dict_ok_def dict_keys_def distinct_update)

lemma dict_ok_pop [simp, dict_simps]: "dict_ok d \<Longrightarrow> dict_ok (dict_pop k d)"
  by (simp add: dict_ok_def dict_keys_def distinct_delete)

lemma dict_pop_keys: "fst ` set (dict_pop k d) \<subseteq> fst ` set d"
  using arg_cong [OF delete_keys [of k d], of set] by auto

lemma dict_ok_Nil [simp]: "dict_ok []"
  by (simp add: dict_ok_def dict_keys_def)

lemma dict_get0_set [simp, dict_simps]:
  "dict_get0 (dict_set k v d) j = (if j = k then v else dict_get0 d j)"
  by (simp add: dict_get0_def)

interpretation pydict: keyed_store map_of dict_set dict_pop dict_ok
  by unfold_locales auto

text \<open>
  Assigning to a key changes a sum over the values by the difference at that key, and deleting
  a key subtracts what it held.
\<close>

lemma dict_sum_set:
  assumes "dict_ok d"
  shows "dict_sum f (dict_set k v d) =
    dict_sum f d - (case map_of d k of None \<Rightarrow> 0 | Some w \<Rightarrow> f w) + f v"
  using assms
proof (induction d)
  case Nil
  then show ?case by (simp add: dict_sum_def)
next
  case (Cons p d)
  obtain j w where p: "p = (j, w)" by (cases p)
  from Cons.prems p have d: "dict_ok d" and j: "j \<notin> set (map fst d)"
    by (auto simp: dict_ok_def dict_keys_def)
  show ?case
  proof (cases "j = k")
    case True
    with p show ?thesis by (simp add: dict_sum_def)
  next
    case False
    with p Cons.IH [OF d] show ?thesis by (simp add: dict_sum_def)
  qed
qed

lemma dict_sum_get0:
  "dict_ok d \<Longrightarrow> dict_sum (\<lambda>x. x) (dict_set k v d) = dict_sum (\<lambda>x. x) d - dict_get0 d k + v"
  by (simp add: dict_sum_set dict_get0_def split: option.splits)

lemma map_of_in_values: "map_of d k = Some v \<Longrightarrow> v \<in> snd ` set d"
  by (auto dest: map_of_SomeD intro: image_eqI [where x = "(k, v)"])

lemma dict_set_values: "snd ` set (dict_set k v d) \<subseteq> insert v (snd ` set d)"
  by (induction d) auto

lemma dict_set_ball:
  "\<lbrakk>\<And>w. w \<in> snd ` set d \<Longrightarrow> P w; P v; w \<in> snd ` set (dict_set k v d)\<rbrakk> \<Longrightarrow> P w"
  using dict_set_values [of k v d] by blast

section \<open>Machines with an invariant\<close>

text \<open>
  A component whose operations are steps: an invariant that every initial state has and every
  step keeps holds along every run.
\<close>

locale inv_machine =
  fixes start :: "'s \<Rightarrow> bool"
    and stp :: "'s \<Rightarrow> 's \<Rightarrow> bool"
    and inv :: "'s \<Rightarrow> bool"
  assumes start_inv: "start s \<Longrightarrow> inv s"
    and stp_inv: "stp s t \<Longrightarrow> inv s \<Longrightarrow> inv t"
begin

lemma run_inv: "stp\<^sup>*\<^sup>* s t \<Longrightarrow> inv s \<Longrightarrow> inv t"
  by (induction rule: rtranclp_induct) (auto intro: stp_inv)

lemma reachable_inv: "start s \<Longrightarrow> stp\<^sup>*\<^sup>* s t \<Longrightarrow> inv t"
  by (blast intro: run_inv start_inv)

end

text \<open>
  A machine that implements an abstract one: every step is simulated by a run of abstract steps, so
  every run is.
\<close>

locale refined_machine = inv_machine +
  fixes astp :: "'a \<Rightarrow> 'a \<Rightarrow> bool"
    and abst :: "'s \<Rightarrow> 'a"
  assumes sim: "stp s t \<Longrightarrow> inv s \<Longrightarrow> astp\<^sup>*\<^sup>* (abst s) (abst t)"
begin

lemma run_sim: "stp\<^sup>*\<^sup>* s t \<Longrightarrow> inv s \<Longrightarrow> astp\<^sup>*\<^sup>* (abst s) (abst t)"
proof (induction rule: rtranclp_induct)
  case base
  then show ?case by simp
next
  case (step u t)
  then have "astp\<^sup>*\<^sup>* (abst u) (abst t)" using run_inv sim by blast
  with step show ?case by (meson rtranclp_trans)
qed

lemma reachable_sim: "start s \<Longrightarrow> stp\<^sup>*\<^sup>* s t \<Longrightarrow> astp\<^sup>*\<^sup>* (abst s) (abst t) \<and> inv t"
  by (blast intro: run_sim reachable_inv start_inv)

end

section \<open>Lists and integer division\<close>

lemma div_diff_mult_self [simp]:
  "d \<noteq> 0 \<Longrightarrow> (a - k * d) div d = a div d - (k :: int)"
proof -
  assume "d \<noteq> 0"
  then have "(a + (- k) * d) div d = - k + a div d" by (rule div_mult_self1)
  then show ?thesis by simp
qed

lemma div_mult_le_self: "0 < d \<Longrightarrow> a div d * d \<le> (a :: int)"
  using div_mult_mod_eq [of a d] pos_mod_sign [of d a] by linarith

lemma find_Some_iff: "List.find P xs = Some x \<Longrightarrow> x \<in> set xs \<and> P x"
  by (induction xs) (auto split: if_splits)

lemma find_None_iff': "List.find P xs = None \<longleftrightarrow> (\<forall>x \<in> set xs. \<not> P x)"
  by (auto simp: find_None_iff)

end
