(* ===== verification/Facility_Ledger.thy ===== *)
theory Facility_Ledger
  imports Prelude
begin

text \<open>
  The facility ledger of the accounting reference model
  (\<open>offchain/gpu/hashcredit_gpu/accounting/reference.py\<close>, class \<open>FacilityLedger\<close>): simple
  interest on principal as an exact numerator, rate segments, the repayment waterfall. Money is
  Python's unbounded \<open>int\<close>. The main results: the segment-wise accrual loop computes the sum of
  the rate over every second (so it does not depend on how often it is called), and the
  waterfall splits a payment exactly.
\<close>

section \<open>Constants and errors\<close>

definition BPS :: int where "BPS = 10000"

definition YEAR :: int where "YEAR = 365 * 86400"

definition DENOM :: int where "DENOM = BPS * YEAR"

lemma DENOM_pos [simp]: "0 < DENOM" and DENOM_nonzero [simp]: "DENOM \<noteq> 0"
  by (simp_all add: DENOM_def BPS_def YEAR_def)

text \<open>The \<open>AccountingError\<close> messages of the module, and the built-in errors its code can raise.\<close>

datatype accounting_error =
    AccrualBackwards
  | AmountNotPositive
  | ClockBackwards
  | DepositTooSmall
  | InsufficientShares
  | WithdrawalExceedsCash
  | InsufficientVaultCash
  | LegExceedsEscrow
  | ReceiptExceedsInFlight
  | ImpairmentExceedsExposure
  | IndexError
  | KeyError
  | ZeroDivisionError

section \<open>State\<close>

record terms =
  t_rate_bps :: int
  t_capitalize_unpaid_interest :: bool
  t_test_only :: bool

record rate_segment =
  seg_start :: int
  seg_rate_bps :: int

datatype history_entry =
    HSetRate int int
  | HBorrow int int
  | HFee int int
  | HRepay int int int int int

record facility_ledger =
  fl_facility_id :: string
  fl_terms :: terms
  fl_opened_at :: int
  fl_principal :: int
  fl_fees :: int
  fl_interest_accum :: int
  fl_last_accrual_at :: int
  fl_segments :: "rate_segment list"
  fl_written_off_principal :: int
  fl_written_off_interest :: int
  fl_impaired :: bool
  fl_accrual_frozen :: bool
  fl_history :: "history_entry list"

text \<open>
  \<open>FacilityLedger(facility_id, terms, opened_at)\<close>: every other field at its default, then
  \<open>__post_init__\<close>.
\<close>

definition new_facility :: "string \<Rightarrow> terms \<Rightarrow> int \<Rightarrow> facility_ledger" where
  "new_facility fid tms opened_at =
    \<lparr> fl_facility_id = fid, fl_terms = tms, fl_opened_at = opened_at,
      fl_principal = 0, fl_fees = 0, fl_interest_accum = 0,
      fl_last_accrual_at = opened_at,
      fl_segments = [\<lparr> seg_start = opened_at, seg_rate_bps = t_rate_bps tms \<rparr>],
      fl_written_off_principal = 0, fl_written_off_interest = 0,
      fl_impaired = False, fl_accrual_frozen = False, fl_history = [] \<rparr>"

section \<open>Views\<close>

definition unpaid_interest :: "facility_ledger \<Rightarrow> int" where
  "unpaid_interest f = fl_interest_accum f div DENOM"

definition legal_debt :: "facility_ledger \<Rightarrow> int" where
  "legal_debt f = fl_principal f + unpaid_interest f + fl_fees f"

text \<open>\<open>self.segments[0]\<close> raises on an empty list; the loop keeps the last segment that has started.\<close>

definition current_rate :: "rate_segment list \<Rightarrow> int \<Rightarrow> accounting_error + int" where
  "current_rate segs t =
    (case segs of
       [] \<Rightarrow> Inl IndexError
     | s # _ \<Rightarrow> Inr (foldl (\<lambda>rate seg. if seg_start seg \<le> t then seg_rate_bps seg else rate)
                       (seg_rate_bps s) segs))"

text \<open>The inner \<open>for\<close> loop: the earliest segment start strictly between \<open>t\<close> and the bound.\<close>

definition next_boundary :: "rate_segment list \<Rightarrow> int \<Rightarrow> int \<Rightarrow> int" where
  "next_boundary segs t bound =
    foldl (\<lambda>nxt seg. if t < seg_start seg \<and> seg_start seg < nxt then seg_start seg else nxt)
      bound segs"

lemma next_boundary_gt: "t < bound \<Longrightarrow> t < next_boundary segs t bound"
  unfolding next_boundary_def by (induction segs arbitrary: bound) auto

lemma next_boundary_le: "next_boundary segs t bound \<le> bound"
  unfolding next_boundary_def
proof (induction segs arbitrary: bound)
  case Nil
  then show ?case by simp
next
  case (Cons s segs)
  show ?case
    using Cons [of "seg_start s"] Cons [of bound] by (auto intro: order_trans)
qed

text \<open>The \<open>while t < to_ts\<close> loop: accrue up to the next boundary, then continue from there.\<close>

function accrue_loop ::
  "rate_segment list \<Rightarrow> int \<Rightarrow> int \<Rightarrow> int \<Rightarrow> int \<Rightarrow> accounting_error + int" where
  "accrue_loop segs p to_ts t accum =
    (if t < to_ts
     then then_do (current_rate segs t) (\<lambda>rate.
            let nxt = next_boundary segs t to_ts
            in accrue_loop segs p to_ts nxt (accum + p * rate * (nxt - t)))
     else Inr accum)"
  by pat_completeness auto
termination
proof (relation "measure (\<lambda>(segs, p, to_ts, t, accum). nat (to_ts - t))", goal_cases)
  case 1
  show ?case by simp
next
  case (2 segs p to_ts t accum rate nxt)
  then show ?case using next_boundary_gt [of t to_ts segs] by simp
qed

declare accrue_loop.simps [simp del]

definition unpaid_interest_at :: "facility_ledger \<Rightarrow> int \<Rightarrow> accounting_error + int" where
  "unpaid_interest_at f t =
    (if fl_accrual_frozen f \<or> t \<le> fl_last_accrual_at f then Inr (unpaid_interest f)
     else then_do
       (accrue_loop (fl_segments f) (fl_principal f) t (fl_last_accrual_at f)
          (fl_interest_accum f))
       (\<lambda>accum. Inr (accum div DENOM)))"

section \<open>Mutations\<close>

text \<open>
  Every operation raises before it writes, so a raise leaves the ledger as it was and the
  result is the new ledger.
\<close>

definition accrue :: "facility_ledger \<Rightarrow> int \<Rightarrow> accounting_error + facility_ledger" where
  "accrue f to_ts =
    (if to_ts < fl_last_accrual_at f then Inl AccrualBackwards
     else if fl_accrual_frozen f then Inr (f\<lparr>fl_last_accrual_at := to_ts\<rparr>)
     else then_do
       (accrue_loop (fl_segments f) (fl_principal f) to_ts (fl_last_accrual_at f)
          (fl_interest_accum f))
       (\<lambda>accum. Inr (f\<lparr>fl_interest_accum := accum, fl_last_accrual_at := to_ts\<rparr>)))"

definition set_rate :: "facility_ledger \<Rightarrow> int \<Rightarrow> int \<Rightarrow> accounting_error + facility_ledger" where
  "set_rate f t rate_bps =
    then_do (accrue f t) (\<lambda>f.
      let kept = (if \<exists>seg \<in> set (fl_segments f). seg_start seg = t
                  then filter (\<lambda>seg. seg_start seg \<noteq> t) (fl_segments f)
                  else fl_segments f);
          segs = sort_key seg_start (kept @ [\<lparr> seg_start = t, seg_rate_bps = rate_bps \<rparr>])
      in Inr (f\<lparr>fl_segments := segs, fl_history := fl_history f @ [HSetRate t rate_bps]\<rparr>))"

definition borrow :: "facility_ledger \<Rightarrow> int \<Rightarrow> int \<Rightarrow> accounting_error + facility_ledger" where
  "borrow f t amount =
    (if amount \<le> 0 then Inl AmountNotPositive
     else then_do (accrue f t) (\<lambda>f.
       let cap = (if t_capitalize_unpaid_interest (fl_terms f) then unpaid_interest f else 0)
       in Inr (f\<lparr>fl_principal := fl_principal f + cap + amount,
                 fl_interest_accum := fl_interest_accum f - cap * DENOM,
                 fl_history := fl_history f @ [HBorrow t amount]\<rparr>)))"

definition charge_fee :: "facility_ledger \<Rightarrow> int \<Rightarrow> int \<Rightarrow> accounting_error + facility_ledger" where
  "charge_fee f t amount =
    then_do (accrue f t) (\<lambda>f.
      Inr (f\<lparr>fl_fees := fl_fees f + amount, fl_history := fl_history f @ [HFee t amount]\<rparr>))"

text \<open>The returned dictionary \<open>{"fees", "interest", "principal", "excess"}\<close>.\<close>

record repay_alloc =
  ra_fees :: int
  ra_interest :: int
  ra_principal :: int
  ra_excess :: int

definition allocate_repayment ::
  "facility_ledger \<Rightarrow> int \<Rightarrow> int \<Rightarrow> accounting_error + (facility_ledger \<times> repay_alloc)" where
  "allocate_repayment f t amount =
    (if amount \<le> 0 then Inl AmountNotPositive
     else then_do (accrue f t) (\<lambda>f.
       let pay_fees = min amount (fl_fees f);
           rem1 = amount - pay_fees;
           pay_interest = min rem1 (unpaid_interest f);
           rem2 = rem1 - pay_interest;
           pay_principal = min rem2 (fl_principal f);
           rem3 = rem2 - pay_principal
       in Inr (f\<lparr>fl_fees := fl_fees f - pay_fees,
                 fl_interest_accum := fl_interest_accum f - pay_interest * DENOM,
                 fl_principal := fl_principal f - pay_principal,
                 fl_history := fl_history f @
                   [HRepay t pay_fees pay_interest pay_principal rem3]\<rparr>,
               \<lparr> ra_fees = pay_fees, ra_interest = pay_interest,
                 ra_principal = pay_principal, ra_excess = rem3 \<rparr>)))"

section \<open>Accrual against the per-second specification\<close>

text \<open>
  The specification of accrual: the rate in force at a second, summed over every second of the
  interval. \<open>rate_at\<close> is \<open>current_rate\<close> on the non-empty segment lists the ledger keeps.
\<close>

definition rate_at :: "rate_segment list \<Rightarrow> int \<Rightarrow> int" where
  "rate_at segs t =
    foldl (\<lambda>rate seg. if seg_start seg \<le> t then seg_rate_bps seg else rate)
      (seg_rate_bps (hd segs)) segs"

definition interest_numerator :: "rate_segment list \<Rightarrow> int \<Rightarrow> int \<Rightarrow> int \<Rightarrow> int" where
  "interest_numerator segs p a b = (\<Sum>u \<in> {a..<b}. p * rate_at segs u)"

lemma current_rate_eq: "segs \<noteq> [] \<Longrightarrow> current_rate segs t = Inr (rate_at segs t)"
  by (cases segs) (simp_all add: current_rate_def rate_at_def)

lemma interest_numerator_split:
  assumes "a \<le> b" and "b \<le> c"
  shows "interest_numerator segs p a c = interest_numerator segs p a b + interest_numerator segs p b c"
proof -
  have "{a..<c} = {a..<b} \<union> {b..<c}" using assms by auto
  moreover have "{a..<b} \<inter> {b..<c} = {}" by auto
  ultimately show ?thesis
    unfolding interest_numerator_def by (simp add: sum.union_disjoint)
qed

lemma interest_numerator_empty [simp]: "b \<le> a \<Longrightarrow> interest_numerator segs p a b = 0"
  by (simp add: interest_numerator_def)

lemma next_boundary_no_start:
  "seg \<in> set segs \<Longrightarrow> t < seg_start seg \<Longrightarrow> next_boundary segs t bound \<le> seg_start seg"
  unfolding next_boundary_def
proof (induction segs arbitrary: bound)
  case Nil
  then show ?case by simp
next
  case (Cons s segs)
  show ?case
  proof (cases "seg = s")
    case True
    have "foldl (\<lambda>nxt seg. if t < seg_start seg \<and> seg_start seg < nxt then seg_start seg else nxt) b segs \<le> b"
      for b using next_boundary_le [of segs t b] by (simp add: next_boundary_def)
    from this [of "seg_start s"] this [of bound] True Cons.prems show ?thesis by auto
  next
    case False
    with Cons show ?thesis by simp
  qed
qed

text \<open>No segment starts inside a stretch, so the rate is constant on it.\<close>

lemma rate_at_constant:
  assumes "t \<le> u" and "u < next_boundary segs t bound"
  shows "rate_at segs u = rate_at segs t"
proof -
  have same: "seg_start seg \<le> u \<longleftrightarrow> seg_start seg \<le> t" if "seg \<in> set segs" for seg
    using next_boundary_no_start [OF that, of t bound] assms by (cases "t < seg_start seg") auto
  have "foldl (\<lambda>rate seg. if seg_start seg \<le> u then seg_rate_bps seg else rate) r xs =
        foldl (\<lambda>rate seg. if seg_start seg \<le> t then seg_rate_bps seg else rate) r xs"
    if "set xs \<subseteq> set segs" for r xs
    using that by (induction xs arbitrary: r) (auto simp: same)
  then show ?thesis by (simp add: rate_at_def)
qed

lemma interest_numerator_stretch:
  assumes "t < bound"
  shows "interest_numerator segs p t (next_boundary segs t bound) =
    p * rate_at segs t * (next_boundary segs t bound - t)"
proof -
  let ?n = "next_boundary segs t bound"
  have "(\<Sum>u \<in> {t..<?n}. p * rate_at segs u) = (\<Sum>u \<in> {t..<?n}. p * rate_at segs t)"
    by (rule sum.cong) (auto simp: rate_at_constant)
  also have "\<dots> = (?n - t) * (p * rate_at segs t)"
    using next_boundary_gt [OF assms, of segs] by simp
  finally show ?thesis by (simp add: interest_numerator_def algebra_simps)
qed

lemma accrue_loop_spec:
  assumes "segs \<noteq> []"
  shows "accrue_loop segs p b a acc = Inr (acc + interest_numerator segs p a b)"
  using assms
proof (induction segs p b a acc rule: accrue_loop.induct)
  case (1 segs p b a acc)
  show ?case
  proof (cases "a < b")
    case False
    then show ?thesis by (simp add: accrue_loop.simps)
  next
    case True
    let ?n = "next_boundary segs a b"
    let ?acc = "acc + p * rate_at segs a * (?n - a)"
    have r: "current_rate segs a = Inr (rate_at segs a)"
      using 1 by (simp add: current_rate_eq)
    have split: "interest_numerator segs p a b =
        interest_numerator segs p a ?n + interest_numerator segs p ?n b"
      using next_boundary_gt [OF True, of segs] next_boundary_le [of segs a b]
      by (intro interest_numerator_split) auto
    have "accrue_loop segs p b ?n ?acc = Inr (?acc + interest_numerator segs p ?n b)"
      using "1.IH" [OF True] "1.prems" by simp
    with True r split interest_numerator_stretch [OF True, of segs p] show ?thesis
      by (simp add: accrue_loop.simps [of segs p b a acc] Let_def)
  qed
qed

section \<open>Well-formed ledgers\<close>

text \<open>
  What the class keeps between calls when it is given non-negative amounts and rates: at least
  one segment, segments in order of their start, non-negative balances.
\<close>

definition wf_facility :: "facility_ledger \<Rightarrow> bool" where
  "wf_facility f \<longleftrightarrow>
     fl_segments f \<noteq> [] \<and> sorted (map seg_start (fl_segments f)) \<and>
     (\<forall>seg \<in> set (fl_segments f). 0 \<le> seg_rate_bps seg) \<and>
     0 \<le> fl_principal f \<and> 0 \<le> fl_fees f \<and> 0 \<le> fl_interest_accum f"

lemma wf_facilityD:
  assumes "wf_facility f"
  shows "fl_segments f \<noteq> []" "0 \<le> fl_principal f" "0 \<le> fl_fees f" "0 \<le> fl_interest_accum f"
    "0 \<le> unpaid_interest f" "0 \<le> legal_debt f"
  using assms by (auto simp: wf_facility_def unpaid_interest_def legal_debt_def
      pos_imp_zdiv_nonneg_iff)

text \<open>The numerator as of a time, and the whole ledger accrued to it, in closed form.\<close>

definition accum_at :: "facility_ledger \<Rightarrow> int \<Rightarrow> int" where
  "accum_at f t = fl_interest_accum f +
     (if fl_accrual_frozen f then 0
      else interest_numerator (fl_segments f) (fl_principal f) (fl_last_accrual_at f) t)"

definition accrued_to :: "facility_ledger \<Rightarrow> int \<Rightarrow> facility_ledger" where
  "accrued_to f t = f\<lparr>fl_interest_accum := accum_at f t, fl_last_accrual_at := t\<rparr>"

lemma accrue_eq:
  assumes "fl_segments f \<noteq> []" and "fl_last_accrual_at f \<le> t"
  shows "accrue f t = Inr (accrued_to f t)"
  using assms by (auto simp: accrue_def accrued_to_def accum_at_def accrue_loop_spec)

lemma accrue_iff:
  "fl_segments f \<noteq> [] \<Longrightarrow>
    accrue f t = Inr g \<longleftrightarrow> fl_last_accrual_at f \<le> t \<and> g = accrued_to f t"
  by (cases "fl_last_accrual_at f \<le> t") (auto simp: accrue_eq, simp_all add: accrue_def)

lemma unpaid_interest_at_eq:
  assumes "fl_segments f \<noteq> []"
  shows "unpaid_interest_at f t = Inr (accum_at f t div DENOM)"
  using assms
  by (auto simp: unpaid_interest_at_def accum_at_def accrue_loop_spec unpaid_interest_def)

lemma accrued_to_simps [simp]:
  "fl_principal (accrued_to f t) = fl_principal f"
  "fl_fees (accrued_to f t) = fl_fees f"
  "fl_segments (accrued_to f t) = fl_segments f"
  "fl_terms (accrued_to f t) = fl_terms f"
  "fl_last_accrual_at (accrued_to f t) = t"
  "fl_interest_accum (accrued_to f t) = accum_at f t"
  "fl_impaired (accrued_to f t) = fl_impaired f"
  "fl_accrual_frozen (accrued_to f t) = fl_accrual_frozen f"
  "fl_history (accrued_to f t) = fl_history f"
  "fl_facility_id (accrued_to f t) = fl_facility_id f"
  "fl_opened_at (accrued_to f t) = fl_opened_at f"
  "fl_written_off_principal (accrued_to f t) = fl_written_off_principal f"
  "fl_written_off_interest (accrued_to f t) = fl_written_off_interest f"
  by (simp_all add: accrued_to_def)

lemma accum_at_accrued_to:
  "fl_last_accrual_at f \<le> t \<Longrightarrow> t \<le> u \<Longrightarrow> accum_at (accrued_to f t) u = accum_at f u"
  using interest_numerator_split [of "fl_last_accrual_at f" t u "fl_segments f" "fl_principal f"]
  by (simp add: accum_at_def)

lemma rate_at_nonneg:
  assumes "segs \<noteq> []" and "\<forall>seg \<in> set segs. 0 \<le> seg_rate_bps seg"
  shows "0 \<le> rate_at segs t"
proof -
  have "0 \<le> foldl (\<lambda>rate seg. if seg_start seg \<le> t then seg_rate_bps seg else rate) r xs"
    if "0 \<le> r" "set xs \<subseteq> set segs" for r xs
    using that assms(2) by (induction xs arbitrary: r) auto
  then show ?thesis using assms by (cases segs) (auto simp: rate_at_def)
qed

lemma accum_at_mono: "wf_facility f \<Longrightarrow> fl_interest_accum f \<le> accum_at f t"
  by (auto simp: accum_at_def interest_numerator_def wf_facility_def rate_at_nonneg
      intro!: sum_nonneg mult_nonneg_nonneg)

lemma accum_units_nonneg: "wf_facility f \<Longrightarrow> 0 \<le> accum_at f t div DENOM"
  using accum_at_mono [of f t] wf_facilityD(4) [of f] by (simp add: pos_imp_zdiv_nonneg_iff)

lemma wf_new_facility: "0 \<le> t_rate_bps tms \<Longrightarrow> wf_facility (new_facility fid tms t)"
  by (simp add: wf_facility_def new_facility_def)

lemma wf_accrued_to: "wf_facility f \<Longrightarrow> wf_facility (accrued_to f t)"
  using accum_at_mono [of f t] by (auto simp: wf_facility_def)

lemma wf_accrue: "wf_facility f \<Longrightarrow> accrue f t = Inr g \<Longrightarrow> wf_facility g"
  by (auto simp: accrue_iff wf_facilityD wf_accrued_to)

lemma set_rate_eq:
  assumes "fl_segments f \<noteq> []" and "set_rate f t rate = Inr g"
  shows "fl_last_accrual_at f \<le> t"
    and "g = (accrued_to f t)\<lparr>fl_segments := sort_key seg_start
           (filter (\<lambda>seg. seg_start seg \<noteq> t) (fl_segments f) @ [\<lparr>seg_start = t, seg_rate_bps = rate\<rparr>]),
           fl_history := fl_history f @ [HSetRate t rate]\<rparr>"
proof -
  have kept: "(if \<exists>seg \<in> set xs. seg_start seg = t then filter (\<lambda>seg. seg_start seg \<noteq> t) xs else xs) =
      filter (\<lambda>seg. seg_start seg \<noteq> t) xs" for xs
    by (auto simp: filter_id_conv)
  from assms show "fl_last_accrual_at f \<le> t"
    and "g = (accrued_to f t)\<lparr>fl_segments := sort_key seg_start
           (filter (\<lambda>seg. seg_start seg \<noteq> t) (fl_segments f) @ [\<lparr>seg_start = t, seg_rate_bps = rate\<rparr>]),
           fl_history := fl_history f @ [HSetRate t rate]\<rparr>"
    unfolding set_rate_def kept Let_def by (simp_all add: then_do_eq_Inr accrue_iff)
qed

lemma wf_set_rate:
  assumes "wf_facility f" and "0 \<le> rate" and "set_rate f t rate = Inr g"
  shows "wf_facility g"
  using wf_accrued_to [OF assms(1), of t] assms(2)
  unfolding set_rate_eq(2) [OF wf_facilityD(1) [OF assms(1)] assms(3)] wf_facility_def
  by (auto dest!: arg_cong [where f = length])

lemma borrow_eq:
  assumes "fl_segments f \<noteq> []" and "borrow f t amount = Inr g"
  defines "cap \<equiv> if t_capitalize_unpaid_interest (fl_terms f) then accum_at f t div DENOM else 0"
  shows "0 < amount" and "fl_last_accrual_at f \<le> t"
    and "g = (accrued_to f t)\<lparr>fl_principal := fl_principal f + cap + amount,
           fl_interest_accum := accum_at f t - cap * DENOM,
           fl_history := fl_history f @ [HBorrow t amount]\<rparr>"
  using assms(1,2)
  by (simp_all add: borrow_def then_do_eq_Inr accrue_iff Let_def unpaid_interest_def cap_def
      split: if_split_asm)

lemma wf_borrow:
  assumes "wf_facility f" and "borrow f t amount = Inr g"
  shows "wf_facility g"
proof -
  let ?cap = "if t_capitalize_unpaid_interest (fl_terms f) then accum_at f t div DENOM else 0"
  note eq = borrow_eq [OF wf_facilityD(1) [OF assms(1)] assms(2)]
  have acc: "0 \<le> accum_at f t"
    using accum_at_mono [OF assms(1), of t] wf_facilityD(4) [OF assms(1)] by linarith
  have "accum_at f t div DENOM * DENOM \<le> accum_at f t" by (simp add: div_mult_le_self)
  then have "0 \<le> accum_at f t - ?cap * DENOM" using acc by simp
  moreover have "0 \<le> fl_principal f + ?cap + amount"
    using acc eq(1) wf_facilityD(2) [OF assms(1)] by (simp add: pos_imp_zdiv_nonneg_iff)
  ultimately show ?thesis
    using wf_accrued_to [OF assms(1), of t] unfolding eq(3) wf_facility_def by simp
qed

lemma wf_charge_fee:
  "wf_facility f \<Longrightarrow> 0 \<le> amount \<Longrightarrow> charge_fee f t amount = Inr g \<Longrightarrow> wf_facility g"
  using wf_accrued_to [of f t] wf_facilityD(1) [of f]
  by (auto simp: charge_fee_def then_do_eq_Inr accrue_iff wf_facility_def)

text \<open>The waterfall in closed form on a well-formed ledger.\<close>

lemma allocate_repayment_cases:
  assumes "wf_facility f" and "allocate_repayment f t amount = Inr (g, al)"
  shows "0 < amount" and "fl_last_accrual_at f \<le> t"
    and "ra_fees al = min amount (fl_fees f)"
    and "ra_interest al = min (amount - ra_fees al) (accum_at f t div DENOM)"
    and "ra_principal al = min (amount - ra_fees al - ra_interest al) (fl_principal f)"
    and "ra_excess al = amount - ra_fees al - ra_interest al - ra_principal al"
    and "g = (accrued_to f t)\<lparr>fl_fees := fl_fees f - ra_fees al,
              fl_interest_accum := accum_at f t - ra_interest al * DENOM,
              fl_principal := fl_principal f - ra_principal al,
              fl_history := fl_history f @
                [HRepay t (ra_fees al) (ra_interest al) (ra_principal al) (ra_excess al)]\<rparr>"
  using assms
  by (auto simp: allocate_repayment_def result_simps accrue_iff wf_facilityD Let_def
      unpaid_interest_def split: if_splits)

lemma allocate_repayment_total:
  assumes "wf_facility f" and "0 < amount" and "fl_last_accrual_at f \<le> t"
  shows "\<exists>g al. allocate_repayment f t amount = Inr (g, al)"
  using assms by (simp add: allocate_repayment_def accrue_eq wf_facilityD Let_def)

lemma wf_allocate_repayment:
  assumes "wf_facility f" and "allocate_repayment f t amount = Inr (g, al)"
  shows "wf_facility g"
proof -
  note c = allocate_repayment_cases [OF assms]
  have "ra_interest al \<le> accum_at f t div DENOM" by (simp add: c)
  then have "ra_interest al * DENOM \<le> accum_at f t div DENOM * DENOM"
    by (intro mult_right_mono) (auto simp: less_imp_le)
  also have "\<dots> \<le> accum_at f t" by (simp add: div_mult_le_self)
  finally have "0 \<le> accum_at f t - ra_interest al * DENOM" by simp
  moreover have "ra_fees al \<le> fl_fees f" "ra_principal al \<le> fl_principal f" by (simp_all add: c)
  ultimately show ?thesis
    using wf_accrued_to [OF assms(1), of t] by (simp add: wf_facility_def c(7))
qed

lemmas wf_facility_ops =
  wf_new_facility wf_accrue wf_set_rate wf_borrow wf_charge_fee wf_allocate_repayment

section \<open>Properties\<close>

text \<open>C1: accrual is exact. On a facility that accrues, \<open>accrue(to_ts)\<close> adds to the numerator
  principal times rate for every second since the last accrual, each second at the rate segment
  in force then, and moves the accrual clock; it changes nothing else.\<close>

theorem accrue_exact:
  assumes "wf_facility f" and "\<not> fl_accrual_frozen f" and "fl_last_accrual_at f \<le> t"
  shows "accrue f t = Inr (f\<lparr>fl_interest_accum := fl_interest_accum f +
      (\<Sum>u \<in> {fl_last_accrual_at f..<t}. fl_principal f * rate_at (fl_segments f) u),
      fl_last_accrual_at := t\<rparr>)"
  using assms
  by (simp add: accrue_eq wf_facilityD accrued_to_def accum_at_def interest_numerator_def)

definition sample_facility :: facility_ledger where
  "sample_facility =
    (new_facility ''f1'' \<lparr>t_rate_bps = 1000, t_capitalize_unpaid_interest = False, t_test_only = True\<rparr> 0)
      \<lparr>fl_principal := 500000, fl_fees := 30, fl_segments :=
         [\<lparr>seg_start = 0, seg_rate_bps = 1000\<rparr>, \<lparr>seg_start = 2, seg_rate_bps = 2000\<rparr>]\<rparr>"

lemma sample_facility_wf [simp]: "wf_facility sample_facility"
  by (simp add: sample_facility_def new_facility_def wf_facility_def)

lemma sample_facility_fields [simp]:
  "\<not> fl_accrual_frozen sample_facility" "fl_last_accrual_at sample_facility = 0"
  by (simp_all add: sample_facility_def new_facility_def)

theorem accrue_exact_witness:
  "accrue sample_facility 3 = Inr (sample_facility\<lparr>fl_interest_accum :=
     fl_interest_accum sample_facility +
      (\<Sum>u \<in> {fl_last_accrual_at sample_facility..<3}.
         fl_principal sample_facility * rate_at (fl_segments sample_facility) u),
     fl_last_accrual_at := 3\<rparr>)"
  by (rule accrue_exact) simp_all

text \<open>Interest does not depend on how often \<open>accrue()\<close> is called. Accruing to an
  intermediate time and then to a later one gives the same ledger as accruing once, and
  \<open>unpaid_interest_at\<close>, which never writes, returns the units \<open>accrue\<close> would leave.\<close>

theorem accrue_schedule_independent:
  assumes "wf_facility f" and "fl_last_accrual_at f \<le> t" and "t \<le> u"
    and "accrue f t = Inr g"
  shows "accrue g u = accrue f u \<and> unpaid_interest_at g u = unpaid_interest_at f u \<and>
    (\<exists>h. accrue f u = Inr h \<and> unpaid_interest_at f u = Inr (unpaid_interest h))"
proof (intro conjI)
  have ne: "fl_segments f \<noteq> []" by (rule wf_facilityD [OF assms(1)])
  have g: "g = accrued_to f t" using assms(4) by (simp add: accrue_iff ne)
  have acc: "accum_at g u = accum_at f u" by (simp add: g accum_at_accrued_to assms)
  have "accrued_to g u = accrued_to f u" using acc by (simp add: accrued_to_def g)
  then show "accrue g u = accrue f u"
    using assms ne by (simp add: accrue_eq g)
  show "unpaid_interest_at g u = unpaid_interest_at f u"
    using acc ne by (simp add: unpaid_interest_at_eq g)
  show "\<exists>h. accrue f u = Inr h \<and> unpaid_interest_at f u = Inr (unpaid_interest h)"
    using assms ne by (simp add: accrue_eq unpaid_interest_at_eq unpaid_interest_def)
qed

theorem accrue_schedule_independent_witness:
  "\<exists>g. accrue sample_facility 1 = Inr g \<and> accrue g 3 = accrue sample_facility 3"
proof -
  have a: "accrue sample_facility 1 = Inr (accrued_to sample_facility 1)"
    by (simp add: accrue_eq wf_facilityD)
  then show ?thesis
    using accrue_schedule_independent [of sample_facility 1 3, OF _ _ _ a] by simp
qed

lemma rate_at_last:
  assumes "filter (\<lambda>s. seg_start s \<le> u) segs \<noteq> []"
  shows "rate_at segs u = seg_rate_bps (last (filter (\<lambda>s. seg_start s \<le> u) segs))"
proof -
  have "foldl (\<lambda>rate seg. if seg_start seg \<le> u then seg_rate_bps seg else rate) r xs =
      (if filter (\<lambda>s. seg_start s \<le> u) xs = [] then r
       else seg_rate_bps (last (filter (\<lambda>s. seg_start s \<le> u) xs)))" for r xs
    by (induction xs arbitrary: r) auto
  from this [of "seg_rate_bps (hd segs)" segs] assms show ?thesis by (simp only: rate_at_def if_False)
qed

lemma rate_at_set_rate:
  assumes segs: "segs' = sort_key seg_start
      (filter (\<lambda>s. seg_start s \<noteq> t) segs @ [\<lparr>seg_start = t, seg_rate_bps = rate\<rparr>])"
    and sorted: "sorted (map seg_start segs)"
  shows "filter (\<lambda>s. seg_start s \<le> u) segs \<noteq> [] \<Longrightarrow> u < t \<Longrightarrow> rate_at segs' u = rate_at segs u"
    and "rate_at segs' t = rate"
proof -
  assume u: "u < t" and ne: "filter (\<lambda>s. seg_start s \<le> u) segs \<noteq> []"
  have "filter (\<lambda>s. seg_start s \<le> u) (filter (\<lambda>s. seg_start s \<noteq> t) segs) =
      filter (\<lambda>s. seg_start s \<le> u) segs"
    using u by (auto simp: filter_filter intro: filter_cong)
  then have "filter (\<lambda>s. seg_start s \<le> u) segs' = filter (\<lambda>s. seg_start s \<le> u) segs"
    using u sorted by (simp add: segs filter_sort sort_key_id_if_sorted sorted_filter
        del: filter_filter)
  with ne show "rate_at segs' u = rate_at segs u" by (simp add: rate_at_last)
next
  let ?xs = "filter (\<lambda>s. seg_start s \<le> t) (filter (\<lambda>s. seg_start s \<noteq> t) segs)"
  let ?new = "\<lparr>seg_start = t, seg_rate_bps = rate\<rparr>"
  have "sorted (map seg_start (?xs @ [?new]))"
    using sorted by (auto simp: sorted_append sorted_filter)
  then have "filter (\<lambda>s. seg_start s \<le> t) segs' = ?xs @ [?new]"
    by (simp add: segs filter_sort sort_key_id_if_sorted del: filter_filter)
  then show "rate_at segs' t = rate" by (simp add: rate_at_last)
qed

text \<open>A rate change applies forward only. After \<open>set_rate(at, rate)\<close> the interest as of
  \<open>at\<close> is what the old rates gave, the rate in force at every second from the first segment up
  to \<open>at\<close> is unchanged, and the new rate is the one in force at \<open>at\<close>.\<close>

theorem set_rate_forward_only:
  assumes "wf_facility f" and "set_rate f t rate = Inr g"
  shows "unpaid_interest_at f t = Inr (unpaid_interest g) \<and>
    (\<forall>u. seg_start (hd (fl_segments f)) \<le> u \<and> u < t \<longrightarrow>
      rate_at (fl_segments g) u = rate_at (fl_segments f) u) \<and>
    rate_at (fl_segments g) t = rate"
proof (intro conjI allI impI; (elim conjE)?)
  have ne: "fl_segments f \<noteq> []" by (rule wf_facilityD [OF assms(1)])
  note eq = set_rate_eq [OF ne assms(2)]
  have sorted: "sorted (map seg_start (fl_segments f))"
    using assms(1) by (simp add: wf_facility_def)
  show "unpaid_interest_at f t = Inr (unpaid_interest g)"
    by (simp add: eq(2) unpaid_interest_at_eq ne unpaid_interest_def)
  show "rate_at (fl_segments g) t = rate"
    by (rule rate_at_set_rate(2) [OF _ sorted]) (simp add: eq(2))
  fix u assume u: "seg_start (hd (fl_segments f)) \<le> u" "u < t"
  have "filter (\<lambda>s. seg_start s \<le> u) (fl_segments f) \<noteq> []"
    using u(1) ne by (cases "fl_segments f") auto
  then show "rate_at (fl_segments g) u = rate_at (fl_segments f) u"
    using u(2) by (intro rate_at_set_rate(1) [OF _ sorted]) (simp_all add: eq(2))
qed

theorem set_rate_forward_only_witness:
  "\<exists>g. set_rate sample_facility 5 700 = Inr g \<and>
     rate_at (fl_segments g) 3 = rate_at (fl_segments sample_facility) 3 \<and>
     rate_at (fl_segments g) 5 = 700"
proof -
  obtain g where g: "set_rate sample_facility 5 700 = Inr g"
    by (simp add: set_rate_def accrue_eq wf_facilityD Let_def)
  have h: "seg_start (hd (fl_segments sample_facility)) \<le> 3"
    by (simp add: sample_facility_def)
  show ?thesis
    using g h set_rate_forward_only [OF sample_facility_wf g] by simp
qed

text \<open>C2: the repayment waterfall. A repayment of a positive amount, not dated before the last
  accrual, is accepted and split exactly into fees, interest, principal and excess in that
  order of priority: the parts are non-negative and sum to the amount, the debt as of the
  payment falls by exactly the part that is not excess, a lower tier is paid only once every
  higher tier is cleared, and there is excess only when nothing is owed.\<close>

theorem repayment_waterfall:
  assumes "wf_facility f" and "0 < amount" and "fl_last_accrual_at f \<le> t"
  shows "\<exists>g al. allocate_repayment f t amount = Inr (g, al) \<and>
    ra_fees al + ra_interest al + ra_principal al + ra_excess al = amount \<and>
    0 \<le> ra_fees al \<and> 0 \<le> ra_interest al \<and> 0 \<le> ra_principal al \<and> 0 \<le> ra_excess al \<and>
    legal_debt g = legal_debt (accrued_to f t) - (amount - ra_excess al) \<and>
    (0 < ra_interest al \<or> 0 < ra_principal al \<or> 0 < ra_excess al \<longrightarrow> fl_fees g = 0) \<and>
    (0 < ra_principal al \<or> 0 < ra_excess al \<longrightarrow> unpaid_interest g = 0) \<and>
    (0 < ra_excess al \<longrightarrow> legal_debt g = 0)"
proof -
  obtain g al where r: "allocate_repayment f t amount = Inr (g, al)"
    using allocate_repayment_total [OF assms] by blast
  note c = allocate_repayment_cases [OF assms(1) r]
  have i0: "0 \<le> accum_at f t div DENOM" by (rule accum_units_nonneg [OF assms(1)])
  have ui: "unpaid_interest g = accum_at f t div DENOM - ra_interest al"
    by (simp add: unpaid_interest_def c(7))
  have fees: "fl_fees g = fl_fees f - ra_fees al" and pr: "fl_principal g = fl_principal f - ra_principal al"
    by (simp_all add: c(7))
  have ld: "legal_debt (accrued_to f t) = fl_principal f + accum_at f t div DENOM + fl_fees f"
    by (simp add: legal_debt_def unpaid_interest_def)
  note nonneg = assms(2) wf_facilityD(2,3) [OF assms(1)] i0
  have sum: "ra_fees al + ra_interest al + ra_principal al + ra_excess al = amount"
    by (simp add: c(6))
  have pos: "0 \<le> ra_fees al" "0 \<le> ra_interest al" "0 \<le> ra_principal al" "0 \<le> ra_excess al"
    using nonneg c(3-6) by linarith+
  have order: "0 < ra_interest al \<or> 0 < ra_principal al \<or> 0 < ra_excess al \<longrightarrow> fl_fees g = 0"
    "0 < ra_principal al \<or> 0 < ra_excess al \<longrightarrow> unpaid_interest g = 0"
    "0 < ra_excess al \<longrightarrow> fl_principal g = 0"
    using nonneg c(3-6) unfolding fees ui pr by linarith+
  have debt: "legal_debt g = legal_debt (accrued_to f t) - (amount - ra_excess al)"
    unfolding legal_debt_def [of g] ld ui fees pr using sum by simp
  have "0 < ra_excess al \<longrightarrow> legal_debt g = 0"
    using order by (simp add: legal_debt_def)
  with r sum pos order(1,2) debt show ?thesis by blast
qed

theorem repayment_waterfall_witness:
  "\<exists>g al. allocate_repayment sample_facility 3 100 = Inr (g, al) \<and>
     ra_fees al + ra_interest al + ra_principal al + ra_excess al = 100 \<and>
     legal_debt g = legal_debt (accrued_to sample_facility 3) - (100 - ra_excess al)"
  using repayment_waterfall [OF sample_facility_wf, of 100 3] by auto

end
