(* ===== verification/Vault_Ledger.thy ===== *)
theory Vault_Ledger
  imports Facility_Ledger
begin

text \<open>
  The LP ledger of the accounting reference model
  (\<open>offchain/gpu/hashcredit_gpu/accounting/reference.py\<close>, class \<open>VaultLedger\<close> and
  \<open>borrowing_base\<close>): net asset value, virtual-offset shares, draws, the cash pipeline from
  source escrow to allocation, reserve, impairment, write-off and recovery. A method is a
  function from the ledger to its outcome and the ledger it leaves, also when it raises: several
  methods write before a callee can raise. The facility objects live in the \<open>facilities\<close>
  dictionary, so a mutation of one is an update of that dictionary.
\<close>

section \<open>State\<close>

datatype journal_entry =
    JDeposit string int int
  | JWithdraw string int int
  | JDonation int
  | JDraw string int
  | JSourceReceipt string int
  | JLegStart string int
  | JDestinationReceipt string int
  | JRepayFor string repay_alloc
  | JReserveFund string int
  | JImpair string int
  | JWriteOff string int int int
  | JRecovery string repay_alloc

record vault_ledger =
  vl_virtual_shares :: int
  vl_virtual_assets :: int
  vl_clock :: int
  vl_cash :: int
  vl_total_shares :: int
  vl_shares_of :: "(string, int) dict"
  vl_facilities :: "(string, facility_ledger) dict"
  vl_impairment_by :: "(string, int) dict"
  vl_borrower_reserve :: "(string, int) dict"
  vl_borrower_refundable :: "(string, int) dict"
  vl_source_escrow :: "(string, int) dict"
  vl_in_flight :: "(string, int) dict"
  vl_journal :: "journal_entry list"

definition new_vault :: vault_ledger where
  "new_vault = \<lparr> vl_virtual_shares = 1000, vl_virtual_assets = 1, vl_clock = 0, vl_cash = 0,
     vl_total_shares = 0, vl_shares_of = [], vl_facilities = [], vl_impairment_by = [],
     vl_borrower_reserve = [], vl_borrower_refundable = [], vl_source_escrow = [],
     vl_in_flight = [], vl_journal = [] \<rparr>"

type_synonym 'a vault_result = "(accounting_error + 'a) \<times> vault_ledger"

abbreviation journal :: "journal_entry \<Rightarrow> vault_ledger \<Rightarrow> vault_ledger" where
  "journal j v \<equiv> v\<lparr>vl_journal := vl_journal v @ [j]\<rparr>"

section \<open>Net asset value\<close>

definition performing :: "vault_ledger \<Rightarrow> facility_ledger list" where
  "performing v = filter (\<lambda>f. \<not> fl_impaired f) (map snd (vl_facilities v))"

definition performing_principal :: "vault_ledger \<Rightarrow> int" where
  "performing_principal v = sum_list (map fl_principal (performing v))"

definition performing_interest :: "vault_ledger \<Rightarrow> accounting_error + int" where
  "performing_interest v =
    sum_results (map (\<lambda>f. unpaid_interest_at f (vl_clock v)) (performing v))"

definition tick :: "vault_ledger \<Rightarrow> int \<Rightarrow> unit vault_result" where
  "tick v t = (if t < vl_clock v then (Inl ClockBackwards, v) else (Inr (), v\<lparr>vl_clock := t\<rparr>))"

text \<open>\<open>self.facilities[fid]\<close> raises \<open>KeyError\<close> for an impairment of an unknown facility.\<close>

definition impairment :: "vault_ledger \<Rightarrow> accounting_error + int" where
  "impairment v = sum_results
    (map (\<lambda>(fid, a). case map_of (vl_facilities v) fid of
             None \<Rightarrow> Inl KeyError
           | Some f \<Rightarrow> Inr (if fl_impaired f then 0 else a))
       (vl_impairment_by v))"

definition nav :: "vault_ledger \<Rightarrow> accounting_error + int" where
  "nav v = then_do (performing_interest v) (\<lambda>pi. then_do (impairment v) (\<lambda>imp.
     Inr (vl_cash v + performing_principal v + pi - imp)))"

definition total_legal_debt :: "vault_ledger \<Rightarrow> accounting_error + int" where
  "total_legal_debt v = sum_results
    (map (\<lambda>f. then_do (unpaid_interest_at f (vl_clock v)) (\<lambda>i. Inr (fl_principal f + i + fl_fees f)))
       (map snd (vl_facilities v)))"

section \<open>Shares\<close>

text \<open>The two conversions, over the pool (\<open>nav + virtual_assets\<close>) and the supply
  (\<open>total_shares + virtual_shares\<close>); both round down.\<close>

definition shares_for :: "int \<Rightarrow> int \<Rightarrow> int \<Rightarrow> int" where
  "shares_for assets pool supply = assets * supply div pool"

definition assets_for :: "int \<Rightarrow> int \<Rightarrow> int \<Rightarrow> int" where
  "assets_for shares pool supply = shares * pool div supply"

definition convert_to_shares :: "vault_ledger \<Rightarrow> int \<Rightarrow> accounting_error + int" where
  "convert_to_shares v assets = then_do (nav v) (\<lambda>n.
     if n + vl_virtual_assets v = 0 then Inl ZeroDivisionError
     else Inr (shares_for assets (n + vl_virtual_assets v)
                 (vl_total_shares v + vl_virtual_shares v)))"

definition convert_to_assets :: "vault_ledger \<Rightarrow> int \<Rightarrow> accounting_error + int" where
  "convert_to_assets v shares = then_do (nav v) (\<lambda>n.
     if vl_total_shares v + vl_virtual_shares v = 0 then Inl ZeroDivisionError
     else Inr (assets_for shares (n + vl_virtual_assets v)
                 (vl_total_shares v + vl_virtual_shares v)))"

definition deposit :: "vault_ledger \<Rightarrow> string \<Rightarrow> int \<Rightarrow> int vault_result" where
  "deposit v lp assets =
    (case convert_to_shares v assets of
       Inl e \<Rightarrow> (Inl e, v)
     | Inr shares \<Rightarrow>
         if shares \<le> 0 then (Inl DepositTooSmall, v)
         else (Inr shares, journal (JDeposit lp assets shares)
           (v\<lparr>vl_cash := vl_cash v + assets,
              vl_total_shares := vl_total_shares v + shares,
              vl_shares_of := dict_set lp (dict_get0 (vl_shares_of v) lp + shares) (vl_shares_of v)\<rparr>)))"

text \<open>
  \<open>self.shares_of[lp] -= shares\<close> raises \<open>KeyError\<close> for an account without an entry (reached
  only when \<open>shares \<le> 0\<close>); the cash and the supply have been written by then.
\<close>

definition withdraw :: "vault_ledger \<Rightarrow> string \<Rightarrow> int \<Rightarrow> int vault_result" where
  "withdraw v lp shares =
    (if shares > dict_get0 (vl_shares_of v) lp then (Inl InsufficientShares, v)
     else case convert_to_assets v shares of
       Inl e \<Rightarrow> (Inl e, v)
     | Inr assets \<Rightarrow>
         if assets > vl_cash v then (Inl WithdrawalExceedsCash, v)
         else let v1 = v\<lparr>vl_cash := vl_cash v - assets, vl_total_shares := vl_total_shares v - shares\<rparr>
              in case map_of (vl_shares_of v) lp of
                   None \<Rightarrow> (Inl KeyError, v1)
                 | Some held \<Rightarrow> (Inr assets, journal (JWithdraw lp assets shares)
                     (v1\<lparr>vl_shares_of := dict_set lp (held - shares) (vl_shares_of v)\<rparr>)))"

definition donate :: "vault_ledger \<Rightarrow> int \<Rightarrow> unit vault_result" where
  "donate v assets = (Inr (), journal (JDonation assets) (v\<lparr>vl_cash := vl_cash v + assets\<rparr>))"

section \<open>Lending and the cash pipeline\<close>

definition open_facility :: "vault_ledger \<Rightarrow> string \<Rightarrow> terms \<Rightarrow> int \<Rightarrow> facility_ledger vault_result" where
  "open_facility v fid tms t =
    (let f = new_facility fid tms t
     in (Inr f, v\<lparr>vl_facilities := dict_set fid f (vl_facilities v)\<rparr>))"

definition draw :: "vault_ledger \<Rightarrow> string \<Rightarrow> int \<Rightarrow> int \<Rightarrow> unit vault_result" where
  "draw v fid t amount =
    (case map_of (vl_facilities v) fid of
       None \<Rightarrow> (Inl KeyError, v)
     | Some f \<Rightarrow>
         if amount > vl_cash v then (Inl InsufficientVaultCash, v)
         else and_then (tick v t) (\<lambda>_ v.
           case borrow f t amount of
             Inl e \<Rightarrow> (Inl e, v)
           | Inr g \<Rightarrow> (Inr (), journal (JDraw fid amount)
               (v\<lparr>vl_facilities := dict_set fid g (vl_facilities v), vl_cash := vl_cash v - amount\<rparr>))))"

definition source_receipt :: "vault_ledger \<Rightarrow> string \<Rightarrow> int \<Rightarrow> unit vault_result" where
  "source_receipt v sid amount =
    (Inr (), journal (JSourceReceipt sid amount)
      (v\<lparr>vl_source_escrow :=
           dict_set sid (dict_get0 (vl_source_escrow v) sid + amount) (vl_source_escrow v)\<rparr>))"

text \<open>\<open>self.source_escrow[sid] -= amount\<close> raises \<open>KeyError\<close> when there is no entry (and
  \<open>amount \<le> 0\<close> passed the check).\<close>

definition start_leg :: "vault_ledger \<Rightarrow> string \<Rightarrow> int \<Rightarrow> unit vault_result" where
  "start_leg v sid amount =
    (if amount > dict_get0 (vl_source_escrow v) sid then (Inl LegExceedsEscrow, v)
     else case map_of (vl_source_escrow v) sid of
       None \<Rightarrow> (Inl KeyError, v)
     | Some held \<Rightarrow> (Inr (), journal (JLegStart sid amount)
         (v\<lparr>vl_source_escrow := dict_set sid (held - amount) (vl_source_escrow v),
            vl_in_flight := dict_set sid (dict_get0 (vl_in_flight v) sid + amount) (vl_in_flight v)\<rparr>)))"

definition destination_receipt :: "vault_ledger \<Rightarrow> string \<Rightarrow> int \<Rightarrow> unit vault_result" where
  "destination_receipt v sid amount =
    (if amount > dict_get0 (vl_in_flight v) sid then (Inl ReceiptExceedsInFlight, v)
     else case map_of (vl_in_flight v) sid of
       None \<Rightarrow> (Inl KeyError, v)
     | Some held \<Rightarrow> (Inr (), journal (JDestinationReceipt sid amount)
         (v\<lparr>vl_in_flight := dict_set sid (held - amount) (vl_in_flight v),
            vl_cash := vl_cash v + amount\<rparr>)))"

text \<open>Storing the result of a facility call and parking its excess, as \<open>repay_for\<close> and
  \<open>recover\<close> both do.\<close>

definition settle_alloc :: "vault_ledger \<Rightarrow> string \<Rightarrow> facility_ledger \<Rightarrow> repay_alloc \<Rightarrow> vault_ledger" where
  "settle_alloc v fid g al =
    (let v1 = v\<lparr>vl_facilities := dict_set fid g (vl_facilities v)\<rparr>
     in if ra_excess al \<noteq> 0
        then v1\<lparr>vl_cash := vl_cash v - ra_excess al,
                vl_borrower_refundable := dict_set fid
                  (dict_get0 (vl_borrower_refundable v) fid + ra_excess al)
                  (vl_borrower_refundable v)\<rparr>
        else v1)"

definition repay_for ::
  "vault_ledger \<Rightarrow> string \<Rightarrow> int \<Rightarrow> int \<Rightarrow> string \<Rightarrow> repay_alloc vault_result" where
  "repay_for v fid t amount payer =
    (case map_of (vl_facilities v) fid of
       None \<Rightarrow> (Inl KeyError, v)
     | Some f \<Rightarrow> and_then (tick v t) (\<lambda>_ v.
         let v1 = (if payer = ''third_party'' then v\<lparr>vl_cash := vl_cash v + amount\<rparr> else v)
         in case allocate_repayment f t amount of
              Inl e \<Rightarrow> (Inl e, v1)
            | Inr (g, al) \<Rightarrow> (Inr al, journal (JRepayFor fid al) (settle_alloc v1 fid g al))))"

definition fund_reserve :: "vault_ledger \<Rightarrow> string \<Rightarrow> int \<Rightarrow> unit vault_result" where
  "fund_reserve v fid amount =
    (Inr (), journal (JReserveFund fid amount)
      (v\<lparr>vl_borrower_reserve :=
           dict_set fid (dict_get0 (vl_borrower_reserve v) fid + amount) (vl_borrower_reserve v)\<rparr>))"

section \<open>Losses\<close>

definition impair :: "vault_ledger \<Rightarrow> string \<Rightarrow> int \<Rightarrow> unit vault_result" where
  "impair v fid amount =
    (case map_of (vl_facilities v) fid of
       None \<Rightarrow> (Inl KeyError, v)
     | Some f \<Rightarrow>
         let already = dict_get0 (vl_impairment_by v) fid
         in if amount > fl_principal f + unpaid_interest f - already
            then (Inl ImpairmentExceedsExposure, v)
            else (Inr (), journal (JImpair fid amount)
              (v\<lparr>vl_impairment_by := dict_set fid (already + amount) (vl_impairment_by v)\<rparr>)))"

record write_off_result =
  wo_reserve_used :: int
  wo_loss_principal :: int
  wo_loss_interest :: int

text \<open>The last part of \<open>write_off\<close>, on the facility as it stands after the reserve was used.\<close>

definition write_off_rest ::
  "vault_ledger \<Rightarrow> string \<Rightarrow> facility_ledger \<Rightarrow> int \<Rightarrow> write_off_result vault_result" where
  "write_off_rest v fid f used =
    (let lp = fl_principal f; li = unpaid_interest f;
         g = f\<lparr>fl_impaired := True, fl_accrual_frozen := True,
               fl_written_off_principal := fl_written_off_principal f + lp,
               fl_written_off_interest := fl_written_off_interest f + li\<rparr>
     in (Inr \<lparr>wo_reserve_used = used, wo_loss_principal = lp, wo_loss_interest = li\<rparr>,
         journal (JWriteOff fid used lp li)
           (v\<lparr>vl_impairment_by := dict_pop fid (vl_impairment_by v),
              vl_facilities := dict_set fid g (vl_facilities v)\<rparr>)))"

definition write_off :: "vault_ledger \<Rightarrow> string \<Rightarrow> int \<Rightarrow> write_off_result vault_result" where
  "write_off v fid t =
    (case map_of (vl_facilities v) fid of
       None \<Rightarrow> (Inl KeyError, v)
     | Some f \<Rightarrow> and_then (tick v t) (\<lambda>_ v.
         case accrue f t of
           Inl e \<Rightarrow> (Inl e, v)
         | Inr f \<Rightarrow>
             let v = v\<lparr>vl_facilities := dict_set fid f (vl_facilities v)\<rparr>;
                 reserve = dict_get0 (vl_borrower_reserve v) fid;
                 used = min reserve (legal_debt f)
             in if used = 0 then write_off_rest v fid f used
                else case map_of (vl_borrower_reserve v) fid of
                  None \<Rightarrow> (Inl KeyError, v)
                | Some held \<Rightarrow>
                    let v = v\<lparr>vl_borrower_reserve := dict_set fid (held - used) (vl_borrower_reserve v),
                              vl_cash := vl_cash v + used\<rparr>
                    in case allocate_repayment f t used of
                         Inl e \<Rightarrow> (Inl e, v)
                       | Inr (g, _) \<Rightarrow> write_off_rest v fid g used))"

definition recover :: "vault_ledger \<Rightarrow> string \<Rightarrow> int \<Rightarrow> int \<Rightarrow> repay_alloc vault_result" where
  "recover v fid t amount =
    (case map_of (vl_facilities v) fid of
       None \<Rightarrow> (Inl KeyError, v)
     | Some f \<Rightarrow> and_then (tick v t) (\<lambda>_ v.
         let v1 = v\<lparr>vl_cash := vl_cash v + amount\<rparr>
         in case allocate_repayment f t amount of
              Inl e \<Rightarrow> (Inl e, v1)
            | Inr (g, al) \<Rightarrow> (Inr al, journal (JRecovery fid al) (settle_alloc v1 fid g al))))"

section \<open>Borrowing base\<close>

record base_receivable =
  br_native_status :: string
  br_state :: string
  br_unpaid :: int

record base_result =
  bb_eligible :: int
  bb_limit :: int
  bb_room :: int

definition base_counts :: "base_receivable \<Rightarrow> bool" where
  "base_counts r \<longleftrightarrow> br_native_status r \<in> {''NATIVE_ACCEPTED'', ''CONSUMED''} \<and>
     br_state r \<notin> {''PAID'', ''CANCELLED'', ''WRITTEN_OFF''}"

fun base_eligible :: "base_receivable list \<Rightarrow> int \<Rightarrow> int" where
  "base_eligible [] acc = acc"
| "base_eligible (r # rs) acc =
     base_eligible rs (if base_counts r then acc + br_unpaid r else acc)"

definition borrowing_base :: "base_receivable list \<Rightarrow> int \<Rightarrow> int \<Rightarrow> int \<Rightarrow> int \<Rightarrow> base_result" where
  "borrowing_base rs advance_rate_bps approved_cap debt reserved =
    (let eligible = base_eligible rs 0;
         limit = min (eligible * advance_rate_bps div BPS) approved_cap;
         room = max 0 (limit - debt - reserved)
     in \<lparr>bb_eligible = eligible, bb_limit = limit, bb_room = room\<rparr>)"

section \<open>Closed forms on well-formed books\<close>

text \<open>
  What the class keeps between calls on non-negative inputs. \<open>carrying\<close> is what a facility
  contributes to the net asset value as of a time, \<open>debt_at\<close> what its borrower owes.
\<close>

definition nonneg_dict :: "('k, int) dict \<Rightarrow> bool" where
  "nonneg_dict d \<longleftrightarrow> dict_ok d \<and> (\<forall>x \<in> snd ` set d. 0 \<le> x)"

definition wf_book :: "vault_ledger \<Rightarrow> bool" where
  "wf_book v \<longleftrightarrow> dict_ok (vl_impairment_by v) \<and> dict_ok (vl_facilities v) \<and> (\<forall>f \<in> snd ` set (vl_facilities v). wf_facility f) \<and>
     (\<forall>fid \<in> fst ` set (vl_impairment_by v). map_of (vl_facilities v) fid \<noteq> None)"

definition wf_vault :: "vault_ledger \<Rightarrow> bool" where
  "wf_vault v \<longleftrightarrow> wf_book v \<and> nonneg_dict (vl_shares_of v) \<and>
     dict_sum (\<lambda>x. x) (vl_shares_of v) = vl_total_shares v \<and>
     nonneg_dict (vl_source_escrow v) \<and> nonneg_dict (vl_in_flight v) \<and>
     nonneg_dict (vl_borrower_reserve v) \<and> nonneg_dict (vl_borrower_refundable v)"

definition carrying :: "int \<Rightarrow> facility_ledger \<Rightarrow> int" where
  "carrying t f = (if fl_impaired f then 0 else fl_principal f + accum_at f t div DENOM)"

definition debt_at :: "int \<Rightarrow> facility_ledger \<Rightarrow> int" where
  "debt_at t f = fl_principal f + accum_at f t div DENOM + fl_fees f"

definition impairment_total :: "(string, facility_ledger) dict \<Rightarrow> (string, int) dict \<Rightarrow> int" where
  "impairment_total fs d = sum_list (map (\<lambda>(fid, a). case map_of fs fid of
      None \<Rightarrow> 0 | Some f \<Rightarrow> if fl_impaired f then 0 else a) d)"

definition nav_value :: "vault_ledger \<Rightarrow> int" where
  "nav_value v = vl_cash v + dict_sum (carrying (vl_clock v)) (vl_facilities v) -
     impairment_total (vl_facilities v) (vl_impairment_by v)"

lemma wf_book_facility:
  "wf_book v \<Longrightarrow> map_of (vl_facilities v) fid = Some f \<Longrightarrow> wf_facility f"
  by (auto simp: wf_book_def dest: map_of_in_values)

lemma performing_sum:
  "sum_list (map g (performing v)) = dict_sum (\<lambda>f. if fl_impaired f then 0 else g f) (vl_facilities v)"
proof -
  have "sum_list (map g (filter (\<lambda>f. \<not> fl_impaired f) xs)) =
      sum_list (map (\<lambda>f. if fl_impaired f then 0 else g f) xs)" for xs
    by (induction xs) auto
  then show ?thesis by (simp add: performing_def dict_sum_def comp_def)
qed

lemma dict_sum_add: "dict_sum f d + dict_sum g d = dict_sum (\<lambda>x. f x + g x) d"
  by (simp add: dict_sum_def sum_list_addf comp_def)

lemma performing_interest_eq:
  assumes "wf_book v"
  shows "performing_interest v =
    Inr (sum_list (map (\<lambda>f. accum_at f (vl_clock v) div DENOM) (performing v)))"
  unfolding performing_interest_def
proof (rule sum_results_map_Inr)
  fix f assume "f \<in> set (performing v)"
  with assms have "wf_facility f" by (auto simp: performing_def wf_book_def)
  then show "unpaid_interest_at f (vl_clock v) = Inr (accum_at f (vl_clock v) div DENOM)"
    by (simp add: unpaid_interest_at_eq wf_facilityD)
qed

lemma impairment_eq:
  assumes "wf_book v"
  shows "impairment v = Inr (impairment_total (vl_facilities v) (vl_impairment_by v))"
  unfolding impairment_def impairment_total_def
proof (rule sum_results_map_Inr)
  fix p assume "p \<in> set (vl_impairment_by v)"
  with assms have "map_of (vl_facilities v) (fst p) \<noteq> None" by (auto simp: wf_book_def)
  then show "(case p of (fid, a) \<Rightarrow> case map_of (vl_facilities v) fid of
       None \<Rightarrow> Inl KeyError | Some f \<Rightarrow> Inr (if fl_impaired f then 0 else a)) =
     Inr (case p of (fid, a) \<Rightarrow> case map_of (vl_facilities v) fid of
       None \<Rightarrow> 0 | Some f \<Rightarrow> if fl_impaired f then 0 else a)"
    by (cases p) (auto split: option.splits)
qed

lemma nav_eq: "wf_book v \<Longrightarrow> nav v = Inr (nav_value v)"
  by (simp add: nav_def performing_interest_eq impairment_eq nav_value_def performing_principal_def
      performing_sum carrying_def [abs_def] dict_sum_add if_distrib cong: if_cong)

lemma total_legal_debt_eq:
  assumes "wf_book v"
  shows "total_legal_debt v = Inr (dict_sum (debt_at (vl_clock v)) (vl_facilities v))"
proof -
  have "sum_results (map (\<lambda>f. then_do (unpaid_interest_at f (vl_clock v))
          (\<lambda>i. Inr (fl_principal f + i + fl_fees f))) (map snd (vl_facilities v))) =
        Inr (sum_list (map (debt_at (vl_clock v)) (map snd (vl_facilities v))))"
  proof (rule sum_results_map_Inr)
    fix f assume "f \<in> set (map snd (vl_facilities v))"
    with assms have "wf_facility f" by (auto simp: wf_book_def)
    then show "then_do (unpaid_interest_at f (vl_clock v))
        (\<lambda>i. Inr (fl_principal f + i + fl_fees f)) = Inr (debt_at (vl_clock v) f)"
      by (simp add: unpaid_interest_at_eq wf_facilityD debt_at_def)
  qed
  then show ?thesis by (simp add: total_legal_debt_def dict_sum_def comp_def)
qed

section \<open>Share conversion as an interface\<close>

text \<open>
  What the vault promises about its two conversions is only the direction in which they round.
  Everything a holder relies on follows: neither a deposit nor a withdrawal lowers the price of
  a share, and a deposit that is withdrawn at once does not return more than it brought.
\<close>

locale rounding_down =
  fixes to_shares :: "int \<Rightarrow> int \<Rightarrow> int \<Rightarrow> int"
    and to_assets :: "int \<Rightarrow> int \<Rightarrow> int \<Rightarrow> int"
  assumes to_shares_down: "0 < pool \<Longrightarrow> to_shares a pool tot * pool \<le> a * tot"
    and to_assets_down: "0 < tot \<Longrightarrow> to_assets s pool tot * tot \<le> s * pool"
begin

lemma mint_keeps_price:
  "0 < pool \<Longrightarrow> pool * (tot + to_shares a pool tot) \<le> (pool + a) * tot"
  using to_shares_down [of pool a tot] by (simp add: algebra_simps)

lemma burn_keeps_price:
  "0 < tot \<Longrightarrow> pool * (tot - s) \<le> (pool - to_assets s pool tot) * tot"
  using to_assets_down [of tot s pool] by (simp add: algebra_simps)

lemma round_trip:
  assumes "0 < pool" and "0 < tot + to_shares a pool tot"
  shows "to_assets (to_shares a pool tot) (pool + a) (tot + to_shares a pool tot) \<le> a"
proof -
  let ?s = "to_shares a pool tot"
  let ?x = "to_assets ?s (pool + a) (tot + ?s)"
  have "?x * (tot + ?s) \<le> ?s * (pool + a)" by (rule to_assets_down [OF assms(2)])
  also have "\<dots> \<le> a * (tot + ?s)"
    using to_shares_down [OF assms(1), of a tot] by (simp add: algebra_simps)
  finally show ?thesis using assms(2) by (rule mult_right_le_imp_le)
qed

end

interpretation vault_shares: rounding_down shares_for assets_for
  by unfold_locales (simp_all add: shares_for_def assets_for_def div_mult_le_self)

text \<open>The pool and the supply a conversion is made over.\<close>

definition pool_of :: "vault_ledger \<Rightarrow> int" where
  "pool_of v = nav_value v + vl_virtual_assets v"

definition supply_of :: "vault_ledger \<Rightarrow> int" where
  "supply_of v = vl_total_shares v + vl_virtual_shares v"

lemma deposit_eq:
  assumes "wf_book v" and "deposit v lp a = (Inr sh, w)"
  shows "pool_of v \<noteq> 0" and "sh = shares_for a (pool_of v) (supply_of v)" and "0 < sh"
    and "w = journal (JDeposit lp a sh) (v\<lparr>vl_cash := vl_cash v + a,
           vl_total_shares := vl_total_shares v + sh,
           vl_shares_of := dict_set lp (dict_get0 (vl_shares_of v) lp + sh) (vl_shares_of v)\<rparr>)"
  using assms
  by (auto simp: deposit_def convert_to_shares_def nav_eq pool_of_def supply_of_def
      split: sum.splits if_splits)

lemma withdraw_eq:
  assumes "wf_book v" and "withdraw v lp sh = (Inr a, w)"
  shows "supply_of v \<noteq> 0" and "a = assets_for sh (pool_of v) (supply_of v)"
    and "a \<le> vl_cash v" and "sh \<le> dict_get0 (vl_shares_of v) lp"
    and "map_of (vl_shares_of v) lp = Some (dict_get0 (vl_shares_of v) lp)"
    and "w = journal (JWithdraw lp a sh) (v\<lparr>vl_cash := vl_cash v - a,
           vl_total_shares := vl_total_shares v - sh,
           vl_shares_of := dict_set lp (dict_get0 (vl_shares_of v) lp - sh) (vl_shares_of v)\<rparr>)"
  using assms
  by (auto simp: withdraw_def convert_to_assets_def nav_eq pool_of_def supply_of_def Let_def
      dict_get0_def split: sum.splits if_splits option.splits)

lemma deposit_pool:
  assumes "wf_book v" and "deposit v lp a = (Inr sh, w)"
  shows "pool_of w = pool_of v + a" and "supply_of w = supply_of v + sh" and "wf_book w"
  using assms(1) unfolding deposit_eq(4) [OF assms]
  by (simp_all add: pool_of_def nav_value_def supply_of_def wf_book_def)

lemma withdraw_pool:
  assumes "wf_book v" and "withdraw v lp sh = (Inr a, w)"
  shows "pool_of w = pool_of v - a" and "supply_of w = supply_of v - sh" and "wf_book w"
  using assms(1) unfolding withdraw_eq(6) [OF assms]
  by (simp_all add: pool_of_def nav_value_def supply_of_def wf_book_def)

section \<open>Effect of a facility call on the book\<close>

lemma borrow_effect:
  assumes "wf_facility f" and "borrow f t a = Inr g"
  shows "debt_at t g = debt_at t f + a" and "fl_impaired g = fl_impaired f"
    and "\<not> fl_impaired f \<Longrightarrow> carrying t g = carrying t f + a"
  unfolding borrow_eq(3) [OF wf_facilityD(1) [OF assms(1)] assms(2)]
  by (simp_all add: debt_at_def carrying_def accum_at_def)

lemma allocate_effect:
  assumes "wf_facility f" and "allocate_repayment f t a = Inr (g, al)"
  shows "debt_at t g = debt_at t f - (a - ra_excess al)" and "fl_impaired g = fl_impaired f"
    and "carrying t g =
      carrying t f - (if fl_impaired f then 0 else ra_principal al + ra_interest al)"
    and "ra_fees al + ra_interest al + ra_principal al + ra_excess al = a"
    and "0 \<le> ra_excess al"
proof -
  note c = allocate_repayment_cases [OF assms]
  show "debt_at t g = debt_at t f - (a - ra_excess al)"
    unfolding c(7) debt_at_def accum_at_def by (simp add: c(6))
  show "fl_impaired g = fl_impaired f" by (simp add: c(7))
  show "carrying t g = carrying t f - (if fl_impaired f then 0 else ra_principal al + ra_interest al)"
    unfolding c(7) carrying_def accum_at_def by simp
  show "ra_fees al + ra_interest al + ra_principal al + ra_excess al = a" by (simp add: c(6))
  have "ra_principal al \<le> a - ra_fees al - ra_interest al" by (simp add: c(5))
  then show "0 \<le> ra_excess al" by (simp add: c(6))
qed

lemma impairment_total_set:
  assumes "map_of fs fid = Some f" and "fl_impaired g = fl_impaired f"
  shows "impairment_total (dict_set fid g fs) d = impairment_total fs d"
  unfolding impairment_total_def using assms
  by (intro arg_cong [where f = sum_list] map_cong) (auto split: option.splits)

lemma nav_value_set:
  assumes "wf_book v" and "map_of (vl_facilities v) fid = Some f" and "fl_impaired g = fl_impaired f"
    and "vl_facilities w = dict_set fid g (vl_facilities v)" and "vl_impairment_by w = vl_impairment_by v"
    and "vl_clock w = vl_clock v"
  shows "nav_value w =
    nav_value v + (vl_cash w - vl_cash v) - carrying (vl_clock v) f + carrying (vl_clock v) g"
  using assms by (simp add: nav_value_def impairment_total_set dict_sum_set wf_book_def)

lemma debt_set:
  assumes "wf_book v" and "map_of (vl_facilities v) fid = Some f"
  shows "dict_sum (debt_at t) (dict_set fid g (vl_facilities v)) =
    dict_sum (debt_at t) (vl_facilities v) - debt_at t f + debt_at t g"
  using assms by (simp add: dict_sum_set wf_book_def)

lemma wf_book_set:
  assumes "wf_book v" and "wf_facility g" and "vl_facilities w = dict_set fid g (vl_facilities v)"
    and "vl_impairment_by w = vl_impairment_by v"
  shows "wf_book w"
  using assms dict_set_ball [of "vl_facilities v" wf_facility g]
  unfolding wf_book_def by (auto simp: image_iff)

lemma wf_book_clock: "wf_book (v\<lparr>vl_clock := t\<rparr>) = wf_book v"
  by (simp add: wf_book_def)

text \<open>The calls that move the clock, on the branch that returns.\<close>

lemma tick_eq: "tick v t = (Inr x, w) \<longleftrightarrow> vl_clock v \<le> t \<and> w = v\<lparr>vl_clock := t\<rparr>"
  by (auto simp: tick_def)

lemma draw_eq:
  assumes "draw v fid t a = (Inr (), w)"
  shows "\<exists>f g. map_of (vl_facilities v) fid = Some f \<and> a \<le> vl_cash v \<and> vl_clock v \<le> t \<and>
    borrow f t a = Inr g \<and> w = journal (JDraw fid a) (v\<lparr>vl_clock := t,
      vl_facilities := dict_set fid g (vl_facilities v), vl_cash := vl_cash v - a\<rparr>)"
  using assms
  by (auto simp: draw_def and_then_eq_Inr tick_eq split: option.splits if_splits sum.splits)

lemma settle_alloc_fields [simp]:
  "vl_facilities (settle_alloc v fid g al) = dict_set fid g (vl_facilities v)"
  "vl_cash (settle_alloc v fid g al) = vl_cash v - ra_excess al"
  "vl_clock (settle_alloc v fid g al) = vl_clock v"
  "vl_impairment_by (settle_alloc v fid g al) = vl_impairment_by v"
  "vl_borrower_reserve (settle_alloc v fid g al) = vl_borrower_reserve v"
  "vl_shares_of (settle_alloc v fid g al) = vl_shares_of v"
  "vl_total_shares (settle_alloc v fid g al) = vl_total_shares v"
  "vl_source_escrow (settle_alloc v fid g al) = vl_source_escrow v"
  "vl_in_flight (settle_alloc v fid g al) = vl_in_flight v"
  by (simp_all add: settle_alloc_def Let_def)

lemma repay_for_eq:
  assumes "repay_for v fid t a payer = (Inr al, w)"
  shows "\<exists>f g. map_of (vl_facilities v) fid = Some f \<and> vl_clock v \<le> t \<and>
    allocate_repayment f t a = Inr (g, al) \<and>
    w = journal (JRepayFor fid al) (settle_alloc (v\<lparr>vl_clock := t, vl_cash := vl_cash v +
      (if payer = ''third_party'' then a else 0)\<rparr>) fid g al)"
  using assms
  by (auto simp: repay_for_def and_then_eq_Inr tick_eq Let_def split: option.splits if_splits sum.splits)

lemma impairment_total_pop:
  assumes "dict_ok d" and "map_of fs fid = Some f" and "fl_impaired g"
  shows "impairment_total (dict_set fid g fs) (dict_pop fid d) =
    impairment_total fs d - (if fl_impaired f then 0 else dict_get0 d fid)"
  using assms(1)
proof (induction d)
  case Nil
  then show ?case by (simp add: impairment_total_def dict_get0_def)
next
  case (Cons p d)
  obtain k a where p: "p = (k, a)" by (cases p)
  from Cons.prems p have d: "dict_ok d" and k: "k \<notin> set (map fst d)"
    by (auto simp: dict_ok_def dict_keys_def)
  have "dict_get0 d k = 0" using k by (auto simp: dict_get0_def map_of_eq_None_iff [symmetric])
  moreover have "dict_pop k d = d" using k by (simp add: delete_id)
  ultimately show ?case
    using p Cons.IH [OF d] assms(2)
    by (cases "k = fid") (auto simp: impairment_total_def dict_get0_def split: option.splits)
qed

lemma write_off_rest_eq:
  assumes "write_off_rest v fid f used = (Inr r, w)"
  shows "\<exists>g. vl_facilities w = dict_set fid g (vl_facilities v) \<and>
    vl_impairment_by w = dict_pop fid (vl_impairment_by v) \<and> vl_clock w = vl_clock v \<and>
    vl_cash w = vl_cash v \<and> vl_borrower_reserve w = vl_borrower_reserve v \<and>
    fl_impaired g \<and> fl_accrual_frozen g \<and> fl_principal g = fl_principal f \<and> fl_fees g = fl_fees f \<and>
    fl_interest_accum g = fl_interest_accum f \<and> fl_segments g = fl_segments f \<and>
    fl_written_off_principal g = fl_written_off_principal f + fl_principal f \<and>
    fl_written_off_interest g = fl_written_off_interest f + unpaid_interest f \<and>
    r = \<lparr>wo_reserve_used = used, wo_loss_principal = fl_principal f,
      wo_loss_interest = unpaid_interest f\<rparr>"
  using assms by (auto simp: write_off_rest_def Let_def)

lemma legal_debt_accrued: "legal_debt (accrued_to f t) = debt_at t f"
  by (simp add: legal_debt_def unpaid_interest_def debt_at_def)

text \<open>What \<open>write_off\<close> leaves when it returns: \<open>h\<close> is the facility after the reserve was applied.\<close>

lemma write_off_eq:
  assumes wf: "wf_book v" and run: "write_off v fid t = (Inr r, w)"
  shows "\<exists>f h used. map_of (vl_facilities v) fid = Some f \<and> vl_clock v \<le> t \<and> fl_last_accrual_at f \<le> t \<and>
    used = min (dict_get0 (vl_borrower_reserve v) fid) (debt_at t f) \<and>
    (if used = 0 then h = accrued_to f t
     else \<exists>al. allocate_repayment (accrued_to f t) t used = Inr (h, al)) \<and>
    (\<exists>u. write_off_rest u fid h used = (Inr r, w) \<and> vl_clock u = t \<and> vl_cash u = vl_cash v + used \<and>
       vl_impairment_by u = vl_impairment_by v \<and>
       (\<forall>x. dict_set fid x (vl_facilities u) = dict_set fid x (vl_facilities v)))"
proof -
  obtain f where f: "map_of (vl_facilities v) fid = Some f"
    using run by (auto simp: write_off_def split: option.splits)
  have ne: "fl_segments f \<noteq> []" using wf_book_facility [OF wf f] by (rule wf_facilityD)
  show ?thesis
    using run f
    by (auto simp: write_off_def and_then_eq_Inr tick_eq Let_def accrue_iff [OF ne] legal_debt_accrued
        split: sum.splits if_splits option.splits; fastforce simp: write_off_rest_def)
qed

section \<open>Properties of shares\<close>

text \<open>C4: no operation of a share holder dilutes the others. While the pool and the supply are
  positive, a deposit that returns raises the net asset value by the deposited amount, a
  withdrawal that returns lowers it by the amount paid, and in both cases the price of a share
  (pool over supply, cross-multiplied) does not fall.\<close>

theorem share_price_never_falls:
  assumes "wf_book v" and "nav v = Inr n" and "0 < n + vl_virtual_assets v"
    and "0 < vl_total_shares v + vl_virtual_shares v"
    and "(\<exists>sh. deposit v lp x = (Inr sh, w) \<and> d = x) \<or> (\<exists>a. withdraw v lp x = (Inr a, w) \<and> d = - a)"
  shows "nav w = Inr (n + d) \<and>
    (n + vl_virtual_assets v) * (vl_total_shares w + vl_virtual_shares w) \<le>
    (n + d + vl_virtual_assets w) * (vl_total_shares v + vl_virtual_shares v)"
  using assms(5)
proof
  assume "\<exists>sh. deposit v lp x = (Inr sh, w) \<and> d = x"
  then obtain sh where r: "deposit v lp x = (Inr sh, w)" and d: "d = x" by blast
  note eq = deposit_eq [OF assms(1) r] and pool = deposit_pool [OF assms(1) r]
  have n: "n = nav_value v" using assms(1,2) by (simp add: nav_eq)
  have va: "vl_virtual_assets w = vl_virtual_assets v" by (simp add: eq(4))
  from vault_shares.mint_keeps_price [of "pool_of v" "supply_of v" x] assms(3) pool d n va
  show ?thesis
    by (simp add: nav_eq eq(2) [symmetric]) (simp add: pool_of_def supply_of_def algebra_simps)
next
  assume "\<exists>a. withdraw v lp x = (Inr a, w) \<and> d = - a"
  then obtain a where r: "withdraw v lp x = (Inr a, w)" and d: "d = - a" by blast
  note eq = withdraw_eq [OF assms(1) r] and pool = withdraw_pool [OF assms(1) r]
  have n: "n = nav_value v" using assms(1,2) by (simp add: nav_eq)
  have va: "vl_virtual_assets w = vl_virtual_assets v" by (simp add: eq(6))
  have "0 < supply_of v" using assms(4) by (simp add: supply_of_def)
  from vault_shares.burn_keeps_price [OF this, of "pool_of v" x, folded eq(2)]
  have "pool_of v * supply_of w \<le> pool_of w * supply_of v" by (simp add: pool)
  moreover have "pool_of w = n + d + vl_virtual_assets w" "nav w = Inr (n + d)"
    using pool d n va by (simp_all add: nav_eq) (simp_all add: pool_of_def)
  ultimately show ?thesis using n by (simp add: supply_of_def [symmetric] pool_of_def)
qed

definition sample_vault :: vault_ledger where
  "sample_vault = new_vault\<lparr>vl_clock := 3, vl_cash := 10000, vl_total_shares := 7000000,
     vl_shares_of := [(''lp1'', 7000000)], vl_facilities := [(''f1'', sample_facility)],
     vl_impairment_by := [(''f1'', 5)], vl_borrower_reserve := [(''f1'', 40)]\<rparr>"

lemma sample_vault_wf [simp]: "wf_book sample_vault"
  by (simp add: sample_vault_def new_vault_def wf_book_def dict_ok_def dict_keys_def)

lemma sample_accum: "accum_at sample_facility 3 = 2000000000"
proof -
  have "{0..<3} = {0, 1, 2 :: int}" by auto
  then show ?thesis
    by (simp add: accum_at_def interest_numerator_def sample_facility_def new_facility_def rate_at_def)
qed

lemma sample_vault_nav: "nav_value sample_vault = 509995"
  by (simp add: nav_value_def sample_vault_def new_vault_def dict_sum_def carrying_def sample_accum
      impairment_total_def)
     (simp add: sample_facility_def new_facility_def DENOM_def BPS_def YEAR_def)

lemma sample_withdraw:
  "withdraw sample_vault ''lp1'' 7000 = (Inr 509, snd (withdraw sample_vault ''lp1'' 7000))"
proof -
  have "convert_to_assets sample_vault 7000 = Inr 509"
    by (simp add: convert_to_assets_def nav_eq sample_vault_nav assets_for_def)
      (simp add: sample_vault_def new_vault_def)
  then show ?thesis
    by (simp add: withdraw_def Let_def) (simp add: sample_vault_def dict_get0_def)
qed

theorem share_price_never_falls_witness:
  "\<exists>w. withdraw sample_vault ''lp1'' 7000 = (Inr 509, w) \<and> nav w = Inr 509486 \<and>
     509996 * (vl_total_shares w + vl_virtual_shares w) \<le>
       (509486 + vl_virtual_assets w) * 7001000"
proof -
  let ?w = "snd (withdraw sample_vault ''lp1'' 7000)"
  have n: "nav sample_vault = Inr 509995" by (simp add: nav_eq sample_vault_nav)
  have f: "vl_virtual_assets sample_vault = 1" "vl_virtual_shares sample_vault = 1000"
    "vl_total_shares sample_vault = 7000000"
    by (simp_all add: sample_vault_def new_vault_def)
  have "(\<exists>sh. deposit sample_vault ''lp1'' 7000 = (Inr sh, ?w) \<and> - 509 = (7000 :: int)) \<or>
      (\<exists>a. withdraw sample_vault ''lp1'' 7000 = (Inr a, ?w) \<and> - 509 = - a)"
    using sample_withdraw by auto
  from share_price_never_falls [OF sample_vault_wf n _ _ this] f sample_withdraw
  show ?thesis by (intro exI [of _ ?w]) simp
qed

text \<open>An account that deposits and withdraws the shares it was given at once, with
  nothing in between, never receives more than it put in: both conversions round against it.\<close>

theorem deposit_withdraw_round_trip:
  assumes "wf_book v" and "nav v = Inr n" and "0 < n + vl_virtual_assets v"
    and "0 \<le> vl_total_shares v + vl_virtual_shares v"
    and "deposit v lp a = (Inr sh, w)" and "withdraw w lp sh = (Inr b, u)"
  shows "b \<le> a \<and> vl_total_shares u = vl_total_shares v \<and>
    dict_get0 (vl_shares_of u) lp = dict_get0 (vl_shares_of v) lp"
proof -
  note eq = deposit_eq [OF assms(1,5)] and pool = deposit_pool [OF assms(1,5)]
  note weq = withdraw_eq [OF pool(3) assms(6)]
  have pos: "0 < pool_of v" using assms(1-3) by (simp add: nav_eq pool_of_def)
  have "0 < supply_of v + sh" using assms(4) eq(3) by (simp add: supply_of_def)
  then have "b \<le> a"
    using vault_shares.round_trip [OF pos, of "supply_of v" a] weq(2)
    by (simp add: pool eq(2) [symmetric])
  moreover have "vl_total_shares u = vl_total_shares v" by (simp add: weq(6) eq(4))
  moreover have "dict_get0 (vl_shares_of u) lp = dict_get0 (vl_shares_of v) lp"
    by (simp add: weq(6) eq(4))
  ultimately show ?thesis by simp
qed

lemma sample_deposit:
  "\<exists>w. deposit new_vault ''lp'' 10 = (Inr 10000, w) \<and> withdraw w ''lp'' 10000 =
     (Inr 10, snd (withdraw w ''lp'' 10000))"
  by (simp add: deposit_def withdraw_def convert_to_shares_def convert_to_assets_def nav_def
      performing_interest_def impairment_def performing_principal_def performing_def new_vault_def
      shares_for_def assets_for_def dict_get0_def Let_def)

theorem deposit_withdraw_round_trip_witness:
  "\<exists>w u b. deposit new_vault ''lp'' 10 = (Inr 10000, w) \<and> withdraw w ''lp'' 10000 = (Inr b, u) \<and>
     b \<le> 10 \<and> vl_total_shares u = vl_total_shares new_vault"
proof -
  obtain w where r: "deposit new_vault ''lp'' 10 = (Inr 10000, w)"
    "withdraw w ''lp'' 10000 = (Inr 10, snd (withdraw w ''lp'' 10000))"
    using sample_deposit by blast
  have "wf_book new_vault" by (simp add: wf_book_def new_vault_def)
  moreover have "nav new_vault = Inr 0"
    by (simp add: nav_def performing_interest_def impairment_def performing_principal_def
        performing_def new_vault_def)
  moreover have "vl_virtual_assets new_vault = 1" "vl_virtual_shares new_vault = 1000"
    "vl_total_shares new_vault = 0"
    by (simp_all add: new_vault_def)
  ultimately have "(10 :: int) \<le> 10 \<and>
      vl_total_shares (snd (withdraw w ''lp'' 10000)) = vl_total_shares new_vault \<and>
      dict_get0 (vl_shares_of (snd (withdraw w ''lp'' 10000))) ''lp'' = dict_get0 (vl_shares_of new_vault) ''lp''"
    using r by (intro deposit_withdraw_round_trip [where n = 0 and v = new_vault]) simp_all
  with r show ?thesis by blast
qed

section \<open>Properties of lending and losses\<close>

text \<open>A draw on a performing facility moves cash into a receivable. When \<open>draw\<close> returns, the
  net asset value is the one the book had as of the draw time, before the draw, the borrowers'
  total legal debt as of that time has risen by exactly the amount, and the cash has fallen by
  it without becoming negative; capitalised interest changes neither figure.\<close>

theorem draw_moves_cash_to_debt:
  assumes "wf_book v" and "map_of (vl_facilities v) fid = Some f" and "\<not> fl_impaired f"
    and "draw v fid t a = (Inr (), w)"
  shows "nav w = nav (v\<lparr>vl_clock := t\<rparr>) \<and>
    (\<exists>d. total_legal_debt (v\<lparr>vl_clock := t\<rparr>) = Inr d \<and> total_legal_debt w = Inr (d + a)) \<and>
    vl_cash w = vl_cash v - a \<and> 0 < a \<and> 0 \<le> vl_cash w"
proof -
  let ?v = "v\<lparr>vl_clock := t\<rparr>"
  obtain g where a: "a \<le> vl_cash v" and b: "borrow f t a = Inr g"
    and w: "w = journal (JDraw fid a) (v\<lparr>vl_clock := t,
      vl_facilities := dict_set fid g (vl_facilities v), vl_cash := vl_cash v - a\<rparr>)"
    using draw_eq [OF assms(4)] assms(2) by auto
  have wf: "wf_facility f" by (rule wf_book_facility [OF assms(1,2)])
  note eff = borrow_effect [OF wf b] and pos = borrow_eq(1) [OF wf_facilityD(1) [OF wf] b]
  have bv: "wf_book ?v" and bw: "wf_book w"
    using assms(1) wf_book_set [OF assms(1) wf_borrow [OF wf b], of w fid]
    by (simp_all add: wf_book_clock w)
  have "nav_value w = nav_value ?v"
    using nav_value_set [OF bv, of fid f g w] assms(2,3) eff by (simp add: w)
  moreover have "dict_sum (debt_at t) (vl_facilities w) = dict_sum (debt_at t) (vl_facilities v) + a"
    using debt_set [OF assms(1,2), of t g] eff by (simp add: w)
  ultimately show ?thesis
    using a pos bv bw by (simp add: nav_eq total_legal_debt_eq) (simp add: w)
qed

lemma sample_draw: "\<exists>w. draw sample_vault ''f1'' 4 100 = (Inr (), w)"
  by (simp add: draw_def sample_vault_def tick_def borrow_def accrue_eq Let_def)
     (simp add: accrue_eq wf_facilityD)

theorem draw_moves_cash_to_debt_witness:
  "\<exists>w. draw sample_vault ''f1'' 4 100 = (Inr (), w) \<and> nav w = nav (sample_vault\<lparr>vl_clock := 4\<rparr>) \<and>
     vl_cash w = 9900"
proof -
  obtain w where r: "draw sample_vault ''f1'' 4 100 = (Inr (), w)" using sample_draw by blast
  have m: "map_of (vl_facilities sample_vault) ''f1'' = Some sample_facility"
    and i: "\<not> fl_impaired sample_facility" and c: "vl_cash sample_vault = 10000"
    by (simp_all add: sample_vault_def sample_facility_def new_facility_def)
  from draw_moves_cash_to_debt [OF sample_vault_wf m i r] r c show ?thesis by auto
qed

text \<open>A third-party repayment is worth exactly what it pays. When \<open>repay_for\<close> with
  \<open>payer = "third_party"\<close> returns, the total legal debt falls by the amount less the excess, the
  excess is owed back to that facility's borrower and stays out of the vault's cash, no other
  facility changes, and the net asset value rises by the fee part on a performing facility and by
  the whole applied amount on a written-off one.\<close>

theorem third_party_repayment_exact:
  assumes "wf_book v" and "map_of (vl_facilities v) fid = Some f"
    and "repay_for v fid t a ''third_party'' = (Inr al, w)"
  shows "(\<exists>d. total_legal_debt (v\<lparr>vl_clock := t\<rparr>) = Inr d \<and>
        total_legal_debt w = Inr (d - (a - ra_excess al))) \<and>
    (\<exists>n. nav (v\<lparr>vl_clock := t\<rparr>) = Inr n \<and>
        nav w = Inr (n + (if fl_impaired f then a - ra_excess al else ra_fees al))) \<and>
    vl_cash w = vl_cash v + a - ra_excess al \<and>
    dict_get0 (vl_borrower_refundable w) fid = dict_get0 (vl_borrower_refundable v) fid + ra_excess al \<and>
    (\<forall>other. other \<noteq> fid \<longrightarrow> map_of (vl_facilities w) other = map_of (vl_facilities v) other \<and>
      dict_get0 (vl_borrower_refundable w) other = dict_get0 (vl_borrower_refundable v) other)"
proof -
  let ?v = "v\<lparr>vl_clock := t\<rparr>"
  obtain g where al: "allocate_repayment f t a = Inr (g, al)"
    and w: "w = journal (JRepayFor fid al)
      (settle_alloc (v\<lparr>vl_clock := t, vl_cash := vl_cash v + a\<rparr>) fid g al)"
    using repay_for_eq [OF assms(3)] assms(2) by auto
  have wf: "wf_facility f" by (rule wf_book_facility [OF assms(1,2)])
  note eff = allocate_effect [OF wf al]
  have bv: "wf_book ?v" and bw: "wf_book w"
    using assms(1) wf_book_set [OF assms(1) wf_allocate_repayment [OF wf al], of w fid]
    by (simp_all add: wf_book_clock w)
  have n: "nav_value w = nav_value ?v + (if fl_impaired f then a - ra_excess al else ra_fees al)"
    using nav_value_set [OF bv, of fid f g w] assms(2) eff by (auto simp: w)
  have d: "dict_sum (debt_at t) (vl_facilities w) =
      dict_sum (debt_at t) (vl_facilities v) - (a - ra_excess al)"
    using debt_set [OF assms(1,2), of t g] eff by (simp add: w)
  have r: "dict_get0 (vl_borrower_refundable w) k =
      dict_get0 (vl_borrower_refundable v) k + (if k = fid then ra_excess al else 0)" for k
    by (simp add: w settle_alloc_def Let_def)
  have "vl_clock w = t" "vl_cash w = vl_cash v + a - ra_excess al"
    "k \<noteq> fid \<Longrightarrow> map_of (vl_facilities w) k = map_of (vl_facilities v) k" for k
    by (simp_all add: w)
  with n d r bv bw show ?thesis by (simp add: nav_eq total_legal_debt_eq)
qed

lemma sample_repay: "\<exists>al w. repay_for sample_vault ''f1'' 4 600000 ''third_party'' = (Inr al, w)"
  using allocate_repayment_total [OF sample_facility_wf, of 600000 4]
  by (auto simp: repay_for_def sample_vault_def tick_def Let_def)

theorem third_party_repayment_exact_witness:
  "\<exists>al w. repay_for sample_vault ''f1'' 4 600000 ''third_party'' = (Inr al, w) \<and>
     vl_cash w = vl_cash sample_vault + 600000 - ra_excess al"
proof -
  obtain al w where r: "repay_for sample_vault ''f1'' 4 600000 ''third_party'' = (Inr al, w)"
    using sample_repay by blast
  have m: "map_of (vl_facilities sample_vault) ''f1'' = Some sample_facility"
    by (simp add: sample_vault_def)
  from third_party_repayment_exact [OF sample_vault_wf m r] r show ?thesis by blast
qed

text \<open>The reserve pays debt only: applied up to the debt it leaves no excess.\<close>

lemma reserve_applied:
  assumes wf: "wf_facility f" and used: "used \<le> debt_at t f"
    and h: "if used = 0 then h = accrued_to f t
        else \<exists>al. allocate_repayment (accrued_to f t) t used = Inr (h, al)"
  shows "debt_at t h = debt_at t f - used" and "wf_facility h" and "accum_at h t = fl_interest_accum h"
proof -
  have wfa: "wf_facility (accrued_to f t)" using wf by (rule wf_accrued_to)
  have acc: "accum_at (accrued_to f t) t = accum_at f t"
    by (simp add: accum_at_def [of "accrued_to f t"])
  then have same: "debt_at t (accrued_to f t) = debt_at t f" by (simp add: debt_at_def)
  have "debt_at t h = debt_at t f - used \<and> wf_facility h \<and> accum_at h t = fl_interest_accum h"
  proof (cases "used = 0")
    case True
    with h wfa same acc show ?thesis by simp
  next
    case False
    with h obtain al where al: "allocate_repayment (accrued_to f t) t used = Inr (h, al)" by auto
    note c = allocate_repayment_cases [OF wfa al] and eff = allocate_effect [OF wfa al]
    have "ra_excess al \<le> 0"
      using c(3-6) used wf_facilityD(2) [OF wf] accum_units_nonneg [OF wf, of t] unfolding acc debt_at_def accrued_to_simps by linarith
    with eff(5) have "ra_excess al = 0" by simp
    then show ?thesis
      using eff(1) same wf_allocate_repayment [OF wfa al] by (simp add: c(7) accum_at_def)
  qed
  then show "debt_at t h = debt_at t f - used" "wf_facility h" "accum_at h t = fl_interest_accum h"
    by auto
qed

lemma write_off_facility:
  assumes "wf_book v" and "map_of (vl_facilities v) fid = Some f" and "write_off v fid t = (Inr r, w)"
  defines "used \<equiv> min (dict_get0 (vl_borrower_reserve v) fid) (debt_at t f)"
  shows "\<exists>g. vl_facilities w = dict_set fid g (vl_facilities v) \<and> fl_impaired g \<and> wf_facility g \<and>
    (\<forall>x. debt_at x g = debt_at t f - used) \<and>
    vl_impairment_by w = dict_pop fid (vl_impairment_by v) \<and> vl_clock w = t \<and>
    vl_cash w = vl_cash v + used \<and> wo_reserve_used r = used \<and>
    wo_loss_principal r = fl_principal g \<and> wo_loss_interest r = unpaid_interest g"
proof -
  obtain h u0 where
    h: "if used = 0 then h = accrued_to f t
        else \<exists>al. allocate_repayment (accrued_to f t) t used = Inr (h, al)"
    and rest: "write_off_rest u0 fid h used = (Inr r, w)" and u: "vl_clock u0 = t"
      "vl_cash u0 = vl_cash v + used" "vl_impairment_by u0 = vl_impairment_by v"
    and idem: "\<forall>x. dict_set fid x (vl_facilities u0) = dict_set fid x (vl_facilities v)"
    using write_off_eq [OF assms(1,3)] assms(2) unfolding used_def by auto
  have le: "used \<le> debt_at t f" by (simp add: used_def)
  note app = reserve_applied [OF wf_book_facility [OF assms(1,2)] le h]
  obtain g where g: "vl_facilities w = dict_set fid g (vl_facilities v)" "fl_impaired g"
      "fl_accrual_frozen g" "fl_principal g = fl_principal h" "fl_fees g = fl_fees h"
      "fl_interest_accum g = fl_interest_accum h" "fl_segments g = fl_segments h"
    and w: "vl_impairment_by w = dict_pop fid (vl_impairment_by v)" "vl_clock w = t"
      "vl_cash w = vl_cash v + used" and r: "wo_reserve_used r = used"
      "wo_loss_principal r = fl_principal h" "wo_loss_interest r = unpaid_interest h"
    using write_off_rest_eq [OF rest] u idem by auto
  have gd: "debt_at x g = debt_at t f - used" for x
    using app(1,3) g by (simp add: debt_at_def accum_at_def [of g])
  have "wf_facility g" using app(2) g by (simp add: wf_facility_def)
  with g w r gd show ?thesis by (auto simp: unpaid_interest_def)
qed

lemma wf_book_write_off:
  assumes "wf_book v" and "wf_facility g" and "vl_facilities w = dict_set fid g (vl_facilities v)"
    and "vl_impairment_by w = dict_pop fid (vl_impairment_by v)"
  shows "wf_book w"
proof -
  have "\<forall>f \<in> snd ` set (vl_facilities w). wf_facility f"
    using assms(1-3) dict_set_ball [of "vl_facilities v" wf_facility g]
    unfolding wf_book_def by simp blast
  moreover have "map_of (vl_facilities w) k \<noteq> None" if "k \<in> fst ` set (vl_impairment_by w)" for k
  proof -
    have "k \<in> fst ` set (vl_impairment_by v)"
      using that dict_pop_keys [of fid "vl_impairment_by v"] unfolding assms(4) by (rule subsetD [rotated])
    then have "map_of (vl_facilities v) k \<noteq> None" using assms(1) unfolding wf_book_def by blast
    then show ?thesis by (simp add: assms(3))
  qed
  ultimately show ?thesis using assms unfolding wf_book_def by simp
qed

text \<open>A write-off keeps the claim on the borrower. When \<open>write_off\<close> returns, the borrower's
  reserve was used up to the debt, the total legal debt has fallen by exactly the reserve used,
  the facility stays in the book with that remaining debt, which no longer accrues, and the net
  asset value moves by the reserve used less what the facility was carried at, its earlier
  impairment released so that the loss is not counted twice.\<close>

theorem write_off_keeps_claim:
  assumes "wf_book v" and "map_of (vl_facilities v) fid = Some f" and "\<not> fl_impaired f"
    and "write_off v fid t = (Inr r, w)"
  shows "wo_reserve_used r = min (dict_get0 (vl_borrower_reserve v) fid) (debt_at t f) \<and>
    total_legal_debt w =
      Inr (dict_sum (debt_at t) (vl_facilities v) - wo_reserve_used r) \<and>
    (\<exists>g. map_of (vl_facilities w) fid = Some g \<and> fl_impaired g \<and>
       (\<forall>u. debt_at u g = debt_at t f - wo_reserve_used r)) \<and>
    nav w = Inr (nav_value (v\<lparr>vl_clock := t\<rparr>) + wo_reserve_used r - carrying t f +
      dict_get0 (vl_impairment_by v) fid)"
proof -
  obtain g where g: "vl_facilities w = dict_set fid g (vl_facilities v)" "fl_impaired g"
      "wf_facility g" "\<forall>x. debt_at x g = debt_at t f - wo_reserve_used r"
    and w: "vl_impairment_by w = dict_pop fid (vl_impairment_by v)" "vl_clock w = t"
      "vl_cash w = vl_cash v + wo_reserve_used r"
    and r: "wo_reserve_used r = min (dict_get0 (vl_borrower_reserve v) fid) (debt_at t f)"
    using write_off_facility [OF assms(1,2,4)] by auto
  have bw: "wf_book w" by (rule wf_book_write_off [OF assms(1) g(3,1) w(1)])
  have "dict_sum (carrying t) (vl_facilities w) = dict_sum (carrying t) (vl_facilities v) - carrying t f"
    using assms(1,2) g(1,2) by (simp add: wf_book_def dict_sum_set carrying_def)
  then have "nav_value w = nav_value (v\<lparr>vl_clock := t\<rparr>) + wo_reserve_used r - carrying t f +
      dict_get0 (vl_impairment_by v) fid"
    using impairment_total_pop [of "vl_impairment_by v" "vl_facilities v" fid f g] assms(1-3) g(1,2)
    by (simp add: nav_value_def w wf_book_def)
  moreover have "dict_sum (debt_at t) (vl_facilities w) =
      dict_sum (debt_at t) (vl_facilities v) - wo_reserve_used r"
    using debt_set [OF assms(1,2), of t g] g(4) by (simp add: g(1))
  ultimately show ?thesis
    using bw g(1,2,4) w(2) r by (simp add: nav_eq total_legal_debt_eq)
qed

lemma sample_write_off: "\<exists>r w. write_off sample_vault ''f1'' 3 = (Inr r, w)"
proof -
  have d: "legal_debt (accrued_to sample_facility 3) = 500030"
    by (simp add: legal_debt_accrued debt_at_def sample_accum)
       (simp add: sample_facility_def new_facility_def DENOM_def BPS_def YEAR_def)
  obtain g al where "allocate_repayment (accrued_to sample_facility 3) 3 40 = Inr (g, al)"
    using allocate_repayment_total [of "accrued_to sample_facility 3" 40 3] wf_accrued_to by auto
  with d show ?thesis
    by (simp add: write_off_def sample_vault_def new_vault_def tick_def accrue_eq wf_facilityD dict_get0_def
        Let_def write_off_rest_def)
qed

theorem write_off_keeps_claim_witness:
  "\<exists>r w g. write_off sample_vault ''f1'' 3 = (Inr r, w) \<and> map_of (vl_facilities w) ''f1'' = Some g \<and>
     debt_at 1000 g = debt_at 3 sample_facility - wo_reserve_used r"
proof -
  obtain r w where run: "write_off sample_vault ''f1'' 3 = (Inr r, w)" using sample_write_off by blast
  have m: "map_of (vl_facilities sample_vault) ''f1'' = Some sample_facility"
    and i: "\<not> fl_impaired sample_facility"
    by (simp_all add: sample_vault_def sample_facility_def new_facility_def)
  from write_off_keeps_claim [OF sample_vault_wf m i run] run show ?thesis by blast
qed

section \<open>The ledger as a machine\<close>

text \<open>Every public method as one operation; the state a call leaves is kept also when it raises.\<close>

datatype vault_op =
    OpTick int
  | OpDeposit string int
  | OpWithdraw string int
  | OpDonate int
  | OpOpenFacility string terms int
  | OpDraw string int int
  | OpSourceReceipt string int
  | OpStartLeg string int
  | OpDestinationReceipt string int
  | OpRepayFor string int int string
  | OpFundReserve string int
  | OpImpair string int
  | OpWriteOff string int
  | OpRecover string int int

fun exec_op :: "vault_op \<Rightarrow> vault_ledger \<Rightarrow> vault_ledger" where
  "exec_op (OpTick t) v = snd (tick v t)"
| "exec_op (OpDeposit lp a) v = snd (deposit v lp a)"
| "exec_op (OpWithdraw lp s) v = snd (withdraw v lp s)"
| "exec_op (OpDonate a) v = snd (donate v a)"
| "exec_op (OpOpenFacility fid tms t) v = snd (open_facility v fid tms t)"
| "exec_op (OpDraw fid t a) v = snd (draw v fid t a)"
| "exec_op (OpSourceReceipt sid a) v = snd (source_receipt v sid a)"
| "exec_op (OpStartLeg sid a) v = snd (start_leg v sid a)"
| "exec_op (OpDestinationReceipt sid a) v = snd (destination_receipt v sid a)"
| "exec_op (OpRepayFor fid t a payer) v = snd (repay_for v fid t a payer)"
| "exec_op (OpFundReserve fid a) v = snd (fund_reserve v fid a)"
| "exec_op (OpImpair fid a) v = snd (impair v fid a)"
| "exec_op (OpWriteOff fid t) v = snd (write_off v fid t)"
| "exec_op (OpRecover fid t a) v = snd (recover v fid t a)"

text \<open>The inputs the callers give: no negative amount where the method does not check it.\<close>

fun valid_op :: "vault_op \<Rightarrow> bool" where
  "valid_op (OpWithdraw lp s) \<longleftrightarrow> 0 \<le> s"
| "valid_op (OpOpenFacility fid tms t) \<longleftrightarrow> 0 \<le> t_rate_bps tms"
| "valid_op (OpSourceReceipt sid a) \<longleftrightarrow> 0 \<le> a"
| "valid_op (OpStartLeg sid a) \<longleftrightarrow> 0 \<le> a"
| "valid_op (OpFundReserve fid a) \<longleftrightarrow> 0 \<le> a"
| "valid_op _ \<longleftrightarrow> True"

inductive vault_step :: "vault_ledger \<Rightarrow> vault_ledger \<Rightarrow> bool" where
  "valid_op op \<Longrightarrow> vault_step v (exec_op op v)"

inductive_cases vault_stepE: "vault_step v w"

lemma nonneg_dict_set: "nonneg_dict d \<Longrightarrow> 0 \<le> x \<Longrightarrow> nonneg_dict (dict_set k x d)"
  using dict_set_ball [of d "\<lambda>x. 0 \<le> x" x] unfolding nonneg_dict_def by simp blast

lemma nonneg_dict_get0: "nonneg_dict d \<Longrightarrow> 0 \<le> dict_get0 d k"
  by (auto simp: nonneg_dict_def dict_get0_def split: option.splits dest: map_of_in_values)

lemma nonneg_dict_ok: "nonneg_dict d \<Longrightarrow> dict_ok d"
  by (simp add: nonneg_dict_def)

lemma wf_vault_book: "wf_vault v \<Longrightarrow> wf_book v"
  by (simp add: wf_vault_def)

lemma wf_vault_cong:
  assumes "wf_vault v" and "wf_book w" and "vl_shares_of w = vl_shares_of v"
    and "vl_total_shares w = vl_total_shares v" and "vl_source_escrow w = vl_source_escrow v"
    and "vl_in_flight w = vl_in_flight v" and "nonneg_dict (vl_borrower_reserve w)"
    and "nonneg_dict (vl_borrower_refundable w)"
  shows "wf_vault w"
  using assms by (simp add: wf_vault_def)

lemma wf_vault_clock: "wf_vault v \<Longrightarrow> wf_vault (v\<lparr>vl_clock := t\<rparr>)"
  by (simp add: wf_vault_def wf_book_def)

lemma wf_vault_cash: "wf_vault v \<Longrightarrow> wf_vault (v\<lparr>vl_cash := c\<rparr>)"
  by (simp add: wf_vault_def wf_book_def)

lemma wf_deposit: "wf_vault v \<Longrightarrow> wf_vault (snd (deposit v lp a))"
  using nonneg_dict_get0 [of "vl_shares_of v" lp]
  by (auto simp: deposit_def wf_vault_def wf_book_def dict_sum_get0 nonneg_dict_ok
      intro!: nonneg_dict_set split: sum.splits)

lemma wf_withdraw: "wf_vault v \<Longrightarrow> 0 \<le> s \<Longrightarrow> wf_vault (snd (withdraw v lp s))"
  using nonneg_dict_get0 [of "vl_shares_of v" lp]
  by (auto simp: withdraw_def wf_vault_def wf_book_def dict_sum_get0 nonneg_dict_ok Let_def
      dict_get0_def [of "vl_shares_of v"] intro!: nonneg_dict_set split: sum.splits option.splits)

lemma wf_pipeline:
  assumes "wf_vault v"
  shows "0 \<le> a \<Longrightarrow> wf_vault (snd (source_receipt v sid a))"
    and "0 \<le> a \<Longrightarrow> wf_vault (snd (start_leg v sid a))"
    and "wf_vault (snd (destination_receipt v sid a))"
    and "0 \<le> a \<Longrightarrow> wf_vault (snd (fund_reserve v fid a))"
  using assms nonneg_dict_get0 [of "vl_source_escrow v" sid] nonneg_dict_get0 [of "vl_in_flight v" sid]
    nonneg_dict_get0 [of "vl_borrower_reserve v" fid]
  by (auto simp: source_receipt_def start_leg_def destination_receipt_def fund_reserve_def
      wf_vault_def wf_book_def dict_get0_def intro!: nonneg_dict_set split: option.splits)

lemma wf_book_impair:
  assumes "wf_book v" and "map_of (vl_facilities v) fid \<noteq> None"
  shows "wf_book (v\<lparr>vl_impairment_by := dict_set fid x (vl_impairment_by v)\<rparr>)"
proof -
  have "fst ` set (dict_set fid x (vl_impairment_by v)) = insert fid (fst ` set (vl_impairment_by v))"
    using dom_update [of fid x "vl_impairment_by v"] by (simp add: dom_map_of_conv_image_fst)
  with assms show ?thesis by (simp add: wf_book_def)
qed

lemma wf_impair:
  assumes "wf_vault v"
  shows "wf_vault (snd (impair v fid a))"
proof -
  have "wf_vault (journal j (v\<lparr>vl_impairment_by := dict_set fid x (vl_impairment_by v)\<rparr>))"
    if "map_of (vl_facilities v) fid \<noteq> None" for x j
    using wf_book_impair [OF wf_vault_book [OF assms] that] assms
    by (simp add: wf_vault_def wf_book_def)
  with assms show ?thesis by (simp add: impair_def Let_def split: option.split)
qed

lemma wf_vault_set:
  assumes "wf_vault v" and "wf_facility g"
  shows "wf_vault (v\<lparr>vl_facilities := dict_set fid g (vl_facilities v)\<rparr>)"
proof (rule wf_vault_cong [OF assms(1)])
  show "wf_book (v\<lparr>vl_facilities := dict_set fid g (vl_facilities v)\<rparr>)"
    by (rule wf_book_set [OF wf_vault_book [OF assms(1)] assms(2)]) simp_all
qed (use assms(1) in \<open>simp_all add: wf_vault_def\<close>)

lemma wf_open_facility:
  "wf_vault v \<Longrightarrow> 0 \<le> t_rate_bps tms \<Longrightarrow> wf_vault (snd (open_facility v fid tms t))"
  by (simp add: open_facility_def Let_def wf_vault_set wf_new_facility)

lemma wf_tick: "wf_vault v \<Longrightarrow> wf_vault (snd (tick v t))"
  by (simp add: tick_def wf_vault_clock)

lemma wf_draw:
  assumes "wf_vault v"
  shows "wf_vault (snd (draw v fid t a))"
proof (cases "map_of (vl_facilities v) fid")
  case None
  with assms show ?thesis by (simp add: draw_def)
next
  case (Some f)
  note wf = wf_book_facility [OF wf_vault_book [OF assms] Some] and clk = wf_vault_clock [OF assms, of t]
  have "wf_vault (journal j (v\<lparr>vl_clock := t,
      vl_facilities := dict_set fid g (vl_facilities v), vl_cash := c\<rparr>))" if "borrow f t a = Inr g" for g j c
    using wf_vault_set [OF clk wf_borrow [OF wf that], of fid]
    by (simp add: wf_vault_def wf_book_def)
  with Some assms clk show ?thesis by (simp add: draw_def tick_def split: sum.split)
qed

lemma wf_settle_alloc:
  assumes "wf_vault v" and "wf_facility g" and "0 \<le> ra_excess al"
  shows "wf_vault (journal j (settle_alloc v fid g al))"
proof (rule wf_vault_cong [OF assms(1)])
  show "wf_book (journal j (settle_alloc v fid g al))"
    by (rule wf_book_set [OF wf_vault_book [OF assms(1)] assms(2)]) simp_all
  show "nonneg_dict (vl_borrower_refundable (journal j (settle_alloc v fid g al)))"
    using assms nonneg_dict_get0 [of "vl_borrower_refundable v" fid]
    by (auto simp: settle_alloc_def Let_def wf_vault_def intro!: nonneg_dict_set)
qed (use assms(1) in \<open>simp_all add: wf_vault_def\<close>)

lemma wf_alloc_call:
  assumes "wf_vault v" and "map_of (vl_facilities v) fid = Some f"
  shows "wf_vault (snd (case allocate_repayment f t a of
      Inl e \<Rightarrow> (Inl e, v\<lparr>vl_clock := t, vl_cash := c\<rparr>)
    | Inr (g, al) \<Rightarrow> (Inr al, journal (j al) (settle_alloc (v\<lparr>vl_clock := t, vl_cash := c\<rparr>) fid g al))))"
proof -
  note wf = wf_book_facility [OF wf_vault_book [OF assms(1)] assms(2)]
  have v: "wf_vault (v\<lparr>vl_clock := t, vl_cash := c\<rparr>)"
    using wf_vault_cash [OF wf_vault_clock [OF assms(1), of t], of c] by simp
  show ?thesis
    using v wf_settle_alloc [OF v] wf_allocate_repayment [OF wf] allocate_effect(5) [OF wf]
    by (auto split: sum.split)
qed

lemma wf_repay_for:
  assumes "wf_vault v"
  shows "wf_vault (snd (repay_for v fid t a payer))"
proof -
  have same: "v\<lparr>vl_clock := t\<rparr> = v\<lparr>vl_clock := t, vl_cash := vl_cash v\<rparr>" by (cases v) simp
  note call = wf_alloc_call [OF assms, where fid = fid and t = t and a = a and j = "JRepayFor fid"]
  show ?thesis
    using assms call call [where c = "vl_cash v", folded same]
    by (auto simp: repay_for_def tick_def Let_def split: option.split)
qed

lemma wf_recover: "wf_vault v \<Longrightarrow> wf_vault (snd (recover v fid t a))"
  using wf_alloc_call [where fid = fid and t = t and a = a and j = "JRecovery fid"]
  by (auto simp: recover_def tick_def Let_def split: option.split)

lemma wf_donate: "wf_vault v \<Longrightarrow> wf_vault (snd (donate v a))"
  by (simp add: donate_def wf_vault_def wf_book_def)

lemma wf_write_off_rest:
  assumes "wf_vault v" and "wf_facility f"
  shows "wf_vault (snd (write_off_rest v fid f used))"
proof -
  let ?w = "snd (write_off_rest v fid f used)"
  let ?g = "f\<lparr>fl_impaired := True, fl_accrual_frozen := True,
      fl_written_off_principal := fl_written_off_principal f + fl_principal f,
      fl_written_off_interest := fl_written_off_interest f + unpaid_interest f\<rparr>"
  have "wf_book ?w"
  proof (rule wf_book_write_off [OF wf_vault_book [OF assms(1)]])
    show "wf_facility ?g" using assms(2) by (simp add: wf_facility_def)
  qed (simp_all add: write_off_rest_def Let_def)
  then show ?thesis
    by (rule wf_vault_cong [OF assms(1)])
       (use assms(1) in \<open>simp_all add: write_off_rest_def Let_def wf_vault_def\<close>)
qed

lemma wf_write_off:
  assumes "wf_vault v"
  shows "wf_vault (snd (write_off v fid t))"
proof (cases "map_of (vl_facilities v) fid")
  case None
  with assms show ?thesis by (simp add: write_off_def)
next
  case (Some f)
  note wf = wf_book_facility [OF wf_vault_book [OF assms] Some]
  let ?v = "v\<lparr>vl_clock := t, vl_facilities := dict_set fid (accrued_to f t) (vl_facilities v)\<rparr>"
  have v: "wf_vault ?v"
    using wf_vault_set [OF wf_vault_clock [OF assms, of t] wf_accrued_to [OF wf], of fid t] by simp
  have r: "wf_vault (?v\<lparr>vl_borrower_reserve := dict_set fid x (vl_borrower_reserve v), vl_cash := c\<rparr>)"
    if "0 \<le> x" for x c
    by (rule wf_vault_cong [OF v])
       (use v that in \<open>simp_all add: wf_vault_def wf_book_def nonneg_dict_set\<close>)
  have "accrue f t = Inr (accrued_to f t) \<or> (\<exists>e. accrue f t = Inl e)"
    by (cases "fl_last_accrual_at f \<le> t") (simp_all add: accrue_eq wf_facilityD [OF wf], simp add: accrue_def)
  then show ?thesis
    using assms Some v r wf_vault_clock [OF assms, of t] wf_write_off_rest [OF v wf_accrued_to [OF wf]]
      wf_write_off_rest [OF r] wf_allocate_repayment [OF wf_accrued_to [OF wf, of t]]
    by (auto simp: write_off_def tick_def Let_def dict_get0_def split: option.split sum.split)
qed

interpretation vault: inv_machine "\<lambda>v. v = new_vault" vault_step wf_vault
proof
  show "wf_vault s" if "s = new_vault" for s
    using that by (simp add: new_vault_def wf_vault_def wf_book_def nonneg_dict_def dict_sum_def)
  fix s t assume "vault_step s t" and wf: "wf_vault s"
  then obtain op where op: "valid_op op" "t = exec_op op s" by (auto elim: vault_stepE)
  show "wf_vault t"
    using op(1) unfolding op(2)
    by (cases op) (simp_all add: wf wf_tick wf_deposit wf_withdraw wf_pipeline wf_impair wf_draw
        wf_open_facility wf_repay_for wf_recover wf_write_off wf_donate)
qed

text \<open>C3: the ledger stays well formed. In every state a fresh vault reaches by its public
  methods on valid inputs, returning or raising, the holders' shares are non-negative and sum to
  the supply, escrow, in-flight, reserve and refundable balances are non-negative, every facility
  has ordered rate segments and non-negative principal, fees and interest, and an impairment
  refers to a facility of the book; so the net asset value can always be computed.\<close>

theorem vault_reachable_wf:
  assumes "vault_step\<^sup>*\<^sup>* new_vault v"
  shows "wf_vault v \<and> (\<exists>n. nav v = Inr n) \<and> (\<exists>d. total_legal_debt v = Inr d)"
proof -
  have "wf_vault v" by (rule vault.reachable_inv [OF refl assms])
  then show ?thesis by (simp add: wf_vault_book nav_eq total_legal_debt_eq)
qed

theorem vault_reachable_wf_witness:
  "\<exists>v. v = exec_op (OpFundReserve ''f1'' 5) (exec_op (OpDeposit ''lp'' 10) new_vault) \<and> wf_vault v"
proof -
  have "vault_step\<^sup>*\<^sup>* new_vault (exec_op (OpFundReserve ''f1'' 5) (exec_op (OpDeposit ''lp'' 10) new_vault))"
    by (rule rtranclp.rtrancl_into_rtrancl [OF r_into_rtranclp];
        rule vault_step.intros; simp only: valid_op.simps; simp)
  from vault_reachable_wf [OF this] show ?thesis by blast
qed

text \<open>The methods that collect, park or move cash without a facility, and those that leave the
  net asset value alone as well.\<close>

fun debt_neutral :: "vault_op \<Rightarrow> bool" where
  "debt_neutral (OpDeposit _ _) \<longleftrightarrow> True"
| "debt_neutral (OpWithdraw _ _) \<longleftrightarrow> True"
| "debt_neutral (OpDonate _) \<longleftrightarrow> True"
| "debt_neutral (OpSourceReceipt _ _) \<longleftrightarrow> True"
| "debt_neutral (OpStartLeg _ _) \<longleftrightarrow> True"
| "debt_neutral (OpDestinationReceipt _ _) \<longleftrightarrow> True"
| "debt_neutral (OpFundReserve _ _) \<longleftrightarrow> True"
| "debt_neutral (OpImpair _ _) \<longleftrightarrow> True"
| "debt_neutral _ \<longleftrightarrow> False"

fun nav_neutral :: "vault_op \<Rightarrow> bool" where
  "nav_neutral (OpSourceReceipt _ _) \<longleftrightarrow> True"
| "nav_neutral (OpStartLeg _ _) \<longleftrightarrow> True"
| "nav_neutral (OpFundReserve _ _) \<longleftrightarrow> True"
| "nav_neutral _ \<longleftrightarrow> False"

definition run_ops :: "vault_op list \<Rightarrow> vault_ledger \<Rightarrow> vault_ledger" where
  "run_ops ops v = foldl (\<lambda>v op. exec_op op v) v ops"

lemma debt_neutral_exec:
  "debt_neutral op \<Longrightarrow> vl_facilities (exec_op op v) = vl_facilities v \<and> vl_clock (exec_op op v) = vl_clock v"
  by (cases op)
     (auto simp: deposit_def withdraw_def donate_def source_receipt_def start_leg_def
       destination_receipt_def fund_reserve_def impair_def Let_def split: sum.splits option.splits)

lemma nav_neutral_exec:
  "nav_neutral op \<Longrightarrow> debt_neutral op \<and> vl_cash (exec_op op v) = vl_cash v \<and>
     vl_impairment_by (exec_op op v) = vl_impairment_by v"
  by (cases op)
     (auto simp: source_receipt_def start_leg_def fund_reserve_def split: sum.splits option.splits)

text \<open>Collecting cash is not repaying debt. No sequence of deposits, withdrawals, donations,
  source receipts, settlement legs, destination receipts, reserve funding and impairments, in any
  order, changes any facility or the total legal debt; and source receipts, legs in transit and
  borrower reserve do not enter the net asset value either.\<close>

theorem collection_is_not_repayment:
  assumes "\<forall>op \<in> set ops. debt_neutral op"
  shows "vl_facilities (run_ops ops v) = vl_facilities v \<and>
    total_legal_debt (run_ops ops v) = total_legal_debt v \<and>
    ((\<forall>op \<in> set ops. nav_neutral op) \<longrightarrow> nav (run_ops ops v) = nav v)"
proof -
  have "vl_facilities (run_ops ops v) = vl_facilities v \<and> vl_clock (run_ops ops v) = vl_clock v"
    using assms by (induction ops arbitrary: v) (simp_all add: run_ops_def debt_neutral_exec)
  moreover have "vl_cash (run_ops ops v) = vl_cash v \<and>
      vl_impairment_by (run_ops ops v) = vl_impairment_by v" if "\<forall>op \<in> set ops. nav_neutral op"
    using that by (induction ops arbitrary: v) (simp_all add: run_ops_def nav_neutral_exec)
  ultimately show ?thesis
    by (simp add: total_legal_debt_def nav_def performing_interest_def performing_def
        performing_principal_def impairment_def)
qed

theorem collection_is_not_repayment_witness:
  "nav (run_ops [OpSourceReceipt ''s1'' 900, OpStartLeg ''s1'' 700, OpFundReserve ''f1'' 10] sample_vault) =
     nav sample_vault \<and>
   vl_in_flight (run_ops [OpSourceReceipt ''s1'' 900, OpStartLeg ''s1'' 700, OpFundReserve ''f1'' 10]
     sample_vault) = [(''s1'', 700)]"
  using collection_is_not_repayment
      [of "[OpSourceReceipt ''s1'' 900, OpStartLeg ''s1'' 700, OpFundReserve ''f1'' 10]" sample_vault]
  by (simp add: run_ops_def source_receipt_def start_leg_def fund_reserve_def dict_get0_def
      sample_vault_def new_vault_def)

text \<open>A rejected third-party repayment still adds to the vault's cash. \<open>repay_for\<close> credits the
  cash before \<open>allocate_repayment\<close> validates the amount, so a call with a non-positive amount raises
  and leaves the cash changed by it, with every facility and the journal untouched.\<close>

theorem rejected_repayment_moves_cash:
  assumes "map_of (vl_facilities v) fid = Some f" and "a \<le> 0" and "vl_clock v \<le> t"
  shows "repay_for v fid t a ''third_party'' =
    (Inl AmountNotPositive, v\<lparr>vl_clock := t, vl_cash := vl_cash v + a\<rparr>)"
  using assms by (simp add: repay_for_def tick_def allocate_repayment_def)

theorem rejected_repayment_moves_cash_witness:
  "\<exists>w. repay_for sample_vault ''f1'' 3 (- 50) ''third_party'' = (Inl AmountNotPositive, w) \<and>
     vl_cash w = 9950"
proof -
  have m: "map_of (vl_facilities sample_vault) ''f1'' = Some sample_facility"
    and c: "vl_clock sample_vault \<le> 3" "vl_cash sample_vault = 10000"
    by (simp_all add: sample_vault_def)
  show ?thesis using rejected_repayment_moves_cash [OF m _ c(1), of "- 50"] c(2) by simp
qed

lemma base_eligible_acc: "base_eligible rs acc = acc + sum_list (map br_unpaid (filter base_counts rs))"
  by (induction rs arbitrary: acc) auto


end
