(* ===== verification/Python_Std.thy ===== *)
theory Python_Std
  imports Prelude "HOL-Library.Char_ord" "HOL-Library.List_Lexorder"
begin

text \<open>
  What the sources use of Python's standard library and of SQL: ASCII strings, decimal printing
  and parsing of integers, canonical JSON, and tables as lists of rows with the statements the
  services issue (filtered update with its row count, insert with or without
  \<open>ON CONFLICT DO NOTHING\<close>). Strings are ASCII (one \<open>char\<close> per code point).
\<close>

section \<open>Strings\<close>

definition lower_char :: "char \<Rightarrow> char" where
  "lower_char c = (if 65 \<le> (of_char c :: nat) \<and> of_char c \<le> (90 :: nat) then char_of (of_char c + (32 :: nat)) else c)"

definition str_lower :: "string \<Rightarrow> string" where
  "str_lower = map lower_char"

definition upper_char :: "char \<Rightarrow> char" where
  "upper_char c = (if 97 \<le> (of_char c :: nat) \<and> of_char c \<le> (122 :: nat) then char_of (of_char c - (32 :: nat)) else c)"

definition str_upper :: "string \<Rightarrow> string" where
  "str_upper = map upper_char"

definition is_space :: "char \<Rightarrow> bool" where
  "is_space c = (of_char c \<in> {9, 10, 11, 12, 13, 28, 29, 30, 31, 32 :: nat})"

definition str_strip :: "string \<Rightarrow> string" where
  "str_strip s = rev (dropWhile is_space (rev (dropWhile is_space s)))"

definition starts_with :: "string \<Rightarrow> string \<Rightarrow> bool" where
  "starts_with p s = (take (length p) s = p)"

fun str_contains :: "string \<Rightarrow> string \<Rightarrow> bool" where
  "str_contains s t = (starts_with t s \<or> (case s of [] \<Rightarrow> False | _ # s' \<Rightarrow> str_contains s' t))"

declare str_contains.simps [simp del]

lemma str_lower_idem [simp]: "str_lower (str_lower s) = str_lower s"
proof -
  have "lower_char (lower_char c) = lower_char c" for c
  proof (cases "65 \<le> (of_char c :: nat) \<and> of_char c \<le> (90 :: nat)")
    case True
    then have "of_char (lower_char c) = of_char c + (32 :: nat)"
      by (simp add: lower_char_def of_char_of)
    with True show ?thesis by (simp add: lower_char_def [of "lower_char c"])
  next
    case False
    then show ?thesis by (auto simp: lower_char_def)
  qed
  then show ?thesis by (simp add: str_lower_def)
qed

lemma length_str_lower [simp]: "length (str_lower s) = length s"
  by (simp add: str_lower_def)

section \<open>Decimal integers\<close>

definition digit_char :: "nat \<Rightarrow> char" where
  "digit_char d = char_of (48 + d)"

definition char_digit :: "char \<Rightarrow> nat option" where
  "char_digit c = (let n = of_char c in if 48 \<le> n \<and> n \<le> (57 :: nat) then Some (n - 48) else None)"

fun str_nat :: "nat \<Rightarrow> string" where
  "str_nat n = (if n < 10 then [digit_char n] else str_nat (n div 10) @ [digit_char (n mod 10)])"

declare str_nat.simps [simp del]

definition str_int :: "int \<Rightarrow> string" where
  "str_int i = (if i < 0 then CHR ''-'' # str_nat (nat (- i)) else str_nat (nat i))"

text \<open>\<open>int(s)\<close> for an optional sign and at least one digit; anything else is a \<open>ValueError\<close>.\<close>

fun read_digits :: "nat \<Rightarrow> string \<Rightarrow> nat option" where
  "read_digits acc [] = Some acc"
| "read_digits acc (c # cs) =
     (case char_digit c of None \<Rightarrow> None | Some d \<Rightarrow> read_digits (10 * acc + d) cs)"

definition nat_of_str :: "string \<Rightarrow> nat option" where
  "nat_of_str s = (if s = [] then None else read_digits 0 s)"

definition int_of_str :: "string \<Rightarrow> int option" where
  "int_of_str s = (case s of
      [] \<Rightarrow> None
    | c # cs \<Rightarrow> if c = CHR ''-'' then map_option (\<lambda>n. - int n) (nat_of_str cs)
        else map_option int (nat_of_str s))"

lemma char_digit_digit_char [simp]: "d < 10 \<Longrightarrow> char_digit (digit_char d) = Some d"
  by (simp add: char_digit_def digit_char_def of_char_of Let_def)

lemma digit_char_not_minus: "d < 10 \<Longrightarrow> digit_char d \<noteq> CHR ''-''"
proof
  assume "d < 10" and "digit_char d = CHR ''-''"
  then have "of_char (digit_char d) = (45 :: nat)" by simp
  with \<open>d < 10\<close> show False by (simp add: digit_char_def of_char_of)
qed

lemma str_nat_nonempty [simp]: "str_nat n \<noteq> []"
  by (subst str_nat.simps) simp

lemma str_nat_hd: "hd (str_nat n) \<noteq> CHR ''-''"
proof (induction n rule: str_nat.induct)
  case (1 n)
  show ?case
    by (subst str_nat.simps) (use 1 in \<open>auto simp: digit_char_not_minus hd_append\<close>)
qed

lemma read_digits_append:
  "read_digits acc (xs @ ys) = (case read_digits acc xs of None \<Rightarrow> None | Some a \<Rightarrow> read_digits a ys)"
  by (induction acc xs rule: read_digits.induct) (auto split: option.splits)

lemma read_digits_str_nat: "read_digits 0 (str_nat n) = Some n"
proof (induction n rule: str_nat.induct)
  case (1 n)
  show ?case by (subst str_nat.simps) (use 1 in \<open>auto simp: read_digits_append\<close>)
qed

lemma int_of_str_str_int [simp]: "int_of_str (str_int i) = Some i"
proof (cases "i < 0")
  case True
  then show ?thesis by (simp add: str_int_def int_of_str_def nat_of_str_def read_digits_str_nat)
next
  case False
  obtain c cs where s: "str_nat (nat i) = c # cs" by (cases "str_nat (nat i)") simp_all
  then have "c \<noteq> CHR ''-''" using str_nat_hd [of "nat i"] by simp
  then have "int_of_str (c # cs) = Some i"
    using False read_digits_str_nat [of "nat i"] unfolding s
    by (simp add: int_of_str_def nat_of_str_def)
  with False s show ?thesis by (simp add: str_int_def)
qed

lemma str_int_inj: "str_int i = str_int j \<Longrightarrow> i = j"
  by (metis int_of_str_str_int option.inject)

section \<open>JSON\<close>

datatype json = JNull | JBool bool | JInt int | JStr string | JList "json list" | JObj "(string \<times> json) list"

definition hex_digit :: "nat \<Rightarrow> char" where
  "hex_digit d = (if d < 10 then char_of (48 + d) else char_of (87 + d))"

text \<open>The escapes of \<open>json.dumps\<close> on ASCII text.\<close>

definition json_escape :: "char \<Rightarrow> string" where
  "json_escape c = (let n = of_char c :: nat in
     if c = CHR 0x22 then [CHR 0x5C, CHR 0x22]
     else if c = CHR 0x5C then [CHR 0x5C, CHR 0x5C]
     else if n = 10 then [CHR 0x5C, CHR ''n'']
     else if n = 13 then [CHR 0x5C, CHR ''r'']
     else if n = 9 then [CHR 0x5C, CHR ''t'']
     else if n = 12 then [CHR 0x5C, CHR ''f'']
     else if n = 8 then [CHR 0x5C, CHR ''b'']
     else if n < 32 then [CHR 0x5C, CHR ''u'', CHR ''0'', CHR ''0'', hex_digit (n div 16), hex_digit (n mod 16)]
     else [c])"

definition json_quote :: "string \<Rightarrow> string" where
  "json_quote s = [CHR 0x22] @ concat (map json_escape s) @ [CHR 0x22]"

fun join_with :: "string \<Rightarrow> string list \<Rightarrow> string" where
  "join_with sep [] = []"
| "join_with sep [x] = x"
| "join_with sep (x # y # ys) = x @ sep @ join_with sep (y # ys)"

text \<open>\<open>json.dumps(value, sort_keys=True, separators=(",", ":"))\<close>.\<close>

fun json_dumps :: "json \<Rightarrow> string" where
  "json_dumps JNull = ''null''"
| "json_dumps (JBool b) = (if b then ''true'' else ''false'')"
| "json_dumps (JInt i) = str_int i"
| "json_dumps (JStr s) = json_quote s"
| "json_dumps (JList xs) = ''['' @ join_with '','' (map json_dumps xs) @ '']''"
| "json_dumps (JObj kvs) =
     ''{'' @ join_with '','' (map (\<lambda>(k, s). json_quote k @ '':'' @ s)
       (sort_key fst (map (\<lambda>(k, v). (k, json_dumps v)) kvs))) @ ''}''"

definition json_get :: "json \<Rightarrow> string \<Rightarrow> json option" where
  "json_get j k = (case j of JObj kvs \<Rightarrow> map_of kvs k | _ \<Rightarrow> None)"

definition json_opt :: "string option \<Rightarrow> json" where
  "json_opt s = (case s of None \<Rightarrow> JNull | Some x \<Rightarrow> JStr x)"

section \<open>Bytes\<close>

type_synonym bytes = "nat list"

definition hex_of_bytes :: "bytes \<Rightarrow> string" where
  "hex_of_bytes bs = concat (map (\<lambda>b. [hex_digit (b div 16 mod 16), hex_digit (b mod 16)]) bs)"

definition str_bytes :: "string \<Rightarrow> bytes" where
  "str_bytes s = map of_char s"

text \<open>\<open>bytes.fromhex\<close> on text without white space; \<open>None\<close> is a \<open>ValueError\<close>.\<close>

definition hex_value :: "char \<Rightarrow> nat option" where
  "hex_value c = (let n = of_char c :: nat in
     if 48 \<le> n \<and> n \<le> 57 then Some (n - 48) else if 97 \<le> n \<and> n \<le> 102 then Some (n - 87)
     else if 65 \<le> n \<and> n \<le> 70 then Some (n - 55) else None)"

fun bytes_fromhex :: "string \<Rightarrow> bytes option" where
  "bytes_fromhex [] = Some []"
| "bytes_fromhex [_] = None"
| "bytes_fromhex (a # b # s) =
     (case (hex_value a, hex_value b, bytes_fromhex s) of
        (Some x, Some y, Some bs) \<Rightarrow> Some ((16 * x + y) # bs) | _ \<Rightarrow> None)"

lemma hex_value_digit: "d < 16 \<Longrightarrow> hex_value (hex_digit d) = Some d"
  by (simp add: hex_value_def hex_digit_def of_char_of Let_def)

lemma bytes_fromhex_of_bytes:
  "\<forall>b \<in> set bs. b < 256 \<Longrightarrow> bytes_fromhex (hex_of_bytes bs) = Some bs"
proof (induction bs)
  case Nil
  then show ?case by (simp add: hex_of_bytes_def)
next
  case (Cons b bs)
  have "b div 16 mod 16 < 16" "b mod 16 < 16" by simp_all
  moreover have "b div 16 < 16" using Cons.prems by (simp add: less_mult_imp_div_less)
  then have "16 * (b div 16 mod 16) + b mod 16 = b" by simp
  ultimately show ?case using Cons by (simp add: hex_of_bytes_def hex_value_digit)
qed

lemma hex_value_lower: "hex_value (lower_char c) = hex_value c"
proof (cases "65 \<le> (of_char c :: nat) \<and> of_char c \<le> (90 :: nat)")
  case True
  then have "of_char (lower_char c) = of_char c + (32 :: nat)" by (simp add: lower_char_def of_char_of)
  with True show ?thesis by (auto simp: hex_value_def Let_def)
next
  case False
  then show ?thesis by (auto simp: lower_char_def)
qed

lemma bytes_fromhex_lower: "bytes_fromhex (str_lower s) = bytes_fromhex s"
  by (induction s rule: bytes_fromhex.induct) (simp_all add: str_lower_def hex_value_lower)

lemma bytes_fromhex_bound: "bytes_fromhex s = Some bs \<Longrightarrow> b \<in> set bs \<Longrightarrow> b < 256"
proof (induction s arbitrary: bs rule: bytes_fromhex.induct)
  case (3 x y s)
  have d: "hex_value c = Some v \<Longrightarrow> v < 16" for c v by (auto simp: hex_value_def Let_def split: if_splits)
  obtain u v cs where h: "hex_value x = Some u" "hex_value y = Some v" "bytes_fromhex s = Some cs" "bs = (16 * u + v) # cs"
    using "3.prems"(1) by (auto split: option.splits)
  then show ?case using "3.prems"(2) "3.IH" [OF h(3)] d [OF h(1)] d [OF h(2)] by auto
qed auto

text \<open>\<open>int.from_bytes(_, "little")\<close>, \<open>to_bytes(n, "little")\<close> for a value that fits, and slices.\<close>

fun int_of_le :: "bytes \<Rightarrow> nat" where
  "int_of_le [] = 0"
| "int_of_le (b # bs) = b + 256 * int_of_le bs"

fun le_bytes :: "nat \<Rightarrow> nat \<Rightarrow> bytes" where
  "le_bytes 0 v = []"
| "le_bytes (Suc n) v = v mod 256 # le_bytes n (v div 256)"

definition slice :: "'a list \<Rightarrow> nat \<Rightarrow> nat \<Rightarrow> 'a list" where
  "slice xs a b = take (b - a) (drop a xs)"

definition is_bytes :: "bytes \<Rightarrow> bool" where
  "is_bytes bs = list_all (\<lambda>b. b < 256) bs"

lemma length_le_bytes [simp]: "length (le_bytes n v) = n"
  by (induction n arbitrary: v) simp_all

lemma int_of_le_bytes: "v < 256 ^ n \<Longrightarrow> int_of_le (le_bytes n v) = v"
proof (induction n arbitrary: v)
  case 0
  then show ?case by simp
next
  case (Suc n)
  then have "v div 256 < 256 ^ n" by (simp add: less_mult_imp_div_less)
  then show ?case using Suc.IH [of "v div 256"] by simp
qed

lemma le_bytes_int_of: "is_bytes bs \<Longrightarrow> le_bytes (length bs) (int_of_le bs) = bs"
  by (induction bs) (simp_all add: is_bytes_def)

lemma is_bytes_le_bytes [simp]: "is_bytes (le_bytes n v)"
  by (induction n arbitrary: v) (simp_all add: is_bytes_def)

lemma int_of_le_bound: "is_bytes bs \<Longrightarrow> int_of_le bs < 256 ^ length bs"
  by (induction bs) (auto simp: is_bytes_def)

lemma slice_append_left: "length xs = n \<Longrightarrow> slice (xs @ ys) 0 n = xs"
  by (simp add: slice_def)

lemma slice_append_right: "length xs \<le> a \<Longrightarrow> slice (xs @ ys) a b = slice ys (a - length xs) (b - length xs)"
  by (simp add: slice_def)

section \<open>Tables\<close>

definition update_where :: "('r \<Rightarrow> bool) \<Rightarrow> ('r \<Rightarrow> 'r) \<Rightarrow> 'r list \<Rightarrow> 'r list" where
  "update_where p f rows = map (\<lambda>r. if p r then f r else r) rows"

definition count_where :: "('r \<Rightarrow> bool) \<Rightarrow> 'r list \<Rightarrow> nat" where
  "count_where p rows = length (filter p rows)"

definition has_key :: "('r \<Rightarrow> 'k) \<Rightarrow> 'r list \<Rightarrow> 'k \<Rightarrow> bool" where
  "has_key key rows k = (\<exists>r \<in> set rows. key r = k)"

definition insert_or_ignore :: "('r \<Rightarrow> 'k) \<Rightarrow> 'r \<Rightarrow> 'r list \<Rightarrow> 'r list" where
  "insert_or_ignore key r rows = (if has_key key rows (key r) then rows else rows @ [r])"

definition unique_on :: "('r \<Rightarrow> 'k) \<Rightarrow> 'r list \<Rightarrow> bool" where
  "unique_on key rows = distinct (map key rows)"

lemma update_where_keys:
  "(\<And>r. p r \<Longrightarrow> key (f r) = key r) \<Longrightarrow> map key (update_where p f rows) = map key rows"
  by (auto simp: update_where_def)

lemma unique_on_update:
  "(\<And>r. p r \<Longrightarrow> key (f r) = key r) \<Longrightarrow> unique_on key (update_where p f rows) = unique_on key rows"
  unfolding unique_on_def by (subst update_where_keys [where key = key and f = f and p = p]) auto

lemma update_where_none: "(\<And>r. r \<in> set rows \<Longrightarrow> \<not> p r) \<Longrightarrow> update_where p f rows = rows"
  unfolding update_where_def by (simp add: map_idI)

lemma count_where_0: "count_where p rows = 0 \<longleftrightarrow> (\<forall>r \<in> set rows. \<not> p r)"
  by (auto simp: count_where_def filter_empty_conv)

lemma in_update_where:
  "r \<in> set (update_where p f rows) \<longleftrightarrow> (\<exists>q \<in> set rows. r = (if p q then f q else q))"
  by (auto simp: update_where_def)

lemma unique_on_append:
  "unique_on key (rows @ [r]) \<longleftrightarrow> unique_on key rows \<and> \<not> has_key key rows (key r)"
  by (auto simp: unique_on_def has_key_def image_iff)

lemma unique_on_insert: "unique_on key rows \<Longrightarrow> unique_on key (insert_or_ignore key r rows)"
  by (simp add: insert_or_ignore_def unique_on_append)

lemma unique_on_same:
  "unique_on key rows \<Longrightarrow> r \<in> set rows \<Longrightarrow> q \<in> set rows \<Longrightarrow> key r = key q \<Longrightarrow> r = q"
  by (auto simp: unique_on_def distinct_map inj_on_def)

lemma find_unique:
  assumes "unique_on key rows" and "r \<in> set rows"
  shows "List.find (\<lambda>q. key q = key r) rows = Some r"
proof (cases "List.find (\<lambda>q. key q = key r) rows")
  case None
  then show ?thesis using assms(2) by (auto simp: find_None_iff)
next
  case (Some q)
  with find_Some_iff [OF Some] assms show ?thesis by (auto dest: unique_on_same)
qed

lemma find_update:
  assumes "\<And>r. p r \<Longrightarrow> p (f r)"
  shows "List.find p (update_where p f rows) = map_option f (List.find p rows)"
  using assms by (induction rows) (auto simp: update_where_def)

text \<open>
  What a producer that may run twice relies on: an insert whose key is taken changes nothing, and
  an invalid one is rejected. Then repeating an insert, or any later insert with the same key, is
  without effect, replaying a batch is without effect, and the keys of the store after a batch are
  the old ones and those of its valid entries.
\<close>

locale dedup_store =
  fixes has :: "'s \<Rightarrow> 'k \<Rightarrow> bool"
    and add :: "'a \<Rightarrow> 's \<Rightarrow> 's"
    and key_of :: "'a \<Rightarrow> 'k"
    and valid :: "'a \<Rightarrow> bool"
  assumes add_dup: "has s (key_of a) \<Longrightarrow> add a s = s"
    and add_invalid: "\<not> valid a \<Longrightarrow> add a s = s"
    and has_add: "valid a \<Longrightarrow> has (add a s) k \<longleftrightarrow> has s k \<or> k = key_of a"
begin

lemma add_twice: "add a (add a s) = add a s"
  by (cases "valid a") (simp_all add: add_invalid add_dup has_add)

lemma add_same_key: "valid a \<Longrightarrow> key_of b = key_of a \<Longrightarrow> add b (add a s) = add a s"
  by (rule add_dup) (simp add: has_add)

lemma has_fold: "has (fold add as s) k \<longleftrightarrow> has s k \<or> k \<in> key_of ` {a \<in> set as. valid a}"
proof (induction as arbitrary: s)
  case Nil
  then show ?case by simp
next
  case (Cons a as)
  then show ?case by (cases "valid a") (auto simp: has_add add_invalid)
qed

lemma replay_batch: "set as \<subseteq> set bs \<Longrightarrow> fold add as (fold add bs s) = fold add bs s"
proof (induction as)
  case Nil
  then show ?case by simp
next
  case (Cons a as)
  show ?case
  proof (cases "valid a")
    case True
    with Cons.prems have "has (fold add bs s) (key_of a)" by (auto simp: has_fold)
    with Cons show ?thesis by (simp add: add_dup)
  next
    case False
    with Cons show ?thesis by (simp add: add_invalid)
  qed
qed

end

lemma has_key_insert:
  "has_key key (insert_or_ignore key r rows) k \<longleftrightarrow> has_key key rows k \<or> k = key r"
  by (auto simp: insert_or_ignore_def has_key_def)

end
