(* ===== verification/Core_DB.thy ===== *)
theory Core_DB
  imports Python_Std
begin

text \<open>
  The tables every service shares (\<open>db/ledgers.py\<close>: \<open>Job\<close>, \<open>Outbox\<close>, \<open>AuditLog\<close>), the errors the
  services raise, identifiers (\<open>new_ulid\<close>), the canonical payload hash and the hash-chained audit
  log of \<open>jobs/queue.py\<close>. A service extends the record \<open>core_db\<close> with its own tables, so every
  function here works inside any service's transaction. Times are microseconds as integers and
  \<open>now\<close> is an argument; SHA-256 is the argument \<open>sha\<close> (bytes to bytes).
\<close>

unbundle bit_operations_syntax

section \<open>Errors\<close>

datatype app_error =
    ValueError string
  | LookupError string
  | PermissionError string
  | IntegrityError string
  | CheckViolation string
  | NoResultFound
  | LeaseLost
  | ResumeRequiresReason
  | TransientError string
  | TerminalError string
  | OtherError string
  | IllegalIntentTransition string

section \<open>Identifiers\<close>

definition CROCKFORD :: string where
  "CROCKFORD = ''0123456789ABCDEFGHJKMNPQRSTVWXYZ''"

fun ulid_chars :: "nat \<Rightarrow> int \<Rightarrow> string" where
  "ulid_chars 0 v = []"
| "ulid_chars (Suc n) v = CROCKFORD ! nat (v AND 31) # ulid_chars n (drop_bit 5 v)"

definition new_ulid :: "int \<Rightarrow> int \<Rightarrow> string" where
  "new_ulid ts rand = rev (ulid_chars 26 (push_bit 80 ts OR rand))"

definition is_ulid :: "string \<Rightarrow> bool" where
  "is_ulid s \<longleftrightarrow> length s = 26 \<and> (\<forall>c \<in> set s. c \<in> set CROCKFORD)"

text \<open>Lower-case hexadecimal hashes and addresses, as the column constraints require them.\<close>

definition is_hex_low :: "char \<Rightarrow> bool" where
  "is_hex_low c \<longleftrightarrow> (let n = of_char c :: nat in (48 \<le> n \<and> n \<le> 57) \<or> (97 \<le> n \<and> n \<le> 102))"

definition is_hex32 :: "string \<Rightarrow> bool" where
  "is_hex32 s \<longleftrightarrow> length s = 66 \<and> take 2 s = ''0x'' \<and> list_all is_hex_low (drop 2 s)"

definition is_addr :: "string \<Rightarrow> bool" where
  "is_addr s \<longleftrightarrow> length s = 42 \<and> take 2 s = ''0x'' \<and> list_all is_hex_low (drop 2 s)"

section \<open>Rows\<close>

datatype job_state = JS_PENDING | JS_LEASED | JS_SUCCEEDED | JS_FAILED | JS_DEAD

record job_row =
  j_job_id :: string
  j_kind :: string
  j_key :: string
  j_payload_hash :: string
  j_payload :: json
  j_state :: job_state
  j_attempt :: int
  j_max_attempts :: int
  j_leased_by :: "string option"
  j_lease_until :: "int option"
  j_next_run_at :: int
  j_last_error :: "string option"
  j_created_at :: int
  j_updated_at :: int

text \<open>The CHECK constraints on the values of a \<open>jobs\<close> row.\<close>

definition job_checks :: "job_row \<Rightarrow> bool" where
  "job_checks r \<longleftrightarrow> 0 \<le> j_attempt r \<and> 1 \<le> j_max_attempts r \<and>
     (j_state r \<noteq> JS_LEASED \<or> (j_leased_by r \<noteq> None \<and> j_lease_until r \<noteq> None))"

record outbox_row =
  o_id :: int
  o_aggregate_type :: string
  o_aggregate_id :: string
  o_event_type :: string
  o_key :: string
  o_payload :: json
  o_attempt :: int
  o_created_at :: int
  o_published_at :: "int option"

record audit_row =
  a_id :: int
  a_occurred_at :: int
  a_actor :: string
  a_actor_role :: string
  a_action :: string
  a_entity_table :: string
  a_entity_id :: string
  a_before :: "json option"
  a_after :: "json option"
  a_correlation_id :: "string option"
  a_prev_hash :: "string option"
  a_entry_hash :: string

record core_db =
  db_jobs :: "job_row list"
  db_outbox :: "outbox_row list"
  db_audit :: "audit_row list"

definition empty_core :: core_db where
  "empty_core = \<lparr>db_jobs = [], db_outbox = [], db_audit = []\<rparr>"

section \<open>Roles\<close>

datatype role = R_BORROWER | R_LP | R_UNDERWRITER | R_OPERATOR | R_KEEPER | R_GUARDIAN | R_TREASURY | R_SYSTEM

fun role_value :: "role \<Rightarrow> string" where
  "role_value R_BORROWER = ''borrower''"
| "role_value R_LP = ''lp''"
| "role_value R_UNDERWRITER = ''underwriter''"
| "role_value R_OPERATOR = ''operator''"
| "role_value R_KEEPER = ''keeper''"
| "role_value R_GUARDIAN = ''guardian''"
| "role_value R_TREASURY = ''treasury''"
| "role_value R_SYSTEM = ''system''"

definition role_values :: "string list" where
  "role_values = map role_value
     [R_BORROWER, R_LP, R_UNDERWRITER, R_OPERATOR, R_KEEPER, R_GUARDIAN, R_TREASURY, R_SYSTEM]"

lemma role_value_in [simp]: "role_value r \<in> set role_values"
  by (cases r) (simp_all add: role_values_def)

section \<open>Hashes and the audit log\<close>

type_synonym hash_fun = "bytes \<Rightarrow> bytes"

definition hash_hex :: "hash_fun \<Rightarrow> string \<Rightarrow> string" where
  "hash_hex sha s = ''0x'' @ hex_of_bytes (sha (str_bytes s))"

definition payload_hash :: "hash_fun \<Rightarrow> json \<Rightarrow> string" where
  "payload_hash sha payload = hash_hex sha (json_dumps payload)"

definition audit_entry_hash ::
  "hash_fun \<Rightarrow> string option \<Rightarrow> string \<Rightarrow> string \<Rightarrow> string \<Rightarrow> json \<Rightarrow> string" where
  "audit_entry_hash sha prev actor action entity_id after =
     hash_hex sha (json_dumps (JObj
       [(''prev'', json_opt prev), (''actor'', JStr actor), (''action'', JStr action),
        (''entity'', JStr entity_id), (''after'', after)]))"

definition last_hash :: "audit_row list \<Rightarrow> string option" where
  "last_hash rows = (if rows = [] then None else Some (a_entry_hash (last rows)))"

text \<open>
  \<open>write_audit\<close>: rows are only ever appended and numbered upwards, so \<open>ORDER BY id DESC LIMIT 1\<close> is
  the last row. The role CHECK constraint rejects a role that is no \<open>Role\<close> value. \<open>after or {}\<close> is
  the empty object when there is no after image.
\<close>

definition write_audit ::
  "hash_fun \<Rightarrow> int \<Rightarrow> string \<Rightarrow> string \<Rightarrow> string \<Rightarrow> string \<Rightarrow> string \<Rightarrow> json option \<Rightarrow> json option \<Rightarrow>
   string option \<Rightarrow> 'z core_db_scheme \<Rightarrow> app_error + ('z core_db_scheme \<times> int)" where
  "write_audit sha now actor actor_role action entity_table entity_id before after corr db =
    (let prev = last_hash (db_audit db);
         h = audit_entry_hash sha prev actor action entity_id
               (case after of None \<Rightarrow> JObj [] | Some a \<Rightarrow> a);
         i = int (length (db_audit db)) + 1;
         row = \<lparr>a_id = i, a_occurred_at = now, a_actor = actor, a_actor_role = actor_role,
           a_action = action, a_entity_table = entity_table, a_entity_id = entity_id,
           a_before = before, a_after = after, a_correlation_id = corr, a_prev_hash = prev,
           a_entry_hash = h\<rparr>
     in ensure (actor_role \<in> set role_values) (IntegrityError ''ck_audit_log_role'')
          (Inr (db\<lparr>db_audit := db_audit db @ [row]\<rparr>, i)))"

text \<open>The chain an auditor recomputes: every row hashes its own content and the previous hash.\<close>

fun audit_chain :: "hash_fun \<Rightarrow> string option \<Rightarrow> audit_row list \<Rightarrow> bool" where
  "audit_chain sha prev [] = True"
| "audit_chain sha prev (r # rs) \<longleftrightarrow> a_prev_hash r = prev \<and>
     a_entry_hash r = audit_entry_hash sha prev (a_actor r) (a_action r) (a_entity_id r)
       (case a_after r of None \<Rightarrow> JObj [] | Some a \<Rightarrow> a) \<and>
     audit_chain sha (Some (a_entry_hash r)) rs"

lemma audit_chain_append:
  "audit_chain sha prev (rs @ [r]) \<longleftrightarrow> audit_chain sha prev rs \<and>
     audit_chain sha (if rs = [] then prev else Some (a_entry_hash (last rs))) [r]"
  by (induction rs arbitrary: prev) auto

lemma write_audit_eq:
  assumes "write_audit sha now actor rl act tb ent bef aft corr db = Inr (db', i)"
  shows "\<exists>row. db' = db\<lparr>db_audit := db_audit db @ [row]\<rparr> \<and> a_action row = act \<and> a_actor row = actor \<and>
    a_actor_role row = rl \<and> a_entity_table row = tb \<and> a_entity_id row = ent \<and> a_after row = aft \<and>
    a_before row = bef \<and> a_id row = int (length (db_audit db)) + 1 \<and> rl \<in> set role_values \<and>
    (audit_chain sha None (db_audit db) \<longrightarrow> audit_chain sha None (db_audit db @ [row]))"
  using assms
  by (auto simp: write_audit_def Let_def audit_chain_append last_hash_def)

lemma write_audit_ok:
  assumes "rl \<in> set role_values"
  shows "\<exists>row. write_audit sha now actor rl act tb ent bef aft corr db =
    Inr (db\<lparr>db_audit := db_audit db @ [row]\<rparr>, int (length (db_audit db)) + 1) \<and>
    a_action row = act \<and> a_after row = aft \<and> a_entity_id row = ent \<and> a_entity_table row = tb"
  using assms unfolding write_audit_def Let_def by (intro exI conjI) (simp, simp_all)

section \<open>Identifiers sort by time\<close>

text \<open>The characters of an identifier are the base-32 digits of its value, most significant first.\<close>

fun digits32 :: "nat \<Rightarrow> int \<Rightarrow> int list" where
  "digits32 0 v = []"
| "digits32 (Suc n) v = digits32 n (v div 32) @ [v mod 32]"

lemma ulid_chars_digits: "rev (ulid_chars n v) = map (\<lambda>d. CROCKFORD ! nat d) (digits32 n v)"
proof (induction n arbitrary: v)
  case 0
  then show ?case by simp
next
  case (Suc n)
  have "v AND 31 = v mod 32"
    using take_bit_eq_mask [of 5 v] by (simp add: take_bit_eq_mod mask_eq_exp_minus_1)
  moreover have "drop_bit 5 v = v div 32" by (simp add: drop_bit_eq_div)
  ultimately show ?case using Suc [of "v div 32"] by simp
qed

lemma length_digits32 [simp]: "length (digits32 n v) = n"
  by (induction n arbitrary: v) simp_all

lemma digits32_range: "d \<in> set (digits32 n v) \<Longrightarrow> 0 \<le> d \<and> d < 32"
  by (induction n arbitrary: v) auto

lemma list_less_append:
  fixes xs ys :: "int list"
  shows "length xs = length ys \<Longrightarrow> xs < ys \<Longrightarrow> xs @ us < ys @ vs"
  by (induction xs ys rule: list_induct2) auto

lemma list_less_append_same:
  fixes xs :: "int list"
  shows "us < vs \<Longrightarrow> xs @ us < xs @ vs"
  by (induction xs) auto

lemma digits32_less:
  assumes "0 \<le> v" and "v < w" and "w < 32 ^ n"
  shows "digits32 n v < digits32 n w"
  using assms
proof (induction n arbitrary: v w)
  case 0
  then show ?case by simp
next
  case (Suc n)
  have le: "v div 32 \<le> w div 32" using Suc.prems by (simp add: zdiv_mono1)
  have bound: "w div 32 < 32 ^ n" using Suc.prems div_mult_le_self [of 32 w] by simp
  show ?case
  proof (cases "v div 32 < w div 32")
    case True
    have "digits32 n (v div 32) < digits32 n (w div 32)"
      using Suc.IH [OF _ True bound] Suc.prems by simp
    then show ?thesis by (simp add: list_less_append)
  next
    case False
    with le have eq: "v div 32 = w div 32" by simp
    then have "v mod 32 < w mod 32"
      using Suc.prems(2) div_mult_mod_eq [of v 32] div_mult_mod_eq [of w 32] by linarith
    with eq show ?thesis by (simp add: list_less_append_same)
  qed
qed

lemma CROCKFORD_length: "length CROCKFORD = 32"
  by (simp add: CROCKFORD_def)

lemma CROCKFORD_less:
  assumes "0 \<le> d" and "d < e" and "e < (32 :: int)"
  shows "CROCKFORD ! nat d < CROCKFORD ! nat e"
proof -
  have s: "sorted_wrt (<) CROCKFORD" and l: "length CROCKFORD = 32"
    by (simp_all add: CROCKFORD_def less_char_def)
  show ?thesis
    using sorted_wrt_nth_less [OF s, of "nat d" "nat e"] assms l by simp
qed

lemma map_list_less:
  fixes xs ys :: "int list"
  assumes mono: "\<And>d e. 0 \<le> d \<Longrightarrow> d < e \<Longrightarrow> e < 32 \<Longrightarrow> (f d :: char) < f e"
  shows "length xs = length ys \<Longrightarrow> \<forall>d \<in> set xs \<union> set ys. 0 \<le> d \<and> d < 32 \<Longrightarrow> xs < ys \<Longrightarrow> map f xs < map f ys"
  by (induction xs ys rule: list_induct2) (auto intro: mono)

lemma ulid_value:
  fixes ts rand :: int
  assumes "0 \<le> rand" and "rand < 2 ^ 80"
  shows "push_bit 80 ts OR rand = ts * 2 ^ 80 + rand"
proof -
  have "take_bit 80 rand = rand" using assms by (simp add: take_bit_int_eq_self)
  then have "push_bit 80 ts OR rand = push_bit 80 ts + rand"
    by (intro disjunctive_add [symmetric]) (metis bit_push_bit_iff_int bit_take_bit_iff not_le)
  then show ?thesis by (simp add: push_bit_eq_mult)
qed

text \<open>Identifiers are well formed and sort by creation time. For a millisecond time below
  \<open>2\<^sup>48\<close> and any 80 random bits, \<open>new_ulid\<close> gives 26 Crockford characters, as the database CHECK
  demands, and an identifier made at a later time is greater in string order.\<close>

theorem ulid_sorts_by_time:
  assumes "0 \<le> ts" and "ts < 2 ^ 48" and "0 \<le> r" and "r < 2 ^ 80"
    and "ts < ts'" and "ts' < 2 ^ 48" and "0 \<le> r'" and "r' < 2 ^ 80"
  shows "is_ulid (new_ulid ts r) \<and> new_ulid ts r < new_ulid ts' r'"
proof -
  let ?v = "ts * 2 ^ 80 + r" and ?w = "ts' * 2 ^ 80 + r'"
  have lt: "?v < ?w" and bd: "?w < 32 ^ 26" and nn: "0 \<le> ?v" using assms by simp_all
  have eq: "new_ulid ts r = map (\<lambda>d. CROCKFORD ! nat d) (digits32 26 ?v)"
    "new_ulid ts' r' = map (\<lambda>d. CROCKFORD ! nat d) (digits32 26 ?w)"
    unfolding new_ulid_def ulid_value [OF assms(3,4)] ulid_value [OF assms(7,8)]
    by (rule ulid_chars_digits)+
  have "is_ulid (new_ulid ts r)"
  proof -
    have "CROCKFORD ! nat d \<in> set CROCKFORD" if "d \<in> set (digits32 26 ?v)" for d
      using digits32_range [OF that] by (intro nth_mem) (simp add: CROCKFORD_length nat_less_iff)
    then show ?thesis by (auto simp: eq is_ulid_def)
  qed
  moreover have "new_ulid ts r < new_ulid ts' r'"
    unfolding eq using digits32_less [OF nn lt bd] digits32_range
    by (intro map_list_less CROCKFORD_less) (auto simp only: length_digits32)
  ultimately show ?thesis by blast
qed

theorem ulid_sorts_by_time_witness:
  "is_ulid (new_ulid 1700000000000 12345) \<and> new_ulid 1700000000000 12345 < new_ulid 1700000000001 7"
  by (rule ulid_sorts_by_time) simp_all

end
