(* ===== verification/Outbox.thy ===== *)
theory Outbox
  imports Core_DB "HOL-Library.Product_Lexorder"
begin

text \<open>
  The transactional outbox (\<open>jobs/outbox.py\<close>): \<open>emit\<close> adds an event in the caller's transaction,
  at most once per idempotency key; \<open>dispatch_outbox\<close> publishes unpublished events, each in its own
  transaction. The publisher is an argument: given the events it has accepted so far it accepts or
  raises on the next one.
\<close>

section \<open>Operations\<close>

definition emit ::
  "int \<Rightarrow> string \<Rightarrow> string \<Rightarrow> string \<Rightarrow> json \<Rightarrow> string \<Rightarrow> 'z core_db_scheme \<Rightarrow>
   app_error + ('z core_db_scheme \<times> int option)" where
  "emit now agg_type agg_id event_type payload key db =
    ensure (key \<noteq> []) (ValueError ''idempotency_key is required'')
      (if has_key o_key (db_outbox db) key then Inr (db, None)
       else let i = int (length (db_outbox db)) + 1
            in Inr (db\<lparr>db_outbox := db_outbox db @
                 [\<lparr>o_id = i, o_aggregate_type = agg_type, o_aggregate_id = agg_id,
                   o_event_type = event_type, o_key = key, o_payload = payload, o_attempt = 0,
                   o_created_at = now, o_published_at = None\<rparr>]\<rparr>, Some i))"

type_synonym publisher = "outbox_row list \<Rightarrow> outbox_row \<Rightarrow> bool"

text \<open>The batch: unpublished rows with attempts left, oldest first.\<close>

definition dispatch_batch :: "nat \<Rightarrow> int \<Rightarrow> outbox_row list \<Rightarrow> int list" where
  "dispatch_batch batch max_attempts rows =
    map o_id (take batch (sort_key (\<lambda>r. (o_created_at r, o_id r))
      (filter (\<lambda>r. o_published_at r = None \<and> o_attempt r < max_attempts) rows)))"

text \<open>One row in its own transaction; \<open>log\<close> is what the publisher has accepted.\<close>

record dispatch_state =
  ds_rows :: "outbox_row list"
  ds_log :: "outbox_row list"
  ds_published :: nat
  ds_failed :: nat

definition dispatch_one :: "int \<Rightarrow> publisher \<Rightarrow> int \<Rightarrow> dispatch_state \<Rightarrow> dispatch_state" where
  "dispatch_one now pub row_id s =
    (case List.find (\<lambda>r. o_id r = row_id \<and> o_published_at r = None) (ds_rows s) of
       None \<Rightarrow> s
     | Some r \<Rightarrow>
         if pub (ds_log s) r
         then s\<lparr>ds_rows := update_where (\<lambda>q. o_id q = row_id)
                  (\<lambda>q. q\<lparr>o_published_at := Some now, o_attempt := o_attempt q + 1\<rparr>) (ds_rows s),
                ds_log := ds_log s @ [r], ds_published := ds_published s + 1\<rparr>
         else s\<lparr>ds_rows := update_where (\<lambda>q. o_id q = row_id)
                  (\<lambda>q. q\<lparr>o_attempt := o_attempt q + 1\<rparr>) (ds_rows s),
                ds_failed := ds_failed s + 1\<rparr>)"

definition dispatch_rows :: "int \<Rightarrow> publisher \<Rightarrow> nat \<Rightarrow> int \<Rightarrow> outbox_row list \<Rightarrow> dispatch_state" where
  "dispatch_rows now pub batch max_attempts rows =
    fold (dispatch_one now pub) (dispatch_batch batch max_attempts rows)
      \<lparr>ds_rows = rows, ds_log = [], ds_published = 0, ds_failed = 0\<rparr>"

definition dispatch_outbox ::
  "int \<Rightarrow> publisher \<Rightarrow> nat \<Rightarrow> int \<Rightarrow> 'z core_db_scheme \<Rightarrow> 'z core_db_scheme \<times> nat \<times> nat" where
  "dispatch_outbox now pub batch max_attempts db =
    (let s = dispatch_rows now pub batch max_attempts (db_outbox db)
     in (db\<lparr>db_outbox := ds_rows s\<rparr>, ds_published s, ds_failed s))"

definition pending_outbox :: "'z core_db_scheme \<Rightarrow> nat" where
  "pending_outbox db = count_where (\<lambda>r. o_published_at r = None) (db_outbox db)"

section \<open>Emission is idempotent\<close>

record event =
  ev_now :: int
  ev_agg_type :: string
  ev_agg_id :: string
  ev_type :: string
  ev_payload :: json
  ev_key :: string

definition emit_event :: "event \<Rightarrow> core_db \<Rightarrow> core_db" where
  "emit_event e db =
    (case emit (ev_now e) (ev_agg_type e) (ev_agg_id e) (ev_type e) (ev_payload e) (ev_key e) db of
       Inl _ \<Rightarrow> db | Inr (db', _) \<Rightarrow> db')"

interpretation outbox: dedup_store "\<lambda>db. has_key o_key (db_outbox db)" emit_event ev_key "\<lambda>e. ev_key e \<noteq> []"
  by unfold_locales (auto simp: emit_event_def emit_def has_key_def Let_def ensure_def)

lemma emit_event_unique:
  "unique_on o_key (db_outbox db) \<Longrightarrow> unique_on o_key (db_outbox (emit_event e db))"
  by (simp add: emit_event_def emit_def Let_def ensure_def unique_on_append)

lemma fold_emit_unique:
  "unique_on o_key (db_outbox db) \<Longrightarrow> unique_on o_key (db_outbox (fold emit_event es db))"
  by (induction es arbitrary: db) (simp_all add: emit_event_unique)

text \<open>An event is recorded once however often it is emitted. After any batch of emissions every
  non-empty key of the batch is in the outbox, keys are still unique, and replaying the batch, in
  whole or in part and in any order, changes nothing.\<close>

theorem emission_is_idempotent:
  assumes "unique_on o_key (db_outbox db)" and "set replay \<subseteq> set batch"
  shows "fold emit_event replay (fold emit_event batch db) = fold emit_event batch db \<and>
    unique_on o_key (db_outbox (fold emit_event batch db)) \<and>
    (\<forall>e \<in> set batch. ev_key e \<noteq> [] \<longrightarrow> has_key o_key (db_outbox (fold emit_event batch db)) (ev_key e))"
  using outbox.replay_batch [OF assms(2), of db] fold_emit_unique [OF assms(1), of batch]
    outbox.has_fold [of batch db] by auto

definition sample_event :: event where
  "sample_event = \<lparr>ev_now = 1, ev_agg_type = ''facility'', ev_agg_id = ''F1'', ev_type = ''DRAWN'',
     ev_payload = JObj [], ev_key = ''k1''\<rparr>"

theorem emission_is_idempotent_witness:
  "emit_event sample_event (emit_event sample_event empty_core) = emit_event sample_event empty_core \<and>
   has_key o_key (db_outbox (emit_event sample_event empty_core)) ''k1''"
proof -
  have u: "unique_on o_key (db_outbox empty_core)" by (simp add: unique_on_def empty_core_def)
  show ?thesis
    using emission_is_idempotent [OF u, of "[sample_event]" "[sample_event]"] by (simp add: sample_event_def)
qed

section \<open>Dispatch\<close>

text \<open>
  What dispatching keeps: ids, the events that were already published, and the count of published
  rows. \<open>handed_over\<close> says that the rows published during the dispatch are those the publisher
  accepted.
\<close>

definition unpublished :: "outbox_row list \<Rightarrow> nat" where
  "unpublished rows = count_where (\<lambda>r. o_published_at r = None) rows"

definition handed_over :: "outbox_row list \<Rightarrow> dispatch_state \<Rightarrow> bool" where
  "handed_over rows s \<longleftrightarrow> map o_id (ds_rows s) = map o_id rows \<and> unpublished (ds_rows s) + ds_published s = unpublished rows \<and>
     ds_published s = length (ds_log s) \<and>
     (\<forall>r \<in> set (ds_rows s). o_published_at r \<noteq> None \<longrightarrow>
        r \<in> set rows \<or> (\<exists>e \<in> set (ds_log s). o_id e = o_id r \<and> o_key e = o_key r \<and> o_payload e = o_payload r))"

lemma unpublished_update:
  assumes "unique_on o_id rows" and "r \<in> set rows" and "o_published_at r = None"
  shows "unpublished (update_where (\<lambda>q. o_id q = o_id r)
      (\<lambda>q. q\<lparr>o_published_at := Some now, o_attempt := o_attempt q + 1\<rparr>) rows) + 1 = unpublished rows"
  using assms
proof (induction rows)
  case Nil
  then show ?case by simp
next
  case (Cons x rows)
  have u: "unique_on o_id rows" "o_id x \<notin> o_id ` set rows" using Cons.prems(1) by (auto simp: unique_on_def)
  show ?case
  proof (cases "x = r")
    case True
    with u(2) have "update_where (\<lambda>q. o_id q = o_id r)
      (\<lambda>q. q\<lparr>o_published_at := Some now, o_attempt := o_attempt q + 1\<rparr>) rows = rows"
      by (intro update_where_none) (auto simp: image_iff)
    with True Cons.prems(3) show ?thesis by (simp add: unpublished_def count_where_def update_where_def)
  next
    case False
    with Cons.prems u have r: "r \<in> set rows" "o_id x \<noteq> o_id r" by (auto simp: image_iff)
    from Cons.IH [OF u(1) r(1) Cons.prems(3)] r(2) show ?thesis
      by (simp add: unpublished_def count_where_def update_where_def)
  qed
qed

lemma unpublished_attempt:
  "unpublished (update_where p (\<lambda>q. q\<lparr>o_attempt := o_attempt q + 1\<rparr>) rows) = unpublished rows"
  by (induction rows) (auto simp: unpublished_def count_where_def update_where_def)

lemma dispatch_one_handed_over:
  assumes inv: "handed_over rows s" and u: "unique_on o_id rows"
  shows "handed_over rows (dispatch_one now pub row_id s)"
proof (cases "List.find (\<lambda>r. o_id r = row_id \<and> o_published_at r = None) (ds_rows s)")
  case None
  with inv show ?thesis by (simp add: dispatch_one_def)
next
  case (Some r)
  note r = find_Some_iff [OF Some]
  have us: "unique_on o_id (ds_rows s)" using inv u by (simp add: handed_over_def unique_on_def)
  have ids: "map o_id (update_where (\<lambda>q. o_id q = row_id) f (ds_rows s)) = map o_id rows"
    if "\<And>q. o_id (f q) = o_id q" for f
    using inv that by (simp add: update_where_keys handed_over_def)
  have mem: "x = f r \<or> x \<in> set (ds_rows s)"
    if x: "x \<in> set (update_where (\<lambda>q. o_id q = row_id) f (ds_rows s))" for x f
  proof -
    obtain q where q: "q \<in> set (ds_rows s)" "x = (if o_id q = row_id then f q else q)"
      using x by (auto simp: in_update_where)
    have "o_id q = row_id \<Longrightarrow> q = r" using unique_on_same [OF us q(1)] r by auto
    with q show ?thesis by auto
  qed
  show ?thesis
  proof (cases "pub (ds_log s) r")
    case True
    with Some inv ids r unpublished_update [OF us, of r now] show ?thesis
      by (auto simp: handed_over_def dispatch_one_def dest!: mem)
  next
    case False
    with Some inv ids r unpublished_attempt show ?thesis
      by (auto simp: handed_over_def dispatch_one_def dest!: mem)
  qed
qed

lemma dispatch_rows_handed_over:
  assumes "unique_on o_id rows"
  shows "handed_over rows (dispatch_rows now pub batch maxa rows)"
proof -
  have "handed_over rows (fold (dispatch_one now pub) ids s)" if "handed_over rows s" for ids s
    using that by (induction ids arbitrary: s) (simp_all add: dispatch_one_handed_over assms)
  moreover have "handed_over rows \<lparr>ds_rows = rows, ds_log = [], ds_published = 0, ds_failed = 0\<rparr>"
    by (simp add: handed_over_def)
  ultimately show ?thesis unfolding dispatch_rows_def by blast
qed

text \<open>Dispatch neither loses nor invents events. \<open>dispatch_outbox\<close> removes and adds no row, a row
  it leaves published was published before or was accepted by the publisher with the same key and
  payload, and the number of pending events falls by exactly the number it reports as published;
  every event the publisher refused stays pending.\<close>

theorem dispatch_accounts_for_events:
  assumes "unique_on o_id (db_outbox db)" and "dispatch_outbox now pub batch maxa db = (db', p, f)"
  shows "map o_id (db_outbox db') = map o_id (db_outbox db) \<and>
    pending_outbox db' + p = pending_outbox db \<and>
    (\<exists>log :: outbox_row list. length log = p \<and> (\<forall>r \<in> set (db_outbox db'). o_published_at r \<noteq> None \<longrightarrow>
       r \<in> set (db_outbox db) \<or>
       (\<exists>e \<in> set log. o_id e = o_id r \<and> o_key e = o_key r \<and> o_payload e = o_payload r)))"
proof -
  let ?s = "dispatch_rows now pub batch maxa (db_outbox db)"
  have db': "db' = db\<lparr>db_outbox := ds_rows ?s\<rparr>" and p: "p = ds_published ?s"
    using assms(2) by (auto simp: dispatch_outbox_def Let_def)
  have h: "handed_over (db_outbox db) ?s" by (rule dispatch_rows_handed_over [OF assms(1)])
  have "length (ds_log ?s) = p \<and> (\<forall>r \<in> set (db_outbox db'). o_published_at r \<noteq> None \<longrightarrow>
       r \<in> set (db_outbox db) \<or>
       (\<exists>e \<in> set (ds_log ?s). o_id e = o_id r \<and> o_key e = o_key r \<and> o_payload e = o_payload r))"
    using h unfolding handed_over_def db' p by simp
  moreover have "map o_id (db_outbox db') = map o_id (db_outbox db) \<and>
    pending_outbox db' + p = pending_outbox db"
    using h by (simp add: handed_over_def db' p pending_outbox_def unpublished_def)
  ultimately show ?thesis by blast
qed

theorem dispatch_accounts_for_events_witness:
  "\<exists>db' f. dispatch_outbox 9 (\<lambda>_ _. True) 100 20 (emit_event sample_event empty_core) = (db', 1, f) \<and>
     pending_outbox db' = 0"
proof -
  let ?db = "emit_event sample_event empty_core"
  have u: "unique_on o_id (db_outbox ?db)" and pend: "pending_outbox ?db = 1"
    by (simp_all add: unique_on_def emit_event_def emit_def sample_event_def empty_core_def has_key_def
        pending_outbox_def count_where_def)
  obtain db' f where d: "dispatch_outbox 9 (\<lambda>_ _. True) 100 20 ?db = (db', 1, f)"
    by (simp add: dispatch_outbox_def Let_def dispatch_rows_def dispatch_batch_def emit_event_def emit_def
        sample_event_def empty_core_def has_key_def dispatch_one_def)
  from dispatch_accounts_for_events [OF u d] pend d show ?thesis by auto
qed

end
