(* ===== verification/Job_Queue.thy ===== *)
theory Job_Queue
  imports Complex_Main Core_DB "HOL-Library.Product_Lexorder"
begin

text \<open>
  The durable job queue (\<open>jobs/queue.py\<close>, class \<open>JobQueue\<close>, with the SQL function
  \<open>hcg_lease_job\<close> of migration 0002): enqueue with a semantic idempotency key, lease, fenced
  completion and failure, dead letter and resume. Each function is one transaction: a raise
  leaves the database as it was. \<open>now\<close> is the transaction's \<open>now()\<close> in microseconds. The pair of
  worker and attempt is the fencing token; the results are that a token superseded by a later
  lease never acts again, and that the table keeps its constraints along every interleaving of
  the statements.
\<close>

section \<open>Failures and backoff\<close>

datatype failure_kind = FK_TRANSIENT | FK_TERMINAL

fun failure_kind_value :: "failure_kind \<Rightarrow> string" where
  "failure_kind_value FK_TRANSIENT = ''TRANSIENT''"
| "failure_kind_value FK_TERMINAL = ''TERMINAL''"

text \<open>Seconds are rationals; \<open>r\<close> is the number in \<open>[0, 1)\<close> that \<open>random.uniform\<close> draws.\<close>

record backoff_policy =
  bp_base_seconds :: rat
  bp_factor :: rat
  bp_cap_seconds :: rat
  bp_jitter_fraction :: rat

definition default_backoff :: backoff_policy where
  "default_backoff = \<lparr>bp_base_seconds = 2, bp_factor = 2, bp_cap_seconds = 600, bp_jitter_fraction = 1 / 5\<rparr>"

definition raw_delay :: "backoff_policy \<Rightarrow> int \<Rightarrow> rat" where
  "raw_delay p attempt = min (bp_cap_seconds p) (bp_base_seconds p * bp_factor p ^ nat (max 0 (attempt - 1)))"

definition backoff_delay :: "backoff_policy \<Rightarrow> int \<Rightarrow> rat \<Rightarrow> rat" where
  "backoff_delay p attempt r =
    (let raw = raw_delay p attempt; jitter = raw * bp_jitter_fraction p
     in max 0 (raw + (- jitter + (jitter - (- jitter)) * r)))"

text \<open>\<open>make_interval(secs => s)\<close>: microseconds, rounded.\<close>

definition interval_us :: "rat \<Rightarrow> int" where
  "interval_us secs = round (1000000 * secs)"

section \<open>Claims\<close>

record claimed_job =
  c_job_id :: string
  c_kind :: string
  c_payload :: json
  c_key :: string
  c_attempt :: int
  c_max_attempts :: int
  c_worker_id :: string
  c_lease_until :: "int option"

definition claimed_of :: "string \<Rightarrow> job_row \<Rightarrow> claimed_job" where
  "claimed_of worker r = \<lparr>c_job_id = j_job_id r, c_kind = j_kind r, c_payload = j_payload r,
     c_key = j_key r, c_attempt = j_attempt r, c_max_attempts = j_max_attempts r,
     c_worker_id = worker, c_lease_until = j_lease_until r\<rparr>"

section \<open>Enqueue\<close>

definition new_job :: "hash_fun \<Rightarrow> int \<Rightarrow> string \<Rightarrow> string \<Rightarrow> json \<Rightarrow> string \<Rightarrow> int \<Rightarrow> int option \<Rightarrow> job_row" where
  "new_job sha now jid kind payload key max_attempts run_at =
    \<lparr>j_job_id = jid, j_kind = kind, j_key = key, j_payload_hash = payload_hash sha payload,
     j_payload = payload, j_state = JS_PENDING, j_attempt = 0, j_max_attempts = max_attempts,
     j_leased_by = None, j_lease_until = None,
     j_next_run_at = (case run_at of None \<Rightarrow> now | Some t \<Rightarrow> t), j_last_error = None,
     j_created_at = now, j_updated_at = now\<rparr>"

text \<open>The row's CHECK constraints are tested before the conflict clause, the primary key after it.\<close>

definition enqueue ::
  "hash_fun \<Rightarrow> int \<Rightarrow> string \<Rightarrow> string \<Rightarrow> json \<Rightarrow> string \<Rightarrow> int \<Rightarrow> int option \<Rightarrow> 'z core_db_scheme \<Rightarrow>
   app_error + ('z core_db_scheme \<times> string)" where
  "enqueue sha now jid kind payload key max_attempts run_at db =
    (let row = new_job sha now jid kind payload key max_attempts run_at
     in ensure (key \<noteq> []) (ValueError ''semantic_idempotency_key is required'')
       (ensure (job_checks row) (IntegrityError ''ck_jobs_attempts'')
         (case List.find (\<lambda>r. j_key r = key) (db_jobs db) of
            Some r \<Rightarrow> Inr (db, j_job_id r)
          | None \<Rightarrow> ensure (\<not> has_key j_job_id (db_jobs db) jid) (IntegrityError ''jobs_pkey'')
              (Inr (db\<lparr>db_jobs := db_jobs db @ [row]\<rparr>, jid)))))"

section \<open>Lease\<close>

definition lease_free :: "int \<Rightarrow> job_row \<Rightarrow> bool" where
  "lease_free now r = (case j_lease_until r of None \<Rightarrow> True | Some t \<Rightarrow> t < now)"

definition leasable :: "int \<Rightarrow> job_row \<Rightarrow> bool" where
  "leasable now r \<longleftrightarrow> j_state r \<in> {JS_PENDING, JS_LEASED} \<and> j_attempt r < j_max_attempts r \<and>
     j_next_run_at r \<le> now \<and> lease_free now r"

definition take_lease :: "int \<Rightarrow> string \<Rightarrow> int \<Rightarrow> job_row \<Rightarrow> job_row" where
  "take_lease now worker secs r = r\<lparr>j_state := JS_LEASED, j_leased_by := Some worker,
     j_lease_until := Some (now + secs * 1000000), j_attempt := j_attempt r + 1, j_updated_at := now\<rparr>"

definition hcg_lease_job ::
  "int \<Rightarrow> string \<Rightarrow> string \<Rightarrow> int \<Rightarrow> 'z core_db_scheme \<Rightarrow> bool \<times> 'z core_db_scheme" where
  "hcg_lease_job now jid worker secs db =
    (let p = (\<lambda>r. j_job_id r = jid \<and> leasable now r)
     in (count_where p (db_jobs db) \<noteq> 0,
         db\<lparr>db_jobs := update_where p (take_lease now worker secs) (db_jobs db)\<rparr>))"

definition claim_candidates ::
  "int \<Rightarrow> string list \<Rightarrow> string list option \<Rightarrow> nat \<Rightarrow> 'z core_db_scheme \<Rightarrow> string list" where
  "claim_candidates now kinds job_ids n db =
    map j_job_id (take n (sort_key (\<lambda>r. (j_next_run_at r, j_job_id r))
      (filter (\<lambda>r. j_state r \<in> {JS_PENDING, JS_LEASED} \<and> j_kind r \<in> set kinds \<and>
           (case job_ids of None \<Rightarrow> True | Some ids \<Rightarrow> j_job_id r \<in> set ids) \<and>
           j_next_run_at r \<le> now \<and> j_attempt r < j_max_attempts r \<and> lease_free now r)
         (db_jobs db))))"

fun claim_loop ::
  "int \<Rightarrow> string \<Rightarrow> int \<Rightarrow> string list \<Rightarrow> 'z core_db_scheme \<Rightarrow> claimed_job option \<times> 'z core_db_scheme" where
  "claim_loop now worker secs [] db = (None, db)"
| "claim_loop now worker secs (jid # rest) db =
     (case hcg_lease_job now jid worker secs db of
        (won, db') \<Rightarrow>
          if won then (map_option (claimed_of worker) (List.find (\<lambda>r. j_job_id r = jid) (db_jobs db')), db')
          else claim_loop now worker secs rest db')"

definition claim ::
  "int \<Rightarrow> string \<Rightarrow> string list \<Rightarrow> int \<Rightarrow> nat \<Rightarrow> string list option \<Rightarrow> 'z core_db_scheme \<Rightarrow>
   claimed_job option \<times> 'z core_db_scheme" where
  "claim now worker kinds secs n job_ids db =
    (if kinds = [] \<or> job_ids = Some [] then (None, db)
     else claim_loop now worker secs (claim_candidates now kinds job_ids n db) db)"

section \<open>Fenced updates\<close>

definition holds_lease :: "int \<Rightarrow> claimed_job \<Rightarrow> job_row \<Rightarrow> bool" where
  "holds_lease now job r \<longleftrightarrow> j_job_id r = c_job_id job \<and> j_state r = JS_LEASED \<and>
     j_leased_by r = Some (c_worker_id job) \<and> j_attempt r = c_attempt job \<and>
     (case j_lease_until r of None \<Rightarrow> False | Some t \<Rightarrow> now \<le> t)"

definition fenced_update ::
  "int \<Rightarrow> claimed_job \<Rightarrow> (job_row \<Rightarrow> job_row) \<Rightarrow> 'z core_db_scheme \<Rightarrow> app_error + 'z core_db_scheme" where
  "fenced_update now job f db =
    ensure (count_where (holds_lease now job) (db_jobs db) = 1) LeaseLost
      (Inr (db\<lparr>db_jobs := update_where (holds_lease now job) (\<lambda>r. (f r)\<lparr>j_updated_at := now\<rparr>) (db_jobs db)\<rparr>))"

definition renew_lease :: "int \<Rightarrow> claimed_job \<Rightarrow> int \<Rightarrow> 'z core_db_scheme \<Rightarrow> app_error + 'z core_db_scheme" where
  "renew_lease now job secs = fenced_update now job (\<lambda>r. r\<lparr>j_lease_until := Some (now + secs * 1000000)\<rparr>)"

definition complete :: "int \<Rightarrow> claimed_job \<Rightarrow> 'z core_db_scheme \<Rightarrow> app_error + 'z core_db_scheme" where
  "complete now job = fenced_update now job
     (\<lambda>r. r\<lparr>j_state := JS_SUCCEEDED, j_lease_until := None, j_leased_by := None, j_last_error := None\<rparr>)"

definition fail_text :: "failure_kind \<Rightarrow> string \<Rightarrow> bool \<Rightarrow> string" where
  "fail_text kind reason exhausted = failure_kind_value kind @ '': '' @ take 2000 reason @
     (if exhausted \<and> kind = FK_TRANSIENT then '' (attempts exhausted)'' else [])"

definition fail ::
  "backoff_policy \<Rightarrow> rat \<Rightarrow> int \<Rightarrow> claimed_job \<Rightarrow> failure_kind \<Rightarrow> string \<Rightarrow> 'z core_db_scheme \<Rightarrow>
   app_error + ('z core_db_scheme \<times> job_state)" where
  "fail policy rnd now job kind reason db =
    (let exhausted = (c_max_attempts job \<le> c_attempt job)
     in if kind = FK_TERMINAL \<or> exhausted
        then then_do (fenced_update now job (\<lambda>r. r\<lparr>j_state := JS_DEAD, j_lease_until := None,
               j_leased_by := None, j_last_error := Some (fail_text kind reason exhausted)\<rparr>) db)
             (\<lambda>db. Inr (db, JS_DEAD))
        else then_do (fenced_update now job (\<lambda>r. r\<lparr>j_state := JS_PENDING, j_lease_until := None,
               j_leased_by := None, j_last_error := Some (fail_text kind reason False),
               j_next_run_at := now + interval_us (backoff_delay policy (c_attempt job) rnd)\<rparr>) db)
             (\<lambda>db. Inr (db, JS_PENDING)))"

section \<open>Dead letter\<close>

definition job_state_value :: "job_state \<Rightarrow> string" where
  "job_state_value s = (case s of JS_PENDING \<Rightarrow> ''PENDING'' | JS_LEASED \<Rightarrow> ''LEASED''
     | JS_SUCCEEDED \<Rightarrow> ''SUCCEEDED'' | JS_FAILED \<Rightarrow> ''FAILED'' | JS_DEAD \<Rightarrow> ''DEAD'')"

definition resume ::
  "hash_fun \<Rightarrow> int \<Rightarrow> string \<Rightarrow> string \<Rightarrow> string \<Rightarrow> string \<Rightarrow> 'z core_db_scheme \<Rightarrow> app_error + 'z core_db_scheme" where
  "resume sha now jid actor actor_role reason db =
    ensure (actor \<noteq> [] \<and> actor_role \<noteq> [] \<and> str_strip reason \<noteq> []) ResumeRequiresReason
      (ensure (actor_role \<in> set role_values) ResumeRequiresReason
        (case List.find (\<lambda>r. j_job_id r = jid) (db_jobs db) of
           None \<Rightarrow> Inl (LookupError ''job not found'')
         | Some r \<Rightarrow> ensure (j_state r = JS_DEAD) (ValueError ''only DEAD jobs can be resumed'')
             (let m = j_max_attempts r + j_attempt r;
                  db' = db\<lparr>db_jobs := update_where (\<lambda>r. j_job_id r = jid)
                    (\<lambda>r. r\<lparr>j_state := JS_PENDING, j_max_attempts := m, j_lease_until := None,
                       j_leased_by := None, j_next_run_at := now, j_updated_at := now\<rparr>) (db_jobs db)\<rparr>
              in then_do (write_audit sha now actor actor_role ''job.resume'' ''jobs'' jid
                   (Some (JObj [(''state'', JStr (job_state_value (j_state r))), (''attempt'', JInt (j_attempt r)),
                      (''max_attempts'', JInt (j_max_attempts r)), (''last_error'', json_opt (j_last_error r))]))
                   (Some (JObj [(''state'', JStr ''PENDING''), (''attempt'', JInt (j_attempt r)),
                      (''max_attempts'', JInt m), (''reason'', JStr (str_strip reason)),
                      (''previous_error'', json_opt (j_last_error r))])) None db')
                 (\<lambda>(db'', _). Inr db''))))"

definition get_job :: "string \<Rightarrow> 'z core_db_scheme \<Rightarrow> job_row option" where
  "get_job jid db = List.find (\<lambda>r. j_job_id r = jid) (db_jobs db)"

definition list_jobs :: "job_state option \<Rightarrow> string option \<Rightarrow> nat \<Rightarrow> 'z core_db_scheme \<Rightarrow> job_row list" where
  "list_jobs st kind n db = take n (sort_key (\<lambda>r. (j_next_run_at r, j_job_id r))
     (filter (\<lambda>r. (case st of None \<Rightarrow> True | Some s \<Rightarrow> j_state r = s) \<and>
        (case kind of None \<Rightarrow> True | Some k \<Rightarrow> k = [] \<or> j_kind r = k)) (db_jobs db)))"

section \<open>The queue as a machine\<close>

text \<open>
  Interleavings at the level of statements: any worker may issue any call at any time, with any
  claim token, also a stale one; time passes between calls. A claim is a sequence of lease
  statements.
\<close>

inductive queue_step :: "hash_fun \<Rightarrow> int \<times> core_db \<Rightarrow> int \<times> core_db \<Rightarrow> bool" for sha where
  q_time: "now \<le> now' \<Longrightarrow> queue_step sha (now, db) (now', db)"
| q_enqueue: "enqueue sha now jid kind payload key m run_at db = Inr (db', out) \<Longrightarrow>
    queue_step sha (now, db) (now, db')"
| q_lease: "hcg_lease_job now jid worker secs db = (won, db') \<Longrightarrow> queue_step sha (now, db) (now, db')"
| q_renew: "renew_lease now job secs db = Inr db' \<Longrightarrow> queue_step sha (now, db) (now, db')"
| q_complete: "complete now job db = Inr db' \<Longrightarrow> queue_step sha (now, db) (now, db')"
| q_fail: "fail policy rnd now job kind reason db = Inr (db', st) \<Longrightarrow> queue_step sha (now, db) (now, db')"
| q_resume: "resume sha now jid actor rl reason db = Inr db' \<Longrightarrow> queue_step sha (now, db) (now, db')"

text \<open>Every statement keeps_rows some rows in place, or appends one new row.\<close>

definition row_kept :: "job_row \<Rightarrow> job_row \<Rightarrow> bool" where
  "row_kept r r' \<longleftrightarrow> j_job_id r' = j_job_id r \<and> j_key r' = j_key r \<and> j_attempt r \<le> j_attempt r'"

definition row_ok :: "job_row \<Rightarrow> bool" where
  "row_ok r \<longleftrightarrow> job_checks r \<and> j_attempt r \<le> j_max_attempts r"

lemma fenced_update_eq:
  "fenced_update now job f db = Inr db' \<longleftrightarrow>
     count_where (holds_lease now job) (db_jobs db) = 1 \<and>
     db' = db\<lparr>db_jobs := update_where (holds_lease now job) (\<lambda>r. (f r)\<lparr>j_updated_at := now\<rparr>) (db_jobs db)\<rparr>"
  by (auto simp: fenced_update_def ensure_def)

lemma resume_eq:
  assumes "resume sha now jid actor rl reason db = Inr db'"
  shows "\<exists>r row. List.find (\<lambda>r. j_job_id r = jid) (db_jobs db) = Some r \<and> j_state r = JS_DEAD \<and>
    db' = db\<lparr>db_jobs := update_where (\<lambda>r. j_job_id r = jid)
        (\<lambda>q. q\<lparr>j_state := JS_PENDING, j_max_attempts := j_max_attempts r + j_attempt r,
           j_lease_until := None, j_leased_by := None, j_next_run_at := now, j_updated_at := now\<rparr>)
        (db_jobs db), db_audit := db_audit db @ [row]\<rparr> \<and>
    a_action row = ''job.resume'' \<and> a_actor row = actor \<and> a_entity_id row = jid \<and>
    (audit_chain sha None (db_audit db) \<longrightarrow> audit_chain sha None (db_audit db @ [row]))"
  using assms
  by (auto simp: resume_def Let_def then_do_eq_Inr split: option.splits dest!: write_audit_eq)

text \<open>
  The shape of a step on the table: \<open>f\<close> is applied to the rows that satisfy \<open>p\<close>, with what the
  rewrite keeps of a row of the table and of its constraints.
\<close>

definition keeps_rows :: "(job_row \<Rightarrow> bool) \<Rightarrow> (job_row \<Rightarrow> job_row) \<Rightarrow> job_row list \<Rightarrow> bool" where
  "keeps_rows p f rows \<longleftrightarrow> (\<forall>r \<in> set rows. p r \<longrightarrow> row_kept r (f r) \<and> (row_ok r \<longrightarrow> row_ok (f r)))"

lemma keeps_rows_lease:
  "keeps_rows (\<lambda>r. j_job_id r = jid \<and> leasable now r) (take_lease now worker secs) rows"
  by (auto simp: keeps_rows_def row_kept_def row_ok_def job_checks_def take_lease_def leasable_def)

lemma keeps_rows_fenced:
  assumes "\<And>r. j_job_id (f r) = j_job_id r \<and> j_key (f r) = j_key r \<and> j_attempt (f r) = j_attempt r \<and>
      j_max_attempts (f r) = j_max_attempts r"
    and "\<And>r. holds_lease now job r \<Longrightarrow> j_state (f r) \<noteq> JS_LEASED \<or> (j_leased_by (f r) \<noteq> None \<and> j_lease_until (f r) \<noteq> None)"
  shows "keeps_rows (holds_lease now job) (\<lambda>r. (f r)\<lparr>j_updated_at := now\<rparr>) rows"
  using assms by (auto simp: keeps_rows_def row_kept_def row_ok_def job_checks_def)

lemma keeps_rows_resume:
  assumes "unique_on j_job_id rows" and "List.find (\<lambda>r. j_job_id r = jid) rows = Some r"
  shows "keeps_rows (\<lambda>r. j_job_id r = jid)
    (\<lambda>q. q\<lparr>j_state := JS_PENDING, j_max_attempts := j_max_attempts r + j_attempt r,
       j_lease_until := None, j_leased_by := None, j_next_run_at := now, j_updated_at := now\<rparr>) rows"
proof -
  have "q = r" if "q \<in> set rows" "j_job_id q = jid" for q
    using find_Some_iff [OF assms(2)] unique_on_same [OF assms(1)] that by blast
  then show ?thesis by (auto simp: keeps_rows_def row_kept_def row_ok_def job_checks_def)
qed

definition rewritten :: "job_row list \<Rightarrow> job_row list \<Rightarrow> bool" where
  "rewritten rows rows' \<longleftrightarrow> (\<exists>p f. keeps_rows p f rows \<and> rows' = update_where p f rows)"

lemma rewrittenI: "keeps_rows p f rows \<Longrightarrow> rewritten rows (update_where p f rows)"
  by (auto simp: rewritten_def)

lemma rewritten_refl: "rewritten rows rows"
  using rewrittenI [of "\<lambda>_. False" id rows] by (simp add: keeps_rows_def update_where_none)

text \<open>One step of the queue, seen from the tables.\<close>

lemma queue_step_shape:
  assumes "queue_step sha (now, db) (now', db')" and "unique_on j_job_id (db_jobs db)"
  shows "now \<le> now' \<and>
    (audit_chain sha None (db_audit db) \<longrightarrow> audit_chain sha None (db_audit db')) \<and>
    (rewritten (db_jobs db) (db_jobs db') \<or>
     (\<exists>row. db_jobs db' = db_jobs db @ [row] \<and> row_ok row \<and> j_attempt row = 0 \<and>
        \<not> has_key j_job_id (db_jobs db) (j_job_id row) \<and> \<not> has_key j_key (db_jobs db) (j_key row)))"
  using assms(1)
proof cases
  case q_time
  then show ?thesis by (simp add: rewritten_refl)
next
  case (q_enqueue jid kind payload key m run_at out)
  then show ?thesis
    by (auto simp: enqueue_def Let_def new_job_def row_ok_def job_checks_def has_key_def find_None_iff
        rewritten_refl split: option.splits)
next
  case (q_lease jid worker secs won)
  then show ?thesis
    using rewrittenI [OF keeps_rows_lease] by (auto simp: hcg_lease_job_def Let_def)
next
  case (q_renew job secs)
  then show ?thesis
    by (auto simp: renew_lease_def fenced_update_eq holds_lease_def [of now job]
        intro!: rewrittenI keeps_rows_fenced)
next
  case (q_complete job)
  then show ?thesis
    by (auto simp: complete_def fenced_update_eq intro!: rewrittenI keeps_rows_fenced)
next
  case (q_fail policy rnd job kind reason st)
  then show ?thesis
    by (auto simp: fail_def Let_def then_do_eq_Inr fenced_update_eq intro!: rewrittenI keeps_rows_fenced
        split: if_splits)
next
  case (q_resume jid actor rl reason)
  obtain r row where find: "List.find (\<lambda>r. j_job_id r = jid) (db_jobs db) = Some r"
    and db': "db' = db\<lparr>db_jobs := update_where (\<lambda>r. j_job_id r = jid)
        (\<lambda>q. q\<lparr>j_state := JS_PENDING, j_max_attempts := j_max_attempts r + j_attempt r,
           j_lease_until := None, j_leased_by := None, j_next_run_at := now, j_updated_at := now\<rparr>)
        (db_jobs db), db_audit := db_audit db @ [row]\<rparr>"
    and chain: "audit_chain sha None (db_audit db) \<longrightarrow> audit_chain sha None (db_audit db @ [row])"
    using resume_eq [OF q_resume(2)] by blast
  have "rewritten (db_jobs db) (db_jobs db')"
    unfolding db' using rewrittenI [OF keeps_rows_resume [OF assms(2) find]] by simp
  with chain q_resume(1) show ?thesis by (simp add: db')
qed

definition queue_inv :: "hash_fun \<Rightarrow> int \<times> core_db \<Rightarrow> bool" where
  "queue_inv sha s \<longleftrightarrow> unique_on j_job_id (db_jobs (snd s)) \<and> unique_on j_key (db_jobs (snd s)) \<and>
     (\<forall>r \<in> set (db_jobs (snd s)). row_ok r) \<and> audit_chain sha None (db_audit (snd s))"

lemma rewritten_unique:
  assumes "rewritten rows rows'"
  shows "unique_on j_job_id rows' = unique_on j_job_id rows" "unique_on j_key rows' = unique_on j_key rows"
proof -
  obtain p f where f: "keeps_rows p f rows" and r: "rows' = update_where p f rows"
    using assms by (auto simp: rewritten_def)
  have "map j_job_id rows' = map j_job_id rows" "map j_key rows' = map j_key rows"
    using f by (auto simp: r update_where_def keeps_rows_def row_kept_def)
  then show "unique_on j_job_id rows' = unique_on j_job_id rows" "unique_on j_key rows' = unique_on j_key rows"
    by (simp_all add: unique_on_def)
qed

lemma rewritten_rows:
  assumes "rewritten rows rows'"
  shows "(\<forall>r \<in> set rows. row_ok r) \<Longrightarrow> (\<forall>r \<in> set rows'. row_ok r)"
    and "r \<in> set rows \<Longrightarrow> \<exists>r' \<in> set rows'. row_kept r r'"
proof -
  obtain p f where f: "keeps_rows p f rows" and rows': "rows' = update_where p f rows"
    using assms by (auto simp: rewritten_def)
  show "\<forall>r \<in> set rows'. row_ok r" if "\<forall>r \<in> set rows. row_ok r"
    using f that by (auto simp: rows' in_update_where keeps_rows_def)
  show "\<exists>r' \<in> set rows'. row_kept r r'" if "r \<in> set rows"
  proof -
    have "row_kept r (if p r then f r else r)" using f that by (auto simp: keeps_rows_def row_kept_def)
    moreover have "(if p r then f r else r) \<in> set rows'"
      using that unfolding rows' in_update_where by blast
    ultimately show ?thesis by blast
  qed
qed

lemma queue_step_inv: "queue_step sha s t \<Longrightarrow> queue_inv sha s \<Longrightarrow> queue_inv sha t"
proof -
  assume step: "queue_step sha s t" and inv: "queue_inv sha s"
  obtain now db now' db' where s: "s = (now, db)" and t: "t = (now', db')" by (cases s; cases t)
  have u: "unique_on j_job_id (db_jobs db)" using inv by (simp add: queue_inv_def s)
  from queue_step_shape [OF step [unfolded s t] u] inv show ?thesis
    by (auto simp: queue_inv_def s t rewritten_unique unique_on_append dest: rewritten_rows(1))
qed

lemma queue_step_row:
  assumes "queue_step sha s t" and "queue_inv sha s" and "r \<in> set (db_jobs (snd s))"
  shows "\<exists>r' \<in> set (db_jobs (snd t)). row_kept r r'"
proof -
  obtain now db now' db' where s: "s = (now, db)" and t: "t = (now', db')" by (cases s; cases t)
  have u: "unique_on j_job_id (db_jobs db)" using assms(2) by (simp add: queue_inv_def s)
  show ?thesis
    using queue_step_shape [OF assms(1) [unfolded s t] u] assms(3) rewritten_rows(2) [of "db_jobs db"]
    by (auto simp: s t row_kept_def)
qed

interpretation jobq: inv_machine "\<lambda>s. \<exists>now. s = (now, empty_core)" "queue_step sha" "queue_inv sha"
  for sha :: hash_fun
proof
  show "queue_inv sha s" if "\<exists>now. s = (now, empty_core)" for s
    using that by (auto simp: queue_inv_def empty_core_def unique_on_def)
qed (rule queue_step_inv)

lemma row_persists:
  assumes "(queue_step sha)\<^sup>*\<^sup>* s t" and "queue_inv sha s" and "r \<in> set (db_jobs (snd s))"
  shows "\<exists>r' \<in> set (db_jobs (snd t)). row_kept r r'"
  using assms(1)
proof (induction rule: rtranclp_induct)
  case base
  then show ?case using assms(3) by (auto simp: row_kept_def)
next
  case (step t u)
  have "queue_inv sha t" by (rule jobq.run_inv [OF step(1) assms(2)])
  with step queue_step_row [OF step(2)] show ?case
    by (fastforce simp: row_kept_def intro: order_trans)
qed

text \<open>A claim is a run of lease statements, and a claim that wins raises the attempt of its job.\<close>

lemma claim_loop_steps: "(queue_step sha)\<^sup>*\<^sup>* (now, db) (now, snd (claim_loop now worker secs jids db))"
proof (induction jids arbitrary: db)
  case Nil
  then show ?case by simp
next
  case (Cons jid jids)
  obtain won db' where l: "hcg_lease_job now jid worker secs db = (won, db')" by (cases "hcg_lease_job now jid worker secs db")
  have "queue_step sha (now, db) (now, db')" by (rule q_lease [OF l])
  then show ?case using Cons [of db'] l by (auto intro: converse_rtranclp_into_rtranclp)
qed

lemma claim_steps: "(queue_step sha)\<^sup>*\<^sup>* (now, db) (now, snd (claim now worker kinds secs n ids db))"
  by (simp add: claim_def claim_loop_steps)

lemma lease_won:
  assumes "unique_on j_job_id (db_jobs db)" and "hcg_lease_job now jid worker secs db = (True, db')"
  shows "\<exists>r \<in> set (db_jobs db). j_job_id r = jid \<and> leasable now r \<and>
    take_lease now worker secs r \<in> set (db_jobs db') \<and>
    List.find (\<lambda>r. j_job_id r = jid) (db_jobs db') = Some (take_lease now worker secs r)"
proof -
  obtain r where r: "r \<in> set (db_jobs db)" "j_job_id r = jid" "leasable now r"
    using assms(2) by (auto simp: hcg_lease_job_def Let_def count_where_0)
  have mem: "take_lease now worker secs r \<in> set (db_jobs db')"
    using assms(2) r by (auto simp: hcg_lease_job_def Let_def in_update_where)
  have "unique_on j_job_id (db_jobs db')"
    using assms by (auto simp: hcg_lease_job_def Let_def take_lease_def unique_on_update)
  from find_unique [OF this mem] r(2) have "List.find (\<lambda>r. j_job_id r = jid) (db_jobs db') = Some (take_lease now worker secs r)"
    by (simp add: take_lease_def)
  with r mem show ?thesis by blast
qed

lemma lease_lost_unchanged: "hcg_lease_job now jid worker secs db = (False, db') \<Longrightarrow> db' = db"
  by (auto simp: hcg_lease_job_def Let_def count_where_0 update_where_none)

lemma claim_loop_won:
  assumes "unique_on j_job_id (db_jobs db)" and "claim_loop now worker secs jids db = (Some job, db')"
  shows "\<exists>r \<in> set (db_jobs db). leasable now r \<and> job = claimed_of worker (take_lease now worker secs r) \<and>
    take_lease now worker secs r \<in> set (db_jobs db')"
  using assms
proof (induction jids arbitrary: db)
  case Nil
  then show ?case by simp
next
  case (Cons jid jids)
  obtain won db1 where l: "hcg_lease_job now jid worker secs db = (won, db1)"
    by (cases "hcg_lease_job now jid worker secs db")
  show ?case
  proof (cases won)
    case True
    then obtain r where "r \<in> set (db_jobs db)" "leasable now r"
      "take_lease now worker secs r \<in> set (db_jobs db1)"
      "List.find (\<lambda>r. j_job_id r = jid) (db_jobs db1) = Some (take_lease now worker secs r)"
      using lease_won [OF Cons.prems(1), of now jid worker secs db1] l by auto
    with True l Cons.prems(2) show ?thesis by auto
  next
    case False
    with l have "db1 = db" by (auto dest: lease_lost_unchanged)
    with Cons l False show ?thesis by simp
  qed
qed

lemma claim_won:
  assumes "unique_on j_job_id (db_jobs db)" and "claim now worker kinds secs n ids db = (Some job, db')"
  shows "\<exists>r \<in> set (db_jobs db). leasable now r \<and> job = claimed_of worker (take_lease now worker secs r) \<and>
    take_lease now worker secs r \<in> set (db_jobs db')"
  using assms claim_loop_won by (auto simp: claim_def split: if_splits)

lemma fenced_rejects:
  assumes "\<forall>r \<in> set (db_jobs db). \<not> holds_lease now job r"
  shows "fenced_update now job f db = Inl LeaseLost"
proof -
  have "count_where (holds_lease now job) (db_jobs db) = 0" using assms by (simp add: count_where_0)
  then show ?thesis by (simp add: fenced_update_def)
qed

section \<open>Properties\<close>

text \<open>C21: the queue's table keeps its constraints. Under every interleaving of enqueue, lease,
  renew, complete, fail and resume by any workers, with fresh or stale tokens, job ids and semantic
  keys stay unique, a leased row names its worker and deadline, the attempt counter stays between
  zero and the budget, and the audit log stays a valid hash chain.\<close>

theorem queue_invariant:
  assumes "(queue_step sha)\<^sup>*\<^sup>* (now, empty_core) (now', db)"
  shows "unique_on j_job_id (db_jobs db) \<and> unique_on j_key (db_jobs db) \<and>
    (\<forall>r \<in> set (db_jobs db). job_checks r \<and> j_attempt r \<le> j_max_attempts r) \<and>
    audit_chain sha None (db_audit db)"
  using jobq.reachable_inv [OF _ assms] by (auto simp: queue_inv_def row_ok_def)

definition sample_queue :: core_db where
  "sample_queue = empty_core\<lparr>db_jobs :=
     [new_job id 5 ''J1'' ''PROOF_SUBMIT'' (JObj []) ''proof:1'' 3 None]\<rparr>"

lemma sample_enqueue:
  "enqueue id 5 ''J1'' ''PROOF_SUBMIT'' (JObj []) ''proof:1'' 3 None empty_core = Inr (sample_queue, ''J1'')"
  by (simp add: enqueue_def sample_queue_def empty_core_def Let_def new_job_def job_checks_def has_key_def)

lemma sample_run: "(queue_step id)\<^sup>*\<^sup>* (5, empty_core) (5, sample_queue)"
  by (rule r_into_rtranclp) (rule q_enqueue [OF sample_enqueue])

theorem queue_invariant_witness:
  "(queue_step id)\<^sup>*\<^sup>* (5, empty_core) (5, sample_queue) \<and> unique_on j_key (db_jobs sample_queue)"
  using queue_invariant [OF sample_run] sample_run by simp

text \<open>A token superseded by a later claim is held by no row, now or later.\<close>

lemma superseded_holds_nothing:
  assumes "queue_inv sha (t0, db)" and "claim t0 worker kinds secs n ids db = (Some job, db1)"
    and "c_job_id old = c_job_id job" and "c_attempt old < c_attempt job"
    and "(queue_step sha)\<^sup>*\<^sup>* (t0, db1) (t, db2)"
  shows "\<forall>x \<in> set (db_jobs db2). \<not> holds_lease t old x"
proof -
  have u: "unique_on j_job_id (db_jobs db)" using assms(1) by (simp add: queue_inv_def)
  obtain r where r: "take_lease t0 worker secs r \<in> set (db_jobs db1)"
    and job: "job = claimed_of worker (take_lease t0 worker secs r)"
    using claim_won [OF u assms(2)] by blast
  have inv1: "queue_inv sha (t0, db1)"
    using jobq.run_inv [OF claim_steps [of sha t0 db worker kinds secs n ids] assms(1)]
    by (simp add: assms(2))
  have inv2: "queue_inv sha (t, db2)" by (rule jobq.run_inv [OF assms(5) inv1])
  obtain q where q: "q \<in> set (db_jobs db2)" "row_kept (take_lease t0 worker secs r) q"
    using row_persists [OF assms(5) inv1, of "take_lease t0 worker secs r"] r by auto
  have "\<not> holds_lease t old x" if "x \<in> set (db_jobs db2)" for x
  proof
    assume h: "holds_lease t old x"
    then have "j_job_id x = j_job_id q" using assms(3) q(2) by (simp add: holds_lease_def job claimed_of_def row_kept_def)
    then have "x = q" using unique_on_same [of j_job_id "db_jobs db2"] inv2 that q(1) by (simp add: queue_inv_def)
    with h q(2) assms(4) show False by (simp add: holds_lease_def row_kept_def job claimed_of_def)
  qed
  then show ?thesis by blast
qed

text \<open>C11: a lease that was taken over never acts again. Once a job has been claimed with a later
  attempt, no call made with an earlier token for that job (whatever its worker id, also the same
  one) renews, completes or fails it, in any later state of the queue: each raises \<open>LeaseLost\<close>.\<close>

theorem superseded_token_rejected:
  assumes "queue_inv sha (t0, db)" and "claim t0 worker kinds secs n ids db = (Some job, db1)"
    and "c_job_id old = c_job_id job" and "c_attempt old < c_attempt job"
    and "(queue_step sha)\<^sup>*\<^sup>* (t0, db1) (t, db2)"
  shows "renew_lease t old s db2 = Inl LeaseLost \<and> complete t old db2 = Inl LeaseLost \<and>
    fail policy rnd t old kind reason db2 = Inl LeaseLost"
  using superseded_holds_nothing [OF assms]
  by (simp add: renew_lease_def complete_def fail_def Let_def fenced_rejects)

definition sample_claimed :: core_db where
  "sample_claimed = snd (claim 5 ''w1'' [''PROOF_SUBMIT''] 60 8 None sample_queue)"

text \<open>The second claim, by the same worker, after the first lease has expired.\<close>

lemma sample_reclaim:
  "\<exists>job db. claim 100000000 ''w1'' [''PROOF_SUBMIT''] 60 8 None sample_claimed = (Some job, db) \<and>
     c_job_id job = ''J1'' \<and> c_attempt job = 2"
  by (simp add: sample_claimed_def claim_def claim_candidates_def sample_queue_def empty_core_def
      new_job_def hcg_lease_job_def Let_def leasable_def lease_free_def count_where_def update_where_def
      take_lease_def claimed_of_def)

lemma sample_claimed_inv: "queue_inv id (5, sample_claimed)"
proof -
  have "queue_inv id (5, sample_queue)" using jobq.reachable_inv [OF _ sample_run] by blast
  from jobq.run_inv [OF claim_steps this] show ?thesis unfolding sample_claimed_def .
qed

theorem superseded_token_rejected_witness:
  "\<exists>job db old. claim 100000000 ''w1'' [''PROOF_SUBMIT''] 60 8 None sample_claimed = (Some job, db) \<and>
     c_attempt old = 1 \<and> complete 100000001 old db = Inl LeaseLost"
proof -
  obtain job db where c: "claim 100000000 ''w1'' [''PROOF_SUBMIT''] 60 8 None sample_claimed = (Some job, db)"
    and j: "c_job_id job = ''J1''" "c_attempt job = 2"
    using sample_reclaim by blast
  have inv: "queue_inv id (100000000, sample_claimed)"
    using sample_claimed_inv by (simp add: queue_inv_def)
  have step: "(queue_step id)\<^sup>*\<^sup>* (100000000, db) (100000001, db)"
    by (rule r_into_rtranclp, rule q_time) simp
  have "complete 100000001 (job\<lparr>c_attempt := 1\<rparr>) db = Inl LeaseLost"
    using superseded_token_rejected [OF inv c _ _ step, of "job\<lparr>c_attempt := 1\<rparr>"] j by simp
  with c show ?thesis by (intro exI [of _ job] exI [of _ db] exI [of _ "job\<lparr>c_attempt := 1\<rparr>"]) simp
qed

text \<open>
  Rows no statement of the queue can touch any more: a completed one, and one whose last attempt
  was leased and whose lease has run out.
\<close>

definition inert :: "int \<Rightarrow> job_row \<Rightarrow> bool" where
  "inert now r \<longleftrightarrow> j_state r = JS_SUCCEEDED \<or>
     (j_state r = JS_LEASED \<and> j_max_attempts r \<le> j_attempt r \<and>
      (case j_lease_until r of None \<Rightarrow> False | Some t \<Rightarrow> t < now))"

lemma inert_not_held: "inert now r \<Longrightarrow> \<not> leasable now r \<and> \<not> holds_lease now job r \<and> j_state r \<noteq> JS_DEAD"
  by (auto simp: inert_def leasable_def holds_lease_def split: option.splits)

lemma inert_step:
  assumes "queue_step sha (now, db) (now', db')" and "queue_inv sha (now, db)"
    and "r \<in> set (db_jobs db)" and "inert now r"
  shows "r \<in> set (db_jobs db') \<and> inert now' r"
proof -
  have kept: "r \<in> set (update_where p f (db_jobs db))" if "\<not> p r" for p f
    using assms(3) that by (auto simp: in_update_where intro!: bexI [of _ r])
  note free = inert_not_held [OF assms(4)]
  from assms(1) show ?thesis
  proof cases
    case q_time
    with assms(3,4) show ?thesis by (auto simp: inert_def split: option.splits)
  next
    case (q_enqueue jid kind payload key m run_at out)
    with assms(3,4) show ?thesis by (auto simp: enqueue_def Let_def split: option.splits)
  next
    case (q_lease jid worker secs won)
    with assms(4) free kept show ?thesis by (auto simp: hcg_lease_job_def Let_def)
  next
    case (q_renew job secs)
    with assms(4) free kept show ?thesis by (auto simp: renew_lease_def fenced_update_eq)
  next
    case (q_complete job)
    with assms(4) free kept show ?thesis by (auto simp: complete_def fenced_update_eq)
  next
    case (q_fail policy rnd job kind reason st)
    with assms(4) free kept show ?thesis
      by (auto simp: fail_def Let_def then_do_eq_Inr fenced_update_eq split: if_splits)
  next
    case (q_resume jid actor rl reason)
    obtain q row where q: "List.find (\<lambda>r. j_job_id r = jid) (db_jobs db) = Some q" "j_state q = JS_DEAD"
      and db': "db' = db\<lparr>db_jobs := update_where (\<lambda>r. j_job_id r = jid)
        (\<lambda>x. x\<lparr>j_state := JS_PENDING, j_max_attempts := j_max_attempts q + j_attempt q,
           j_lease_until := None, j_leased_by := None, j_next_run_at := now, j_updated_at := now\<rparr>)
        (db_jobs db), db_audit := db_audit db @ [row]\<rparr>"
      using resume_eq [OF q_resume(2)] by blast
    have "j_job_id r \<noteq> jid"
      using find_Some_iff [OF q(1)] q(2) free assms(2,3) unique_on_same [of j_job_id "db_jobs db" r q]
      by (auto simp: queue_inv_def)
    with kept assms(4) q_resume(1) show ?thesis by (simp add: db')
  qed
qed

lemma inert_run:
  assumes "(queue_step sha)\<^sup>*\<^sup>* s t" and "queue_inv sha s" and "r \<in> set (db_jobs (snd s))" and "inert (fst s) r"
  shows "r \<in> set (db_jobs (snd t)) \<and> inert (fst t) r"
  using assms(1)
proof (induction rule: rtranclp_induct)
  case base
  then show ?case using assms by simp
next
  case (step t u)
  obtain now db now' db' where s: "t = (now, db)" "u = (now', db')" by (cases t; cases u)
  have "queue_inv sha t" by (rule jobq.run_inv [OF step(1) assms(2)])
  with inert_step [of sha now db now' db' r] step s show ?case by simp
qed

text \<open>A completed job is final. When \<open>complete\<close> returns, the job's row is SUCCEEDED without a
  lease, and in every later state of the queue that row is still there unchanged, so no worker can
  lease, fail or resume the job again.\<close>

theorem completed_job_is_final:
  assumes "queue_inv sha (now, db)" and "complete now job db = Inr db'"
    and "(queue_step sha)\<^sup>*\<^sup>* (now, db') (now2, db2)"
  shows "\<exists>r \<in> set (db_jobs db2). j_job_id r = c_job_id job \<and> j_state r = JS_SUCCEEDED \<and>
    j_attempt r = c_attempt job \<and> \<not> leasable now2 r"
proof -
  obtain r where r: "r \<in> set (db_jobs db)" "holds_lease now job r"
    using assms(2) by (fastforce simp: complete_def fenced_update_eq count_where_def length_Suc_conv
        filter_eq_Cons_iff)
  let ?r = "r\<lparr>j_state := JS_SUCCEEDED, j_lease_until := None, j_leased_by := None, j_last_error := None,
    j_updated_at := now\<rparr>"
  have mem: "?r \<in> set (db_jobs db')"
    using assms(2) r by (auto simp: complete_def fenced_update_eq in_update_where intro!: bexI [of _ r])
  have "queue_inv sha (now, db')" by (rule queue_step_inv [OF q_complete [OF assms(2)] assms(1)])
  with inert_run [OF assms(3) this, of ?r] mem have "?r \<in> set (db_jobs db2)" by (simp add: inert_def)
  with r(2) show ?thesis by (intro bexI [of _ ?r]) (auto simp: holds_lease_def leasable_def)
qed

lemma sample_first_claim:
  "claim 5 ''w1'' [''PROOF_SUBMIT''] 60 8 None sample_queue =
     (Some \<lparr>c_job_id = ''J1'', c_kind = ''PROOF_SUBMIT'', c_payload = JObj [], c_key = ''proof:1'', c_attempt = 1,
        c_max_attempts = 3, c_worker_id = ''w1'', c_lease_until = Some 60000005\<rparr>, sample_claimed)"
  by (simp add: sample_claimed_def claim_def claim_candidates_def sample_queue_def empty_core_def
      new_job_def hcg_lease_job_def Let_def leasable_def lease_free_def count_where_def update_where_def
      take_lease_def claimed_of_def)

theorem completed_job_is_final_witness:
  "\<exists>job db. claim 5 ''w1'' [''PROOF_SUBMIT''] 60 8 None sample_queue = (Some job, sample_claimed) \<and>
     complete 6 job sample_claimed = Inr db \<and>
     (\<exists>r \<in> set (db_jobs db). j_job_id r = ''J1'' \<and> j_state r = JS_SUCCEEDED)"
proof -
  obtain job where c: "claim 5 ''w1'' [''PROOF_SUBMIT''] 60 8 None sample_queue = (Some job, sample_claimed)"
    "c_job_id job = ''J1''" "c_worker_id job = ''w1''" "c_attempt job = 1"
    using sample_first_claim by auto
  have "\<exists>db. complete 6 job sample_claimed = Inr db"
    by (simp add: complete_def fenced_update_eq sample_claimed_def claim_def claim_candidates_def sample_queue_def
        empty_core_def new_job_def hcg_lease_job_def Let_def leasable_def lease_free_def count_where_def
        update_where_def take_lease_def claimed_of_def holds_lease_def c(2-4))
  then obtain db where d: "complete 6 job sample_claimed = Inr db" by blast
  have inv: "queue_inv id (6, sample_claimed)" using sample_claimed_inv by (simp add: queue_inv_def)
  from completed_job_is_final [OF inv d rtranclp.rtrancl_refl] c d show ?thesis by auto
qed

text \<open>A worker that dies on a job's last attempt leaves it stuck. Once a row is LEASED with its
  whole budget used and its lease has expired, no statement of the queue ever changes it: it cannot
  be leased again, it is never dead-lettered, and \<open>resume\<close> refuses it because it is not DEAD.\<close>

theorem exhausted_lease_is_stuck:
  assumes "queue_inv sha (now, db)" and "r \<in> set (db_jobs db)" and "j_state r = JS_LEASED"
    and "j_attempt r = j_max_attempts r" and "j_lease_until r = Some u" and "u < now"
    and "(queue_step sha)\<^sup>*\<^sup>* (now, db) (now2, db2)"
  shows "r \<in> set (db_jobs db2) \<and> \<not> leasable now2 r \<and>
    (\<forall>actor rl reason db3. resume sha now2 (j_job_id r) actor rl reason db2 \<noteq> Inr db3)"
proof -
  have i: "r \<in> set (db_jobs db2)" "inert now2 r"
    using inert_run [OF assms(7,1), of r] assms(2-6) by (simp_all add: inert_def)
  have u: "unique_on j_job_id (db_jobs db2)"
    using jobq.run_inv [OF assms(7,1)] by (simp add: queue_inv_def)
  have "resume sha now2 (j_job_id r) actor rl reason db2 \<noteq> Inr db3" for actor rl reason db3
  proof
    assume "resume sha now2 (j_job_id r) actor rl reason db2 = Inr db3"
    then obtain q where "List.find (\<lambda>x. j_job_id x = j_job_id r) (db_jobs db2) = Some q" "j_state q = JS_DEAD"
      using resume_eq by blast
    with find_unique [OF u i(1)] assms(3) show False by simp
  qed
  with i inert_not_held [OF i(2)] show ?thesis by blast
qed

definition sample_stuck :: job_row where
  "sample_stuck = (new_job id 5 ''J1'' ''PROOF_SUBMIT'' (JObj []) ''proof:1'' 1 None)
     \<lparr>j_state := JS_LEASED, j_attempt := 1, j_leased_by := Some ''w1'', j_lease_until := Some 50\<rparr>"

theorem exhausted_lease_is_stuck_witness:
  "sample_stuck \<in> set (db_jobs (empty_core\<lparr>db_jobs := [sample_stuck]\<rparr>)) \<and> \<not> leasable 60 sample_stuck"
proof -
  have "queue_inv id (60, empty_core\<lparr>db_jobs := [sample_stuck]\<rparr>)"
    by (simp add: queue_inv_def empty_core_def unique_on_def row_ok_def job_checks_def sample_stuck_def new_job_def)
  from exhausted_lease_is_stuck [OF this, of sample_stuck 50 60 "empty_core\<lparr>db_jobs := [sample_stuck]\<rparr>"]
  show ?thesis by (simp add: sample_stuck_def new_job_def)
qed

end
