(* ===== verification/Job_Worker.thy ===== *)
theory Job_Worker
  imports Job_Queue
begin

text \<open>
  The worker loop (\<open>jobs/worker.py\<close>): claim a job, run its handler and complete the job in one
  transaction, record a failure in another. A handler works on the transaction's database and
  either returns it changed or raises; a raise rolls the transaction back to what is committed,
  which is part of the raise because a handler may commit on its own (as the proof lifecycle does
  for failures). Each transaction has its own time.
\<close>

type_synonym 'z handler = "claimed_job \<Rightarrow> 'z core_db_scheme \<Rightarrow> (app_error \<times> 'z core_db_scheme) + 'z core_db_scheme"

text \<open>The clock readings and the random draw of one iteration.\<close>

record worker_times =
  wt_claim :: int
  wt_handle :: int
  wt_fail :: int
  wt_random :: rat

datatype run_outcome = RO_SUCCEEDED | RO_LEASE_LOST | RO_PENDING | RO_DEAD

fun error_kind :: "app_error \<Rightarrow> failure_kind" where
  "error_kind (TerminalError _) = FK_TERMINAL"
| "error_kind _ = FK_TRANSIENT"

text \<open>\<open>_fail_exception\<close>: the text of a declared failure, the class and text of anything else.\<close>

fun error_text :: "app_error \<Rightarrow> string" where
  "error_text (TerminalError m) = m"
| "error_text (TransientError m) = m"
| "error_text (ValueError m) = ''ValueError: '' @ m"
| "error_text (LookupError m) = ''LookupError: '' @ m"
| "error_text (PermissionError m) = ''PermissionError: '' @ m"
| "error_text (IntegrityError m) = ''IntegrityError: '' @ m"
| "error_text (CheckViolation m) = ''IntegrityError: '' @ m"
| "error_text NoResultFound = ''NoResultFound: ''"
| "error_text LeaseLost = ''LeaseLost: ''"
| "error_text ResumeRequiresReason = ''ResumeRequiresReason: ''"
| "error_text (OtherError m) = m"
| "error_text (IllegalIntentTransition m) = ''IllegalIntentTransition: '' @ m"

definition worker_fail ::
  "backoff_policy \<Rightarrow> worker_times \<Rightarrow> claimed_job \<Rightarrow> failure_kind \<Rightarrow> string \<Rightarrow> 'z core_db_scheme \<Rightarrow>
   run_outcome \<times> 'z core_db_scheme" where
  "worker_fail policy w job kind reason db =
    (case fail policy (wt_random w) (wt_fail w) job kind reason db of
       Inl _ \<Rightarrow> (RO_LEASE_LOST, db)
     | Inr (db', st) \<Rightarrow> (if st = JS_DEAD then RO_DEAD else RO_PENDING, db'))"

definition run_one ::
  "backoff_policy \<Rightarrow> worker_times \<Rightarrow> 'z handler \<Rightarrow> claimed_job \<Rightarrow> 'z core_db_scheme \<Rightarrow> run_outcome \<times> 'z core_db_scheme" where
  "run_one policy w handler job db =
    (case handler job db of
       Inr db' \<Rightarrow>
         (case complete (wt_handle w) job db' of
            Inr db'' \<Rightarrow> (RO_SUCCEEDED, db'')
          | Inl _ \<Rightarrow> (RO_LEASE_LOST, db))
     | Inl (e, committed) \<Rightarrow>
         (case e of LeaseLost \<Rightarrow> (RO_LEASE_LOST, committed)
          | _ \<Rightarrow> worker_fail policy w job (error_kind e) (error_text e) committed))"

text \<open>
  \<open>run_once\<close> with the handlers as a dictionary by job kind; a claim is restricted to its keys, so
  the lookup finds a handler.
\<close>

definition run_once ::
  "backoff_policy \<Rightarrow> string \<Rightarrow> int \<Rightarrow> (string, 'z handler) dict \<Rightarrow> worker_times \<Rightarrow> 'z core_db_scheme \<Rightarrow>
   run_outcome option \<times> 'z core_db_scheme" where
  "run_once policy worker secs handlers w db =
    (case claim (wt_claim w) worker (dict_keys handlers) secs 8 None db of
       (None, db') \<Rightarrow> (None, db')
     | (Some job, db') \<Rightarrow>
         (case map_of handlers (c_kind job) of
            None \<Rightarrow> (None, db')
          | Some h \<Rightarrow> map_prod Some id (run_one policy w h job db')))"

text \<open>\<open>run_forever\<close> with \<open>max_iterations\<close> set: one reading of the clocks per iteration.\<close>

fun run_forever ::
  "backoff_policy \<Rightarrow> string \<Rightarrow> int \<Rightarrow> (string, 'z handler) dict \<Rightarrow> worker_times list \<Rightarrow> 'z core_db_scheme \<Rightarrow>
   nat \<times> 'z core_db_scheme" where
  "run_forever policy worker secs handlers [] db = (0, db)"
| "run_forever policy worker secs handlers (w # ws) db =
     (case run_once policy worker secs handlers w db of
        (res, db') \<Rightarrow> map_prod (\<lambda>n. if res = None then n else Suc n) id
           (run_forever policy worker secs handlers ws db'))"

lemma claim_loop_kind:
  assumes "claim_loop now worker secs jids db = (Some job, db')" and "unique_on j_job_id (db_jobs db)"
    and "\<forall>jid \<in> set jids. \<exists>r \<in> set (db_jobs db). j_job_id r = jid \<and> P (j_kind r)"
  shows "P (c_kind job)"
  using assms
proof (induction jids arbitrary: db)
  case Nil
  then show ?case by simp
next
  case (Cons jid jids)
  obtain won db1 where l: "hcg_lease_job now jid worker secs db = (won, db1)"
    by (cases "hcg_lease_job now jid worker secs db")
  show ?case
  proof (cases won)
    case True
    then obtain r where r: "r \<in> set (db_jobs db)" "j_job_id r = jid"
      "List.find (\<lambda>r. j_job_id r = jid) (db_jobs db1) = Some (take_lease now worker secs r)"
      using lease_won [OF Cons.prems(2), of now jid worker secs db1] l by auto
    moreover obtain q where "q \<in> set (db_jobs db)" "j_job_id q = jid" "P (j_kind q)" using Cons.prems(3) by auto
    ultimately have "P (j_kind r)" using unique_on_same [OF Cons.prems(2), of r q] by simp
    with True l r(3) Cons.prems(1) show ?thesis by (auto simp: claimed_of_def take_lease_def)
  next
    case False
    with l have "db1 = db" by (auto dest: lease_lost_unchanged)
    with Cons l False show ?thesis by simp
  qed
qed

lemma claim_kind:
  assumes "claim now worker kinds secs n ids db = (Some job, db')" and "unique_on j_job_id (db_jobs db)"
  shows "c_kind job \<in> set kinds"
proof (rule claim_loop_kind)
  show "claim_loop now worker secs (claim_candidates now kinds ids n db) db = (Some job, db')"
    using assms(1) by (simp add: claim_def split: if_splits)
  show "\<forall>jid \<in> set (claim_candidates now kinds ids n db). \<exists>r \<in> set (db_jobs db). j_job_id r = jid \<and> j_kind r \<in> set kinds"
    by (auto simp: claim_candidates_def dest!: in_set_takeD)
qed (rule assms(2))

text \<open>Two tables that agree on every row but those of one job.\<close>

definition others_same :: "string \<Rightarrow> job_row list \<Rightarrow> job_row list \<Rightarrow> bool" where
  "others_same jid rows rows' \<longleftrightarrow>
     filter (\<lambda>r. j_job_id r \<noteq> jid) rows' = filter (\<lambda>r. j_job_id r \<noteq> jid) rows"

lemma fenced_others_same:
  assumes "\<And>q. j_job_id (f q) = j_job_id q"
  shows "others_same (c_job_id job) rows (update_where (holds_lease t job) f rows)"
  using assms by (induction rows) (auto simp: others_same_def update_where_def holds_lease_def)

lemma worker_fail_local:
  assumes "worker_fail policy w job kind reason db = (out, db')"
  shows "out \<noteq> RO_SUCCEEDED \<and> (\<exists>rows. db' = db\<lparr>db_jobs := rows\<rparr> \<and> others_same (c_job_id job) (db_jobs db) rows)"
proof -
  have "db = db\<lparr>db_jobs := db_jobs db\<rparr> \<and> others_same (c_job_id job) (db_jobs db) (db_jobs db)"
    by (simp add: others_same_def)
  with assms show ?thesis
    by (auto simp: worker_fail_def fail_def Let_def then_do_eq_Inr fenced_update_eq fenced_others_same
        split: sum.splits if_splits intro: exI [of _ "db_jobs db"])
qed


lemma sample_run_one:
  "\<exists>db'. run_one default_backoff \<lparr>wt_claim = 5, wt_handle = 6, wt_fail = 7, wt_random = 0\<rparr> (\<lambda>_ db. Inr db)
     \<lparr>c_job_id = ''J1'', c_kind = ''PROOF_SUBMIT'', c_payload = JObj [], c_key = ''proof:1'', c_attempt = 1,
      c_max_attempts = 3, c_worker_id = ''w1'', c_lease_until = Some 60000005\<rparr> sample_claimed = (RO_SUCCEEDED, db')"
  by (simp add: run_one_def complete_def fenced_update_def sample_claimed_def claim_def claim_candidates_def sample_queue_def
        empty_core_def new_job_def hcg_lease_job_def Let_def leasable_def lease_free_def count_where_def
        update_where_def take_lease_def claimed_of_def holds_lease_def)


text \<open>A worker whose lease was taken over changes nothing. If its job has been claimed again with
  a later attempt, running the handler to its end with the old token leaves the database exactly as it
  was and reports LEASE_LOST, provided the handler does not touch the jobs table.\<close>

theorem superseded_worker_commits_nothing:
  assumes "queue_inv sha (t0, db)" and "claim t0 worker kinds secs n ids db = (Some job, db1)"
    and "c_job_id old = c_job_id job" and "c_attempt old < c_attempt job"
    and "(queue_step sha)\<^sup>*\<^sup>* (t0, db1) (wt_handle w, db2)"
    and "handler old db2 = Inr db3" and "db_jobs db3 = db_jobs db2"
  shows "run_one policy w handler old db2 = (RO_LEASE_LOST, db2)"
proof -
  have "complete (wt_handle w) old db3 = Inl LeaseLost"
    using superseded_holds_nothing [OF assms(1-5)] assms(7) by (simp add: complete_def fenced_rejects)
  then show ?thesis by (simp add: run_one_def assms(6))
qed

theorem superseded_worker_commits_nothing_witness:
  "\<exists>job db old w. claim 100000000 ''w1'' [''PROOF_SUBMIT''] 60 8 None sample_claimed = (Some job, db) \<and>
     c_attempt old = 1 \<and> run_one default_backoff w (\<lambda>_ db. Inr (db\<lparr>db_outbox := []\<rparr>)) old db = (RO_LEASE_LOST, db)"
proof -
  obtain job db where c: "claim 100000000 ''w1'' [''PROOF_SUBMIT''] 60 8 None sample_claimed = (Some job, db)"
    and j: "c_job_id job = ''J1''" "c_attempt job = 2"
    using sample_reclaim by blast
  let ?w = "\<lparr>wt_claim = 5, wt_handle = 100000001, wt_fail = 7, wt_random = 0\<rparr>"
  have inv: "queue_inv id (100000000, sample_claimed)"
    using sample_claimed_inv by (simp add: queue_inv_def)
  have step: "(queue_step id)\<^sup>*\<^sup>* (100000000, db) (wt_handle ?w, db)"
    by (rule r_into_rtranclp, simp, rule q_time) simp
  have "run_one default_backoff ?w (\<lambda>_ db. Inr (db\<lparr>db_outbox := []\<rparr>)) (job\<lparr>c_attempt := 1\<rparr>) db = (RO_LEASE_LOST, db)"
    by (rule superseded_worker_commits_nothing [OF inv c _ _ step, where ?db3.0 = "db\<lparr>db_outbox := []\<rparr>"])
       (simp_all add: j)
  with c show ?thesis
    by (intro exI [of _ job] exI [of _ db] exI [of _ "job\<lparr>c_attempt := 1\<rparr>"] exI [of _ ?w]) simp
qed

end
