(* ===== verification/Domain.thy ===== *)
theory Domain
  imports Python_Std
begin

text \<open>
  The fixed enumerations of \<open>domain/enums.py\<close>, each a datatype with the string values that the
  database, the API and the contracts share, and exact money (\<open>domain/money.py\<close>): integer base
  units as decimal strings with an explicit asset. The role enumeration is in the theory of the
  shared tables, whose audit log refers to it.
\<close>

section \<open>Enumerations\<close>

datatype execution_profile =
    EP_LOCAL_MOCK
  | EP_NATIVE_TESTNET
  | EP_PRODUCTION

fun execution_profile_value :: "execution_profile \<Rightarrow> string" where
  "execution_profile_value EP_LOCAL_MOCK = ''LOCAL_MOCK''"
| "execution_profile_value EP_NATIVE_TESTNET = ''NATIVE_TESTNET''"
| "execution_profile_value EP_PRODUCTION = ''PRODUCTION''"

datatype verification_method =
    VM_ATTESTCOIN_NATIVE
  | VM_LOCAL_MOCK
  | VM_OFFCHAIN_ASSERTION

fun verification_method_value :: "verification_method \<Rightarrow> string" where
  "verification_method_value VM_ATTESTCOIN_NATIVE = ''ATTESTCOIN_NATIVE''"
| "verification_method_value VM_LOCAL_MOCK = ''LOCAL_MOCK''"
| "verification_method_value VM_OFFCHAIN_ASSERTION = ''OFFCHAIN_ASSERTION''"

datatype native_status =
    NS_NOT_REQUIRED
  | NS_NOT_REQUESTED
  | NS_OBSERVED
  | NS_WAITING_ATTESTATION
  | NS_PROOF_READY
  | NS_SUBMITTED
  | NS_NATIVE_ACCEPTED
  | NS_CONSUMED
  | NS_INVALID
  | NS_UNSUPPORTED
  | NS_EXPIRED

fun native_status_value :: "native_status \<Rightarrow> string" where
  "native_status_value NS_NOT_REQUIRED = ''NOT_REQUIRED''"
| "native_status_value NS_NOT_REQUESTED = ''NOT_REQUESTED''"
| "native_status_value NS_OBSERVED = ''OBSERVED''"
| "native_status_value NS_WAITING_ATTESTATION = ''WAITING_ATTESTATION''"
| "native_status_value NS_PROOF_READY = ''PROOF_READY''"
| "native_status_value NS_SUBMITTED = ''SUBMITTED''"
| "native_status_value NS_NATIVE_ACCEPTED = ''NATIVE_ACCEPTED''"
| "native_status_value NS_CONSUMED = ''CONSUMED''"
| "native_status_value NS_INVALID = ''INVALID''"
| "native_status_value NS_UNSUPPORTED = ''UNSUPPORTED''"
| "native_status_value NS_EXPIRED = ''EXPIRED''"

datatype earnings_provenance =
    PV_UNCLASSIFIED
  | PV_PROVIDER_SETTLEMENT
  | PV_PROVIDER_INCENTIVE
  | PV_SELF_TRANSFER
  | PV_THIRD_PARTY_UNKNOWN
  | PV_REFUND_OR_REVERSAL
  | PV_SIMULATED

fun earnings_provenance_value :: "earnings_provenance \<Rightarrow> string" where
  "earnings_provenance_value PV_UNCLASSIFIED = ''UNCLASSIFIED''"
| "earnings_provenance_value PV_PROVIDER_SETTLEMENT = ''PROVIDER_SETTLEMENT''"
| "earnings_provenance_value PV_PROVIDER_INCENTIVE = ''PROVIDER_INCENTIVE''"
| "earnings_provenance_value PV_SELF_TRANSFER = ''SELF_TRANSFER''"
| "earnings_provenance_value PV_THIRD_PARTY_UNKNOWN = ''THIRD_PARTY_UNKNOWN''"
| "earnings_provenance_value PV_REFUND_OR_REVERSAL = ''REFUND_OR_REVERSAL''"
| "earnings_provenance_value PV_SIMULATED = ''SIMULATED''"

datatype control_grade =
    CG_E0
  | CG_E1
  | CG_E2
  | CG_E3

fun control_grade_value :: "control_grade \<Rightarrow> string" where
  "control_grade_value CG_E0 = ''E0''"
| "control_grade_value CG_E1 = ''E1''"
| "control_grade_value CG_E2 = ''E2''"
| "control_grade_value CG_E3 = ''E3''"

datatype cash_state =
    CS_NONE
  | CS_SOURCE_ESCROW
  | CS_IN_FLIGHT
  | CS_DESTINATION_RECEIVED
  | CS_ALLOCATED
  | CS_RETURNED

fun cash_state_value :: "cash_state \<Rightarrow> string" where
  "cash_state_value CS_NONE = ''NONE''"
| "cash_state_value CS_SOURCE_ESCROW = ''SOURCE_ESCROW''"
| "cash_state_value CS_IN_FLIGHT = ''IN_FLIGHT''"
| "cash_state_value CS_DESTINATION_RECEIVED = ''DESTINATION_RECEIVED''"
| "cash_state_value CS_ALLOCATED = ''ALLOCATED''"
| "cash_state_value CS_RETURNED = ''RETURNED''"

datatype environment_status =
    ES_UNCONFIRMED
  | ES_PROBED
  | ES_UNSUPPORTED

fun environment_status_value :: "environment_status \<Rightarrow> string" where
  "environment_status_value ES_UNCONFIRMED = ''UNCONFIRMED''"
| "environment_status_value ES_PROBED = ''PROBED''"
| "environment_status_value ES_UNSUPPORTED = ''UNSUPPORTED''"

datatype facility_state =
    FS_DRAFT
  | FS_UNDER_REVIEW
  | FS_CONTROL_PENDING
  | FS_ACTIVE
  | FS_DRAW_FROZEN
  | FS_DELINQUENT
  | FS_DEFAULTED
  | FS_RECOVERY
  | FS_REPAID
  | FS_RELEASED
  | FS_CLOSED_WITH_LOSS

fun facility_state_value :: "facility_state \<Rightarrow> string" where
  "facility_state_value FS_DRAFT = ''DRAFT''"
| "facility_state_value FS_UNDER_REVIEW = ''UNDER_REVIEW''"
| "facility_state_value FS_CONTROL_PENDING = ''CONTROL_PENDING''"
| "facility_state_value FS_ACTIVE = ''ACTIVE''"
| "facility_state_value FS_DRAW_FROZEN = ''DRAW_FROZEN''"
| "facility_state_value FS_DELINQUENT = ''DELINQUENT''"
| "facility_state_value FS_DEFAULTED = ''DEFAULTED''"
| "facility_state_value FS_RECOVERY = ''RECOVERY''"
| "facility_state_value FS_REPAID = ''REPAID''"
| "facility_state_value FS_RELEASED = ''RELEASED''"
| "facility_state_value FS_CLOSED_WITH_LOSS = ''CLOSED_WITH_LOSS''"

datatype receivable_state =
    RS_RECOGNIZED
  | RS_ASSIGNED
  | RS_PARTIALLY_PAID
  | RS_PAID
  | RS_DISPUTED
  | RS_CANCELLED
  | RS_WRITTEN_OFF

fun receivable_state_value :: "receivable_state \<Rightarrow> string" where
  "receivable_state_value RS_RECOGNIZED = ''RECOGNIZED''"
| "receivable_state_value RS_ASSIGNED = ''ASSIGNED''"
| "receivable_state_value RS_PARTIALLY_PAID = ''PARTIALLY_PAID''"
| "receivable_state_value RS_PAID = ''PAID''"
| "receivable_state_value RS_DISPUTED = ''DISPUTED''"
| "receivable_state_value RS_CANCELLED = ''CANCELLED''"
| "receivable_state_value RS_WRITTEN_OFF = ''WRITTEN_OFF''"

datatype settlement_state =
    SS_ANNOUNCED
  | SS_PAID_AT_SOURCE
  | SS_CONVERTING
  | SS_RECEIVED_AT_DESTINATION
  | SS_ALLOCATED
  | SS_REVERSED

fun settlement_state_value :: "settlement_state \<Rightarrow> string" where
  "settlement_state_value SS_ANNOUNCED = ''ANNOUNCED''"
| "settlement_state_value SS_PAID_AT_SOURCE = ''PAID_AT_SOURCE''"
| "settlement_state_value SS_CONVERTING = ''CONVERTING''"
| "settlement_state_value SS_RECEIVED_AT_DESTINATION = ''RECEIVED_AT_DESTINATION''"
| "settlement_state_value SS_ALLOCATED = ''ALLOCATED''"
| "settlement_state_value SS_REVERSED = ''REVERSED''"

datatype asset_kind =
    AK_PHYSICAL_GPU
  | AK_MIG_PARTITION
  | AK_VGPU
  | AK_VM
  | AK_CONTAINER
  | AK_STAKING_GROUP
  | AK_NODE_NFT

fun asset_kind_value :: "asset_kind \<Rightarrow> string" where
  "asset_kind_value AK_PHYSICAL_GPU = ''PHYSICAL_GPU''"
| "asset_kind_value AK_MIG_PARTITION = ''MIG_PARTITION''"
| "asset_kind_value AK_VGPU = ''VGPU''"
| "asset_kind_value AK_VM = ''VM''"
| "asset_kind_value AK_CONTAINER = ''CONTAINER''"
| "asset_kind_value AK_STAKING_GROUP = ''STAKING_GROUP''"
| "asset_kind_value AK_NODE_NFT = ''NODE_NFT''"

datatype economic_event_type =
    ET_OBLIGATION
  | ET_ASSIGNMENT
  | ET_CORRECTION
  | ET_PAYOUT
  | ET_CANCELLATION
  | ET_REFUND

fun economic_event_type_value :: "economic_event_type \<Rightarrow> string" where
  "economic_event_type_value ET_OBLIGATION = ''OBLIGATION''"
| "economic_event_type_value ET_ASSIGNMENT = ''ASSIGNMENT''"
| "economic_event_type_value ET_CORRECTION = ''CORRECTION''"
| "economic_event_type_value ET_PAYOUT = ''PAYOUT''"
| "economic_event_type_value ET_CANCELLATION = ''CANCELLATION''"
| "economic_event_type_value ET_REFUND = ''REFUND''"

datatype trust =
    TR_PROVEN
  | TR_ASSERTED
  | TR_OBSERVED
  | TR_CLAIMED

fun trust_value :: "trust \<Rightarrow> string" where
  "trust_value TR_PROVEN = ''PROVEN''"
| "trust_value TR_ASSERTED = ''ASSERTED''"
| "trust_value TR_OBSERVED = ''OBSERVED''"
| "trust_value TR_CLAIMED = ''CLAIMED''"

section \<open>Money\<close>

datatype money_error = MoneyValueError string

record asset_ref =
  as_chain_id :: int
  as_address :: "string option"
  as_symbol :: string
  as_decimals :: int

definition is_hex_char :: "char \<Rightarrow> bool" where
  "is_hex_char c \<longleftrightarrow> (let n = of_char c :: nat in
     (48 \<le> n \<and> n \<le> 57) \<or> (97 \<le> n \<and> n \<le> 102) \<or> (65 \<le> n \<and> n \<le> 70))"

text \<open>The expression \<open>^0x[0-9a-fA-F]{40}$\<close>: \<open>$\<close> also matches before a final newline.\<close>

definition addr_re :: "string \<Rightarrow> bool" where
  "addr_re s \<longleftrightarrow> (let t = (if s \<noteq> [] \<and> last s = CHR 0x0A then butlast s else s) in
     length t = 42 \<and> take 2 t = ''0x'' \<and> list_all is_hex_char (drop 2 t))"

definition make_asset :: "int \<Rightarrow> string option \<Rightarrow> string \<Rightarrow> int \<Rightarrow> money_error + asset_ref" where
  "make_asset chain_id address symbol decimals =
    (if chain_id < 1 then Inl (MoneyValueError ''chain_id'')
     else if decimals < 0 \<or> 36 < decimals then Inl (MoneyValueError ''decimals'')
     else case address of
       None \<Rightarrow> Inr \<lparr>as_chain_id = chain_id, as_address = None, as_symbol = symbol, as_decimals = decimals\<rparr>
     | Some v \<Rightarrow> if addr_re v
         then Inr \<lparr>as_chain_id = chain_id, as_address = Some (str_lower v), as_symbol = symbol,
                   as_decimals = decimals\<rparr>
         else Inl (MoneyValueError ''address must be 0x + 40 hex chars''))"

definition asset_key :: "asset_ref \<Rightarrow> int \<times> string \<times> int" where
  "asset_key a = (as_chain_id a, (case as_address a of None \<Rightarrow> [] | Some v \<Rightarrow> v), as_decimals a)"

record money =
  m_amount :: string
  m_asset :: asset_ref

text \<open>The expression \<open>^-?[0-9]+$\<close>.\<close>

definition int_re :: "string \<Rightarrow> bool" where
  "int_re s \<longleftrightarrow> (let t = (if s \<noteq> [] \<and> last s = CHR 0x0A then butlast s else s);
                    u = (if t \<noteq> [] \<and> hd t = CHR ''-'' then tl t else t)
     in u \<noteq> [] \<and> list_all (\<lambda>c. char_digit c \<noteq> None) u)"

definition make_money :: "string \<Rightarrow> asset_ref \<Rightarrow> money_error + money" where
  "make_money amount asset =
    (if int_re amount then Inr \<lparr>m_amount = amount, m_asset = asset\<rparr>
     else Inl (MoneyValueError ''amount must be an integer string in base units''))"

text \<open>\<open>int(self.amount)\<close>: surrounding white space is accepted by \<open>int\<close>.\<close>

definition units :: "money \<Rightarrow> money_error + int" where
  "units m = (case int_of_str (str_strip (m_amount m)) of None \<Rightarrow> Inl (MoneyValueError ''int'') | Some i \<Rightarrow> Inr i)"

definition same_asset :: "money \<Rightarrow> money \<Rightarrow> bool" where
  "same_asset a b \<longleftrightarrow> asset_key (m_asset a) = asset_key (m_asset b)"

definition combine_money :: "(int \<Rightarrow> int \<Rightarrow> int) \<Rightarrow> money \<Rightarrow> money \<Rightarrow> money_error + money" where
  "combine_money f a b =
    ensure (same_asset a b) (MoneyValueError ''cannot combine different assets'')
      (then_do (units a) (\<lambda>x. then_do (units b) (\<lambda>y. make_money (str_int (f x y)) (m_asset a))))"

definition add_money :: "money \<Rightarrow> money \<Rightarrow> money_error + money" where
  "add_money = combine_money (+)"

definition sub_money :: "money \<Rightarrow> money \<Rightarrow> money_error + money" where
  "sub_money = combine_money (-)"

section \<open>Money is exact\<close>

lemma str_nat_digits: "c \<in> set (str_nat n) \<Longrightarrow> \<exists>d < 10. c = digit_char d"
proof (induction n rule: str_nat.induct)
  case (1 n)
  then show ?case
    by (subst (asm) (2) str_nat.simps) (force split: if_splits)
qed

lemma digit_code: "d < 10 \<Longrightarrow> of_char (digit_char d) = 48 + d"
  by (simp add: digit_char_def of_char_of)

lemma char_digit_code: "char_digit c = Some d \<Longrightarrow> of_char c = 48 + d \<and> d < 10"
  by (auto simp: char_digit_def Let_def split: if_splits)

lemma char_digit_not_space:
  assumes "char_digit c = Some d"
  shows "\<not> is_space c" and "c \<noteq> CHR 0x0A"
proof -
  note n = char_digit_code [OF assms]
  then show "\<not> is_space c" by (simp add: is_space_def)
  show "c \<noteq> CHR 0x0A"
  proof
    assume "c = CHR 0x0A"
    then have "of_char c = (10 :: nat)" by simp
    with n show False by simp
  qed
qed

lemma dropWhile_tight: "s \<noteq> [] \<Longrightarrow> \<not> P (hd s) \<Longrightarrow> dropWhile P (s @ t) = s @ t"
  by (cases s) simp_all

lemma strip_tight:
  assumes "s \<noteq> []" and "\<not> is_space (hd s)" and "\<not> is_space (last s)"
  shows "str_strip s = s" and "str_strip (s @ [CHR 0x0A]) = s"
proof -
  have r: "rev s \<noteq> []" "\<not> is_space (hd (rev s))" using assms by (simp_all add: hd_rev)
  have "is_space (CHR 0x0A)" by (simp add: is_space_def)
  then show "str_strip s = s" "str_strip (s @ [CHR 0x0A]) = s"
    using dropWhile_tight [of s is_space "[]"] dropWhile_tight [of s is_space "[CHR 0x0A]"]
      dropWhile_tight [of "rev s" is_space "[]"] assms r
    by (simp_all add: str_strip_def)
qed

text \<open>The body of an amount: an optional sign and digits.\<close>

definition decimal :: "string \<Rightarrow> bool" where
  "decimal t \<longleftrightarrow> (let u = (if t \<noteq> [] \<and> hd t = CHR ''-'' then tl t else t)
     in u \<noteq> [] \<and> list_all (\<lambda>c. char_digit c \<noteq> None) u)"

lemma decimal_edges:
  assumes "decimal t"
  shows "t \<noteq> []" "\<not> is_space (hd t)" "\<not> is_space (last t)" "last t \<noteq> CHR 0x0A"
proof -
  define u where "u = (if t \<noteq> [] \<and> hd t = CHR ''-'' then tl t else t)"
  have u: "u \<noteq> []" "\<forall>c \<in> set u. char_digit c \<noteq> None"
    using assms by (auto simp: decimal_def u_def Let_def list_all_iff)
  show t: "t \<noteq> []" using u(1) by (auto simp: u_def)
  have "last t = last u" using u(1) t by (auto simp: u_def last_tl)
  moreover have "char_digit (last u) \<noteq> None" using u by simp
  ultimately show "\<not> is_space (last t)" "last t \<noteq> CHR 0x0A" using char_digit_not_space by auto
  show "\<not> is_space (hd t)"
  proof (cases "hd t = CHR ''-''")
    case True
    then show ?thesis by (simp add: is_space_def)
  next
    case False
    then have "char_digit (hd t) \<noteq> None" using u t by (auto simp: u_def)
    then show ?thesis using char_digit_not_space by auto
  qed
qed

lemma read_digits_total: "list_all (\<lambda>c. char_digit c \<noteq> None) u \<Longrightarrow> \<exists>n. read_digits acc u = Some n"
  by (induction u arbitrary: acc) auto

lemma decimal_int: "decimal t \<Longrightarrow> \<exists>i. int_of_str t = Some i"
proof -
  assume d: "decimal t"
  then obtain c cs where t: "t = c # cs" by (cases t) (auto simp: decimal_def Let_def)
  show ?thesis
    using d read_digits_total [of cs 0] read_digits_total [of t 0]
    by (auto simp: t decimal_def Let_def int_of_str_def nat_of_str_def split: if_splits)
qed

lemma int_re_cases:
  assumes "int_re s"
  obtains t where "decimal t" "str_strip s = t"
proof -
  define t where "t = (if s \<noteq> [] \<and> last s = CHR 0x0A then butlast s else s)"
  have d: "decimal t" using assms by (simp add: int_re_def decimal_def t_def Let_def)
  note e = decimal_edges [OF d]
  have "str_strip s = t"
  proof (cases "s \<noteq> [] \<and> last s = CHR 0x0A")
    case True
    then have "s = t @ [CHR 0x0A]" by (simp add: t_def) (metis append_butlast_last_id)
    with strip_tight(2) e show ?thesis by simp
  next
    case False
    then have "s = t" by (auto simp: t_def)
    with strip_tight(1) e show ?thesis by simp
  qed
  with d show thesis by (rule that)
qed

lemma decimal_str_int: "decimal (str_int i)"
proof -
  have "\<forall>c \<in> set (str_nat n). char_digit c \<noteq> None" for n
    using str_nat_digits by fastforce
  then show ?thesis using str_nat_hd by (auto simp: decimal_def str_int_def Let_def list_all_iff)
qed

lemma make_money_str_int: "make_money (str_int i) a = Inr \<lparr>m_amount = str_int i, m_asset = a\<rparr>"
  using decimal_str_int [of i] decimal_edges [OF decimal_str_int [of i]]
  by (simp add: make_money_def int_re_def decimal_def Let_def)

lemma units_str_int: "units \<lparr>m_amount = str_int i, m_asset = a\<rparr> = Inr i"
  using decimal_edges [OF decimal_str_int [of i]] by (simp add: units_def strip_tight(1))

text \<open>Money is exact and never mixes assets. Every amount the constructor accepts is an integer
  number of base units; adding or subtracting two amounts of the same asset gives exactly the sum
  or difference of the units, of any size, in the first operand's asset, and combining amounts whose
  chain, token or decimals differ raises.\<close>

theorem money_exact:
  assumes "make_money s1 a1 = Inr x" and "make_money s2 a2 = Inr y"
  shows "\<exists>i j. units x = Inr i \<and> units y = Inr j \<and>
    (if asset_key a1 = asset_key a2
     then \<exists>z w. add_money x y = Inr z \<and> units z = Inr (i + j) \<and> m_asset z = a1 \<and>
                sub_money x y = Inr w \<and> units w = Inr (i - j) \<and> m_asset w = a1
     else (\<exists>e. add_money x y = Inl e) \<and> (\<exists>e. sub_money x y = Inl e))"
proof -
  have r: "int_re s1" "x = \<lparr>m_amount = s1, m_asset = a1\<rparr>" "int_re s2" "y = \<lparr>m_amount = s2, m_asset = a2\<rparr>"
    using assms by (auto simp: make_money_def split: if_splits)
  obtain i where i: "units x = Inr i"
    using int_re_cases [OF r(1)] decimal_int by (metis (no_types, lifting) money.select_convs(1) option.simps(5) r(2) units_def)
  obtain j where j: "units y = Inr j"
    using int_re_cases [OF r(3)] decimal_int by (metis (no_types, lifting) money.select_convs(1) option.simps(5) r(4) units_def)
  have "(if asset_key a1 = asset_key a2
     then \<exists>z w. add_money x y = Inr z \<and> units z = Inr (i + j) \<and> m_asset z = a1 \<and>
                sub_money x y = Inr w \<and> units w = Inr (i - j) \<and> m_asset w = a1
     else (\<exists>e. add_money x y = Inl e) \<and> (\<exists>e. sub_money x y = Inl e))"
    using i j by (simp add: add_money_def sub_money_def combine_money_def same_asset_def r(2,4)
        make_money_str_int units_str_int)
  with i j show ?thesis by blast
qed

theorem money_exact_witness:
  "\<exists>x y z. make_money ''-7'' \<lparr>as_chain_id = 1, as_address = None, as_symbol = ''ETH'', as_decimals = 18\<rparr> = Inr x \<and>
     make_money ''12'' \<lparr>as_chain_id = 1, as_address = None, as_symbol = ''ETH'', as_decimals = 18\<rparr> = Inr y \<and>
     add_money x y = Inr z"
proof -
  let ?a = "\<lparr>as_chain_id = 1, as_address = None, as_symbol = ''ETH'', as_decimals = 18\<rparr>"
  have a: "make_money ''-7'' ?a = Inr \<lparr>m_amount = ''-7'', m_asset = ?a\<rparr>"
    "make_money ''12'' ?a = Inr \<lparr>m_amount = ''12'', m_asset = ?a\<rparr>"
    by (simp_all add: make_money_def int_re_def char_digit_def)
  from money_exact [OF this] show ?thesis using a by (auto split: if_splits)
qed

end
