(* ===== verification/Proof_Lifecycle.thy ===== *)
theory Proof_Lifecycle
  imports Core_DB Domain Job_Queue
begin

text \<open>
  The proof pipeline: the rows of \<open>db/ledgers.py\<close> (\<open>ProofRequest\<close>, \<open>ProofArtifact\<close>,
  \<open>NativeVerification\<close>, \<open>EvidenceConsumption\<close>) with their CHECK and UNIQUE constraints, the two
  triggers of migration 0002 that demand evidence, and \<open>ProofLifecycle.apply\<close> of
  \<open>jobs/proof.py\<close>. Identifiers and hashes are strings; their textual format checks are left out.
  Columns that nothing here reads (SDK version, storage reference and the like) are left out.
\<close>

section \<open>Rows\<close>

record proof_request =
  pr_id :: string
  pr_env_id :: string
  pr_chain_key :: int
  pr_tx_hash :: string
  pr_profile :: execution_profile
  pr_status :: native_status
  pr_attempt :: int
  pr_last_error :: "string option"
  pr_api_ready_at :: "int option"
  pr_precheck_ok_at :: "int option"
  pr_updated_at :: int

definition proof_request_checks :: "proof_request \<Rightarrow> bool" where
  "proof_request_checks r \<longleftrightarrow> 0 < pr_chain_key r \<and> pr_status r \<noteq> NS_NOT_REQUIRED \<and> 0 \<le> pr_attempt r"

record proof_artifact =
  pa_id :: string
  pa_request_id :: string
  pa_hash :: string
  pa_byte_length :: int
  pa_claimed_height :: "int option"
  pa_claimed_tx_index :: "int option"

definition proof_artifact_checks :: "proof_artifact \<Rightarrow> bool" where
  "proof_artifact_checks a \<longleftrightarrow> 0 < pa_byte_length a \<and>
     (case pa_claimed_height a of None \<Rightarrow> True | Some h \<Rightarrow> 0 \<le> h) \<and>
     (case pa_claimed_tx_index a of None \<Rightarrow> True | Some i \<Rightarrow> 0 \<le> i)"

datatype verification_status = VS_SUBMITTED | VS_ACCEPTED | VS_REJECTED | VS_ORPHANED

record native_verification =
  nv_id :: string
  nv_request_id :: string
  nv_artifact_id :: string
  nv_profile :: execution_profile
  nv_method :: verification_method
  nv_destination_chain_id :: int
  nv_submission_tx_hash :: string
  nv_block :: "int option"
  nv_receipt_status :: "int option"
  nv_status :: verification_status
  nv_accepted_at :: "int option"
  nv_proven_height :: "int option"
  nv_proven_tx_index :: "int option"

definition native_verification_checks :: "native_verification \<Rightarrow> bool" where
  "native_verification_checks v \<longleftrightarrow>
     nv_method v \<in> {VM_ATTESTCOIN_NATIVE, VM_LOCAL_MOCK} \<and>
     (nv_method v = VM_LOCAL_MOCK) = (nv_profile v = EP_LOCAL_MOCK) \<and>
     0 < nv_destination_chain_id v \<and>
     nv_receipt_status v \<in> {None, Some 0, Some 1} \<and>
     (nv_status v \<noteq> VS_ACCEPTED \<or>
       (nv_accepted_at v \<noteq> None \<and> nv_receipt_status v = Some 1 \<and> nv_block v \<noteq> None \<and>
        nv_proven_height v \<noteq> None \<and> nv_proven_tx_index v \<noteq> None)) \<and>
     (nv_status v = VS_ACCEPTED \<or> nv_accepted_at v = None)"

datatype evidence_meaning =
  EM_OBLIGATION_RECOGNIZED | EM_ASSIGNMENT_RECOGNIZED | EM_CORRECTION | EM_PAYOUT | EM_PAYMENT_CANCELLED | EM_CHECKPOINT

record evidence_consumption =
  ec_id :: string
  ec_env_id :: string
  ec_source_event_id :: string
  ec_economic_event_id :: string
  ec_verification_id :: string
  ec_method :: verification_method
  ec_trust :: trust
  ec_profile :: execution_profile
  ec_proven_at :: int
  ec_valid_until :: int
  ec_chain_key :: int
  ec_height :: int
  ec_tx_index :: int
  ec_log_ordinal :: int
  ec_provider_account_id :: string
  ec_meaning :: evidence_meaning
  ec_manifest_hash :: string

definition evidence_consumption_checks :: "evidence_consumption \<Rightarrow> bool" where
  "evidence_consumption_checks c \<longleftrightarrow>
     (ec_profile c \<noteq> EP_PRODUCTION \<or> ec_method c \<noteq> VM_LOCAL_MOCK) \<and>
     (ec_method c = VM_OFFCHAIN_ASSERTION) = (ec_trust c = TR_ASSERTED) \<and>
     ec_proven_at c < ec_valid_until c \<and>
     0 < ec_chain_key c \<and> 0 \<le> ec_height c \<and> 0 \<le> ec_tx_index c \<and> 0 \<le> ec_log_ordinal c"

record proof_db = core_db +
  db_requests :: "proof_request list"
  db_artifacts :: "proof_artifact list"
  db_verifications :: "native_verification list"
  db_consumptions :: "evidence_consumption list"

definition empty_proof_db :: proof_db where
  "empty_proof_db = \<lparr>db_jobs = [], db_outbox = [], db_audit = [], db_requests = [], db_artifacts = [],
     db_verifications = [], db_consumptions = []\<rparr>"

section \<open>Triggers\<close>

definition has_artifact :: "proof_db \<Rightarrow> string \<Rightarrow> bool" where
  "has_artifact db rid = (\<exists>a \<in> set (db_artifacts db). pa_request_id a = rid)"

definition has_accepted :: "proof_db \<Rightarrow> string \<Rightarrow> bool" where
  "has_accepted db rid = (\<exists>v \<in> set (db_verifications db). nv_request_id v = rid \<and> nv_status v = VS_ACCEPTED)"

definition has_consumption :: "proof_db \<Rightarrow> string \<Rightarrow> bool" where
  "has_consumption db rid = (\<exists>c \<in> set (db_consumptions db). \<exists>v \<in> set (db_verifications db).
     nv_id v = ec_verification_id c \<and> nv_request_id v = rid)"

definition hcg_proof_requests_status_evidence :: "proof_db \<Rightarrow> string \<Rightarrow> native_status \<Rightarrow> app_error option" where
  "hcg_proof_requests_status_evidence db rid status =
    (if status \<in> {NS_PROOF_READY, NS_SUBMITTED, NS_NATIVE_ACCEPTED, NS_CONSUMED} \<and> \<not> has_artifact db rid
     then Some (CheckViolation ''without a stored proof artifact'')
     else if status \<in> {NS_NATIVE_ACCEPTED, NS_CONSUMED} \<and> \<not> has_accepted db rid
     then Some (CheckViolation ''without an ACCEPTED native verification'')
     else if status = NS_CONSUMED \<and> \<not> has_consumption db rid
     then Some (CheckViolation ''without an evidence consumption row'')
     else None)"

definition hcg_evidence_consumptions_verified :: "proof_db \<Rightarrow> evidence_consumption \<Rightarrow> app_error option" where
  "hcg_evidence_consumptions_verified db c =
    (case List.find (\<lambda>v. nv_id v = ec_verification_id c) (db_verifications db) of
       None \<Rightarrow> Some (OtherError ''references unknown verification'')
     | Some v \<Rightarrow>
         if nv_status v \<noteq> VS_ACCEPTED then Some (CheckViolation ''requires an ACCEPTED native verification'')
         else if ec_profile c = EP_PRODUCTION \<and> nv_method v \<noteq> VM_ATTESTCOIN_NATIVE
         then Some (CheckViolation ''PRODUCTION consumption cannot reference this verification'')
         else if nv_profile v \<noteq> ec_profile c then Some (CheckViolation ''profile does not match'')
         else if ec_method c \<noteq> VM_OFFCHAIN_ASSERTION \<and> ec_method c \<noteq> nv_method v
         then Some (CheckViolation ''method does not match'')
         else None)"

section \<open>Inserts\<close>

definition insert_request :: "proof_request \<Rightarrow> proof_db \<Rightarrow> app_error + proof_db" where
  "insert_request r db =
    (case hcg_proof_requests_status_evidence db (pr_id r) (pr_status r) of
       Some e \<Rightarrow> Inl e
     | None \<Rightarrow> ensure (proof_request_checks r) (IntegrityError ''ck_proof_requests'')
         (ensure (\<not> has_key pr_id (db_requests db) (pr_id r)) (IntegrityError ''proof_requests_pkey'')
           (ensure (\<not> has_key (\<lambda>q. (pr_env_id q, pr_chain_key q, pr_tx_hash q)) (db_requests db)
                      (pr_env_id r, pr_chain_key r, pr_tx_hash r)) (IntegrityError ''uq_proof_requests_query_key'')
             (Inr (db\<lparr>db_requests := db_requests db @ [r]\<rparr>)))))"

definition insert_artifact :: "proof_artifact \<Rightarrow> proof_db \<Rightarrow> app_error + proof_db" where
  "insert_artifact a db =
    ensure (proof_artifact_checks a) (IntegrityError ''ck_proof_artifacts'')
      (ensure (\<not> has_key pa_id (db_artifacts db) (pa_id a)) (IntegrityError ''proof_artifacts_pkey'')
        (ensure (\<not> has_key (\<lambda>q. (pa_request_id q, pa_hash q)) (db_artifacts db) (pa_request_id a, pa_hash a))
           (IntegrityError ''uq_proof_artifacts_request_hash'')
          (ensure (has_key pr_id (db_requests db) (pa_request_id a)) (IntegrityError ''fk_proof_request'')
            (Inr (db\<lparr>db_artifacts := db_artifacts db @ [a]\<rparr>)))))"

definition insert_verification :: "native_verification \<Rightarrow> proof_db \<Rightarrow> app_error + proof_db" where
  "insert_verification v db =
    ensure (native_verification_checks v) (IntegrityError ''ck_native_verifications'')
      (ensure (\<not> has_key nv_id (db_verifications db) (nv_id v)) (IntegrityError ''native_verifications_pkey'')
        (ensure (\<not> has_key (\<lambda>q. (nv_request_id q, nv_submission_tx_hash q)) (db_verifications db)
                   (nv_request_id v, nv_submission_tx_hash v)) (IntegrityError ''uq_native_verifications_request_tx'')
          (ensure (has_key pr_id (db_requests db) (nv_request_id v) \<and>
                   has_key pa_id (db_artifacts db) (nv_artifact_id v)) (IntegrityError ''fk_native_verification'')
            (Inr (db\<lparr>db_verifications := db_verifications db @ [v]\<rparr>)))))"

definition consume :: "evidence_consumption \<Rightarrow> proof_db \<Rightarrow> app_error + proof_db" where
  "consume c db =
    (case hcg_evidence_consumptions_verified db c of
       Some e \<Rightarrow> Inl e
     | None \<Rightarrow> ensure (evidence_consumption_checks c) (IntegrityError ''ck_evidence_consumptions'')
         (ensure (\<not> has_key ec_id (db_consumptions db) (ec_id c)) (IntegrityError ''evidence_consumptions_pkey'')
           (ensure (\<not> has_key (\<lambda>q. (ec_env_id q, ec_source_event_id q)) (db_consumptions db)
                      (ec_env_id c, ec_source_event_id c)) (IntegrityError ''uq_evidence_consumptions_source_event'')
             (ensure (\<not> has_key ec_economic_event_id (db_consumptions db) (ec_economic_event_id c))
                (IntegrityError ''uq_evidence_consumptions_economic_event'')
               (ensure (\<not> has_key (\<lambda>q. (ec_env_id q, ec_chain_key q, ec_height q, ec_tx_index q, ec_log_ordinal q))
                          (db_consumptions db)
                          (ec_env_id c, ec_chain_key c, ec_height c, ec_tx_index c, ec_log_ordinal c))
                  (IntegrityError ''uq_evidence_consumptions_locator'')
                 (Inr (db\<lparr>db_consumptions := db_consumptions db @ [c]\<rparr>)))))))"

section \<open>Job kinds and outcomes\<close>

datatype proof_kind = PK_WAIT_ATTESTATION | PK_FETCH_ARTIFACT | PK_SUBMIT | PK_CONFIRM | PK_CONSUME

fun proof_kind_value :: "proof_kind \<Rightarrow> string" where
  "proof_kind_value PK_WAIT_ATTESTATION = ''PROOF_WAIT_ATTESTATION''"
| "proof_kind_value PK_FETCH_ARTIFACT = ''PROOF_FETCH_ARTIFACT''"
| "proof_kind_value PK_SUBMIT = ''PROOF_SUBMIT''"
| "proof_kind_value PK_CONFIRM = ''PROOF_CONFIRM''"
| "proof_kind_value PK_CONSUME = ''EVIDENCE_CONSUME''"

definition PROOF_JOB_KINDS :: "string list" where
  "PROOF_JOB_KINDS =
    map proof_kind_value [PK_WAIT_ATTESTATION, PK_FETCH_ARTIFACT, PK_SUBMIT, PK_CONFIRM, PK_CONSUME]"

definition SIGNER_FALLBACK_TERMS :: "string list" where
  "SIGNER_FALLBACK_TERMS =
    [''SIGN'', ''ATTEST_LOCAL'', ''FALLBACK'', ''ADMIN_ACCEPT'', ''MARK_VERIFIED'', ''SPV'', ''BYPASS'', ''FORCE'']"

definition kind_of_value :: "string \<Rightarrow> proof_kind option" where
  "kind_of_value s = List.find (\<lambda>k. proof_kind_value k = s)
     [PK_WAIT_ATTESTATION, PK_FETCH_ARTIFACT, PK_SUBMIT, PK_CONFIRM, PK_CONSUME]"

datatype proof_outcome = OC_OK | OC_NOT_READY | OC_NETWORK_ERROR | OC_UNSUPPORTED | OC_INVALID | OC_EXPIRED

fun outcome_value :: "proof_outcome \<Rightarrow> string" where
  "outcome_value OC_OK = ''OK''"
| "outcome_value OC_NOT_READY = ''NOT_READY''"
| "outcome_value OC_NETWORK_ERROR = ''NETWORK_ERROR''"
| "outcome_value OC_UNSUPPORTED = ''UNSUPPORTED''"
| "outcome_value OC_INVALID = ''INVALID''"
| "outcome_value OC_EXPIRED = ''EXPIRED''"

fun ok_status :: "proof_kind \<Rightarrow> native_status" where
  "ok_status PK_WAIT_ATTESTATION = NS_WAITING_ATTESTATION"
| "ok_status PK_FETCH_ARTIFACT = NS_PROOF_READY"
| "ok_status PK_SUBMIT = NS_SUBMITTED"
| "ok_status PK_CONFIRM = NS_NATIVE_ACCEPTED"
| "ok_status PK_CONSUME = NS_CONSUMED"

fun from_status :: "proof_kind \<Rightarrow> native_status set" where
  "from_status PK_WAIT_ATTESTATION = {NS_OBSERVED, NS_WAITING_ATTESTATION}"
| "from_status PK_FETCH_ARTIFACT = {NS_WAITING_ATTESTATION}"
| "from_status PK_SUBMIT = {NS_PROOF_READY}"
| "from_status PK_CONFIRM = {NS_SUBMITTED}"
| "from_status PK_CONSUME = {NS_NATIVE_ACCEPTED}"

fun next_kind :: "proof_kind \<Rightarrow> proof_kind option" where
  "next_kind PK_WAIT_ATTESTATION = Some PK_FETCH_ARTIFACT"
| "next_kind PK_FETCH_ARTIFACT = Some PK_SUBMIT"
| "next_kind PK_SUBMIT = Some PK_CONFIRM"
| "next_kind PK_CONFIRM = Some PK_CONSUME"
| "next_kind PK_CONSUME = None"

definition classify :: "proof_outcome \<Rightarrow> failure_kind option" where
  "classify oc = (if oc \<in> {OC_NOT_READY, OC_NETWORK_ERROR} then Some FK_TRANSIENT
     else if oc \<in> {OC_UNSUPPORTED, OC_INVALID, OC_EXPIRED} then Some FK_TERMINAL else None)"

fun terminal_status_of :: "proof_outcome \<Rightarrow> native_status" where
  "terminal_status_of OC_UNSUPPORTED = NS_UNSUPPORTED"
| "terminal_status_of OC_INVALID = NS_INVALID"
| "terminal_status_of _ = NS_EXPIRED"

definition job_key :: "string \<Rightarrow> string \<Rightarrow> string" where
  "job_key kind rid = ''proof:'' @ kind @ '':'' @ rid"

record transition =
  tr_request_id :: string
  tr_kind :: string
  tr_outcome :: proof_outcome
  tr_before :: native_status
  tr_after :: native_status
  tr_next_kind :: "proof_kind option"

section \<open>The lifecycle\<close>

definition current_status :: "proof_db \<Rightarrow> string \<Rightarrow> app_error + native_status" where
  "current_status db rid = (case List.find (\<lambda>r. pr_id r = rid) (db_requests db) of
     None \<Rightarrow> Inl (LookupError ''proof request not found'') | Some r \<Rightarrow> Inr (pr_status r))"

text \<open>\<open>UPDATE proof_requests SET status = ...\<close>, with its trigger.\<close>

definition set_status :: "int \<Rightarrow> string \<Rightarrow> native_status \<Rightarrow> string option \<Rightarrow> proof_db \<Rightarrow> app_error + proof_db" where
  "set_status now rid st err db =
    (case hcg_proof_requests_status_evidence db rid st of
       Some e \<Rightarrow> Inl e
     | None \<Rightarrow> Inr (db\<lparr>db_requests := update_where (\<lambda>r. pr_id r = rid)
         (\<lambda>r. r\<lparr>pr_status := st, pr_last_error := err, pr_attempt := pr_attempt r + 1, pr_updated_at := now\<rparr>)
         (db_requests db)\<rparr>))"

definition terminal_status :: "native_status \<Rightarrow> bool" where
  "terminal_status st \<longleftrightarrow> st \<in> {NS_INVALID, NS_UNSUPPORTED, NS_EXPIRED, NS_CONSUMED}"

text \<open>
  \<open>base\<close> is what is committed, \<open>db\<close> the caller's open transaction. A failure rolls the transaction
  back and commits the new status on its own before it raises: a raise comes with the database
  that is committed then.
\<close>

definition apply_outcome ::
  "int \<Rightarrow> string \<Rightarrow> string \<Rightarrow> proof_outcome \<Rightarrow> string \<Rightarrow> proof_db \<Rightarrow> proof_db \<Rightarrow>
   (app_error \<times> proof_db) + (proof_db \<times> transition)" where
  "apply_outcome now rid kind oc err base db =
    (case kind_of_value kind of
       None \<Rightarrow> Inl (ValueError ''unknown proof job kind'', base)
     | Some k \<Rightarrow>
       (case current_status db rid of
          Inl e \<Rightarrow> Inl (e, base)
        | Inr before \<Rightarrow>
          if terminal_status before then Inl (TerminalError ''proof request is terminal'', base)
          else if oc = OC_OK then
            (if before \<notin> from_status k then Inl (TerminalError ''cannot run from status'', base)
             else case set_status now rid (ok_status k) None db of
               Inl e \<Rightarrow> Inl (e, base)
             | Inr db' \<Rightarrow> Inr (db', \<lparr>tr_request_id = rid, tr_kind = kind, tr_outcome = oc, tr_before = before,
                  tr_after = ok_status k, tr_next_kind = next_kind k\<rparr>))
          else
            (let transient = (classify oc = Some FK_TRANSIENT);
                 after = (if transient
                          then (if k = PK_WAIT_ATTESTATION \<and> before = NS_OBSERVED then NS_WAITING_ATTESTATION else before)
                          else terminal_status_of oc)
             in case set_status now rid after (Some (take 2000 (outcome_value oc @ '': '' @ err))) base of
                  Inl e \<Rightarrow> Inl (e, base)
                | Inr base' \<Rightarrow> Inl (if transient then TransientError (outcome_value oc)
                                   else TerminalError (outcome_value oc), base'))))"

definition has_signer_fallback :: "string list \<Rightarrow> bool" where
  "has_signer_fallback kinds =
    (\<exists>k \<in> set (map str_upper kinds). \<exists>w \<in> set SIGNER_FALLBACK_TERMS. str_contains k w)"

section \<open>The pipeline as a machine\<close>

text \<open>Every committed write: the four inserts, and an outcome applied in its own transaction.\<close>

inductive proof_step :: "proof_db \<Rightarrow> proof_db \<Rightarrow> bool" where
  p_request: "insert_request r db = Inr db' \<Longrightarrow> proof_step db db'"
| p_artifact: "insert_artifact a db = Inr db' \<Longrightarrow> proof_step db db'"
| p_verification: "insert_verification v db = Inr db' \<Longrightarrow> proof_step db db'"
| p_consume: "consume c db = Inr db' \<Longrightarrow> proof_step db db'"
| p_applied: "apply_outcome now rid kind oc err db db = Inr (db', tr) \<Longrightarrow> proof_step db db'"
| p_raised: "apply_outcome now rid kind oc err db db = Inl (e, db') \<Longrightarrow> proof_step db db'"

definition evidenced :: "proof_db \<Rightarrow> string \<Rightarrow> native_status \<Rightarrow> bool" where
  "evidenced db rid st \<longleftrightarrow>
     (st \<in> {NS_PROOF_READY, NS_SUBMITTED, NS_NATIVE_ACCEPTED, NS_CONSUMED} \<longrightarrow> has_artifact db rid) \<and>
     (st \<in> {NS_NATIVE_ACCEPTED, NS_CONSUMED} \<longrightarrow> has_accepted db rid) \<and>
     (st = NS_CONSUMED \<longrightarrow> has_consumption db rid)"

definition backed :: "proof_db \<Rightarrow> evidence_consumption \<Rightarrow> bool" where
  "backed db c \<longleftrightarrow> (\<exists>v \<in> set (db_verifications db). nv_id v = ec_verification_id c \<and> nv_status v = VS_ACCEPTED \<and>
     nv_receipt_status v = Some 1 \<and> nv_profile v = ec_profile c \<and>
     (ec_profile c = EP_PRODUCTION \<longrightarrow> nv_method v = VM_ATTESTCOIN_NATIVE))"

definition proof_inv :: "proof_db \<Rightarrow> bool" where
  "proof_inv db \<longleftrightarrow> unique_on pr_id (db_requests db) \<and>
     (\<forall>r \<in> set (db_requests db). evidenced db (pr_id r) (pr_status r)) \<and>
     (\<forall>v \<in> set (db_verifications db). native_verification_checks v) \<and>
     (\<forall>c \<in> set (db_consumptions db). backed db c) \<and>
     unique_on ec_economic_event_id (db_consumptions db)"

lemma trigger_passes: "hcg_proof_requests_status_evidence db rid st = None \<longleftrightarrow> evidenced db rid st"
  by (auto simp: hcg_proof_requests_status_evidence_def evidenced_def)

text \<open>The evidence tables only grow, and what they prove stays proved.\<close>

definition evidence_grows :: "proof_db \<Rightarrow> proof_db \<Rightarrow> bool" where
  "evidence_grows db db' \<longleftrightarrow> set (db_artifacts db) \<subseteq> set (db_artifacts db') \<and>
     set (db_verifications db) \<subseteq> set (db_verifications db') \<and>
     set (db_consumptions db) \<subseteq> set (db_consumptions db')"

lemma evidenced_grows: "evidence_grows db db' \<Longrightarrow> evidenced db rid st \<Longrightarrow> evidenced db' rid st"
  unfolding evidence_grows_def evidenced_def has_artifact_def has_accepted_def has_consumption_def by blast

lemma backed_grows: "evidence_grows db db' \<Longrightarrow> backed db c \<Longrightarrow> backed db' c"
  unfolding evidence_grows_def backed_def by blast

lemma set_status_eq:
  "set_status now rid st err db = Inr db' \<longleftrightarrow> evidenced db rid st \<and>
     db' = db\<lparr>db_requests := update_where (\<lambda>r. pr_id r = rid)
       (\<lambda>r. r\<lparr>pr_status := st, pr_last_error := err, pr_attempt := pr_attempt r + 1, pr_updated_at := now\<rparr>)
       (db_requests db)\<rparr>"
  unfolding set_status_def trigger_passes [symmetric]
  by (cases "hcg_proof_requests_status_evidence db rid st") auto

text \<open>What applying an outcome commits: nothing, or one new status of one non-terminal request.\<close>

lemma apply_outcome_commits:
  assumes "apply_outcome now rid kind oc err db db = Inr (db', tr) \<or>
    apply_outcome now rid kind oc err db db = Inl (e, db')"
  shows "db' = db \<or> (\<exists>st err' r. set_status now rid st err' db = Inr db' \<and>
    List.find (\<lambda>r. pr_id r = rid) (db_requests db) = Some r \<and> \<not> terminal_status (pr_status r))"
  using assms
  by (auto simp: apply_outcome_def current_status_def Let_def split: option.splits sum.splits if_splits)

lemma proof_step_effect:
  assumes "proof_step db db'"
  shows "evidence_grows db db' \<and>
    ((\<exists>now rid st err r. set_status now rid st err db = Inr db' \<and>
        List.find (\<lambda>r. pr_id r = rid) (db_requests db) = Some r \<and> \<not> terminal_status (pr_status r)) \<or>
     (\<exists>new. db_requests db' = db_requests db @ new \<and>
        (unique_on pr_id (db_requests db) \<longrightarrow> unique_on pr_id (db_requests db')) \<and>
        (\<forall>r \<in> set new. evidenced db (pr_id r) (pr_status r))))"
  using assms
proof cases
  case (p_request r)
  then show ?thesis
    by (auto simp: insert_request_def trigger_passes evidence_grows_def unique_on_append
        intro!: exI [of _ "[r]"] split: option.splits)
next
  case (p_artifact a)
  then show ?thesis by (auto simp: insert_artifact_def evidence_grows_def)
next
  case (p_verification v)
  then show ?thesis by (auto simp: insert_verification_def evidence_grows_def)
next
  case (p_consume c)
  then show ?thesis by (auto simp: consume_def evidence_grows_def split: option.splits)
next
  case (p_applied now rid kind oc err tr)
  then have "db' = db \<or> (\<exists>st err' r. set_status now rid st err' db = Inr db' \<and>
    List.find (\<lambda>r. pr_id r = rid) (db_requests db) = Some r \<and> \<not> terminal_status (pr_status r))"
    using apply_outcome_commits by blast
  then show ?thesis by (fastforce simp: evidence_grows_def set_status_eq)
next
  case (p_raised now rid kind oc err e)
  then have "db' = db \<or> (\<exists>st err' r. set_status now rid st err' db = Inr db' \<and>
    List.find (\<lambda>r. pr_id r = rid) (db_requests db) = Some r \<and> \<not> terminal_status (pr_status r))"
    using apply_outcome_commits by blast
  then show ?thesis by (fastforce simp: evidence_grows_def set_status_eq)
qed

lemma consumption_step:
  assumes "proof_step db db'" and "proof_inv db"
  shows "(\<forall>c \<in> set (db_consumptions db'). backed db' c) \<and> unique_on ec_economic_event_id (db_consumptions db') \<and>
    (\<forall>v \<in> set (db_verifications db'). native_verification_checks v)"
proof -
  note grow = backed_grows [OF conjunct1 [OF proof_step_effect [OF assms(1)]]]
  have old: "\<forall>c \<in> set (db_consumptions db). backed db' c" using assms(2) grow by (auto simp: proof_inv_def)
  from assms(1) show ?thesis
  proof cases
    case (p_consume c)
    then obtain v where v: "List.find (\<lambda>v. nv_id v = ec_verification_id c) (db_verifications db) = Some v"
      "nv_status v = VS_ACCEPTED" "nv_profile v = ec_profile c"
      "ec_profile c = EP_PRODUCTION \<longrightarrow> nv_method v = VM_ATTESTCOIN_NATIVE"
      and db': "db' = db\<lparr>db_consumptions := db_consumptions db @ [c]\<rparr>"
      and fresh: "\<not> has_key ec_economic_event_id (db_consumptions db) (ec_economic_event_id c)"
      by (auto simp: consume_def hcg_evidence_consumptions_verified_def split: option.splits if_splits)
    have "native_verification_checks v" using find_Some_iff [OF v(1)] assms(2) by (auto simp: proof_inv_def)
    then have "nv_receipt_status v = Some 1" using v(2) by (auto simp: native_verification_checks_def)
    with v find_Some_iff [OF v(1)] have "backed db' c" unfolding backed_def db' by auto
    with old fresh assms(2) show ?thesis by (auto simp: db' proof_inv_def unique_on_append)
  next
    case (p_request r)
    with old assms(2) show ?thesis by (auto simp: insert_request_def proof_inv_def split: option.splits)
  next
    case (p_artifact a)
    with old assms(2) show ?thesis by (auto simp: insert_artifact_def proof_inv_def)
  next
    case (p_verification v)
    with old assms(2) show ?thesis by (auto simp: insert_verification_def proof_inv_def)
  next
    case (p_applied now rid kind oc err tr)
    with old assms(2) show ?thesis
      using apply_outcome_commits [of now rid kind oc err db db' tr] by (auto simp: proof_inv_def set_status_eq)
  next
    case (p_raised now rid kind oc err e)
    with old assms(2) show ?thesis
      using apply_outcome_commits [of now rid kind oc err db db' _ e] by (auto simp: proof_inv_def set_status_eq)
  qed
qed

lemma set_status_requests:
  assumes "set_status now rid st err db = Inr db'" and "r \<in> set (db_requests db')"
  shows "\<exists>q \<in> set (db_requests db). pr_id r = pr_id q \<and> (if pr_id q = rid then pr_status r = st else r = q)"
  using assms by (auto simp: set_status_eq in_update_where)

lemma proof_step_inv:
  assumes step: "proof_step db db'" and inv: "proof_inv db"
  shows "proof_inv db'"
proof -
  note eff = proof_step_effect [OF step]
  have grow: "evidence_grows db db'" using eff by blast
  have old: "\<forall>r \<in> set (db_requests db). evidenced db' (pr_id r) (pr_status r)"
    using inv evidenced_grows [OF grow] by (auto simp: proof_inv_def)
  have "unique_on pr_id (db_requests db') \<and> (\<forall>r \<in> set (db_requests db'). evidenced db' (pr_id r) (pr_status r))"
    using conjunct2 [OF eff]
  proof
    assume "\<exists>now rid st err r. set_status now rid st err db = Inr db' \<and>
        List.find (\<lambda>r. pr_id r = rid) (db_requests db) = Some r \<and> \<not> terminal_status (pr_status r)"
    then obtain now rid st err where s: "set_status now rid st err db = Inr db'" by blast
    then have "evidenced db' rid st" using evidenced_grows [OF grow] by (simp add: set_status_eq)
    moreover have "unique_on pr_id (db_requests db')"
      using s inv by (auto simp: set_status_eq proof_inv_def unique_on_update)
    ultimately show ?thesis using old set_status_requests [OF s] by (fastforce split: if_splits)
  next
    assume "\<exists>new. db_requests db' = db_requests db @ new \<and>
        (unique_on pr_id (db_requests db) \<longrightarrow> unique_on pr_id (db_requests db')) \<and>
        (\<forall>r \<in> set new. evidenced db (pr_id r) (pr_status r))"
    with old inv evidenced_grows [OF grow] show ?thesis by (auto simp: proof_inv_def)
  qed
  with consumption_step [OF step inv] show ?thesis by (simp add: proof_inv_def)
qed

interpretation proofs: inv_machine "\<lambda>db. db = empty_proof_db" proof_step proof_inv
proof
  show "proof_inv s" if "s = empty_proof_db" for s
    using that by (simp add: proof_inv_def empty_proof_db_def unique_on_def)
qed (rule proof_step_inv)


definition sample_request :: proof_request where
  "sample_request = \<lparr>pr_id = ''R1'', pr_env_id = ''env'', pr_chain_key = 1, pr_tx_hash = ''0xaa'',
     pr_profile = EP_PRODUCTION, pr_status = NS_OBSERVED, pr_attempt = 0, pr_last_error = None,
     pr_api_ready_at = Some 3, pr_precheck_ok_at = Some 4, pr_updated_at = 0\<rparr>"

lemma sample_request_step:
  "proof_step\<^sup>*\<^sup>* empty_proof_db (empty_proof_db\<lparr>db_requests := [sample_request]\<rparr>)"
  by (rule r_into_rtranclp, rule p_request [of sample_request])
     (simp add: insert_request_def hcg_proof_requests_status_evidence_def sample_request_def empty_proof_db_def
       proof_request_checks_def has_key_def)


text \<open>A terminal request keeps its row.\<close>

lemma terminal_step:
  assumes "proof_step db db'" and "proof_inv db" and "r \<in> set (db_requests db)" and "terminal_status (pr_status r)"
  shows "r \<in> set (db_requests db')"
  using conjunct2 [OF proof_step_effect [OF assms(1)]]
proof
  assume "\<exists>now rid st err r. set_status now rid st err db = Inr db' \<and>
        List.find (\<lambda>r. pr_id r = rid) (db_requests db) = Some r \<and> \<not> terminal_status (pr_status r)"
  then obtain now rid st err q where s: "set_status now rid st err db = Inr db'"
    and q: "List.find (\<lambda>r. pr_id r = rid) (db_requests db) = Some q" "\<not> terminal_status (pr_status q)" by blast
  have "pr_id r \<noteq> rid"
    using find_Some_iff [OF q(1)] q(2) assms(2-4) unique_on_same [of pr_id "db_requests db" r q]
    by (auto simp: proof_inv_def)
  with s assms(3) show ?thesis by (auto simp: set_status_eq in_update_where intro!: bexI [of _ r])
next
  assume "\<exists>new. db_requests db' = db_requests db @ new \<and>
        (unique_on pr_id (db_requests db) \<longrightarrow> unique_on pr_id (db_requests db')) \<and>
        (\<forall>r \<in> set new. evidenced db (pr_id r) (pr_status r))"
  with assms(3) show ?thesis by auto
qed

text \<open>The end of a proof request is final and progress goes one stage at a time. A request that
  is CONSUMED, INVALID, UNSUPPORTED or EXPIRED keeps its row unchanged in every later state, and an
  OK outcome that is committed moved the request from a status its job kind may start from to
  exactly that kind's next status.\<close>

theorem proof_end_is_final:
  assumes "proof_step\<^sup>*\<^sup>* empty_proof_db db"
  shows "(\<forall>r \<in> set (db_requests db). \<forall>db'. terminal_status (pr_status r) \<and> proof_step\<^sup>*\<^sup>* db db' \<longrightarrow>
      r \<in> set (db_requests db')) \<and>
    (\<forall>now rid kind err db' tr. apply_outcome now rid kind OC_OK err db db = Inr (db', tr) \<longrightarrow>
      (\<exists>k. proof_kind_value k = kind \<and> tr_before tr \<in> from_status k \<and> tr_after tr = ok_status k \<and>
         tr_next_kind tr = next_kind k \<and> evidenced db rid (ok_status k) \<and>
         current_status db' rid = Inr (ok_status k)))"
proof (intro conjI ballI allI impI)
  have inv: "proof_inv db" by (rule proofs.reachable_inv [OF refl assms])
  fix r db'
  assume r: "r \<in> set (db_requests db)" and t: "terminal_status (pr_status r) \<and> proof_step\<^sup>*\<^sup>* db db'"
  from conjunct2 [OF t] show "r \<in> set (db_requests db')"
  proof (induction rule: rtranclp_induct)
    case base
    then show ?case by (rule r)
  next
    case (step x y)
    with terminal_step [OF step(2) proofs.run_inv [OF step(1) inv]] t show ?case by blast
  qed
next
  fix now rid kind err db' tr
  assume "apply_outcome now rid kind OC_OK err db db = Inr (db', tr)"
  then obtain k st where k: "kind_of_value kind = Some k" and st: "current_status db rid = Inr st" "st \<in> from_status k"
    and s: "set_status now rid (ok_status k) None db = Inr db'" and tr: "tr_before tr = st"
      "tr_after tr = ok_status k" "tr_next_kind tr = next_kind k"
    by (auto simp: apply_outcome_def Let_def split: option.splits sum.splits if_splits)
  obtain r where "List.find (\<lambda>r. pr_id r = rid) (db_requests db) = Some r"
    using st by (auto simp: current_status_def split: option.splits)
  then have "\<exists>q. List.find (\<lambda>r. pr_id r = rid) (db_requests db') = Some q \<and> pr_status q = ok_status k"
    using s by (auto simp: set_status_eq find_update [where p = "\<lambda>r. pr_id r = rid"])
  then have "current_status db' rid = Inr (ok_status k)" by (auto simp: current_status_def)
  moreover have "proof_kind_value k = kind" using find_Some_iff [OF k [unfolded kind_of_value_def]] by blast
  ultimately show "\<exists>k. proof_kind_value k = kind \<and> tr_before tr \<in> from_status k \<and> tr_after tr = ok_status k \<and>
         tr_next_kind tr = next_kind k \<and> evidenced db rid (ok_status k) \<and>
         current_status db' rid = Inr (ok_status k)"
    using st tr s by (auto simp: set_status_eq)
qed

theorem proof_end_is_final_witness:
  "\<exists>db' tr. apply_outcome 9 ''R1'' ''PROOF_WAIT_ATTESTATION'' OC_OK [] (empty_proof_db\<lparr>db_requests := [sample_request]\<rparr>)
      (empty_proof_db\<lparr>db_requests := [sample_request]\<rparr>) = Inr (db', tr) \<and>
     current_status db' ''R1'' = Inr NS_WAITING_ATTESTATION"
proof -
  let ?db = "empty_proof_db\<lparr>db_requests := [sample_request]\<rparr>"
  obtain db' tr where a: "apply_outcome 9 ''R1'' ''PROOF_WAIT_ATTESTATION'' OC_OK [] ?db ?db = Inr (db', tr)"
    by (simp add: apply_outcome_def kind_of_value_def current_status_def sample_request_def terminal_status_def
        set_status_def hcg_proof_requests_status_evidence_def)
  from proof_end_is_final [OF sample_request_step] a
  obtain k where "proof_kind_value k = ''PROOF_WAIT_ATTESTATION''" "current_status db' ''R1'' = Inr (ok_status k)" by blast
  then have "current_status db' ''R1'' = Inr NS_WAITING_ATTESTATION" by (cases k) simp_all
  with a show ?thesis by blast
qed

text \<open>No job kind names a substitute verification path.\<close>

lemma no_signer_fallback: "\<not> has_signer_fallback PROOF_JOB_KINDS"
  by code_simp

end
