(* ===== verification/Abi.thy ===== *)
theory Abi
  imports Core_DB "HOL-Library.Word"
begin

text \<open>
  The dispatcher's ABI helpers (\<open>transactions/abi.py\<close>): Keccak-256 in full, function selectors and
  the allowlist that binds a business purpose to one contract function and one credential. Lanes
  are \<open>64 word\<close>s (the source masks to 64 bits), bytes are natural numbers below 256.
\<close>

section \<open>Keccak-f\<close>

type_synonym lanes = "64 word list list"

definition RC :: "64 word list" where
  "RC = [0x0000000000000001, 0x0000000000008082, 0x800000000000808A, 0x8000000080008000,
         0x000000000000808B, 0x0000000080000001, 0x8000000080008081, 0x8000000000008009,
         0x000000000000008A, 0x0000000000000088, 0x0000000080008009, 0x000000008000000A,
         0x000000008000808B, 0x800000000000008B, 0x8000000000008089, 0x8000000000008003,
         0x8000000000008002, 0x8000000000000080, 0x000000000000800A, 0x800000008000000A,
         0x8000000080008081, 0x8000000000008080, 0x0000000080000001, 0x8000000080008008]"

definition ROT :: "nat list list" where
  "ROT = [[0, 36, 3, 41, 18], [1, 44, 10, 45, 2], [62, 6, 43, 15, 61], [28, 55, 25, 21, 56],
          [27, 20, 39, 8, 14]]"

definition rol :: "64 word \<Rightarrow> nat \<Rightarrow> 64 word" where
  "rol x n = (let n = n mod 64 in if n \<noteq> 0 then push_bit n x OR drop_bit (64 - n) x else x)"

definition lane :: "lanes \<Rightarrow> nat \<Rightarrow> nat \<Rightarrow> 64 word" where
  "lane s x y = s ! x ! y"

definition set_lane :: "nat \<Rightarrow> nat \<Rightarrow> 64 word \<Rightarrow> lanes \<Rightarrow> lanes" where
  "set_lane x y w s = s[x := (s ! x)[y := w]]"

definition zero_lanes :: lanes where
  "zero_lanes = replicate 5 (replicate 5 0)"

text \<open>The nested loops \<open>for x in range(5): for y in range(5)\<close>.\<close>

definition each_lane :: "(nat \<Rightarrow> nat \<Rightarrow> lanes \<Rightarrow> lanes) \<Rightarrow> lanes \<Rightarrow> lanes" where
  "each_lane f = fold (\<lambda>x. fold (\<lambda>y. f x y) [0..<5]) [0..<5]"

definition keccak_round :: "64 word \<Rightarrow> lanes \<Rightarrow> lanes" where
  "keccak_round rc state =
    (let c = map (\<lambda>x. lane state x 0 XOR lane state x 1 XOR lane state x 2 XOR lane state x 3 XOR lane state x 4) [0..<5];
         d = map (\<lambda>x. c ! ((x + 4) mod 5) XOR rol (c ! ((x + 1) mod 5)) 1) [0..<5];
         state = each_lane (\<lambda>x y s. set_lane x y (lane s x y XOR d ! x) s) state;
         b = each_lane (\<lambda>x y b. set_lane y ((2 * x + 3 * y) mod 5) (rol (lane state x y) (ROT ! x ! y)) b) zero_lanes;
         state = each_lane (\<lambda>x y s. set_lane x y
           (lane b x y XOR (NOT (lane b ((x + 1) mod 5) y) AND lane b ((x + 2) mod 5) y)) s) state
     in set_lane 0 0 (lane state 0 0 XOR rc) state)"

definition keccak_f :: "lanes \<Rightarrow> lanes" where
  "keccak_f = fold keccak_round RC"

section \<open>The sponge\<close>

definition rate_bytes :: nat where "rate_bytes = 136"

text \<open>The padding loop \<open>while len(padded) % rate: padded.append(0)\<close>.\<close>

function pad_loop :: "bytes \<Rightarrow> bytes" where
  "pad_loop xs = (if length xs mod 136 = 0 then xs else pad_loop (xs @ [0]))"
  by pat_completeness auto
termination
proof (relation "measure (\<lambda>xs. (136 - length xs mod 136) mod 136)", goal_cases)
  case 1
  show ?case by simp
next
  case (2 xs)
  let ?m = "length xs mod 136"
  have m: "0 < ?m" "?m < 136" using 2 by simp_all
  have s: "Suc (length xs) mod 136 = (if Suc ?m = 136 then 0 else Suc ?m)" by (rule mod_Suc)
  have "(136 - Suc (length xs) mod 136) mod 136 < 136 - ?m"
  proof (cases "Suc ?m = 136")
    case True
    with s m show ?thesis by simp
  next
    case False
    with s m have "Suc (length xs) mod 136 = Suc ?m" by simp
    with m False show ?thesis by simp
  qed
  with m show ?case by simp
qed

declare pad_loop.simps [simp del]

definition pad :: "bytes \<Rightarrow> bytes" where
  "pad data = (let p = pad_loop (data @ [1]) in butlast p @ [last p OR 0x80])"

definition lane_of_bytes :: "bytes \<Rightarrow> 64 word" where
  "lane_of_bytes bs = word_of_nat (foldr (\<lambda>b acc. b + 256 * acc) bs 0)"

definition bytes_of_lane :: "64 word \<Rightarrow> bytes" where
  "bytes_of_lane w = map (\<lambda>i. unat (take_bit 8 (drop_bit (8 * i) w))) [0..<8]"

definition absorb_block :: "bytes \<Rightarrow> lanes \<Rightarrow> lanes" where
  "absorb_block block state = keccak_f
     (fold (\<lambda>i s. set_lane (i mod 5) (i div 5)
        (lane s (i mod 5) (i div 5) XOR lane_of_bytes (take 8 (drop (i * 8) block))) s) [0..<17] state)"

definition absorb :: "bytes \<Rightarrow> lanes \<Rightarrow> lanes" where
  "absorb padded state =
    fold (\<lambda>k. absorb_block (take 136 (drop (136 * k) padded))) [0..<length padded div 136] state"

definition squeeze :: "lanes \<Rightarrow> bytes" where
  "squeeze state = concat (map (\<lambda>i. bytes_of_lane (lane state (i mod 5) (i div 5))) [0..<4])"

definition keccak256 :: "bytes \<Rightarrow> bytes" where
  "keccak256 data = squeeze (absorb (pad data) zero_lanes)"

definition keccak_hex :: "bytes \<Rightarrow> string" where
  "keccak_hex data = ''0x'' @ hex_of_bytes (keccak256 data)"

definition selector :: "string \<Rightarrow> string" where
  "selector signature = ''0x'' @ take 8 (hex_of_bytes (keccak256 (str_bytes signature)))"

section \<open>Purposes\<close>

definition KEEPER :: string where "KEEPER = ''keeper''"

definition TREASURY :: string where "TREASURY = ''treasury''"

record purpose =
  p_name :: string
  p_contract_role :: string
  p_signature :: string
  p_signer_role :: string
  p_business_entry :: bool

abbreviation mk_purpose :: "string \<Rightarrow> string \<Rightarrow> string \<Rightarrow> string \<Rightarrow> purpose" where
  "mk_purpose n c s r \<equiv> \<lparr>p_name = n, p_contract_role = c, p_signature = s, p_signer_role = r, p_business_entry = True\<rparr>"

definition PURPOSES :: "purpose list" where
  "PURPOSES =
    [mk_purpose ''evidence.consume'' ''evidence_book''
       ''consume(bytes32,(uint64,uint64,bytes,bytes32,(bytes32,bool)[],bytes32,bytes32[]),address,bytes32[],(uint32,bytes32,bytes32,uint64)[])'' KEEPER,
     mk_purpose ''receivables.ingest'' ''receivable_book''
       ''ingest(bytes32,(uint64,uint64,bytes,bytes32,(bytes32,bool)[],bytes32,bytes32[]),address,bytes32[],(uint32,bytes32,bytes32,bytes32,bytes,uint64)[])'' KEEPER,
     mk_purpose ''manager.executeReservedDraw'' ''manager'' ''executeReservedDraw(bytes32,uint256)'' TREASURY,
     mk_purpose ''manager.repayFor'' ''manager'' ''repayFor(bytes32,uint256)'' TREASURY,
     mk_purpose ''escrow.sweep'' ''revenue_escrow'' ''sweep(uint64)'' TREASURY,
     mk_purpose ''escrow.forwardClaimed'' ''revenue_escrow'' ''forwardClaimed(bytes32,uint256,bytes32)'' TREASURY,
     mk_purpose ''escrow.claim'' ''revenue_escrow'' ''claim(address,bytes)'' KEEPER]"

definition VERIFIER_PROBE_SIGNATURE :: string where
  "VERIFIER_PROBE_SIGNATURE =
    ''verifyAndExtract((uint64,uint64,bytes,bytes32,(bytes32,bool)[],bytes32,bytes32[]),address,bytes32[])''"

definition FORBIDDEN_PURPOSE_TERMS :: "string list" where
  "FORBIDDEN_PURPOSE_TERMS = [''sign'', ''attest'', ''fallback'', ''markverified'', ''mark_verified'', ''bypass'',
     ''force'', ''spv'', ''resend_other'']"

definition resolve_purpose :: "string \<Rightarrow> string \<Rightarrow> bytes \<Rightarrow> app_error + purpose" where
  "resolve_purpose name signer_role calldata =
    (case List.find (\<lambda>p. p_name p = name) PURPOSES of
       None \<Rightarrow> Inl (PermissionError ''unknown purpose'')
     | Some p \<Rightarrow>
         if signer_role \<noteq> p_signer_role p then Inl (PermissionError ''purpose requires another credential'')
         else if length calldata < 4 \<or> ''0x'' @ hex_of_bytes (take 4 calldata) \<noteq> selector (p_signature p)
         then Inl (PermissionError ''calldata selector does not match purpose'')
         else Inr p)"

definition is_verifier_probe :: "bytes \<Rightarrow> bool" where
  "is_verifier_probe calldata \<longleftrightarrow> 4 \<le> length calldata \<and>
     ''0x'' @ hex_of_bytes (take 4 calldata) = selector VERIFIER_PROBE_SIGNATURE"

section \<open>Keccak against its standard\<close>

text \<open>
  The step mappings of the standard, on lanes as functions of their coordinates. The offsets are the
  triangular numbers along the walk \<open>(x, y) \<mapsto> (y, 2x + 3y)\<close>; the round constants are bits of a
  linear feedback shift register.
\<close>

definition parity :: "(nat \<Rightarrow> nat \<Rightarrow> 64 word) \<Rightarrow> nat \<Rightarrow> 64 word" where
  "parity a x = a x 0 XOR a x 1 XOR a x 2 XOR a x 3 XOR a x 4"

definition theta :: "(nat \<Rightarrow> nat \<Rightarrow> 64 word) \<Rightarrow> nat \<Rightarrow> nat \<Rightarrow> 64 word" where
  "theta a x y = a x y XOR (parity a ((x + 4) mod 5) XOR rol (parity a ((x + 1) mod 5)) 1)"

fun rho_walk :: "nat \<Rightarrow> nat \<times> nat" where
  "rho_walk 0 = (1, 0)"
| "rho_walk (Suc t) = (case rho_walk t of (x, y) \<Rightarrow> (y, (2 * x + 3 * y) mod 5))"

definition rho_offset :: "nat \<Rightarrow> nat \<Rightarrow> nat" where
  "rho_offset x y = (case List.find (\<lambda>t. rho_walk t = (x, y)) [0..<24] of
     None \<Rightarrow> 0 | Some t \<Rightarrow> (t + 1) * (t + 2) div 2 mod 64)"

text \<open>The inverse of \<open>(x, y) \<mapsto> (y, 2x + 3y)\<close> is \<open>(u, v) \<mapsto> (u + 3v, u)\<close> modulo 5.\<close>

definition rho_pi :: "(nat \<Rightarrow> nat \<Rightarrow> 64 word) \<Rightarrow> nat \<Rightarrow> nat \<Rightarrow> 64 word" where
  "rho_pi a u v = rol (a ((u + 3 * v) mod 5) u) (rho_offset ((u + 3 * v) mod 5) u)"

definition chi :: "(nat \<Rightarrow> nat \<Rightarrow> 64 word) \<Rightarrow> nat \<Rightarrow> nat \<Rightarrow> 64 word" where
  "chi b x y = b x y XOR (NOT (b ((x + 1) mod 5) y) AND b ((x + 2) mod 5) y)"

definition iota :: "64 word \<Rightarrow> (nat \<Rightarrow> nat \<Rightarrow> 64 word) \<Rightarrow> nat \<Rightarrow> nat \<Rightarrow> 64 word" where
  "iota rc a x y = (if x = 0 \<and> y = 0 then a x y XOR rc else a x y)"

fun lfsr_step :: "bool list \<Rightarrow> bool list" where
  "lfsr_step [r0, r1, r2, r3, r4, r5, r6, r7] = [r7, r0, r1, r2, r3 \<noteq> r7, r4 \<noteq> r7, r5 \<noteq> r7, r6]"
| "lfsr_step r = r"

definition lfsr_bit :: "nat \<Rightarrow> bool" where
  "lfsr_bit t = hd ((lfsr_step ^^ (t mod 255)) [True, False, False, False, False, False, False, False])"

definition round_constant :: "nat \<Rightarrow> 64 word" where
  "round_constant i = fold (\<lambda>j w. if lfsr_bit (j + 7 * i) then w OR push_bit (2 ^ j - 1) 1 else w) [0..<7] 0"

lemma RC_spec: "RC = map round_constant [0..<24]"
  by code_simp

lemma ROT_spec: "map (\<lambda>x. map (\<lambda>y. rho_offset x y) [0..<5]) [0..<5] = ROT"
  by code_simp

definition shaped :: "lanes \<Rightarrow> bool" where
  "shaped s \<longleftrightarrow> length s = 5 \<and> (\<forall>x < 5. length (s ! x) = 5)"

lemma shaped_set_lane [simp]: "shaped s \<Longrightarrow> shaped (set_lane x y w s)"
  by (cases "x < 5") (auto simp: shaped_def set_lane_def nth_list_update)

lemma lane_set_lane:
  assumes "shaped s" and "x < 5" and "y < 5"
  shows "lane (set_lane x y w s) u v = (if u = x \<and> v = y then w else lane s u v)"
  using assms by (auto simp: shaped_def lane_def set_lane_def nth_list_update)

text \<open>
  The loops write each position once and read at most that position: writing through an injective
  placement leaves at every place what was computed for it.
\<close>

lemma fold_place:
  assumes "distinct ps" and "inj_on pos (set ps)" and "\<forall>q \<in> set ps. fst (pos q) < 5 \<and> snd (pos q) < 5"
    and "shaped s"
  shows "shaped (fold (\<lambda>q s. set_lane (fst (pos q)) (snd (pos q)) (g q (lane s (fst (pos q)) (snd (pos q)))) s) ps s) \<and>
    (\<forall>u v. lane (fold (\<lambda>q s. set_lane (fst (pos q)) (snd (pos q)) (g q (lane s (fst (pos q)) (snd (pos q)))) s) ps s) u v =
      (case List.find (\<lambda>q. pos q = (u, v)) ps of None \<Rightarrow> lane s u v | Some q \<Rightarrow> g q (lane s u v)))"
  using assms
proof (induction ps arbitrary: s)
  case Nil
  then show ?case by simp
next
  case (Cons q ps)
  let ?s = "set_lane (fst (pos q)) (snd (pos q)) (g q (lane s (fst (pos q)) (snd (pos q)))) s"
  have range: "fst (pos q) < 5" "snd (pos q) < 5" using Cons.prems(3) by simp_all
  have fresh: "List.find (\<lambda>q'. pos q' = pos q) ps = None"
    using Cons.prems(1,2) by (auto simp: find_None_iff inj_on_def)
  have lane: "lane ?s u v = (if pos q = (u, v) then g q (lane s u v) else lane s u v)" for u v
    using lane_set_lane [OF Cons.prems(4) range] by (cases "pos q") auto
  let ?f = "\<lambda>q s. set_lane (fst (pos q)) (snd (pos q)) (g q (lane s (fst (pos q)) (snd (pos q)))) s"
  have "inj_on pos (set ps)" "distinct ps" "shaped ?s" using Cons.prems by (auto simp: inj_on_def)
  from Cons.IH [OF this(2,1) _ this(3)] Cons.prems(3)
  have sh: "shaped (fold ?f ps ?s)"
    and tail: "lane (fold ?f ps ?s) u v =
      (case List.find (\<lambda>q. pos q = (u, v)) ps of None \<Rightarrow> lane ?s u v | Some q \<Rightarrow> g q (lane ?s u v))" for u v
    by auto
  have "lane (fold ?f ps ?s) u v =
      (case List.find (\<lambda>q. pos q = (u, v)) (q # ps) of None \<Rightarrow> lane s u v | Some q \<Rightarrow> g q (lane s u v))" for u v
  proof (cases "pos q = (u, v)")
    case True
    then have "List.find (\<lambda>q. pos q = (u, v)) ps = None" using fresh by simp
    then show ?thesis using True tail [of u v] lane [of u v] by simp
  next
    case False
    then show ?thesis using tail [of u v] lane [of u v] by (simp split: option.split)
  qed
  with sh show ?case by simp
qed

definition coords :: "(nat \<times> nat) list" where
  "coords = List.product [0..<5] [0..<5]"

lemma each_lane_coords: "each_lane f s = fold (\<lambda>(x, y). f x y) coords s"
proof -
  have "fold (\<lambda>x. fold (\<lambda>y. f x y) ys) xs s = fold (\<lambda>(x, y). f x y) (List.product xs ys) s" for xs ys s
    by (induction xs arbitrary: s) (simp_all add: fold_map comp_def)
  then show ?thesis by (simp add: each_lane_def coords_def)
qed

lemma coords_mem: "(x, y) \<in> set coords \<longleftrightarrow> x < 5 \<and> y < 5"
  by (auto simp: coords_def)

lemma coords_distinct: "distinct coords"
  by (simp add: coords_def distinct_product)

lemma each_lane_local:
  assumes "shaped s"
  shows "shaped (each_lane (\<lambda>x y s. set_lane x y (g x y (lane s x y)) s) s)"
    and "x < 5 \<Longrightarrow> y < 5 \<Longrightarrow> lane (each_lane (\<lambda>x y s. set_lane x y (g x y (lane s x y)) s) s) x y = g x y (lane s x y)"
proof -
  have eq: "each_lane (\<lambda>x y s. set_lane x y (g x y (lane s x y)) s) s =
      fold (\<lambda>q s. set_lane (fst q) (snd q) (g (fst q) (snd q) (lane s (fst q) (snd q))) s) coords s"
    by (simp add: each_lane_coords split_def)
  note place = fold_place [OF coords_distinct inj_on_id, of s "\<lambda>q. g (fst q) (snd q)", simplified]
  have r: "\<forall>q \<in> set coords. fst q < 5 \<and> snd q < 5" by (auto simp: coords_mem)
  show "shaped (each_lane (\<lambda>x y s. set_lane x y (g x y (lane s x y)) s) s)"
    unfolding eq using place [OF r assms] by blast
  assume "x < 5" "y < 5"
  then have "List.find (\<lambda>q. q = (x, y)) coords = Some (x, y)"
    using find_unique [of id coords "(x, y)"] by (simp add: unique_on_def coords_distinct coords_mem)
  then show "lane (each_lane (\<lambda>x y s. set_lane x y (g x y (lane s x y)) s) s) x y = g x y (lane s x y)"
    unfolding eq using place [OF r assms] by simp
qed

definition pi_pos :: "nat \<times> nat \<Rightarrow> nat \<times> nat" where
  "pi_pos q = (snd q, (2 * fst q + 3 * snd q) mod 5)"

lemma pi_pos_table: "\<forall>q \<in> set coords. pi_pos ((fst q + 3 * snd q) mod 5, fst q) = q \<and>
    ((snd q + 3 * ((2 * fst q + 3 * snd q) mod 5)) mod 5, snd q) = q"
  by code_simp

lemma pi_pos_inj: "inj_on pi_pos (set coords)"
  by (rule inj_on_inverseI [where g = "\<lambda>q. ((fst q + 3 * snd q) mod 5, fst q)"])
     (use pi_pos_table in \<open>simp add: pi_pos_def\<close>)

lemma pi_pos_range: "\<forall>q \<in> set coords. fst (pi_pos q) < 5 \<and> snd (pi_pos q) < 5"
  by (auto simp: pi_pos_def coords_mem)

text \<open>The loop that rotates every lane and moves it to its place.\<close>

lemma each_lane_pi:
  assumes "u < 5" and "v < 5"
  shows "lane (each_lane (\<lambda>x y b. set_lane y ((2 * x + 3 * y) mod 5) (g x y) b) zero_lanes) u v =
    g ((u + 3 * v) mod 5) u"
proof -
  let ?q = "((u + 3 * v) mod 5, u)"
  have sh: "shaped zero_lanes" by (auto simp: shaped_def zero_lanes_def)
  have eq: "each_lane (\<lambda>x y b. set_lane y ((2 * x + 3 * y) mod 5) (g x y) b) zero_lanes =
      fold (\<lambda>q b. set_lane (fst (pi_pos q)) (snd (pi_pos q)) (g (fst q) (snd q)) b) coords zero_lanes"
    by (simp add: each_lane_coords split_def pi_pos_def)
  have q: "?q \<in> set coords" "pi_pos ?q = (u, v)"
    using assms bspec [OF pi_pos_table, of "(u, v)"] by (simp_all add: coords_mem)
  have "unique_on pi_pos coords"
    by (simp add: unique_on_def distinct_map coords_distinct pi_pos_inj)
  from find_unique [OF this q(1)] have "List.find (\<lambda>q. pi_pos q = (u, v)) coords = Some ?q" by (simp add: q(2))
  then show ?thesis
    unfolding eq
    using fold_place [OF coords_distinct pi_pos_inj pi_pos_range sh, of "\<lambda>q _. g (fst q) (snd q)"] by simp
qed

lemma ROT_offset: "x < 5 \<Longrightarrow> y < 5 \<Longrightarrow> ROT ! x ! y = rho_offset x y"
  by (simp add: ROT_spec [symmetric])



section \<open>Padding and selectors\<close>

lemma pad_loop_eq: "pad_loop xs = xs @ replicate ((136 - length xs mod 136) mod 136) 0"
proof (induction xs rule: pad_loop.induct)
  case (1 xs)
  let ?m = "length xs mod 136"
  show ?case
  proof (cases "?m = 0")
    case True
    then show ?thesis by (simp add: pad_loop.simps)
  next
    case False
    have s: "Suc (length xs) mod 136 = (if Suc ?m = 136 then 0 else Suc ?m)" by (rule mod_Suc)
    have "(136 - ?m) mod 136 = Suc ((136 - Suc (length xs) mod 136) mod 136)"
    proof (cases "Suc ?m = 136")
      case True
      with s show ?thesis by simp
    next
      case False
      with s have e: "Suc (length xs) mod 136 = Suc ?m" by simp
      have "?m < 136" by simp
      with False \<open>?m \<noteq> 0\<close> show ?thesis unfolding e by simp
    qed
    with False 1 [OF False] show ?thesis by (simp add: pad_loop.simps [of xs])
  qed
qed

lemma pad_eq:
  "\<exists>k. pad data = (if k = 0 then data @ [0x81] else data @ [1] @ replicate (k - 1) 0 @ [0x80]) \<and>
     (length data + 1 + k) mod 136 = 0"
proof -
  define k where "k = (136 - length (data @ [1]) mod 136) mod 136"
  have p: "pad_loop (data @ [1]) = data @ [1] @ replicate k 0" by (simp add: pad_loop_eq k_def)
  have "pad data = (if k = 0 then data @ [0x81] else data @ [1] @ replicate (k - 1) 0 @ [0x80])"
  proof (cases k)
    case 0
    then show ?thesis using p by (simp add: pad_def)
  next
    case (Suc n)
    then have "pad_loop (data @ [1]) = (data @ [1] @ replicate n 0) @ [0]"
      using p by (simp add: replicate_append_same)
    then have "pad data = (data @ [1] @ replicate n 0) @ [0 OR 0x80]"
      unfolding pad_def Let_def by (simp only: butlast_snoc last_snoc)
    then show ?thesis using Suc by simp
  qed
  moreover have "(length data + 1 + k) mod 136 = 0"
  proof -
    let ?n = "length data + 1"
    have "?n mod 136 < 136" by simp
    then have "?n + (136 - ?n mod 136) = 136 * (?n div 136 + 1)"
      using mult_div_mod_eq [of 136 ?n] by (simp only: distrib_left)
    then have "(?n + (136 - ?n mod 136)) mod 136 = 0" by (simp only: mod_mult_self1_is_0)
    then show ?thesis unfolding k_def length_append list.size by (simp only: mod_add_right_eq) simp
  qed
  ultimately show ?thesis by (intro exI conjI)
qed

text \<open>The message a padded block sequence stands for.\<close>

definition unpad :: "bytes \<Rightarrow> bytes" where
  "unpad p = (if last p = 0x81 then butlast p else butlast (rev (dropWhile (\<lambda>b. b = 0) (rev (butlast p)))))"

text \<open>Padding fills whole blocks and loses nothing. The padding loop ends for every message, the
  padded message is a positive number of 136-byte blocks, and the message can be recovered from it, so
  two messages never give the sponge the same input.\<close>

theorem keccak_padding_roundtrip:
  "length (pad data) mod 136 = 0 \<and> pad data \<noteq> [] \<and> unpad (pad data) = data"
proof -
  obtain k where p: "pad data = (if k = 0 then data @ [0x81] else data @ [1] @ replicate (k - 1) 0 @ [0x80])"
    and k: "(length data + 1 + k) mod 136 = 0"
    using pad_eq [of data] by (elim exE conjE) (rule that)
  have drop: "dropWhile (\<lambda>b. b = 0) (replicate n 0 @ [1] @ zs) = [1] @ zs" for n and zs :: bytes
    by (induction n) simp_all
  have "unpad (pad data) = data"
  proof (cases "k = 0")
    case True
    then show ?thesis by (simp add: p unpad_def)
  next
    case False
    then show ?thesis using drop [of "k - 1" "rev data"] by (simp add: p unpad_def butlast_append)
  qed
  moreover have "length (pad data) = length data + 1 + k" by (simp add: p)
  ultimately show ?thesis using k by (simp flip: length_greater_0_conv)
qed

lemma PURPOSES_roles:
  "\<forall>p \<in> set PURPOSES. (p_signer_role p = KEEPER \<and>
       p_name p \<in> {''evidence.consume'', ''receivables.ingest'', ''escrow.claim''}) \<or>
     (p_signer_role p = TREASURY \<and> p_name p \<in> {''manager.executeReservedDraw'', ''manager.repayFor'', ''escrow.sweep'',
        ''escrow.forwardClaimed''})"
  by (simp add: PURPOSES_def KEEPER_def TREASURY_def)

lemma PURPOSES_clean:
  "\<forall>p \<in> set PURPOSES. \<forall>w \<in> set FORBIDDEN_PURPOSE_TERMS. \<not> str_contains (p_name p) w"
  by code_simp

text \<open>A purpose is signable only by its own credential for its own function. When
  \<open>resolve_purpose\<close> returns, the name is on the allowlist, the calldata begins with the selector of
  that purpose's function, and the keeper credential got an evidence, ingestion or claim purpose, the
  treasury credential one of the four that move funds; no other credential resolves anything.\<close>

theorem purpose_credentials_separated:
  assumes "resolve_purpose name signer_role calldata = Inr p"
  shows "p \<in> set PURPOSES \<and> p_name p = name \<and> p_signer_role p = signer_role \<and>
    ''0x'' @ hex_of_bytes (take 4 calldata) = selector (p_signature p) \<and> 4 \<le> length calldata \<and>
    (signer_role = KEEPER \<and> name \<in> {''evidence.consume'', ''receivables.ingest'', ''escrow.claim''} \<or>
     signer_role = TREASURY \<and> name \<in> {''manager.executeReservedDraw'', ''manager.repayFor'', ''escrow.sweep'',
       ''escrow.forwardClaimed''})"
proof -
  have f: "List.find (\<lambda>p. p_name p = name) PURPOSES = Some p" "p_signer_role p = signer_role"
    and c: "\<not> length calldata < 4" "''0x'' @ hex_of_bytes (take 4 calldata) = selector (p_signature p)"
    using assms by (auto simp: resolve_purpose_def split: option.splits if_splits)
  have m: "p \<in> set PURPOSES" "p_name p = name" using find_Some_iff [OF f(1)] by auto
  with bspec [OF PURPOSES_roles m(1)] f(2) c show ?thesis by simp
qed

text \<open>Calldata that begins with a function's selector.\<close>

definition call_of :: "string \<Rightarrow> bytes" where
  "call_of signature = take 4 (keccak256 (str_bytes signature)) @ [0, 0]"

lemma length_keccak256 [simp]: "length (keccak256 d) = 32"
  by (simp add: keccak256_def squeeze_def bytes_of_lane_def length_concat comp_def
      map_replicate_const sum_list_replicate)

lemma resolve_call_of:
  assumes "List.find (\<lambda>p. p_name p = n) PURPOSES = Some p" and "call_of (p_signature p) = cd"
  shows "resolve_purpose n (p_signer_role p) cd = Inr p"
proof -
  let ?k = "keccak256 (str_bytes (p_signature p))"
  have "take (2 * n) (hex_of_bytes bs) = hex_of_bytes (take n bs)" for n bs
    by (induction bs arbitrary: n) (auto simp: hex_of_bytes_def take_Cons split: nat.split)
  from this [of 4 ?k] have "''0x'' @ hex_of_bytes (take 4 cd) = selector (p_signature p)"
    by (simp add: call_of_def selector_def assms(2) [symmetric])
  then show ?thesis using assms by (auto simp: resolve_purpose_def call_of_def)
qed

lemma find_sweep: "List.find (\<lambda>p. p_name p = ''escrow.sweep'') PURPOSES =
    Some (mk_purpose ''escrow.sweep'' ''revenue_escrow'' ''sweep(uint64)'' TREASURY)"
  by (simp add: PURPOSES_def)

theorem purpose_credentials_separated_witness:
  "\<exists>p. resolve_purpose ''escrow.sweep'' TREASURY (call_of ''sweep(uint64)'') = Inr p \<and> p_signer_role p = TREASURY"
proof -
  have "resolve_purpose ''escrow.sweep'' TREASURY (call_of ''sweep(uint64)'') =
      Inr (mk_purpose ''escrow.sweep'' ''revenue_escrow'' ''sweep(uint64)'' TREASURY)"
    using resolve_call_of [OF find_sweep refl] by simp
  with purpose_credentials_separated [OF this] show ?thesis by blast
qed

end
