(* ===== verification/Tx_Intents.thy ===== *)
theory Tx_Intents
  imports Abi Outbox
begin

text \<open>
  Transaction intents (\<open>transactions/intents.py\<close>) and nonce allocation (\<open>transactions/nonce.py\<close>):
  one row of \<open>tx_intents\<close> per nonce slot, its state machine, signing parameters kept in the audit
  log, fee bumps and audited abandonment. Every statement that writes is checked against the
  table's constraints (\<open>TxIntent\<close> of \<open>db/ledgers.py\<close>), as the database does; a violation raises.
\<close>

section \<open>Rows and states\<close>

datatype intent_state = IS_PENDING | IS_SENT | IS_PENDING_MINED | IS_FINALIZED | IS_REPLACED | IS_FAILED | IS_ORPHANED

fun intent_state_value :: "intent_state \<Rightarrow> string" where
  "intent_state_value IS_PENDING = ''PREPARED''"
| "intent_state_value IS_SENT = ''SENT''"
| "intent_state_value IS_PENDING_MINED = ''MINED''"
| "intent_state_value IS_FINALIZED = ''FINAL''"
| "intent_state_value IS_REPLACED = ''REPLACED''"
| "intent_state_value IS_FAILED = ''FAILED''"
| "intent_state_value IS_ORPHANED = ''ORPHANED''"

fun intent_state_name :: "intent_state \<Rightarrow> string" where
  "intent_state_name IS_PENDING = ''PENDING''"
| "intent_state_name IS_SENT = ''SENT''"
| "intent_state_name IS_PENDING_MINED = ''PENDING_MINED''"
| "intent_state_name IS_FINALIZED = ''FINALIZED''"
| "intent_state_name IS_REPLACED = ''REPLACED''"
| "intent_state_name IS_FAILED = ''FAILED''"
| "intent_state_name IS_ORPHANED = ''ORPHANED''"

definition LIVE_STATES :: "intent_state list" where
  "LIVE_STATES = [IS_PENDING, IS_SENT, IS_PENDING_MINED, IS_ORPHANED]"

fun TRANSITIONS :: "intent_state \<Rightarrow> intent_state set" where
  "TRANSITIONS IS_PENDING = {IS_SENT, IS_PENDING_MINED, IS_REPLACED, IS_FAILED}"
| "TRANSITIONS IS_SENT = {IS_PENDING_MINED, IS_REPLACED, IS_FAILED}"
| "TRANSITIONS IS_PENDING_MINED = {IS_FINALIZED, IS_ORPHANED}"
| "TRANSITIONS IS_ORPHANED = {IS_PENDING_MINED, IS_REPLACED, IS_FAILED}"
| "TRANSITIONS IS_FINALIZED = {}"
| "TRANSITIONS IS_REPLACED = {}"
| "TRANSITIONS IS_FAILED = {}"

record tx_intent =
  ti_id :: string
  ti_job_id :: "string option"
  ti_chain_id :: int
  ti_signer :: string
  ti_nonce :: int
  ti_purpose :: string
  ti_to :: string
  ti_calldata_hash :: string
  ti_tx_hash :: "string option"
  ti_state :: intent_state
  ti_replaces :: "string option"
  ti_mined_block :: "int option"
  ti_finality_block :: "int option"
  ti_last_error :: "string option"
  ti_created_at :: int
  ti_updated_at :: int

definition app_state :: "tx_intent \<Rightarrow> string" where
  "app_state it = (if ti_state it = IS_FAILED
     then (if starts_with ''ABANDONED'' (case ti_last_error it of None \<Rightarrow> [] | Some e \<Rightarrow> e) then ''ABANDONED'' else ''REVERTED'')
     else intent_state_name (ti_state it))"

record tx_db = core_db +
  db_intents :: "tx_intent list"

definition empty_tx_db :: tx_db where
  "empty_tx_db = \<lparr>db_jobs = [], db_outbox = [], db_audit = [], db_intents = []\<rparr>"

definition intent_checks :: "tx_intent \<Rightarrow> bool" where
  "intent_checks r \<longleftrightarrow> 0 < ti_chain_id r \<and> 0 \<le> ti_nonce r \<and> is_addr (ti_signer r) \<and> is_addr (ti_to r) \<and>
     is_hex32 (ti_calldata_hash r) \<and> (case ti_tx_hash r of None \<Rightarrow> True | Some h \<Rightarrow> is_hex32 h) \<and>
     (ti_state r \<in> {IS_SENT, IS_PENDING_MINED, IS_FINALIZED} \<longrightarrow> ti_tx_hash r \<noteq> None) \<and>
     (ti_state r = IS_FINALIZED \<longrightarrow> (case (ti_mined_block r, ti_finality_block r) of
        (Some m, Some f) \<Rightarrow> m \<le> f | _ \<Rightarrow> False)) \<and>
     ti_replaces r \<noteq> Some (ti_id r)"

definition nonce_slot :: "tx_intent \<Rightarrow> int \<times> string \<times> int" where
  "nonce_slot r = (ti_chain_id r, ti_signer r, ti_nonce r)"

text \<open>CHECK, UNIQUE (a null hash is no conflict) and FOREIGN KEY constraints of the table.\<close>

definition intents_ok :: "job_row list \<Rightarrow> tx_intent list \<Rightarrow> bool" where
  "intents_ok jobs rows \<longleftrightarrow> list_all intent_checks rows \<and> unique_on ti_id rows \<and> unique_on nonce_slot rows \<and>
     unique_on ti_tx_hash (filter (\<lambda>r. ti_tx_hash r \<noteq> None) rows) \<and>
     list_all (\<lambda>r. (case ti_job_id r of None \<Rightarrow> True | Some j \<Rightarrow> has_key j_job_id jobs j) \<and>
       (case ti_replaces r of None \<Rightarrow> True | Some i \<Rightarrow> has_key ti_id rows i)) rows"

definition write_intents :: "tx_intent list \<Rightarrow> tx_db \<Rightarrow> app_error + tx_db" where
  "write_intents rows db = ensure (intents_ok (db_jobs db) rows) (IntegrityError ''tx_intents'')
     (Inr (db\<lparr>db_intents := rows\<rparr>))"

definition update_intent :: "int \<Rightarrow> string \<Rightarrow> (tx_intent \<Rightarrow> tx_intent) \<Rightarrow> tx_db \<Rightarrow> app_error + tx_db" where
  "update_intent now i f db =
    write_intents (update_where (\<lambda>r. ti_id r = i) (\<lambda>r. (f r)\<lparr>ti_updated_at := now\<rparr>) (db_intents db)) db"

section \<open>Reads\<close>

definition get_intent :: "tx_db \<Rightarrow> string \<Rightarrow> app_error + tx_intent" where
  "get_intent db i = (case List.find (\<lambda>r. ti_id r = i) (db_intents db) of
     None \<Rightarrow> Inl NoResultFound | Some r \<Rightarrow> Inr r)"

definition live_for_job :: "tx_db \<Rightarrow> string \<Rightarrow> tx_intent option" where
  "live_for_job db j =
    (case sort_key (\<lambda>r. (- ti_nonce r, - ti_created_at r))
        (filter (\<lambda>r. ti_job_id r = Some j \<and> ti_state r \<in> set LIVE_STATES) (db_intents db)) of
       [] \<Rightarrow> None | r # _ \<Rightarrow> Some r)"

definition by_hash :: "tx_db \<Rightarrow> string \<Rightarrow> tx_intent option" where
  "by_hash db h = List.find (\<lambda>r. ti_tx_hash r = Some h) (db_intents db)"

definition list_live :: "tx_db \<Rightarrow> int \<Rightarrow> string \<Rightarrow> tx_intent list" where
  "list_live db chain signer = sort_key ti_nonce
    (filter (\<lambda>r. ti_chain_id r = chain \<and> ti_signer r = str_lower signer \<and> ti_state r \<in> set LIVE_STATES) (db_intents db))"

text \<open>The signing records of an intent, newest first.\<close>

definition signed_records :: "tx_db \<Rightarrow> string \<Rightarrow> json list" where
  "signed_records db i = rev (map (\<lambda>r. case a_after r of None \<Rightarrow> JNull | Some j \<Rightarrow> j)
    (filter (\<lambda>r. a_entity_table r = ''tx_intents'' \<and> a_entity_id r = i \<and> a_action r = ''TX_SIGNED'') (db_audit db)))"

definition record_hash :: "json \<Rightarrow> string option" where
  "record_hash j = (case json_get j ''txHash'' of Some (JStr h) \<Rightarrow> Some h | _ \<Rightarrow> None)"

fun all_hashes_loop :: "json list \<Rightarrow> string list \<Rightarrow> string list" where
  "all_hashes_loop [] seen = seen"
| "all_hashes_loop (j # js) seen = (case record_hash j of
     None \<Rightarrow> all_hashes_loop js seen
   | Some h \<Rightarrow> all_hashes_loop js (if h \<noteq> [] \<and> h \<notin> set seen then seen @ [h] else seen))"

definition all_hashes :: "tx_db \<Rightarrow> string \<Rightarrow> string list" where
  "all_hashes db i = all_hashes_loop (signed_records db i) []"

definition replaced_hashes :: "tx_db \<Rightarrow> string \<Rightarrow> app_error + string list" where
  "replaced_hashes db i = then_do (get_intent db i) (\<lambda>cur.
     Inr (filter (\<lambda>h. Some h \<noteq> ti_tx_hash cur) (all_hashes db i)))"

definition signed_params :: "tx_db \<Rightarrow> string \<Rightarrow> json option" where
  "signed_params db i = (case signed_records db i of [] \<Rightarrow> None | j # _ \<Rightarrow> Some j)"

section \<open>Nonces\<close>

definition lock_key :: "hash_fun \<Rightarrow> int \<Rightarrow> string \<Rightarrow> int" where
  "lock_key sha chain signer =
    (let h = sha (str_bytes (str_int chain @ '':'' @ str_lower signer))
     in foldl (\<lambda>acc b. acc * 256 + int b) 0 (take 8 h) AND 0x7FFFFFFFFFFFFFFF)"

definition holds_nonce :: "tx_intent \<Rightarrow> bool" where
  "holds_nonce r \<longleftrightarrow> \<not> (ti_state r = IS_FAILED \<and> ti_tx_hash r = None)"

definition highest_holding_nonce :: "tx_db \<Rightarrow> int \<Rightarrow> string \<Rightarrow> int option" where
  "highest_holding_nonce db chain signer =
    (let ns = map ti_nonce (filter (\<lambda>r. ti_chain_id r = chain \<and> ti_signer r = str_lower signer \<and> holds_nonce r) (db_intents db))
     in if ns = [] then None else Some (foldl max (hd ns) ns))"

definition allocate_nonce :: "tx_db \<Rightarrow> int \<Rightarrow> string \<Rightarrow> int \<Rightarrow> int" where
  "allocate_nonce db chain signer pending =
    (let db_next = (case highest_holding_nonce db chain signer of None \<Rightarrow> 0 | Some n \<Rightarrow> n + 1)
     in max db_next pending)"

section \<open>Writes\<close>

definition create_intent ::
  "hash_fun \<Rightarrow> int \<Rightarrow> string \<Rightarrow> string option \<Rightarrow> int \<Rightarrow> string \<Rightarrow> int \<Rightarrow> string \<Rightarrow> string \<Rightarrow> string \<Rightarrow> string option \<Rightarrow>
   tx_db \<Rightarrow> app_error + (tx_db \<times> tx_intent)" where
  "create_intent sha now tid job chain signer nonce purpose to_addr cd rep db =
    (case List.find (\<lambda>r. ti_chain_id r = chain \<and> ti_signer r = str_lower signer \<and> ti_nonce r = nonce \<and>
             ti_state r = IS_FAILED \<and> ti_tx_hash r = None) (db_intents db) of
       Some stale \<Rightarrow>
         then_do (update_intent now (ti_id stale) (\<lambda>r. r\<lparr>ti_job_id := job, ti_purpose := purpose,
             ti_to := str_lower to_addr, ti_calldata_hash := cd, ti_state := IS_PENDING, ti_last_error := None,
             ti_replaces := rep\<rparr>) db) (\<lambda>db.
         then_do (write_audit sha now ''dispatcher'' (role_value R_SYSTEM) ''TX_NONCE_REISSUED'' ''tx_intents'' (ti_id stale)
             (Some (JObj [(''jobId'', json_opt (ti_job_id stale)), (''purpose'', JStr (ti_purpose stale)),
                (''to'', JStr (ti_to stale)), (''calldataHash'', JStr (ti_calldata_hash stale)),
                (''lastError'', json_opt (ti_last_error stale))]))
             (Some (JObj [(''jobId'', json_opt job), (''purpose'', JStr purpose), (''to'', JStr (str_lower to_addr)),
                (''calldataHash'', JStr cd), (''nonce'', JInt nonce)])) job db) (\<lambda>(db, _).
         then_do (get_intent db (ti_id stale)) (\<lambda>it. Inr (db, it))))
     | None \<Rightarrow>
         (let row = \<lparr>ti_id = tid, ti_job_id = job, ti_chain_id = chain, ti_signer = str_lower signer,
             ti_nonce = nonce, ti_purpose = purpose, ti_to = str_lower to_addr, ti_calldata_hash = cd,
             ti_tx_hash = None, ti_state = IS_PENDING, ti_replaces = rep, ti_mined_block = None,
             ti_finality_block = None, ti_last_error = None, ti_created_at = now, ti_updated_at = now\<rparr>
          in then_do (write_intents (db_intents db @ [row]) db) (\<lambda>db.
             then_do (get_intent db tid) (\<lambda>it. Inr (db, it)))))"

definition transition_to ::
  "int \<Rightarrow> string \<Rightarrow> intent_state \<Rightarrow> (tx_intent \<Rightarrow> tx_intent) \<Rightarrow> tx_db \<Rightarrow> app_error + (tx_db \<times> tx_intent)" where
  "transition_to now i st f db =
    then_do (get_intent db i) (\<lambda>cur.
      ensure (st = ti_state cur \<or> st \<in> TRANSITIONS (ti_state cur))
        (IllegalIntentTransition (app_state cur @ '' -> '' @ intent_state_name st))
        (then_do (update_intent now i (\<lambda>r. (f r)\<lparr>ti_state := st\<rparr>) db) (\<lambda>db.
         then_do (get_intent db i) (\<lambda>it. Inr (db, it)))))"

definition signing_after :: "string \<Rightarrow> string \<Rightarrow> int \<Rightarrow> int \<Rightarrow> int \<Rightarrow> int \<Rightarrow> json" where
  "signing_after h raw max_fee max_prio gas nonce =
    JObj [(''txHash'', JStr h), (''rawTx'', JStr raw), (''maxFeePerGas'', JStr (str_int max_fee)),
      (''maxPriorityFeePerGas'', JStr (str_int max_prio)), (''gasLimit'', JStr (str_int gas)), (''nonce'', JInt nonce)]"

definition record_signed ::
  "hash_fun \<Rightarrow> int \<Rightarrow> string \<Rightarrow> string \<Rightarrow> string \<Rightarrow> int \<Rightarrow> int \<Rightarrow> int \<Rightarrow> string \<Rightarrow> tx_db \<Rightarrow> app_error + (tx_db \<times> tx_intent)" where
  "record_signed sha now i h raw max_fee max_prio gas actor db =
    then_do (get_intent db i) (\<lambda>cur.
      ensure (ti_state cur = IS_PENDING) (IllegalIntentTransition ''cannot sign an intent in this state'')
      (ensure (ti_tx_hash cur = None \<or> ti_tx_hash cur = Some h)
         (IllegalIntentTransition ''intent already signed with a different hash'')
      (then_do (update_intent now i (\<lambda>r. r\<lparr>ti_tx_hash := Some h\<rparr>) db) (\<lambda>db.
       then_do (write_audit sha now actor (role_value R_SYSTEM) ''TX_SIGNED'' ''tx_intents'' i None
           (Some (signing_after h raw max_fee max_prio gas (ti_nonce cur))) (ti_job_id cur) db) (\<lambda>(db, _).
       then_do (get_intent db i) (\<lambda>it. Inr (db, it)))))))"

text \<open>\<open>int(prev.get("maxFeePerGas", "0"))\<close>.\<close>

definition previous_fee :: "json option \<Rightarrow> app_error + int" where
  "previous_fee prev =
    (case prev of None \<Rightarrow> Inr 0
     | Some j \<Rightarrow> (case json_get j ''maxFeePerGas'' of
         None \<Rightarrow> Inr 0
       | Some (JStr s) \<Rightarrow> (case int_of_str s of None \<Rightarrow> Inl (ValueError ''int'') | Some n \<Rightarrow> Inr n)
       | Some (JInt n) \<Rightarrow> Inr n
       | Some _ \<Rightarrow> Inl (OtherError ''TypeError'')))"

definition record_fee_bump ::
  "hash_fun \<Rightarrow> int \<Rightarrow> string \<Rightarrow> string \<Rightarrow> string \<Rightarrow> int \<Rightarrow> int \<Rightarrow> int \<Rightarrow> string \<Rightarrow> tx_db \<Rightarrow> app_error + (tx_db \<times> tx_intent)" where
  "record_fee_bump sha now i h raw max_fee max_prio gas actor db =
    then_do (get_intent db i) (\<lambda>cur.
      (case ti_tx_hash cur of
         None \<Rightarrow> Inl (IllegalIntentTransition ''cannot fee-bump an intent in this state'')
       | Some old \<Rightarrow>
      ensure (ti_state cur \<in> {IS_PENDING, IS_SENT}) (IllegalIntentTransition ''cannot fee-bump an intent in this state'')
      (then_do (previous_fee (signed_params db i)) (\<lambda>fee.
      ensure (fee < max_fee) (IllegalIntentTransition ''replacement must raise maxFeePerGas'')
      (then_do (update_intent now i (\<lambda>r. r\<lparr>ti_tx_hash := Some h, ti_state := IS_PENDING\<rparr>) db) (\<lambda>db1.
       then_do (write_audit sha now actor (role_value R_SYSTEM) ''TX_REPLACED_FEE'' ''tx_intents'' i
           (Some (JObj [(''txHash'', JStr old),
              (''maxFeePerGas'', case signed_params db i of None \<Rightarrow> JNull
                 | Some j \<Rightarrow> (case json_get j ''maxFeePerGas'' of None \<Rightarrow> JNull | Some x \<Rightarrow> x))]))
           (Some (JObj [(''txHash'', JStr h), (''replacedHash'', JStr old), (''state'', JStr ''REPLACED_FEE'')]))
           (ti_job_id cur) db1) (\<lambda>(db2, _).
       then_do (write_audit sha now actor (role_value R_SYSTEM) ''TX_SIGNED'' ''tx_intents'' i None
           (Some (signing_after h raw max_fee max_prio gas (ti_nonce cur))) (ti_job_id cur) db2) (\<lambda>(db3, _).
       then_do (get_intent db3 i) (\<lambda>it. Inr (db3, it))))))))))"

definition mark_sent :: "int \<Rightarrow> string \<Rightarrow> tx_db \<Rightarrow> app_error + (tx_db \<times> tx_intent)" where
  "mark_sent now i = transition_to now i IS_SENT (\<lambda>r. r\<lparr>ti_last_error := None\<rparr>)"

definition mark_mined :: "int \<Rightarrow> string \<Rightarrow> int \<Rightarrow> int \<Rightarrow> tx_db \<Rightarrow> app_error + (tx_db \<times> tx_intent)" where
  "mark_mined now i block status =
    (if status = 1
     then transition_to now i IS_PENDING_MINED (\<lambda>r. r\<lparr>ti_mined_block := Some block, ti_last_error := None\<rparr>)
     else transition_to now i IS_FAILED (\<lambda>r. r\<lparr>ti_mined_block := Some block,
        ti_last_error := Some (''REVERTED: receipt status 0 at block '' @ str_int block)\<rparr>))"

definition mark_final :: "int \<Rightarrow> string \<Rightarrow> int \<Rightarrow> tx_db \<Rightarrow> app_error + (tx_db \<times> tx_intent)" where
  "mark_final now i fb = transition_to now i IS_FINALIZED (\<lambda>r. r\<lparr>ti_finality_block := Some fb\<rparr>)"

definition mark_orphaned :: "int \<Rightarrow> string \<Rightarrow> string \<Rightarrow> tx_db \<Rightarrow> app_error + (tx_db \<times> tx_intent)" where
  "mark_orphaned now i reason = transition_to now i IS_ORPHANED
     (\<lambda>r. r\<lparr>ti_mined_block := None, ti_last_error := Some (''ORPHANED: '' @ reason)\<rparr>)"

definition mark_replaced :: "int \<Rightarrow> string \<Rightarrow> string \<Rightarrow> tx_db \<Rightarrow> app_error + (tx_db \<times> tx_intent)" where
  "mark_replaced now i by_i = transition_to now i IS_REPLACED (\<lambda>r. r\<lparr>ti_last_error := Some (''REPLACED by '' @ by_i)\<rparr>)"

definition abandon ::
  "hash_fun \<Rightarrow> int \<Rightarrow> string \<Rightarrow> string \<Rightarrow> string \<Rightarrow> string \<Rightarrow> tx_db \<Rightarrow> app_error + (tx_db \<times> tx_intent)" where
  "abandon sha now i actor actor_role reason db =
    ensure (str_strip reason \<noteq> []) (ValueError ''abandon requires a reason'')
    (then_do (get_intent db i) (\<lambda>cur.
      ensure (ti_tx_hash cur = None) (IllegalIntentTransition ''signed transaction cannot be abandoned while it may still mine'')
      (then_do (transition_to now i IS_FAILED (\<lambda>r. r\<lparr>ti_last_error := Some (''ABANDONED: '' @ reason)\<rparr>) db) (\<lambda>(db, out).
       then_do (write_audit sha now actor actor_role ''TX_ABANDONED'' ''tx_intents'' i
           (Some (JObj [(''state'', JStr (app_state cur)), (''txHash'', JNull)]))
           (Some (JObj [(''state'', JStr ''ABANDONED''), (''reason'', JStr reason)])) (ti_job_id cur) db) (\<lambda>(db, _).
       Inr (db, out))))))"

section \<open>What a write does\<close>

text \<open>How one row of the table may change from one statement to the next.\<close>

definition intent_evolves :: "tx_intent \<Rightarrow> tx_intent \<Rightarrow> bool" where
  "intent_evolves r r' \<longleftrightarrow> ti_id r' = ti_id r \<and> nonce_slot r' = nonce_slot r \<and>
     (ti_tx_hash r \<noteq> None \<longrightarrow> ti_tx_hash r' \<noteq> None) \<and>
     (ti_state r' = ti_state r \<or> ti_state r' \<in> TRANSITIONS (ti_state r) \<or>
      (ti_state r = IS_SENT \<and> ti_state r' = IS_PENDING) \<or>
      (\<not> holds_nonce r \<and> ti_state r' = IS_PENDING))"

text \<open>The hashes the reconciler watches only grow with the audit log.\<close>

lemma all_hashes_loop_set:
  "set (all_hashes_loop js seen) = set seen \<union> {h. h \<noteq> [] \<and> (\<exists>j \<in> set js. record_hash j = Some h)}"
proof (induction js arbitrary: seen)
  case Nil
  then show ?case by simp
next
  case (Cons j js)
  show ?case by (cases "record_hash j") (auto simp: Cons)
qed

definition signed_with :: "audit_row list \<Rightarrow> string \<Rightarrow> string \<Rightarrow> bool" where
  "signed_with rows i h \<longleftrightarrow> (\<exists>r \<in> set rows. a_entity_table r = ''tx_intents'' \<and> a_entity_id r = i \<and>
     a_action r = ''TX_SIGNED'' \<and> (\<exists>j. a_after r = Some j \<and> record_hash j = Some h))"

lemma all_hashes_iff: "h \<in> set (all_hashes db i) \<longleftrightarrow> h \<noteq> [] \<and> signed_with (db_audit db) i h"
proof -
  have "record_hash JNull = None" by (simp add: record_hash_def json_get_def)
  then show ?thesis
    by (auto simp: all_hashes_def all_hashes_loop_set signed_records_def signed_with_def split: option.splits)
qed

lemma signed_with_append: "signed_with (rows @ later) i h \<longleftrightarrow> signed_with rows i h \<or> signed_with later i h"
  by (auto simp: signed_with_def)

text \<open>
  The effect of every successful write: audit rows are appended, the table satisfies its
  constraints, and either one row evolves, a new hash of it being in the new audit rows, or one
  unsigned row is appended.
\<close>

definition tx_effect :: "tx_db \<Rightarrow> tx_db \<Rightarrow> bool" where
  "tx_effect db db' \<longleftrightarrow> db_jobs db' = db_jobs db \<and> intents_ok (db_jobs db) (db_intents db') \<and>
     (\<exists>new. db_audit db' = db_audit db @ new \<and>
       ((\<exists>i f. db_intents db' = update_where (\<lambda>r. ti_id r = i) f (db_intents db) \<and>
           (\<forall>r \<in> set (db_intents db). ti_id r = i \<longrightarrow> intent_evolves r (f r) \<and>
              (ti_tx_hash (f r) = ti_tx_hash r \<or> (\<exists>h. ti_tx_hash (f r) = Some h \<and> signed_with new i h)))) \<or>
        (\<exists>row. db_intents db' = db_intents db @ [row] \<and> ti_tx_hash row = None)))"

lemma get_intent_eq:
  "get_intent db i = Inr r \<longleftrightarrow> List.find (\<lambda>r. ti_id r = i) (db_intents db) = Some r"
  by (auto simp: get_intent_def split: option.splits)

lemma get_intent_row:
  assumes "get_intent db i = Inr cur" and "unique_on ti_id (db_intents db)"
  shows "cur \<in> set (db_intents db)" "ti_id cur = i" "r \<in> set (db_intents db) \<Longrightarrow> ti_id r = i \<Longrightarrow> r = cur"
proof -
  have c: "cur \<in> set (db_intents db) \<and> ti_id cur = i"
    using assms(1) find_Some_iff unfolding get_intent_eq by fastforce
  then show "cur \<in> set (db_intents db)" "ti_id cur = i" by auto
  show "r = cur" if "r \<in> set (db_intents db)" "ti_id r = i"
    using unique_on_same [OF assms(2) that(1)] c that(2) by auto
qed

lemma update_intent_eq:
  "update_intent now i f db = Inr db' \<longleftrightarrow>
     intents_ok (db_jobs db) (update_where (\<lambda>r. ti_id r = i) (\<lambda>r. (f r)\<lparr>ti_updated_at := now\<rparr>) (db_intents db)) \<and>
     db' = db\<lparr>db_intents := update_where (\<lambda>r. ti_id r = i) (\<lambda>r. (f r)\<lparr>ti_updated_at := now\<rparr>) (db_intents db)\<rparr>"
  by (auto simp: update_intent_def write_intents_def ensure_def)

lemma effect_update:
  assumes "unique_on ti_id (db_intents db)" and "get_intent db i = Inr cur"
    and "update_intent now i f db = Inr db1" and "db' = db1\<lparr>db_audit := db_audit db @ new\<rparr>"
    and "intent_evolves cur ((f cur)\<lparr>ti_updated_at := now\<rparr>)"
    and "ti_tx_hash (f cur) = ti_tx_hash cur \<or> (\<exists>h. ti_tx_hash (f cur) = Some h \<and> signed_with new i h)"
  shows "tx_effect db db'"
proof -
  let ?f = "\<lambda>r. (f r)\<lparr>ti_updated_at := now\<rparr>"
  have ok: "intents_ok (db_jobs db) (update_where (\<lambda>r. ti_id r = i) ?f (db_intents db))"
    and db': "db' = db\<lparr>db_intents := update_where (\<lambda>r. ti_id r = i) ?f (db_intents db), db_audit := db_audit db @ new\<rparr>"
    using assms(3,4) by (simp_all add: update_intent_eq)
  have "\<forall>r \<in> set (db_intents db). ti_id r = i \<longrightarrow> intent_evolves r (?f r) \<and>
      (ti_tx_hash (?f r) = ti_tx_hash r \<or> (\<exists>h. ti_tx_hash (?f r) = Some h \<and> signed_with new i h))"
  proof (intro ballI impI)
    fix r assume "r \<in> set (db_intents db)" "ti_id r = i"
    then have "r = cur" by (rule get_intent_row(3) [OF assms(2,1)])
    with assms(5,6) show "intent_evolves r (?f r) \<and>
      (ti_tx_hash (?f r) = ti_tx_hash r \<or> (\<exists>h. ti_tx_hash (?f r) = Some h \<and> signed_with new i h))" by simp
  qed
  with ok show ?thesis unfolding tx_effect_def db' by (intro conjI exI [of _ new] disjI1 exI [of _ i] exI [of _ ?f]) simp_all
qed

lemma transition_effect:
  assumes "unique_on ti_id (db_intents db)" and "transition_to now i st f db = Inr (db', out)"
    and "\<And>r. ti_id (f r) = ti_id r \<and> nonce_slot (f r) = nonce_slot r \<and> ti_tx_hash (f r) = ti_tx_hash r"
  shows "tx_effect db db'"
proof -
  obtain cur where cur: "get_intent db i = Inr cur" and st: "st = ti_state cur \<or> st \<in> TRANSITIONS (ti_state cur)"
    and u: "update_intent now i (\<lambda>r. (f r)\<lparr>ti_state := st\<rparr>) db = Inr db'"
    using assms(2) by (auto simp: transition_to_def then_do_eq_Inr)
  have "db' = db'\<lparr>db_audit := db_audit db @ []\<rparr>" using u by (simp add: update_intent_eq)
  then show ?thesis
    by (rule effect_update [OF assms(1) cur u])
       (use st assms(3) [of cur] in \<open>auto simp: intent_evolves_def nonce_slot_def\<close>)
qed

lemma marks_effect:
  assumes "unique_on ti_id (db_intents db)"
  shows "mark_sent now i db = Inr (db', out) \<Longrightarrow> tx_effect db db'"
    and "mark_mined now i block status db = Inr (db', out) \<Longrightarrow> tx_effect db db'"
    and "mark_final now i fb db = Inr (db', out) \<Longrightarrow> tx_effect db db'"
    and "mark_orphaned now i reason db = Inr (db', out) \<Longrightarrow> tx_effect db db'"
    and "mark_replaced now i by_i db = Inr (db', out) \<Longrightarrow> tx_effect db db'"
  unfolding mark_sent_def mark_mined_def mark_final_def mark_orphaned_def mark_replaced_def
  by (auto split: if_splits elim!: transition_effect [OF assms] simp: nonce_slot_def)

lemma write_audit_rows:
  assumes "write_audit sha now actor rl act tb ent bef aft corr db = Inr (db', n)"
  obtains row where "db' = db\<lparr>db_audit := db_audit db @ [row]\<rparr>" "a_action row = act" "a_entity_table row = tb"
    "a_entity_id row = ent" "a_after row = aft"
  using write_audit_eq [OF assms] by blast

lemma record_hash_signing: "record_hash (signing_after h raw a b c n) = Some h"
  by (simp add: record_hash_def json_get_def signing_after_def)

lemma record_signed_effect:
  assumes "unique_on ti_id (db_intents db)" and "record_signed sha now i h raw mf mp gas actor db = Inr (db', out)"
  shows "tx_effect db db'"
proof -
  obtain cur db1 n where cur: "get_intent db i = Inr cur" "ti_state cur = IS_PENDING"
    and u: "update_intent now i (\<lambda>r. r\<lparr>ti_tx_hash := Some h\<rparr>) db = Inr db1"
    and a: "write_audit sha now actor (role_value R_SYSTEM) ''TX_SIGNED'' ''tx_intents'' i None
           (Some (signing_after h raw mf mp gas (ti_nonce cur))) (ti_job_id cur) db1 = Inr (db', n)"
    using assms(2) by (auto simp: record_signed_def then_do_eq_Inr)
  from a obtain row where row: "db' = db1\<lparr>db_audit := db_audit db1 @ [row]\<rparr>" "a_action row = ''TX_SIGNED''"
    "a_entity_table row = ''tx_intents''" "a_entity_id row = i" "a_after row = Some (signing_after h raw mf mp gas (ti_nonce cur))"
    by (rule write_audit_rows)
  have d: "db' = db1\<lparr>db_audit := db_audit db @ [row]\<rparr>" using u row(1) by (simp add: update_intent_eq)
  show ?thesis
    by (rule effect_update [OF assms(1) cur(1) u d])
       (use row record_hash_signing in \<open>auto simp: intent_evolves_def nonce_slot_def signed_with_def\<close>)
qed

lemma fee_bump_effect:
  assumes "unique_on ti_id (db_intents db)" and "record_fee_bump sha now i h raw mf mp gas actor db = Inr (db', out)"
  shows "tx_effect db db'"
proof -
  obtain cur db1 db2 n m bef aft where cur: "get_intent db i = Inr cur" "ti_state cur \<in> {IS_PENDING, IS_SENT}"
    and u: "update_intent now i (\<lambda>r. r\<lparr>ti_tx_hash := Some h, ti_state := IS_PENDING\<rparr>) db = Inr db1"
    and a1: "write_audit sha now actor (role_value R_SYSTEM) ''TX_REPLACED_FEE'' ''tx_intents'' i bef aft (ti_job_id cur) db1 = Inr (db2, n)"
    and a2: "write_audit sha now actor (role_value R_SYSTEM) ''TX_SIGNED'' ''tx_intents'' i None
           (Some (signing_after h raw mf mp gas (ti_nonce cur))) (ti_job_id cur) db2 = Inr (db', m)"
    using assms(2) unfolding record_fee_bump_def
    by (clarsimp simp: then_do_eq_Inr split: option.splits)
  from a1 obtain row1 where row1: "db2 = db1\<lparr>db_audit := db_audit db1 @ [row1]\<rparr>" by (rule write_audit_rows)
  from a2 obtain row where row: "db' = db2\<lparr>db_audit := db_audit db2 @ [row]\<rparr>" "a_action row = ''TX_SIGNED''"
    "a_entity_table row = ''tx_intents''" "a_entity_id row = i" "a_after row = Some (signing_after h raw mf mp gas (ti_nonce cur))"
    by (rule write_audit_rows)
  have d: "db' = db1\<lparr>db_audit := db_audit db @ [row1, row]\<rparr>" using u row(1) row1 by (simp add: update_intent_eq)
  show ?thesis
    by (rule effect_update [OF assms(1) cur(1) u d])
       (use row record_hash_signing cur(2) in \<open>auto simp: intent_evolves_def nonce_slot_def signed_with_def\<close>)
qed

lemma abandon_effect:
  assumes "unique_on ti_id (db_intents db)" and "abandon sha now i actor rl reason db = Inr (db', out)"
  shows "tx_effect db db'"
proof -
  obtain db1 n bef aft corr where t: "transition_to now i IS_FAILED (\<lambda>r. r\<lparr>ti_last_error := Some (''ABANDONED: '' @ reason)\<rparr>) db = Inr (db1, out)"
    and a: "write_audit sha now actor rl ''TX_ABANDONED'' ''tx_intents'' i bef aft corr db1 = Inr (db', n)"
    using assms(2) unfolding abandon_def by (clarsimp simp: then_do_eq_Inr)
  from a obtain row where row: "db' = db1\<lparr>db_audit := db_audit db1 @ [row]\<rparr>" by (rule write_audit_rows)
  have "tx_effect db db1" by (rule transition_effect [OF assms(1) t]) (simp add: nonce_slot_def)
  then show ?thesis unfolding tx_effect_def row
    by (auto simp: signed_with_append) blast+
qed

lemma create_effect:
  assumes "unique_on ti_id (db_intents db)"
    and "create_intent sha now tid job chain signer nonce purpose to_addr cd rep db = Inr (db', out)"
  shows "tx_effect db db'"
proof (cases "List.find (\<lambda>r. ti_chain_id r = chain \<and> ti_signer r = str_lower signer \<and> ti_nonce r = nonce \<and>
             ti_state r = IS_FAILED \<and> ti_tx_hash r = None) (db_intents db)")
  case None
  with assms(2) show ?thesis
    by (auto simp: create_intent_def then_do_eq_Inr write_intents_def tx_effect_def Let_def)
next
  case (Some stale)
  have s: "stale \<in> set (db_intents db)" "ti_state stale = IS_FAILED" "ti_tx_hash stale = None"
    using find_Some_iff [OF Some] by auto
  have cur: "get_intent db (ti_id stale) = Inr stale"
    using find_unique [OF assms(1) s(1)] by (simp add: get_intent_eq)
  obtain db1 n bef aft where u: "update_intent now (ti_id stale) (\<lambda>r. r\<lparr>ti_job_id := job, ti_purpose := purpose,
             ti_to := str_lower to_addr, ti_calldata_hash := cd, ti_state := IS_PENDING, ti_last_error := None,
             ti_replaces := rep\<rparr>) db = Inr db1"
    and a: "write_audit sha now ''dispatcher'' (role_value R_SYSTEM) ''TX_NONCE_REISSUED'' ''tx_intents'' (ti_id stale) bef aft job db1 = Inr (db', n)"
    using assms(2) Some unfolding create_intent_def by (clarsimp simp: then_do_eq_Inr)
  from a obtain row where row: "db' = db1\<lparr>db_audit := db_audit db1 @ [row]\<rparr>" by (rule write_audit_rows)
  have d: "db' = db1\<lparr>db_audit := db_audit db @ [row]\<rparr>" using u row by (simp add: update_intent_eq)
  show ?thesis
    by (rule effect_update [OF assms(1) cur u d])
       (use s in \<open>auto simp: intent_evolves_def nonce_slot_def holds_nonce_def\<close>)
qed

section \<open>The intent table as a machine\<close>

inductive tx_step :: "hash_fun \<Rightarrow> tx_db \<Rightarrow> tx_db \<Rightarrow> bool" for sha where
  t_create: "create_intent sha now tid job chain signer nonce purpose to_addr cd rep db = Inr (db', out) \<Longrightarrow> tx_step sha db db'"
| t_signed: "record_signed sha now i h raw mf mp gas actor db = Inr (db', out) \<Longrightarrow> tx_step sha db db'"
| t_bump: "record_fee_bump sha now i h raw mf mp gas actor db = Inr (db', out) \<Longrightarrow> tx_step sha db db'"
| t_sent: "mark_sent now i db = Inr (db', out) \<Longrightarrow> tx_step sha db db'"
| t_mined: "mark_mined now i block status db = Inr (db', out) \<Longrightarrow> tx_step sha db db'"
| t_final: "mark_final now i fb db = Inr (db', out) \<Longrightarrow> tx_step sha db db'"
| t_orphaned: "mark_orphaned now i reason db = Inr (db', out) \<Longrightarrow> tx_step sha db db'"
| t_replaced: "mark_replaced now i by_i db = Inr (db', out) \<Longrightarrow> tx_step sha db db'"
| t_abandon: "abandon sha now i actor rl reason db = Inr (db', out) \<Longrightarrow> tx_step sha db db'"
| t_jobs: "db_jobs db' = db_jobs db @ js \<Longrightarrow> db_intents db' = db_intents db \<Longrightarrow> db_audit db' = db_audit db \<Longrightarrow> tx_step sha db db'"

definition tx_inv :: "tx_db \<Rightarrow> bool" where
  "tx_inv db \<longleftrightarrow> intents_ok (db_jobs db) (db_intents db) \<and>
     (\<forall>r \<in> set (db_intents db). \<forall>h. ti_tx_hash r = Some h \<longrightarrow> h \<in> set (all_hashes db (ti_id r)))"

lemma tx_inv_unique: "tx_inv db \<Longrightarrow> unique_on ti_id (db_intents db)"
  by (simp add: tx_inv_def intents_ok_def)

lemma intents_ok_jobs: "intents_ok jobs rows \<Longrightarrow> intents_ok (jobs @ js) rows"
proof -
  have "(case j of None \<Rightarrow> True | Some j \<Rightarrow> has_key j_job_id jobs j) \<Longrightarrow>
      (case j of None \<Rightarrow> True | Some j \<Rightarrow> has_key j_job_id (jobs @ js) j)" for j
    by (auto simp: has_key_def split: option.split)
  moreover assume "intents_ok jobs rows"
  ultimately show ?thesis unfolding intents_ok_def list_all_iff by blast
qed

lemma tx_step_effect:
  assumes "tx_step sha db db'" and "tx_inv db"
  shows "tx_effect db db' \<or> (\<exists>js. db_jobs db' = db_jobs db @ js \<and> db_intents db' = db_intents db \<and> db_audit db' = db_audit db)"
proof -
  note u = tx_inv_unique [OF assms(2)]
  from assms(1) show ?thesis
    by cases (blast intro: marks_effect [OF u] create_effect [OF u] record_signed_effect [OF u]
        fee_bump_effect [OF u] abandon_effect [OF u])+
qed

lemma hex32_nonempty: "is_hex32 h \<Longrightarrow> h \<noteq> []"
  by (auto simp: is_hex32_def)

lemma tx_effect_inv:
  assumes "tx_effect db db'" and "tx_inv db"
  shows "tx_inv db'"
proof -
  obtain new where ok: "db_jobs db' = db_jobs db" "intents_ok (db_jobs db) (db_intents db')"
    and audit: "db_audit db' = db_audit db @ new"
    and rows: "(\<exists>i f. db_intents db' = update_where (\<lambda>r. ti_id r = i) f (db_intents db) \<and>
           (\<forall>r \<in> set (db_intents db). ti_id r = i \<longrightarrow> intent_evolves r (f r) \<and>
              (ti_tx_hash (f r) = ti_tx_hash r \<or> (\<exists>h. ti_tx_hash (f r) = Some h \<and> signed_with new i h)))) \<or>
        (\<exists>row. db_intents db' = db_intents db @ [row] \<and> ti_tx_hash row = None)"
    using assms(1) by (auto simp: tx_effect_def)
  have old: "signed_with (db_audit db') (ti_id r) h" if "r \<in> set (db_intents db)" "ti_tx_hash r = Some h" for r h
    using assms(2) that by (auto simp: tx_inv_def all_hashes_iff audit signed_with_append)
  have hex: "h \<noteq> []" if "r \<in> set (db_intents db')" "ti_tx_hash r = Some h" for r h
  proof -
    have "intent_checks r" using ok(2) that(1) by (simp add: intents_ok_def list_all_iff)
    then have "is_hex32 h" using that(2) by (simp add: intent_checks_def)
    then show ?thesis by (rule hex32_nonempty)
  qed
  have "signed_with (db_audit db') (ti_id r) h" if r: "r \<in> set (db_intents db')" "ti_tx_hash r = Some h" for r h
    using rows
  proof (elim disjE exE conjE)
    fix i f
    assume u: "db_intents db' = update_where (\<lambda>r. ti_id r = i) f (db_intents db)"
      and f: "\<forall>r \<in> set (db_intents db). ti_id r = i \<longrightarrow> intent_evolves r (f r) \<and>
              (ti_tx_hash (f r) = ti_tx_hash r \<or> (\<exists>h. ti_tx_hash (f r) = Some h \<and> signed_with new i h))"
    obtain q where q: "q \<in> set (db_intents db)" "r = (if ti_id q = i then f q else q)"
      using r(1) by (auto simp: u in_update_where)
    show ?thesis
    proof (cases "ti_id q = i")
      case True
      then have "ti_id r = i" using f q by (auto simp: intent_evolves_def)
      moreover have "ti_tx_hash r = ti_tx_hash q \<or> (\<exists>h. ti_tx_hash r = Some h \<and> signed_with new i h)"
        using f q True by auto
      ultimately show ?thesis using True r(2) old [OF q(1), of h] by (auto simp: audit signed_with_append)
    next
      case False
      with q r(2) old show ?thesis by simp
    qed
  next
    fix row assume "db_intents db' = db_intents db @ [row]" "ti_tx_hash row = None"
    with r old show ?thesis by auto
  qed
  with ok hex show ?thesis by (auto simp: tx_inv_def all_hashes_iff)
qed

lemma tx_step_inv: "tx_step sha db db' \<Longrightarrow> tx_inv db \<Longrightarrow> tx_inv db'"
  using tx_step_effect [of sha db db'] tx_effect_inv [of db db']
  by (auto simp: tx_inv_def intents_ok_jobs all_hashes_iff)

interpretation intents: inv_machine "\<lambda>db. db = empty_tx_db" "tx_step sha" tx_inv for sha :: hash_fun
proof
  show "tx_inv s" if "s = empty_tx_db" for s
    using that by (simp add: tx_inv_def empty_tx_db_def intents_ok_def unique_on_def)
qed (rule tx_step_inv)

lemma tx_step_row:
  assumes "tx_step sha db db'" and "tx_inv db" and "r \<in> set (db_intents db)"
  shows "\<exists>r' \<in> set (db_intents db'). intent_evolves r r'"
proof -
  have refl: "intent_evolves r r" by (simp add: intent_evolves_def)
  from tx_step_effect [OF assms(1,2)] show ?thesis
  proof (elim disjE exE conjE)
    assume "tx_effect db db'"
    then consider i f where "db_intents db' = update_where (\<lambda>r. ti_id r = i) f (db_intents db)"
        "\<forall>r \<in> set (db_intents db). ti_id r = i \<longrightarrow> intent_evolves r (f r)"
      | row where "db_intents db' = db_intents db @ [row]"
      by (auto simp: tx_effect_def)
    then show ?thesis
    proof cases
      case (1 i f)
      then have "(if ti_id r = i then f r else r) \<in> set (db_intents db')" using assms(3) unfolding 1 in_update_where by blast
      moreover have "intent_evolves r (if ti_id r = i then f r else r)" using 1 assms(3) refl by simp
      ultimately show ?thesis by blast
    next
      case (2 row)
      with assms(3) refl show ?thesis by auto
    qed
  next
    fix js assume "db_intents db' = db_intents db"
    with assms(3) refl show ?thesis by auto
  qed
qed

section \<open>Properties\<close>

text \<open>Rows whose outcome on the chain is decided: nothing moves them to another state.\<close>

definition settled :: "tx_intent \<Rightarrow> bool" where
  "settled r \<longleftrightarrow> ti_state r \<in> {IS_FINALIZED, IS_REPLACED} \<or> (ti_state r = IS_FAILED \<and> ti_tx_hash r \<noteq> None)"

lemma settled_evolves: "intent_evolves r r' \<Longrightarrow> settled r \<Longrightarrow> settled r' \<and> ti_state r' = ti_state r"
  by (auto simp: intent_evolves_def settled_def holds_nonce_def)

text \<open>C28: a settled transaction stays settled and its nonce is never given away. Whatever calls the
  dispatcher makes, a FINALIZED, REPLACED or reverted intent keeps its state and its (chain, signer,
  nonce) slot in every later state of the table, and at all times no two intents share a slot or a
  transaction hash.\<close>

theorem settled_intents_stay_settled:
  assumes "tx_inv db" and "(tx_step sha)\<^sup>*\<^sup>* db db'" and "r \<in> set (db_intents db)" and "settled r"
  shows "(\<exists>r' \<in> set (db_intents db'). ti_id r' = ti_id r \<and> nonce_slot r' = nonce_slot r \<and>
      ti_state r' = ti_state r \<and> (ti_tx_hash r \<noteq> None \<longrightarrow> ti_tx_hash r' \<noteq> None)) \<and>
    unique_on nonce_slot (db_intents db') \<and>
    unique_on ti_tx_hash (filter (\<lambda>r. ti_tx_hash r \<noteq> None) (db_intents db'))"
proof -
  have "tx_inv db'" by (rule intents.run_inv [OF assms(2,1)])
  then have "unique_on nonce_slot (db_intents db') \<and>
    unique_on ti_tx_hash (filter (\<lambda>r. ti_tx_hash r \<noteq> None) (db_intents db'))"
    by (simp add: tx_inv_def intents_ok_def)
  moreover from assms(2) have "\<exists>r' \<in> set (db_intents db'). settled r' \<and> ti_id r' = ti_id r \<and>
      nonce_slot r' = nonce_slot r \<and> ti_state r' = ti_state r \<and> (ti_tx_hash r \<noteq> None \<longrightarrow> ti_tx_hash r' \<noteq> None)"
  proof (induction rule: rtranclp_induct)
    case base
    then show ?case using assms(3,4) by auto
  next
    case (step x y)
    then obtain q where q: "q \<in> set (db_intents x)" "settled q" "ti_id q = ti_id r" "nonce_slot q = nonce_slot r"
      "ti_state q = ti_state r" "ti_tx_hash r \<noteq> None \<longrightarrow> ti_tx_hash q \<noteq> None" by blast
    obtain q' where q': "q' \<in> set (db_intents y)" "intent_evolves q q'"
      using tx_step_row [OF step(2) intents.run_inv [OF step(1) assms(1)] q(1)] by blast
    with q settled_evolves [OF q'(2) q(2)] show ?case by (auto simp: intent_evolves_def)
  qed
  ultimately show ?thesis by blast
qed

definition sample_intent :: tx_intent where
  "sample_intent = \<lparr>ti_id = ''T1'', ti_job_id = None, ti_chain_id = 5, ti_signer = ''0x'' @ replicate 40 CHR ''a'',
     ti_nonce = 7, ti_purpose = ''escrow.sweep'', ti_to = ''0x'' @ replicate 40 CHR ''b'',
     ti_calldata_hash = ''0x'' @ replicate 64 CHR ''c'', ti_tx_hash = Some (''0x'' @ replicate 64 CHR ''d''),
     ti_state = IS_FINALIZED, ti_replaces = None, ti_mined_block = Some 10, ti_finality_block = Some 30,
     ti_last_error = None, ti_created_at = 1, ti_updated_at = 2\<rparr>"

definition sample_audit :: audit_row where
  "sample_audit = \<lparr>a_id = 1, a_occurred_at = 1, a_actor = ''dispatcher'', a_actor_role = ''system'',
     a_action = ''TX_SIGNED'', a_entity_table = ''tx_intents'', a_entity_id = ''T1'', a_before = None,
     a_after = Some (signing_after (''0x'' @ replicate 64 CHR ''d'') ''0x'' 1 0 21000 7), a_correlation_id = None,
     a_prev_hash = None, a_entry_hash = ''0x''\<rparr>"

definition sample_job :: job_row where
  "sample_job = \<lparr>j_job_id = ''J1'', j_kind = ''K'', j_key = ''k'', j_payload_hash = [], j_payload = JNull,
     j_state = JS_PENDING, j_attempt = 0, j_max_attempts = 1, j_leased_by = None, j_lease_until = None,
     j_next_run_at = 0, j_last_error = None, j_created_at = 0, j_updated_at = 0\<rparr>"

definition sample_tx_db :: tx_db where
  "sample_tx_db = empty_tx_db\<lparr>db_intents := [sample_intent], db_audit := [sample_audit]\<rparr>"

lemma sample_intent_checks: "intent_checks sample_intent"
  by (simp add: intent_checks_def sample_intent_def is_addr_def is_hex32_def is_hex_low_def list_all_iff)

lemma sample_tx_inv: "tx_inv sample_tx_db"
proof -
  have "''0x'' @ replicate 64 CHR ''d'' \<in> set (all_hashes sample_tx_db ''T1'')"
    by (simp only: all_hashes_iff)
       (simp add: sample_tx_db_def sample_audit_def signed_with_def record_hash_signing)
  then show ?thesis
    by (simp add: tx_inv_def sample_tx_db_def empty_tx_db_def intents_ok_def sample_intent_checks unique_on_def)
       (simp add: sample_intent_def)
qed

theorem settled_intents_stay_settled_witness:
  "\<exists>r' \<in> set (db_intents (sample_tx_db\<lparr>db_jobs := [sample_job]\<rparr>)). ti_id r' = ''T1'' \<and> ti_state r' = IS_FINALIZED"
proof -
  have s: "(tx_step id)\<^sup>*\<^sup>* sample_tx_db (sample_tx_db\<lparr>db_jobs := [sample_job]\<rparr>)"
    by (rule r_into_rtranclp, rule t_jobs [where js = "[sample_job]"]) (simp_all add: sample_tx_db_def empty_tx_db_def)
  have r: "sample_intent \<in> set (db_intents sample_tx_db)" "settled sample_intent"
    by (simp_all add: sample_tx_db_def settled_def sample_intent_def)
  from settled_intents_stay_settled [OF sample_tx_inv s r] show ?thesis by (auto simp: sample_intent_def)
qed

text \<open>C29: every signed hash stays under watch. In every reachable state the current hash of each
  intent is among those \<open>all_hashes\<close> returns for it, and a hash once returned is returned in every later
  state; so a transaction replaced by a fee bump can still be found when it mines after all.\<close>

theorem signed_hashes_never_lost:
  assumes "tx_inv db" and "(tx_step sha)\<^sup>*\<^sup>* db db'"
  shows "(\<forall>i. set (all_hashes db i) \<subseteq> set (all_hashes db' i)) \<and>
    (\<forall>r \<in> set (db_intents db'). \<forall>h. ti_tx_hash r = Some h \<longrightarrow> h \<in> set (all_hashes db' (ti_id r)))"
proof -
  have "tx_inv db'" by (rule intents.run_inv [OF assms(2,1)])
  moreover from assms(2) have "\<exists>new. db_audit db' = db_audit db @ new"
  proof (induction rule: rtranclp_induct)
    case base
    then show ?case by simp
  next
    case (step x y)
    have "\<exists>new. db_audit y = db_audit x @ new"
      using tx_step_effect [OF step(2) intents.run_inv [OF step(1) assms(1)]] by (auto simp: tx_effect_def)
    with step.IH show ?case by auto
  qed
  ultimately show ?thesis by (auto simp: tx_inv_def all_hashes_iff signed_with_append)
qed

theorem signed_hashes_never_lost_witness:
  "''0x'' @ replicate 64 CHR ''d'' \<in> set (all_hashes sample_tx_db ''T1'')"
proof -
  have "sample_intent \<in> set (db_intents sample_tx_db)" "ti_id sample_intent = ''T1''"
    "ti_tx_hash sample_intent = Some (''0x'' @ replicate 64 CHR ''d'')"
    by (simp_all add: sample_tx_db_def sample_intent_def)
  with signed_hashes_never_lost [OF sample_tx_inv rtranclp.rtrancl_refl] show ?thesis by metis
qed

lemma foldl_max: "foldl max (a :: int) xs \<ge> a \<and> (\<forall>x \<in> set xs. x \<le> foldl max a xs)"
proof (induction xs arbitrary: a)
  case Nil
  then show ?case by simp
next
  case (Cons x xs)
  from Cons [of "max a x"] show ?case by auto
qed

lemma highest_holding:
  assumes "r \<in> set (db_intents db)" and "ti_chain_id r = chain" and "ti_signer r = str_lower signer" and "holds_nonce r"
  shows "\<exists>n. highest_holding_nonce db chain signer = Some n \<and> ti_nonce r \<le> n"
proof -
  let ?ns = "map ti_nonce (filter (\<lambda>r. ti_chain_id r = chain \<and> ti_signer r = str_lower signer \<and> holds_nonce r) (db_intents db))"
  have mem: "ti_nonce r \<in> set ?ns" using assms by auto
  then have "?ns \<noteq> []" by (metis empty_iff empty_set)
  then have "highest_holding_nonce db chain signer = Some (foldl max (hd ?ns) ?ns)"
    unfolding highest_holding_nonce_def Let_def by (simp only: if_False)
  with mem foldl_max [of "hd ?ns" ?ns] show ?thesis by blast
qed

text \<open>An allocated nonce is free. It is at least the chain's pending count, above every nonce of the
  signer that was or may have been broadcast, so the only rows at that nonce are abandoned ones that were
  never signed; and \<open>create\<close> at that nonce either re-issues such a row or inserts a new one, never a
  second row for the slot.\<close>

theorem allocated_nonce_is_free:
  assumes "n = allocate_nonce db chain signer pending"
  shows "pending \<le> n \<and>
    (\<forall>r \<in> set (db_intents db). ti_chain_id r = chain \<and> ti_signer r = str_lower signer \<longrightarrow>
       (holds_nonce r \<longrightarrow> ti_nonce r < n) \<and>
       (ti_nonce r = n \<longrightarrow> ti_state r = IS_FAILED \<and> ti_tx_hash r = None)) \<and>
    (\<not> (\<exists>r \<in> set (db_intents db). nonce_slot r = (chain, str_lower signer, n)) \<or>
     (\<exists>stale. List.find (\<lambda>r. ti_chain_id r = chain \<and> ti_signer r = str_lower signer \<and> ti_nonce r = n \<and>
        ti_state r = IS_FAILED \<and> ti_tx_hash r = None) (db_intents db) = Some stale))"
proof -
  have lt: "ti_nonce r < n" if "r \<in> set (db_intents db)" "ti_chain_id r = chain" "ti_signer r = str_lower signer" "holds_nonce r" for r
    using highest_holding [OF that] assms by (auto simp: allocate_nonce_def Let_def)
  have free: "ti_state r = IS_FAILED \<and> ti_tx_hash r = None"
    if "r \<in> set (db_intents db)" "ti_chain_id r = chain" "ti_signer r = str_lower signer" "ti_nonce r = n" for r
  proof -
    have "\<not> holds_nonce r" using lt [OF that(1-3)] that(4) by blast
    then show ?thesis by (simp add: holds_nonce_def)
  qed
  have "pending \<le> n" using assms by (simp add: allocate_nonce_def Let_def)
  moreover have "\<exists>stale. List.find (\<lambda>r. ti_chain_id r = chain \<and> ti_signer r = str_lower signer \<and> ti_nonce r = n \<and>
        ti_state r = IS_FAILED \<and> ti_tx_hash r = None) (db_intents db) = Some stale"
    if "\<exists>r \<in> set (db_intents db). nonce_slot r = (chain, str_lower signer, n)"
  proof (rule ccontr)
    assume "\<nexists>stale. List.find (\<lambda>r. ti_chain_id r = chain \<and> ti_signer r = str_lower signer \<and> ti_nonce r = n \<and>
        ti_state r = IS_FAILED \<and> ti_tx_hash r = None) (db_intents db) = Some stale"
    then have "List.find (\<lambda>r. ti_chain_id r = chain \<and> ti_signer r = str_lower signer \<and> ti_nonce r = n \<and>
        ti_state r = IS_FAILED \<and> ti_tx_hash r = None) (db_intents db) = None" by (meson not_Some_eq)
    with that free show False by (auto simp: find_None_iff nonce_slot_def)
  qed
  ultimately show ?thesis using lt free by blast
qed

theorem allocated_nonce_is_free_witness:
  "allocate_nonce sample_tx_db 5 (''0x'' @ replicate 40 CHR ''a'') 3 = 8 \<and>
   \<not> (\<exists>r \<in> set (db_intents sample_tx_db). nonce_slot r = (5, str_lower (''0x'' @ replicate 40 CHR ''a''), 8))"
proof -
  have n: "allocate_nonce sample_tx_db 5 (''0x'' @ replicate 40 CHR ''a'') 3 = 8"
    by (simp add: allocate_nonce_def highest_holding_nonce_def sample_tx_db_def sample_intent_def holds_nonce_def
        str_lower_def lower_char_def)
  have "ti_nonce r \<noteq> 8" if "r \<in> set (db_intents sample_tx_db)" for r
    using that by (auto simp: sample_tx_db_def sample_intent_def)
  with n allocated_nonce_is_free [OF n [symmetric]] show ?thesis by (auto simp: nonce_slot_def)
qed

end
