(* ===== verification/Dispatcher.thy ===== *)
theory Dispatcher
  imports Tx_Intents
begin

text \<open>
  The dispatcher (\<open>transactions/dispatcher.py\<close>): prepare (simulate, allocate a nonce, create and
  sign before anything is sent), broadcast, and reconcile with the chain. The RPC node and the
  signer are arguments: what a call returns, or that it raised. Keccak is the development's own.
\<close>

record dispatcher_config =
  dc_chain_id :: int
  dc_signer_role :: string
  dc_contracts :: "(string, string) dict"
  dc_max_gas :: int
  dc_max_fee_per_gas :: int
  dc_finality_depth :: int

record receipt =
  rc_block_number :: int
  rc_block_hash :: string
  rc_status :: int

text \<open>What the node answers during one call; \<open>None\<close> is a raise (of \<open>RpcError\<close> or
  \<open>RpcTransportError\<close>), and for a receipt or a block that there is none.\<close>

record rpc_node =
  rpc_chain_id :: int
  rpc_eth_call :: "string \<Rightarrow> bytes \<Rightarrow> bool"
  rpc_estimate_gas :: "string \<Rightarrow> bytes \<Rightarrow> int option"
  rpc_gas_price :: "int option"
  rpc_transaction_count :: "string \<Rightarrow> int option"
  rpc_send_raw :: "string \<Rightarrow> string option"
  rpc_receipt :: "string \<Rightarrow> receipt option"
  rpc_block_hash :: "int \<Rightarrow> string option"
  rpc_block_number :: int

text \<open>The signer: from chain, nonce, destination, calldata, gas and gas price to raw bytes.\<close>

type_synonym sign_fun = "int \<Rightarrow> int \<Rightarrow> string \<Rightarrow> bytes \<Rightarrow> int \<Rightarrow> int \<Rightarrow> bytes"

definition make_dispatcher :: "rpc_node \<Rightarrow> dispatcher_config \<Rightarrow> app_error + dispatcher_config" where
  "make_dispatcher rpc cfg =
    (if dc_finality_depth cfg < 1 \<or> dc_max_gas cfg < 21000 \<or> dc_max_fee_per_gas cfg \<le> 0
     then Inl (ValueError ''positive gas/fee bounds and finality depth required'')
     else if rpc_chain_id rpc \<noteq> dc_chain_id cfg then Inl (ValueError ''RPC chain differs from pinned deployment'')
     else Inr cfg)"

section \<open>Prepare\<close>

definition latest_intent_of :: "tx_db \<Rightarrow> string \<Rightarrow> tx_intent option" where
  "latest_intent_of db job =
    (case sort_key (\<lambda>r. - ti_created_at r) (filter (\<lambda>r. ti_job_id r = Some job) (db_intents db)) of
       [] \<Rightarrow> None | r # _ \<Rightarrow> Some r)"

definition or_raise :: "'a option \<Rightarrow> app_error + 'a" where
  "or_raise x = (case x of None \<Rightarrow> Inl (OtherError ''RpcError'') | Some a \<Rightarrow> Inr a)"

definition prepare ::
  "hash_fun \<Rightarrow> int \<Rightarrow> string \<Rightarrow> rpc_node \<Rightarrow> sign_fun \<Rightarrow> string \<Rightarrow> dispatcher_config \<Rightarrow> string \<Rightarrow> string \<Rightarrow> bytes \<Rightarrow> tx_db \<Rightarrow>
   app_error + (tx_db \<times> tx_intent)" where
  "prepare sha now tid rpc sign signer cfg job purpose_name calldata db =
    then_do (resolve_purpose purpose_name (dc_signer_role cfg) calldata) (\<lambda>p.
    (case map_of (dc_contracts cfg) (p_contract_role p) of
       None \<Rightarrow> Inl (ValueError ''missing deployment contract'')
     | Some to0 \<Rightarrow>
       ensure (to0 \<noteq> []) (ValueError ''missing deployment contract'')
       (let to_addr = str_lower to0
        in case latest_intent_of db job of
          Some ex \<Rightarrow> ensure (ti_purpose ex = purpose_name \<and> ti_to ex = to_addr \<and> ti_calldata_hash ex = keccak_hex calldata)
                (ValueError ''semantic action already bound to different calldata or destination'') (Inr (db, ex))
        | None \<Rightarrow>
            ensure (rpc_eth_call rpc to_addr calldata) (OtherError ''RpcError'')
            (then_do (or_raise (rpc_estimate_gas rpc to_addr calldata)) (\<lambda>est.
             then_do (or_raise (rpc_gas_price rpc)) (\<lambda>price.
             let gas = (est * 120 + 99) div 100
             in ensure (gas \<le> dc_max_gas cfg \<and> price \<le> dc_max_fee_per_gas cfg)
                  (ValueError ''simulation exceeds configured gas or fee bound'')
                (then_do (or_raise (rpc_transaction_count rpc signer)) (\<lambda>count.
                 let nonce = allocate_nonce db (dc_chain_id cfg) signer count
                 in then_do (create_intent sha now tid (Some job) (dc_chain_id cfg) signer nonce purpose_name to_addr
                       (keccak_hex calldata) None db) (\<lambda>(db, it).
                    let raw = sign (dc_chain_id cfg) nonce to_addr calldata gas price
                    in record_signed sha now (ti_id it) (keccak_hex raw) (''0x'' @ hex_of_bytes raw) price 0 gas
                         ''dispatcher'' db)))))))))"

section \<open>Broadcast\<close>

definition owns :: "dispatcher_config \<Rightarrow> string \<Rightarrow> tx_intent \<Rightarrow> bool" where
  "owns cfg signer it \<longleftrightarrow> ti_chain_id it = dc_chain_id cfg \<and> ti_signer it = str_lower signer"

definition persisted_raw :: "json option \<Rightarrow> string option" where
  "persisted_raw params = (case params of None \<Rightarrow> None
     | Some j \<Rightarrow> (case json_get j ''rawTx'' of Some (JStr s) \<Rightarrow> Some s | _ \<Rightarrow> None))"

definition broadcast ::
  "int \<Rightarrow> rpc_node \<Rightarrow> string \<Rightarrow> dispatcher_config \<Rightarrow> string \<Rightarrow> tx_db \<Rightarrow> app_error + (tx_db \<times> tx_intent)" where
  "broadcast now rpc signer cfg i db =
    then_do (get_intent db i) (\<lambda>cur.
    ensure (owns cfg signer cur) (PermissionError ''intent belongs to another dispatcher credential'')
    (if ti_state cur \<notin> {IS_PENDING, IS_SENT, IS_ORPHANED} then Inr (db, cur)
     else case persisted_raw (signed_params db i) of
       None \<Rightarrow> Inl (ValueError ''persisted signed bytes/hash missing or inconsistent'')
     | Some raw \<Rightarrow>
         (case bytes_fromhex (drop 2 raw) of
            None \<Rightarrow> Inl (ValueError ''non-hexadecimal number found'')
          | Some bs \<Rightarrow>
            ensure (Some (keccak_hex bs) = ti_tx_hash cur) (ValueError ''persisted signed bytes/hash missing or inconsistent'')
            (case rpc_send_raw rpc raw of
               None \<Rightarrow> Inr (db, cur)
             | Some sent \<Rightarrow>
                 if Some (str_lower sent) \<noteq> ti_tx_hash cur then Inr (db, cur)
                 else if ti_state cur \<in> {IS_PENDING, IS_SENT} then mark_sent now i db
                 else Inr (db, cur)))))"

section \<open>Reconcile\<close>

text \<open>The first hash whose receipt is in a canonical block.\<close>

fun canonical_receipt :: "rpc_node \<Rightarrow> string list \<Rightarrow> receipt option" where
  "canonical_receipt rpc [] = None"
| "canonical_receipt rpc (h # hs) =
     (case rpc_receipt rpc h of
        None \<Rightarrow> canonical_receipt rpc hs
      | Some rc \<Rightarrow> (case rpc_block_hash rpc (rc_block_number rc) of
          None \<Rightarrow> canonical_receipt rpc hs
        | Some bh \<Rightarrow> if str_lower bh = str_lower (rc_block_hash rc) then Some rc else canonical_receipt rpc hs))"

definition reconcile ::
  "int \<Rightarrow> rpc_node \<Rightarrow> string \<Rightarrow> dispatcher_config \<Rightarrow> string \<Rightarrow> tx_db \<Rightarrow> app_error + (tx_db \<times> tx_intent)" where
  "reconcile now rpc signer cfg i db =
    then_do (get_intent db i) (\<lambda>cur.
    ensure (owns cfg signer cur) (PermissionError ''intent belongs to another dispatcher credential'')
    (if ti_state cur \<notin> set LIVE_STATES then Inr (db, cur)
     else case canonical_receipt rpc (all_hashes db i) of
       None \<Rightarrow> if ti_state cur = IS_PENDING_MINED then mark_orphaned now i ''receipt no longer canonical'' db
              else Inr (db, cur)
     | Some rc \<Rightarrow>
         let number = rc_block_number rc; status = rc_status rc; head = rpc_block_number rpc
         in if status = 0 \<and> head - number + 1 < dc_finality_depth cfg then Inr (db, cur)
            else then_do (if ti_state cur \<noteq> IS_PENDING_MINED then mark_mined now i number status db else Inr (db, cur))
              (\<lambda>(db, cur).
                if status = 0 then Inr (db, cur)
                else if dc_finality_depth cfg \<le> head - number + 1 then mark_final now i head db
                else Inr (db, cur))))"

section \<open>Properties\<close>

lemma transition_to_result:
  assumes "transition_to now i st f db = Inr (db', out)" and "\<And>r. ti_id (f r) = ti_id r"
  shows "\<exists>cur. get_intent db i = Inr cur \<and> out = (f cur)\<lparr>ti_state := st, ti_updated_at := now\<rparr>"
proof -
  obtain cur where cur: "get_intent db i = Inr cur"
    and u: "update_intent now i (\<lambda>r. (f r)\<lparr>ti_state := st\<rparr>) db = Inr db'" and g: "get_intent db' i = Inr out"
    using assms(1) by (auto simp: transition_to_def then_do_eq_Inr)
  have "List.find (\<lambda>r. ti_id r = i) (db_intents db') =
      Some ((f cur)\<lparr>ti_state := st, ti_updated_at := now\<rparr>)"
    using u cur assms(2) by (simp add: update_intent_eq get_intent_eq find_update [where p = "\<lambda>r. ti_id r = i"])
  with g cur show ?thesis by (simp add: get_intent_eq)
qed

lemma mark_states:
  "mark_sent now i db = Inr (db', out) \<Longrightarrow> ti_state out = IS_SENT"
  "mark_mined now i b s db = Inr (db', out) \<Longrightarrow> ti_state out = (if s = 1 then IS_PENDING_MINED else IS_FAILED)"
  "mark_final now i b db = Inr (db', out) \<Longrightarrow> ti_state out = IS_FINALIZED"
  "mark_orphaned now i m db = Inr (db', out) \<Longrightarrow> ti_state out = IS_ORPHANED"
  unfolding mark_sent_def mark_mined_def mark_final_def mark_orphaned_def
  by (auto dest!: transition_to_result split: if_splits)

lemma canonical_receipt_sound:
  "canonical_receipt rpc hs = Some rc \<Longrightarrow> \<exists>h \<in> set hs. rpc_receipt rpc h = Some rc \<and>
     (\<exists>bh. rpc_block_hash rpc (rc_block_number rc) = Some bh \<and> str_lower bh = str_lower (rc_block_hash rc))"
  by (induction hs) (auto split: option.splits if_splits)

text \<open>C32: an intent is final only for a canonical success at depth. When \<open>reconcile\<close> turns a live intent
  FINALIZED, one of the hashes ever signed for its nonce has a receipt in the canonical block of its
  height, the receipt is not a revert, and the head is at least the configured depth above it; when it
  turns one FAILED, such a receipt reports a revert at that depth.\<close>

theorem final_needs_canonical_receipt:
  assumes "get_intent db i = Inr cur" and "ti_state cur \<in> set LIVE_STATES"
    and "reconcile now rpc signer cfg i db = Inr (db', out)" and "ti_state out \<in> {IS_FINALIZED, IS_FAILED}"
  shows "\<exists>h \<in> set (all_hashes db i). \<exists>rc bh. rpc_receipt rpc h = Some rc \<and>
    rpc_block_hash rpc (rc_block_number rc) = Some bh \<and> str_lower bh = str_lower (rc_block_hash rc) \<and>
    (if ti_state out = IS_FINALIZED then rc_status rc \<noteq> 0 else rc_status rc \<noteq> 1) \<and>
    (rc_status rc \<in> {0, 1} \<longrightarrow> dc_finality_depth cfg \<le> rpc_block_number rpc - rc_block_number rc + 1)"
proof -
  have live: "ti_state cur \<notin> {IS_FINALIZED, IS_FAILED}" using assms(2) by (auto simp: LIVE_STATES_def)
  obtain rc where rc: "canonical_receipt rpc (all_hashes db i) = Some rc"
  proof (cases "canonical_receipt rpc (all_hashes db i)")
    case None
    have "ti_state out \<notin> {IS_FINALIZED, IS_FAILED}"
      using assms(1-3) None live by (auto simp: reconcile_def split: if_splits dest: mark_states)
    with assms(4) show ?thesis by blast
  qed (rule that)
  let ?deep = "dc_finality_depth cfg \<le> rpc_block_number rpc - rc_block_number rc + 1"
  have body: "(if rc_status rc = 0 \<and> \<not> ?deep then Inr (db, cur)
      else then_do (if ti_state cur \<noteq> IS_PENDING_MINED then mark_mined now i (rc_block_number rc) (rc_status rc) db else Inr (db, cur))
        (\<lambda>(db, cur). if rc_status rc = 0 then Inr (db, cur)
          else if ?deep then mark_final now i (rpc_block_number rpc) db else Inr (db, cur))) = Inr (db', out)"
    using assms(1-3) rc by (simp add: reconcile_def Let_def not_le)
  have "(if ti_state out = IS_FINALIZED then rc_status rc \<noteq> 0 else rc_status rc \<noteq> 1) \<and>
    (rc_status rc \<in> {0, 1} \<longrightarrow> ?deep)"
  proof (cases "rc_status rc = 0")
    case True
    with body assms(4) live show ?thesis
      by (auto simp: then_do_eq_Inr split: if_splits dest: mark_states)
  next
    case False
    with body assms(4) live show ?thesis
      by (auto simp: then_do_eq_Inr split: if_splits dest!: mark_states)
  qed
  with canonical_receipt_sound [OF rc] show ?thesis by blast
qed

definition sample_node :: rpc_node where
  "sample_node = \<lparr>rpc_chain_id = 5, rpc_eth_call = \<lambda>_ _. True, rpc_estimate_gas = \<lambda>_ _. Some 30000, rpc_gas_price = Some 7,
     rpc_transaction_count = \<lambda>_. Some 3, rpc_send_raw = \<lambda>_. None,
     rpc_receipt = \<lambda>_. Some \<lparr>rc_block_number = 10, rc_block_hash = ''0xAB'', rc_status = 1\<rparr>,
     rpc_block_hash = \<lambda>_. Some ''0xab'', rpc_block_number = 40\<rparr>"

definition sample_config :: dispatcher_config where
  "sample_config = \<lparr>dc_chain_id = 5, dc_signer_role = KEEPER, dc_contracts = [], dc_max_gas = 3000000,
     dc_max_fee_per_gas = 100, dc_finality_depth = 12\<rparr>"

definition sample_mined_db :: tx_db where
  "sample_mined_db = sample_tx_db\<lparr>db_intents := [sample_intent\<lparr>ti_state := IS_PENDING_MINED, ti_finality_block := None\<rparr>]\<rparr>"

lemma sample_hashes: "all_hashes sample_mined_db ''T1'' = [''0x'' @ replicate 64 CHR ''d'']"
  by (simp add: all_hashes_def signed_records_def sample_mined_db_def sample_tx_db_def sample_audit_def record_hash_signing)

lemma sample_lower: "str_lower ''0xab'' = str_lower ''0xAB''"
  by code_simp

lemma sample_signer_lower: "str_lower (''0x'' @ replicate 40 CHR ''a'') = ''0x'' @ replicate 40 CHR ''a''"
  by (simp add: str_lower_def lower_char_def)

lemma sample_reconcile:
  "\<exists>db out. reconcile 50 sample_node (''0x'' @ replicate 40 CHR ''a'') sample_config ''T1'' sample_mined_db = Inr (db, out) \<and>
     ti_state out = IS_FINALIZED"
proof -
  let ?r = "sample_intent\<lparr>ti_state := IS_PENDING_MINED, ti_finality_block := None\<rparr>"
  have g: "get_intent sample_mined_db ''T1'' = Inr ?r"
    by (simp add: get_intent_def sample_mined_db_def sample_intent_def)
  have own: "owns sample_config (''0x'' @ replicate 40 CHR ''a'') ?r"
    unfolding owns_def sample_signer_lower by (simp add: sample_config_def sample_intent_def)
  have rc: "canonical_receipt sample_node (all_hashes sample_mined_db ''T1'') =
      Some \<lparr>rc_block_number = 10, rc_block_hash = ''0xAB'', rc_status = 1\<rparr>"
    unfolding sample_hashes using sample_lower by (simp add: sample_node_def)
  have "\<exists>db out. mark_final 50 ''T1'' 40 sample_mined_db = Inr (db, out)"
    using sample_intent_checks
    by (simp add: mark_final_def transition_to_def g update_intent_def write_intents_def ensure_def)
       (simp add: sample_mined_db_def sample_tx_db_def empty_tx_db_def update_where_def intents_ok_def unique_on_def
          intent_checks_def get_intent_def sample_intent_def)
  then obtain db out where m: "mark_final 50 ''T1'' 40 sample_mined_db = Inr (db, out)" by blast
  have "reconcile 50 sample_node (''0x'' @ replicate 40 CHR ''a'') sample_config ''T1'' sample_mined_db = Inr (db, out)"
    unfolding reconcile_def g then_do_Inr rc
    using own m by (simp add: LIVE_STATES_def sample_node_def sample_config_def)
  with mark_states(3) [OF m] show ?thesis by blast
qed

theorem final_needs_canonical_receipt_witness:
  "\<exists>h \<in> set (all_hashes sample_mined_db ''T1''). \<exists>rc. rpc_receipt sample_node h = Some rc \<and> rc_status rc = 1"
proof -
  let ?r = "sample_intent\<lparr>ti_state := IS_PENDING_MINED, ti_finality_block := None\<rparr>"
  have g: "get_intent sample_mined_db ''T1'' = Inr ?r"
    by (simp add: get_intent_def sample_mined_db_def sample_intent_def)
  have l: "ti_state ?r \<in> set LIVE_STATES" by (simp add: LIVE_STATES_def)
  obtain db out where "reconcile 50 sample_node (''0x'' @ replicate 40 CHR ''a'') sample_config ''T1'' sample_mined_db = Inr (db, out)"
    "ti_state out \<in> {IS_FINALIZED, IS_FAILED}" using sample_reconcile by auto
  from final_needs_canonical_receipt [OF g l this] show ?thesis by (auto simp: sample_node_def)
qed

text \<open>A transaction that was seen mined and then turns out reverted is never settled. If an intent is
  PENDING_MINED and the canonical receipt of its nonce reports a revert, also one buried at the finality
  depth, \<open>reconcile\<close> returns the intent as it is: it neither fails nor finalises it, so the action stays
  open for as long as the chain keeps that receipt.\<close>

theorem mined_then_reverted_stays_open:
  assumes "get_intent db i = Inr cur" and "owns cfg signer cur" and "ti_state cur = IS_PENDING_MINED"
    and "canonical_receipt rpc (all_hashes db i) = Some rc" and "rc_status rc = 0"
  shows "reconcile now rpc signer cfg i db = Inr (db, cur)"
  using assms by (simp add: reconcile_def LIVE_STATES_def Let_def)

definition sample_reverting :: rpc_node where
  "sample_reverting = sample_node\<lparr>rpc_receipt := \<lambda>_. Some \<lparr>rc_block_number = 10, rc_block_hash = ''0xAB'', rc_status = 0\<rparr>\<rparr>"

theorem mined_then_reverted_stays_open_witness:
  "\<exists>cur. ti_state cur = IS_PENDING_MINED \<and>
     reconcile 50 sample_reverting (''0x'' @ replicate 40 CHR ''a'') sample_config ''T1'' sample_mined_db = Inr (sample_mined_db, cur)"
proof -
  let ?r = "sample_intent\<lparr>ti_state := IS_PENDING_MINED, ti_finality_block := None\<rparr>"
  have g: "get_intent sample_mined_db ''T1'' = Inr ?r"
    by (simp add: get_intent_def sample_mined_db_def sample_intent_def)
  have own: "owns sample_config (''0x'' @ replicate 40 CHR ''a'') ?r"
    unfolding owns_def sample_signer_lower by (simp add: sample_config_def sample_intent_def)
  have rc: "canonical_receipt sample_reverting (all_hashes sample_mined_db ''T1'') =
      Some \<lparr>rc_block_number = 10, rc_block_hash = ''0xAB'', rc_status = 0\<rparr>"
    unfolding sample_hashes using sample_lower by (simp add: sample_node_def sample_reverting_def)
  from mined_then_reverted_stays_open [OF g own _ rc, of 50] show ?thesis by (intro exI [of _ ?r]) simp
qed

section \<open>A retried action\<close>

text \<open>The rows of a job after one row was rewritten, when no other row belongs to it.\<close>

lemma filter_update_one:
  assumes "unique_on key rows" and "r \<in> set rows" and "\<forall>q \<in> set rows. key q \<noteq> key r \<longrightarrow> \<not> P q" and "P (f r)"
  shows "filter P (update_where (\<lambda>q. key q = key r) f rows) = [f r]"
  using assms
proof (induction rows)
  case Nil
  then show ?case by simp
next
  case (Cons x rows)
  have u: "unique_on key rows" "key x \<notin> key ` set rows" using Cons.prems(1) by (auto simp: unique_on_def)
  show ?case
  proof (cases "x = r")
    case True
    then have "filter P (update_where (\<lambda>q. key q = key r) f rows) = []"
      using u(2) Cons.prems(3) by (auto simp: filter_empty_conv in_update_where image_iff split: if_splits) metis+
    with True Cons.prems(4) show ?thesis by (simp add: update_where_def)
  next
    case False
    with Cons.prems u have r: "r \<in> set rows" "key x \<noteq> key r" by (auto simp: image_iff)
    with Cons.IH [OF u(1) r(1)] Cons.prems(3,4) show ?thesis by (simp add: update_where_def)
  qed
qed

definition rows_of :: "tx_db \<Rightarrow> string \<Rightarrow> tx_intent list" where
  "rows_of db job = filter (\<lambda>r. ti_job_id r = Some job) (db_intents db)"

lemma latest_single: "rows_of db job = [r] \<Longrightarrow> latest_intent_of db job = Some r"
  by (simp add: latest_intent_of_def rows_of_def)

lemma latest_None: "latest_intent_of db job = None \<longleftrightarrow> rows_of db job = []"
proof -
  have "sort_key k xs = [] \<longleftrightarrow> xs = []" for k :: "tx_intent \<Rightarrow> int" and xs
    by (metis length_0_conv length_sort)
  then show ?thesis
    by (cases "rows_of db job = []") (auto simp: latest_intent_of_def rows_of_def split: list.split)
qed

lemma create_rows_of:
  assumes "tx_inv db" and "rows_of db job = []"
    and "create_intent sha now tid (Some job) chain signer nonce pn to_addr cd rep db = Inr (db', it)"
  shows "rows_of db' job = [it] \<and> ti_purpose it = pn \<and> ti_to it = str_lower to_addr \<and> ti_calldata_hash it = cd"
proof -
  have u: "unique_on ti_id (db_intents db)" by (rule tx_inv_unique [OF assms(1)])
  have none: "\<forall>q \<in> set (db_intents db). ti_job_id q \<noteq> Some job"
    using assms(2) by (auto simp: rows_of_def filter_empty_conv)
  show ?thesis
  proof (cases "List.find (\<lambda>r. ti_chain_id r = chain \<and> ti_signer r = str_lower signer \<and> ti_nonce r = nonce \<and>
             ti_state r = IS_FAILED \<and> ti_tx_hash r = None) (db_intents db)")
    case None
    let ?row = "\<lparr>ti_id = tid, ti_job_id = Some job, ti_chain_id = chain, ti_signer = str_lower signer,
             ti_nonce = nonce, ti_purpose = pn, ti_to = str_lower to_addr, ti_calldata_hash = cd,
             ti_tx_hash = None, ti_state = IS_PENDING, ti_replaces = rep, ti_mined_block = None,
             ti_finality_block = None, ti_last_error = None, ti_created_at = now, ti_updated_at = now\<rparr>"
    have ok: "intents_ok (db_jobs db) (db_intents db @ [?row])" and db': "db' = db\<lparr>db_intents := db_intents db @ [?row]\<rparr>"
      and g: "get_intent db' tid = Inr it"
      using assms(3) None by (auto simp: create_intent_def Let_def then_do_eq_Inr write_intents_def)
    have "List.find (\<lambda>r. ti_id r = ti_id ?row) (db_intents db @ [?row]) = Some ?row"
      using ok by (intro find_unique) (simp_all add: intents_ok_def)
    then have "it = ?row" using g by (simp add: db' get_intent_eq)
    then show ?thesis using none by (simp add: db' rows_of_def filter_empty_conv)
  next
    case (Some stale)
    have s: "stale \<in> set (db_intents db)" using find_Some_iff [OF Some] by auto
    let ?f = "\<lambda>r. r\<lparr>ti_job_id := Some job, ti_purpose := pn, ti_to := str_lower to_addr, ti_calldata_hash := cd,
       ti_state := IS_PENDING, ti_last_error := None, ti_replaces := rep, ti_updated_at := now\<rparr>"
    obtain db1 n bef aft where
      u1: "db1 = db\<lparr>db_intents := update_where (\<lambda>r. ti_id r = ti_id stale) ?f (db_intents db)\<rparr>"
      and a: "write_audit sha now ''dispatcher'' (role_value R_SYSTEM) ''TX_NONCE_REISSUED'' ''tx_intents'' (ti_id stale) bef aft (Some job) db1 = Inr (db', n)"
      and g: "get_intent db' (ti_id stale) = Inr it"
      using assms(3) Some unfolding create_intent_def by (clarsimp simp: then_do_eq_Inr update_intent_eq)
    from a obtain row where row: "db' = db1\<lparr>db_audit := db_audit db1 @ [row]\<rparr>" by (rule write_audit_rows)
    have "it = ?f stale"
      using g find_unique [OF u s] by (simp add: row u1 get_intent_eq find_update [where p = "\<lambda>r. ti_id r = ti_id stale"])
    moreover have "rows_of db' job = [?f stale]"
      unfolding rows_of_def row u1 using filter_update_one [OF u s, of "\<lambda>r. ti_job_id r = Some job" ?f] none by simp
    ultimately show ?thesis by simp
  qed
qed

lemma signed_rows_of:
  assumes "unique_on ti_id (db_intents db)" and "rows_of db job = [it]"
    and "record_signed sha now (ti_id it) h raw mf mp gas actor db = Inr (db', out)"
  shows "rows_of db' job = [out] \<and> ti_id out = ti_id it \<and> ti_purpose out = ti_purpose it \<and> ti_to out = ti_to it \<and>
    ti_calldata_hash out = ti_calldata_hash it \<and> ti_tx_hash out = Some h"
proof -
  let ?f = "\<lambda>r. r\<lparr>ti_tx_hash := Some h, ti_updated_at := now\<rparr>"
  have it: "it \<in> set (db_intents db)" "ti_job_id it = Some job"
    using assms(2) by (auto simp: rows_of_def filter_eq_Cons_iff)
  have others: "\<forall>q \<in> set (db_intents db). ti_id q \<noteq> ti_id it \<longrightarrow> ti_job_id q \<noteq> Some job"
  proof (intro ballI impI notI)
    fix q assume "q \<in> set (db_intents db)" "ti_id q \<noteq> ti_id it" "ti_job_id q = Some job"
    then have "q \<in> set (rows_of db job)" by (simp add: rows_of_def)
    with assms(2) \<open>ti_id q \<noteq> ti_id it\<close> show False by simp
  qed
  obtain db1 n aft corr where
    u1: "db1 = db\<lparr>db_intents := update_where (\<lambda>r. ti_id r = ti_id it) ?f (db_intents db)\<rparr>"
    and a: "write_audit sha now actor (role_value R_SYSTEM) ''TX_SIGNED'' ''tx_intents'' (ti_id it) None aft corr db1 = Inr (db', n)"
    and g: "get_intent db' (ti_id it) = Inr out"
    using assms(3) unfolding record_signed_def by (clarsimp simp: then_do_eq_Inr update_intent_eq)
  from a obtain row where row: "db' = db1\<lparr>db_audit := db_audit db1 @ [row]\<rparr>" by (rule write_audit_rows)
  have "out = ?f it"
    using g find_unique [OF assms(1) it(1)] by (simp add: row u1 get_intent_eq find_update [where p = "\<lambda>r. ti_id r = ti_id it"])
  moreover have "rows_of db' job = [?f it]"
    unfolding rows_of_def row u1 using filter_update_one [OF assms(1) it(1), of "\<lambda>r. ti_job_id r = Some job" ?f] others it(2) by simp
  ultimately show ?thesis by simp
qed

text \<open>C24: a retried action gets the same transaction. After \<open>prepare\<close> has returned once for a job, calling it
  again with the same purpose and calldata, at any later time and whatever the node then answers, returns
  the same intent, with the same nonce and the same signed hash, and changes nothing in the database.\<close>

theorem retry_reuses_transaction:
  assumes "tx_inv db" and "prepare sha now tid rpc sign signer cfg job pn cd db = Inr (db', it)"
  shows "\<exists>it'. prepare sha now2 tid2 rpc2 sign2 signer cfg job pn cd db' = Inr (db', it') \<and> ti_id it' = ti_id it \<and>
    ti_nonce it' = ti_nonce it \<and> ti_tx_hash it' = ti_tx_hash it"
proof -
  obtain p to0 where p: "resolve_purpose pn (dc_signer_role cfg) cd = Inr p" "map_of (dc_contracts cfg) (p_contract_role p) = Some to0" "to0 \<noteq> []"
    using assms(2) by (auto simp: prepare_def then_do_eq_Inr split: option.splits)
  have "latest_intent_of db' job = Some it \<and> ti_purpose it = pn \<and> ti_to it = str_lower to0 \<and> ti_calldata_hash it = keccak_hex cd"
  proof (cases "latest_intent_of db job")
    case (Some ex)
    with assms(2) p show ?thesis by (auto simp: prepare_def)
  next
    case None
    then obtain nonce gas price db1 it1 where
      c: "create_intent sha now tid (Some job) (dc_chain_id cfg) signer nonce pn (str_lower to0) (keccak_hex cd) None db = Inr (db1, it1)"
      and s: "record_signed sha now (ti_id it1) (keccak_hex (sign (dc_chain_id cfg) nonce (str_lower to0) cd gas price))
         (''0x'' @ hex_of_bytes (sign (dc_chain_id cfg) nonce (str_lower to0) cd gas price)) price 0 gas ''dispatcher'' db1 = Inr (db', it)"
      using assms(2) p unfolding prepare_def by (auto simp: then_do_eq_Inr Let_def)
    have rows: "rows_of db1 job = [it1] \<and> ti_purpose it1 = pn \<and> ti_to it1 = str_lower (str_lower to0) \<and> ti_calldata_hash it1 = keccak_hex cd"
      using create_rows_of [OF assms(1) _ c] None by (simp add: latest_None)
    have "unique_on ti_id (db_intents db1)"
      by (rule tx_inv_unique [OF tx_step_inv [OF t_create [OF c] assms(1)]])
    from signed_rows_of [OF this _ s, of job] rows show ?thesis by (auto simp: latest_single)
  qed
  then have "prepare sha now2 tid2 rpc2 sign2 signer cfg job pn cd db' = Inr (db', it)"
    using p by (simp add: prepare_def)
  then show ?thesis by blast
qed

lemma keccak_hex32: "is_hex32 (keccak_hex d)"
proof -
  have d: "is_hex_low (hex_digit n)" if "n < 16" for n
    using that by (simp add: is_hex_low_def hex_digit_def of_char_of Let_def)
  have "length (hex_of_bytes bs) = 2 * length bs \<and> list_all is_hex_low (hex_of_bytes bs)" for bs
    by (induction bs) (simp_all add: hex_of_bytes_def d)
  then show ?thesis by (simp add: is_hex32_def keccak_hex_def)
qed

definition sample_treasury :: dispatcher_config where
  "sample_treasury = sample_config\<lparr>dc_signer_role := TREASURY, dc_contracts := [(''revenue_escrow'', ''0x'' @ replicate 40 CHR ''b'')]\<rparr>"

definition sample_open_db :: tx_db where
  "sample_open_db = empty_tx_db\<lparr>db_jobs := [sample_job]\<rparr>"

lemma sample_prepare:
  "\<exists>db it. prepare id 50 ''T9'' sample_node (\<lambda>_ _ _ _ _ _. [1]) (''0x'' @ replicate 40 CHR ''a'') sample_treasury ''J1''
     ''escrow.sweep'' (call_of ''sweep(uint64)'') sample_open_db = Inr (db, it)"
proof -
  let ?p = "mk_purpose ''escrow.sweep'' ''revenue_escrow'' ''sweep(uint64)'' TREASURY"
  have r: "resolve_purpose ''escrow.sweep'' TREASURY (call_of ''sweep(uint64)'') = Inr ?p"
    using resolve_call_of [OF find_sweep refl] by simp
  have low: "str_lower (''0x'' @ replicate 40 CHR ''b'') = ''0x'' @ replicate 40 CHR ''b''"
    by (simp add: str_lower_def lower_char_def)
  let ?row = "\<lparr>ti_id = ''T9'', ti_job_id = Some ''J1'', ti_chain_id = 5, ti_signer = ''0x'' @ replicate 40 CHR ''a'',
     ti_nonce = 3, ti_purpose = ''escrow.sweep'', ti_to = ''0x'' @ replicate 40 CHR ''b'',
     ti_calldata_hash = keccak_hex (call_of ''sweep(uint64)''), ti_tx_hash = None, ti_state = IS_PENDING, ti_replaces = None,
     ti_mined_block = None, ti_finality_block = None, ti_last_error = None, ti_created_at = 50, ti_updated_at = 50\<rparr>"
  have hex: "is_addr (''0x'' @ replicate 40 CHR ''a'')" "is_addr (''0x'' @ replicate 40 CHR ''b'')"
    by (simp_all add: is_addr_def is_hex_low_def list_all_iff)
  let ?db = "sample_open_db\<lparr>db_intents := [?row]\<rparr>"
  have c: "create_intent id 50 ''T9'' (Some ''J1'') 5 (''0x'' @ replicate 40 CHR ''a'') 3 ''escrow.sweep''
      (''0x'' @ replicate 40 CHR ''b'') (keccak_hex (call_of ''sweep(uint64)'')) None sample_open_db = Inr (?db, ?row)"
    unfolding create_intent_def low sample_signer_lower using hex keccak_hex32
    by (simp add: sample_open_db_def empty_tx_db_def write_intents_def intents_ok_def intent_checks_def
        unique_on_def sample_job_def has_key_def get_intent_def Let_def)
  have g: "get_intent (db\<lparr>db_intents := [x]\<rparr>) (ti_id x) = Inr x" for db :: tx_db and x by (simp add: get_intent_def)
  have "\<exists>db it. record_signed id 50 ''T9'' (keccak_hex [1]) raw a b c d ?db = Inr (db, it)" for raw a b c d
    using hex keccak_hex32
    by (simp add: record_signed_def get_intent_def update_intent_def update_where_def write_intents_def intents_ok_def
        intent_checks_def unique_on_def sample_open_db_def empty_tx_db_def sample_job_def has_key_def write_audit_def Let_def
        role_values_def)
  then show ?thesis
    unfolding prepare_def using r c low
    by (simp add: sample_treasury_def sample_config_def latest_intent_of_def sample_open_db_def empty_tx_db_def sample_node_def
        or_raise_def allocate_nonce_def highest_holding_nonce_def Let_def)
qed

theorem retry_reuses_transaction_witness:
  "\<exists>db it it'. prepare id 50 ''T9'' sample_node (\<lambda>_ _ _ _ _ _. [1]) (''0x'' @ replicate 40 CHR ''a'') sample_treasury ''J1''
     ''escrow.sweep'' (call_of ''sweep(uint64)'') sample_open_db = Inr (db, it) \<and>
   prepare id 90 ''T10'' sample_reverting (\<lambda>_ _ _ _ _ _. [2]) (''0x'' @ replicate 40 CHR ''a'') sample_treasury
     ''J1'' ''escrow.sweep'' (call_of ''sweep(uint64)'') db = Inr (db, it') \<and> ti_tx_hash it' = ti_tx_hash it"
proof -
  have i: "tx_inv sample_open_db" by (simp add: tx_inv_def sample_open_db_def empty_tx_db_def intents_ok_def unique_on_def)
  obtain db it where p: "prepare id 50 ''T9'' sample_node (\<lambda>_ _ _ _ _ _. [1]) (''0x'' @ replicate 40 CHR ''a'') sample_treasury ''J1''
     ''escrow.sweep'' (call_of ''sweep(uint64)'') sample_open_db = Inr (db, it)" using sample_prepare by blast
  from retry_reuses_transaction [OF i p, of 90 "''T10''" sample_reverting "\<lambda>_ _ _ _ _ _. [2]"] p show ?thesis
    by (elim exE conjE) (intro exI conjI)
qed

end
