(* ===== verification/Receivables.thy ===== *)
theory Receivables
  imports Outbox Proof_Lifecycle
begin

text \<open>
  Observed obligations (\<open>receivables/service.py\<close>) over the tables of \<open>db/models.py\<close> and
  \<open>db/ledgers.py\<close>: recording an obligation, applying a revision, opening exception cases and the
  read-only eligibility report, with the constraints of the tables and the trigger on
  \<open>receivable_revisions\<close>. A raise rolls the caller's transaction back, so an error carries no state.
  Rows hold the columns the service reads or writes.
\<close>

section \<open>Rows\<close>

record provider_row =
  pv_id :: string
  pv_source_env_id :: string
  pv_source_chain_key :: int
  pv_source_chain_id :: int
  pv_profile :: execution_profile
  pv_environment_status :: environment_status
  pv_manifest_hash :: "string option"
  pv_capabilities :: json

record account_row =
  ac_id :: string
  ac_provider_id :: string
  ac_external_id :: string
  ac_borrower_id :: string

record observation_row =
  ob_id :: string
  ob_provider_id :: string
  ob_origin :: string
  ob_payload_hash :: string
  ob_trust :: trust

record policy_row =
  po_id :: string
  po_test_only :: bool

record control_row =
  ca_id :: string
  ca_borrower_id :: string
  ca_account_id :: string
  ca_grade :: control_grade
  ca_version :: int
  ca_effective_from :: "int option"
  ca_effective_to :: "int option"

record facility_row =
  fa_id :: string
  fa_borrower_id :: string
  fa_policy_id :: string
  fa_profile :: execution_profile
  fa_maturity_at :: "int option"
  fa_control_id :: "string option"
  fa_funded_version :: "int option"
  fa_vault_id :: string
  fa_loan_chain_id :: int
  fa_loan_token :: "string option"
  fa_loan_decimals :: int

datatype decision_status = DS_DRAFT | DS_APPROVED | DS_EXPIRED | DS_REVOKED

record decision_row =
  cd_id :: string
  cd_facility_id :: string
  cd_limit :: int
  cd_status :: decision_status

record receivable_row =
  rv_id :: string
  rv_economic_id :: string
  rv_account_id :: string
  rv_ref :: string
  rv_chain_id :: int
  rv_token :: "string option"
  rv_decimals :: int
  rv_gross :: int
  rv_net :: int
  rv_paid :: int
  rv_unpaid :: int
  rv_state :: receivable_state
  rv_revision :: int
  rv_facility_id :: "string option"
  rv_checkpoint_seq :: "int option"
  rv_checkpoint_id :: "string option"
  rv_period_from :: "int option"
  rv_period_to :: "int option"
  rv_due_at :: "int option"
  rv_disputed_reason :: "string option"
  rv_profile :: execution_profile

definition receivable_checks :: "receivable_row \<Rightarrow> bool" where
  "receivable_checks r \<longleftrightarrow> 0 < rv_chain_id r \<and> 0 \<le> rv_decimals r \<and> rv_decimals r \<le> 36 \<and>
     0 \<le> rv_gross r \<and> 0 \<le> rv_net r \<and> 0 \<le> rv_paid r \<and> 0 \<le> rv_unpaid r \<and>
     rv_net r \<le> rv_gross r \<and> rv_paid r \<le> rv_net r \<and> rv_unpaid r = rv_net r - rv_paid r \<and>
     1 \<le> rv_revision r \<and> (rv_state r = RS_ASSIGNED \<longrightarrow> rv_facility_id r \<noteq> None) \<and>
     (rv_state r = RS_PAID \<longrightarrow> rv_unpaid r = 0) \<and>
     (rv_state r = RS_DISPUTED \<longrightarrow> rv_disputed_reason r \<noteq> None)"

definition receivables_ok :: "receivable_row list \<Rightarrow> bool" where
  "receivables_ok rows \<longleftrightarrow> list_all receivable_checks rows \<and> unique_on rv_id rows \<and>
     unique_on rv_economic_id rows \<and> unique_on (\<lambda>r. (rv_account_id r, rv_ref r)) rows"

datatype revision_kind =
  RK_RECOGNIZED | RK_CORRECTION | RK_ASSIGNMENT | RK_PAYOUT | RK_CANCELLATION | RK_DISPUTE | RK_CHECKPOINT

record revision_row =
  rr_receivable_id :: string
  rr_revision :: int
  rr_kind :: revision_kind
  rr_observation_id :: "string option"
  rr_delta :: int
  rr_net_after :: int
  rr_unpaid_after :: int
  rr_out_of_order :: bool

definition revision_checks :: "revision_row \<Rightarrow> bool" where
  "revision_checks r \<longleftrightarrow> 1 \<le> rr_revision r \<and> 0 \<le> rr_net_after r \<and> 0 \<le> rr_unpaid_after r \<and>
     rr_observation_id r \<noteq> None"

definition revision_key :: "revision_row \<Rightarrow> string \<times> int \<times> revision_kind" where
  "revision_key r = (rr_receivable_id r, rr_revision r, rr_kind r)"

record exception_row =
  ex_id :: string
  ex_kind :: string
  ex_severity :: string
  ex_table :: string
  ex_entity :: string
  ex_detail :: json
  ex_opened_at :: int
  ex_resolved_at :: "int option"

record rcv_db = proof_db +
  db_providers :: "provider_row list"
  db_accounts :: "account_row list"
  db_observations :: "observation_row list"
  db_policies :: "policy_row list"
  db_controls :: "control_row list"
  db_facilities :: "facility_row list"
  db_decisions :: "decision_row list"
  db_receivables :: "receivable_row list"
  db_revisions :: "revision_row list"
  db_exceptions :: "exception_row list"

section \<open>Statements\<close>

definition write_receivables :: "receivable_row list \<Rightarrow> rcv_db \<Rightarrow> app_error + rcv_db" where
  "write_receivables rows db =
    ensure (receivables_ok rows) (IntegrityError ''receivables'') (Inr (db\<lparr>db_receivables := rows\<rparr>))"

text \<open>The trigger on \<open>receivable_revisions\<close>: a revision that is not out of order is above the latest one and
  becomes the revision of its receivable.\<close>

definition latest_revision :: "rcv_db \<Rightarrow> string \<Rightarrow> int option" where
  "latest_revision db rid =
    (let ns = map rr_revision (filter (\<lambda>r. rr_receivable_id r = rid \<and> \<not> rr_out_of_order r) (db_revisions db))
     in if ns = [] then None else Some (foldl max (hd ns) ns))"

definition hcg_receivable_revisions_monotonic :: "revision_row \<Rightarrow> rcv_db \<Rightarrow> app_error + rcv_db" where
  "hcg_receivable_revisions_monotonic new db =
    (if rr_out_of_order new then Inr db
     else ensure (case latest_revision db (rr_receivable_id new) of None \<Rightarrow> True | Some l \<Rightarrow> l < rr_revision new)
       (CheckViolation ''revision is not after latest'')
       (Inr (db\<lparr>db_receivables := update_where (\<lambda>r. rv_id r = rr_receivable_id new \<and> rv_revision r < rr_revision new)
          (\<lambda>r. r\<lparr>rv_revision := rr_revision new\<rparr>) (db_receivables db)\<rparr>)))"

definition insert_revision :: "revision_row \<Rightarrow> rcv_db \<Rightarrow> app_error + rcv_db" where
  "insert_revision new db =
    then_do (hcg_receivable_revisions_monotonic new db) (\<lambda>db.
    ensure (revision_checks new) (IntegrityError ''ck_receivable_revisions'')
    (ensure (\<not> has_key revision_key (db_revisions db) (revision_key new)) (IntegrityError ''uq_receivable_revisions_rev'')
    (ensure (has_key rv_id (db_receivables db) (rr_receivable_id new) \<and>
        (case rr_observation_id new of None \<Rightarrow> True | Some oid \<Rightarrow> has_key ob_id (db_observations db) oid))
        (IntegrityError ''fk_receivable_revisions'')
      (Inr (db\<lparr>db_revisions := db_revisions db @ [new]\<rparr>)))))"

section \<open>Inputs and results\<close>

datatype revenue_kind =
  VK_OPERATING_RECEIVABLE | VK_SELF_TRANSFER | VK_INCENTIVE | VK_REFUND | VK_BORROWING | VK_FUTURE_REVENUE | VK_UNKNOWN

fun revenue_kind_value :: "revenue_kind \<Rightarrow> string" where
  "revenue_kind_value VK_OPERATING_RECEIVABLE = ''OPERATING_RECEIVABLE''"
| "revenue_kind_value VK_SELF_TRANSFER = ''SELF_TRANSFER''"
| "revenue_kind_value VK_INCENTIVE = ''INCENTIVE''"
| "revenue_kind_value VK_REFUND = ''REFUND''"
| "revenue_kind_value VK_BORROWING = ''BORROWING''"
| "revenue_kind_value VK_FUTURE_REVENUE = ''FUTURE_REVENUE''"
| "revenue_kind_value VK_UNKNOWN = ''UNKNOWN''"

text \<open>A Python \<open>datetime\<close>, with a time zone or without.\<close>

datatype py_datetime = Aware int | Naive int

definition exact_units :: "int \<Rightarrow> string \<Rightarrow> bool \<Rightarrow> app_error + int" where
  "exact_units v name signed =
    (if (\<not> signed \<and> v < 0) \<or> 10 ^ 78 \<le> abs v
     then Inl (ValueError (name @ '' must be exact integer base units'')) else Inr v)"

fun aware :: "py_datetime \<Rightarrow> string \<Rightarrow> app_error + int" where
  "aware (Aware t) name = Inr t"
| "aware (Naive t) name = Inl (ValueError (name @ '' must be timezone-aware''))"

record obligation_input =
  oi_receivable_id :: string
  oi_account_id :: string
  oi_ref :: string
  oi_observation_id :: string
  oi_asset :: asset_ref
  oi_gross :: int
  oi_net :: int
  oi_paid :: int
  oi_revision :: int
  oi_kind :: revenue_kind
  oi_period_from :: py_datetime
  oi_period_to :: py_datetime
  oi_due_at :: py_datetime
  oi_profile :: execution_profile

record receivable_result =
  rs_receivable_id :: "string option"
  rs_created :: bool
  rs_applied :: bool
  rs_reason :: "string option"

text \<open>\<open>uid\<close> stands for \<open>uuid4\<close>: the identifier of the n-th case that is opened.\<close>

definition open_exception ::
  "(nat \<Rightarrow> string) \<Rightarrow> int \<Rightarrow> string \<Rightarrow> string \<Rightarrow> string \<Rightarrow> json \<Rightarrow> 'z rcv_db_scheme \<Rightarrow> app_error + 'z rcv_db_scheme" where
  "open_exception uid now code table entity detail db =
    (if \<exists>x \<in> set (db_exceptions db). ex_kind x = code \<and> ex_table x = table \<and> ex_entity x = entity \<and> ex_resolved_at x = None
     then Inr db
     else let i = uid (length (db_exceptions db))
       in ensure (\<not> has_key ex_id (db_exceptions db) i) (IntegrityError ''exceptions_pkey'')
          (Inr (db\<lparr>db_exceptions := db_exceptions db @
             [\<lparr>ex_id = i, ex_kind = code, ex_severity = ''BLOCKING'', ex_table = table, ex_entity = entity,
               ex_detail = detail, ex_opened_at = now, ex_resolved_at = None\<rparr>]\<rparr>)))"

definition source_of ::
  "rcv_db \<Rightarrow> string \<Rightarrow> string \<Rightarrow> execution_profile \<Rightarrow> app_error + (account_row \<times> provider_row)" where
  "source_of db account_id observation_id profile =
    (case List.find (\<lambda>a. ac_id a = account_id) (db_accounts db) of
       None \<Rightarrow> Inl (ValueError ''unknown provider account'')
     | Some account \<Rightarrow>
       (case List.find (\<lambda>p. pv_id p = ac_provider_id account) (db_providers db) of
          None \<Rightarrow> Inl (OtherError ''AttributeError'')
        | Some provider \<Rightarrow>
          ensure (pv_profile provider = profile) (ValueError ''execution profile mismatch'')
          (case List.find (\<lambda>b. ob_id b = observation_id) (db_observations db) of
             None \<Rightarrow> Inl (ValueError ''observation provider mismatch'')
           | Some observation \<Rightarrow>
             ensure (ob_provider_id observation = ac_provider_id account) (ValueError ''observation provider mismatch'')
               (Inr (account, provider)))))"

definition trace_event :: "int \<Rightarrow> receivable_row \<Rightarrow> string \<Rightarrow> string \<Rightarrow> rcv_db \<Rightarrow> app_error + rcv_db" where
  "trace_event now row observation_id action db =
    then_do (emit now ''receivable'' (rv_id row) action
      (JObj [(''receivableId'', JStr (rv_id row)), (''economicEventId'', JStr (rv_economic_id row)),
        (''observationId'', JStr observation_id), (''revision'', JInt (rv_revision row)),
        (''net'', JStr (str_int (rv_net row))), (''paid'', JStr (str_int (rv_paid row))),
        (''unpaid'', JStr (str_int (rv_unpaid row))),
        (''executionProfile'', JStr (execution_profile_value (rv_profile row))),
        (''trust'', JStr ''ASSERTED''), (''creditApproved'', JBool False)])
      (''receivable:'' @ rv_id row @ '':'' @ observation_id) db) (\<lambda>(db, _). Inr db)"

section \<open>Operations\<close>

definition conflict_result :: "string \<Rightarrow> string \<Rightarrow> receivable_result" where
  "conflict_result rid reason = \<lparr>rs_receivable_id = Some rid, rs_created = False, rs_applied = False, rs_reason = Some reason\<rparr>"

text \<open>The observation repeats what the row holds.\<close>

definition same_obligation :: "receivable_row \<Rightarrow> obligation_input \<Rightarrow> int \<Rightarrow> int \<Rightarrow> int \<Rightarrow> bool" where
  "same_obligation row c pf pto due \<longleftrightarrow> rv_revision row = oi_revision c \<and> rv_gross row = oi_gross c \<and>
     rv_net row = oi_net c \<and> rv_paid row = oi_paid c \<and> rv_chain_id row = as_chain_id (oi_asset c) \<and>
     rv_token row = as_address (oi_asset c) \<and> rv_decimals row = as_decimals (oi_asset c) \<and>
     rv_period_from row = Some pf \<and> rv_period_to row = Some pto \<and> rv_due_at row = Some due \<and> rv_profile row = oi_profile c"

definition new_receivable :: "obligation_input \<Rightarrow> account_row \<Rightarrow> provider_row \<Rightarrow> int \<Rightarrow> int \<Rightarrow> int \<Rightarrow> receivable_row" where
  "new_receivable c account provider pf pto due =
    \<lparr>rv_id = oi_receivable_id c,
     rv_economic_id = pv_id provider @ ''/'' @ ac_external_id account @ ''/OBLIGATION/'' @ oi_ref c,
     rv_account_id = ac_id account, rv_ref = oi_ref c, rv_chain_id = as_chain_id (oi_asset c),
     rv_token = as_address (oi_asset c), rv_decimals = as_decimals (oi_asset c), rv_gross = oi_gross c,
     rv_net = oi_net c, rv_paid = oi_paid c, rv_unpaid = oi_net c - oi_paid c,
     rv_state = (if oi_net c = oi_paid c then RS_PAID else RS_RECOGNIZED), rv_revision = oi_revision c,
     rv_facility_id = None, rv_checkpoint_seq = None, rv_checkpoint_id = None, rv_period_from = Some pf,
     rv_period_to = Some pto, rv_due_at = Some due, rv_disputed_reason = None, rv_profile = oi_profile c\<rparr>"

definition overlaps_period :: "receivable_row \<Rightarrow> receivable_row \<Rightarrow> bool" where
  "overlaps_period row other \<longleftrightarrow> rv_account_id other = rv_account_id row \<and> rv_id other \<noteq> rv_id row \<and>
     (case (rv_period_from other, rv_period_to other, rv_period_from row, rv_period_to row) of
        (Some ofrom, Some oto, Some rfrom, Some rto) \<Rightarrow> ofrom < rto \<and> rfrom < oto | _ \<Rightarrow> False) \<and>
     rv_state other \<notin> {RS_CANCELLED, RS_WRITTEN_OFF}"

fun open_overlaps ::
  "(nat \<Rightarrow> string) \<Rightarrow> int \<Rightarrow> receivable_row \<Rightarrow> receivable_row list \<Rightarrow> rcv_db \<Rightarrow> app_error + rcv_db" where
  "open_overlaps uid now row [] db = Inr db"
| "open_overlaps uid now row (other # rest) db =
     then_do (open_exception uid now ''PERIOD_OVERLAP_REVIEW'' ''receivables'' (rv_id other)
        (JObj [(''otherReceivableId'', JStr (rv_id row))]) db) (\<lambda>db.
     then_do (open_exception uid now ''PERIOD_OVERLAP_REVIEW'' ''receivables'' (rv_id row)
        (JObj [(''otherReceivableId'', JStr (rv_id other))]) db) (open_overlaps uid now row rest))"

text \<open>The checks \<open>record_obligation\<close> makes before it reads the database; they give the three instants.\<close>

definition check_obligation :: "obligation_input \<Rightarrow> py_datetime \<Rightarrow> app_error + (int \<times> int \<times> int \<times> int)" where
  "check_obligation c as_of =
    then_do (aware as_of ''as_of'') (\<lambda>now.
    then_do (aware (oi_period_from c) ''period_from'') (\<lambda>pf.
    then_do (aware (oi_period_to c) ''period_to'') (\<lambda>pto.
    then_do (aware (oi_due_at c) ''due_at'') (\<lambda>due.
    then_do (exact_units (oi_gross c) ''gross'' False) (\<lambda>_.
    then_do (exact_units (oi_net c) ''net'' False) (\<lambda>_.
    then_do (exact_units (oi_paid c) ''paid_amount'' False) (\<lambda>_.
    then_do (exact_units (oi_revision c) ''revision'' False) (\<lambda>_.
    ensure (1 \<le> oi_revision c \<and> 0 \<le> oi_paid c \<and> oi_paid c \<le> oi_net c \<and> oi_net c \<le> oi_gross c)
      (ValueError ''invalid revision or gross/net/paid relationship'')
    (ensure (oi_ref c \<noteq> [] \<and> CHR ''/'' \<notin> set (oi_ref c) \<and> length (oi_ref c) \<le> 128)
      (ValueError ''obligation reference must be stable, nonempty and unambiguous'')
    (ensure (pf < pto \<and> pto \<le> due) (ValueError ''invalid service period or due date'')
      (Inr (now, pf, pto, due))))))))))))"

text \<open>The branch that inserts: row, first revision, overlaps, event.\<close>

definition insert_obligation ::
  "(nat \<Rightarrow> string) \<Rightarrow> int \<Rightarrow> obligation_input \<Rightarrow> receivable_row \<Rightarrow> rcv_db \<Rightarrow> app_error + (rcv_db \<times> receivable_result)" where
  "insert_obligation uid clock c row db =
    then_do (write_receivables (db_receivables db @ [row]) db) (\<lambda>db.
    then_do (insert_revision \<lparr>rr_receivable_id = rv_id row, rr_revision = rv_revision row, rr_kind = RK_RECOGNIZED,
        rr_observation_id = Some (oi_observation_id c), rr_delta = oi_net c, rr_net_after = rv_net row,
        rr_unpaid_after = rv_unpaid row, rr_out_of_order = False\<rparr> db) (\<lambda>db.
    then_do (open_overlaps uid clock row (filter (overlaps_period row) (db_receivables db)) db) (\<lambda>db.
    then_do (trace_event clock row (oi_observation_id c) ''RECEIVABLE_OBSERVED'' db) (\<lambda>db.
      Inr (db, \<lparr>rs_receivable_id = Some (rv_id row), rs_created = True, rs_applied = True, rs_reason = None\<rparr>)))))"

definition record_obligation ::
  "(nat \<Rightarrow> string) \<Rightarrow> int \<Rightarrow> obligation_input \<Rightarrow> py_datetime \<Rightarrow> rcv_db \<Rightarrow> app_error + (rcv_db \<times> receivable_result)" where
  "record_obligation uid clock c as_of db =
    then_do (check_obligation c as_of) (\<lambda>(now, pf, pto, due).
    then_do (source_of db (oi_account_id c) (oi_observation_id c) (oi_profile c)) (\<lambda>(account, provider).
    ensure (as_chain_id (oi_asset c) = pv_source_chain_id provider) (ValueError ''source chain does not match provider'')
    (if oi_kind c \<noteq> VK_OPERATING_RECEIVABLE \<or> now < pto
     then let reason = (if now < pto then ''FUTURE_REVENUE'' else ''NON_OPERATING:'' @ revenue_kind_value (oi_kind c))
       in then_do (open_exception uid clock ''REVENUE_INELIGIBLE'' ''raw_source_observations'' (oi_observation_id c)
            (JObj [(''reason'', JStr reason)]) db) (\<lambda>db.
          Inr (db, \<lparr>rs_receivable_id = None, rs_created = False, rs_applied = False, rs_reason = Some reason\<rparr>))
     else case List.find (\<lambda>r. rv_account_id r = ac_id account \<and> rv_ref r = oi_ref c) (db_receivables db) of
       Some row \<Rightarrow>
         if same_obligation row c pf pto due
         then then_do (trace_event clock row (oi_observation_id c) ''RECEIVABLE_OBSERVATION_MERGED'' db) (\<lambda>db.
           Inr (db, conflict_result (rv_id row) ''DUPLICATE_OBSERVATION''))
         else let reason = (if oi_revision c \<noteq> rv_revision row then ''REVISION_REQUIRES_DELTA'' else ''AMOUNT_OR_BINDING_CONFLICT'')
           in then_do (open_exception uid clock reason ''receivables'' (rv_id row)
                (JObj [(''observationId'', JStr (oi_observation_id c))]) db) (\<lambda>db.
              Inr (db, conflict_result (rv_id row) reason))
     | None \<Rightarrow> insert_obligation uid clock c (new_receivable c account provider pf pto due) db)))"

fun applied_kind :: "string \<Rightarrow> revision_kind option" where
  "applied_kind k = (if k = ''CORRECTION'' then Some RK_CORRECTION else if k = ''PAYOUT'' then Some RK_PAYOUT
     else if k = ''CANCELLATION'' then Some RK_CANCELLATION else None)"

definition revised_amounts :: "revision_kind \<Rightarrow> int \<Rightarrow> receivable_row \<Rightarrow> int \<times> int" where
  "revised_amounts k delta row =
    (if k = RK_CORRECTION then (rv_net row + delta, rv_paid row)
     else if k = RK_PAYOUT then (rv_net row, rv_paid row + delta)
     else (rv_net row, rv_paid row - delta))"

definition revised_state :: "int \<Rightarrow> int \<Rightarrow> receivable_row \<Rightarrow> receivable_state" where
  "revised_state net paid row =
    (if paid = net then RS_PAID else if paid \<noteq> 0 then RS_PARTIALLY_PAID
     else if rv_facility_id row \<noteq> None then RS_ASSIGNED else RS_RECOGNIZED)"

definition revoke_decisions :: "string option \<Rightarrow> rcv_db \<Rightarrow> rcv_db" where
  "revoke_decisions fac db = (case fac of None \<Rightarrow> db
    | Some f \<Rightarrow> db\<lparr>db_decisions := update_where (\<lambda>d. cd_facility_id d = f \<and> cd_status d \<in> {DS_DRAFT, DS_APPROVED})
         (\<lambda>d. d\<lparr>cd_status := DS_REVOKED\<rparr>) (db_decisions db)\<rparr>)"

text \<open>The branch that applies the next revision in order.\<close>

definition apply_in_order ::
  "(nat \<Rightarrow> string) \<Rightarrow> int \<Rightarrow> receivable_row \<Rightarrow> string \<Rightarrow> int \<Rightarrow> revision_kind \<Rightarrow> int \<Rightarrow> rcv_db \<Rightarrow> app_error + (rcv_db \<times> receivable_result)" where
  "apply_in_order uid clock row oid revn k delta db =
    ensure (rv_state row \<notin> {RS_CANCELLED, RS_WRITTEN_OFF, RS_DISPUTED})
      (ValueError ''inactive/disputed receivable requires reviewed resolution'')
    (let (net, paid) = revised_amounts k delta row
     in if \<not> (0 \<le> paid \<and> paid \<le> net \<and> net \<le> rv_gross row)
        then then_do (open_exception uid clock ''REVISION_BALANCE_CONFLICT'' ''receivables'' (rv_id row)
            (JObj [(''observationId'', JStr oid)]) db) (\<lambda>db. Inr (db, conflict_result (rv_id row) ''REVISION_BALANCE_CONFLICT''))
        else let row' = row\<lparr>rv_net := net, rv_paid := paid, rv_unpaid := net - paid, rv_revision := revn,
                   rv_state := revised_state net paid row, rv_checkpoint_seq := None, rv_checkpoint_id := None\<rparr>
          in then_do (write_receivables (update_where (\<lambda>r. rv_id r = rv_id row) (\<lambda>_. row') (db_receivables db)) db) (\<lambda>db.
             then_do (insert_revision \<lparr>rr_receivable_id = rv_id row, rr_revision = revn, rr_kind = k,
                 rr_observation_id = Some oid, rr_delta = delta, rr_net_after = net, rr_unpaid_after = net - paid,
                 rr_out_of_order = False\<rparr> db) (\<lambda>db.
             then_do (trace_event clock row' oid ''RECEIVABLE_REVISED'' (revoke_decisions (rv_facility_id row) db)) (\<lambda>db.
               Inr (db, \<lparr>rs_receivable_id = Some (rv_id row), rs_created = False, rs_applied = True, rs_reason = None\<rparr>)))))"

definition apply_revision ::
  "(nat \<Rightarrow> string) \<Rightarrow> int \<Rightarrow> string \<Rightarrow> string \<Rightarrow> int \<Rightarrow> string \<Rightarrow> int \<Rightarrow> rcv_db \<Rightarrow> app_error + (rcv_db \<times> receivable_result)" where
  "apply_revision uid clock rid oid revn kind delta db =
    then_do (exact_units revn ''revision'' False) (\<lambda>_.
    then_do (exact_units delta ''delta'' (kind = ''CORRECTION'')) (\<lambda>_.
    (case applied_kind kind of
       None \<Rightarrow> Inl (ValueError ''explicit nonzero correction/payout/cancellation required'')
     | Some k \<Rightarrow>
    ensure (delta \<noteq> 0) (ValueError ''explicit nonzero correction/payout/cancellation required'')
    (case List.find (\<lambda>r. rv_id r = rid) (db_receivables db) of
       None \<Rightarrow> Inl (ValueError ''unknown receivable'')
     | Some row \<Rightarrow>
    then_do (source_of db (rv_account_id row) oid (rv_profile row)) (\<lambda>_.
    (case List.find (\<lambda>q. revision_key q = (rid, revn, k)) (db_revisions db) of
       Some previous \<Rightarrow>
         if rr_delta previous = delta then Inr (db, conflict_result rid ''DUPLICATE_REVISION'')
         else then_do (open_exception uid clock ''REVISION_CONFLICT'' ''receivables'' rid
             (JObj [(''observationId'', JStr oid)]) db) (\<lambda>db. Inr (db, conflict_result rid ''REVISION_CONFLICT''))
     | None \<Rightarrow>
    if \<exists>q \<in> set (db_revisions db). rr_receivable_id q = rid \<and> rr_observation_id q = Some oid
    then then_do (open_exception uid clock ''OBSERVATION_ALREADY_APPLIED'' ''receivables'' rid
        (JObj [(''observationId'', JStr oid)]) db) (\<lambda>db. Inr (db, conflict_result rid ''OBSERVATION_ALREADY_APPLIED''))
    else if revn \<noteq> rv_revision row + 1
    then then_do (insert_revision \<lparr>rr_receivable_id = rid, rr_revision = revn, rr_kind = k, rr_observation_id = Some oid,
          rr_delta = delta, rr_net_after = rv_net row, rr_unpaid_after = rv_unpaid row, rr_out_of_order = True\<rparr> db) (\<lambda>db.
      then_do (open_exception uid clock ''REVISION_OUT_OF_ORDER'' ''receivables'' rid
        (JObj [(''observationId'', JStr oid)]) db) (\<lambda>db. Inr (db, conflict_result rid ''REVISION_OUT_OF_ORDER'')))
    else apply_in_order uid clock row oid revn k delta db))))))"

section \<open>The eligibility report\<close>

record eligibility_result =
  el_receivable_id :: string
  el_policy_id :: string
  el_profile :: execution_profile
  el_eligible :: bool
  el_eligible_units :: int
  el_unpaid_units :: int
  el_reasons :: "string list"

fun dedup_first :: "string list \<Rightarrow> string list" where
  "dedup_first [] = []"
| "dedup_first (x # xs) = x # filter (\<lambda>y. y \<noteq> x) (dedup_first xs)"

definition reason_if :: "bool \<Rightarrow> string \<Rightarrow> string list" where
  "reason_if b r = (if b then [r] else [])"

definition control_not_current :: "control_row option \<Rightarrow> receivable_row \<Rightarrow> facility_row \<Rightarrow> int \<Rightarrow> bool" where
  "control_not_current control row fac now = (case control of
     None \<Rightarrow> True
   | Some c \<Rightarrow> ca_grade c \<notin> {CG_E2, CG_E3} \<or> ca_account_id c \<noteq> rv_account_id row \<or> ca_borrower_id c \<noteq> fa_borrower_id fac \<or>
       Some (ca_version c) \<noteq> fa_funded_version fac \<or>
       (case ca_effective_from c of None \<Rightarrow> True | Some t \<Rightarrow> now < t) \<or>
       (case ca_effective_to c of None \<Rightarrow> False | Some t \<Rightarrow> t \<le> now))"

definition checkpoint_reasons ::
  "evidence_consumption option \<Rightarrow> native_verification option \<Rightarrow> receivable_row \<Rightarrow> provider_row \<Rightarrow> facility_row \<Rightarrow> int \<Rightarrow> string list" where
  "checkpoint_reasons checkpoint verification row provider fac now =
    (case (checkpoint, verification) of
       (Some c, Some v) \<Rightarrow>
         if ec_meaning c \<noteq> EM_CHECKPOINT \<or> ec_trust c \<noteq> TR_PROVEN \<or> ec_method c \<noteq> VM_ATTESTCOIN_NATIVE \<or>
            ec_profile c \<noteq> fa_profile fac \<or> ec_provider_account_id c \<noteq> rv_account_id row \<or>
            ec_env_id c \<noteq> pv_source_env_id provider \<or> ec_chain_key c \<noteq> pv_source_chain_key provider \<or>
            Some (ec_manifest_hash c) \<noteq> pv_manifest_hash provider \<or> nv_status v \<noteq> VS_ACCEPTED
         then [''NATIVE_CHECKPOINT_MISSING_OR_INVALID'']
         else if ec_valid_until c \<le> now \<or> now < ec_proven_at c then [''NATIVE_CHECKPOINT_EXPIRED''] else []
     | _ \<Rightarrow> [''NATIVE_CHECKPOINT_MISSING_OR_INVALID''])"

definition find_opt :: "('r \<Rightarrow> string) \<Rightarrow> 'r list \<Rightarrow> string option \<Rightarrow> 'r option" where
  "find_opt key rows k = (case k of None \<Rightarrow> None | Some i \<Rightarrow> List.find (\<lambda>r. key r = i) rows)"

definition evaluate_reasons :: "rcv_db \<Rightarrow> receivable_row \<Rightarrow> facility_row \<Rightarrow> account_row \<Rightarrow> provider_row \<Rightarrow> int \<Rightarrow> string list" where
  "evaluate_reasons db row fac account provider now =
    (let checkpoint = find_opt ec_id (db_consumptions db) (rv_checkpoint_id row);
         policy = List.find (\<lambda>p. po_id p = fa_policy_id fac) (db_policies db)
     in reason_if (rv_profile row \<noteq> fa_profile fac \<or> pv_profile provider \<noteq> fa_profile fac) ''PROFILE_MISMATCH'' @
        reason_if (rv_facility_id row \<noteq> Some (fa_id fac) \<or> ac_borrower_id account \<noteq> fa_borrower_id fac) ''FACILITY_ASSIGNMENT_MISMATCH'' @
        reason_if (pv_environment_status provider \<noteq> ES_PROBED \<or>
            json_get (pv_capabilities provider) ''source_support'' \<noteq> Some (JStr ''SUPPORTED'')) ''SOURCE_SUPPORT_UNCONFIRMED'' @
        reason_if (case policy of None \<Rightarrow> True | Some p \<Rightarrow> fa_profile fac = EP_PRODUCTION \<and> po_test_only p) ''POLICY_NOT_APPROVED'' @
        reason_if (rv_state row \<in> {RS_PAID, RS_CANCELLED, RS_WRITTEN_OFF, RS_DISPUTED} \<or> rv_unpaid row \<le> 0) ''NO_ELIGIBLE_UNPAID_BALANCE'' @
        reason_if (case rv_period_to row of None \<Rightarrow> True | Some t \<Rightarrow> now < t) ''SERVICE_NOT_EARNED'' @
        reason_if (case rv_due_at row of None \<Rightarrow> True
            | Some due \<Rightarrow> due \<le> now \<or> (case fa_maturity_at fac of None \<Rightarrow> False | Some m \<Rightarrow> m < due)) ''MATURITY_INELIGIBLE'' @
        reason_if (\<exists>x \<in> set (db_exceptions db). ex_table x = ''receivables'' \<and> ex_entity x = rv_id row \<and>
            ex_severity x = ''BLOCKING'' \<and> ex_resolved_at x = None) ''RECONCILIATION_EXCEPTION'' @
        reason_if (control_not_current (find_opt ca_id (db_controls db) (fa_control_id fac)) row fac now) ''E2_CONTROL_NOT_CURRENT'' @
        checkpoint_reasons checkpoint
          (find_opt nv_id (db_verifications db) (map_option ec_verification_id checkpoint)) row provider fac now @
        [''DECODED_BUSINESS_BINDING_NOT_IMPLEMENTED'', ''CURRENT_UNPAID_PROTECTION_NOT_IMPLEMENTED''])"

definition evaluate_receivable :: "rcv_db \<Rightarrow> string \<Rightarrow> string \<Rightarrow> py_datetime \<Rightarrow> app_error + eligibility_result" where
  "evaluate_receivable db rid fid as_of =
    then_do (aware as_of ''as_of'') (\<lambda>now.
    (case (List.find (\<lambda>r. rv_id r = rid) (db_receivables db), List.find (\<lambda>f. fa_id f = fid) (db_facilities db)) of
       (Some row, Some fac) \<Rightarrow>
         (case List.find (\<lambda>a. ac_id a = rv_account_id row) (db_accounts db) of
            None \<Rightarrow> Inl (OtherError ''AttributeError'')
          | Some account \<Rightarrow>
            (case List.find (\<lambda>p. pv_id p = ac_provider_id account) (db_providers db) of
               None \<Rightarrow> Inl (OtherError ''AttributeError'')
             | Some provider \<Rightarrow>
                 Inr \<lparr>el_receivable_id = rid, el_policy_id = fa_policy_id fac, el_profile = fa_profile fac,
                   el_eligible = False, el_eligible_units = 0, el_unpaid_units = rv_unpaid row,
                   el_reasons = dedup_first (evaluate_reasons db row fac account provider now)\<rparr>))
     | _ \<Rightarrow> Inl (ValueError ''unknown receivable or facility'')))"

section \<open>The history of a receivable\<close>

text \<open>The revisions of a receivable that took effect, oldest first.\<close>

definition history :: "rcv_db \<Rightarrow> string \<Rightarrow> revision_row list" where
  "history db rid = filter (\<lambda>r. rr_receivable_id r = rid \<and> \<not> rr_out_of_order r) (db_revisions db)"

text \<open>Every revision is the next one and its images follow from the previous ones and its delta.\<close>

definition follows :: "revision_row \<Rightarrow> revision_row \<Rightarrow> bool" where
  "follows p r \<longleftrightarrow> rr_revision r = rr_revision p + 1 \<and>
     (rr_kind r = RK_CORRECTION \<and> rr_net_after r = rr_net_after p + rr_delta r \<and> rr_unpaid_after r = rr_unpaid_after p + rr_delta r \<or>
      rr_kind r = RK_PAYOUT \<and> rr_net_after r = rr_net_after p \<and> rr_unpaid_after r = rr_unpaid_after p - rr_delta r \<or>
      rr_kind r = RK_CANCELLATION \<and> rr_net_after r = rr_net_after p \<and> rr_unpaid_after r = rr_unpaid_after p + rr_delta r)"

definition history_ok :: "revision_row list \<Rightarrow> bool" where
  "history_ok hs \<longleftrightarrow> (case hs of [] \<Rightarrow> False
     | h # _ \<Rightarrow> rr_kind h = RK_RECOGNIZED \<and> rr_net_after h = rr_delta h \<and>
        (\<forall>i. Suc i < length hs \<longrightarrow> follows (hs ! i) (hs ! Suc i)))"

definition explains :: "revision_row list \<Rightarrow> receivable_row \<Rightarrow> bool" where
  "explains hs r \<longleftrightarrow> history_ok hs \<and> rr_revision (last hs) = rv_revision r \<and>
     rr_net_after (last hs) = rv_net r \<and> rr_unpaid_after (last hs) = rv_unpaid r"

definition rcv_inv :: "rcv_db \<Rightarrow> bool" where
  "rcv_inv db \<longleftrightarrow> receivables_ok (db_receivables db) \<and>
     (\<forall>r \<in> set (db_receivables db). explains (history db (rv_id r)) r) \<and>
     (\<forall>q \<in> set (db_revisions db). has_key rv_id (db_receivables db) (rr_receivable_id q))"

definition empty_rcv_db :: rcv_db where
  "empty_rcv_db = proof_db.extend empty_proof_db
    \<lparr>db_providers = [], db_accounts = [], db_observations = [], db_policies = [], db_controls = [],
     db_facilities = [], db_decisions = [], db_receivables = [], db_revisions = [], db_exceptions = []\<rparr>"

section \<open>What the operations do\<close>

text \<open>Nothing but cases and events changed.\<close>

definition keeps :: "rcv_db \<Rightarrow> rcv_db \<Rightarrow> bool" where
  "keeps db db' \<longleftrightarrow> db_receivables db' = db_receivables db \<and> db_revisions db' = db_revisions db \<and>
     db_decisions db' = db_decisions db"

lemma keeps_refl [simp]: "keeps db db"
  by (simp add: keeps_def)

lemma keeps_trans: "keeps a b \<Longrightarrow> keeps b c \<Longrightarrow> keeps a c"
  by (simp add: keeps_def)

lemma open_exception_keeps: "open_exception uid now code tab ent det db = Inr db' \<Longrightarrow> keeps db db'"
  by (auto simp: open_exception_def keeps_def Let_def split: if_splits)

lemma trace_event_keeps: "trace_event now row oid act db = Inr db' \<Longrightarrow> keeps db db'"
  by (auto simp: trace_event_def emit_def keeps_def Let_def then_do_eq_Inr split: if_splits)

lemma open_overlaps_keeps: "open_overlaps uid now row others db = Inr db' \<Longrightarrow> keeps db db'"
proof (induction others arbitrary: db)
  case Nil
  then show ?case by simp
next
  case (Cons x xs)
  then obtain d1 d2 where "keeps db d1" "keeps d1 d2" "keeps d2 db'"
    by (auto simp: then_do_eq_Inr dest!: open_exception_keeps)
  then show ?case by (blast intro: keeps_trans)
qed

lemma trigger_no_update:
  assumes "\<And>r. r \<in> set (db_receivables db) \<Longrightarrow> rv_id r = rr_receivable_id new \<Longrightarrow> rr_revision new \<le> rv_revision r"
    and "hcg_receivable_revisions_monotonic new db = Inr db'"
  shows "db' = db"
proof -
  have "update_where (\<lambda>r. rv_id r = rr_receivable_id new \<and> rv_revision r < rr_revision new)
      (\<lambda>r. r\<lparr>rv_revision := rr_revision new\<rparr>) (db_receivables db) = db_receivables db"
    by (rule update_where_none) (use assms(1) in fastforce)
  with assms(2) show ?thesis by (auto simp: hcg_receivable_revisions_monotonic_def split: if_splits)
qed

lemma insert_revision_eq:
  assumes "insert_revision new db = Inr db'"
    and "rr_out_of_order new \<or> (\<forall>r \<in> set (db_receivables db). rv_id r = rr_receivable_id new \<longrightarrow> rr_revision new \<le> rv_revision r)"
  shows "db' = db\<lparr>db_revisions := db_revisions db @ [new]\<rparr> \<and> has_key rv_id (db_receivables db) (rr_receivable_id new) \<and>
    \<not> has_key revision_key (db_revisions db) (revision_key new)"
proof -
  obtain d where d: "hcg_receivable_revisions_monotonic new db = Inr d"
    and rest: "db' = d\<lparr>db_revisions := db_revisions d @ [new]\<rparr>" "has_key rv_id (db_receivables d) (rr_receivable_id new)"
      "\<not> has_key revision_key (db_revisions d) (revision_key new)"
    using assms(1) by (auto simp: insert_revision_def then_do_eq_Inr)
  have "d = db"
  proof (cases "rr_out_of_order new")
    case True
    with d show ?thesis by (simp add: hcg_receivable_revisions_monotonic_def)
  next
    case False
    with assms(2) show ?thesis by (intro trigger_no_update [OF _ d]) auto
  qed
  with rest show ?thesis by simp
qed

definition recognised :: "receivable_row \<Rightarrow> string \<Rightarrow> revision_row" where
  "recognised row oid = \<lparr>rr_receivable_id = rv_id row, rr_revision = rv_revision row, rr_kind = RK_RECOGNIZED,
     rr_observation_id = Some oid, rr_delta = rv_net row, rr_net_after = rv_net row,
     rr_unpaid_after = rv_unpaid row, rr_out_of_order = False\<rparr>"

lemma insert_obligation_effect:
  assumes "insert_obligation uid clock c row db = Inr (db', res)" and "rv_net row = oi_net c"
  shows "receivables_ok (db_receivables db @ [row]) \<and> db_receivables db' = db_receivables db @ [row] \<and>
    db_revisions db' = db_revisions db @ [recognised row (oi_observation_id c)]"
proof -
  obtain d1 d2 d3 where ok: "receivables_ok (db_receivables db @ [row])"
    and d1: "d1 = db\<lparr>db_receivables := db_receivables db @ [row]\<rparr>"
    and i: "insert_revision (recognised row (oi_observation_id c)) d1 = Inr d2"
    and o1: "open_overlaps uid clock row (filter (overlaps_period row) (db_receivables d2)) d2 = Inr d3"
    and t: "trace_event clock row (oi_observation_id c) ''RECEIVABLE_OBSERVED'' d3 = Inr db'"
    using assms unfolding insert_obligation_def write_receivables_def recognised_def
    by (auto simp: then_do_eq_Inr)
  have "d2 = d1\<lparr>db_revisions := db_revisions d1 @ [recognised row (oi_observation_id c)]\<rparr>"
    using insert_revision_eq [OF i] ok
    by (auto simp: d1 recognised_def receivables_ok_def unique_on_append has_key_def)
  with keeps_trans [OF open_overlaps_keeps [OF o1] trace_event_keeps [OF t]] ok d1
  show ?thesis by (simp add: keeps_def)
qed

lemma record_effect:
  assumes "record_obligation uid clock c as_of db = Inr (db', res)"
  shows "keeps db db' \<or> (\<exists>row. receivables_ok (db_receivables db @ [row]) \<and> db_receivables db' = db_receivables db @ [row] \<and>
    db_revisions db' = db_revisions db @ [recognised row (oi_observation_id c)])"
proof -
  obtain now pf pto due account provider where
    body: "(if oi_kind c \<noteq> VK_OPERATING_RECEIVABLE \<or> now < pto
     then let reason = (if now < pto then ''FUTURE_REVENUE'' else ''NON_OPERATING:'' @ revenue_kind_value (oi_kind c))
       in then_do (open_exception uid clock ''REVENUE_INELIGIBLE'' ''raw_source_observations'' (oi_observation_id c)
            (JObj [(''reason'', JStr reason)]) db) (\<lambda>db.
          Inr (db, \<lparr>rs_receivable_id = None, rs_created = False, rs_applied = False, rs_reason = Some reason\<rparr>))
     else case List.find (\<lambda>r. rv_account_id r = ac_id account \<and> rv_ref r = oi_ref c) (db_receivables db) of
       Some row \<Rightarrow>
         if same_obligation row c pf pto due
         then then_do (trace_event clock row (oi_observation_id c) ''RECEIVABLE_OBSERVATION_MERGED'' db) (\<lambda>db.
           Inr (db, conflict_result (rv_id row) ''DUPLICATE_OBSERVATION''))
         else let reason = (if oi_revision c \<noteq> rv_revision row then ''REVISION_REQUIRES_DELTA'' else ''AMOUNT_OR_BINDING_CONFLICT'')
           in then_do (open_exception uid clock reason ''receivables'' (rv_id row)
                (JObj [(''observationId'', JStr (oi_observation_id c))]) db) (\<lambda>db.
              Inr (db, conflict_result (rv_id row) reason))
     | None \<Rightarrow> insert_obligation uid clock c (new_receivable c account provider pf pto due) db) = Inr (db', res)"
    using assms unfolding record_obligation_def by (auto simp: then_do_eq_Inr)
  show ?thesis
  proof (cases "List.find (\<lambda>r. rv_account_id r = ac_id account \<and> rv_ref r = oi_ref c) (db_receivables db)")
    case None
    have "rv_net (new_receivable c account provider pf pto due) = oi_net c" by (simp add: new_receivable_def)
    with body None show ?thesis
      by (auto simp: Let_def then_do_eq_Inr split: if_splits dest!: open_exception_keeps insert_obligation_effect)
  next
    case (Some row)
    with body show ?thesis
      by (auto simp: Let_def then_do_eq_Inr split: if_splits dest!: open_exception_keeps trace_event_keeps)
  qed
qed

definition revised :: "int \<Rightarrow> revision_kind \<Rightarrow> int \<Rightarrow> receivable_row \<Rightarrow> receivable_row" where
  "revised n k delta row = (let (net, paid) = revised_amounts k delta row
     in row\<lparr>rv_net := net, rv_paid := paid, rv_unpaid := net - paid, rv_revision := n,
          rv_state := revised_state net paid row, rv_checkpoint_seq := None, rv_checkpoint_id := None\<rparr>)"

definition revision_of :: "receivable_row \<Rightarrow> string \<Rightarrow> revision_kind \<Rightarrow> int \<Rightarrow> bool \<Rightarrow> int \<Rightarrow> revision_row" where
  "revision_of row oid k delta flagged n = \<lparr>rr_receivable_id = rv_id row, rr_revision = n, rr_kind = k,
     rr_observation_id = Some oid, rr_delta = delta, rr_net_after = rv_net row, rr_unpaid_after = rv_unpaid row,
     rr_out_of_order = flagged\<rparr>"

lemma revised_id [simp]: "rv_id (revised n k delta row) = rv_id row" "rv_revision (revised n k delta row) = n"
  by (simp_all add: revised_def split_beta)

lemma apply_in_order_effect:
  assumes "apply_in_order uid clock row oid n k delta db = Inr (db', res)"
  shows "(keeps db db' \<and> \<not> rs_applied res \<and> rs_reason res \<noteq> Some ''REVISION_OUT_OF_ORDER'') \<or>
    (rs_applied res \<and>
     receivables_ok (update_where (\<lambda>r. rv_id r = rv_id row) (\<lambda>_. revised n k delta row) (db_receivables db)) \<and>
     db_receivables db' = update_where (\<lambda>r. rv_id r = rv_id row) (\<lambda>_. revised n k delta row) (db_receivables db) \<and>
     db_revisions db' = db_revisions db @ [revision_of (revised n k delta row) oid k delta False n] \<and>
     \<not> has_key revision_key (db_revisions db) (rv_id row, n, k) \<and>
     db_decisions db' = db_decisions (revoke_decisions (rv_facility_id row) db))"
proof -
  obtain net paid where am: "revised_amounts k delta row = (net, paid)" by (cases "revised_amounts k delta row")
  let ?row = "revised n k delta row"
  let ?rows = "update_where (\<lambda>r. rv_id r = rv_id row) (\<lambda>_. ?row) (db_receivables db)"
  show ?thesis
  proof (cases "0 \<le> paid \<and> paid \<le> net \<and> net \<le> rv_gross row")
    case False
    with assms am show ?thesis
      by (auto simp: apply_in_order_def then_do_eq_Inr conflict_result_def dest!: open_exception_keeps)
  next
    case True
    have rowd: "row\<lparr>rv_net := net, rv_paid := paid, rv_unpaid := net - paid, rv_revision := n,
          rv_state := revised_state net paid row, rv_checkpoint_seq := None, rv_checkpoint_id := None\<rparr> = ?row"
      by (simp add: revised_def am)
    have revd: "\<lparr>rr_receivable_id = rv_id row, rr_revision = n, rr_kind = k, rr_observation_id = Some oid, rr_delta = delta,
        rr_net_after = net, rr_unpaid_after = net - paid, rr_out_of_order = False\<rparr> = revision_of ?row oid k delta False n"
      by (simp add: revision_of_def revised_def am)
    obtain d1 d2 where ok: "receivables_ok ?rows" and d1: "d1 = db\<lparr>db_receivables := ?rows\<rparr>"
      and i: "insert_revision (revision_of ?row oid k delta False n) d1 = Inr d2"
      and t: "trace_event clock ?row oid ''RECEIVABLE_REVISED'' (revoke_decisions (rv_facility_id row) d2) = Inr db'"
      and res: "rs_applied res"
      using assms am True unfolding apply_in_order_def write_receivables_def
      by (auto simp: then_do_eq_Inr rowd revd Let_def)
    have "d2 = d1\<lparr>db_revisions := db_revisions d1 @ [revision_of ?row oid k delta False n]\<rparr> \<and>
        \<not> has_key revision_key (db_revisions d1) (rv_id row, n, k)"
    proof -
      have "\<forall>r \<in> set (db_receivables d1). rv_id r = rv_id row \<longrightarrow> n \<le> rv_revision r"
        by (auto simp: d1 in_update_where split: if_splits)
      with insert_revision_eq [OF i] show ?thesis by (simp add: revision_of_def revision_key_def d1)
    qed
    with trace_event_keeps [OF t] ok res show ?thesis
      by (auto simp: keeps_def d1 revoke_decisions_def split: option.split)
  qed
qed

text \<open>What \<open>apply_revision\<close> may do: nothing, flag the revision, or apply it.\<close>

lemma revise_effect:
  assumes "apply_revision uid clock rid oid n kind delta db = Inr (db', res)"
  obtains (kept) "keeps db db'" "\<not> rs_applied res" "rs_reason res \<noteq> Some ''REVISION_OUT_OF_ORDER''"
  | (flagged) row k where "row \<in> set (db_receivables db)" "rv_id row = rid" "applied_kind kind = Some k"
      "\<not> rs_applied res" "db_receivables db' = db_receivables db" "db_decisions db' = db_decisions db"
      "db_revisions db' = db_revisions db @ [revision_of row oid k delta True n]"
  | (applied) row k where "row \<in> set (db_receivables db)" "rv_id row = rid" "applied_kind kind = Some k"
      "n = rv_revision row + 1" "rs_applied res"
      "receivables_ok (update_where (\<lambda>r. rv_id r = rid) (\<lambda>_. revised n k delta row) (db_receivables db))"
      "db_receivables db' = update_where (\<lambda>r. rv_id r = rid) (\<lambda>_. revised n k delta row) (db_receivables db)"
      "db_revisions db' = db_revisions db @ [revision_of (revised n k delta row) oid k delta False n]"
      "db_decisions db' = db_decisions (revoke_decisions (rv_facility_id row) db)"
proof -
  obtain k row where k: "applied_kind kind = Some k"
    and row: "List.find (\<lambda>r. rv_id r = rid) (db_receivables db) = Some row"
    using assms unfolding apply_revision_def
    by (auto simp: then_do_eq_Inr simp del: applied_kind.simps split: option.splits)
  have r: "row \<in> set (db_receivables db)" "rv_id row = rid" using find_Some_iff [OF row] by auto
  have revd: "\<lparr>rr_receivable_id = rid, rr_revision = n, rr_kind = k, rr_observation_id = Some oid, rr_delta = delta,
        rr_net_after = rv_net row, rr_unpaid_after = rv_unpaid row, rr_out_of_order = True\<rparr> = revision_of row oid k delta True n"
    by (simp add: revision_of_def r(2))
  consider (dup) q where "List.find (\<lambda>q. revision_key q = (rid, n, k)) (db_revisions db) = Some q"
    | (reused) "List.find (\<lambda>q. revision_key q = (rid, n, k)) (db_revisions db) = None"
        "\<exists>q \<in> set (db_revisions db). rr_receivable_id q = rid \<and> rr_observation_id q = Some oid"
    | (flag) "List.find (\<lambda>q. revision_key q = (rid, n, k)) (db_revisions db) = None"
        "\<not> (\<exists>q \<in> set (db_revisions db). rr_receivable_id q = rid \<and> rr_observation_id q = Some oid)" "n \<noteq> rv_revision row + 1"
    | (order) "List.find (\<lambda>q. revision_key q = (rid, n, k)) (db_revisions db) = None"
        "\<not> (\<exists>q \<in> set (db_revisions db). rr_receivable_id q = rid \<and> rr_observation_id q = Some oid)" "n = rv_revision row + 1"
    by fastforce
  then show ?thesis
  proof cases
    case dup
    with assms k row show ?thesis unfolding apply_revision_def
      by (intro kept) (auto simp: then_do_eq_Inr conflict_result_def simp del: applied_kind.simps split: if_splits dest!: open_exception_keeps)
  next
    case reused
    with assms k row show ?thesis unfolding apply_revision_def
      by (intro kept) (auto simp: then_do_eq_Inr conflict_result_def simp del: applied_kind.simps dest!: open_exception_keeps)
  next
    case flag
    then obtain d where i: "insert_revision (revision_of row oid k delta True n) db = Inr d" and "keeps d db'" "\<not> rs_applied res"
      using assms k row unfolding apply_revision_def
      by (auto simp: then_do_eq_Inr conflict_result_def revd simp del: applied_kind.simps split: if_splits dest!: open_exception_keeps)
    moreover have "d = db\<lparr>db_revisions := db_revisions db @ [revision_of row oid k delta True n]\<rparr>"
      using insert_revision_eq [OF i] by (simp add: revision_of_def)
    ultimately show ?thesis using flagged [OF r k] by (simp add: keeps_def)
  next
    case order
    then have "apply_in_order uid clock row oid n k delta db = Inr (db', res)"
      using assms k row unfolding apply_revision_def
      by (auto simp: then_do_eq_Inr simp del: applied_kind.simps split: if_splits)
    from apply_in_order_effect [OF this] show ?thesis
      using kept applied [OF r k order(3)] r(2) by auto
  qed
qed

section \<open>Receivables as a machine\<close>

text \<open>Other services may change what is not a balance: assignment, dispute, checkpoint.\<close>

definition same_balance :: "receivable_row \<Rightarrow> receivable_row \<Rightarrow> bool" where
  "same_balance r r' \<longleftrightarrow> rv_id r' = rv_id r \<and> rv_gross r' = rv_gross r \<and> rv_net r' = rv_net r \<and> rv_paid r' = rv_paid r \<and>
     rv_unpaid r' = rv_unpaid r \<and> rv_revision r' = rv_revision r"

inductive rcv_step :: "rcv_db \<Rightarrow> rcv_db \<Rightarrow> bool" where
  s_record: "record_obligation uid clock c as_of db = Inr (db', res) \<Longrightarrow> rcv_step db db'"
| s_revise: "apply_revision uid clock rid oid n kind delta db = Inr (db', res) \<Longrightarrow> rcv_step db db'"
| s_other: "list_all2 same_balance (db_receivables db) (db_receivables db') \<Longrightarrow> receivables_ok (db_receivables db') \<Longrightarrow>
    db_revisions db' = db_revisions db \<Longrightarrow> rcv_step db db'"

lemma history_append:
  "db_revisions db' = db_revisions db @ [q] \<Longrightarrow>
   history db' rid = (if rr_receivable_id q = rid \<and> \<not> rr_out_of_order q then history db rid @ [q] else history db rid)"
  by (simp add: history_def)

lemma history_ok_snoc: "history_ok hs \<Longrightarrow> follows (last hs) q \<Longrightarrow> history_ok (hs @ [q])"
proof -
  assume h: "history_ok hs" and f: "follows (last hs) q"
  then have ne: "hs \<noteq> []" by (auto simp: history_ok_def)
  have "follows ((hs @ [q]) ! i) ((hs @ [q]) ! Suc i)" if "Suc i < Suc (length hs)" for i
  proof (cases "Suc i < length hs")
    case True
    then show ?thesis using h by (auto simp: history_ok_def nth_append split: list.splits)
  next
    case False
    with that have "i = length hs - 1" "Suc i = length hs" by auto
    with f ne show ?thesis by (simp add: nth_append last_conv_nth)
  qed
  with h ne show ?thesis by (cases hs) (auto simp: history_ok_def)
qed

lemma explains_others:
  assumes "rcv_inv db" and "db_revisions db' = db_revisions db @ [q]" and "r \<in> set (db_receivables db)"
    and "rr_receivable_id q \<noteq> rv_id r \<or> rr_out_of_order q"
  shows "explains (history db' (rv_id r)) r"
  using assms by (auto simp: rcv_inv_def history_append)

lemma history_unknown:
  "rcv_inv db \<Longrightarrow> \<not> has_key rv_id (db_receivables db) rid \<Longrightarrow> history db rid = []"
  by (auto simp: rcv_inv_def history_def filter_empty_conv)

lemma record_inv:
  assumes "rcv_inv db" and "receivables_ok (db_receivables db @ [row])" and "db_receivables db' = db_receivables db @ [row]"
    and "db_revisions db' = db_revisions db @ [recognised row oid]"
  shows "rcv_inv db'"
proof -
  have new: "\<not> has_key rv_id (db_receivables db) (rv_id row)"
    using assms(2) by (simp add: receivables_ok_def unique_on_append)
  have "history db' (rv_id row) = [recognised row oid]"
    using history_unknown [OF assms(1) new] by (simp add: history_append [OF assms(4)] recognised_def)
  then have "explains (history db' (rv_id row)) row"
    by (simp add: explains_def history_ok_def recognised_def)
  moreover have "explains (history db' (rv_id r)) r" if "r \<in> set (db_receivables db)" for r
    using explains_others [OF assms(1,4) that] new that by (auto simp: recognised_def has_key_def)
  ultimately show ?thesis using assms
    by (auto simp: rcv_inv_def has_key_def recognised_def)
qed

lemma revised_follows:
  assumes "explains hs row" and "rv_unpaid row = rv_net row - rv_paid row" and "applied_kind kind = Some k"
    and "n = rv_revision row + 1"
  shows "follows (last hs) (revision_of (revised n k delta row) oid k delta False n)"
  using assms
  by (auto simp: explains_def follows_def revision_of_def revised_def revised_amounts_def split: if_splits)

lemma applied_inv:
  assumes inv: "rcv_inv db" and r: "row \<in> set (db_receivables db)" "rv_id row = rid"
    and k: "applied_kind kind = Some k" "n = rv_revision row + 1"
    and ok: "receivables_ok (update_where (\<lambda>r. rv_id r = rid) (\<lambda>_. revised n k delta row) (db_receivables db))"
    and rows: "db_receivables db' = update_where (\<lambda>r. rv_id r = rid) (\<lambda>_. revised n k delta row) (db_receivables db)"
    and revs: "db_revisions db' = db_revisions db @ [revision_of (revised n k delta row) oid k delta False n]"
  shows "rcv_inv db'"
proof -
  let ?q = "revision_of (revised n k delta row) oid k delta False n"
  have e: "explains (history db rid) row" using inv r by (auto simp: rcv_inv_def)
  have "receivable_checks row" using inv r by (auto simp: rcv_inv_def receivables_ok_def list_all_iff)
  then have "follows (last (history db rid)) ?q" by (intro revised_follows [OF e _ k]) (simp add: receivable_checks_def)
  then have "history_ok (history db rid @ [?q])" using e by (intro history_ok_snoc) (simp_all add: explains_def)
  moreover have "history db' rid = history db rid @ [?q]"
    using r(2) by (simp add: history_append [OF revs] revision_of_def)
  ultimately have new: "explains (history db' rid) (revised n k delta row)"
    by (simp add: explains_def revision_of_def)
  have old: "explains (history db' (rv_id q)) q" if "q \<in> set (db_receivables db)" "rv_id q \<noteq> rid" for q
    using explains_others [OF inv revs that(1)] that(2) r(2) by (auto simp: revision_of_def)
  have "\<forall>q \<in> set (db_receivables db'). explains (history db' (rv_id q)) q"
    using new old r(2) by (auto simp: rows in_update_where)
  moreover have keys: "rv_id ` set (db_receivables db') = rv_id ` set (db_receivables db)"
    using arg_cong [OF update_where_keys [of "\<lambda>r. rv_id r = rid" rv_id "\<lambda>_. revised n k delta row" "db_receivables db"], of set] r(2)
    by (simp add: rows)
  then have "\<forall>q \<in> set (db_revisions db'). has_key rv_id (db_receivables db') (rr_receivable_id q)"
    using inv r by (auto simp: rcv_inv_def has_key_def revs revision_of_def image_iff) (metis imageE imageI)+
  ultimately show ?thesis using ok by (simp add: rcv_inv_def rows)
qed

lemma keeps_inv: "rcv_inv db \<Longrightarrow> keeps db db' \<Longrightarrow> rcv_inv db'"
  by (simp add: rcv_inv_def keeps_def history_def)

lemma rcv_step_inv: "rcv_step db db' \<Longrightarrow> rcv_inv db \<Longrightarrow> rcv_inv db'"
proof (induction rule: rcv_step.induct)
  case (s_record uid clock c as_of db db' res)
  then show ?case using record_effect [OF s_record(1)] by (blast intro: keeps_inv record_inv)
next
  case (s_revise uid clock rid oid n kind delta db db' res)
  from s_revise(1) show ?case
  proof (cases rule: revise_effect)
    case kept
    with s_revise(2) show ?thesis by (blast intro: keeps_inv)
  next
    case (flagged row k)
    then show ?thesis using s_revise(2) explains_others [OF s_revise(2) flagged(7)]
      by (auto simp: rcv_inv_def has_key_def revision_of_def)
  next
    case (applied row k)
    show ?thesis by (rule applied_inv [OF s_revise(2) applied(1-4,6-8)])
  qed
next
  case (s_other db db')
  have "\<exists>r \<in> set (db_receivables db). same_balance r r'" if "r' \<in> set (db_receivables db')" for r'
    using s_other(1) that by (metis in_set_conv_nth list_all2_conv_all_nth)
  moreover have "map rv_id (db_receivables db') = map rv_id (db_receivables db)"
    using s_other(1) by (induction rule: list_all2_induct) (auto simp: same_balance_def)
  then have keys: "rv_id ` set (db_receivables db') = rv_id ` set (db_receivables db)" by (metis set_map)
  moreover have "history db' rid = history db rid" for rid using s_other(3) by (simp add: history_def)
  moreover have "explains (history db (rv_id r)) r'" if "r \<in> set (db_receivables db)" "same_balance r r'" for r r'
    using s_other(4) that by (auto simp: rcv_inv_def explains_def same_balance_def)
  ultimately have "\<forall>r' \<in> set (db_receivables db'). explains (history db' (rv_id r')) r'"
    by (metis same_balance_def)
  moreover have "\<forall>q \<in> set (db_revisions db'). has_key rv_id (db_receivables db') (rr_receivable_id q)"
    using s_other(3,4) keys unfolding rcv_inv_def has_key_def by (metis imageE imageI)
  ultimately show ?case using s_other(2) by (simp add: rcv_inv_def)
qed

interpretation receivables: inv_machine "\<lambda>db. db_receivables db = [] \<and> db_revisions db = []" rcv_step rcv_inv
proof unfold_locales
  show "rcv_inv db" if "db_receivables db = [] \<and> db_revisions db = []" for db
    using that by (simp add: rcv_inv_def receivables_ok_def unique_on_def)
  show "rcv_inv db'" if "rcv_step db db'" "rcv_inv db" for db db'
    by (rule rcv_step_inv [OF that])
qed

section \<open>Properties\<close>

definition total_of :: "revision_kind set \<Rightarrow> revision_row list \<Rightarrow> int" where
  "total_of K hs = sum_list (map rr_delta (filter (\<lambda>r. rr_kind r \<in> K) hs))"

lemma total_of_snoc: "total_of K (hs @ [q]) = total_of K hs + (if rr_kind q \<in> K then rr_delta q else 0)"
  by (simp add: total_of_def)

lemma history_ok_butlast:
  assumes "history_ok (hs @ [q])" and "hs \<noteq> []"
  shows "history_ok hs \<and> follows (last hs) q"
proof
  obtain h t where h: "hs = h # t" using assms(2) by (cases hs) auto
  have f: "Suc i < length (hs @ [q]) \<Longrightarrow> follows ((hs @ [q]) ! i) ((hs @ [q]) ! Suc i)" for i
    using assms(1) by (simp add: history_ok_def h)
  have "follows (hs ! i) (hs ! Suc i)" if "Suc i < length hs" for i
    using f [of i] that by (simp add: nth_append)
  with assms(1) show "history_ok hs" by (simp add: history_ok_def h)
  show "follows (last hs) q" using f [of "length hs - 1"] assms(2) by (simp add: nth_append last_conv_nth)
qed

lemma history_totals:
  "history_ok hs \<Longrightarrow>
     rr_net_after (last hs) = total_of {RK_RECOGNIZED, RK_CORRECTION} hs \<and>
     rr_net_after (last hs) - rr_unpaid_after (last hs) =
       rr_delta (hd hs) - rr_unpaid_after (hd hs) + total_of {RK_PAYOUT} hs - total_of {RK_CANCELLATION} hs \<and>
     rr_revision (last hs) = rr_revision (hd hs) + int (length hs) - 1"
proof (induction hs rule: rev_induct)
  case Nil
  then show ?case by (simp add: history_ok_def)
next
  case (snoc q hs)
  show ?case
  proof (cases "hs = []")
    case True
    with snoc.prems show ?thesis by (simp add: history_ok_def total_of_def)
  next
    case False
    from history_ok_butlast [OF snoc.prems False] snoc.IH False show ?thesis
      by (auto simp: total_of_snoc follows_def)
  qed
qed

text \<open>C5: a receivable's balance is what its history says. Along every run of the service, each receivable's net
  amount is the sum of the recognised amount and the corrections that took effect, its paid amount is what
  was paid at recognition plus the payouts minus the cancellations that took effect, its unpaid amount is
  the difference and lies between zero and the gross, and its revision number counts the revisions.
  Revisions that were flagged as out of order contribute nothing.\<close>

theorem balances_follow_history:
  assumes "db_receivables db0 = []" and "db_revisions db0 = []" and "rcv_step\<^sup>*\<^sup>* db0 db" and "r \<in> set (db_receivables db)"
  shows "rv_net r = total_of {RK_RECOGNIZED, RK_CORRECTION} (history db (rv_id r)) \<and>
    rv_paid r = rr_delta (hd (history db (rv_id r))) - rr_unpaid_after (hd (history db (rv_id r))) +
      total_of {RK_PAYOUT} (history db (rv_id r)) - total_of {RK_CANCELLATION} (history db (rv_id r)) \<and>
    rv_unpaid r = rv_net r - rv_paid r \<and> 0 \<le> rv_unpaid r \<and> 0 \<le> rv_paid r \<and> rv_net r \<le> rv_gross r \<and>
    rv_revision r = rr_revision (hd (history db (rv_id r))) + int (length (history db (rv_id r))) - 1"
proof -
  have "rcv_inv db" by (rule receivables.reachable_inv [OF conjI [OF assms(1,2)] assms(3)])
  then have e: "explains (history db (rv_id r)) r" and c: "receivable_checks r"
    using assms(4) by (auto simp: rcv_inv_def receivables_ok_def list_all_iff)
  from history_totals [of "history db (rv_id r)"] e c show ?thesis
    by (auto simp: explains_def receivable_checks_def)
qed

definition sample_rcv_db :: rcv_db where
  "sample_rcv_db = empty_rcv_db\<lparr>
     db_providers := [\<lparr>pv_id = ''p'', pv_source_env_id = ''e'', pv_source_chain_key = 1, pv_source_chain_id = 5,
       pv_profile = EP_NATIVE_TESTNET, pv_environment_status = ES_PROBED, pv_manifest_hash = None, pv_capabilities = JObj []\<rparr>],
     db_accounts := [\<lparr>ac_id = ''p:a'', ac_provider_id = ''p'', ac_external_id = ''a'', ac_borrower_id = ''B''\<rparr>],
     db_observations := map (\<lambda>i. \<lparr>ob_id = i, ob_provider_id = ''p'', ob_origin = ''API'', ob_payload_hash = i, ob_trust = TR_ASSERTED\<rparr>)
       [''O1'', ''O2'', ''O3'']\<rparr>"

definition sample_obligation :: obligation_input where
  "sample_obligation = \<lparr>oi_receivable_id = ''R1'', oi_account_id = ''p:a'', oi_ref = ''inv1'', oi_observation_id = ''O1'',
     oi_asset = \<lparr>as_chain_id = 5, as_address = None, as_symbol = ''USD'', as_decimals = 6\<rparr>, oi_gross = 100, oi_net = 90,
     oi_paid = 10, oi_revision = 1, oi_kind = VK_OPERATING_RECEIVABLE, oi_period_from = Aware 10, oi_period_to = Aware 20,
     oi_due_at = Aware 30, oi_profile = EP_NATIVE_TESTNET\<rparr>"

definition sample_recorded :: "app_error + (rcv_db \<times> receivable_result)" where
  "sample_recorded = record_obligation (\<lambda>n. ''X'') 40 sample_obligation (Aware 25) sample_rcv_db"

definition sample_paid_again :: "app_error + (rcv_db \<times> receivable_result)" where
  "sample_paid_again = then_do (then_do sample_recorded (\<lambda>(db, _). apply_revision (\<lambda>n. ''X'') 50 ''R1'' ''O2'' 2 ''PAYOUT'' 30 db))
     (\<lambda>(db, _). apply_revision (\<lambda>n. ''Y'') 60 ''R1'' ''O3'' 2 ''PAYOUT'' 30 db)"

definition sample_paid :: "app_error + (rcv_db \<times> receivable_result)" where
  "sample_paid = then_do sample_recorded (\<lambda>(db, _). apply_revision (\<lambda>n. ''X'') 50 ''R1'' ''O2'' 2 ''PAYOUT'' 30 db)"

lemma sample_paid_ok:
  "case sample_paid of Inl _ \<Rightarrow> False | Inr (db, r) \<Rightarrow> rs_applied r \<and> map rv_paid (db_receivables db) = [40]"
  by code_simp

lemma sample_rcv_run:
  obtains db1 r1 db2 r2 where "record_obligation (\<lambda>n. ''X'') 40 sample_obligation (Aware 25) sample_rcv_db = Inr (db1, r1)"
    "apply_revision (\<lambda>n. ''X'') 50 ''R1'' ''O2'' 2 ''PAYOUT'' 30 db1 = Inr (db2, r2)" "rs_applied r2"
    "map rv_paid (db_receivables db2) = [40]"
  using sample_paid_ok unfolding sample_paid_def sample_recorded_def
  by (auto simp: then_do_def split: sum.splits prod.splits)

theorem balances_follow_history_witness:
  "\<exists>db r. r \<in> set (db_receivables db) \<and> rv_paid r = 40 \<and> rcv_step\<^sup>*\<^sup>* sample_rcv_db db \<and>
     rv_net r = total_of {RK_RECOGNIZED, RK_CORRECTION} (history db (rv_id r))"
proof -
  obtain db1 r1 db2 r2 where a: "record_obligation (\<lambda>n. ''X'') 40 sample_obligation (Aware 25) sample_rcv_db = Inr (db1, r1)"
    and b: "apply_revision (\<lambda>n. ''X'') 50 ''R1'' ''O2'' 2 ''PAYOUT'' 30 db1 = Inr (db2, r2)"
    and paid: "map rv_paid (db_receivables db2) = [40]" by (rule sample_rcv_run)
  have run: "rcv_step\<^sup>*\<^sup>* sample_rcv_db db2" using s_record [OF a] s_revise [OF b] by auto
  from paid obtain r where r: "r \<in> set (db_receivables db2)" "rv_paid r = 40" by (cases "db_receivables db2") auto
  have "db_receivables sample_rcv_db = []" "db_revisions sample_rcv_db = []"
    by (simp_all add: sample_rcv_db_def empty_rcv_db_def proof_db.defs)
  from balances_follow_history [OF this run r(1)] run r show ?thesis by blast
qed

lemma rcv_step_grows: "rcv_step db db' \<Longrightarrow> \<exists>new. db_revisions db' = db_revisions db @ new"
proof (induction rule: rcv_step.induct)
  case (s_record uid clock c as_of db db' res)
  from record_effect [OF this] show ?case by (auto simp: keeps_def)
next
  case (s_revise uid clock rid oid n kind delta db db' res)
  then show ?case by (cases rule: revise_effect) (auto simp: keeps_def)
next
  case (s_other db db')
  then show ?case by simp
qed

lemma rcv_run_grows: "rcv_step\<^sup>*\<^sup>* db db' \<Longrightarrow> \<exists>new. db_revisions db' = db_revisions db @ new"
  by (induction rule: rtranclp_induct) (fastforce dest: rcv_step_grows)+

lemma find_append: "List.find P (xs @ ys) = (case List.find P xs of None \<Rightarrow> List.find P ys | Some x \<Rightarrow> Some x)"
  by (induction xs) auto

text \<open>A call that took effect or was flagged leaves its revision under its key.\<close>

lemma revision_recorded:
  assumes "apply_revision uid clock rid oid n kind delta db = Inr (db', res)"
    and "rs_applied res \<or> rs_reason res = Some ''REVISION_OUT_OF_ORDER''"
  shows "\<exists>k q. applied_kind kind = Some k \<and> rr_delta q = delta \<and>
    List.find (\<lambda>q. revision_key q = (rid, n, k)) (db_revisions db') = Some q"
proof -
  obtain k where k: "applied_kind kind = Some k"
    using assms(1) unfolding apply_revision_def
    by (auto simp: then_do_eq_Inr simp del: applied_kind.simps split: option.splits)
  have none: "List.find (\<lambda>q. revision_key q = (rid, n, k)) (db_revisions db) = None"
  proof (rule ccontr)
    assume "List.find (\<lambda>q. revision_key q = (rid, n, k)) (db_revisions db) \<noteq> None"
    with assms k show False unfolding apply_revision_def
      by (auto simp: then_do_eq_Inr conflict_result_def simp del: applied_kind.simps split: option.splits if_splits)
  qed
  from assms(1) obtain q where "db_revisions db' = db_revisions db @ [q]" "rr_delta q = delta" "revision_key q = (rid, n, k)"
  proof (cases rule: revise_effect)
    case kept
    with assms(2) show ?thesis by blast
  next
    case (flagged row k')
    with k that show ?thesis by (simp add: revision_key_def revision_of_def del: applied_kind.simps)
  next
    case (applied row k')
    with k that show ?thesis by (simp add: revision_key_def revision_of_def del: applied_kind.simps)
  qed
  with k none show ?thesis by (auto simp: find_append simp del: applied_kind.simps)
qed

text \<open>A revision takes effect at most once. Once \<open>apply_revision\<close> has applied a revision, or has flagged it as out
  of order, no later call with the same receivable, number, kind and delta changes anything, however much
  happens in between and whatever observation it cites: it answers DUPLICATE_REVISION.\<close>

theorem revision_takes_effect_once:
  assumes "apply_revision uid clock rid oid n kind delta db = Inr (db1, res)"
    and "rs_applied res \<or> rs_reason res = Some ''REVISION_OUT_OF_ORDER''" and "rcv_step\<^sup>*\<^sup>* db1 db2"
    and "apply_revision uid2 clock2 rid oid2 n kind delta db2 = Inr (db3, res2)"
  shows "db3 = db2 \<and> \<not> rs_applied res2 \<and> rs_reason res2 = Some ''DUPLICATE_REVISION''"
proof -
  obtain k q where k: "applied_kind kind = Some k" "rr_delta q = delta"
    "List.find (\<lambda>q. revision_key q = (rid, n, k)) (db_revisions db1) = Some q"
    using revision_recorded [OF assms(1,2)] by blast
  obtain new where "db_revisions db2 = db_revisions db1 @ new" using rcv_run_grows [OF assms(3)] by blast
  with k(3) have "List.find (\<lambda>q. revision_key q = (rid, n, k)) (db_revisions db2) = Some q" by (simp add: find_append)
  with assms(4) k(1,2) show ?thesis unfolding apply_revision_def
    by (auto simp: then_do_eq_Inr conflict_result_def simp del: applied_kind.simps split: option.splits)
qed

lemma sample_again_ok:
  "case sample_paid_again of Inl _ \<Rightarrow> False | Inr (db, r) \<Rightarrow> True"
  by code_simp

theorem revision_takes_effect_once_witness:
  "\<exists>db2 res2. apply_revision (\<lambda>n. ''Y'') 60 ''R1'' ''O3'' 2 ''PAYOUT'' 30 db2 = Inr (db2, res2) \<and> \<not> rs_applied res2 \<and>
     map rv_paid (db_receivables db2) = [40]"
proof -
  obtain db1 r1 db2 r2 where a: "record_obligation (\<lambda>n. ''X'') 40 sample_obligation (Aware 25) sample_rcv_db = Inr (db1, r1)"
    and b: "apply_revision (\<lambda>n. ''X'') 50 ''R1'' ''O2'' 2 ''PAYOUT'' 30 db1 = Inr (db2, r2)" "rs_applied r2"
    and paid: "map rv_paid (db_receivables db2) = [40]" by (rule sample_rcv_run)
  obtain db3 r3 where c: "apply_revision (\<lambda>n. ''Y'') 60 ''R1'' ''O3'' 2 ''PAYOUT'' 30 db2 = Inr (db3, r3)"
    using sample_again_ok a b unfolding sample_paid_again_def sample_recorded_def
    by (auto simp: then_do_def split: sum.splits prod.splits)
  from revision_takes_effect_once [OF b(1) disjI1 [OF b(2)] rtranclp.rtrancl_refl c] c paid show ?thesis
    by (intro exI [of _ db2] exI [of _ r3]) simp
qed

text \<open>A revision that takes effect withdraws the credit that rested on the old balance. After \<open>apply_revision\<close> applied
  a revision, the receivable has no checkpoint any more, its revision number went up by one, and no draft
  or approved credit decision of its facility is left; decisions of other facilities are untouched.\<close>

theorem revision_withdraws_credit:
  assumes "apply_revision uid clock rid oid n kind delta db = Inr (db', res)" and "rs_applied res"
  shows "\<exists>row \<in> set (db_receivables db). rv_id row = rid \<and>
    (\<exists>row' \<in> set (db_receivables db'). rv_id row' = rid \<and> rv_revision row' = rv_revision row + 1 \<and>
       rv_checkpoint_seq row' = None \<and> rv_checkpoint_id row' = None) \<and>
    (\<forall>f. rv_facility_id row = Some f \<longrightarrow>
       (\<forall>d \<in> set (db_decisions db'). cd_facility_id d = f \<longrightarrow> cd_status d \<notin> {DS_DRAFT, DS_APPROVED})) \<and>
    (\<forall>d. Some (cd_facility_id d) \<noteq> rv_facility_id row \<longrightarrow> (d \<in> set (db_decisions db') \<longleftrightarrow> d \<in> set (db_decisions db)))"
  using assms(1)
proof (cases rule: revise_effect)
  case kept
  with assms(2) show ?thesis by blast
next
  case (flagged row k)
  with assms(2) show ?thesis by blast
next
  case (applied row k)
  have c: "rv_checkpoint_seq (revised n k delta row) = None" "rv_checkpoint_id (revised n k delta row) = None"
    by (simp_all add: revised_def split_beta)
  have "revised n k delta row \<in> set (db_receivables db')"
    using applied(1,2) by (auto simp: applied(7) in_update_where)
  then have "\<exists>row' \<in> set (db_receivables db'). rv_id row' = rid \<and> rv_revision row' = rv_revision row + 1 \<and>
       rv_checkpoint_seq row' = None \<and> rv_checkpoint_id row' = None"
    using c applied(2,4) by (intro bexI [of _ "revised n k delta row"]) simp_all
  moreover have "\<forall>f. rv_facility_id row = Some f \<longrightarrow>
       (\<forall>d \<in> set (db_decisions db'). cd_facility_id d = f \<longrightarrow> cd_status d \<notin> {DS_DRAFT, DS_APPROVED})"
  proof (intro allI impI ballI)
    fix f d assume "rv_facility_id row = Some f" "d \<in> set (db_decisions db')" "cd_facility_id d = f"
    then obtain q where q: "d = (if cd_facility_id q = f \<and> cd_status q \<in> {DS_DRAFT, DS_APPROVED} then q\<lparr>cd_status := DS_REVOKED\<rparr> else q)"
      unfolding applied(9) revoke_decisions_def by (auto simp: in_update_where simp del: if_split)
    show "cd_status d \<notin> {DS_DRAFT, DS_APPROVED}"
    proof (cases "cd_facility_id q = f \<and> cd_status q \<in> {DS_DRAFT, DS_APPROVED}")
      case True
      with q show ?thesis by simp
    next
      case False
      then have "d = q" using q by (simp only: if_False)
      with False \<open>cd_facility_id d = f\<close> show ?thesis by simp
    qed
  qed
  moreover have "\<forall>d. Some (cd_facility_id d) \<noteq> rv_facility_id row \<longrightarrow> (d \<in> set (db_decisions db') \<longleftrightarrow> d \<in> set (db_decisions db))"
  proof (intro allI impI)
    fix d :: decision_row assume "Some (cd_facility_id d) \<noteq> rv_facility_id row"
    then show "d \<in> set (db_decisions db') \<longleftrightarrow> d \<in> set (db_decisions db)"
      unfolding applied(9) revoke_decisions_def by (cases "rv_facility_id row") (force simp: in_update_where)+
  qed
  ultimately show ?thesis using applied(1,2) by blast
qed

theorem revision_withdraws_credit_witness:
  "\<exists>db1 db2 r2. apply_revision (\<lambda>n. ''X'') 50 ''R1'' ''O2'' 2 ''PAYOUT'' 30 db1 = Inr (db2, r2) \<and>
     (\<exists>row' \<in> set (db_receivables db2). rv_id row' = ''R1'' \<and> rv_checkpoint_id row' = None)"
proof -
  obtain db1 db2 r2 where b: "apply_revision (\<lambda>n. ''X'') 50 ''R1'' ''O2'' 2 ''PAYOUT'' 30 db1 = Inr (db2, r2)" "rs_applied r2"
    by (rule sample_rcv_run)
  from revision_withdraws_credit [OF this] b show ?thesis by blast
qed

end
