(* ===== verification/Bitcoin.thy ===== *)
theory Bitcoin
  imports Core_DB
begin

text \<open>
  Bitcoin data structures of the prover (\<open>hashcredit_prover/bitcoin.py\<close>): byte order, block headers,
  Merkle roots and inclusion proofs, variable-length integers, transaction outputs and the two
  supported output scripts. Bytes are lists of numbers below 256; SHA-256 is a parameter. Python
  raises \<open>IndexError\<close> for an index out of range and truncates a slice, and so does the model.
\<close>

unbundle bit_operations_syntax

section \<open>Hashes and byte order\<close>

definition sha256d :: "hash_fun \<Rightarrow> bytes \<Rightarrow> bytes" where
  "sha256d sha data = sha (sha data)"

definition reverse_bytes :: "bytes \<Rightarrow> bytes" where
  "reverse_bytes data = rev data"

definition bytes_to_hex_le :: "bytes \<Rightarrow> string" where
  "bytes_to_hex_le data = hex_of_bytes (reverse_bytes data)"

definition fromhex :: "string \<Rightarrow> app_error + bytes" where
  "fromhex s = (case bytes_fromhex s of None \<Rightarrow> Inl (ValueError ''non-hexadecimal number found'') | Some b \<Rightarrow> Inr b)"

definition hex_le_to_bytes :: "string \<Rightarrow> app_error + bytes" where
  "hex_le_to_bytes s = then_do (fromhex s) (\<lambda>b. Inr (reverse_bytes b))"

definition txid_display_to_internal :: "string \<Rightarrow> app_error + bytes" where
  "txid_display_to_internal s = hex_le_to_bytes s"

definition txid_internal_to_display :: "bytes \<Rightarrow> string" where
  "txid_internal_to_display b = bytes_to_hex_le b"

section \<open>Block headers\<close>

record block_header =
  bh_version :: nat
  bh_prev_block_hash :: bytes
  bh_merkle_root :: bytes
  bh_timestamp :: nat
  bh_bits :: nat
  bh_nonce :: nat

definition header_from_bytes :: "bytes \<Rightarrow> app_error + block_header" where
  "header_from_bytes data =
    (if length data \<noteq> 80 then Inl (ValueError ''Header must be 80 bytes'')
     else Inr \<lparr>bh_version = int_of_le (slice data 0 4), bh_prev_block_hash = slice data 4 36,
       bh_merkle_root = slice data 36 68, bh_timestamp = int_of_le (slice data 68 72),
       bh_bits = int_of_le (slice data 72 76), bh_nonce = int_of_le (slice data 76 80)\<rparr>)"

definition to_le :: "nat \<Rightarrow> nat \<Rightarrow> app_error + bytes" where
  "to_le n v = (if v < 256 ^ n then Inr (le_bytes n v) else Inl (OtherError ''OverflowError''))"

definition header_to_bytes :: "block_header \<Rightarrow> app_error + bytes" where
  "header_to_bytes h =
    then_do (to_le 4 (bh_version h)) (\<lambda>v.
    then_do (to_le 4 (bh_timestamp h)) (\<lambda>t.
    then_do (to_le 4 (bh_bits h)) (\<lambda>b.
    then_do (to_le 4 (bh_nonce h)) (\<lambda>n.
      Inr (v @ bh_prev_block_hash h @ bh_merkle_root h @ t @ b @ n)))))"

definition block_hash :: "hash_fun \<Rightarrow> block_header \<Rightarrow> app_error + bytes" where
  "block_hash sha h = then_do (header_to_bytes h) (\<lambda>b. Inr (sha256d sha b))"

definition block_hash_hex :: "hash_fun \<Rightarrow> block_header \<Rightarrow> app_error + string" where
  "block_hash_hex sha h = then_do (block_hash sha h) (\<lambda>b. Inr (bytes_to_hex_le b))"

section \<open>Merkle trees\<close>

text \<open>One level: the last hash is doubled when their number is odd, then neighbours are hashed together.\<close>

definition even_up :: "bytes list \<Rightarrow> bytes list" where
  "even_up hashes = (if length hashes mod 2 = 1 then hashes @ [last hashes] else hashes)"

fun hash_pairs :: "hash_fun \<Rightarrow> bytes list \<Rightarrow> bytes list" where
  "hash_pairs sha (a # b # rest) = sha256d sha (a @ b) # hash_pairs sha rest"
| "hash_pairs sha _ = []"

definition next_level :: "hash_fun \<Rightarrow> bytes list \<Rightarrow> bytes list" where
  "next_level sha hashes = hash_pairs sha (even_up hashes)"

lemma length_hash_pairs [simp]: "length (hash_pairs sha hs) = length hs div 2"
  by (induction sha hs rule: hash_pairs.induct) auto

lemma length_even_up: "length (even_up hs) = 2 * ((length hs + 1) div 2)"
  unfolding even_up_def by simp presburger

lemma length_next_level [simp]: "length (next_level sha hs) = (length hs + 1) div 2"
  by (simp add: next_level_def length_even_up)

function merkle_loop :: "hash_fun \<Rightarrow> bytes list \<Rightarrow> bytes list" where
  "merkle_loop sha hashes = (if length hashes \<le> 1 then hashes else merkle_loop sha (next_level sha hashes))"
  by pat_completeness auto

termination merkle_loop
  by (relation "measure (\<lambda>(_, hs). length hs)") auto

declare merkle_loop.simps [simp del]

definition compute_merkle_root :: "hash_fun \<Rightarrow> bytes list \<Rightarrow> app_error + bytes" where
  "compute_merkle_root sha txids =
    (if txids = [] then Inl (ValueError ''Cannot compute Merkle root of empty list'')
     else Inr (hd (merkle_loop sha txids)))"

function proof_loop :: "hash_fun \<Rightarrow> bytes list \<Rightarrow> nat \<Rightarrow> bytes list \<Rightarrow> bytes list \<times> bytes" where
  "proof_loop sha hashes index proof =
    (if length hashes \<le> 1 then (proof, hd hashes)
     else proof_loop sha (next_level sha hashes) (index div 2) (proof @ [even_up hashes ! (index XOR 1)]))"
  by pat_completeness auto

termination proof_loop
  by (relation "measure (\<lambda>(_, hs, _, _). length hs)") auto

declare proof_loop.simps [simp del]

definition generate_merkle_proof :: "hash_fun \<Rightarrow> bytes list \<Rightarrow> int \<Rightarrow> app_error + (bytes list \<times> bytes)" where
  "generate_merkle_proof sha txids tx_index =
    (if txids = [] then Inl (ValueError ''Cannot generate proof for empty list'')
     else if tx_index < 0 \<or> int (length txids) \<le> tx_index then Inl (ValueError ''tx_index out of range'')
     else Inr (proof_loop sha txids (nat tx_index) []))"

fun verify_loop :: "hash_fun \<Rightarrow> bytes \<Rightarrow> int \<Rightarrow> bytes list \<Rightarrow> bytes" where
  "verify_loop sha cur index [] = cur"
| "verify_loop sha cur index (sib # rest) =
     verify_loop sha (if index AND 1 = 0 then sha256d sha (cur @ sib) else sha256d sha (sib @ cur)) (index div 2) rest"

definition verify_merkle_proof :: "hash_fun \<Rightarrow> bytes \<Rightarrow> bytes \<Rightarrow> bytes list \<Rightarrow> int \<Rightarrow> bool" where
  "verify_merkle_proof sha txid root proof tx_index \<longleftrightarrow> verify_loop sha txid tx_index proof = root"

section \<open>Transactions\<close>

record tx_output =
  to_value :: nat
  to_script :: bytes

definition byte_at :: "bytes \<Rightarrow> nat \<Rightarrow> app_error + nat" where
  "byte_at data i = (if i < length data then Inr (data ! i) else Inl (OtherError ''IndexError''))"

definition parse_varint :: "bytes \<Rightarrow> nat \<Rightarrow> app_error + (nat \<times> nat)" where
  "parse_varint data offset =
    then_do (byte_at data offset) (\<lambda>first.
      if first < 0xFD then Inr (first, offset + 1)
      else if first = 0xFD then Inr (int_of_le (slice data (offset + 1) (offset + 3)), offset + 3)
      else if first = 0xFE then Inr (int_of_le (slice data (offset + 1) (offset + 5)), offset + 5)
      else Inr (int_of_le (slice data (offset + 1) (offset + 9)), offset + 9))"

fun skip_inputs :: "nat \<Rightarrow> bytes \<Rightarrow> nat \<Rightarrow> app_error + nat" where
  "skip_inputs 0 data offset = Inr offset"
| "skip_inputs (Suc n) data offset =
     then_do (parse_varint data (offset + 32 + 4)) (\<lambda>(script_len, off). skip_inputs n data (off + script_len + 4))"

fun read_outputs :: "nat \<Rightarrow> bytes \<Rightarrow> nat \<Rightarrow> app_error + tx_output list" where
  "read_outputs 0 data offset = Inr []"
| "read_outputs (Suc n) data offset =
     then_do (parse_varint data (offset + 8)) (\<lambda>(script_len, off).
     then_do (read_outputs n data (off + script_len)) (\<lambda>rest.
       Inr (\<lparr>to_value = int_of_le (slice data offset (offset + 8)), to_script = slice data off (off + script_len)\<rparr> # rest)))"

definition has_witness_marker :: "bytes \<Rightarrow> app_error + bool" where
  "has_witness_marker raw =
    then_do (byte_at raw 4) (\<lambda>a. if a \<noteq> 0 then Inr False else then_do (byte_at raw 5) (\<lambda>b. Inr (b = 1)))"

definition parse_tx_outputs :: "bytes \<Rightarrow> app_error + tx_output list" where
  "parse_tx_outputs raw =
    then_do (has_witness_marker raw) (\<lambda>w.
    then_do (parse_varint raw (if w then 6 else 4)) (\<lambda>(input_count, off).
    then_do (skip_inputs input_count raw off) (\<lambda>off.
    then_do (parse_varint raw off) (\<lambda>(output_count, off).
      read_outputs output_count raw off))))"

definition extract_pubkey_hash :: "bytes \<Rightarrow> bytes option \<times> string" where
  "extract_pubkey_hash script =
    (if length script = 22 \<and> script ! 0 = 0x00 \<and> script ! 1 = 0x14 then (Some (slice script 2 22), ''p2wpkh'')
     else if length script = 25 \<and> script ! 0 = 0x76 \<and> script ! 1 = 0xA9 \<and> script ! 2 = 0x14 \<and>
        script ! 23 = 0x88 \<and> script ! 24 = 0xAC then (Some (slice script 3 23), ''p2pkh'')
     else (None, ''unknown''))"

section \<open>Merkle proofs\<close>

text \<open>
  What a client of an inclusion proof relies on: an honest proof checks against the root, and two
  different values that check at the same position with proofs of the same size clash. Then a proof of
  the right size that checks against the root of a list is for the element of the list, or it clashes
  with the honest proof of that element.
\<close>

locale inclusion_scheme =
  fixes root :: "'v list \<Rightarrow> 'c"
    and prove :: "'v list \<Rightarrow> nat \<Rightarrow> 'p"
    and check :: "'c \<Rightarrow> nat \<Rightarrow> 'v \<Rightarrow> 'p \<Rightarrow> bool"
    and psize :: "'p \<Rightarrow> nat"
    and okv :: "'v \<Rightarrow> bool"
    and okp :: "'p \<Rightarrow> bool"
    and clash :: "nat \<Rightarrow> 'v \<Rightarrow> 'p \<Rightarrow> 'v \<Rightarrow> 'p \<Rightarrow> bool"
  assumes complete: "i < length xs \<Longrightarrow> check (root xs) i (xs ! i) (prove xs i)"
    and prove_ok: "i < length xs \<Longrightarrow> \<forall>x \<in> set xs. okv x \<Longrightarrow> okp (prove xs i)"
    and binding: "check c i x p \<Longrightarrow> check c i y q \<Longrightarrow> psize p = psize q \<Longrightarrow> okv x \<Longrightarrow> okv y \<Longrightarrow> okp p \<Longrightarrow> okp q \<Longrightarrow>
      x = y \<or> clash i x p y q"
begin

lemma member_of_list:
  assumes "i < length xs" and "\<forall>x \<in> set xs. okv x" and "okv x" and "okp p" and "psize p = psize (prove xs i)"
    and "check (root xs) i x p"
  shows "x = xs ! i \<or> clash i x p (xs ! i) (prove xs i)"
proof -
  have "okv (xs ! i)" using assms(1,2) by simp
  then show ?thesis using binding [OF assms(6) complete [OF assms(1)]] prove_ok [OF assms(1,2)] assms by blast
qed

end

lemma hash_pairs_nth:
  "even (length hs) \<Longrightarrow> j < length hs div 2 \<Longrightarrow> hash_pairs sha hs ! j = sha256d sha (hs ! (2 * j) @ hs ! (2 * j + 1))"
proof (induction sha hs arbitrary: j rule: hash_pairs.induct)
  case (1 sha a b rest)
  then show ?case by (cases j) auto
qed auto

lemma even_up_nth: "i < length hs \<Longrightarrow> even_up hs ! i = hs ! i"
  by (simp add: even_up_def nth_append)

lemma even_length_even_up [simp]: "even (length (even_up hs))"
  by (simp add: length_even_up)

text \<open>One step of the verifier goes from a hash to its parent on the next level.\<close>

lemma verify_step:
  assumes "i < length hs" and "1 < length hs"
  shows "verify_loop sha (hs ! i) (int i) ((even_up hs ! (i XOR 1)) # rest) =
    verify_loop sha (next_level sha hs ! (i div 2)) (int (i div 2)) rest"
proof -
  have j: "i div 2 < length (even_up hs) div 2" using assms by (simp add: length_even_up)
  have parent: "next_level sha hs ! (i div 2) =
      sha256d sha (even_up hs ! (2 * (i div 2)) @ even_up hs ! (2 * (i div 2) + 1))"
    unfolding next_level_def by (rule hash_pairs_nth [OF _ j]) simp
  have "int i AND 1 = 0 \<longleftrightarrow> even i" by (simp add: and_one_eq) presburger
  then show ?thesis
    by (cases "even i")
      (auto simp: parent xor_Suc_0_eq zdiv_int even_up_nth [OF assms(1)] elim!: evenE oddE)
qed

lemma proof_loop_acc: "proof_loop sha hs i ps = (ps @ fst (proof_loop sha hs i []), snd (proof_loop sha hs i []))"
proof (induction sha hs arbitrary: i ps rule: merkle_loop.induct)
  case (1 sha hs)
  show ?case
  proof (cases "length hs \<le> 1")
    case True
    then show ?thesis by (simp add: proof_loop.simps)
  next
    case False
    let ?s = "even_up hs ! (i XOR 1)"
    have "proof_loop sha hs i qs = proof_loop sha (next_level sha hs) (i div 2) (qs @ [?s])" for qs
      using False by (subst proof_loop.simps) simp
    with 1 [OF False, of "i div 2" "ps @ [?s]"] 1 [OF False, of "i div 2" "[?s]"] show ?thesis by simp
  qed
qed

lemma proof_loop_root:
  "i < length hs \<Longrightarrow> snd (proof_loop sha hs i []) = hd (merkle_loop sha hs) \<and>
     verify_loop sha (hs ! i) (int i) (fst (proof_loop sha hs i [])) = hd (merkle_loop sha hs)"
proof (induction sha hs arbitrary: i rule: merkle_loop.induct)
  case (1 sha hs)
  show ?case
  proof (cases "length hs \<le> 1")
    case True
    with "1.prems" have "hs \<noteq> []" "i = 0" by auto
    with True show ?thesis by (simp add: proof_loop.simps merkle_loop.simps hd_conv_nth)
  next
    case False
    let ?s = "even_up hs ! (i XOR 1)"
    have i: "i div 2 < length (next_level sha hs)" using "1.prems" by simp
    have p: "proof_loop sha hs i [] = proof_loop sha (next_level sha hs) (i div 2) [?s]"
      using False by (subst proof_loop.simps) simp
    have m: "merkle_loop sha hs = merkle_loop sha (next_level sha hs)"
      using False by (subst merkle_loop.simps) simp
    from verify_step [OF "1.prems"] "1.IH" [OF False i] False show ?thesis
      unfolding p m by (subst (1 2) proof_loop_acc) simp
  qed
qed

text \<open>SHA-256 gives 32 bytes. The elements of a proof are hashes of a level, so they have that length.\<close>

definition hash32 :: "hash_fun \<Rightarrow> bool" where
  "hash32 sha \<longleftrightarrow> (\<forall>x. length (sha x) = 32)"

lemma next_level_lengths: "hash32 sha \<Longrightarrow> x \<in> set (next_level sha hs) \<Longrightarrow> length x = 32"
proof -
  have "hash32 sha \<Longrightarrow> x \<in> set (hash_pairs sha ys) \<Longrightarrow> length x = 32" for ys
    by (induction sha ys rule: hash_pairs.induct) (auto simp: sha256d_def hash32_def)
  then show "hash32 sha \<Longrightarrow> x \<in> set (next_level sha hs) \<Longrightarrow> length x = 32" by (simp add: next_level_def)
qed

lemma proof_loop_lengths:
  "hash32 sha \<Longrightarrow> i < length hs \<Longrightarrow> \<forall>x \<in> set hs. length x = 32 \<Longrightarrow> \<forall>x \<in> set (fst (proof_loop sha hs i [])). length x = 32"
proof (induction sha hs arbitrary: i rule: merkle_loop.induct)
  case (1 sha hs)
  show ?case
  proof (cases "length hs \<le> 1")
    case True
    then show ?thesis by (simp add: proof_loop.simps)
  next
    case False
    let ?s = "even_up hs ! (i XOR 1)"
    have "hs \<noteq> []" using False by auto
    then have "set (even_up hs) \<subseteq> set hs" by (simp add: even_up_def)
    moreover have "i XOR 1 < length (even_up hs)"
      using "1.prems"(2) False by (auto simp: length_even_up xor_Suc_0_eq elim!: evenE oddE) presburger+
    ultimately have s: "length ?s = 32" using "1.prems"(3) by (meson nth_mem subsetD)
    have p: "proof_loop sha hs i [] = proof_loop sha (next_level sha hs) (i div 2) [?s]"
      using False by (subst proof_loop.simps) simp
    have "\<forall>x \<in> set (fst (proof_loop sha (next_level sha hs) (i div 2) [])). length x = 32"
      using "1.prems" False by (intro "1.IH") (auto dest: next_level_lengths)
    with s show ?thesis unfolding p by (subst proof_loop_acc) simp
  qed
qed

text \<open>
  The inputs that \<open>verify_loop\<close> hashes, in order. Two runs collide when, in the same round, they hash
  different inputs to the same value.
\<close>

fun hashed_inputs :: "hash_fun \<Rightarrow> bytes \<Rightarrow> int \<Rightarrow> bytes list \<Rightarrow> bytes list" where
  "hashed_inputs sha cur index [] = []"
| "hashed_inputs sha cur index (sib # rest) =
     (let z = (if index AND 1 = 0 then cur @ sib else sib @ cur)
      in z # hashed_inputs sha (sha256d sha z) (index div 2) rest)"

definition collides :: "hash_fun \<Rightarrow> bytes list \<Rightarrow> bytes list \<Rightarrow> bool" where
  "collides sha zs ws \<longleftrightarrow> (\<exists>(a, b) \<in> set (zip zs ws). a \<noteq> b \<and> sha256d sha a = sha256d sha b)"

text \<open>Two different values that verify to the same hash at the same position exhibit a collision.\<close>

lemma verify_collision:
  assumes "hash32 sha"
  shows "length p = length q \<Longrightarrow> verify_loop sha x i p = verify_loop sha y i q \<Longrightarrow> x \<noteq> y \<Longrightarrow> length x = 32 \<Longrightarrow> length y = 32 \<Longrightarrow>
    \<forall>s \<in> set p \<union> set q. length s = 32 \<Longrightarrow> collides sha (hashed_inputs sha x i p) (hashed_inputs sha y i q)"
proof (induction p q arbitrary: x y i rule: list_induct2)
  case Nil
  then show ?case by simp
next
  case (Cons s p t q)
  let ?x = "if i AND 1 = 0 then x @ s else s @ x" and ?y = "if i AND 1 = 0 then y @ t else t @ y"
  have len: "length (sha256d sha z) = 32" for z using assms by (simp add: hash32_def sha256d_def)
  have ne: "?x \<noteq> ?y" using Cons.prems by auto
  have v: "verify_loop sha (sha256d sha ?x) (i div 2) p = verify_loop sha (sha256d sha ?y) (i div 2) q"
    using Cons.prems(1) by (simp split: if_splits)
  have h: "hashed_inputs sha x i (s # p) = ?x # hashed_inputs sha (sha256d sha ?x) (i div 2) p"
    "hashed_inputs sha y i (t # q) = ?y # hashed_inputs sha (sha256d sha ?y) (i div 2) q" by (simp_all only: hashed_inputs.simps Let_def)
  show ?case
  proof (cases "sha256d sha ?x = sha256d sha ?y")
    case True
    with ne show ?thesis unfolding h collides_def by (simp only: zip_Cons_Cons list.set bex_simps) blast
  next
    case False
    have "collides sha (hashed_inputs sha (sha256d sha ?x) (i div 2) p) (hashed_inputs sha (sha256d sha ?y) (i div 2) q)"
      by (rule Cons.IH [OF v False len len]) (use Cons.prems(5) in auto)
    then show ?thesis unfolding h collides_def by (simp only: zip_Cons_Cons list.set) blast
  qed
qed

interpretation merkle: inclusion_scheme
  "\<lambda>txids. hd (merkle_loop sha txids)" "\<lambda>txids i. fst (proof_loop sha txids i [])"
  "\<lambda>root i txid proof. verify_merkle_proof sha txid root proof (int i)"
  length "\<lambda>x. hash32 sha \<and> length x = 32" "\<lambda>proof. \<forall>s \<in> set proof. length s = 32"
  "\<lambda>i x p y q. collides sha (hashed_inputs sha x (int i) p) (hashed_inputs sha y (int i) q)"
  for sha
proof unfold_locales
  fix i and xs :: "bytes list" assume "i < length xs"
  then show "verify_merkle_proof sha (xs ! i) (hd (merkle_loop sha xs)) (fst (proof_loop sha xs i [])) (int i)"
    by (simp add: verify_merkle_proof_def proof_loop_root)
next
  fix i and xs :: "bytes list" assume i: "i < length xs" and ok: "\<forall>x \<in> set xs. hash32 sha \<and> length x = 32"
  then have "hash32 sha" by (metis nth_mem)
  then show "\<forall>s \<in> set (fst (proof_loop sha xs i [])). length s = 32" using proof_loop_lengths i ok by blast
next
  fix c i x y :: bytes and p q :: "bytes list" and j :: nat
  assume "verify_merkle_proof sha x c p (int j)" "verify_merkle_proof sha y c q (int j)" "length p = length q"
    "hash32 sha \<and> length x = 32" "hash32 sha \<and> length y = 32" "\<forall>s \<in> set p. length s = 32" "\<forall>s \<in> set q. length s = 32"
  then show "x = y \<or> collides sha (hashed_inputs sha x (int j) p) (hashed_inputs sha y (int j) q)"
    using verify_collision [of sha p q x "int j" y] by (auto simp: verify_merkle_proof_def)
qed

lemma generate_verifies:
  assumes "generate_merkle_proof sha txids i = Inr (pf, root)"
  shows "0 \<le> i \<and> i < int (length txids) \<and> compute_merkle_root sha txids = Inr root \<and> verify_merkle_proof sha (txids ! nat i) root pf i"
proof -
  have i: "0 \<le> i" "nat i < length txids" and p: "proof_loop sha txids (nat i) [] = (pf, root)"
    using assms by (auto simp: generate_merkle_proof_def split: if_splits)
  from proof_loop_root [OF i(2), of sha] p i show ?thesis
    by (auto simp: compute_merkle_root_def verify_merkle_proof_def)
qed

lemma proof_loop_depth:
  "hs \<noteq> [] \<Longrightarrow> length hs \<le> 2 ^ length (fst (proof_loop sha hs i [])) \<and>
     (length (fst (proof_loop sha hs i [])) = 0 \<or> 2 ^ (length (fst (proof_loop sha hs i [])) - 1) < length hs)"
proof (induction sha hs arbitrary: i rule: merkle_loop.induct)
  case (1 sha hs)
  show ?case
  proof (cases "length hs \<le> 1")
    case True
    then show ?thesis by (simp add: proof_loop.simps)
  next
    case False
    let ?p = "fst (proof_loop sha (next_level sha hs) (i div 2) [])"
    have "next_level sha hs \<noteq> []" using False by (metis length_next_level One_nat_def Suc_1 add.commute
        add_gr_0 div_greater_zero_iff length_greater_0_conv linorder_not_le nat_less_le not_less_eq_eq plus_1_eq_Suc)
    from "1.IH" [OF False this, of "i div 2"]
    have ih: "(length hs + 1) div 2 \<le> 2 ^ length ?p" "length ?p = 0 \<or> 2 ^ (length ?p - 1) < (length hs + 1) div 2" by simp_all
    have len: "length (fst (proof_loop sha hs i [])) = Suc (length ?p)"
      using False by (subst proof_loop.simps, simp, subst proof_loop_acc) simp
    have "2 ^ length ?p < length hs"
    proof (cases "length ?p = 0")
      case True
      with False show ?thesis by simp
    next
      case pos: False
      then have "(2 :: nat) ^ length ?p = 2 * 2 ^ (length ?p - 1)" by (metis power_eq_if)
      moreover have "2 ^ (length ?p - 1) < (length hs + 1) div 2" using ih(2) pos by blast
      ultimately show ?thesis by linarith
    qed
    with ih(1) show ?thesis unfolding len by simp
  qed
qed

text \<open>Building a proof takes as many rounds as the tree is deep. \<open>generate_merkle_proof\<close> ends for every block, and
  the number of rounds of its loop, which is the number of siblings in the proof, is the least number \<open>k\<close>
  such that \<open>2\<^sup>k\<close> is at least the number of transactions.\<close>

theorem merkle_proof_depth:
  assumes "generate_merkle_proof sha txids i = Inr (pf, root)"
  shows "length txids \<le> 2 ^ length pf \<and> (\<forall>k. length txids \<le> 2 ^ k \<longrightarrow> length pf \<le> k)"
proof -
  have p: "txids \<noteq> []" "pf = fst (proof_loop sha txids (nat i) [])"
    using assms by (auto simp: generate_merkle_proof_def split: if_splits)
  note d = proof_loop_depth [OF p(1), of sha "nat i", folded p(2)]
  have "length pf \<le> k" if "length txids \<le> 2 ^ k" for k
  proof (rule ccontr)
    assume "\<not> length pf \<le> k"
    then have "(2 :: nat) ^ k \<le> 2 ^ (length pf - 1)" by (intro power_increasing) auto
    moreover have "2 ^ (length pf - 1) < length txids" using d \<open>\<not> length pf \<le> k\<close> by auto
    ultimately show False using that by linarith
  qed
  with d show ?thesis by blast
qed

text \<open>A generated inclusion proof verifies. For every block and every position in it, \<open>generate_merkle_proof\<close> returns
  a proof and the root that \<open>compute_merkle_root\<close> gives, and \<open>verify_merkle_proof\<close> accepts the transaction at
  that position; outside the block, and for an empty one, it raises.\<close>

theorem generated_proof_verifies:
  "if txids \<noteq> [] \<and> 0 \<le> i \<and> i < int (length txids)
   then \<exists>pf root. generate_merkle_proof sha txids i = Inr (pf, root) \<and> compute_merkle_root sha txids = Inr root \<and>
     verify_merkle_proof sha (txids ! nat i) root pf i
   else \<exists>e. generate_merkle_proof sha txids i = Inl e"
proof (cases "txids \<noteq> [] \<and> 0 \<le> i \<and> i < int (length txids)")
  case True
  then have i: "nat i < length txids" by auto
  obtain pf root where p: "proof_loop sha txids (nat i) [] = (pf, root)" by fastforce
  with True proof_loop_root [OF i, of sha] merkle.complete [OF i, of sha] show ?thesis
    by (auto simp: generate_merkle_proof_def compute_merkle_root_def)
next
  case False
  then show ?thesis by (auto simp: generate_merkle_proof_def)
qed

text \<open>C37: an inclusion proof cannot be forged without breaking the hash. If a 32-byte value verifies against the
  Merkle root of a block of 32-byte ids at a position of the block, with a proof of 32-byte hashes as long
  as the honest one, then it is the id at that position, or in some round the check of the forged proof and
  the check of the honest proof hash different inputs to the same value: the two proofs exhibit a collision of
  the double SHA-256.\<close>

theorem forged_proof_gives_collision:
  assumes "\<forall>x. length (sha x) = 32" and "\<forall>t \<in> set txids. length t = 32" and "0 \<le> i" and "i < int (length txids)"
    and "generate_merkle_proof sha txids i = Inr (honest, root)" and "length pf = length honest"
    and "\<forall>s \<in> set pf. length s = 32" and "length x = 32" and "verify_merkle_proof sha x root pf i"
  shows "x = txids ! nat i \<or>
    (\<exists>(a, b) \<in> set (zip (hashed_inputs sha x i pf) (hashed_inputs sha (txids ! nat i) i honest)).
       a \<noteq> b \<and> sha256d sha a = sha256d sha b)"
proof -
  have i: "nat i < length txids" using assms(3,4) by simp
  have h: "honest = fst (proof_loop sha txids (nat i) [])" "root = hd (merkle_loop sha txids)"
    using assms(4,5) proof_loop_root [OF i, of sha] by (auto simp: generate_merkle_proof_def split: if_splits)
  have "x = txids ! nat i \<or> collides sha (hashed_inputs sha x (int (nat i)) pf) (hashed_inputs sha (txids ! nat i) (int (nat i)) honest)"
    unfolding h(1) using assms h by (intro merkle.member_of_list [OF i, where p = pf]) (simp_all add: hash32_def)
  with assms(3) show ?thesis by (simp add: collides_def)
qed

definition weak_hash :: hash_fun where
  "weak_hash x = take 32 (x @ replicate 32 0)"

definition sample_txids :: "bytes list" where
  "sample_txids = [replicate 32 1, replicate 32 2, replicate 32 3]"

theorem forged_proof_gives_collision_witness:
  "\<exists>(a, b) \<in> set (zip (hashed_inputs weak_hash (replicate 32 9) 1 [replicate 32 1, replicate 32 3])
      (hashed_inputs weak_hash (sample_txids ! nat 1) 1 [replicate 32 1, replicate 32 3])).
     a \<noteq> b \<and> sha256d weak_hash a = sha256d weak_hash b"
proof -
  have g: "generate_merkle_proof weak_hash sample_txids 1 = Inr ([replicate 32 1, replicate 32 3], replicate 32 1)"
    by code_simp
  have v: "verify_merkle_proof weak_hash (replicate 32 9) (replicate 32 1) [replicate 32 1, replicate 32 3] 1"
    by code_simp
  have ne: "replicate 32 (9 :: nat) \<noteq> sample_txids ! nat 1" by code_simp
  have len: "\<forall>x. length (weak_hash x) = 32" by (auto simp: weak_hash_def)
  show ?thesis
    by (rule disjE [OF forged_proof_gives_collision [OF len _ _ _ g _ _ _ v]])
      (use ne in \<open>simp_all add: sample_txids_def\<close>)
qed

theorem merkle_proof_depth_witness:
  "generate_merkle_proof weak_hash sample_txids 1 = Inr ([replicate 32 1, replicate 32 3], replicate 32 1) \<and>
   length sample_txids \<le> 2 ^ 2 \<and> \<not> length sample_txids \<le> 2 ^ 1"
proof -
  have g: "generate_merkle_proof weak_hash sample_txids 1 = Inr ([replicate 32 1, replicate 32 3], replicate 32 1)"
    by code_simp
  have "length sample_txids \<le> 2 ^ length [replicate 32 (1 :: nat), replicate 32 3]"
    "length sample_txids \<le> 2 ^ 1 \<Longrightarrow> length [replicate 32 (1 :: nat), replicate 32 3] \<le> 1"
    using merkle_proof_depth [OF g] by blast+
  with g show ?thesis by auto
qed

section \<open>Round trips\<close>

lemma hex_le_round_trip: "is_bytes b \<Longrightarrow> hex_le_to_bytes (bytes_to_hex_le b) = Inr b"
  by (simp add: hex_le_to_bytes_def fromhex_def bytes_to_hex_le_def reverse_bytes_def is_bytes_def list_all_iff
      bytes_fromhex_of_bytes)

lemma slice_bytes: "is_bytes xs \<Longrightarrow> is_bytes (slice xs a b)"
  unfolding is_bytes_def slice_def list_all_iff by (meson in_set_dropD in_set_takeD)

lemma length_slice [simp]: "length (slice xs a b) = min (b - a) (length xs - a)"
  by (simp add: slice_def)

lemma slice_join: "a \<le> b \<Longrightarrow> b \<le> c \<Longrightarrow> slice xs a b @ slice xs b c = slice xs a c"
proof -
  assume ab: "a \<le> b" "b \<le> c"
  have "take (c - a) (drop a xs) = take (b - a) (drop a xs) @ take (c - b) (drop (b - a) (drop a xs))"
    using take_add [of "b - a" "c - b" "drop a xs"] ab by simp
  with ab show ?thesis by (simp add: slice_def)
qed

lemma to_le_slice:
  "is_bytes xs \<Longrightarrow> length xs = 80 \<Longrightarrow> b - a = 4 \<Longrightarrow> b \<le> 80 \<Longrightarrow> to_le 4 (int_of_le (slice xs a b)) = Inr (slice xs a b)"
  using int_of_le_bound [OF slice_bytes, of xs a b] le_bytes_int_of [OF slice_bytes, of xs a b]
  by (auto simp: to_le_def)

definition header_wf :: "block_header \<Rightarrow> bool" where
  "header_wf h \<longleftrightarrow> bh_version h < 2 ^ 32 \<and> bh_timestamp h < 2 ^ 32 \<and> bh_bits h < 2 ^ 32 \<and> bh_nonce h < 2 ^ 32 \<and>
     length (bh_prev_block_hash h) = 32 \<and> length (bh_merkle_root h) = 32"

lemma header_from_to:
  assumes "length data = 80" and "is_bytes data" and "header_from_bytes data = Inr h"
  shows "header_wf h \<and> header_to_bytes h = Inr data"
proof -
  have bd: "int_of_le (slice data a b) < 2 ^ 32" if "b - a = 4" "b \<le> 80" for a b
    using int_of_le_bound [OF slice_bytes [OF assms(2)], of a b] that assms(1) by auto
  have "slice data 0 4 @ slice data 4 36 @ slice data 36 68 @ slice data 68 72 @ slice data 72 76 @ slice data 76 80 = data"
    using assms(1) by (simp add: slice_join) (simp add: slice_def)
  with assms bd show ?thesis
    by (auto simp: header_from_bytes_def header_to_bytes_def to_le_slice header_wf_def)
qed

lemma header_to_from:
  assumes "header_wf h" and "header_to_bytes h = Inr data"
  shows "length data = 80 \<and> header_from_bytes data = Inr h"
proof -
  have data: "data = le_bytes 4 (bh_version h) @ bh_prev_block_hash h @ bh_merkle_root h @ le_bytes 4 (bh_timestamp h) @
      le_bytes 4 (bh_bits h) @ le_bytes 4 (bh_nonce h)"
    using assms by (auto simp: header_to_bytes_def to_le_def header_wf_def)
  have l: "length (bh_prev_block_hash h) = 32" "length (bh_merkle_root h) = 32" using assms(1) by (auto simp: header_wf_def)
  have "slice data 0 4 = le_bytes 4 (bh_version h)" "slice data 4 36 = bh_prev_block_hash h"
    "slice data 36 68 = bh_merkle_root h" "slice data 68 72 = le_bytes 4 (bh_timestamp h)"
    "slice data 72 76 = le_bytes 4 (bh_bits h)" "slice data 76 80 = le_bytes 4 (bh_nonce h)"
    using l unfolding data slice_def by simp_all
  moreover have "int_of_le (le_bytes 4 v) = v" if "v < 2 ^ 32" for v using int_of_le_bytes [of v 4] that by simp
  ultimately show ?thesis using assms(1) l
    by (simp add: header_from_bytes_def header_wf_def) (simp add: data)
qed

text \<open>The serialisation of the Bitcoin protocol, as the reference the parser is checked against: a
  transaction is its version, the marker and flag of the witness format, inputs, outputs and the rest
  (witnesses and lock time).\<close>

definition varint :: "nat \<Rightarrow> bytes" where
  "varint n = (if n < 0xFD then [n] else if n < 2 ^ 16 then 0xFD # le_bytes 2 n
     else if n < 2 ^ 32 then 0xFE # le_bytes 4 n else 0xFF # le_bytes 8 n)"

record tx_input =
  ti_outpoint :: bytes
  ti_script :: bytes
  ti_sequence :: bytes

definition ser_input :: "tx_input \<Rightarrow> bytes" where
  "ser_input i = ti_outpoint i @ varint (length (ti_script i)) @ ti_script i @ ti_sequence i"

definition ser_output :: "tx_output \<Rightarrow> bytes" where
  "ser_output r = le_bytes 8 (to_value r) @ varint (length (to_script r)) @ to_script r"

definition ser_tx :: "bool \<Rightarrow> bytes \<Rightarrow> tx_input list \<Rightarrow> tx_output list \<Rightarrow> bytes \<Rightarrow> bytes" where
  "ser_tx w version ins outs rest = version @ (if w then [0, 1] else []) @ varint (length ins) @
     concat (map ser_input ins) @ varint (length outs) @ concat (map ser_output outs) @ rest"

definition tx_wf :: "bytes \<Rightarrow> tx_input list \<Rightarrow> tx_output list \<Rightarrow> bool" where
  "tx_wf version ins outs \<longleftrightarrow> length version = 4 \<and> ins \<noteq> [] \<and> length ins < 2 ^ 64 \<and> length outs < 2 ^ 64 \<and>
     (\<forall>i \<in> set ins. length (ti_outpoint i) = 36 \<and> length (ti_sequence i) = 4 \<and> length (ti_script i) < 2 ^ 64) \<and>
     (\<forall>r \<in> set outs. to_value r < 2 ^ 64 \<and> length (to_script r) < 2 ^ 64)"

lemma slice_middle: "slice (pre @ xs @ rest) (length pre) (length pre + length xs) = xs"
  by (simp add: slice_def)

lemma slice_after:
  "length xs = n \<Longrightarrow> slice (pre @ x # xs @ rest) (Suc (length pre)) (Suc (length pre) + n) = xs"
  by (simp add: slice_def)

lemma parse_varint_at:
  assumes "n < 2 ^ 64"
  shows "parse_varint (pre @ varint n @ rest) (length pre) = Inr (n, length pre + length (varint n))"
proof -
  have s: "slice (pre @ x # le_bytes k n @ rest) (Suc (length pre)) m = le_bytes k n" if "m = length pre + (k + 1)" for k x m
    unfolding that using slice_after [of "le_bytes k n" k pre x rest] by simp
  have v: "int_of_le (le_bytes k n) = n" if "n < 256 ^ k" for k by (rule int_of_le_bytes [OF that])
  show ?thesis using assms v [of 2] v [of 4] v [of 8] s [of "length pre + 3" 2 253] s [of "length pre + 5" 4 254] s [of "length pre + 9" 8 255]
    by (auto simp: parse_varint_def byte_at_def varint_def nth_append)
qed

lemma skip_inputs_ser:
  assumes "\<forall>i \<in> set ins. length (ti_outpoint i) = 36 \<and> length (ti_sequence i) = 4 \<and> length (ti_script i) < 2 ^ 64"
  shows "skip_inputs (length ins) (pre @ concat (map ser_input ins) @ rest) (length pre) =
    Inr (length pre + length (concat (map ser_input ins)))"
  using assms
proof (induction ins arbitrary: pre)
  case Nil
  then show ?case by simp
next
  case (Cons i ins)
  let ?tail = "ti_script i @ ti_sequence i @ concat (map ser_input ins) @ rest"
  have whole: "pre @ concat (map ser_input (i # ins)) @ rest =
      (pre @ ti_outpoint i) @ varint (length (ti_script i)) @ ?tail"
    by (simp add: ser_input_def)
  have split: "pre @ concat (map ser_input (i # ins)) @ rest = (pre @ ser_input i) @ concat (map ser_input ins) @ rest"
    by simp
  have off: "length pre + 32 + 4 = length (pre @ ti_outpoint i)" using Cons.prems by simp
  have "parse_varint (pre @ concat (map ser_input (i # ins)) @ rest) (length pre + 32 + 4) =
      Inr (length (ti_script i), length (pre @ ti_outpoint i) + length (varint (length (ti_script i))))"
    using parse_varint_at [of "length (ti_script i)" "pre @ ti_outpoint i" ?tail] Cons.prems unfolding whole off by simp
  moreover have "length (pre @ ti_outpoint i) + length (varint (length (ti_script i))) + length (ti_script i) + 4 = length (pre @ ser_input i)"
    using Cons.prems by (simp add: ser_input_def)
  ultimately have "skip_inputs (length (i # ins)) (pre @ concat (map ser_input (i # ins)) @ rest) (length pre) =
      skip_inputs (length ins) ((pre @ ser_input i) @ concat (map ser_input ins) @ rest) (length (pre @ ser_input i))"
    unfolding split length_Cons skip_inputs.simps by (simp only: then_do_Inr prod.case)
  also have "\<dots> = Inr (length (pre @ ser_input i) + length (concat (map ser_input ins)))"
    using Cons.prems by (intro Cons.IH) simp
  finally show ?case by simp
qed

lemma read_outputs_ser:
  assumes "\<forall>r \<in> set outs. to_value r < 2 ^ 64 \<and> length (to_script r) < 2 ^ 64"
  shows "read_outputs (length outs) (pre @ concat (map ser_output outs) @ rest) (length pre) = Inr outs"
  using assms
proof (induction outs arbitrary: pre)
  case Nil
  then show ?case by simp
next
  case (Cons r outs)
  let ?data = "pre @ concat (map ser_output (r # outs)) @ rest" and ?v = "varint (length (to_script r))"
  have d1: "?data = (pre @ le_bytes 8 (to_value r)) @ ?v @ to_script r @ concat (map ser_output outs) @ rest"
    and d2: "?data = (pre @ le_bytes 8 (to_value r) @ ?v) @ to_script r @ concat (map ser_output outs) @ rest"
    and d3: "?data = (pre @ ser_output r) @ concat (map ser_output outs) @ rest"
    and d4: "?data = pre @ le_bytes 8 (to_value r) @ ?v @ to_script r @ concat (map ser_output outs) @ rest"
    by (simp_all add: ser_output_def)
  have "parse_varint ?data (length pre + 8) = Inr (length (to_script r), length pre + 8 + length ?v)"
    using parse_varint_at [of "length (to_script r)" "pre @ le_bytes 8 (to_value r)"] Cons.prems unfolding d1 by simp
  moreover have "slice ?data (length pre) (length pre + 8) = le_bytes 8 (to_value r)"
    unfolding d4 using slice_middle [of pre "le_bytes 8 (to_value r)"] by simp
  moreover have "slice ?data (length pre + 8 + length ?v) (length pre + 8 + length ?v + length (to_script r)) = to_script r"
    unfolding d2 using slice_middle [of "pre @ le_bytes 8 (to_value r) @ ?v" "to_script r"] by (simp add: add_ac)
  moreover have "read_outputs (length outs) ?data (length pre + 8 + length ?v + length (to_script r)) = Inr outs"
  proof -
    have off: "length pre + 8 + length ?v + length (to_script r) = length (pre @ ser_output r)" by (simp add: ser_output_def)
    show ?thesis unfolding d3 off using Cons.prems by (intro Cons.IH) simp
  qed
  moreover have "int_of_le (le_bytes 8 (to_value r)) = to_value r" using Cons.prems by (intro int_of_le_bytes) simp
  ultimately show ?case by (simp del: concat.simps list.map append_assoc)
qed

text \<open>C38: the outputs of a transaction are read back. On the serialisation of every well-formed transaction with at
  least one input, in the legacy and in the witness format, \<open>parse_tx_outputs\<close> returns exactly its outputs,
  value and script, whatever follows them.\<close>

theorem parse_outputs_of_serialised:
  assumes "tx_wf version ins outs"
  shows "parse_tx_outputs (ser_tx w version ins outs rest) = Inr outs"
proof -
  let ?pre = "version @ (if w then [0, 1] else [])"
  let ?c = "concat (map ser_input ins)" and ?o = "concat (map ser_output outs)"
  let ?data = "ser_tx w version ins outs rest"
  have wf: "length version = 4" "ins \<noteq> []" using assms by (auto simp: tx_wf_def)
  have d0: "?data = ?pre @ varint (length ins) @ ?c @ varint (length outs) @ ?o @ rest"
    and d1: "?data = (?pre @ varint (length ins)) @ ?c @ varint (length outs) @ ?o @ rest"
    and d2: "?data = (?pre @ varint (length ins) @ ?c) @ varint (length outs) @ ?o @ rest"
    and d3: "?data = (?pre @ varint (length ins) @ ?c @ varint (length outs)) @ ?o @ rest"
    by (simp_all add: ser_tx_def)
  have marker: "has_witness_marker ?data = Inr w"
    using wf by (auto simp: has_witness_marker_def byte_at_def ser_tx_def varint_def nth_append)
  have off: "length ?pre = (if w then 6 else 4)" using wf by simp
  have "parse_varint ?data (if w then 6 else 4) = Inr (length ins, length (?pre @ varint (length ins)))"
    unfolding d0 off [symmetric] using parse_varint_at [of "length ins" ?pre] assms by (simp add: tx_wf_def)
  moreover have "skip_inputs (length ins) ?data (length (?pre @ varint (length ins))) =
      Inr (length (?pre @ varint (length ins) @ ?c))"
    unfolding d1 using skip_inputs_ser [of ins "?pre @ varint (length ins)"] assms by (simp add: tx_wf_def add_ac)
  moreover have "parse_varint ?data (length (?pre @ varint (length ins) @ ?c)) =
      Inr (length outs, length (?pre @ varint (length ins) @ ?c @ varint (length outs)))"
    unfolding d2 using parse_varint_at [of "length outs" "?pre @ varint (length ins) @ ?c"] assms by (simp add: tx_wf_def add_ac)
  moreover have "read_outputs (length outs) ?data (length (?pre @ varint (length ins) @ ?c @ varint (length outs))) = Inr outs"
    unfolding d3 using assms by (intro read_outputs_ser) (simp add: tx_wf_def)
  ultimately show ?thesis unfolding parse_tx_outputs_def marker then_do_Inr by (simp only: then_do_Inr prod.case)
qed

theorem parse_outputs_of_serialised_witness:
  "parse_tx_outputs (ser_tx True [2, 0, 0, 0] [\<lparr>ti_outpoint = replicate 36 7, ti_script = [], ti_sequence = [255, 255, 255, 255]\<rparr>]
     [\<lparr>to_value = 50000, to_script = 0 # 20 # replicate 20 3\<rparr>] [0, 0, 0, 0]) = Inr [\<lparr>to_value = 50000, to_script = 0 # 20 # replicate 20 3\<rparr>]"
  by (rule parse_outputs_of_serialised) (simp add: tx_wf_def)

end
