(* ===== verification/Btc_Address.thy ===== *)
theory Btc_Address
  imports Bitcoin
begin

text \<open>
  Bitcoin addresses (\<open>hashcredit_prover/address.py\<close>): Bech32 with its checksum and the regrouping of
  5-bit values into bytes, Base58 with its checksum, and the two supported address types. The
  strings are ASCII; SHA-256 is a parameter.
\<close>

section \<open>Bech32\<close>

definition BECH32_CHARSET :: string where
  "BECH32_CHARSET = ''qpzry9x8gf2tvdw0s3jn54khce6mua7l''"

definition GEN :: "int list" where
  "GEN = [0x3B6A57B2, 0x26508E6D, 0x1EA119FA, 0x3D4233DD, 0x2A1462B3]"

definition polymod_step :: "int \<Rightarrow> int \<Rightarrow> int" where
  "polymod_step chk v =
    (let b = drop_bit 25 chk; chk = push_bit 5 (chk AND 0x1FFFFFF) XOR v
     in foldl (\<lambda>chk i. chk XOR (if drop_bit i b AND 1 = 1 then GEN ! i else 0)) chk [0..<5])"

definition bech32_polymod :: "int list \<Rightarrow> int" where
  "bech32_polymod values = foldl polymod_step 1 values"

definition bech32_hrp_expand :: "string \<Rightarrow> int list" where
  "bech32_hrp_expand hrp = map (\<lambda>x. drop_bit 5 (of_char x)) hrp @ [0] @ map (\<lambda>x. of_char x AND 31) hrp"

definition bech32_verify_checksum :: "string \<Rightarrow> int list \<Rightarrow> bool" where
  "bech32_verify_checksum hrp data \<longleftrightarrow> bech32_polymod (bech32_hrp_expand hrp @ data) = 1"

text \<open>\<open>str.index\<close> of a character, \<open>None\<close> when it does not occur, and \<open>str.rfind\<close>.\<close>

fun char_index :: "string \<Rightarrow> char \<Rightarrow> nat option" where
  "char_index [] c = None"
| "char_index (x # xs) c = (if x = c then Some 0 else map_option Suc (char_index xs c))"

definition str_rfind :: "string \<Rightarrow> char \<Rightarrow> int" where
  "str_rfind s c = (case char_index (rev s) c of None \<Rightarrow> - 1 | Some i \<Rightarrow> int (length s) - 1 - int i)"

fun index_all :: "string \<Rightarrow> string \<Rightarrow> nat list option" where
  "index_all charset [] = Some []"
| "index_all charset (c # cs) =
     (case char_index charset c of None \<Rightarrow> None
      | Some i \<Rightarrow> (case index_all charset cs of None \<Rightarrow> None | Some is \<Rightarrow> Some (i # is)))"

text \<open>The inner loop of \<open>convert_bits\<close>: emit groups of \<open>tobits\<close> bits while there are enough.\<close>

function drain :: "nat \<Rightarrow> int \<Rightarrow> nat \<Rightarrow> int list \<times> nat" where
  "drain tobits acc bits =
    (if 0 < tobits \<and> tobits \<le> bits
     then let bits = bits - tobits; (rest, left) = drain tobits acc bits
       in ((drop_bit bits acc AND (2 ^ tobits - 1)) # rest, left)
     else ([], bits))"
  by pat_completeness auto

termination drain
  by (relation "measure (\<lambda>(_, _, bits). bits)") auto

declare drain.simps [simp del]

fun convert_loop :: "nat \<Rightarrow> nat \<Rightarrow> int list \<Rightarrow> int \<Rightarrow> nat \<Rightarrow> int list \<Rightarrow> (int \<times> nat \<times> int list) option" where
  "convert_loop frombits tobits [] acc bits ret = Some (acc, bits, ret)"
| "convert_loop frombits tobits (v # vs) acc bits ret =
     (if v < 0 \<or> drop_bit frombits v \<noteq> 0 then None
      else let acc = (push_bit frombits acc OR v) AND (2 ^ (frombits + tobits - 1) - 1);
               (out, bits) = drain tobits acc (bits + frombits)
           in convert_loop frombits tobits vs acc bits (ret @ out))"

definition convert_bits :: "int list \<Rightarrow> nat \<Rightarrow> nat \<Rightarrow> bool \<Rightarrow> int list option" where
  "convert_bits data frombits tobits pad =
    (case convert_loop frombits tobits data 0 0 [] of
       None \<Rightarrow> None
     | Some (acc, bits, ret) \<Rightarrow>
         if pad then Some (if bits \<noteq> 0 then ret @ [push_bit (tobits - bits) acc AND (2 ^ tobits - 1)] else ret)
         else if frombits \<le> bits \<or> push_bit (tobits - bits) acc AND (2 ^ tobits - 1) \<noteq> 0 then None
         else Some ret)"

definition bech32_decode :: "string \<Rightarrow> (string \<times> bytes) option" where
  "bech32_decode address0 =
    (let address = str_lower address0; pos = str_rfind address CHR ''1''
     in if pos < 1 \<or> int (length address) < pos + 7 then None
        else let hrp = take (nat pos) address
          in case index_all BECH32_CHARSET (drop (nat pos + 1) address) of
               None \<Rightarrow> None
             | Some data \<Rightarrow>
                 if \<not> bech32_verify_checksum hrp (map int data) then None
                 else let data = take (length data - 6) data
                   in case data of
                        [] \<Rightarrow> None
                      | version # program \<Rightarrow>
                          (case convert_bits (map int program) 5 8 False of
                             None \<Rightarrow> None
                           | Some converted \<Rightarrow>
                               if version = 0 \<and> length converted \<notin> {20, 32} then None
                               else Some (hrp, version # map nat converted)))"

section \<open>Base58\<close>

definition BASE58_ALPHABET :: string where
  "BASE58_ALPHABET = ''123456789ABCDEFGHJKLMNPQRSTUVWXYZabcdefghijkmnopqrstuvwxyz''"

fun base58_number :: "string \<Rightarrow> int \<Rightarrow> int option" where
  "base58_number [] num = Some num"
| "base58_number (c # cs) num =
     (case char_index BASE58_ALPHABET c of None \<Rightarrow> None | Some i \<Rightarrow> base58_number cs (num * 58 + int i))"

text \<open>The bytes of a number, least significant first.\<close>

function number_bytes :: "int \<Rightarrow> bytes" where
  "number_bytes num = (if 0 < num then nat (num AND 0xFF) # number_bytes (drop_bit 8 num) else [])"
  by pat_completeness auto

termination number_bytes
  by (relation "measure nat") (auto simp: drop_bit_eq_div)

declare number_bytes.simps [simp del]

definition base58_decode :: "string \<Rightarrow> bytes option" where
  "base58_decode s = (case base58_number s 0 of None \<Rightarrow> None
     | Some num \<Rightarrow> Some (replicate (length (takeWhile (\<lambda>c. c = CHR ''1'') s)) 0 @ rev (number_bytes num)))"

definition base58check_decode :: "hash_fun \<Rightarrow> string \<Rightarrow> (nat \<times> bytes) option" where
  "base58check_decode sha s =
    (case base58_decode s of None \<Rightarrow> None
     | Some data \<Rightarrow>
         if length data < 5 then None
         else let checksum = drop (length data - 4) data; payload = take (length data - 4) data
           in if checksum \<noteq> take 4 (sha (sha payload)) then None else Some (hd payload, tl payload))"

definition decode_btc_address :: "hash_fun \<Rightarrow> string \<Rightarrow> (bytes \<times> string) option" where
  "decode_btc_address sha address =
    (if starts_with ''bc1'' (str_lower address) \<or> starts_with ''tb1'' (str_lower address)
     then case bech32_decode address of
         None \<Rightarrow> None
       | Some (hrp, data) \<Rightarrow>
           if hrp \<notin> {''bc'', ''tb''} then None
           else if length data = 21 \<and> hd data = 0 then Some (tl data, ''p2wpkh'') else None
     else case base58check_decode sha address of
         None \<Rightarrow> None
       | Some (version, payload) \<Rightarrow>
           if version \<in> {0x00, 0x6F} \<and> length payload = 20 then Some (payload, ''p2pkh'') else None)"

section \<open>Regrouping bits\<close>

text \<open>The number a list of groups of \<open>k\<close> bits stands for, most significant group first.\<close>

fun groups_value :: "nat \<Rightarrow> int list \<Rightarrow> int" where
  "groups_value k [] = 0"
| "groups_value k (d # ds) = d * 2 ^ (k * length ds) + groups_value k ds"

definition groups_ok :: "nat \<Rightarrow> int list \<Rightarrow> bool" where
  "groups_ok k ds \<longleftrightarrow> (\<forall>d \<in> set ds. 0 \<le> d \<and> d < 2 ^ k)"

lemma groups_value_append: "groups_value k (xs @ ys) = groups_value k xs * 2 ^ (k * length ys) + groups_value k ys"
  by (induction xs) (simp_all add: algebra_simps power_add)

lemma groups_value_bound: "groups_ok k ds \<Longrightarrow> 0 \<le> groups_value k ds \<and> groups_value k ds < 2 ^ (k * length ds)"
proof (induction ds)
  case Nil
  then show ?case by simp
next
  case (Cons d ds)
  then have d: "0 \<le> d" "d + 1 \<le> 2 ^ k" and ds: "0 \<le> groups_value k ds" "groups_value k ds < 2 ^ (k * length ds)"
    by (auto simp: groups_ok_def)
  have "(d + 1) * 2 ^ (k * length ds) \<le> 2 ^ k * 2 ^ (k * length ds)" by (rule mult_right_mono [OF d(2)]) simp
  with d(1) ds show ?case by (simp add: algebra_simps power_add)
qed

lemma groups_value_inj:
  "length xs = length ys \<Longrightarrow> groups_ok k xs \<Longrightarrow> groups_ok k ys \<Longrightarrow> groups_value k xs = groups_value k ys \<Longrightarrow> xs = ys"
proof (induction xs ys rule: list_induct2)
  case Nil
  then show ?case by simp
next
  case (Cons x xs y ys)
  let ?m = "2 ^ (k * length xs) :: int"
  have b: "0 \<le> groups_value k xs \<and> groups_value k xs < ?m" "0 \<le> groups_value k ys \<and> groups_value k ys < ?m"
    using Cons groups_value_bound [of k xs] groups_value_bound [of k ys] by (auto simp: groups_ok_def)
  have eq: "x * ?m + groups_value k xs = y * ?m + groups_value k ys" using Cons by simp
  from arg_cong [OF eq, of "\<lambda>z. z div ?m"] arg_cong [OF eq, of "\<lambda>z. z mod ?m"] b
  have "x = y" "groups_value k xs = groups_value k ys" by simp_all
  with Cons show ?case by (auto simp: groups_ok_def)
qed

lemma and_mask: "(a :: int) AND (2 ^ n - 1) = a mod 2 ^ n"
  by (metis mask_eq_exp_minus_1 take_bit_eq_mask take_bit_eq_mod)

lemma push_or:
  fixes a v :: int
  assumes "0 \<le> v" and "v < 2 ^ f"
  shows "push_bit f a OR v = a * 2 ^ f + v"
proof -
  have "take_bit f v = v" using assms by (simp add: take_bit_int_eq_self)
  then have "push_bit f a OR v = push_bit f a + v"
    by (intro disjunctive_add [symmetric]) (metis bit_push_bit_iff_int bit_take_bit_iff not_le)
  then show ?thesis by (simp add: push_bit_eq_mult)
qed

lemma drain_spec:
  "0 < t \<Longrightarrow> drain t acc bits = (out, left) \<Longrightarrow>
     left < t \<and> bits = t * length out + left \<and> groups_ok t out \<and>
     acc mod 2 ^ bits = groups_value t out * 2 ^ left + acc mod 2 ^ left"
proof (induction t acc bits arbitrary: out left rule: drain.induct)
  case (1 t acc bits)
  show ?case
  proof (cases "t \<le> bits")
    case False
    with "1.prems" show ?thesis by (auto simp: drain.simps groups_ok_def)
  next
    case True
    let ?b = "bits - t"
    obtain rest l where r: "drain t acc ?b = (rest, l)" by fastforce
    have out: "out = (acc div 2 ^ ?b mod 2 ^ t) # rest" "left = l"
      using "1.prems" True r by (simp_all add: drain.simps [of t acc bits] and_mask drop_bit_eq_div)
    have ih: "l < t \<and> ?b = t * length rest + l \<and> groups_ok t rest \<and>
        acc mod 2 ^ ?b = groups_value t rest * 2 ^ l + acc mod 2 ^ l"
      using "1.IH" "1.prems"(1) True r by blast
    have "(2 :: int) ^ bits = 2 ^ ?b * 2 ^ t" using True by (simp add: power_add [symmetric])
    then have "acc mod 2 ^ bits = 2 ^ ?b * (acc div 2 ^ ?b mod 2 ^ t) + acc mod 2 ^ ?b"
      by (simp add: zmod_zmult2_eq)
    then have "acc mod 2 ^ bits = 2 ^ ?b * (acc div 2 ^ ?b mod 2 ^ t) + (groups_value t rest * 2 ^ l + acc mod 2 ^ l)"
      using ih by metis
    moreover have "2 ^ ?b * x = x * 2 ^ (t * length rest) * 2 ^ l" for x :: int using ih by (simp add: power_add)
    ultimately have "acc mod 2 ^ bits = groups_value t out * 2 ^ left + acc mod 2 ^ left"
      by (simp add: out distrib_right)
    then show ?thesis using ih True by (auto simp: out groups_ok_def)
  qed
qed

lemma convert_loop_spec:
  assumes "0 < f" and "0 < t"
  shows "bits < t \<Longrightarrow> 0 \<le> acc \<Longrightarrow> convert_loop f t data acc bits ret = Some (acc', bits', ret') \<Longrightarrow>
    bits' < t \<and> 0 \<le> acc' \<and> groups_ok f data \<and> (\<exists>out. ret' = ret @ out \<and> groups_ok t out \<and>
      bits + f * length data = t * length out + bits' \<and>
      (acc mod 2 ^ bits) * 2 ^ (f * length data) + groups_value f data = groups_value t out * 2 ^ bits' + acc' mod 2 ^ bits')"
proof (induction data arbitrary: acc bits ret)
  case Nil
  then show ?case by (auto simp: groups_ok_def)
next
  case (Cons v vs)
  have v: "0 \<le> v" "v < 2 ^ f"
    using Cons.prems(3) by (auto simp: drop_bit_eq_div zdiv_eq_0_iff split: if_splits)
  let ?acc = "(acc * 2 ^ f + v) mod 2 ^ (f + t - 1)"
  obtain out b where d: "drain t ?acc (bits + f) = (out, b)" by fastforce
  have loop: "convert_loop f t vs ?acc b (ret @ out) = Some (acc', bits', ret')"
    using Cons.prems(3) d by (simp add: push_or [OF v] and_mask split: if_splits)
  note ds = drain_spec [OF assms(2) d]
  have "?acc mod 2 ^ (bits + f) = (acc * 2 ^ f + v) mod 2 ^ (bits + f)"
  proof (rule mod_mod_cancel)
    show "(2 :: int) ^ (bits + f) dvd 2 ^ (f + t - 1)" using Cons.prems(1) by (intro le_imp_power_dvd) simp
  qed
  also have "\<dots> = (acc mod 2 ^ bits) * 2 ^ f + v"
  proof -
    have "(acc * 2 ^ f + v) mod 2 ^ (bits + f) = 2 ^ f * ((acc * 2 ^ f + v) div 2 ^ f mod 2 ^ bits) + (acc * 2 ^ f + v) mod 2 ^ f"
      by (simp add: power_add mult.commute [of "2 ^ bits"] zmod_zmult2_eq)
    then show ?thesis using v by (simp add: mult.commute)
  qed
  finally have a: "groups_value t out * 2 ^ b + ?acc mod 2 ^ b = (acc mod 2 ^ bits) * 2 ^ f + v" using ds by metis
  obtain out2 where o2: "bits' < t" "0 \<le> acc'" "groups_ok f vs" "ret' = (ret @ out) @ out2" "groups_ok t out2"
    "b + f * length vs = t * length out2 + bits'"
    "(?acc mod 2 ^ b) * 2 ^ (f * length vs) + groups_value f vs = groups_value t out2 * 2 ^ bits' + acc' mod 2 ^ bits'"
    using Cons.IH [OF _ _ loop] ds by auto
  have "(acc mod 2 ^ bits) * 2 ^ (f * length (v # vs)) + groups_value f (v # vs) =
      ((acc mod 2 ^ bits) * 2 ^ f + v) * 2 ^ (f * length vs) + groups_value f vs"
    by (simp add: algebra_simps power_add)
  also have "\<dots> = groups_value t out * 2 ^ (b + f * length vs) + (groups_value t out2 * 2 ^ bits' + acc' mod 2 ^ bits')"
    unfolding a [symmetric] o2(7) [symmetric] by (simp add: algebra_simps power_add)
  also have "\<dots> = groups_value t (out @ out2) * 2 ^ bits' + acc' mod 2 ^ bits'"
    unfolding o2(6) by (simp add: groups_value_append algebra_simps power_add)
  finally show ?case using o2 v ds
    by (intro conjI exI [of _ "out @ out2"]) (auto simp: groups_ok_def algebra_simps)
qed

lemma convert_loop_total:
  "groups_ok f data \<Longrightarrow> \<exists>res. convert_loop f t data acc bits ret = Some res"
proof (induction data arbitrary: acc bits ret)
  case Nil
  then show ?case by simp
next
  case (Cons v vs)
  then have "drop_bit f v = 0" "0 \<le> v" by (auto simp: groups_ok_def drop_bit_eq_div)
  with Cons show ?case by (auto simp: groups_ok_def Let_def split: prod.split)
qed

lemma last_group: "bits \<le> t \<Longrightarrow> push_bit (t - bits) acc AND (2 ^ t - 1) = (acc mod 2 ^ bits) * (2 :: int) ^ (t - bits)"
proof -
  assume b: "bits \<le> t"
  have "(acc * 2 ^ (t - bits)) mod 2 ^ t = (acc * 2 ^ (t - bits)) mod (2 ^ bits * 2 ^ (t - bits))"
    using b by (simp add: power_add [symmetric])
  then show ?thesis by (simp add: and_mask push_bit_eq_mult)
qed

text \<open>Widening with padding keeps the number, shifted by the padding.\<close>

lemma convert_pad_spec:
  assumes "0 < f" and "0 < t" and "groups_ok f data"
  shows "\<exists>out e. convert_bits data f t True = Some out \<and> groups_ok t out \<and> e < t \<and> t * length out = f * length data + e \<and>
    groups_value t out = groups_value f data * 2 ^ e"
proof -
  obtain acc bits ret where l: "convert_loop f t data 0 0 [] = Some (acc, bits, ret)"
    using convert_loop_total [OF assms(3)] by (metis prod_cases3)
  from convert_loop_spec [OF assms(1,2) _ _ l] assms(2)
  have s: "bits < t" "0 \<le> acc" "groups_ok t ret" "f * length data = t * length ret + bits"
    "groups_value f data = groups_value t ret * 2 ^ bits + acc mod 2 ^ bits" by auto
  show ?thesis
  proof (cases "bits = 0")
    case True
    with l s assms(2) show ?thesis by (intro exI [of _ ret] exI [of _ 0]) (simp add: convert_bits_def)
  next
    case False
    let ?g = "(acc mod 2 ^ bits) * 2 ^ (t - bits)" and ?e = "t - bits"
    have p: "(2 :: int) ^ t = 2 ^ bits * 2 ^ ?e" using s(1) by (simp add: power_add [symmetric])
    have "?g < 2 ^ t" unfolding p by (rule mult_strict_right_mono) simp_all
    then have "groups_ok t (ret @ [?g])" using s(3) by (auto simp: groups_ok_def)
    moreover have "convert_bits data f t True = Some (ret @ [?g])"
      using l False s(1) by (simp add: convert_bits_def last_group)
    moreover have "groups_value t (ret @ [?g]) = groups_value f data * 2 ^ ?e"
      unfolding s(5) by (simp add: groups_value_append p distrib_right)
    moreover have "?e < t" using False s(1) by simp
    ultimately show ?thesis using s(1,4) by (intro exI [of _ "ret @ [?g]"] exI [of _ ?e]) simp
  qed
qed

text \<open>Narrowing undoes it when the padding is shorter than both group sizes.\<close>

lemma convert_unpad_spec:
  assumes "0 < f" and "0 < t" and "groups_ok f data" and "groups_ok t out" and "e < f" and "e < t"
    and "f * length data = t * length out + e" and "groups_value f data = groups_value t out * 2 ^ e"
  shows "convert_bits data f t False = Some out"
proof -
  obtain acc bits ret where l: "convert_loop f t data 0 0 [] = Some (acc, bits, ret)"
    using convert_loop_total [OF assms(3)] by (metis prod_cases3)
  from convert_loop_spec [OF assms(1,2) _ _ l] assms(2)
  have s: "bits < t" "groups_ok t ret" "f * length data = t * length ret + bits"
    "groups_value f data = groups_value t ret * 2 ^ bits + acc mod 2 ^ bits" by auto
  have "length ret = length out \<and> bits = e"
    using arg_cong [of "t * length ret + bits" "t * length out + e" "\<lambda>z. z div t"]
      arg_cong [of "t * length ret + bits" "t * length out + e" "\<lambda>z. z mod t"] s(1,3) assms(6,7) by simp
  then have len: "length ret = length out" and e: "bits = e" by auto
  have eq: "groups_value t ret * 2 ^ e + acc mod 2 ^ e = groups_value t out * 2 ^ e" using s(4) assms(8) e by simp
  from arg_cong [OF eq, of "\<lambda>z. z mod 2 ^ e"] have z: "acc mod 2 ^ e = 0" by simp
  with eq have "groups_value t ret = groups_value t out" by simp
  with len s(2) assms(4) have "ret = out" by (intro groups_value_inj)
  with l e z assms(5,6) show ?thesis by (simp add: convert_bits_def last_group)
qed

text \<open>Regrouping bytes into 5-bit values loses nothing. Every byte string is regrouped by
  \<open>convert_bits(_, 8, 5, pad=True)\<close> into values below 32, and \<open>convert_bits(_, 5, 8, pad=False)\<close>, which the address
  decoder uses, gives the byte string back.\<close>

theorem convert_bits_round_trip:
  assumes "\<forall>b \<in> set data. 0 \<le> b \<and> b < 256"
  shows "\<exists>out. convert_bits data 8 5 True = Some out \<and> (\<forall>v \<in> set out. 0 \<le> v \<and> v < 32) \<and> convert_bits out 5 8 False = Some data"
proof -
  have ok: "groups_ok 8 data" using assms by (simp add: groups_ok_def)
  obtain out e where o1: "convert_bits data 8 5 True = Some out" "groups_ok 5 out" "e < 5"
    "5 * length out = 8 * length data + e" "groups_value 5 out = groups_value 8 data * 2 ^ e"
    using convert_pad_spec [of 8 5, OF _ _ ok] by auto
  have "convert_bits out 5 8 False = Some data"
    using o1 ok by (intro convert_unpad_spec [where e = e]) simp_all
  with o1 show ?thesis by (auto simp: groups_ok_def)
qed

theorem convert_bits_round_trip_witness:
  "\<exists>out. convert_bits [117, 30, 255] 8 5 True = Some out \<and> convert_bits out 5 8 False = Some [117, 30, 255]"
  using convert_bits_round_trip [of "[117, 30, 255]"] by auto

section \<open>Base58\<close>

lemma char_index_Some: "char_index xs c = Some i \<Longrightarrow> i < length xs \<and> xs ! i = c"
  by (induction xs arbitrary: i) (auto split: if_splits)

fun value58 :: "int \<Rightarrow> nat list \<Rightarrow> int" where
  "value58 num [] = num"
| "value58 num (d # ds) = value58 (num * 58 + int d) ds"

definition digits58_ok :: "nat list \<Rightarrow> bool" where
  "digits58_ok ds \<longleftrightarrow> (\<forall>d \<in> set ds. d < 58)"

lemma value58_snoc: "value58 num (ds @ [d]) = value58 num ds * 58 + int d"
  by (induction num ds rule: value58.induct) simp_all

lemma value58_pos: "0 < num \<Longrightarrow> 0 < value58 num ds"
  by (induction num ds rule: value58.induct) simp_all

lemma value58_nonneg: "0 \<le> num \<Longrightarrow> 0 \<le> value58 num ds"
  by (induction num ds rule: value58.induct) simp_all

lemma value58_inj:
  "digits58_ok xs \<Longrightarrow> digits58_ok ys \<Longrightarrow> (xs \<noteq> [] \<Longrightarrow> hd xs \<noteq> 0) \<Longrightarrow> (ys \<noteq> [] \<Longrightarrow> hd ys \<noteq> 0) \<Longrightarrow> value58 0 xs = value58 0 ys \<Longrightarrow> xs = ys"
proof (induction xs arbitrary: ys rule: rev_induct)
  case Nil
  show ?case
  proof (cases ys)
    case (Cons d ds)
    then show ?thesis using value58_pos [of "int d" ds] Nil by simp
  qed simp
next
  case (snoc x xs)
  have "0 < value58 0 (xs @ [x])"
  proof (cases xs)
    case Nil
    with snoc.prems show ?thesis by simp
  next
    case (Cons d ds)
    with snoc.prems(3) value58_pos [of "int d" "ds @ [x]"] show ?thesis by simp
  qed
  with snoc.prems have "ys \<noteq> []" by auto
  then obtain zs z where ys: "ys = zs @ [z]" by (metis append_butlast_last_id)
  have eq: "value58 0 xs * 58 + int x = value58 0 zs * 58 + int z" using snoc.prems by (simp add: ys value58_snoc)
  have "x < 58" "z < 58" using snoc.prems by (auto simp: digits58_ok_def ys)
  with arg_cong [OF eq, of "\<lambda>n. n mod 58"] arg_cong [OF eq, of "\<lambda>n. n div 58"]
  have "x = z" "value58 0 xs = value58 0 zs" by simp_all
  moreover have "xs = zs"
    using snoc.prems calculation(2) by (intro snoc.IH) (auto simp: digits58_ok_def ys)
  ultimately show ?case by (simp add: ys)
qed

lemma base58_number_digits:
  "base58_number s num = Some n \<Longrightarrow> \<exists>ds. s = map ((!) BASE58_ALPHABET) ds \<and> digits58_ok ds \<and> n = value58 num ds"
proof (induction s num rule: base58_number.induct)
  case (1 num)
  then show ?case by (simp add: digits58_ok_def)
next
  case (2 c cs num)
  then obtain i ds where i: "char_index BASE58_ALPHABET c = Some i" and ds: "cs = map ((!) BASE58_ALPHABET) ds" "digits58_ok ds"
    "n = value58 (num * 58 + int i) ds" by (auto split: option.splits)
  have "i < 58 \<and> BASE58_ALPHABET ! i = c"
    using char_index_Some [OF i] by (simp add: BASE58_ALPHABET_def)
  with ds show ?case by (intro exI [of _ "i # ds"]) (auto simp: digits58_ok_def)
qed

lemma alphabet_one: "d < 58 \<Longrightarrow> BASE58_ALPHABET ! d = CHR ''1'' \<longleftrightarrow> d = 0"
proof -
  have "distinct BASE58_ALPHABET" "length BASE58_ALPHABET = 58" "BASE58_ALPHABET ! 0 = CHR ''1''"
    by (simp_all add: BASE58_ALPHABET_def)
  then show "d < 58 \<Longrightarrow> BASE58_ALPHABET ! d = CHR ''1'' \<longleftrightarrow> d = 0" by (metis nth_eq_iff_index_eq zero_less_numeral)
qed

lemma number_bytes_value: "0 \<le> n \<Longrightarrow> int (int_of_le (number_bytes n)) = n"
proof (induction n rule: number_bytes.induct)
  case (1 n)
  show ?case
  proof (cases "0 < n")
    case True
    have "int (int_of_le (number_bytes n)) = n mod 256 + 256 * int (int_of_le (number_bytes (n div 256)))"
      using True and_mask [of n 8] by (subst number_bytes.simps) (simp add: drop_bit_eq_div)
    moreover have "int (int_of_le (number_bytes (n div 256))) = n div 256"
      using "1.IH" [OF True] True by (simp add: drop_bit_eq_div)
    ultimately show ?thesis by simp
  next
    case False
    with "1.prems" show ?thesis by (simp add: number_bytes.simps)
  qed
qed

lemma number_bytes_bytes: "is_bytes (number_bytes n)"
proof (induction n rule: number_bytes.induct)
  case (1 n)
  have "n AND 255 < 256" using and_mask [of n 8] by simp
  with 1 show ?case by (subst number_bytes.simps) (auto simp: is_bytes_def nat_less_iff)
qed

lemma number_bytes_top: "number_bytes n \<noteq> [] \<Longrightarrow> last (number_bytes n) \<noteq> 0"
proof (induction n rule: number_bytes.induct)
  case (1 n)
  have n: "0 < n" using "1.prems" by (auto simp: number_bytes.simps split: if_splits)
  show ?case
  proof (cases "number_bytes (drop_bit 8 n) = []")
    case True
    then have "n div 256 = 0" using n number_bytes_value [of "n div 256"] by (simp add: drop_bit_eq_div)
    then have "n < 256" using n div_mult_mod_eq [of n 256] pos_mod_bound [of 256 n] by linarith
    then have "n AND 255 = n" using n and_mask [of n 8] by simp
    with n True show ?thesis by (subst number_bytes.simps) simp
  next
    case False
    with "1.IH" [OF n] n show ?thesis by (subst number_bytes.simps) simp
  qed
qed

text \<open>No two strings decode to the same bytes. \<open>base58_decode\<close> keeps leading zeros as leading ones and is
  injective on the strings it accepts, so an account identified by decoded bytes has one Base58 form.\<close>

theorem base58_decode_injective:
  assumes "base58_decode s = Some b" and "base58_decode s' = Some b"
  shows "s = s'"
proof -
  have form: "\<exists>k ds. s = replicate k CHR ''1'' @ map ((!) BASE58_ALPHABET) ds \<and> digits58_ok ds \<and> (ds \<noteq> [] \<longrightarrow> hd ds \<noteq> 0) \<and>
      b = replicate k 0 @ rev (number_bytes (value58 0 ds))" if dec: "base58_decode s = Some b" for s
  proof -
    obtain es where es: "s = map ((!) BASE58_ALPHABET) es" "digits58_ok es"
      "b = replicate (length (takeWhile (\<lambda>c. c = CHR ''1'') s)) 0 @ rev (number_bytes (value58 0 es))"
      using dec base58_number_digits by (fastforce simp: base58_decode_def split: option.splits)
    let ?z = "takeWhile (\<lambda>d. d = 0) es" and ?ds = "dropWhile (\<lambda>d. d = 0) es"
    have z: "?z = replicate (length ?z) 0" by (metis (mono_tags) replicate_length_same set_takeWhileD)
    have "takeWhile (\<lambda>c. c = CHR ''1'') s = map ((!) BASE58_ALPHABET) ?z"
      unfolding es(1) takeWhile_map using es(2)
      by (intro arg_cong [where f = "map ((!) BASE58_ALPHABET)"] takeWhile_cong) (auto simp: digits58_ok_def alphabet_one)
    then have k: "length (takeWhile (\<lambda>c. c = CHR ''1'') s) = length ?z" by simp
    have split: "es = replicate (length ?z) 0 @ ?ds" by (metis takeWhile_dropWhile_id z)
    have v: "value58 0 (replicate m 0 @ ds) = value58 0 ds" for m ds by (induction m) simp_all
    have s: "s = replicate (length ?z) CHR ''1'' @ map ((!) BASE58_ALPHABET) ?ds"
      unfolding es(1) by (subst split) (simp add: BASE58_ALPHABET_def map_replicate_const)
    have val: "value58 0 es = value58 0 ?ds" using v [of "length ?z" ?ds] split by simp
    have "digits58_ok ?ds" using es(2) by (auto simp: digits58_ok_def dest: set_dropWhileD)
    moreover have "?ds \<noteq> [] \<longrightarrow> hd ?ds \<noteq> 0" using hd_dropWhile [of "\<lambda>d. d = 0" es] by blast
    ultimately show ?thesis using s es(3) val k by (intro exI [of _ "length ?z"] exI [of _ ?ds]) auto
  qed
  obtain k ds where a: "s = replicate k CHR ''1'' @ map ((!) BASE58_ALPHABET) ds" "digits58_ok ds" "ds \<noteq> [] \<longrightarrow> hd ds \<noteq> 0"
    "b = replicate k 0 @ rev (number_bytes (value58 0 ds))" using form [OF assms(1)] by blast
  obtain k' ds' where c: "s' = replicate k' CHR ''1'' @ map ((!) BASE58_ALPHABET) ds'" "digits58_ok ds'" "ds' \<noteq> [] \<longrightarrow> hd ds' \<noteq> 0"
    "b = replicate k' 0 @ rev (number_bytes (value58 0 ds'))" using form [OF assms(2)] by blast
  have lead: "takeWhile (\<lambda>x. x = 0) (replicate m 0 @ rev (number_bytes n)) = replicate m 0" for m n
    using number_bytes_top [of n] by (cases "rev (number_bytes n)") (auto simp: takeWhile_append last_rev hd_rev)
  have "replicate k (0 :: nat) = replicate k' 0" using lead [of k "value58 0 ds"] lead [of k' "value58 0 ds'"] a(4) c(4) by simp
  then have k: "k = k'" by simp
  with a(4) c(4) have "number_bytes (value58 0 ds) = number_bytes (value58 0 ds')" by simp
  then have "value58 0 ds = value58 0 ds'" using number_bytes_value value58_nonneg by (metis order_refl)
  with a c have "ds = ds'" by (intro value58_inj) auto
  with a(1) c(1) k show ?thesis by simp
qed

theorem base58_decode_injective_witness:
  "{s. base58_decode s = Some [0, 98, 233, 7, 177, 92, 191, 39, 213, 66, 83, 153, 235, 246, 240, 251, 80, 235, 184, 143, 24, 194, 155, 125, 147]} =
   {''1A1zP1eP5QGefi2DMPTfTL5SLmv7DivfNa''}"
proof -
  have d: "base58_decode ''1A1zP1eP5QGefi2DMPTfTL5SLmv7DivfNa'' =
     Some [0, 98, 233, 7, 177, 92, 191, 39, 213, 66, 83, 153, 235, 246, 240, 251, 80, 235, 184, 143, 24, 194, 155, 125, 147]"
    by code_simp
  show ?thesis
  proof (rule set_eqI, unfold mem_Collect_eq singleton_iff, rule iffI)
    fix s
    assume "base58_decode s = Some [0, 98, 233, 7, 177, 92, 191, 39, 213, 66, 83, 153, 235, 246, 240, 251, 80, 235, 184, 143, 24, 194, 155, 125, 147]"
    then show "s = ''1A1zP1eP5QGefi2DMPTfTL5SLmv7DivfNa''" by (rule base58_decode_injective [OF _ d])
  qed (erule ssubst, rule d)
qed

section \<open>Addresses\<close>

lemma convert_bits_groups: "convert_bits data f t False = Some out \<Longrightarrow> 0 < f \<Longrightarrow> 0 < t \<Longrightarrow> groups_ok t out"
  using convert_loop_spec [of f t 0 0 data "[]"]
  by (auto simp: convert_bits_def split: option.splits prod.splits if_splits)

lemma bech32_decode_bytes: "bech32_decode a = Some (hrp, data) \<Longrightarrow> is_bytes (tl data)"
proof -
  assume "bech32_decode a = Some (hrp, data)"
  then obtain version converted xs where "data = version # map nat converted" "convert_bits xs 5 8 False = Some converted"
    by (auto simp: bech32_decode_def Let_def split: if_splits option.splits list.splits)
  then show ?thesis using convert_bits_groups [of xs 5 8 converted] by (auto simp: is_bytes_def groups_ok_def list_all_iff nat_less_iff)
qed

lemma base58_decode_bytes: "base58_decode s = Some b \<Longrightarrow> is_bytes b"
  using number_bytes_bytes by (auto simp: base58_decode_def is_bytes_def list_all_iff split: option.splits)



end
