(* ===== verification/Proof_Builder.thy ===== *)
theory Proof_Builder
  imports Bitcoin
begin

text \<open>
  The SPV proof builder (\<open>hashcredit_prover/proof_builder.py\<close>) and the node interface it uses
  (\<open>hashcredit_prover/rpc.py\<close>): the calls of a Bitcoin node are a record of functions, the mock node of
  the source is one instance. The ABI encoder of \<open>eth_abi\<close> is a parameter.
\<close>

section \<open>The node\<close>

record btc_node =
  bn_block_hash :: "int \<Rightarrow> app_error + string"
  bn_header_hex :: "string \<Rightarrow> app_error + string"
  bn_block_txids :: "string \<Rightarrow> app_error + string list"
  bn_raw_transaction :: "string \<Rightarrow> app_error + string"

fun map_result :: "('a \<Rightarrow> 'e + 'b) \<Rightarrow> 'a list \<Rightarrow> 'e + 'b list" where
  "map_result f [] = Inr []"
| "map_result f (x # xs) = then_do (f x) (\<lambda>y. then_do (map_result f xs) (\<lambda>ys. Inr (y # ys)))"

definition get_headers_in_range :: "btc_node \<Rightarrow> int \<Rightarrow> int \<Rightarrow> app_error + (int \<times> string \<times> string) list" where
  "get_headers_in_range node start_height end_height =
    map_result (\<lambda>height. then_do (bn_block_hash node height) (\<lambda>bh.
      then_do (bn_header_hex node bh) (\<lambda>hx. Inr (height, bh, hx)))) [start_height..end_height]"

record mock_rpc =
  mk_blocks :: "(string, string list) dict"
  mk_headers :: "(string, string) dict"
  mk_txs :: "(string, string) dict"
  mk_heights :: "(int, string) dict"

definition empty_mock :: mock_rpc where
  "empty_mock = \<lparr>mk_blocks = [], mk_headers = [], mk_txs = [], mk_heights = []\<rparr>"

definition add_block :: "int \<Rightarrow> string \<Rightarrow> string \<Rightarrow> string list \<Rightarrow> mock_rpc \<Rightarrow> mock_rpc" where
  "add_block height bh hx txids m = m\<lparr>mk_heights := dict_set height bh (mk_heights m),
     mk_headers := dict_set bh hx (mk_headers m), mk_blocks := dict_set bh txids (mk_blocks m)\<rparr>"

definition add_transaction :: "string \<Rightarrow> string \<Rightarrow> mock_rpc \<Rightarrow> mock_rpc" where
  "add_transaction txid hx m = m\<lparr>mk_txs := dict_set txid hx (mk_txs m)\<rparr>"

definition dict_or_rpc_error :: "('k, 'v) dict \<Rightarrow> 'k \<Rightarrow> app_error + 'v" where
  "dict_or_rpc_error d k = (case map_of d k of None \<Rightarrow> Inl (OtherError ''BitcoinRPCError'') | Some v \<Rightarrow> Inr v)"

definition mock_node :: "mock_rpc \<Rightarrow> btc_node" where
  "mock_node m = \<lparr>bn_block_hash = dict_or_rpc_error (mk_heights m), bn_header_hex = dict_or_rpc_error (mk_headers m),
     bn_block_txids = dict_or_rpc_error (mk_blocks m), bn_raw_transaction = dict_or_rpc_error (mk_txs m)\<rparr>"

definition mock_block_count :: "mock_rpc \<Rightarrow> int" where
  "mock_block_count m = (if mk_heights m = [] then 0 else foldl max (fst (hd (mk_heights m))) (map fst (mk_heights m)))"

section \<open>Proofs\<close>

record spv_proof =
  sp_checkpoint_height :: int
  sp_headers :: "bytes list"
  sp_tx_block_index :: int
  sp_raw_tx :: bytes
  sp_merkle_proof :: "bytes list"
  sp_tx_index :: int
  sp_output_index :: int
  sp_borrower :: string

text \<open>
  \<open>encode_for_contract\<close>: \<open>bytes.ljust(p, b"0")\<close> passes bytes where a width is expected, which is a
  \<open>TypeError\<close> for every element of the Merkle proof. \<open>abi\<close> is \<open>eth_abi.encode\<close>.
\<close>

definition ljust_bytes :: "bytes \<Rightarrow> app_error + bytes" where
  "ljust_bytes p = Inl (OtherError ''TypeError'')"

definition encode_for_contract :: "(spv_proof \<Rightarrow> app_error + bytes) \<Rightarrow> spv_proof \<Rightarrow> app_error + bytes" where
  "encode_for_contract abi p =
    then_do (map_result (\<lambda>h. then_do (ljust_bytes h) (\<lambda>b. Inr (take 32 b))) (sp_merkle_proof p)) (\<lambda>proof32.
      abi (p\<lparr>sp_merkle_proof := proof32\<rparr>))"

definition proof_to_dict :: "spv_proof \<Rightarrow> json" where
  "proof_to_dict p = JObj [(''checkpointHeight'', JInt (sp_checkpoint_height p)),
     (''headers'', JList (map (JStr \<circ> hex_of_bytes) (sp_headers p))), (''txBlockIndex'', JInt (sp_tx_block_index p)),
     (''rawTx'', JStr (hex_of_bytes (sp_raw_tx p))), (''merkleProof'', JList (map (JStr \<circ> hex_of_bytes) (sp_merkle_proof p))),
     (''txIndex'', JInt (sp_tx_index p)), (''outputIndex'', JInt (sp_output_index p)), (''borrower'', JStr (sp_borrower p))]"

record build_result =
  br_proof :: spv_proof
  br_txid :: bytes
  br_amount_sats :: nat
  br_pubkey_hash :: bytes
  br_script_type :: string
  br_block_height :: int
  br_block_timestamp :: nat

definition MIN_CONFIRMATIONS :: int where "MIN_CONFIRMATIONS = 6"

text \<open>A Python list indexed by an integer: negative indices count from the end.\<close>

definition py_nth :: "'a list \<Rightarrow> int \<Rightarrow> app_error + 'a" where
  "py_nth xs i = (if 0 \<le> i \<and> i < int (length xs) then Inr (xs ! nat i)
     else if i < 0 \<and> - int (length xs) \<le> i then Inr (xs ! nat (int (length xs) + i))
     else Inl (OtherError ''IndexError''))"

fun list_index :: "'a list \<Rightarrow> 'a \<Rightarrow> nat option" where
  "list_index [] x = None"
| "list_index (y # ys) x = (if y = x then Some 0 else map_option Suc (list_index ys x))"

text \<open>Steps 1 to 4 of \<open>build_proof\<close>: the raw transaction, its id, the output and its public key hash.\<close>

definition load_output ::
  "hash_fun \<Rightarrow> btc_node \<Rightarrow> string \<Rightarrow> int \<Rightarrow> app_error + (bytes \<times> tx_output \<times> bytes \<times> string)" where
  "load_output sha node txid output_index =
    then_do (bn_raw_transaction node txid) (\<lambda>raw_hex.
    then_do (fromhex raw_hex) (\<lambda>raw_tx.
    ensure (hex_of_bytes (rev (sha256d sha raw_tx)) = str_lower txid) (ValueError ''TXID mismatch'')
    (then_do (parse_tx_outputs raw_tx) (\<lambda>outputs.
    ensure (output_index < int (length outputs)) (ValueError ''Output index out of range'')
    (then_do (py_nth outputs output_index) (\<lambda>output.
    (case extract_pubkey_hash (to_script output) of
       (None, _) \<Rightarrow> Inl (ValueError ''Unsupported script type'')
     | (Some pubkey_hash, script_type) \<Rightarrow> Inr (raw_tx, output, pubkey_hash, script_type))))))))"

text \<open>Steps 5 and 6: the header chain, the block's transactions, the Merkle proof and its root.\<close>

definition load_inclusion ::
  "hash_fun \<Rightarrow> btc_node \<Rightarrow> string \<Rightarrow> int \<Rightarrow> int \<Rightarrow> int \<Rightarrow> app_error + (bytes list \<times> nat \<times> bytes list \<times> block_header)" where
  "load_inclusion sha node txid checkpoint_height target_height tip_height =
    then_do (get_headers_in_range node (checkpoint_height + 1) tip_height) (\<lambda>headers_data.
    then_do (map_result (\<lambda>(_, _, hx). fromhex hx) headers_data) (\<lambda>headers.
    then_do (bn_block_hash node target_height) (\<lambda>target_hash.
    then_do (bn_block_txids node target_hash) (\<lambda>block_txids.
    (case list_index block_txids txid of
       None \<Rightarrow> Inl (ValueError ''Transaction not found in block'')
     | Some tx_index \<Rightarrow>
    then_do (map_result hex_le_to_bytes block_txids) (\<lambda>txids_internal.
    then_do (generate_merkle_proof sha txids_internal (int tx_index)) (\<lambda>(merkle_proof, merkle_root).
    then_do (py_nth headers (target_height - checkpoint_height - 1)) (\<lambda>hb.
    then_do (header_from_bytes hb) (\<lambda>tx_block_header.
    ensure (merkle_root = bh_merkle_root tx_block_header) (ValueError ''Computed Merkle root does not match block header'')
      (Inr (headers, tx_index, merkle_proof, tx_block_header)))))))))))"

definition build_proof ::
  "hash_fun \<Rightarrow> btc_node \<Rightarrow> string \<Rightarrow> int \<Rightarrow> int \<Rightarrow> int \<Rightarrow> string \<Rightarrow> int option \<Rightarrow> app_error + build_result" where
  "build_proof sha node txid output_index checkpoint_height target_height borrower tip_opt =
    (let tip_height = (case tip_opt of None \<Rightarrow> target_height + MIN_CONFIRMATIONS - 1 | Some t \<Rightarrow> t)
     in
    ensure (checkpoint_height < target_height) (ValueError ''target_height must be > checkpoint_height'')
    (ensure (target_height \<le> tip_height) (ValueError ''tip_height must be >= target_height'')
    (ensure (MIN_CONFIRMATIONS \<le> tip_height - target_height + 1) (ValueError ''Insufficient confirmations'')
    (then_do (load_output sha node txid output_index) (\<lambda>(raw_tx, output, pubkey_hash, script_type).
     then_do (load_inclusion sha node txid checkpoint_height target_height tip_height)
      (\<lambda>(headers, tx_index, merkle_proof, tx_block_header).
       Inr \<lparr>br_proof = \<lparr>sp_checkpoint_height = checkpoint_height, sp_headers = headers,
              sp_tx_block_index = target_height - checkpoint_height - 1, sp_raw_tx = raw_tx, sp_merkle_proof = merkle_proof,
              sp_tx_index = int tx_index, sp_output_index = output_index, sp_borrower = borrower\<rparr>,
            br_txid = sha256d sha raw_tx, br_amount_sats = to_value output, br_pubkey_hash = pubkey_hash,
            br_script_type = script_type, br_block_height = target_height,
            br_block_timestamp = bh_timestamp tx_block_header\<rparr>))))))"

text \<open>The loop over the headers: parse, compare with the hash of the previous one, hash.\<close>

fun check_headers :: "hash_fun \<Rightarrow> bytes option \<Rightarrow> bytes list \<Rightarrow> app_error + bool" where
  "check_headers sha prev [] = Inr True"
| "check_headers sha prev (hb # rest) =
     then_do (header_from_bytes hb) (\<lambda>h.
       if prev \<noteq> None \<and> Some (bh_prev_block_hash h) \<noteq> prev then Inr False
       else then_do (block_hash sha h) (\<lambda>bh. check_headers sha (Some bh) rest))"

definition verify_proof_locally :: "hash_fun \<Rightarrow> build_result \<Rightarrow> app_error + bool" where
  "verify_proof_locally sha res =
    (let p = br_proof res
     in if sp_headers p = [] then Inr False
        else if int (length (sp_headers p)) \<le> sp_tx_block_index p then Inr False
        else if int (length (sp_headers p)) - sp_tx_block_index p < MIN_CONFIRMATIONS then Inr False
        else then_do (check_headers sha None (sp_headers p)) (\<lambda>ok.
          if \<not> ok then Inr False
          else then_do (py_nth (sp_headers p) (sp_tx_block_index p)) (\<lambda>hb.
            then_do (header_from_bytes hb) (\<lambda>h.
              Inr (verify_merkle_proof sha (sha256d sha (sp_raw_tx p)) (bh_merkle_root h) (sp_merkle_proof p) (sp_tx_index p))))))"

section \<open>What a built proof satisfies\<close>

lemma map_result_eq:
  "map_result f xs = Inr ys \<Longrightarrow> length ys = length xs \<and> (\<forall>i < length xs. f (xs ! i) = Inr (ys ! i))"
proof (induction xs arbitrary: ys)
  case Nil
  then show ?case by simp
next
  case (Cons x xs)
  then obtain y zs where "f x = Inr y" "map_result f xs = Inr zs" "ys = y # zs" by (auto simp: then_do_eq_Inr)
  with Cons.IH [of zs] show ?case by (auto simp: nth_Cons split: nat.split)
qed

lemma list_index_Some: "list_index xs x = Some i \<Longrightarrow> i < length xs \<and> xs ! i = x"
  by (induction xs arbitrary: i) (auto split: if_splits)

definition hash_bytes :: "hash_fun \<Rightarrow> bool" where
  "hash_bytes sha \<longleftrightarrow> (\<forall>x. is_bytes (sha x))"

lemma fromhex_bytes: "fromhex s = Inr b \<Longrightarrow> is_bytes b"
  using bytes_fromhex_bound by (auto simp: fromhex_def is_bytes_def list_all_iff split: option.splits)

lemma display_to_internal:
  assumes "hash_bytes sha" and "hex_of_bytes (rev (sha256d sha raw)) = str_lower txid"
  shows "hex_le_to_bytes txid = Inr (sha256d sha raw)"
proof -
  have "is_bytes (rev (sha256d sha raw))" using assms(1) by (simp add: hash_bytes_def sha256d_def is_bytes_def)
  then have "bytes_fromhex (str_lower txid) = Some (rev (sha256d sha raw))"
    unfolding assms(2) [symmetric] by (intro bytes_fromhex_of_bytes) (simp add: is_bytes_def list_all_iff)
  then show ?thesis by (simp add: bytes_fromhex_lower hex_le_to_bytes_def fromhex_def reverse_bytes_def)
qed

lemma load_inclusion_facts:
  assumes "load_inclusion sha node txid cp target tip = Inr (hs, ti, mp, h)" and "cp < target" and "target \<le> tip"
  shows "int (length hs) = tip - cp \<and> (\<forall>x \<in> set hs. is_bytes x) \<and> header_from_bytes (hs ! nat (target - cp - 1)) = Inr h \<and>
    (\<exists>bh ids internal. bn_block_hash node target = Inr bh \<and> bn_block_txids node bh = Inr ids \<and> length internal = length ids \<and>
       generate_merkle_proof sha internal (int ti) = Inr (mp, bh_merkle_root h) \<and> hex_le_to_bytes txid = Inr (internal ! ti))"
proof -
  obtain data bh ids internal root hb where
    data: "get_headers_in_range node (cp + 1) tip = Inr data" "map_result (\<lambda>(_, _, hx). fromhex hx) data = Inr hs"
    and ids: "bn_block_hash node target = Inr bh" "bn_block_txids node bh = Inr ids" "list_index ids txid = Some ti"
    and int: "map_result hex_le_to_bytes ids = Inr internal"
    and mp: "generate_merkle_proof sha internal (int ti) = Inr (mp, root)"
    and hb: "py_nth hs (target - cp - 1) = Inr hb" "header_from_bytes hb = Inr h" "root = bh_merkle_root h"
    using assms(1) unfolding load_inclusion_def by (auto simp: then_do_eq_Inr split: option.splits)
  have "length hs = length [cp + 1..tip]"
    using map_result_eq [OF data(2)] map_result_eq [OF data(1) [unfolded get_headers_in_range_def]] by simp
  then have n: "int (length hs) = tip - cp" using assms(2,3) by simp
  have "is_bytes (hs ! j)" if "j < length hs" for j
    using map_result_eq [OF data(2)] that by (auto simp: split_beta dest!: fromhex_bytes)
  then have b: "\<forall>x \<in> set hs. is_bytes x" by (metis in_set_conv_nth)
  have "hb = hs ! nat (target - cp - 1)" using hb(1) assms(2,3) n by (auto simp: py_nth_def split: if_splits)
  moreover have "length internal = length ids" "hex_le_to_bytes txid = Inr (internal ! ti)"
    using map_result_eq [OF int] list_index_Some [OF ids(3)] by auto
  ultimately show ?thesis using n b ids mp hb by blast
qed

text \<open>Everything a successful run of \<open>build_proof\<close> has checked.\<close>

lemma build_proof_facts:
  assumes "build_proof sha node txid oi cp target borrower tip = Inr res" and "hash_bytes sha"
  shows "\<exists>hs bh ids internal h. sp_headers (br_proof res) = hs \<and> sp_tx_block_index (br_proof res) = target - cp - 1 \<and> cp < target \<and>
    int (length hs) = (case tip of None \<Rightarrow> target + MIN_CONFIRMATIONS - 1 | Some t \<Rightarrow> t) - cp \<and>
    MIN_CONFIRMATIONS \<le> int (length hs) - (target - cp - 1) \<and>
    (\<forall>x \<in> set hs. is_bytes x) \<and> header_from_bytes (hs ! nat (target - cp - 1)) = Inr h \<and>
    bn_block_hash node target = Inr bh \<and> bn_block_txids node bh = Inr ids \<and> length internal = length ids \<and>
    generate_merkle_proof sha internal (sp_tx_index (br_proof res)) = Inr (sp_merkle_proof (br_proof res), bh_merkle_root h) \<and>
    internal ! nat (sp_tx_index (br_proof res)) = sha256d sha (sp_raw_tx (br_proof res))"
proof -
  let ?tip = "case tip of None \<Rightarrow> target + MIN_CONFIRMATIONS - 1 | Some t \<Rightarrow> t"
  obtain raw outp pk st hs ti mp h where g: "cp < target" "target \<le> ?tip" "MIN_CONFIRMATIONS \<le> ?tip - target + 1"
    and l1: "load_output sha node txid oi = Inr (raw, outp, pk, st)"
    and l2: "load_inclusion sha node txid cp target ?tip = Inr (hs, ti, mp, h)"
    and res: "sp_headers (br_proof res) = hs" "sp_tx_block_index (br_proof res) = target - cp - 1" "sp_tx_index (br_proof res) = int ti"
      "sp_merkle_proof (br_proof res) = mp" "sp_raw_tx (br_proof res) = raw"
    using assms(1) unfolding build_proof_def Let_def by (auto simp: then_do_eq_Inr)
  have "hex_of_bytes (rev (sha256d sha raw)) = str_lower txid"
    using l1 unfolding load_output_def
    by (auto simp: then_do_eq_Inr case_prod_beta split: option.split_asm)
  then have d: "hex_le_to_bytes txid = Inr (sha256d sha raw)" by (rule display_to_internal [OF assms(2)])
  from load_inclusion_facts [OF l2 g(1,2)] d show ?thesis
    unfolding res using g res by (auto simp: MIN_CONFIRMATIONS_def)
qed

text \<open>The headers of a chain: every header names the hash of the one before it.\<close>

definition header_chain :: "hash_fun \<Rightarrow> bytes list \<Rightarrow> bool" where
  "header_chain sha hs \<longleftrightarrow> (\<forall>i. Suc i < length hs \<longrightarrow> slice (hs ! Suc i) 4 36 = sha256d sha (hs ! i))"

fun linked :: "hash_fun \<Rightarrow> bytes option \<Rightarrow> bytes list \<Rightarrow> bool" where
  "linked sha prev [] = True"
| "linked sha prev (h # hs) \<longleftrightarrow> (prev = None \<or> prev = Some (slice h 4 36)) \<and> linked sha (Some (sha256d sha h)) hs"

lemma linked_chain:
  "linked sha prev hs \<longleftrightarrow> header_chain sha hs \<and> (prev = None \<or> hs = [] \<or> prev = Some (slice (hd hs) 4 36))"
proof (induction sha prev hs rule: linked.induct)
  case (1 sha prev)
  then show ?case by (simp add: header_chain_def)
next
  case (2 sha prev h hs)
  have "header_chain sha (h # hs) \<longleftrightarrow> header_chain sha hs \<and> (hs = [] \<or> sha256d sha h = slice (hd hs) 4 36)"
    by (cases hs) (auto simp: header_chain_def nth_Cons split: nat.splits)
  with 2 show ?case by auto
qed

lemma check_headers_linked:
  "\<forall>h \<in> set hs. length h = 80 \<and> is_bytes h \<Longrightarrow> check_headers sha prev hs = Inr (linked sha prev hs)"
proof (induction sha prev hs rule: check_headers.induct)
  case (1 sha prev)
  then show ?case by simp
next
  case (2 sha prev hb hs)
  obtain h where h: "header_from_bytes hb = Inr h" using 2 by (auto simp: header_from_bytes_def)
  then have "header_to_bytes h = Inr hb" using header_from_to [of hb h] "2.prems" by simp
  then have bh: "block_hash sha h = Inr (sha256d sha hb)" by (simp add: block_hash_def)
  have "bh_prev_block_hash h = slice hb 4 36" using h "2.prems" by (auto simp: header_from_bytes_def)
  with 2 h bh show ?case by auto
qed

text \<open>A proof that was built passes the local check exactly when its headers form a chain. If \<open>build_proof\<close> returns
  and the node's headers are 80 bytes long, \<open>verify_proof_locally\<close> returns, and it returns True exactly when
  every header names the hash of its predecessor: confirmations, the position of the block and the Merkle
  proof never fail. The hash is assumed to give bytes.\<close>

theorem built_proof_passes_local_check:
  assumes "\<forall>x. is_bytes (sha x)" and "build_proof sha node txid oi cp target borrower tip = Inr res"
    and "\<forall>h \<in> set (sp_headers (br_proof res)). length h = 80"
  shows "verify_proof_locally sha res = Inr (header_chain sha (sp_headers (br_proof res)))"
proof -
  have hash: "hash_bytes sha" using assms(1) by (simp add: hash_bytes_def)
  obtain hs internal and h :: block_header where
    hs: "sp_headers (br_proof res) = hs" "sp_tx_block_index (br_proof res) = target - cp - 1" "cp < target"
    "MIN_CONFIRMATIONS \<le> int (length hs) - (target - cp - 1)" "\<forall>x \<in> set hs. is_bytes x"
    and h: "header_from_bytes (hs ! nat (target - cp - 1)) = Inr h"
    and m: "generate_merkle_proof sha internal (sp_tx_index (br_proof res)) = Inr (sp_merkle_proof (br_proof res), bh_merkle_root h)"
      "internal ! nat (sp_tx_index (br_proof res)) = sha256d sha (sp_raw_tx (br_proof res))"
    using build_proof_facts [OF assms(2) hash] by blast
  have v: "verify_merkle_proof sha (sha256d sha (sp_raw_tx (br_proof res))) (bh_merkle_root h) (sp_merkle_proof (br_proof res)) (sp_tx_index (br_proof res))"
    using generate_verifies [OF m(1)] m(2) by simp
  have idx: "0 \<le> target - cp - 1" "target - cp - 1 < int (length hs)" using hs(3,4) by (auto simp: MIN_CONFIRMATIONS_def)
  have "check_headers sha None hs = Inr (header_chain sha hs)"
    using check_headers_linked [of hs sha None] hs(1,5) assms(3) by (simp add: linked_chain)
  with v idx hs h show ?thesis by (auto simp: verify_proof_locally_def Let_def py_nth_def)
qed

lemma proof_loop_siblings: "1 < length hs \<Longrightarrow> fst (proof_loop sha hs i []) \<noteq> []"
  by (subst proof_loop.simps, subst proof_loop_acc) simp

text \<open>A proof for a block with several transactions cannot be encoded. Whatever the ABI encoder does, when
  \<open>build_proof\<close> returns for a block that holds more than one transaction, \<open>encode_for_contract\<close> raises a
  \<open>TypeError\<close>, so the proof never reaches the contract.\<close>

theorem multi_tx_proof_not_encodable:
  assumes "\<forall>x. is_bytes (sha x)" and "build_proof sha node txid oi cp target borrower tip = Inr res"
    and "bn_block_hash node target = Inr bh" and "bn_block_txids node bh = Inr ids" and "1 < length ids"
  shows "encode_for_contract abi (br_proof res) = Inl (OtherError ''TypeError'')"
proof -
  have hash: "hash_bytes sha" using assms(1) by (simp add: hash_bytes_def)
  obtain bh' ids' internal and h :: block_header where
    m: "bn_block_hash node target = Inr bh'" "bn_block_txids node bh' = Inr ids'" "length internal = length ids'"
      "generate_merkle_proof sha internal (sp_tx_index (br_proof res)) = Inr (sp_merkle_proof (br_proof res), bh_merkle_root h)"
    using build_proof_facts [OF assms(2) hash] by blast
  then have "sp_merkle_proof (br_proof res) \<noteq> []"
    using assms(3-5) proof_loop_siblings [of internal sha "nat (sp_tx_index (br_proof res))"] by (auto simp: generate_merkle_proof_def split: if_splits)
  then show ?thesis by (cases "sp_merkle_proof (br_proof res)") (simp_all add: encode_for_contract_def ljust_bytes_def)
qed

text \<open>A node that answers every height with the same block of two transactions, under a constant hash.\<close>

definition constant_hash :: hash_fun where
  "constant_hash x = replicate 32 0"

definition sample_raw :: bytes where
  "sample_raw = ser_tx False [1, 0, 0, 0] [\<lparr>ti_outpoint = replicate 36 7, ti_script = [], ti_sequence = [0, 0, 0, 0]\<rparr>]
     [\<lparr>to_value = 5000, to_script = 0 # 20 # replicate 20 3\<rparr>] [0, 0, 0, 0]"

definition sample_btc_node :: btc_node where
  "sample_btc_node = \<lparr>bn_block_hash = \<lambda>_. Inr ''b'', bn_header_hex = \<lambda>_. Inr (''01'' @ replicate 158 CHR ''0''),
     bn_block_txids = \<lambda>_. Inr [replicate 64 CHR ''0'', replicate 64 CHR ''0''],
     bn_raw_transaction = \<lambda>_. Inr (hex_of_bytes sample_raw)\<rparr>"

definition sample_build :: "app_error + build_result" where
  "sample_build = build_proof constant_hash sample_btc_node (replicate 64 CHR ''0'') 0 100 101 ''0xb'' None"

lemma sample_build_ok:
  "case sample_build of Inl _ \<Rightarrow> False | Inr res \<Rightarrow> list_all (\<lambda>h. length h = 80) (sp_headers (br_proof res)) \<and>
     length (sp_headers (br_proof res)) = 6"
  by code_simp

lemma case_sum_InrD: "case x of Inl _ \<Rightarrow> False | Inr r \<Rightarrow> Q r \<Longrightarrow> x = Inr (projr x) \<and> Q (projr x)"
  by (cases x) simp_all

lemma sample_build_Inr: "sample_build = Inr (projr sample_build)"
  using case_sum_InrD [OF sample_build_ok] by blast

lemma sample_build_headers: "\<forall>h \<in> set (sp_headers (br_proof (projr sample_build))). length h = 80"
  using case_sum_InrD [OF sample_build_ok] by (simp add: list_all_iff)

lemma constant_hash_bytes: "\<forall>x. is_bytes (constant_hash x)"
  by (simp add: constant_hash_def is_bytes_def list_all_iff)

theorem built_proof_passes_local_check_witness:
  "sample_build = Inr (projr sample_build) \<and>
   verify_proof_locally constant_hash (projr sample_build) =
     Inr (header_chain constant_hash (sp_headers (br_proof (projr sample_build))))"
  using built_proof_passes_local_check [OF constant_hash_bytes sample_build_Inr [unfolded sample_build_def] sample_build_headers [unfolded sample_build_def]]
    sample_build_Inr by (simp add: sample_build_def)

theorem multi_tx_proof_not_encodable_witness:
  "sample_build = Inr (projr sample_build) \<and>
   encode_for_contract (\<lambda>_. Inr []) (br_proof (projr sample_build)) = Inl (OtherError ''TypeError'')"
  using multi_tx_proof_not_encodable [OF constant_hash_bytes sample_build_Inr [unfolded sample_build_def], of "''b''" "[replicate 64 CHR ''0'', replicate 64 CHR ''0'']"]
    sample_build_Inr by (simp add: sample_build_def sample_btc_node_def)

end
