(* ===== verification/Payout_Watcher.thy ===== *)
theory Payout_Watcher
  imports Btc_Address Proof_Builder Complex_Main
begin

text \<open>
  The address watcher (\<open>hashcredit_prover/watcher.py\<close>): conversion of BTC amounts to satoshis with Python's
  \<open>Decimal\<close>, the store of pending and submitted payouts, and the scan of blocks for outputs that pay a
  watched address. \<open>Decimal\<close> is modelled with its default context (28 digits, half-even rounding,
  exponents between -999999 and 999999); the store with the column types PostgreSQL enforces.
\<close>

section \<open>Decimal amounts\<close>

text \<open>\<open>DFin c e\<close> is \<open>c * 10\<^sup>e\<close>.\<close>

datatype decimal_value = DFin int int | DInf | DNaN | DSNaN

text \<open>A JSON number reaches \<open>btc_to_sats\<close> as an int or a float; the model keeps what \<open>str(value)\<close> prints.\<close>

datatype btc_value = VDecimal decimal_value | VStr string | VNum string

definition SATS_PER_BTC :: int where "SATS_PER_BTC = 100000000"

text \<open>The number of decimal digits of a positive integer.\<close>

function dec_digits :: "int \<Rightarrow> int" where
  "dec_digits n = (if n < 10 then 1 else 1 + dec_digits (n div 10))"
  by pat_completeness auto
termination by (relation "measure nat") auto

declare dec_digits.simps [simp del]

definition all_digits :: "string \<Rightarrow> bool" where
  "all_digits s = list_all (\<lambda>c. char_digit c \<noteq> None) s"

text \<open>An optional sign; \<open>(negative, rest)\<close>.\<close>

definition read_sign :: "string \<Rightarrow> bool \<times> string" where
  "read_sign s = (case s of [] \<Rightarrow> (False, [])
     | c # cs \<Rightarrow> if c = CHR ''-'' then (True, cs) else if c = CHR ''+'' then (False, cs) else (False, s))"

definition int_digits :: "string \<Rightarrow> int" where
  "int_digits s = foldl (\<lambda>n c. 10 * n + (case char_digit c of None \<Rightarrow> 0 | Some d \<Rightarrow> int d)) 0 s"

text \<open>Digits, an optional fraction, an optional exponent; at least one digit before or after the point.\<close>

definition read_finite :: "string \<Rightarrow> (int \<times> int) option" where
  "read_finite s =
    (let whole = takeWhile (\<lambda>c. char_digit c \<noteq> None) s; s1 = drop (length whole) s;
         frac = (if s1 \<noteq> [] \<and> hd s1 = CHR ''.'' then takeWhile (\<lambda>c. char_digit c \<noteq> None) (tl s1) else []);
         s2 = (if s1 \<noteq> [] \<and> hd s1 = CHR ''.'' then drop (length frac) (tl s1) else s1)
     in if whole = [] \<and> frac = [] then None
        else if s2 = [] then Some (int_digits (whole @ frac), - int (length frac))
        else if hd s2 = CHR ''e'' then
          (let (neg, ds) = read_sign (tl s2)
           in if ds \<noteq> [] \<and> all_digits ds
              then Some (int_digits (whole @ frac), (if neg then - int_digits ds else int_digits ds) - int (length frac))
              else None)
        else None)"

text \<open>\<open>Decimal(s)\<close>: surrounding space and underscores are dropped; \<open>None\<close> is \<open>InvalidOperation\<close>.\<close>

definition decimal_of_str :: "string \<Rightarrow> decimal_value option" where
  "decimal_of_str s =
    (let (neg, t) = read_sign (str_lower (filter (\<lambda>c. c \<noteq> CHR ''_'') (str_strip s)))
     in if t = ''inf'' \<or> t = ''infinity'' then Some DInf
        else if starts_with ''nan'' t \<and> all_digits (drop 3 t) then Some DNaN
        else if starts_with ''snan'' t \<and> all_digits (drop 4 t) then Some DSNaN
        else map_option (\<lambda>(c, e). DFin (if neg then - c else c) e) (read_finite t))"

definition to_decimal :: "btc_value \<Rightarrow> app_error + decimal_value" where
  "to_decimal v = (case v of VDecimal d \<Rightarrow> Inr d
     | VStr s \<Rightarrow> (case decimal_of_str s of None \<Rightarrow> Inl (OtherError ''InvalidOperation'') | Some d \<Rightarrow> Inr d)
     | VNum s \<Rightarrow> (case decimal_of_str s of None \<Rightarrow> Inl (OtherError ''InvalidOperation'') | Some d \<Rightarrow> Inr d))"

text \<open>Rounding of a result to the context: half to even at the least allowed exponent.\<close>

definition round_half_even :: "int \<Rightarrow> int \<Rightarrow> int" where
  "round_half_even n m = (let q = n div m; r = n mod m
     in if 2 * r < m \<or> (2 * r = m \<and> even q) then q else q + 1)"

definition dec_fix :: "int \<Rightarrow> int \<Rightarrow> app_error + int \<times> int" where
  "dec_fix c e =
    (if c = 0 then Inr (0, max (-1000026) (min e 999999))
     else let em0 = dec_digits \<bar>c\<bar> + e - 28
          in if 999972 < em0 then Inl (OtherError ''Overflow'')
             else let em = max em0 (-1000026)
                  in if em \<le> e then Inr (c, e)
                     else let q = round_half_even \<bar>c\<bar> (10 ^ nat (em - e));
                              (q', e') = (if 28 < dec_digits q then (q div 10, em + 1) else (q, em))
                          in if 999972 < e' then Inl (OtherError ''Overflow'') else Inr (sgn c * q', e'))"

definition btc_to_sats :: "btc_value \<Rightarrow> app_error + int" where
  "btc_to_sats v = then_do (to_decimal v) (\<lambda>d. case d of
      DInf \<Rightarrow> Inl (OtherError ''OverflowError'')
    | DNaN \<Rightarrow> Inl (ValueError ''fractional satoshis'')
    | DSNaN \<Rightarrow> Inl (OtherError ''InvalidOperation'')
    | DFin c e \<Rightarrow> then_do (dec_fix (c * SATS_PER_BTC) e) (\<lambda>(c', e').
        if 0 \<le> e' then Inr (c' * 10 ^ nat e')
        else ensure (c' mod 10 ^ nat (- e') = 0) (ValueError ''fractional satoshis'') (Inr (c' div 10 ^ nat (- e')))))"

lemma sample_sats:
  "btc_to_sats (VNum ''0.1'') = Inr 10000000" "btc_to_sats (VNum ''1e-08'') = Inr 1" "btc_to_sats (VStr ''0.12345678'') = Inr 12345678"
  "btc_to_sats (VNum ''21000000.0'') = Inr 2100000000000000" "btc_to_sats (VStr ''0.000000001'') = Inl (ValueError ''fractional satoshis'')"
  by code_simp+

lemma dec_digits_bounds: "0 < n \<Longrightarrow> 1 \<le> dec_digits n \<and> 10 ^ nat (dec_digits n - 1) \<le> n \<and> n < 10 ^ nat (dec_digits n)"
proof (induction n rule: dec_digits.induct)
  case (1 n)
  show ?case
  proof (cases "n < 10")
    case True
    then show ?thesis using 1 by (subst (1 2 3) dec_digits.simps) simp
  next
    case False
    let ?d = "dec_digits (n div 10)"
    have d: "dec_digits n = 1 + ?d" using False by (subst dec_digits.simps) simp
    have ih: "1 \<le> ?d" "10 ^ nat (?d - 1) \<le> n div 10" "n div 10 < 10 ^ nat ?d" using 1 False by auto
    define k where "k = nat (?d - 1)"
    have k: "?d = int k + 1" using ih(1) by (simp add: k_def)
    have "nat (?d - 1) = k" "nat ?d = Suc k" "nat (dec_digits n - 1) = Suc k" "nat (dec_digits n) = Suc (Suc k)"
      unfolding d k by simp_all
    moreover from this have "10 * 10 ^ k \<le> n" "n < 100 * 10 ^ k" using ih(2,3) by auto
    ultimately show ?thesis using d k by simp
  qed
qed

lemma dec_digits_le: "0 < n \<Longrightarrow> n < 10 ^ m \<Longrightarrow> dec_digits n \<le> int m"
proof (rule ccontr)
  assume "0 < n" "n < 10 ^ m" "\<not> dec_digits n \<le> int m"
  then have "(10 :: int) ^ m \<le> 10 ^ nat (dec_digits n - 1)" by (intro power_increasing) auto
  with dec_digits_bounds [OF \<open>0 < n\<close>] \<open>n < 10 ^ m\<close> show False by linarith
qed

lemma round_exact: "0 < m \<Longrightarrow> round_half_even (k * m) m = k"
  by (simp add: round_half_even_def)

text \<open>The product with the number of satoshis in a bitcoin is exact when the coefficient has at most 28 digits.\<close>

lemma dec_fix_exact:
  assumes "\<bar>c\<bar> < 10 ^ 28" and "- 1000 \<le> e" and "e \<le> 1000"
  shows "\<exists>c' e'. dec_fix (c * SATS_PER_BTC) e = Inr (c', e') \<and> (of_int c' :: rat) * 10 powi e' = of_int c * 10 powi (e + 8)"
proof (cases "c = 0")
  case True
  then show ?thesis by (simp add: dec_fix_def)
next
  case False
  let ?p = "\<bar>c\<bar> * 10 ^ 8" and ?D = "dec_digits (\<bar>c\<bar> * 10 ^ 8)"
  have p: "\<bar>c * SATS_PER_BTC\<bar> = ?p" by (simp add: SATS_PER_BTC_def abs_mult)
  have pos: "0 < ?p" using False by simp
  have "?p < 10 ^ 36" using assms(1) by simp
  then have D: "?D \<le> 36" "1 \<le> ?D" "?p < 10 ^ nat ?D" using dec_digits_le [OF pos, of 36] dec_digits_bounds [OF pos] by auto
  show ?thesis
  proof (cases "?D \<le> 28")
    case True
    then have "dec_fix (c * SATS_PER_BTC) e = Inr (c * SATS_PER_BTC, e)"
      using False assms D unfolding dec_fix_def p by (auto simp: Let_def SATS_PER_BTC_def)
    then show ?thesis by (simp add: SATS_PER_BTC_def power_int_add)
  next
    case large: False
    define k where "k = nat (?D - 28)"
    have k: "int k = ?D - 28" "k \<le> 8" "nat ?D = 28 + k" using large D by (auto simp: k_def)
    have split: "?p = \<bar>c\<bar> * 10 ^ (8 - k) * 10 ^ k" using k(2) by (simp flip: power_add)
    let ?q = "\<bar>c\<bar> * 10 ^ (8 - k)"
    have "?p < 10 ^ (28 + k)" using D(3) by (simp only: k(3))
    then have q: "0 < ?q" "?q < 10 ^ 28" using False unfolding split power_add by simp_all
    have r: "round_half_even ?p (10 ^ nat (?D - 28)) = ?q"
      unfolding k_def [symmetric] by (subst split, rule round_exact) simp
    have "dec_fix (c * SATS_PER_BTC) e = Inr (sgn (c * SATS_PER_BTC) * ?q, e + int k)"
      using False assms D k large r dec_digits_le [OF q] unfolding dec_fix_def p
      by (simp add: Let_def SATS_PER_BTC_def max_def)
    moreover have "sgn (c * SATS_PER_BTC) * ?q = c * 10 ^ (8 - k)"
      using sgn_mult_abs [of c] by (simp add: SATS_PER_BTC_def sgn_mult mult.assoc [symmetric])
    moreover have "(10 :: rat) ^ (8 - k) * 10 powi (e + int k) = 10 powi (e + 8)"
      using k(2) by (simp flip: power_int_of_nat power_int_add add: of_nat_diff) (simp add: add.commute)
    ultimately show ?thesis by (simp add: mult.assoc)
  qed
qed

text \<open>Conversion of BTC to satoshis is exact. For every decimal of at most 28 digits with an exponent between -1000 and
  1000, \<open>btc_to_sats\<close> returns \<open>s\<close> exactly when \<open>s\<close> is the amount times 100,000,000; when that is not an
  integer it raises \<open>ValueError\<close>, and it raises nothing else.\<close>

theorem btc_to_sats_exact:
  assumes "\<bar>c\<bar> < 10 ^ 28" and "- 1000 \<le> e" and "e \<le> 1000"
  shows "(btc_to_sats (VDecimal (DFin c e)) = Inr s \<longleftrightarrow> (of_int s :: rat) = of_int c * 10 powi (e + 8)) \<and>
    (btc_to_sats (VDecimal (DFin c e)) = Inl err \<longrightarrow> err = ValueError ''fractional satoshis'')"
proof -
  obtain c' e' where f: "dec_fix (c * SATS_PER_BTC) e = Inr (c', e')"
    and v: "(of_int c' :: rat) * 10 powi e' = of_int c * 10 powi (e + 8)"
    using dec_fix_exact [OF assms] by blast
  show ?thesis
  proof (cases "0 \<le> e'")
    case True
    then obtain k where k: "e' = int k" using nonneg_eq_int by blast
    have "(of_int s :: rat) = of_int c' * 10 powi e' \<longleftrightarrow> s = c' * 10 ^ k"
      unfolding k by (simp flip: of_int_eq_iff [where 'a = rat])
    with f k show ?thesis unfolding v [symmetric] by (auto simp: btc_to_sats_def to_decimal_def)
  next
    case False
    then obtain k where k: "e' = - int k" by (metis int_cases4 linorder_not_less of_nat_0_le_iff)
    have "(of_int s :: rat) = of_int c' * 10 powi e' \<longleftrightarrow> s * 10 ^ k = c'"
      unfolding k by (simp add: power_int_minus field_simps flip: of_int_eq_iff [where 'a = rat])
    moreover have "s * 10 ^ k = c' \<longleftrightarrow> c' mod 10 ^ k = 0 \<and> c' div 10 ^ k = s" by auto
    ultimately show ?thesis using f False unfolding v [symmetric] k
      by (auto simp: btc_to_sats_def to_decimal_def ensure_def)
  qed
qed

theorem btc_to_sats_exact_witness:
  "btc_to_sats (VDecimal (DFin 123456780 (-9))) = Inr 12345678"
  using btc_to_sats_exact [of 123456780 "-9" 12345678 "ValueError []"] by (simp add: power_int_minus)

section \<open>The payout store\<close>

type_synonym payout_key = "string \<times> int"

record pending_row =
  pp_txid :: string
  pp_output_index :: int
  pp_borrower :: string
  pp_btc_address :: string
  pp_amount_sats :: int
  pp_block_height :: int
  pp_block_hash :: string
  pp_first_seen :: int

record submitted_row =
  sb_txid :: string
  sb_output_index :: int
  sb_borrower :: string
  sb_amount_sats :: int
  sb_block_height :: int
  sb_submitted_at :: int
  sb_evm_tx_hash :: string

definition pending_key :: "pending_row \<Rightarrow> payout_key" where
  "pending_key p = (pp_txid p, pp_output_index p)"

definition submitted_key :: "submitted_row \<Rightarrow> payout_key" where
  "submitted_key s = (sb_txid s, sb_output_index s)"

text \<open>\<open>ps_postgres\<close> is \<open>_is_postgres\<close>, fixed by the database URL.\<close>

record payout_store =
  ps_postgres :: bool
  ps_pending :: "pending_row list"
  ps_submitted :: "submitted_row list"

text \<open>\<open>url.replace("postgres://", "postgresql://", 1)\<close> is applied to a URL that starts with the old scheme.\<close>

definition parse_database_url :: "string \<Rightarrow> string" where
  "parse_database_url url =
    (if \<not> (starts_with ''sqlite://'' url \<or> starts_with ''postgresql://'' url \<or> starts_with ''postgres://'' url)
     then ''sqlite:///'' @ url
     else if starts_with ''postgres://'' url then ''postgresql://'' @ drop (length ''postgres://'') url
     else url)"

definition open_store :: "string \<Rightarrow> pending_row list \<Rightarrow> submitted_row list \<Rightarrow> payout_store" where
  "open_store url pend sub = \<lparr>ps_postgres = starts_with ''postgresql://'' (parse_database_url url), ps_pending = pend, ps_submitted = sub\<rparr>"

text \<open>
  PostgreSQL rejects a string longer than its \<open>String(n)\<close> column and an integer outside the four bytes of
  an \<open>Integer\<close> column; SQLite stores integers of up to eight bytes and strings of any length.
\<close>

definition int_fits :: "bool \<Rightarrow> int \<Rightarrow> bool" where
  "int_fits pg i = (if pg then - (2 ^ 31) \<le> i \<and> i < 2 ^ 31 else - (2 ^ 63) \<le> i \<and> i < 2 ^ 63)"

definition str_fits :: "bool \<Rightarrow> nat \<Rightarrow> string \<Rightarrow> bool" where
  "str_fits pg n s = (pg \<longrightarrow> length s \<le> n)"

definition pending_fits :: "bool \<Rightarrow> pending_row \<Rightarrow> bool" where
  "pending_fits pg p \<longleftrightarrow> str_fits pg 64 (pp_txid p) \<and> int_fits pg (pp_output_index p) \<and> str_fits pg 42 (pp_borrower p) \<and>
     str_fits pg 100 (pp_btc_address p) \<and> int_fits pg (pp_amount_sats p) \<and> int_fits pg (pp_block_height p) \<and>
     str_fits pg 64 (pp_block_hash p)"

definition submitted_fits :: "bool \<Rightarrow> submitted_row \<Rightarrow> bool" where
  "submitted_fits pg s \<longleftrightarrow> str_fits pg 64 (sb_txid s) \<and> int_fits pg (sb_output_index s) \<and> str_fits pg 42 (sb_borrower s) \<and>
     int_fits pg (sb_amount_sats s) \<and> int_fits pg (sb_block_height s) \<and> str_fits pg 66 (sb_evm_tx_hash s)"

definition add_pending :: "pending_row \<Rightarrow> payout_store \<Rightarrow> (app_error + bool) \<times> payout_store" where
  "add_pending p st =
    (if \<not> pending_fits (ps_postgres st) p then (Inl (OtherError ''DataError''), st)
     else (Inr (\<not> has_key pending_key (ps_pending st) (pending_key p)),
           st\<lparr>ps_pending := insert_or_ignore pending_key p (ps_pending st)\<rparr>))"

definition get_pending :: "payout_store \<Rightarrow> pending_row list" where
  "get_pending st = ps_pending st"

definition remove_pending :: "string \<Rightarrow> int \<Rightarrow> payout_store \<Rightarrow> payout_store" where
  "remove_pending txid oi st = st\<lparr>ps_pending := filter (\<lambda>p. pending_key p \<noteq> (txid, oi)) (ps_pending st)\<rparr>"

definition is_submitted :: "string \<Rightarrow> int \<Rightarrow> payout_store \<Rightarrow> bool" where
  "is_submitted txid oi st = has_key submitted_key (ps_submitted st) (txid, oi)"

text \<open>One transaction: the insert into \<open>submitted_payouts\<close> and the delete happen together or not at all.\<close>

definition mark_submitted :: "int \<Rightarrow> string \<Rightarrow> int \<Rightarrow> string \<Rightarrow> payout_store \<Rightarrow> (app_error + unit) \<times> payout_store" where
  "mark_submitted now txid oi evm_tx_hash st =
    (case List.find (\<lambda>p. pending_key p = (txid, oi)) (ps_pending st) of
       None \<Rightarrow> (Inr (), st)
     | Some row \<Rightarrow>
         (let sub = \<lparr>sb_txid = txid, sb_output_index = oi, sb_borrower = pp_borrower row, sb_amount_sats = pp_amount_sats row,
                     sb_block_height = pp_block_height row, sb_submitted_at = now, sb_evm_tx_hash = evm_tx_hash\<rparr>
          in if is_submitted txid oi st then (Inl (IntegrityError ''submitted_payouts_pkey''), st)
             else if \<not> submitted_fits (ps_postgres st) sub then (Inl (OtherError ''DataError''), st)
             else (Inr (), remove_pending txid oi (st\<lparr>ps_submitted := ps_submitted st @ [sub]\<rparr>))))"

section \<open>Scanning blocks\<close>

record watched_address =
  wa_btc_address :: string
  wa_borrower :: string
  wa_enabled :: bool

text \<open>
  The part of \<open>getblock(hash, 2)\<close> that the watcher reads. The node documents that every transaction has its
  \<open>txid\<close> and every output its \<open>n\<close> and \<open>value\<close>; the script's \<open>hex\<close> may be missing.
\<close>

record vout_json =
  vo_n :: int
  vo_script_hex :: "string option"
  vo_value :: btc_value

record tx_json =
  tj_txid :: string
  tj_vout :: "vout_json list"

record watch_node =
  wn_node :: btc_node
  wn_block_count :: "app_error + int"
  wn_block :: "string \<Rightarrow> app_error + tx_json list"

text \<open>\<open>{a.btc_address: a for a in addresses if a.enabled}\<close> and the table from public key hashes to addresses.\<close>

definition enabled_addresses :: "watched_address list \<Rightarrow> (string, watched_address) dict" where
  "enabled_addresses as = foldl (\<lambda>d a. dict_set (wa_btc_address a) a d) [] (filter wa_enabled as)"

definition pubkey_table :: "hash_fun \<Rightarrow> (string, watched_address) dict \<Rightarrow> (bytes, watched_address) dict" where
  "pubkey_table sha addresses =
    foldl (\<lambda>d a. case decode_btc_address sha (wa_btc_address a) of None \<Rightarrow> d | Some (h, _) \<Rightarrow> dict_set h a d) [] (map snd addresses)"

text \<open>The body of the loop over the outputs: \<open>None\<close> where the source says \<open>continue\<close>.\<close>

definition scan_output ::
  "int \<Rightarrow> int \<Rightarrow> string \<Rightarrow> (bytes, watched_address) dict \<Rightarrow> string \<Rightarrow> vout_json \<Rightarrow> payout_store
    \<Rightarrow> (app_error + pending_row option) \<times> payout_store" where
  "scan_output now height bh table txid v st =
    (if is_submitted txid (vo_n v) st then (Inr None, st)
     else case vo_script_hex v of
       None \<Rightarrow> (Inr None, st)
     | Some hx \<Rightarrow>
         if hx = [] then (Inr None, st)
         else case fromhex hx of
           Inl e \<Rightarrow> (Inl e, st)
         | Inr script \<Rightarrow>
             (case extract_pubkey_hash script of
                (None, _) \<Rightarrow> (Inr None, st)
              | (Some pubkey_hash, _) \<Rightarrow>
                  (case map_of table pubkey_hash of
                     None \<Rightarrow> (Inr None, st)
                   | Some watched \<Rightarrow>
                       (case btc_to_sats (vo_value v) of
                          Inl e \<Rightarrow> (Inl e, st)
                        | Inr amount \<Rightarrow>
                            (let payout = \<lparr>pp_txid = txid, pp_output_index = vo_n v, pp_borrower = wa_borrower watched,
                                pp_btc_address = wa_btc_address watched, pp_amount_sats = amount, pp_block_height = height,
                                pp_block_hash = bh, pp_first_seen = now\<rparr>
                             in and_then (add_pending payout st) (\<lambda>added st'. (Inr (if added then Some payout else None), st')))))))"

text \<open>The nested loops over transactions and outputs, as one list of outputs with their transaction id.\<close>

fun scan_outputs ::
  "int \<Rightarrow> int \<Rightarrow> string \<Rightarrow> (bytes, watched_address) dict \<Rightarrow> (string \<times> vout_json) list \<Rightarrow> payout_store
    \<Rightarrow> (app_error + pending_row list) \<times> payout_store" where
  "scan_outputs now height bh table [] st = (Inr [], st)"
| "scan_outputs now height bh table ((txid, v) # rest) st =
     and_then (scan_output now height bh table txid v st) (\<lambda>new st1.
       and_then (scan_outputs now height bh table rest st1) (\<lambda>more st2.
         (Inr ((case new of None \<Rightarrow> [] | Some p \<Rightarrow> [p]) @ more), st2)))"

definition block_outputs :: "tx_json list \<Rightarrow> (string \<times> vout_json) list" where
  "block_outputs txs = concat (map (\<lambda>tx. map (Pair (tj_txid tx)) (tj_vout tx)) txs)"

definition scan_block ::
  "hash_fun \<Rightarrow> int \<Rightarrow> watch_node \<Rightarrow> (string, watched_address) dict \<Rightarrow> int \<Rightarrow> payout_store
    \<Rightarrow> (app_error + pending_row list) \<times> payout_store" where
  "scan_block sha now wn addresses height st =
    (case then_do (bn_block_hash (wn_node wn) height) (\<lambda>bh. then_do (wn_block wn bh) (\<lambda>block. Inr (bh, block))) of
       Inl e \<Rightarrow> (Inl e, st)
     | Inr (bh, block) \<Rightarrow> scan_outputs now height bh (pubkey_table sha addresses) (block_outputs block) st)"

end
