(* ===== verification/Spv_Relayer.thy ===== *)
theory Spv_Relayer
  imports Payout_Watcher
begin

text \<open>
  The SPV relayer (\<open>hashcredit_prover/relayer.py\<close>): scanning new blocks, choosing a checkpoint, building and
  submitting proofs and recording what was submitted. The Bitcoin node and the EVM client are records of
  answers; \<open>rs_accepted\<close> is not a field of the source but the list of payouts whose \<open>submitPayout\<close> call
  returned a receipt, which is what the contract has seen.
\<close>

section \<open>The relayer\<close>

record relayer_config =
  rc_required_confirmations :: int
  rc_max_header_chain :: int
  rc_scan_batch_size :: int
  rc_watched_addresses :: "watched_address list"

record evm_client =
  ev_latest_checkpoint :: "app_error + int"
  ev_submit_payout :: "bytes \<Rightarrow> app_error + string"

record relayer_state =
  rs_store :: payout_store
  rs_last_scanned :: "int option"
  rs_watcher_height :: "int option"
  rs_accepted :: "payout_key list"

text \<open>\<open>AddressWatcher.scan_range\<close>: blocks in order; what was stored before an error stays.\<close>

fun scan_range ::
  "hash_fun \<Rightarrow> int \<Rightarrow> watch_node \<Rightarrow> relayer_config \<Rightarrow> int list \<Rightarrow> relayer_state \<Rightarrow> (app_error + pending_row list) \<times> relayer_state" where
  "scan_range sha now wn cfg [] st = (Inr [], st)"
| "scan_range sha now wn cfg (height # rest) st =
     (case scan_block sha now wn (enabled_addresses (rc_watched_addresses cfg)) height (rs_store st) of
        (Inl e, store) \<Rightarrow> (Inl e, st\<lparr>rs_store := store\<rparr>)
      | (Inr payouts, store) \<Rightarrow>
          and_then (scan_range sha now wn cfg rest (st\<lparr>rs_store := store, rs_watcher_height := Some height\<rparr>))
            (\<lambda>more st'. (Inr (payouts @ more), st')))"

definition scan_new_blocks ::
  "hash_fun \<Rightarrow> int \<Rightarrow> watch_node \<Rightarrow> relayer_config \<Rightarrow> relayer_state \<Rightarrow> (app_error + pending_row list) \<times> relayer_state" where
  "scan_new_blocks sha now wn cfg st =
    (case wn_block_count wn of
       Inl e \<Rightarrow> (Inl e, st)
     | Inr current_height \<Rightarrow>
         (let last = (case rs_last_scanned st of None \<Rightarrow> max (current_height - rc_scan_batch_size cfg) 0 | Some h \<Rightarrow> h);
              st1 = st\<lparr>rs_last_scanned := Some last\<rparr>
          in if current_height \<le> last then (Inr [], st1)
             else let start = last + 1; end_height = min (start + rc_scan_batch_size cfg - 1) current_height
                  in and_then (scan_range sha now wn cfg [start..end_height] st1) (\<lambda>payouts st2.
                       (Inr payouts, st2\<lparr>rs_last_scanned := Some end_height\<rparr>))))"

definition select_checkpoint :: "relayer_config \<Rightarrow> app_error + int \<Rightarrow> int \<Rightarrow> app_error + int option" where
  "select_checkpoint cfg latest target_height =
    then_do latest (\<lambda>latest_checkpoint.
      if latest_checkpoint = 0 then Inr None
      else let chain_length = target_height - latest_checkpoint
           in if chain_length \<le> 0 then Inr None
              else if rc_max_header_chain cfg < chain_length then Inr None
              else Inr (Some latest_checkpoint))"

text \<open>\<open>_submit_payout\<close>: build, encode, submit, and only then record the submission.\<close>

definition submit_one ::
  "hash_fun \<Rightarrow> (spv_proof \<Rightarrow> app_error + bytes) \<Rightarrow> int \<Rightarrow> watch_node \<Rightarrow> evm_client \<Rightarrow> pending_row \<Rightarrow> int \<Rightarrow> relayer_state
    \<Rightarrow> (app_error + unit) \<times> relayer_state" where
  "submit_one sha abi now wn ev payout checkpoint_height st =
    (case then_do (build_proof sha (wn_node wn) (pp_txid payout) (pp_output_index payout) checkpoint_height
             (pp_block_height payout) (pp_borrower payout) None) (\<lambda>res.
           then_do (encode_for_contract abi (br_proof res)) (ev_submit_payout ev)) of
       Inl e \<Rightarrow> (Inl e, st)
     | Inr evm_tx_hash \<Rightarrow>
         (let (r, store) = mark_submitted now (pp_txid payout) (pp_output_index payout) evm_tx_hash (rs_store st)
          in (r, st\<lparr>rs_store := store, rs_accepted := rs_accepted st @ [pending_key payout]\<rparr>)))"

text \<open>The loop over the pending payouts: an error of \<open>_submit_payout\<close> is logged, one of \<open>select_checkpoint\<close> is not caught.\<close>

fun process_rows ::
  "hash_fun \<Rightarrow> (spv_proof \<Rightarrow> app_error + bytes) \<Rightarrow> int \<Rightarrow> watch_node \<Rightarrow> evm_client \<Rightarrow> relayer_config \<Rightarrow> int \<Rightarrow> pending_row list
    \<Rightarrow> nat \<Rightarrow> relayer_state \<Rightarrow> (app_error + nat) \<times> relayer_state" where
  "process_rows sha abi now wn ev cfg current_height [] processed st = (Inr processed, st)"
| "process_rows sha abi now wn ev cfg current_height (payout # rest) processed st =
     (if current_height - pp_block_height payout + 1 < rc_required_confirmations cfg
      then process_rows sha abi now wn ev cfg current_height rest processed st
      else case select_checkpoint cfg (ev_latest_checkpoint ev) (pp_block_height payout) of
        Inl e \<Rightarrow> (Inl e, st)
      | Inr None \<Rightarrow> process_rows sha abi now wn ev cfg current_height rest processed st
      | Inr (Some checkpoint) \<Rightarrow>
          (case submit_one sha abi now wn ev payout checkpoint st of
             (Inl e, st') \<Rightarrow> process_rows sha abi now wn ev cfg current_height rest processed st'
           | (Inr _, st') \<Rightarrow> process_rows sha abi now wn ev cfg current_height rest (processed + 1) st'))"

definition process_pending ::
  "hash_fun \<Rightarrow> (spv_proof \<Rightarrow> app_error + bytes) \<Rightarrow> int \<Rightarrow> watch_node \<Rightarrow> evm_client \<Rightarrow> relayer_config \<Rightarrow> relayer_state
    \<Rightarrow> (app_error + nat) \<times> relayer_state" where
  "process_pending sha abi now wn ev cfg st =
    (case wn_block_count wn of
       Inl e \<Rightarrow> (Inl e, st)
     | Inr current_height \<Rightarrow> process_rows sha abi now wn ev cfg current_height (get_pending (rs_store st)) 0 st)"

definition relay_once ::
  "hash_fun \<Rightarrow> (spv_proof \<Rightarrow> app_error + bytes) \<Rightarrow> int \<Rightarrow> watch_node \<Rightarrow> evm_client \<Rightarrow> relayer_config \<Rightarrow> relayer_state
    \<Rightarrow> (app_error + nat) \<times> relayer_state" where
  "relay_once sha abi now wn ev cfg st =
    and_then (scan_new_blocks sha now wn cfg st) (\<lambda>_ st1. process_pending sha abi now wn ev cfg st1)"

text \<open>\<open>SPVRelayer.__init__\<close> on an existing store, and one round of \<open>run\<close>, which swallows every exception.\<close>

definition new_relayer :: "payout_store \<Rightarrow> payout_key list \<Rightarrow> relayer_state" where
  "new_relayer store accepted = \<lparr>rs_store = store, rs_last_scanned = None, rs_watcher_height = None, rs_accepted = accepted\<rparr>"

definition run_round ::
  "hash_fun \<Rightarrow> (spv_proof \<Rightarrow> app_error + bytes) \<Rightarrow> int \<Rightarrow> watch_node \<Rightarrow> evm_client \<Rightarrow> relayer_config \<Rightarrow> relayer_state \<Rightarrow> relayer_state" where
  "run_round sha abi now wn ev cfg st = snd (relay_once sha abi now wn ev cfg st)"

section \<open>The life of a payout\<close>

text \<open>
  The steps of the relayer: a round with whatever the node and the EVM client answer, a restart on the same
  store, and the removal of a pending payout. The transaction hash of a receipt has 32 bytes, so its
  hexadecimal form has at most 66 characters.
\<close>

inductive relayer_step ::
  "hash_fun \<Rightarrow> (spv_proof \<Rightarrow> app_error + bytes) \<Rightarrow> relayer_config \<Rightarrow> relayer_state \<Rightarrow> relayer_state \<Rightarrow> bool"
  for sha abi cfg where
  round: "\<forall>b h. ev_submit_payout ev b = Inr h \<longrightarrow> length h \<le> 66 \<Longrightarrow> relayer_step sha abi cfg st (run_round sha abi now wn ev cfg st)"
| restart: "relayer_step sha abi cfg st (new_relayer (rs_store st) (rs_accepted st))"
| forget: "relayer_step sha abi cfg st (st\<lparr>rs_store := remove_pending txid oi (rs_store st)\<rparr>)"

text \<open>What the relayer promises: a payout is seen, and at most once submitted; a submitted one is never waiting again.\<close>

type_synonym payout_life = "payout_key set \<times> payout_key list"

inductive life_step :: "payout_life \<Rightarrow> payout_life \<Rightarrow> bool" where
  see: "k \<notin> set accepted \<Longrightarrow> life_step (waiting, accepted) (insert k waiting, accepted)"
| accept: "k \<in> waiting \<Longrightarrow> life_step (waiting, accepted) (waiting - {k}, accepted @ [k])"
| drop: "life_step (waiting, accepted) (waiting - {k}, accepted)"

definition life_of :: "payout_store \<Rightarrow> payout_key list \<Rightarrow> payout_life" where
  "life_of store accepted = (pending_key ` set (ps_pending store), accepted)"

definition payouts_ok :: "payout_store \<Rightarrow> payout_key list \<Rightarrow> bool" where
  "payouts_ok store accepted \<longleftrightarrow> unique_on pending_key (ps_pending store) \<and> unique_on submitted_key (ps_submitted store) \<and>
     accepted = map submitted_key (ps_submitted store) \<and>
     (\<forall>p \<in> set (ps_pending store). pending_key p \<notin> set accepted \<and> pending_fits (ps_postgres store) p)"

text \<open>A change of the store and the list of accepted payouts that keeps the invariant and the promise.\<close>

definition lives :: "payout_store \<Rightarrow> payout_key list \<Rightarrow> payout_store \<Rightarrow> payout_key list \<Rightarrow> bool" where
  "lives store acc store' acc' \<longleftrightarrow> (payouts_ok store acc \<longrightarrow> payouts_ok store' acc' \<and> life_step\<^sup>*\<^sup>* (life_of store acc) (life_of store' acc'))"

lemma lives_refl [simp]: "lives store acc store acc"
  by (simp add: lives_def)

lemma lives_trans: "lives s a s' a' \<Longrightarrow> lives s' a' s'' a'' \<Longrightarrow> lives s a s'' a''"
  unfolding lives_def by (meson rtranclp_trans)

lemma snd_and_then: "snd (and_then r k) = (case fst r of Inl e \<Rightarrow> snd r | Inr x \<Rightarrow> snd (k x (snd r)))"
  by (cases r; cases "fst r") auto

lemma add_pending_lives:
  assumes "\<not> is_submitted (pp_txid p) (pp_output_index p) st"
  shows "lives st acc (snd (add_pending p st)) acc"
proof (cases "pending_fits (ps_postgres st) p \<and> \<not> has_key pending_key (ps_pending st) (pending_key p)")
  case True
  have k: "pending_key p \<notin> submitted_key ` set (ps_submitted st)"
    using assms by (force simp: is_submitted_def has_key_def pending_key_def)
  have "life_step\<^sup>*\<^sup>* (life_of st acc) (insert (pending_key p) (fst (life_of st acc)), acc)" if "payouts_ok st acc"
    using that k unfolding life_of_def fst_conv by (intro r_into_rtranclp see) (auto simp: payouts_ok_def)
  with True k show ?thesis
    by (auto simp: lives_def add_pending_def insert_or_ignore_def payouts_ok_def unique_on_append life_of_def)
next
  case False
  then show ?thesis by (auto simp: add_pending_def insert_or_ignore_def)
qed

lemma scan_output_lives: "lives st acc (snd (scan_output now height bh table txid v st)) acc"
proof (cases "is_submitted txid (vo_n v) st")
  case False
  then have "lives st acc (snd (add_pending \<lparr>pp_txid = txid, pp_output_index = vo_n v, pp_borrower = b, pp_btc_address = a,
      pp_amount_sats = m, pp_block_height = height, pp_block_hash = bh, pp_first_seen = now\<rparr> st)) acc" for a b m
    by (intro add_pending_lives) simp
  then show ?thesis
    by (auto simp: scan_output_def and_then_def Let_def split: option.splits sum.splits prod.splits) (metis snd_conv)+
qed (simp add: scan_output_def)

lemma scan_outputs_lives: "lives st acc (snd (scan_outputs now height bh table outs st)) acc"
proof (induction outs arbitrary: st)
  case Nil
  then show ?case by simp
next
  case (Cons o' outs)
  obtain txid v where o': "o' = (txid, v)" by fastforce
  obtain r st1 where s: "scan_output now height bh table txid v st = (r, st1)" by fastforce
  have "lives st acc st1 acc" using scan_output_lives [of st acc now height bh table txid v] s by simp
  with Cons [of st1] s show ?case unfolding o'
    by (cases r) (auto simp: snd_and_then split: sum.split intro: lives_trans)
qed

lemma scan_block_lives: "lives st acc (snd (scan_block sha now wn addresses height st)) acc"
  by (auto simp: scan_block_def scan_outputs_lives split: sum.splits)

text \<open>Recording an accepted submission: the row of the payout moves from pending to submitted.\<close>

lemma mark_submitted_lives:
  assumes "payouts_ok store acc" and "p \<in> set (ps_pending store)" and "length h \<le> 66"
    and "mark_submitted now (pp_txid p) (pp_output_index p) h store = (r, store')"
  shows "payouts_ok store' (acc @ [pending_key p]) \<and> life_step\<^sup>*\<^sup>* (life_of store acc) (life_of store' (acc @ [pending_key p])) \<and>
    ps_pending store' = filter (\<lambda>q. pending_key q \<noteq> pending_key p) (ps_pending store)"
proof -
  have key: "(pp_txid p, pp_output_index p) = pending_key p" by (simp add: pending_key_def)
  have f: "List.find (\<lambda>q. pending_key q = pending_key p) (ps_pending store) = Some p"
    using find_unique [of pending_key "ps_pending store" p] assms(1,2) by (simp add: payouts_ok_def)
  have new: "pending_key p \<notin> submitted_key ` set (ps_submitted store)" and fits: "pending_fits (ps_postgres store) p"
    using assms(1,2) by (auto simp: payouts_ok_def)
  define sub where "sub = \<lparr>sb_txid = pp_txid p, sb_output_index = pp_output_index p, sb_borrower = pp_borrower p,
    sb_amount_sats = pp_amount_sats p, sb_block_height = pp_block_height p, sb_submitted_at = now, sb_evm_tx_hash = h\<rparr>"
  have sub: "submitted_fits (ps_postgres store) sub" "submitted_key sub = pending_key p"
    using fits assms(3) by (auto simp: sub_def submitted_fits_def pending_fits_def str_fits_def submitted_key_def pending_key_def)
  have "\<not> is_submitted (pp_txid p) (pp_output_index p) store" 
    using new unfolding is_submitted_def has_key_def key by (metis rev_image_eqI)
  then have store': "store' = remove_pending (pp_txid p) (pp_output_index p) (store\<lparr>ps_submitted := ps_submitted store @ [sub]\<rparr>)"
    using assms(4) f sub(1) unfolding mark_submitted_def key sub_def by (simp add: Let_def)
  have pend: "ps_pending store' = filter (\<lambda>q. pending_key q \<noteq> pending_key p) (ps_pending store)"
    unfolding store' remove_pending_def key by simp
  have ok: "payouts_ok store' (acc @ [pending_key p])"
    using assms(1) new sub(2) unfolding payouts_ok_def pend
    by (auto simp: store' remove_pending_def unique_on_append has_key_def unique_on_def distinct_map inj_on_def)
  have "pending_key ` set (ps_pending store') = pending_key ` set (ps_pending store) - {pending_key p}"
    unfolding pend by auto
  then have "life_step (life_of store acc) (life_of store' (acc @ [pending_key p]))"
    using assms(2) accept [of "pending_key p" "pending_key ` set (ps_pending store)" acc] by (simp add: life_of_def)
  with ok pend show ?thesis by blast
qed

lemma forget_lives: "lives st acc (remove_pending txid oi st) acc"
proof -
  have "pending_key ` set (filter (\<lambda>p. pending_key p \<noteq> (txid, oi)) (ps_pending st)) = pending_key ` set (ps_pending st) - {(txid, oi)}"
    by auto
  then show ?thesis
    using drop [of "pending_key ` set (ps_pending st)" acc "(txid, oi)"]
    by (auto simp: lives_def payouts_ok_def remove_pending_def life_of_def unique_on_def distinct_map inj_on_def)
qed

text \<open>The same for states of the relayer.\<close>

abbreviation state_lives :: "relayer_state \<Rightarrow> relayer_state \<Rightarrow> bool" where
  "state_lives st st' \<equiv> lives (rs_store st) (rs_accepted st) (rs_store st') (rs_accepted st')"

lemma scan_range_lives: "state_lives st (snd (scan_range sha now wn cfg hs st))"
proof (induction hs arbitrary: st)
  case Nil
  then show ?case by simp
next
  case (Cons h hs)
  obtain r store where s: "scan_block sha now wn (enabled_addresses (rc_watched_addresses cfg)) h (rs_store st) = (r, store)" by fastforce
  have l: "lives (rs_store st) (rs_accepted st) store (rs_accepted st)"
    using scan_block_lives [of "rs_store st" "rs_accepted st" sha now wn "enabled_addresses (rc_watched_addresses cfg)" h] s by simp
  show ?case
  proof (cases r)
    case (Inl e)
    with l s show ?thesis by simp
  next
    case (Inr ps)
    with s lives_trans [OF l, of "rs_store (snd (scan_range sha now wn cfg hs (st\<lparr>rs_store := store, rs_watcher_height := Some h\<rparr>)))"]
      Cons [of "st\<lparr>rs_store := store, rs_watcher_height := Some h\<rparr>"]
    show ?thesis by (auto simp: snd_and_then split: sum.split)
  qed
qed

lemma scan_new_blocks_lives: "state_lives st (snd (scan_new_blocks sha now wn cfg st))"
  using scan_range_lives [of "st\<lparr>rs_last_scanned := l\<rparr>" sha now wn cfg for l]
  by (auto simp: scan_new_blocks_def Let_def snd_and_then split: sum.split)

lemma submit_one_lives:
  assumes "\<forall>b h. ev_submit_payout ev b = Inr h \<longrightarrow> length h \<le> 66" and "payouts_ok (rs_store st) (rs_accepted st)"
    and "p \<in> set (ps_pending (rs_store st))" and "submit_one sha abi now wn ev p cp st = (r, st')"
  shows "payouts_ok (rs_store st') (rs_accepted st') \<and>
    life_step\<^sup>*\<^sup>* (life_of (rs_store st) (rs_accepted st)) (life_of (rs_store st') (rs_accepted st')) \<and>
    (\<forall>q \<in> set (ps_pending (rs_store st)). pending_key q \<noteq> pending_key p \<longrightarrow> q \<in> set (ps_pending (rs_store st')))"
proof (cases "st' = st")
  case True
  with assms(2) show ?thesis by simp
next
  case False
  obtain h b store' where h: "ev_submit_payout ev b = Inr h" and m: "mark_submitted now (pp_txid p) (pp_output_index p) h (rs_store st) = (r, store')"
    and st': "st' = st\<lparr>rs_store := store', rs_accepted := rs_accepted st @ [pending_key p]\<rparr>"
    using assms(4) False unfolding submit_one_def
    by (auto simp: then_do_eq_Inr Let_def split: sum.splits prod.splits)
  show ?thesis using mark_submitted_lives [OF assms(2,3) _ m] assms(1) h by (auto simp: st')
qed

lemma process_rows_lives:
  assumes "\<forall>b h. ev_submit_payout ev b = Inr h \<longrightarrow> length h \<le> 66"
  shows "payouts_ok (rs_store st) (rs_accepted st) \<Longrightarrow> set rows \<subseteq> set (ps_pending (rs_store st)) \<Longrightarrow> unique_on pending_key rows \<Longrightarrow>
    state_lives st (snd (process_rows sha abi now wn ev cfg height rows n st))"
proof (induction rows arbitrary: n st)
  case Nil
  then show ?case by simp
next
  case (Cons p rows)
  have rest: "state_lives st (snd (process_rows sha abi now wn ev cfg height rows n st))" for n
    using Cons by (intro Cons.IH) (auto simp: unique_on_def)
  show ?case
  proof (cases "\<exists>cp. \<not> height - pp_block_height p + 1 < rc_required_confirmations cfg \<and>
      select_checkpoint cfg (ev_latest_checkpoint ev) (pp_block_height p) = Inr (Some cp)")
    case True
    then obtain cp where c: "\<not> height - pp_block_height p + 1 < rc_required_confirmations cfg"
      "select_checkpoint cfg (ev_latest_checkpoint ev) (pp_block_height p) = Inr (Some cp)" by blast
    obtain r st' where s: "submit_one sha abi now wn ev p cp st = (r, st')" by fastforce
    have p: "p \<in> set (ps_pending (rs_store st))" using Cons.prems(2) by simp
    note sub = submit_one_lives [OF assms Cons.prems(1) p s]
    have one: "state_lives st st'" using sub by (simp add: lives_def)
    have "q \<in> set (ps_pending (rs_store st'))" if "q \<in> set rows" for q
    proof -
      have "pending_key q \<noteq> pending_key p" using Cons.prems(3) that by (auto simp: unique_on_def image_iff)
      then show ?thesis using sub Cons.prems(2) that by auto
    qed
    then have more: "state_lives st' (snd (process_rows sha abi now wn ev cfg height rows n st'))" for n
      using Cons.prems sub by (intro Cons.IH) (auto simp: unique_on_def)
    have "state_lives st (snd (process_rows sha abi now wn ev cfg height rows n st'))" for n
      using one more by (rule lives_trans)
    with c s show ?thesis by (cases r) simp_all
  next
    case False
    with rest show ?thesis by (auto split: sum.split option.split)
  qed
qed

lemma run_round_lives:
  assumes "\<forall>b h. ev_submit_payout ev b = Inr h \<longrightarrow> length h \<le> 66"
  shows "state_lives st (run_round sha abi now wn ev cfg st)"
proof -
  obtain r st1 where s: "scan_new_blocks sha now wn cfg st = (r, st1)" by fastforce
  have l: "state_lives st st1" using scan_new_blocks_lives [of st sha now wn cfg] s by simp
  have "payouts_ok (rs_store st1) (rs_accepted st1) \<Longrightarrow>
      state_lives st1 (snd (process_rows sha abi now wn ev cfg height (ps_pending (rs_store st1)) n st1))" for height n
    by (rule process_rows_lives [OF assms]) (auto simp: payouts_ok_def)
  then have "state_lives st1 (snd (process_rows sha abi now wn ev cfg height (ps_pending (rs_store st1)) n st1))" for height n
    unfolding lives_def by blast
  then have "state_lives st1 (snd (process_pending sha abi now wn ev cfg st1))"
    by (simp add: process_pending_def get_pending_def split: sum.split)
  with l s show ?thesis by (auto simp: run_round_def relay_once_def snd_and_then split: sum.split intro: lives_trans)
qed

lemma relayer_step_lives: "relayer_step sha abi cfg st st' \<Longrightarrow> state_lives st st'"
  by (induction rule: relayer_step.induct) (auto simp: run_round_lives new_relayer_def forget_lives)

definition relayer_start :: "relayer_state \<Rightarrow> bool" where
  "relayer_start st \<longleftrightarrow> ps_pending (rs_store st) = [] \<and> ps_submitted (rs_store st) = [] \<and> rs_accepted st = []"

interpretation relayer: refined_machine relayer_start "relayer_step sha abi cfg" "\<lambda>st. payouts_ok (rs_store st) (rs_accepted st)"
  life_step "\<lambda>st. life_of (rs_store st) (rs_accepted st)"
  for sha abi cfg
proof unfold_locales
  show "payouts_ok (rs_store st) (rs_accepted st)" if "relayer_start st" for st
    using that by (simp add: relayer_start_def payouts_ok_def unique_on_def)
  show "payouts_ok (rs_store t) (rs_accepted t)" if "relayer_step sha abi cfg s t" "payouts_ok (rs_store s) (rs_accepted s)" for s t
    using relayer_step_lives [OF that(1)] that(2) by (simp add: lives_def)
  show "life_step\<^sup>*\<^sup>* (life_of (rs_store s) (rs_accepted s)) (life_of (rs_store t) (rs_accepted t))"
    if "relayer_step sha abi cfg s t" "payouts_ok (rs_store s) (rs_accepted s)" for s t
    using relayer_step_lives [OF that(1)] that(2) by (simp add: lives_def)
qed


text \<open>One round on a node at height 106, whose block 101 pays the watched address.\<close>

definition sample_script :: bytes where
  "sample_script = [0, 20, 117, 30, 118, 232, 25, 145, 150, 212, 84, 148, 28, 69, 209, 179, 163, 35, 241, 67, 59, 214]"

definition payout_raw :: bytes where
  "payout_raw = ser_tx False [1, 0, 0, 0] [\<lparr>ti_outpoint = replicate 36 7, ti_script = [], ti_sequence = [0, 0, 0, 0]\<rparr>]
     [\<lparr>to_value = 50, to_script = sample_script\<rparr>] [0, 0, 0, 0]"

definition sample_watch :: watch_node where
  "sample_watch = \<lparr>wn_node = \<lparr>bn_block_hash = \<lambda>_. Inr ''b'', bn_header_hex = \<lambda>_. Inr (''01'' @ replicate 158 CHR ''0''),
       bn_block_txids = \<lambda>_. Inr [replicate 64 CHR ''0''], bn_raw_transaction = \<lambda>_. Inr (hex_of_bytes payout_raw)\<rparr>,
     wn_block_count = Inr 106,
     wn_block = \<lambda>_. Inr [\<lparr>tj_txid = replicate 64 CHR ''0'',
       tj_vout = [\<lparr>vo_n = 0, vo_script_hex = Some (hex_of_bytes sample_script), vo_value = VNum ''5e-07''\<rparr>]\<rparr>]\<rparr>"

definition sample_evm :: evm_client where
  "sample_evm = \<lparr>ev_latest_checkpoint = Inr 100, ev_submit_payout = \<lambda>_. Inr ''ab''\<rparr>"

definition sample_relayer_config :: relayer_config where
  "sample_relayer_config = \<lparr>rc_required_confirmations = 6, rc_max_header_chain = 144, rc_scan_batch_size = 1,
     rc_watched_addresses = [\<lparr>wa_btc_address = ''bc1qw508d6qejxtdg4y5r3zarvary0c5xw7kv8f3t4'', wa_borrower = ''0xb'', wa_enabled = True\<rparr>]\<rparr>"

definition sample_start :: relayer_state where
  "sample_start = (new_relayer (open_store ''relayer.db'' [] []) [])\<lparr>rs_last_scanned := Some 100\<rparr>"

lemma sample_round:
  "rs_accepted (run_round constant_hash (\<lambda>_. Inr []) 7 sample_watch sample_evm sample_relayer_config sample_start) = [(replicate 64 CHR ''0'', 0)]"
  by code_simp


section \<open>A block that cannot be scanned\<close>

text \<open>
  An error while the next block is scanned ends the round before any pending payout is processed and leaves
  the next block to scan where it was. A PostgreSQL store gives such an error for every payout of
  2,147,483,648 satoshis or more.
\<close>

lemma failing_block_stops_relayer:
  assumes "rs_last_scanned st = Some l" and "wn_block_count wn = Inr current" and "l < current" and "1 \<le> rc_scan_batch_size cfg"
    and "scan_block sha now wn (enabled_addresses (rc_watched_addresses cfg)) (l + 1) (rs_store st) = (Inl e, store)"
  shows "relay_once sha abi now wn ev cfg st = (Inl e, st\<lparr>rs_store := store\<rparr>)"
proof -
  have "[l + 1..min (l + 1 + rc_scan_batch_size cfg - 1) current] = (l + 1) # [l + 1 + 1..min (l + 1 + rc_scan_batch_size cfg - 1) current]"
    using assms(3,4) by (subst upto.simps) simp
  then have "scan_new_blocks sha now wn cfg st = (Inl e, st\<lparr>rs_store := store\<rparr>)"
    using assms by (simp add: scan_new_blocks_def Let_def)
  then show ?thesis by (simp add: relay_once_def)
qed

lemma oversized_payout_rejected:
  "ps_postgres st \<Longrightarrow> 2 ^ 31 \<le> pp_amount_sats p \<Longrightarrow> add_pending p st = (Inl (OtherError ''DataError''), st)"
  by (simp add: add_pending_def pending_fits_def int_fits_def)

section \<open>The header chain\<close>

lemma build_proof_header_count:
  assumes "build_proof sha node txid oi cp target borrower None = Inr res"
  shows "int (length (sp_headers (br_proof res))) = target - cp + 5"
proof -
  obtain raw outp pk sty hs ti mp and h :: block_header where
    "load_inclusion sha node txid cp target (target + MIN_CONFIRMATIONS - 1) = Inr (hs, ti, mp, h)" and
    res: "sp_headers (br_proof res) = hs" and "cp < target"
    using assms unfolding build_proof_def Let_def by (auto simp: then_do_eq_Inr)
  with load_inclusion_facts [of sha node txid cp target "target + MIN_CONFIRMATIONS - 1" hs ti mp h] show ?thesis
    by (simp add: MIN_CONFIRMATIONS_def)
qed

text \<open>The header chain of a submission can exceed the limit the relayer checks. When \<open>select_checkpoint\<close>
  accepts a checkpoint and the proof is built as \<open>_submit_payout\<close> builds it, the proof has five headers more
  than the checked distance: at least six, at most five above \<open>max_header_chain\<close>, and above
  \<open>max_header_chain\<close> exactly when the distance exceeds it less five.\<close>

theorem header_chain_exceeds_limit:
  assumes "select_checkpoint cfg latest target = Inr (Some cp)"
    and "build_proof sha node txid oi cp target borrower None = Inr res"
  shows "int (length (sp_headers (br_proof res))) = target - cp + 5 \<and> 6 \<le> length (sp_headers (br_proof res)) \<and>
    int (length (sp_headers (br_proof res))) \<le> rc_max_header_chain cfg + 5 \<and>
    (rc_max_header_chain cfg < int (length (sp_headers (br_proof res))) \<longleftrightarrow> rc_max_header_chain cfg - 5 < target - cp)"
proof -
  have "0 < target - cp" "target - cp \<le> rc_max_header_chain cfg"
    using assms(1) by (auto simp: select_checkpoint_def then_do_eq_Inr Let_def split: if_splits)
  with build_proof_header_count [OF assms(2)] show ?thesis by linarith
qed

theorem header_chain_exceeds_limit_witness:
  "select_checkpoint (sample_relayer_config\<lparr>rc_max_header_chain := 3\<rparr>) (Inr 100) 101 = Inr (Some 100) \<and>
   3 < int (length (sp_headers (br_proof (projr sample_build))))"
proof -
  have s: "select_checkpoint (sample_relayer_config\<lparr>rc_max_header_chain := 3\<rparr>) (Inr 100) 101 = Inr (Some 100)"
    by (simp add: select_checkpoint_def)
  from header_chain_exceeds_limit [OF s sample_build_Inr [unfolded sample_build_def]] s show ?thesis
    by (simp add: sample_build_def)
qed

end
