(* ===== verification/Reconcile_Reference.thy ===== *)
theory Reconcile_Reference
  imports Core_DB "HOL-Library.Product_Lexorder"
begin

text \<open>
  The reference reconciler (\<open>hashcredit_gpu/reconciliation/reference.py\<close>): observations from several sources
  are merged into one economic event per id, and the events are applied in order to receivables,
  settlements, cash, allocations and facility debt. An amount that is missing is \<open>None\<close>, and arithmetic on
  it is a \<open>TypeError\<close> that ends the reconciliation.
\<close>

section \<open>Data\<close>

datatype obs_trust = CLAIMED | OBSERVED | ASSERTED | PROVEN

definition trust_rank :: "obs_trust \<Rightarrow> nat" where
  "trust_rank t = (case t of CLAIMED \<Rightarrow> 0 | OBSERVED \<Rightarrow> 1 | ASSERTED \<Rightarrow> 2 | PROVEN \<Rightarrow> 3)"

datatype obs_source = SRC_API | SRC_WEBHOOK | SRC_STATEMENT | SRC_CHAIN

datatype event_type = OBLIGATION | ASSIGNMENT | CORRECTION | PAYOUT | CANCELLATION | LEG | DESTINATION_RECEIPT | ALLOCATION
  | DECISION_USE | UnknownEvent string

text \<open>A locator with the three fields that are compared; an absent or empty dictionary is \<open>None\<close> in the observation.\<close>

record locator =
  lo_height :: "int option"
  lo_tx_index :: "int option"
  lo_log_ordinal :: "int option"

record observation =
  ob_id :: string
  ob_observed_at :: string
  ob_source :: obs_source
  ob_trust :: obs_trust
  ob_event :: string
  ob_type :: event_type
  ob_account :: string
  ob_asset :: string
  ob_amount :: "int option"
  ob_delta :: "int option"
  ob_revision :: "int option"
  ob_obligation_ref :: "string option"
  ob_facility :: "string option"
  ob_target :: "string option"
  ob_settlement :: "string option"
  ob_source_event :: "string option"
  ob_consumed :: bool
  ob_proven :: "locator option"
  ob_claimed :: "locator option"
  ob_emitter_registered :: "bool option"
  ob_anchor :: bool
  ob_payer :: "string option"
  ob_payer_is_borrower :: bool
  ob_provenance :: "string option"

record economic_event =
  ee_id :: string
  ee_type :: event_type
  ee_account :: string
  ee_asset :: string
  ee_amount :: "int option"
  ee_delta :: "int option"
  ee_revision :: int
  ee_obligation_ref :: "string option"
  ee_facility :: "string option"
  ee_target :: "string option"
  ee_trust :: obs_trust
  ee_observed_via :: "string list"
  ee_settlement :: "string option"
  ee_source_event :: "string option"
  ee_payer :: "string option"
  ee_payer_is_borrower :: bool
  ee_provenance :: "string option"

datatype rec_state = RECOGNIZED | ASSIGNED | PARTIALLY_PAID | PAID

record ref_receivable =
  rr_id :: string
  rr_event :: string
  rr_account :: string
  rr_obligation_ref :: "string option"
  rr_asset :: string
  rr_net :: "int option"
  rr_paid :: int
  rr_revision :: int
  rr_state :: rec_state
  rr_facility :: "string option"
  rr_trust :: obs_trust
  rr_used_in_decision :: bool

record settlement =
  st_source_amount :: int
  st_allocations :: "(string, int) dict"
  st_legs :: "(int option \<times> int option \<times> string \<times> string option) list"
  st_destination_amount :: int

datatype cash_place = SOURCE_ESCROW | IN_FLIGHT | DESTINATION

record cash_line =
  ca_where :: cash_place
  ca_amount :: "int option"
  ca_settlement :: "string option"
  ca_provenance :: "string option"

record allocation =
  al_facility :: "string option"
  al_amount :: int
  al_applied :: int
  al_excess :: int
  al_settlement :: "string option"

record ref_facility =
  rf_account :: "string option"
  rf_loan_asset :: "string option"
  rf_debt :: int

text \<open>Exceptions are kept as their codes.\<close>

record ledger =
  lg_events :: "(string, economic_event) dict"
  lg_receivables :: "(string, ref_receivable) dict"
  lg_settlements :: "(string option, settlement) dict"
  lg_cash :: "cash_line list"
  lg_allocations :: "allocation list"
  lg_debt :: "(string option, int) dict"
  lg_exceptions :: "string list"
  lg_consumed :: "string list"
  lg_revoked :: "string list"

definition TypeError :: app_error where "TypeError = OtherError ''TypeError''"

text \<open>A value used in arithmetic: \<open>None\<close> raises.\<close>

definition need :: "'a option \<Rightarrow> app_error + 'a" where
  "need x = (case x of None \<Rightarrow> Inl TypeError | Some v \<Rightarrow> Inr v)"

lemma need_eq_Inr [simp]: "need x = Inr v \<longleftrightarrow> x = Some v"
  by (simp add: need_def split: option.split)

lemma need_simps [simp]: "need (Some v) = Inr v" "need None = Inl TypeError"
  by (simp_all add: need_def)

definition truthy :: "string option \<Rightarrow> bool" where
  "truthy s = (s \<noteq> None \<and> s \<noteq> Some [])"

definition obligation_key :: "string \<Rightarrow> string option \<Rightarrow> string" where
  "obligation_key account ref = account @ ''|'' @ (case ref of None \<Rightarrow> ''None'' | Some r \<Rightarrow> r)"

definition unpaid :: "ref_receivable \<Rightarrow> app_error + int" where
  "unpaid r = then_do (need (rr_net r)) (\<lambda>n. Inr (max 0 (n - rr_paid r)))"

definition flag :: "string \<Rightarrow> ledger \<Rightarrow> ledger" where
  "flag code L = L\<lparr>lg_exceptions := lg_exceptions L @ [code]\<rparr>"

section \<open>Merging observations\<close>

definition locator_tampered :: "observation \<Rightarrow> bool" where
  "locator_tampered o' = (case (ob_claimed o', ob_proven o') of
     (Some c, Some p) \<Rightarrow> lo_height c \<noteq> lo_height p \<or> lo_tx_index c \<noteq> lo_tx_index p \<or> lo_log_ordinal c \<noteq> lo_log_ordinal p
   | _ \<Rightarrow> False)"

text \<open>The checks of a native observation: \<open>(False, L)\<close> where the source says \<open>continue\<close>.\<close>

definition chain_checks :: "observation \<Rightarrow> ledger \<Rightarrow> bool \<times> ledger" where
  "chain_checks o' L =
    (if locator_tampered o' then (False, flag ''LOCATOR_TAMPERED'' L)
     else let consuming = truthy (ob_source_event o') \<and> ob_consumed o'; sev = the (ob_source_event o')
          in if consuming \<and> sev \<in> set (lg_consumed L) then (False, flag ''DUPLICATE_CONSUMPTION'' L)
             else let L1 = (if consuming then L\<lparr>lg_consumed := lg_consumed L @ [sev]\<rparr> else L)
                  in if ob_emitter_registered o' = Some False then (False, flag ''EMITTER_NOT_REGISTERED'' L1)
                     else if ob_anchor o' then (False, flag ''OWN_ANCHOR_INELIGIBLE'' L1)
                     else (True, L1))"

definition effective_trust :: "observation \<Rightarrow> obs_trust" where
  "effective_trust o' = (if ob_source o' = SRC_CHAIN \<and> \<not> ob_consumed o' then OBSERVED else ob_trust o')"

definition new_event :: "observation \<Rightarrow> economic_event" where
  "new_event o' = \<lparr>ee_id = ob_event o', ee_type = ob_type o', ee_account = ob_account o', ee_asset = ob_asset o', ee_amount = ob_amount o',
     ee_delta = ob_delta o', ee_revision = (case ob_revision o' of None \<Rightarrow> 1 | Some r \<Rightarrow> r), ee_obligation_ref = ob_obligation_ref o',
     ee_facility = ob_facility o', ee_target = ob_target o', ee_trust = effective_trust o', ee_observed_via = [ob_id o'],
     ee_settlement = ob_settlement o', ee_source_event = ob_source_event o', ee_payer = ob_payer o',
     ee_payer_is_borrower = ob_payer_is_borrower o', ee_provenance = ob_provenance o'\<rparr>"

definition add_sighting :: "observation \<Rightarrow> economic_event \<Rightarrow> economic_event" where
  "add_sighting o' ev =
    (let ev1 = ev\<lparr>ee_observed_via := ee_observed_via ev @ [ob_id o']\<rparr>
     in if trust_rank (ee_trust ev) < trust_rank (effective_trust o')
        then ev1\<lparr>ee_trust := effective_trust o', ee_source_event := (case ob_source_event o' of None \<Rightarrow> ee_source_event ev | s \<Rightarrow> s)\<rparr>
        else ev1)"

definition merge_observation :: "observation \<Rightarrow> ledger \<Rightarrow> ledger" where
  "merge_observation o' L =
    (let (pass, L1) = (if ob_source o' = SRC_CHAIN then chain_checks o' L else (True, L))
     in if \<not> pass then L1
        else case map_of (lg_events L1) (ob_event o') of
          None \<Rightarrow> L1\<lparr>lg_events := dict_set (ob_event o') (new_event o') (lg_events L1)\<rparr>
        | Some ev \<Rightarrow>
            if ee_amount ev \<noteq> None \<and> ob_amount o' \<noteq> None \<and> ee_amount ev \<noteq> ob_amount o' then flag ''AMOUNT_CONFLICT'' L1
            else L1\<lparr>lg_events := dict_set (ob_event o') (add_sighting o' ev) (lg_events L1)\<rparr>)"

definition observation_order :: "observation list \<Rightarrow> observation list" where
  "observation_order = sort_key (\<lambda>o'. (ob_observed_at o', ob_id o'))"

section \<open>Applying events\<close>

definition put_receivable :: "string \<Rightarrow> ref_receivable \<Rightarrow> ledger \<Rightarrow> ledger" where
  "put_receivable k r L = L\<lparr>lg_receivables := dict_set k r (lg_receivables L)\<rparr>"

definition apply_obligation :: "economic_event \<Rightarrow> ledger \<Rightarrow> ledger" where
  "apply_obligation e L =
    (let k = obligation_key (ee_account e) (ee_obligation_ref e)
     in case map_of (lg_receivables L) k of
       Some r \<Rightarrow>
         if ee_revision e \<le> rr_revision r then flag ''REVISION_OUT_OF_ORDER'' L
         else put_receivable k (r\<lparr>rr_net := ee_amount e, rr_revision := ee_revision e,
                rr_trust := (if trust_rank (rr_trust r) \<le> trust_rank (ee_trust e) then ee_trust e else rr_trust r)\<rparr>) L
     | None \<Rightarrow> put_receivable k \<lparr>rr_id = k, rr_event = ee_id e, rr_account = ee_account e, rr_obligation_ref = ee_obligation_ref e,
                 rr_asset = ee_asset e, rr_net = ee_amount e, rr_paid = 0, rr_revision = ee_revision e, rr_state = RECOGNIZED,
                 rr_facility = None, rr_trust = ee_trust e, rr_used_in_decision = False\<rparr> L)"

definition facility_of :: "(string, ref_facility) dict \<Rightarrow> string option \<Rightarrow> ref_facility option" where
  "facility_of facilities fid = (case fid of None \<Rightarrow> None | Some f \<Rightarrow> map_of facilities f)"

definition apply_assignment :: "(string, ref_facility) dict \<Rightarrow> economic_event \<Rightarrow> ledger \<Rightarrow> ledger" where
  "apply_assignment facilities e L =
    (if Option.bind (facility_of facilities (ee_facility e)) rf_account \<noteq> Some (ee_account e) then flag ''ACCOUNT_MISMATCH'' L
     else let k = obligation_key (ee_account e) (ee_obligation_ref e)
          in case map_of (lg_receivables L) k of
            None \<Rightarrow> flag ''ASSIGNMENT_WITHOUT_OBLIGATION'' L
          | Some r \<Rightarrow>
              if rr_state r = PAID then flag ''PAID_REPLEDGE'' L
              else put_receivable k (r\<lparr>rr_facility := ee_facility e, rr_state := (if rr_paid r = 0 then ASSIGNED else PARTIALLY_PAID)\<rparr>) L)"

definition revoke :: "ref_receivable \<Rightarrow> ledger \<Rightarrow> ledger" where
  "revoke r L = L\<lparr>lg_revoked := List.insert (if truthy (rr_facility r) then the (rr_facility r) else ''?'') (lg_revoked L)\<rparr>"

definition apply_correction :: "economic_event \<Rightarrow> ledger \<Rightarrow> app_error + ledger" where
  "apply_correction e L =
    (case Option.bind (ee_target e) (map_of (lg_events L)) of
       None \<Rightarrow> Inr (flag ''CORRECTION_TARGET_MISSING'' L)
     | Some target \<Rightarrow>
         (let k = obligation_key (ee_account e) (ee_obligation_ref target)
          in case map_of (lg_receivables L) k of
            None \<Rightarrow> Inr (flag ''CORRECTION_TARGET_MISSING'' L)
          | Some r \<Rightarrow>
              if ee_revision e \<noteq> rr_revision r + 1 then Inr (flag ''REVISION_OUT_OF_ORDER'' L)
              else then_do (need (rr_net r)) (\<lambda>net. then_do (need (ee_delta e)) (\<lambda>delta.
                (let net' = net + delta; r1 = r\<lparr>rr_net := Some net', rr_revision := ee_revision e\<rparr>;
                     L1 = (if rr_used_in_decision r \<and> (max 0 (net' - rr_paid r) < 0 \<or> delta < 0) then revoke r L else L)
                 in Inr (put_receivable k (if net' \<le> rr_paid r then r1\<lparr>rr_state := PAID\<rparr> else r1) L1))))))"

definition empty_settlement :: settlement where
  "empty_settlement = \<lparr>st_source_amount = 0, st_allocations = [], st_legs = [], st_destination_amount = 0\<rparr>"

definition settlement_of :: "ledger \<Rightarrow> string option \<Rightarrow> settlement" where
  "settlement_of L sid = (case map_of (lg_settlements L) sid of None \<Rightarrow> empty_settlement | Some s \<Rightarrow> s)"

definition put_settlement :: "string option \<Rightarrow> settlement \<Rightarrow> ledger \<Rightarrow> ledger" where
  "put_settlement sid s L = L\<lparr>lg_settlements := dict_set sid s (lg_settlements L)\<rparr>"

definition add_cash :: "cash_place \<Rightarrow> int option \<Rightarrow> string option \<Rightarrow> string option \<Rightarrow> ledger \<Rightarrow> ledger" where
  "add_cash w a sid prov L = L\<lparr>lg_cash := lg_cash L @ [\<lparr>ca_where = w, ca_amount = a, ca_settlement = sid, ca_provenance = prov\<rparr>]\<rparr>"

definition payout_provenance :: "economic_event \<Rightarrow> bool \<Rightarrow> string" where
  "payout_provenance e attributed =
    (if truthy (ee_payer e) \<and> ee_payer_is_borrower e then ''SELF_TRANSFER''
     else if truthy (ee_provenance e) then the (ee_provenance e)
     else if attributed then ''PROVIDER_SETTLEMENT'' else ''UNCLASSIFIED'')"

definition pay_receivable :: "int \<Rightarrow> ref_receivable \<Rightarrow> app_error + ref_receivable" where
  "pay_receivable amount r =
    then_do (need (rr_net r)) (\<lambda>net. let paid = rr_paid r + amount in
      Inr (r\<lparr>rr_paid := paid, rr_state := (if net \<le> paid then PAID else if truthy (rr_facility r) then PARTIALLY_PAID else RECOGNIZED)\<rparr>))"

definition apply_payout :: "economic_event \<Rightarrow> ledger \<Rightarrow> app_error + ledger" where
  "apply_payout e L =
    (let k = obligation_key (ee_account e) (ee_obligation_ref e);
         found = (if truthy (ee_obligation_ref e) then map_of (lg_receivables L) k else None);
         mismatch = (case found of None \<Rightarrow> False | Some r \<Rightarrow> rr_asset r \<noteq> ee_asset e);
         L1 = (if mismatch then flag ''TOKEN_MISMATCH'' L else L);
         provenance = payout_provenance e (found \<noteq> None);
         L2 = add_cash SOURCE_ESCROW (ee_amount e) (ee_settlement e) (Some provenance) L1
     in then_do (case found of
            Some r \<Rightarrow> if \<not> mismatch \<and> provenance = ''PROVIDER_SETTLEMENT''
                       then then_do (need (ee_amount e)) (\<lambda>a. then_do (pay_receivable a r) (\<lambda>r'. Inr (put_receivable k r' L2)))
                       else Inr L2
          | None \<Rightarrow> Inr L2) (\<lambda>L3.
        if truthy (ee_settlement e) then
          then_do (need (ee_amount e)) (\<lambda>a.
            let s = settlement_of L3 (ee_settlement e);
                s1 = s\<lparr>st_source_amount := st_source_amount s + a\<rparr>;
                s2 = (case found of None \<Rightarrow> s1
                  | Some r \<Rightarrow> s1\<lparr>st_allocations := dict_set (rr_id r) (dict_get0 (st_allocations s1) (rr_id r) + a) (st_allocations s1)\<rparr>)
            in Inr (put_settlement (ee_settlement e) s2 L3))
        else Inr L3))"

definition apply_cancellation :: "economic_event \<Rightarrow> ledger \<Rightarrow> app_error + ledger" where
  "apply_cancellation e L =
    (let k = obligation_key (ee_account e) (ee_obligation_ref e)
     in case map_of (lg_receivables L) k of
       None \<Rightarrow> Inr (flag ''CANCEL_EXCEEDS_PAID'' L)
     | Some r \<Rightarrow> then_do (need (ee_amount e)) (\<lambda>a.
         if rr_paid r < a then Inr (flag ''CANCEL_EXCEEDS_PAID'' L)
         else let paid = rr_paid r - a;
                  r1 = r\<lparr>rr_paid := paid, rr_state := (if paid \<noteq> 0 then PARTIALLY_PAID else if truthy (rr_facility r) then ASSIGNED else RECOGNIZED)\<rparr>;
                  L1 = add_cash SOURCE_ESCROW (Some (- a)) (ee_settlement e) (Some ''REFUND_OR_REVERSAL'') (put_receivable k r1 L)
              in Inr (if rr_used_in_decision r then revoke r L1 else L1)))"

text \<open>
  An event carries no \<open>toAmount\<close> and no \<open>toAsset\<close>: merging does not copy them from the observation. So the
  leg is stored without a target amount and the cash in flight is the source amount.
\<close>

definition apply_leg :: "economic_event \<Rightarrow> ledger \<Rightarrow> app_error + ledger" where
  "apply_leg e L =
    (let s = settlement_of L (ee_settlement e);
         L1 = put_settlement (ee_settlement e) (s\<lparr>st_legs := st_legs s @ [(ee_amount e, None, ee_asset e, None)]\<rparr>) L
     in then_do (need (ee_amount e)) (\<lambda>a.
          Inr (add_cash IN_FLIGHT (Some a) (ee_settlement e) None (add_cash SOURCE_ESCROW (Some (- a)) (ee_settlement e) None L1))))"

definition apply_receipt :: "economic_event \<Rightarrow> ledger \<Rightarrow> app_error + ledger" where
  "apply_receipt e L =
    then_do (need (ee_amount e)) (\<lambda>a.
      let s = settlement_of L (ee_settlement e);
          L1 = put_settlement (ee_settlement e) (s\<lparr>st_destination_amount := st_destination_amount s + a\<rparr>) L
      in Inr (add_cash DESTINATION (Some a) (ee_settlement e) None (add_cash IN_FLIGHT (Some (- a)) (ee_settlement e) None L1)))"

definition received :: "ledger \<Rightarrow> string option \<Rightarrow> app_error + int" where
  "received L sid = sum_results (map (need \<circ> ca_amount) (filter (\<lambda>c. ca_where c = DESTINATION \<and> ca_settlement c = sid) (lg_cash L)))"

definition allocated :: "ledger \<Rightarrow> string option \<Rightarrow> int" where
  "allocated L sid = sum_list (map al_amount (filter (\<lambda>a. al_settlement a = sid) (lg_allocations L)))"

definition apply_allocation :: "(string, ref_facility) dict \<Rightarrow> economic_event \<Rightarrow> ledger \<Rightarrow> app_error + ledger" where
  "apply_allocation facilities e L =
    (if Option.bind (facility_of facilities (ee_facility e)) rf_loan_asset \<noteq> Some (ee_asset e) then Inr (flag ''LOAN_ASSET_MISMATCH'' L)
     else then_do (received L (ee_settlement e)) (\<lambda>rcv. then_do (need (ee_amount e)) (\<lambda>a.
       if rcv < allocated L (ee_settlement e) + a then Inr (flag ''ALLOCATION_EXCEEDS_RECEIPT'' L)
       else let applied = min a (dict_get0 (lg_debt L) (ee_facility e))
            in Inr (L\<lparr>lg_debt := dict_set (ee_facility e) (dict_get0 (lg_debt L) (ee_facility e) - applied) (lg_debt L),
                      lg_allocations := lg_allocations L @ [\<lparr>al_facility = ee_facility e, al_amount = a, al_applied = applied,
                        al_excess = a - applied, al_settlement = ee_settlement e\<rparr>]\<rparr>))))"

definition apply_decision_use :: "economic_event \<Rightarrow> ledger \<Rightarrow> ledger" where
  "apply_decision_use e L =
    (let k = obligation_key (ee_account e) (ee_obligation_ref e)
     in case map_of (lg_receivables L) k of None \<Rightarrow> L | Some r \<Rightarrow> put_receivable k (r\<lparr>rr_used_in_decision := True\<rparr>) L)"

definition apply_event :: "(string, ref_facility) dict \<Rightarrow> economic_event \<Rightarrow> ledger \<Rightarrow> app_error + ledger" where
  "apply_event facilities e L = (case ee_type e of
      OBLIGATION \<Rightarrow> Inr (apply_obligation e L)
    | ASSIGNMENT \<Rightarrow> Inr (apply_assignment facilities e L)
    | CORRECTION \<Rightarrow> apply_correction e L
    | PAYOUT \<Rightarrow> apply_payout e L
    | CANCELLATION \<Rightarrow> apply_cancellation e L
    | LEG \<Rightarrow> apply_leg e L
    | DESTINATION_RECEIPT \<Rightarrow> apply_receipt e L
    | ALLOCATION \<Rightarrow> apply_allocation facilities e L
    | DECISION_USE \<Rightarrow> Inr (apply_decision_use e L)
    | UnknownEvent _ \<Rightarrow> Inr (flag ''UNKNOWN_EVENT_TYPE'' L))"

fun apply_events :: "(string, ref_facility) dict \<Rightarrow> economic_event list \<Rightarrow> ledger \<Rightarrow> app_error + ledger" where
  "apply_events facilities [] L = Inr L"
| "apply_events facilities (e # es) L = then_do (apply_event facilities e L) (apply_events facilities es)"

definition empty_ledger :: "(string, ref_facility) dict \<Rightarrow> ledger" where
  "empty_ledger facilities = \<lparr>lg_events = [], lg_receivables = [], lg_settlements = [], lg_cash = [], lg_allocations = [],
     lg_debt = foldl (\<lambda>d (fid, f). dict_set (Some fid) (rf_debt f) d) [] facilities, lg_exceptions = [], lg_consumed = [], lg_revoked = []\<rparr>"

definition merge_all :: "observation list \<Rightarrow> (string, ref_facility) dict \<Rightarrow> ledger" where
  "merge_all obs facilities = foldl (\<lambda>L o'. merge_observation o' L) (empty_ledger facilities) (observation_order obs)"

definition reconcile_ledger :: "observation list \<Rightarrow> (string, ref_facility) dict \<Rightarrow> app_error + ledger" where
  "reconcile_ledger obs facilities =
    (let L = merge_all obs facilities in apply_events facilities (map snd (lg_events L)) L)"

section \<open>Summary\<close>

definition cash_at :: "cash_place \<Rightarrow> ledger \<Rightarrow> app_error + int" where
  "cash_at w L = sum_results (map (need \<circ> ca_amount) (filter (\<lambda>c. ca_where c = w) (lg_cash L)))"

definition unclassified_cash :: "ledger \<Rightarrow> app_error + int" where
  "unclassified_cash L = sum_results (map (need \<circ> ca_amount) (filter (\<lambda>c. ca_provenance c = Some ''UNCLASSIFIED'') (lg_cash L)))"

definition eligible_unpaid :: "ledger \<Rightarrow> app_error + int" where
  "eligible_unpaid L = sum_results (map unpaid (filter (\<lambda>r. rr_state r \<in> {RECOGNIZED, ASSIGNED, PARTIALLY_PAID} \<and> rr_trust r = PROVEN \<and>
     truthy (rr_facility r)) (map snd (lg_receivables L))))"

section \<open>Debt falls only by cash that arrived\<close>

definition amounts_ok :: "(string, economic_event) dict \<Rightarrow> bool" where
  "amounts_ok evs \<longleftrightarrow> (\<forall>ev \<in> snd ` set evs. \<forall>a. ee_amount ev = Some a \<longrightarrow> 0 \<le> a)"

definition arrived :: "ledger \<Rightarrow> cash_line list" where
  "arrived L = filter (\<lambda>c. ca_where c = DESTINATION) (lg_cash L)"

definition arrived_sum :: "ledger \<Rightarrow> string option \<Rightarrow> int" where
  "arrived_sum L sid = sum_list (map (\<lambda>c. the (ca_amount c)) (filter (\<lambda>c. ca_settlement c = sid) (arrived L)))"

definition applied_to :: "ledger \<Rightarrow> string option \<Rightarrow> int" where
  "applied_to L fid = sum_list (map al_applied (filter (\<lambda>a. al_facility a = fid) (lg_allocations L)))"

text \<open>What an event that is neither a receipt nor an allocation leaves alone.\<close>

definition same_money :: "ledger \<Rightarrow> ledger \<Rightarrow> bool" where
  "same_money L L' \<longleftrightarrow> lg_debt L' = lg_debt L \<and> lg_allocations L' = lg_allocations L \<and> arrived L' = arrived L \<and> lg_events L' = lg_events L"

named_theorems ledger_updates "definitions of the small updates of a ledger"

lemmas [ledger_updates] = flag_def put_receivable_def revoke_def put_settlement_def add_cash_def

lemma same_money_updates [simp]:
  "same_money L L"
  "same_money L (flag c M) = same_money L M"
  "same_money L (put_receivable k r M) = same_money L M"
  "same_money L (revoke r M) = same_money L M"
  "same_money L (put_settlement sid s M) = same_money L M"
  "w \<noteq> DESTINATION \<Longrightarrow> same_money L (add_cash w a sid prov M) = same_money L M"
  by (auto simp: same_money_def arrived_def ledger_updates)

lemma apply_event_same_money:
  assumes "apply_event facilities e L = Inr L'" and "ee_type e \<noteq> DESTINATION_RECEIPT" and "ee_type e \<noteq> ALLOCATION"
  shows "same_money L L'"
proof -
  have "same_money L (apply_obligation e L)" by (simp add: apply_obligation_def Let_def split: option.split)
  moreover have "same_money L (apply_assignment facilities e L)" by (simp add: apply_assignment_def Let_def split: option.split)
  moreover have "same_money L (apply_decision_use e L)" by (simp add: apply_decision_use_def Let_def split: option.split)
  moreover have "apply_correction e L = Inr L' \<Longrightarrow> same_money L L'"
    by (auto simp: apply_correction_def Let_def then_do_eq_Inr split: option.splits if_splits)
  moreover have "apply_cancellation e L = Inr L' \<Longrightarrow> same_money L L'"
    by (auto simp: apply_cancellation_def Let_def then_do_eq_Inr split: option.splits if_splits)
  moreover have "apply_payout e L = Inr L' \<Longrightarrow> same_money L L'"
    by (auto simp: apply_payout_def Let_def then_do_eq_Inr split: option.splits if_splits)
  moreover have "apply_leg e L = Inr L' \<Longrightarrow> same_money L L'"
    by (auto simp: apply_leg_def Let_def then_do_eq_Inr)
  ultimately show ?thesis using assms by (cases "ee_type e") (auto simp: apply_event_def)
qed

definition money_inv :: "(string option \<Rightarrow> int) \<Rightarrow> ledger \<Rightarrow> bool" where
  "money_inv debt0 L \<longleftrightarrow> (\<forall>c \<in> set (arrived L). \<exists>a \<ge> 0. ca_amount c = Some a) \<and> (\<forall>sid. allocated L sid \<le> arrived_sum L sid) \<and>
     (\<forall>fid. dict_get0 (lg_debt L) fid = debt0 fid - applied_to L fid) \<and> (\<forall>fid. applied_to L fid \<le> debt0 fid) \<and>
     (\<forall>a \<in> set (lg_allocations L). 0 \<le> al_applied a \<and> 0 \<le> al_excess a \<and> al_applied a + al_excess a = al_amount a)"

lemma same_money_inv: "same_money L L' \<Longrightarrow> money_inv debt0 L \<Longrightarrow> money_inv debt0 L'"
  unfolding same_money_def money_inv_def allocated_def applied_to_def arrived_sum_def by auto

lemma received_sum:
  assumes "\<forall>c \<in> set (arrived L). \<exists>a \<ge> 0. ca_amount c = Some a"
  shows "received L sid = Inr (arrived_sum L sid)"
proof -
  have f: "filter (\<lambda>c. ca_where c = DESTINATION \<and> ca_settlement c = sid) (lg_cash L) = filter (\<lambda>c. ca_settlement c = sid) (arrived L)"
    by (simp add: arrived_def conj_commute)
  have "need (ca_amount c) = Inr (the (ca_amount c))" if "c \<in> set (filter (\<lambda>c. ca_settlement c = sid) (arrived L))" for c
    using assms that by auto
  then show ?thesis unfolding received_def f arrived_sum_def by (subst sum_results_map_Inr) auto
qed

lemma apply_receipt_inv:
  assumes "apply_receipt e L = Inr L'" and "money_inv debt0 L" and "\<forall>a. ee_amount e = Some a \<longrightarrow> 0 \<le> a"
  shows "money_inv debt0 L' \<and> lg_events L' = lg_events L"
proof -
  obtain a where a: "ee_amount e = Some a" "0 \<le> a" using assms(1,3) by (auto simp: apply_receipt_def then_do_eq_Inr)
  have L': "lg_debt L' = lg_debt L" "lg_allocations L' = lg_allocations L" "lg_events L' = lg_events L"
    "arrived L' = arrived L @ [\<lparr>ca_where = DESTINATION, ca_amount = Some a, ca_settlement = ee_settlement e, ca_provenance = None\<rparr>]"
    using assms(1) a by (auto simp: apply_receipt_def Let_def ledger_updates arrived_def)
  have "arrived_sum L sid \<le> arrived_sum L' sid" for sid using a(2) by (auto simp: arrived_sum_def L')
  with assms(2) a L' show ?thesis
    by (auto simp: money_inv_def allocated_def applied_to_def intro: order_trans)
qed

lemma apply_allocation_inv:
  assumes "apply_allocation facilities e L = Inr L'" and inv: "money_inv debt0 L" and "\<forall>a. ee_amount e = Some a \<longrightarrow> 0 \<le> a"
  shows "money_inv debt0 L' \<and> lg_events L' = lg_events L"
proof (cases "same_money L L'")
  case True
  with inv show ?thesis using same_money_inv by (auto simp: same_money_def)
next
  case False
  have rcv: "received L sid = Inr (arrived_sum L sid)" for sid using inv by (intro received_sum) (simp add: money_inv_def)
  let ?d = "dict_get0 (lg_debt L) (ee_facility e)"
  obtain a where a: "ee_amount e = Some a" "0 \<le> a" and le: "allocated L (ee_settlement e) + a \<le> arrived_sum L (ee_settlement e)"
    and L': "L' = L\<lparr>lg_debt := dict_set (ee_facility e) (?d - min a ?d) (lg_debt L), lg_allocations := lg_allocations L @
      [\<lparr>al_facility = ee_facility e, al_amount = a, al_applied = min a ?d, al_excess = a - min a ?d, al_settlement = ee_settlement e\<rparr>]\<rparr>"
  proof -
    have loan: "Option.bind (facility_of facilities (ee_facility e)) rf_loan_asset = Some (ee_asset e)"
      using assms(1) False by (cases "Option.bind (facility_of facilities (ee_facility e)) rf_loan_asset = Some (ee_asset e)")
        (auto simp: apply_allocation_def)
    then obtain a where a: "ee_amount e = Some a" using assms(1) by (auto simp: apply_allocation_def rcv then_do_eq_Inr)
    have "\<not> arrived_sum L (ee_settlement e) < allocated L (ee_settlement e) + a"
      using assms(1) False loan a by (auto simp: apply_allocation_def rcv)
    with that [of a] assms(1,3) loan a show ?thesis by (simp add: apply_allocation_def rcv Let_def)
  qed
  have "0 \<le> ?d" using inv by (simp add: money_inv_def)
  moreover have "arrived L' = arrived L" "arrived_sum L' = arrived_sum L" by (auto simp: L' arrived_def arrived_sum_def)
  moreover have "allocated L' sid = allocated L sid + (if sid = ee_settlement e then a else 0)" for sid by (simp add: L' allocated_def)
  moreover have "applied_to L' fid = applied_to L fid + (if fid = ee_facility e then min a ?d else 0)" for fid by (simp add: L' applied_to_def)
  ultimately show ?thesis using inv a le by (auto simp: money_inv_def L')
qed

lemma apply_event_inv:
  assumes "apply_event facilities e L = Inr L'" and "money_inv debt0 L" and "\<forall>a. ee_amount e = Some a \<longrightarrow> 0 \<le> a"
  shows "money_inv debt0 L'"
  using assms apply_receipt_inv [of e L L' debt0] apply_allocation_inv [of facilities e L L' debt0]
    same_money_inv [OF apply_event_same_money [OF assms(1)], of debt0]
  by (cases "ee_type e") (auto simp: apply_event_def)

lemma apply_events_inv:
  "apply_events facilities es L = Inr L' \<Longrightarrow> money_inv debt0 L \<Longrightarrow> \<forall>e \<in> set es. \<forall>a. ee_amount e = Some a \<longrightarrow> 0 \<le> a \<Longrightarrow> money_inv debt0 L'"
proof (induction es arbitrary: L)
  case Nil
  then show ?case by simp
next
  case (Cons e es)
  then obtain M where "apply_event facilities e L = Inr M" "apply_events facilities es M = Inr L'" by (auto simp: then_do_eq_Inr)
  with Cons show ?case using apply_event_inv [of facilities e L M debt0] by auto
qed

text \<open>Merging keeps the amounts of the observations and touches no money.\<close>

lemma chain_checks_money: "same_money L (snd (chain_checks o' L))"
  by (simp add: chain_checks_def Let_def) (simp add: same_money_def arrived_def flag_def)

lemma merge_observation_money:
  assumes "\<forall>a. ob_amount o' = Some a \<longrightarrow> 0 \<le> a" and "amounts_ok (lg_events L)" and "money_inv debt0 L"
  shows "amounts_ok (lg_events (merge_observation o' L)) \<and> money_inv debt0 (merge_observation o' L)"
proof -
  obtain pass L1 where c: "(if ob_source o' = SRC_CHAIN then chain_checks o' L else (True, L)) = (pass, L1)" by fastforce
  have "same_money L L1" using chain_checks_money [of L o'] c by (auto split: if_splits)
  then have inv: "money_inv debt0 L1" and ok: "amounts_ok (lg_events L1)"
    using assms(2,3) same_money_inv by (auto simp: same_money_def)
  have set: "amounts_ok (dict_set k ev (lg_events L1))" if "\<forall>a. ee_amount ev = Some a \<longrightarrow> 0 \<le> a" for k ev
    using ok that dict_set_values [of k ev "lg_events L1"] unfolding amounts_ok_def by blast
  have keep: "money_inv debt0 (L1\<lparr>lg_events := evs\<rparr>)" for evs
    using inv by (simp add: money_inv_def arrived_def arrived_sum_def allocated_def applied_to_def)
  have "money_inv debt0 (flag code L1)" for code
    using inv same_money_inv [of L1 "flag code L1"] by simp
  moreover have "\<forall>a. ee_amount (add_sighting o' ev) = Some a \<longrightarrow> 0 \<le> a" if "map_of (lg_events L1) k = Some ev" for ev k
    using ok map_of_in_values [OF that] by (auto simp: amounts_ok_def add_sighting_def Let_def)
  moreover have "\<forall>a. ee_amount (new_event o') = Some a \<longrightarrow> 0 \<le> a" using assms(1) by (simp add: new_event_def)
  ultimately show ?thesis unfolding merge_observation_def c using ok inv set keep
    by (auto simp: flag_def split: option.split)
qed

lemma merge_all_money:
  assumes "\<forall>o' \<in> set obs. \<forall>a. ob_amount o' = Some a \<longrightarrow> 0 \<le> a"
  shows "amounts_ok (lg_events L) \<Longrightarrow> money_inv debt0 L \<Longrightarrow>
    amounts_ok (lg_events (foldl (\<lambda>L o'. merge_observation o' L) L obs)) \<and> money_inv debt0 (foldl (\<lambda>L o'. merge_observation o' L) L obs)"
  using assms
proof (induction obs arbitrary: L)
  case (Cons o' obs)
  then show ?case using merge_observation_money [of o' L debt0] by simp
qed simp

lemma initial_debt:
  "distinct (map fst facilities) \<Longrightarrow> dict_get0 (lg_debt (empty_ledger facilities)) (Some fid) = (case map_of facilities fid of None \<Rightarrow> 0 | Some f \<Rightarrow> rf_debt f)"
  "\<forall>f \<in> snd ` set facilities. 0 \<le> rf_debt f \<Longrightarrow> 0 \<le> dict_get0 (lg_debt (empty_ledger facilities)) k"
proof -
  let ?f = "foldl (\<lambda>d (fid, f). dict_set (Some fid) (rf_debt f) d)"
  have "distinct (map fst facilities) \<Longrightarrow> dict_get0 (?f d facilities) (Some fid) =
      (case map_of facilities fid of None \<Rightarrow> dict_get0 d (Some fid) | Some f \<Rightarrow> rf_debt f)" for d
  proof (induction facilities arbitrary: d)
    case (Cons x xs)
    then show ?case by (cases x) (auto split: option.split dest: map_of_SomeD simp: image_iff)
  qed simp
  then show "distinct (map fst facilities) \<Longrightarrow> dict_get0 (lg_debt (empty_ledger facilities)) (Some fid) =
      (case map_of facilities fid of None \<Rightarrow> 0 | Some f \<Rightarrow> rf_debt f)"
    by (simp add: empty_ledger_def dict_get0_def split: option.split)
  have "\<forall>f \<in> snd ` set facilities. 0 \<le> rf_debt f \<Longrightarrow> 0 \<le> dict_get0 d k \<Longrightarrow> 0 \<le> dict_get0 (?f d facilities) k" for d
    by (induction facilities arbitrary: d) auto
  then show "\<forall>f \<in> snd ` set facilities. 0 \<le> rf_debt f \<Longrightarrow> 0 \<le> dict_get0 (lg_debt (empty_ledger facilities)) k"
    by (simp add: empty_ledger_def dict_get0_def)
qed

text \<open>C12: a facility's debt falls only by allocations of cash that arrived at the destination. For observations with
  non-negative amounts and facilities with non-negative debts, when \<open>reconcile_ledger\<close> returns, the allocations of every
  settlement are at most its destination receipts; every facility's debt is its initial debt less what was
  applied to it and not negative; and every allocation splits exactly into an applied part and an excess. Payouts
  at the source, legs, corrections and duplicates never change a debt.\<close>

theorem debt_falls_only_by_receipts:
  assumes "reconcile_ledger obs facilities = Inr L" and "\<forall>o' \<in> set obs. \<forall>a. ob_amount o' = Some a \<longrightarrow> 0 \<le> a"
    and "distinct (map fst facilities)" and "\<forall>f \<in> snd ` set facilities. 0 \<le> rf_debt f"
  shows "(\<forall>sid. \<exists>rcv. received L sid = Inr rcv \<and> allocated L sid \<le> rcv) \<and>
    (\<forall>fid f. map_of facilities fid = Some f \<longrightarrow>
       dict_get0 (lg_debt L) (Some fid) = rf_debt f - applied_to L (Some fid) \<and> 0 \<le> dict_get0 (lg_debt L) (Some fid)) \<and>
    (\<forall>a \<in> set (lg_allocations L). 0 \<le> al_applied a \<and> 0 \<le> al_excess a \<and> al_applied a + al_excess a = al_amount a)"
proof -
  define debt0 where "debt0 = dict_get0 (lg_debt (empty_ledger facilities))"
  have "money_inv debt0 (empty_ledger facilities)"
    using initial_debt(2) [OF assms(4)]
    by (simp add: money_inv_def debt0_def) (simp add: empty_ledger_def arrived_def arrived_sum_def allocated_def applied_to_def)
  moreover have "amounts_ok (lg_events (empty_ledger facilities))" by (simp add: empty_ledger_def amounts_ok_def)
  ultimately have m: "amounts_ok (lg_events (merge_all obs facilities)) \<and> money_inv debt0 (merge_all obs facilities)"
    unfolding merge_all_def using assms(2) by (intro merge_all_money) (simp_all add: observation_order_def)
  have inv: "money_inv debt0 L"
    by (rule apply_events_inv [OF assms(1) [unfolded reconcile_ledger_def Let_def]]) (use m in \<open>auto simp: amounts_ok_def\<close>)
  then have "received L sid = Inr (arrived_sum L sid)" for sid by (intro received_sum) (simp add: money_inv_def)
  moreover have "applied_to L (Some fid) \<le> (case map_of facilities fid of None \<Rightarrow> 0 | Some f \<Rightarrow> rf_debt f)" for fid
    using inv by (simp add: money_inv_def debt0_def flip: initial_debt(1) [OF assms(3)])
  then have "applied_to L (Some fid) \<le> rf_debt f" if "map_of facilities fid = Some f" for fid f using that by (metis option.simps(5))
  ultimately show ?thesis using inv initial_debt(1) [OF assms(3)] by (auto simp: money_inv_def debt0_def)
qed

definition base_observation :: observation where
  "base_observation = \<lparr>ob_id = ''o1'', ob_observed_at = ''t1'', ob_source = SRC_API, ob_trust = OBSERVED, ob_event = ''e1'',
     ob_type = DESTINATION_RECEIPT, ob_account = ''acct-A'', ob_asset = ''musdt'', ob_amount = Some 3600, ob_delta = None, ob_revision = None,
     ob_obligation_ref = None, ob_facility = None, ob_target = None, ob_settlement = Some ''s1'', ob_source_event = None, ob_consumed = False,
     ob_proven = None, ob_claimed = None, ob_emitter_registered = None, ob_anchor = False, ob_payer = None, ob_payer_is_borrower = False,
     ob_provenance = None\<rparr>"

text \<open>A receipt seen twice, the second time with a stronger trust, then an allocation, and a conflicting sighting.\<close>

definition sample_observations :: "observation list" where
  "sample_observations =
    [base_observation\<lparr>ob_id := ''o3'', ob_observed_at := ''t3'', ob_event := ''e2'', ob_type := ALLOCATION, ob_facility := Some ''fac-1''\<rparr>,
     base_observation, base_observation\<lparr>ob_id := ''o2'', ob_trust := ASSERTED\<rparr>,
     base_observation\<lparr>ob_id := ''o4'', ob_observed_at := ''t4'', ob_amount := Some 9000\<rparr>]"

definition sample_facilities :: "(string, ref_facility) dict" where
  "sample_facilities = [(''fac-1'', \<lparr>rf_account = Some ''acct-A'', rf_loan_asset = Some ''musdt'', rf_debt = 5000\<rparr>)]"

definition sample_ledger :: ledger where
  "sample_ledger = projr (reconcile_ledger sample_observations sample_facilities)"

lemma sample_reconciled: "reconcile_ledger sample_observations sample_facilities = Inr sample_ledger \<and> applied_to sample_ledger (Some ''fac-1'') = 3600"
  by code_simp

theorem debt_falls_only_by_receipts_witness:
  "dict_get0 (lg_debt sample_ledger) (Some ''fac-1'') = 1400 \<and> (\<exists>rcv. received sample_ledger (Some ''s1'') = Inr rcv \<and> allocated sample_ledger (Some ''s1'') \<le> rcv)"
proof -
  have s: "reconcile_ledger sample_observations sample_facilities = Inr sample_ledger" "applied_to sample_ledger (Some ''fac-1'') = 3600"
    using sample_reconciled by blast+
  have "\<forall>o' \<in> set sample_observations. \<forall>a. ob_amount o' = Some a \<longrightarrow> 0 \<le> a"
    by (simp add: sample_observations_def base_observation_def)
  from debt_falls_only_by_receipts [OF s(1) this] s(2) show ?thesis by (simp add: sample_facilities_def)
qed

section \<open>One event per id\<close>

text \<open>The observations that merging counts: those that pass the checks and do not contradict the event's amount.\<close>

definition accepts :: "observation \<Rightarrow> ledger \<Rightarrow> bool" where
  "accepts o' L \<longleftrightarrow> (let (pass, L1) = (if ob_source o' = SRC_CHAIN then chain_checks o' L else (True, L))
     in pass \<and> (case map_of (lg_events L1) (ob_event o') of None \<Rightarrow> True
       | Some ev \<Rightarrow> ee_amount ev = None \<or> ob_amount o' = None \<or> ee_amount ev = ob_amount o'))"

fun accepted_from :: "ledger \<Rightarrow> observation list \<Rightarrow> observation list" where
  "accepted_from L [] = []"
| "accepted_from L (o' # os) = (if accepts o' L then [o'] else []) @ accepted_from (merge_observation o' L) os"

text \<open>An event as a summary of its sightings, the first of which is \<open>o1\<close>.\<close>

definition summarises :: "economic_event \<Rightarrow> observation \<Rightarrow> observation list \<Rightarrow> bool" where
  "summarises ev o1 os \<longleftrightarrow> ee_observed_via ev = map ob_id (o1 # os) \<and> ee_type ev = ob_type o1 \<and> ee_amount ev = ob_amount o1 \<and>
     trust_rank (ee_trust ev) = Max (set (map (trust_rank \<circ> effective_trust) (o1 # os))) \<and>
     list_all (\<lambda>o'. ob_amount o1 = None \<or> ob_amount o' = None \<or> ob_amount o' = ob_amount o1) os"

definition grouped :: "observation list \<Rightarrow> ledger \<Rightarrow> bool" where
  "grouped A L \<longleftrightarrow> (\<forall>eid. case map_of (lg_events L) eid of
      None \<Rightarrow> filter (\<lambda>o'. ob_event o' = eid) A = []
    | Some ev \<Rightarrow> (\<exists>o1 os. filter (\<lambda>o'. ob_event o' = eid) A = o1 # os \<and> summarises ev o1 os))"

lemma summarises_new: "summarises (new_event o') o' []"
  by (simp add: summarises_def new_event_def)

lemma summarises_add:
  assumes "summarises ev o1 os" and "ee_amount ev = None \<or> ob_amount o' = None \<or> ee_amount ev = ob_amount o'"
  shows "summarises (add_sighting o' ev) o1 (os @ [o'])"
proof -
  let ?M = "Max (set (map (trust_rank \<circ> effective_trust) (o1 # os)))"
  have "Max (set (map (trust_rank \<circ> effective_trust) (o1 # os @ [o']))) = max ?M (trust_rank (effective_trust o'))"
    by (simp flip: insert_is_Un add: insert_commute [of _ "trust_rank (effective_trust o')"] max.commute)
  moreover have "trust_rank (ee_trust (add_sighting o' ev)) = max (trust_rank (ee_trust ev)) (trust_rank (effective_trust o'))"
    by (auto simp: add_sighting_def Let_def max_def)
  ultimately have "trust_rank (ee_trust (add_sighting o' ev)) = Max (set (map (trust_rank \<circ> effective_trust) (o1 # os @ [o'])))"
    using assms(1) by (simp only: summarises_def)
  moreover have "ee_observed_via (add_sighting o' ev) = ee_observed_via ev @ [ob_id o']" "ee_type (add_sighting o' ev) = ee_type ev"
    "ee_amount (add_sighting o' ev) = ee_amount ev" by (simp_all add: add_sighting_def Let_def)
  moreover have "ob_amount o1 = None \<or> ob_amount o' = None \<or> ob_amount o' = ob_amount o1"
    using assms by (auto simp: summarises_def)
  ultimately show ?thesis using assms(1) unfolding summarises_def by (simp del: Max_insert)
qed

lemma grouped_at: "grouped A L \<Longrightarrow> case map_of (lg_events L) eid of
      None \<Rightarrow> filter (\<lambda>o'. ob_event o' = eid) A = []
    | Some ev \<Rightarrow> (\<exists>o1 os. filter (\<lambda>o'. ob_event o' = eid) A = o1 # os \<and> summarises ev o1 os)"
  unfolding grouped_def by (rule spec)

text \<open>Setting the event of an accepted observation to the summary of its group.\<close>

lemma grouped_set:
  assumes "grouped A L" and "\<exists>o1 os. filter (\<lambda>x. ob_event x = ob_event o') A @ [o'] = o1 # os \<and> summarises ev o1 os"
  shows "grouped (A @ [o']) (L\<lparr>lg_events := dict_set (ob_event o') ev (lg_events L)\<rparr>)"
  unfolding grouped_def
proof (intro allI)
  fix eid
  have f: "filter (\<lambda>x. ob_event x = eid) (A @ [o']) =
      (if eid = ob_event o' then filter (\<lambda>x. ob_event x = eid) A @ [o'] else filter (\<lambda>x. ob_event x = eid) A)" by auto
  show "case map_of (lg_events (L\<lparr>lg_events := dict_set (ob_event o') ev (lg_events L)\<rparr>)) eid of
      None \<Rightarrow> filter (\<lambda>x. ob_event x = eid) (A @ [o']) = []
    | Some ev' \<Rightarrow> (\<exists>o1 os. filter (\<lambda>x. ob_event x = eid) (A @ [o']) = o1 # os \<and> summarises ev' o1 os)"
    unfolding f using assms(2) grouped_at [OF assms(1), of eid] by (cases "eid = ob_event o'") simp_all
qed

lemma merge_grouped:
  assumes "grouped A L"
  shows "grouped (A @ (if accepts o' L then [o'] else [])) (merge_observation o' L)"
proof -
  obtain pass L1 where c: "(if ob_source o' = SRC_CHAIN then chain_checks o' L else (True, L)) = (pass, L1)" by fastforce
  have ev: "lg_events L1 = lg_events L" using chain_checks_money [of L o'] c by (auto simp: same_money_def split: if_splits)
  then have g: "grouped A L1" using assms by (simp add: grouped_def)
  have flag: "grouped A (flag code L1)" for code using g by (simp add: grouped_def flag_def)
  show ?thesis
  proof (cases "accepts o' L")
    case False
    then have "merge_observation o' L = L1 \<or> merge_observation o' L = flag ''AMOUNT_CONFLICT'' L1"
      unfolding accepts_def merge_observation_def c by (auto split: option.splits)
    with False g flag show ?thesis by auto
  next
    case True
    show ?thesis
    proof (cases "map_of (lg_events L1) (ob_event o')")
      case None
      then have m: "merge_observation o' L = L1\<lparr>lg_events := dict_set (ob_event o') (new_event o') (lg_events L1)\<rparr>"
        using True unfolding accepts_def merge_observation_def c by simp
      have "filter (\<lambda>x. ob_event x = ob_event o') A = []" using grouped_at [OF g, of "ob_event o'"] None by simp
      with True summarises_new [of o'] show ?thesis unfolding m by (auto intro!: grouped_set [OF g])
    next
      case (Some ev)
      then have m: "merge_observation o' L = L1\<lparr>lg_events := dict_set (ob_event o') (add_sighting o' ev) (lg_events L1)\<rparr>"
        and a: "ee_amount ev = None \<or> ob_amount o' = None \<or> ee_amount ev = ob_amount o'"
        using True unfolding accepts_def merge_observation_def c by auto
      obtain o1 os where "filter (\<lambda>x. ob_event x = ob_event o') A = o1 # os" "summarises ev o1 os"
        using grouped_at [OF g, of "ob_event o'"] Some by auto
      with summarises_add [OF _ a] True show ?thesis unfolding m by (auto intro!: grouped_set [OF g])
    qed
  qed
qed

lemma fold_grouped: "grouped A L \<Longrightarrow> grouped (A @ accepted_from L obs) (foldl (\<lambda>L o'. merge_observation o' L) L obs)"
proof (induction obs arbitrary: A L)
  case (Cons o' obs)
  from Cons.IH [OF merge_grouped [OF Cons.prems, of o']] show ?case by simp
qed simp

text \<open>Every economic event is counted once, with the strongest trust and no silent choice of amount. After merging,
  an id has an event exactly when an observation of it was accepted; the event lists its accepted
  observations in order, has the type and amount of the first, its trust is the strongest among them, and no
  accepted observation states another amount.\<close>

theorem events_group_observations:
  "case map_of (lg_events (merge_all obs facilities)) eid of
     None \<Rightarrow> filter (\<lambda>o'. ob_event o' = eid) (accepted_from (empty_ledger facilities) (observation_order obs)) = []
   | Some ev \<Rightarrow> (\<exists>o1 os. filter (\<lambda>o'. ob_event o' = eid) (accepted_from (empty_ledger facilities) (observation_order obs)) = o1 # os \<and>
       ee_observed_via ev = map ob_id (o1 # os) \<and> ee_type ev = ob_type o1 \<and> ee_amount ev = ob_amount o1 \<and>
       trust_rank (ee_trust ev) = Max (set (map (trust_rank \<circ> effective_trust) (o1 # os))) \<and>
       list_all (\<lambda>o'. ob_amount o1 = None \<or> ob_amount o' = None \<or> ob_amount o' = ob_amount o1) os)"
proof -
  have "grouped [] (empty_ledger facilities)" by (simp add: grouped_def empty_ledger_def)
  from fold_grouped [OF this, of "observation_order obs"] show ?thesis
    unfolding merge_all_def grouped_def summarises_def append_Nil by (rule spec)
qed

end
