(* ===== verification/Cash_Engine.thy ===== *)
theory Cash_Engine
  imports Receivables
begin

text \<open>
  Destination cash (\<open>reconciliation/engine.py\<close>): recording a receipt of loan currency that a trusted reader
  reports, and mirroring a finalised repayment as an allocation of that receipt, over the tables
  \<open>settlements\<close>, \<open>cash_receipts\<close> and \<open>allocations\<close> with their constraints and the trigger on
  \<open>allocations\<close>. The reader of the chain is an argument; the advisory lock serialises calls and has no
  effect of its own. A raise rolls the caller's transaction back.
\<close>

section \<open>Rows\<close>

record settlement_row =
  se_id :: string
  se_account_id :: string
  se_state :: settlement_state
  se_chain_id :: int
  se_token :: "string option"
  se_decimals :: int
  se_source_amount :: int
  se_consumption_id :: "string option"
  se_profile :: execution_profile

record cash_receipt_row =
  cr_id :: string
  cr_vault_id :: string
  cr_chain_id :: int
  cr_token :: "string option"
  cr_decimals :: int
  cr_amount :: int
  cr_tx_hash :: string
  cr_log_index :: int
  cr_payer :: "string option"
  cr_source_kind :: string
  cr_settlement_id :: "string option"
  cr_state :: cash_state
  cr_profile :: execution_profile
  cr_received_at :: int

definition CASH_SOURCE_KINDS :: "string list" where
  "CASH_SOURCE_KINDS = [''SETTLEMENT'', ''DIRECT_REPAYMENT'', ''RECOVERY'', ''UNKNOWN'']"

definition cash_receipt_checks :: "cash_receipt_row \<Rightarrow> bool" where
  "cash_receipt_checks r \<longleftrightarrow> is_ulid (cr_id r) \<and> 0 < cr_chain_id r \<and> 0 \<le> cr_decimals r \<and> cr_decimals r \<le> 36 \<and> 0 < cr_amount r \<and>
     0 \<le> cr_log_index r \<and> (case cr_token r of None \<Rightarrow> True | Some a \<Rightarrow> is_addr a) \<and> is_hex32 (cr_tx_hash r) \<and>
     (case cr_payer r of None \<Rightarrow> True | Some a \<Rightarrow> is_addr a) \<and> cr_source_kind r \<in> set CASH_SOURCE_KINDS \<and>
     cr_state r \<in> {CS_DESTINATION_RECEIVED, CS_ALLOCATED, CS_RETURNED} \<and>
     (cr_source_kind r = ''SETTLEMENT'' \<longrightarrow> cr_settlement_id r \<noteq> None)"

definition receipt_key :: "cash_receipt_row \<Rightarrow> int \<times> string \<times> int" where
  "receipt_key r = (cr_chain_id r, cr_tx_hash r, cr_log_index r)"

record allocation_row =
  aw_id :: string
  aw_receipt_id :: string
  aw_facility_id :: string
  aw_received :: int
  aw_fee_paid :: int
  aw_interest_paid :: int
  aw_principal_paid :: int
  aw_excess :: int
  aw_new_debt :: int
  aw_tx_hash :: "string option"

definition allocation_checks :: "allocation_row \<Rightarrow> bool" where
  "allocation_checks a \<longleftrightarrow> is_ulid (aw_id a) \<and> 0 < aw_received a \<and> 0 \<le> aw_fee_paid a \<and> 0 \<le> aw_interest_paid a \<and> 0 \<le> aw_principal_paid a \<and>
     0 \<le> aw_excess a \<and> 0 \<le> aw_new_debt a \<and> aw_fee_paid a + aw_interest_paid a + aw_principal_paid a + aw_excess a = aw_received a \<and>
     (case aw_tx_hash a of None \<Rightarrow> True | Some h \<Rightarrow> is_hex32 h)"

definition allocation_key :: "allocation_row \<Rightarrow> string \<times> string" where
  "allocation_key a = (aw_receipt_id a, aw_facility_id a)"

record cash_db = rcv_db +
  db_settlements :: "settlement_row list"
  db_cash_receipts :: "cash_receipt_row list"
  db_allocations :: "allocation_row list"

section \<open>Facts of the chain reader\<close>

record destination_route =
  dr_vault_id :: string
  dr_receiver :: string
  dr_asset :: asset_ref
  dr_profile :: execution_profile

record receipt_fact =
  rf_receipt_id :: string
  rf_asset :: asset_ref
  rf_amount :: int
  rf_tx_hash :: string
  rf_log_index :: int
  rf_block_hash :: string
  rf_block_number :: int
  rf_payer :: "string option"
  rf_payee :: string
  rf_source_kind :: string
  rf_profile :: execution_profile
  rf_received_at :: py_datetime
  rf_canonical :: bool
  rf_finalized :: bool
  rf_status :: int
  rf_settlement_id :: "string option"

record allocation_fact =
  af_allocation_id :: string
  af_receipt_id :: string
  af_facility_id :: string
  af_received :: int
  af_fee_paid :: int
  af_interest_paid :: int
  af_principal_paid :: int
  af_excess :: int
  af_new_debt :: int
  af_tx_hash :: string
  af_chain_id :: int
  af_profile :: execution_profile
  af_canonical :: bool
  af_finalized :: bool
  af_status :: int

record cash_reader =
  rd_receipt :: "string \<Rightarrow> receipt_fact option"
  rd_allocation :: "string \<Rightarrow> allocation_fact option"

record reconciliation_result =
  re_entity_id :: "string option"
  re_created :: bool
  re_reason :: "string option"

definition no_result :: "string \<Rightarrow> reconciliation_result" where
  "no_result reason = \<lparr>re_entity_id = None, re_created = False, re_reason = Some reason\<rparr>"

section \<open>Statements\<close>

definition insert_cash_receipt :: "cash_receipt_row \<Rightarrow> cash_db \<Rightarrow> app_error + cash_db" where
  "insert_cash_receipt row db =
    ensure (cash_receipt_checks row) (IntegrityError ''ck_cash_receipts'')
    (ensure (\<not> has_key cr_id (db_cash_receipts db) (cr_id row)) (IntegrityError ''cash_receipts_pkey'')
    (ensure (\<not> has_key receipt_key (db_cash_receipts db) (receipt_key row)) (IntegrityError ''uq_cash_receipts_semantic_key'')
    (ensure (case cr_settlement_id row of None \<Rightarrow> True | Some s \<Rightarrow> has_key se_id (db_settlements db) s) (IntegrityError ''fk_cash_receipts'')
      (Inr (db\<lparr>db_cash_receipts := db_cash_receipts db @ [row]\<rparr>)))))"

definition allocated_of :: "string \<Rightarrow> allocation_row list \<Rightarrow> int" where
  "allocated_of rid rows = sum_list (map aw_received (filter (\<lambda>a. aw_receipt_id a = rid) rows))"

text \<open>The trigger: the allocations of a receipt, the new one included, stay within its amount.\<close>

definition hcg_allocations_within_receipt :: "allocation_row \<Rightarrow> cash_db \<Rightarrow> app_error option" where
  "hcg_allocations_within_receipt new db =
    (case List.find (\<lambda>r. cr_id r = aw_receipt_id new) (db_cash_receipts db) of
       None \<Rightarrow> Some (OtherError ''references unknown cash receipt'')
     | Some r \<Rightarrow>
         if cr_amount r < allocated_of (aw_receipt_id new) (filter (\<lambda>a. aw_id a \<noteq> aw_id new) (db_allocations db)) + aw_received new
         then Some (CheckViolation ''allocations exceed the received amount'') else None)"

definition insert_allocation :: "allocation_row \<Rightarrow> cash_db \<Rightarrow> app_error + cash_db" where
  "insert_allocation new db =
    (case hcg_allocations_within_receipt new db of
       Some e \<Rightarrow> Inl e
     | None \<Rightarrow>
    ensure (allocation_checks new) (IntegrityError ''ck_allocations'')
    (ensure (\<not> has_key aw_id (db_allocations db) (aw_id new)) (IntegrityError ''allocations_pkey'')
    (ensure (\<not> has_key allocation_key (db_allocations db) (allocation_key new)) (IntegrityError ''uq_allocations_receipt_facility'')
    (ensure (has_key fa_id (db_facilities db) (aw_facility_id new)) (IntegrityError ''fk_allocations'')
      (Inr (db\<lparr>db_allocations := db_allocations db @ [new]\<rparr>))))))"

definition block ::
  "(nat \<Rightarrow> string) \<Rightarrow> int \<Rightarrow> string \<Rightarrow> string \<Rightarrow> string \<Rightarrow> cash_db \<Rightarrow> app_error + (cash_db \<times> reconciliation_result)" where
  "block uid now code table entity db =
    then_do (open_exception uid now code table entity (JObj []) db) (\<lambda>db. Inr (db, no_result code))"

section \<open>Receipts\<close>

text \<open>The checks of the fact itself, before the database is read.\<close>

definition check_receipt_fact :: "receipt_fact \<Rightarrow> destination_route \<Rightarrow> app_error + int" where
  "check_receipt_fact f route =
    then_do (exact_units (rf_amount f) ''amount'' False) (\<lambda>_.
    then_do (exact_units (rf_log_index f) ''log_index'' False) (\<lambda>_.
    then_do (exact_units (rf_block_number f) ''block_number'' False) (\<lambda>_.
    then_do (aware (rf_received_at f) ''received_at'') (\<lambda>instant.
    ensure (rf_amount f \<noteq> 0 \<and> is_hex32 (rf_tx_hash f) \<and> is_hex32 (rf_block_hash f))
      (ValueError ''positive measured amount and canonical transaction/block hashes required'')
    (ensure (is_addr (rf_payee f) \<and> is_addr (dr_receiver route)) (ValueError ''normalized receiver address required'')
      (Inr instant))))))"

definition effective_kind :: "receipt_fact \<Rightarrow> string" where
  "effective_kind f = (if rf_payer f \<noteq> None \<and> rf_payer f \<noteq> Some [] then rf_source_kind f else ''UNKNOWN'')"

definition settlement_unreconciled :: "receipt_fact \<Rightarrow> destination_route \<Rightarrow> cash_db \<Rightarrow> bool" where
  "settlement_unreconciled f route db =
    (case (if rf_settlement_id f = Some [] then None else find_opt se_id (db_settlements db) (rf_settlement_id f)) of
       None \<Rightarrow> True
     | Some s \<Rightarrow> se_profile s \<noteq> dr_profile route \<or> se_state s \<in> {SS_ANNOUNCED, SS_REVERSED})"

definition same_receipt :: "cash_receipt_row \<Rightarrow> receipt_fact \<Rightarrow> destination_route \<Rightarrow> bool" where
  "same_receipt r f route \<longleftrightarrow> cr_vault_id r = dr_vault_id route \<and> cr_token r = as_address (rf_asset f) \<and> cr_decimals r = as_decimals (rf_asset f) \<and>
     cr_amount r = rf_amount f \<and> cr_payer r = rf_payer f \<and> cr_source_kind r = effective_kind f \<and> cr_profile r = rf_profile f \<and>
     cr_settlement_id r = rf_settlement_id f"

definition new_cash_receipt :: "receipt_fact \<Rightarrow> destination_route \<Rightarrow> int \<Rightarrow> cash_receipt_row" where
  "new_cash_receipt f route instant = \<lparr>cr_id = rf_receipt_id f, cr_vault_id = dr_vault_id route, cr_chain_id = as_chain_id (rf_asset f),
     cr_token = as_address (rf_asset f), cr_decimals = as_decimals (rf_asset f), cr_amount = rf_amount f, cr_tx_hash = rf_tx_hash f,
     cr_log_index = rf_log_index f, cr_payer = rf_payer f, cr_source_kind = effective_kind f, cr_settlement_id = rf_settlement_id f,
     cr_state = CS_DESTINATION_RECEIVED, cr_profile = rf_profile f, cr_received_at = instant\<rparr>"

definition receipt_event_key :: "receipt_fact \<Rightarrow> string" where
  "receipt_event_key f = ''destination-cash:'' @ str_int (as_chain_id (rf_asset f)) @ '':'' @ rf_tx_hash f @ '':'' @ str_int (rf_log_index f)"

definition store_receipt ::
  "(nat \<Rightarrow> string) \<Rightarrow> int \<Rightarrow> string \<Rightarrow> receipt_fact \<Rightarrow> cash_receipt_row \<Rightarrow> cash_db \<Rightarrow> app_error + (cash_db \<times> reconciliation_result)" where
  "store_receipt uid now reference f row db =
    then_do (insert_cash_receipt row db) (\<lambda>db.
    then_do (emit now ''cash_receipt'' (cr_id row) ''DESTINATION_CASH_RECONCILED''
      (JObj [(''cashReceiptId'', JStr (cr_id row)), (''reference'', JStr reference), (''chainId'', JInt (as_chain_id (rf_asset f))),
        (''txHash'', JStr (rf_tx_hash f)), (''logIndex'', JInt (rf_log_index f)), (''blockHash'', JStr (rf_block_hash f)),
        (''blockNumber'', JStr (str_int (rf_block_number f))), (''payee'', JStr (rf_payee f)), (''amount'', JStr (str_int (rf_amount f))),
        (''executionProfile'', JStr (execution_profile_value (rf_profile f))), (''debtApplied'', JBool False)])
      (receipt_event_key f) db) (\<lambda>(db, _).
    if cr_source_kind row = ''UNKNOWN''
    then then_do (open_exception uid now ''UNCLASSIFIED_DESTINATION_CASH'' ''cash_receipts'' (cr_id row) (JObj []) db) (\<lambda>db.
      Inr (db, \<lparr>re_entity_id = Some (cr_id row), re_created = True, re_reason = Some ''UNCLASSIFIED_DESTINATION_CASH''\<rparr>))
    else Inr (db, \<lparr>re_entity_id = Some (cr_id row), re_created = True, re_reason = None\<rparr>)))"

definition record_destination_receipt ::
  "(nat \<Rightarrow> string) \<Rightarrow> int \<Rightarrow> string \<Rightarrow> destination_route \<Rightarrow> cash_reader option \<Rightarrow> cash_db \<Rightarrow> app_error + (cash_db \<times> reconciliation_result)" where
  "record_destination_receipt uid now reference route reader db =
    (case reader of None \<Rightarrow> Inr (db, no_result ''DESTINATION_READER_NOT_CONFIGURED'')
     | Some rd \<Rightarrow>
    (case rd_receipt rd reference of None \<Rightarrow> Inr (db, no_result ''DESTINATION_RECEIPT_NOT_FOUND'')
     | Some f \<Rightarrow>
    then_do (check_receipt_fact f route) (\<lambda>instant.
    (let row = new_cash_receipt f route instant;
         existing = List.find (\<lambda>r. receipt_key r = receipt_key row) (db_cash_receipts db);
         entity = (case existing of None \<Rightarrow> rf_receipt_id f | Some r \<Rightarrow> cr_id r)
     in if \<not> rf_canonical f \<or> rf_status f \<noteq> 1 then block uid now ''DESTINATION_NOT_CANONICAL_FINAL'' ''cash_receipts'' entity db
        else if \<not> rf_finalized f then Inr (db, no_result ''DESTINATION_NOT_CANONICAL_FINAL'')
        else if asset_key (rf_asset f) \<noteq> asset_key (dr_asset route) \<or> rf_payee f \<noteq> dr_receiver route \<or> rf_profile f \<noteq> dr_profile route
        then block uid now ''DESTINATION_ROUTE_MISMATCH'' ''cash_receipts'' entity db
        else if rf_source_kind f \<notin> set CASH_SOURCE_KINDS then block uid now ''NOT_DESTINATION_CASH'' ''cash_receipts'' entity db
        else ensure (case rf_payer f of None \<Rightarrow> True | Some a \<Rightarrow> is_addr a) (ValueError ''normalized payer address required'')
       (if rf_source_kind f = ''SETTLEMENT'' \<and> settlement_unreconciled f route db
        then block uid now ''SOURCE_SETTLEMENT_UNRECONCILED'' ''cash_receipts'' entity db
        else if rf_source_kind f \<noteq> ''SETTLEMENT'' \<and> rf_settlement_id f \<noteq> None
        then block uid now ''CASH_CLASSIFICATION_CONFLICT'' ''cash_receipts'' entity db
        else case existing of
          Some r \<Rightarrow> if same_receipt r f route
                     then Inr (db, \<lparr>re_entity_id = Some entity, re_created = False, re_reason = Some ''DUPLICATE_RECEIPT''\<rparr>)
                     else block uid now ''DESTINATION_RECEIPT_CONFLICT'' ''cash_receipts'' entity db
        | None \<Rightarrow> store_receipt uid now reference f row db)))))"

section \<open>Allocations\<close>

definition check_allocation_fact :: "allocation_fact \<Rightarrow> app_error + unit" where
  "check_allocation_fact f =
    then_do (exact_units (af_received f) ''received'' False) (\<lambda>_.
    then_do (exact_units (af_fee_paid f) ''fee_paid'' False) (\<lambda>_.
    then_do (exact_units (af_interest_paid f) ''interest_paid'' False) (\<lambda>_.
    then_do (exact_units (af_principal_paid f) ''principal_paid'' False) (\<lambda>_.
    then_do (exact_units (af_excess f) ''excess'' False) (\<lambda>_.
    then_do (exact_units (af_new_debt f) ''new_debt'' False) (\<lambda>_.
    ensure (0 < af_received f \<and> af_received f = af_fee_paid f + af_interest_paid f + af_principal_paid f + af_excess f)
      (ValueError ''repayment split must exactly equal measured allocated cash'')
    (ensure (is_hex32 (af_tx_hash f)) (ValueError ''normalized repayment transaction hash required'') (Inr ()))))))))"

definition route_mismatch :: "allocation_fact \<Rightarrow> cash_receipt_row \<Rightarrow> facility_row option \<Rightarrow> bool" where
  "route_mismatch f receipt facility =
    (case facility of None \<Rightarrow> True
     | Some fac \<Rightarrow> (fa_loan_chain_id fac, fa_loan_token fac, fa_loan_decimals fac) \<noteq> (cr_chain_id receipt, cr_token receipt, cr_decimals receipt) \<or>
         fa_vault_id fac \<noteq> cr_vault_id receipt \<or> af_chain_id f \<noteq> cr_chain_id receipt)"

definition cash_quarantined :: "string \<Rightarrow> cash_db \<Rightarrow> bool" where
  "cash_quarantined rid db = (\<exists>x \<in> set (db_exceptions db). ex_table x = ''cash_receipts'' \<and> ex_entity x = rid \<and> ex_severity x = ''BLOCKING'' \<and>
     ex_resolved_at x = None)"

text \<open>Cash of a settlement belongs to the borrower of the settlement's account.\<close>

definition other_borrower :: "cash_receipt_row \<Rightarrow> facility_row \<Rightarrow> cash_db \<Rightarrow> app_error + bool" where
  "other_borrower receipt fac db =
    (if cr_source_kind receipt \<noteq> ''SETTLEMENT'' then Inr False
     else case find_opt se_id (db_settlements db) (cr_settlement_id receipt) of
       None \<Rightarrow> Inl (OtherError ''AttributeError'')
     | Some s \<Rightarrow> (case List.find (\<lambda>a. ac_id a = se_account_id s) (db_accounts db) of
         None \<Rightarrow> Inl (OtherError ''AttributeError'')
       | Some account \<Rightarrow> Inr (ac_borrower_id account \<noteq> fa_borrower_id fac)))"

definition same_allocation :: "allocation_row \<Rightarrow> allocation_fact \<Rightarrow> bool" where
  "same_allocation a f \<longleftrightarrow> aw_received a = af_received f \<and> aw_fee_paid a = af_fee_paid f \<and> aw_interest_paid a = af_interest_paid f \<and>
     aw_principal_paid a = af_principal_paid f \<and> aw_excess a = af_excess f \<and> aw_new_debt a = af_new_debt f \<and> aw_tx_hash a = Some (af_tx_hash f)"

definition new_allocation :: "allocation_fact \<Rightarrow> allocation_row" where
  "new_allocation f = \<lparr>aw_id = af_allocation_id f, aw_receipt_id = af_receipt_id f, aw_facility_id = af_facility_id f, aw_received = af_received f,
     aw_fee_paid = af_fee_paid f, aw_interest_paid = af_interest_paid f, aw_principal_paid = af_principal_paid f, aw_excess = af_excess f,
     aw_new_debt = af_new_debt f, aw_tx_hash = Some (af_tx_hash f)\<rparr>"

definition mark_allocated :: "string \<Rightarrow> cash_db \<Rightarrow> cash_db" where
  "mark_allocated rid db = db\<lparr>db_cash_receipts := update_where (\<lambda>r. cr_id r = rid) (\<lambda>r. r\<lparr>cr_state := CS_ALLOCATED\<rparr>) (db_cash_receipts db)\<rparr>"

definition store_allocation ::
  "int \<Rightarrow> string \<Rightarrow> allocation_fact \<Rightarrow> bool \<Rightarrow> cash_db \<Rightarrow> app_error + (cash_db \<times> reconciliation_result)" where
  "store_allocation now reference f full db =
    then_do (insert_allocation (new_allocation f) db) (\<lambda>db.
    (let db = (if full then mark_allocated (af_receipt_id f) db else db) in
    then_do (emit now ''allocation'' (af_allocation_id f) ''CONFIRMED_REPAYMENT_RECONCILED''
      (JObj [(''allocationId'', JStr (af_allocation_id f)), (''reference'', JStr reference), (''cashReceiptId'', JStr (af_receipt_id f)),
        (''facilityId'', JStr (af_facility_id f)), (''received'', JStr (str_int (af_received f))), (''excess'', JStr (str_int (af_excess f))),
        (''txHash'', JStr (af_tx_hash f)), (''executionProfile'', JStr (execution_profile_value (af_profile f)))])
      (''cash-allocation:'' @ af_receipt_id f @ '':'' @ af_facility_id f) db) (\<lambda>(db, _).
    Inr (db, \<lparr>re_entity_id = Some (af_allocation_id f), re_created = True, re_reason = None\<rparr>))))"

text \<open>From the look-up of an existing allocation on.\<close>

definition allocate_receipt ::
  "(nat \<Rightarrow> string) \<Rightarrow> int \<Rightarrow> string \<Rightarrow> allocation_fact \<Rightarrow> cash_receipt_row \<Rightarrow> cash_db \<Rightarrow> app_error + (cash_db \<times> reconciliation_result)" where
  "allocate_receipt uid now reference f receipt db =
    (case List.find (\<lambda>a. allocation_key a = (af_receipt_id f, af_facility_id f)) (db_allocations db) of
       Some a \<Rightarrow> if same_allocation a f
                  then Inr (db, \<lparr>re_entity_id = Some (aw_id a), re_created = False, re_reason = Some ''DUPLICATE_ALLOCATION''\<rparr>)
                  else block uid now ''ALLOCATION_CONFLICT'' ''allocations'' (af_allocation_id f) db
     | None \<Rightarrow>
        (let total = allocated_of (cr_id receipt) (db_allocations db) + af_received f
         in if cr_amount receipt < total then block uid now ''ALLOCATION_EXCEEDS_RECEIPT'' ''allocations'' (af_allocation_id f) db
            else store_allocation now reference f (total = cr_amount receipt) db))"

definition record_confirmed_allocation ::
  "(nat \<Rightarrow> string) \<Rightarrow> int \<Rightarrow> string \<Rightarrow> cash_reader option \<Rightarrow> cash_db \<Rightarrow> app_error + (cash_db \<times> reconciliation_result)" where
  "record_confirmed_allocation uid now reference reader db =
    (case reader of None \<Rightarrow> Inr (db, no_result ''DESTINATION_READER_NOT_CONFIGURED'')
     | Some rd \<Rightarrow>
    (case rd_allocation rd reference of None \<Rightarrow> Inr (db, no_result ''FINAL_REPAYMENT_EVENT_NOT_FOUND'')
     | Some f \<Rightarrow>
    then_do (check_allocation_fact f) (\<lambda>_.
    (case List.find (\<lambda>r. cr_id r = af_receipt_id f) (db_cash_receipts db) of
       None \<Rightarrow> block uid now ''DESTINATION_RECEIPT_MISSING'' ''allocations'' (af_allocation_id f) db
     | Some receipt \<Rightarrow>
        (let facility = List.find (\<lambda>x. fa_id x = af_facility_id f) (db_facilities db); fac = the facility
         in if \<not> af_canonical f \<or> af_status f \<noteq> 1 then block uid now ''REPAYMENT_NOT_CANONICAL_FINAL'' ''cash_receipts'' (cr_id receipt) db
            else if \<not> af_finalized f then Inr (db, no_result ''REPAYMENT_NOT_CANONICAL_FINAL'')
            else if route_mismatch f receipt facility then block uid now ''FACILITY_CASH_ROUTE_MISMATCH'' ''allocations'' (af_allocation_id f) db
            else if fa_profile fac \<noteq> cr_profile receipt \<or> af_profile f \<noteq> cr_profile receipt
            then block uid now ''CASH_PROFILE_MISMATCH'' ''allocations'' (af_allocation_id f) db
            else if cr_state receipt = CS_RETURNED \<or> cr_source_kind receipt = ''UNKNOWN''
            then block uid now ''CASH_NOT_ALLOCATABLE'' ''allocations'' (af_allocation_id f) db
            else if cash_quarantined (cr_id receipt) db then Inr (db, no_result ''CASH_RECONCILIATION_EXCEPTION'')
            else then_do (other_borrower receipt fac db) (\<lambda>other.
              if other then block uid now ''OTHER_BORROWER_CASH'' ''allocations'' (af_allocation_id f) db
              else allocate_receipt uid now reference f receipt db))))))"

section \<open>Cash is never allocated twice\<close>

definition cash_inv :: "cash_db \<Rightarrow> bool" where
  "cash_inv db \<longleftrightarrow> unique_on cr_id (db_cash_receipts db) \<and> unique_on receipt_key (db_cash_receipts db) \<and> unique_on allocation_key (db_allocations db) \<and>
     (\<forall>a \<in> set (db_allocations db). allocation_checks a \<and> has_key cr_id (db_cash_receipts db) (aw_receipt_id a)) \<and>
     (\<forall>r \<in> set (db_cash_receipts db). 0 < cr_amount r \<and> allocated_of (cr_id r) (db_allocations db) \<le> cr_amount r \<and>
        (cr_state r = CS_ALLOCATED \<longleftrightarrow> allocated_of (cr_id r) (db_allocations db) = cr_amount r))"

definition same_cash :: "cash_db \<Rightarrow> cash_db \<Rightarrow> bool" where
  "same_cash db db' \<longleftrightarrow> db_cash_receipts db' = db_cash_receipts db \<and> db_allocations db' = db_allocations db"

text \<open>The services as steps; \<open>other\<close> is any service that leaves the two tables alone.\<close>

inductive cash_step :: "cash_db \<Rightarrow> cash_db \<Rightarrow> bool" where
  receipt: "record_destination_receipt uid now reference route reader db = Inr (db', res) \<Longrightarrow> cash_step db db'"
| allocate: "record_confirmed_allocation uid now reference reader db = Inr (db', res) \<Longrightarrow> cash_step db db'"
| other: "same_cash db db' \<Longrightarrow> cash_step db db'"

lemma open_exception_cash: "open_exception uid now code table entity detail db = Inr db' \<Longrightarrow> same_cash db db'"
  by (auto simp: open_exception_def same_cash_def Let_def split: if_splits)

lemma emit_cash: "emit now t i ev pay key db = Inr (db', n) \<Longrightarrow> same_cash db db'"
  by (auto simp: emit_def same_cash_def Let_def split: if_splits)

lemma block_cash: "block uid now code table entity db = Inr (db', res) \<Longrightarrow> same_cash db db'"
  by (auto simp: block_def then_do_eq_Inr dest: open_exception_cash)

lemma store_receipt_cash:
  assumes "store_receipt uid now reference f row db = Inr (db', res)"
  shows "db_allocations db' = db_allocations db \<and> db_cash_receipts db' = db_cash_receipts db @ [row] \<and> cash_receipt_checks row \<and>
    \<not> has_key cr_id (db_cash_receipts db) (cr_id row) \<and> \<not> has_key receipt_key (db_cash_receipts db) (receipt_key row)"
proof -
  obtain db1 db2 n where i: "insert_cash_receipt row db = Inr db1" and s: "same_cash db1 db2" "same_cash db2 db'"
    using assms unfolding store_receipt_def
    by (auto simp: then_do_eq_Inr case_prod_beta split: if_splits dest!: emit_cash open_exception_cash) (auto simp: same_cash_def)
  then show ?thesis by (auto simp: insert_cash_receipt_def same_cash_def)
qed

lemma record_receipt_cash:
  assumes "record_destination_receipt uid now reference route reader db = Inr (db', res)"
  shows "same_cash db db' \<or> (\<exists>f t. db_allocations db' = db_allocations db \<and> db_cash_receipts db' = db_cash_receipts db @ [new_cash_receipt f route t] \<and>
    cash_receipt_checks (new_cash_receipt f route t) \<and> \<not> has_key cr_id (db_cash_receipts db) (cr_id (new_cash_receipt f route t)) \<and>
    \<not> has_key receipt_key (db_cash_receipts db) (receipt_key (new_cash_receipt f route t)))"
proof (cases "same_cash db db'")
  case False
  have "same_cash db db" by (simp add: same_cash_def)
  then obtain f t where "store_receipt uid now reference f (new_cash_receipt f route t) db = Inr (db', res)"
    using assms False unfolding record_destination_receipt_def Let_def
    by (auto simp: then_do_eq_Inr split: option.splits if_splits dest: block_cash)
  from store_receipt_cash [OF this] show ?thesis by blast
qed simp

lemma insert_allocation_cash:
  assumes "insert_allocation new db = Inr db'"
  shows "db' = db\<lparr>db_allocations := db_allocations db @ [new]\<rparr> \<and> allocation_checks new \<and>
    \<not> has_key allocation_key (db_allocations db) (allocation_key new)"
  using assms by (auto simp: insert_allocation_def split: option.splits)

lemma store_allocation_cash:
  assumes "store_allocation now reference f full db = Inr (db', res)"
  shows "db_allocations db' = db_allocations db @ [new_allocation f] \<and> allocation_checks (new_allocation f) \<and>
    \<not> has_key allocation_key (db_allocations db) (allocation_key (new_allocation f)) \<and>
    db_cash_receipts db' = (if full then update_where (\<lambda>r. cr_id r = af_receipt_id f) (\<lambda>r. r\<lparr>cr_state := CS_ALLOCATED\<rparr>) (db_cash_receipts db)
      else db_cash_receipts db)"
proof -
  obtain db1 where i: "insert_allocation (new_allocation f) db = Inr db1" and s: "same_cash (if full then mark_allocated (af_receipt_id f) db1 else db1) db'"
    using assms unfolding store_allocation_def Let_def by (auto simp: then_do_eq_Inr case_prod_beta dest!: emit_cash)
  with insert_allocation_cash [OF i] show ?thesis by (auto simp: same_cash_def mark_allocated_def split: if_splits)
qed

lemma record_allocation_cash:
  assumes "record_confirmed_allocation uid now reference reader db = Inr (db', res)"
  shows "same_cash db db' \<or> (\<exists>f receipt. List.find (\<lambda>r. cr_id r = af_receipt_id f) (db_cash_receipts db) = Some receipt \<and>
    allocated_of (cr_id receipt) (db_allocations db) + af_received f \<le> cr_amount receipt \<and>
    store_allocation now reference f (allocated_of (cr_id receipt) (db_allocations db) + af_received f = cr_amount receipt) db = Inr (db', res))"
proof (cases "same_cash db db'")
  case False
  have same: "same_cash db db" by (simp add: same_cash_def)
  then obtain f receipt where r: "List.find (\<lambda>r. cr_id r = af_receipt_id f) (db_cash_receipts db) = Some receipt"
    and a: "allocate_receipt uid now reference f receipt db = Inr (db', res)"
    using assms False unfolding record_confirmed_allocation_def Let_def
    by (auto simp: then_do_eq_Inr split: option.splits if_splits dest: block_cash)
  have "allocated_of (cr_id receipt) (db_allocations db) + af_received f \<le> cr_amount receipt"
    "store_allocation now reference f (allocated_of (cr_id receipt) (db_allocations db) + af_received f = cr_amount receipt) db = Inr (db', res)"
    using a False same unfolding allocate_receipt_def Let_def
    by (auto split: option.splits if_splits dest: block_cash)
  with r show ?thesis by blast
qed simp

lemma allocated_of_append: "allocated_of rid (xs @ [a]) = allocated_of rid xs + (if aw_receipt_id a = rid then aw_received a else 0)"
  by (simp add: allocated_of_def)

lemma allocated_of_none: "\<forall>a \<in> set xs. aw_receipt_id a \<noteq> rid \<Longrightarrow> allocated_of rid xs = 0"
  by (induction xs) (auto simp: allocated_of_def)

lemma has_key_map: "has_key key rows k \<longleftrightarrow> k \<in> set (map key rows)"
  by (auto simp: has_key_def)

lemma receipt_inv:
  assumes "cash_inv db" and "db_allocations db' = db_allocations db" and "db_cash_receipts db' = db_cash_receipts db @ [row]"
    and "0 < cr_amount row" and "cr_state row = CS_DESTINATION_RECEIVED"
    and "\<not> has_key cr_id (db_cash_receipts db) (cr_id row)" and "\<not> has_key receipt_key (db_cash_receipts db) (receipt_key row)"
  shows "cash_inv db'"
proof -
  have "allocated_of (cr_id row) (db_allocations db) = 0"
    using assms(1,6) by (intro allocated_of_none) (auto simp: cash_inv_def)
  with assms show ?thesis unfolding cash_inv_def by (auto simp: unique_on_append has_key_def)
qed

lemma allocation_inv:
  assumes inv: "cash_inv db" and find: "List.find (\<lambda>r. cr_id r = af_receipt_id f) (db_cash_receipts db) = Some receipt"
    and le: "allocated_of (cr_id receipt) (db_allocations db) + af_received f \<le> cr_amount receipt"
    and store: "store_allocation now reference f (allocated_of (cr_id receipt) (db_allocations db) + af_received f = cr_amount receipt) db = Inr (db', res)"
  shows "cash_inv db'"
proof -
  let ?full = "allocated_of (cr_id receipt) (db_allocations db) + af_received f = cr_amount receipt"
  have rid: "cr_id receipt = af_receipt_id f" "receipt \<in> set (db_cash_receipts db)" using find_Some_iff [OF find] by auto
  note s = store_allocation_cash [OF store]
  have only: "r = receipt" if "r \<in> set (db_cash_receipts db)" "cr_id r = af_receipt_id f" for r
    using find_unique [OF _ that(1), of cr_id] inv that(2) find by (auto simp: cash_inv_def)
  have pos: "0 < af_received f" using s by (simp add: allocation_checks_def new_allocation_def)
  have sum: "allocated_of rid (db_allocations db') = allocated_of rid (db_allocations db) + (if rid = af_receipt_id f then af_received f else 0)" for rid
    using s by (simp add: allocated_of_append new_allocation_def)
  have keys: "map cr_id (db_cash_receipts db') = map cr_id (db_cash_receipts db)" "map receipt_key (db_cash_receipts db') = map receipt_key (db_cash_receipts db)"
    using s by (auto simp: update_where_def receipt_key_def)
  have rows: "\<exists>q \<in> set (db_cash_receipts db). cr_id r = cr_id q \<and> cr_amount r = cr_amount q \<and>
      (if ?full \<and> cr_id q = af_receipt_id f then cr_state r = CS_ALLOCATED else cr_state r = cr_state q)" if "r \<in> set (db_cash_receipts db')" for r
  proof (cases ?full)
    case True
    with s that have "r \<in> set (update_where (\<lambda>r. cr_id r = af_receipt_id f) (\<lambda>r. r\<lparr>cr_state := CS_ALLOCATED\<rparr>) (db_cash_receipts db))"
      by simp
    then obtain q where "q \<in> set (db_cash_receipts db)" "r = (if cr_id q = af_receipt_id f then q\<lparr>cr_state := CS_ALLOCATED\<rparr> else q)"
      unfolding in_update_where by blast
    with True show ?thesis by (intro bexI [of _ q]) auto
  next
    case False
    with s that show ?thesis by auto
  qed
  have "0 < cr_amount r \<and> allocated_of (cr_id r) (db_allocations db') \<le> cr_amount r \<and>
      (cr_state r = CS_ALLOCATED \<longleftrightarrow> allocated_of (cr_id r) (db_allocations db') = cr_amount r)" if r: "r \<in> set (db_cash_receipts db')" for r
  proof -
    obtain q where q: "q \<in> set (db_cash_receipts db)" "cr_id r = cr_id q" "cr_amount r = cr_amount q"
      "if ?full \<and> cr_id q = af_receipt_id f then cr_state r = CS_ALLOCATED else cr_state r = cr_state q" using rows [OF r] by blast
    have iq: "0 < cr_amount q" "allocated_of (cr_id q) (db_allocations db) \<le> cr_amount q"
      "cr_state q = CS_ALLOCATED \<longleftrightarrow> allocated_of (cr_id q) (db_allocations db) = cr_amount q" using inv q(1) by (auto simp: cash_inv_def)
    show ?thesis
    proof (cases "cr_id q = af_receipt_id f")
      case True
      then have "q = receipt" by (rule only [OF q(1)])
      with True q iq le pos rid show ?thesis by (auto simp: sum split: if_splits)
    next
      case False
      with q iq show ?thesis by (auto simp: sum)
    qed
  qed
  moreover have "has_key cr_id (db_cash_receipts db') rid = has_key cr_id (db_cash_receipts db) rid" for rid
    by (simp only: has_key_map keys(1))
  ultimately show ?thesis using inv s keys rid
    by (auto simp: cash_inv_def unique_on_def has_key_def new_allocation_def allocation_key_def)
qed

lemma cash_step_inv: "cash_step db db' \<Longrightarrow> cash_inv db \<Longrightarrow> cash_inv db'"
proof (induction rule: cash_step.induct)
  case (receipt uid now reference route reader db db' res)
  from record_receipt_cash [OF receipt(1)] show ?case
  proof
    assume "same_cash db db'"
    with receipt(2) show ?thesis by (simp add: same_cash_def cash_inv_def)
  next
    assume "\<exists>f t. db_allocations db' = db_allocations db \<and> db_cash_receipts db' = db_cash_receipts db @ [new_cash_receipt f route t] \<and>
      cash_receipt_checks (new_cash_receipt f route t) \<and> \<not> has_key cr_id (db_cash_receipts db) (cr_id (new_cash_receipt f route t)) \<and>
      \<not> has_key receipt_key (db_cash_receipts db) (receipt_key (new_cash_receipt f route t))"
    then obtain f t where n: "db_allocations db' = db_allocations db" "db_cash_receipts db' = db_cash_receipts db @ [new_cash_receipt f route t]"
      "cash_receipt_checks (new_cash_receipt f route t)" "\<not> has_key cr_id (db_cash_receipts db) (cr_id (new_cash_receipt f route t))"
      "\<not> has_key receipt_key (db_cash_receipts db) (receipt_key (new_cash_receipt f route t))" by blast
    from n(3) have "0 < cr_amount (new_cash_receipt f route t)" by (simp add: cash_receipt_checks_def)
    with receipt_inv [OF receipt(2) n(1,2) _ _ n(4,5)] show ?thesis by (simp add: new_cash_receipt_def)
  qed
next
  case (allocate uid now reference reader db db' res)
  from record_allocation_cash [OF allocate(1)] allocate(2) show ?case
    by (auto simp: same_cash_def intro: allocation_inv) (simp add: cash_inv_def)
next
  case (other db db')
  then show ?case by (simp add: same_cash_def cash_inv_def)
qed

definition cash_start :: "cash_db \<Rightarrow> bool" where
  "cash_start db \<longleftrightarrow> db_cash_receipts db = [] \<and> db_allocations db = []"

interpretation cash: inv_machine cash_start cash_step cash_inv
  by unfold_locales (simp add: cash_start_def cash_inv_def unique_on_def, rule cash_step_inv)

text \<open>C6: destination cash is never allocated beyond what was received. In every state that recording receipts and
  allocations reaches from empty tables, whatever the chain reader reports, no two receipts stand for the same
  log of the chain, the allocations of a receipt sum to at most its amount, the receipt is marked allocated exactly
  when they sum to it, and every allocation splits exactly into fee, interest, principal and excess.\<close>

theorem cash_never_over_allocated:
  assumes "cash_start db0" and "cash_step\<^sup>*\<^sup>* db0 db"
  shows "unique_on receipt_key (db_cash_receipts db) \<and>
    (\<forall>r \<in> set (db_cash_receipts db). allocated_of (cr_id r) (db_allocations db) \<le> cr_amount r \<and>
       (cr_state r = CS_ALLOCATED \<longleftrightarrow> allocated_of (cr_id r) (db_allocations db) = cr_amount r)) \<and>
    (\<forall>a \<in> set (db_allocations db). 0 < aw_received a \<and> aw_fee_paid a + aw_interest_paid a + aw_principal_paid a + aw_excess a = aw_received a)"
  using cash.reachable_inv [OF assms] by (auto simp: cash_inv_def allocation_checks_def)

section \<open>Retries\<close>

text \<open>Mirroring a repayment again changes nothing. When \<open>record_confirmed_allocation\<close> created an allocation, calling it
  again with the same reference and reader, at any later time, returns the same allocation as a duplicate and leaves
  the database as it was.\<close>

theorem allocation_retry_is_idempotent:
  assumes "record_confirmed_allocation uid now reference reader db = Inr (db', res)" and "re_created res"
  shows "record_confirmed_allocation uid' now' reference reader db' =
    Inr (db', \<lparr>re_entity_id = re_entity_id res, re_created = False, re_reason = Some ''DUPLICATE_ALLOCATION''\<rparr>)"
proof -
  have nb: "block uid now code table entity db \<noteq> Inr (db', res)" for code table entity
    using assms(2) by (auto simp: block_def then_do_eq_Inr no_result_def)
  obtain rd f receipt fac where rd: "reader = Some rd" "rd_allocation rd reference = Some f" "check_allocation_fact f = Inr ()"
    and r: "List.find (\<lambda>r. cr_id r = af_receipt_id f) (db_cash_receipts db) = Some receipt"
    and fac: "List.find (\<lambda>x. fa_id x = af_facility_id f) (db_facilities db) = Some fac"
    and c: "af_canonical f" "af_status f = 1" "af_finalized f" "\<not> route_mismatch f receipt (Some fac)" "fa_profile fac = cr_profile receipt"
      "af_profile f = cr_profile receipt" "cr_state receipt \<noteq> CS_RETURNED" "cr_source_kind receipt \<noteq> ''UNKNOWN''"
      "\<not> cash_quarantined (cr_id receipt) db" "other_borrower receipt fac db = Inr False"
    and a: "allocate_receipt uid now reference f receipt db = Inr (db', res)"
    using assms nb unfolding record_confirmed_allocation_def Let_def
    by (auto simp: then_do_eq_Inr no_result_def route_mismatch_def split: option.splits if_splits)
  have none: "List.find (\<lambda>a. allocation_key a = (af_receipt_id f, af_facility_id f)) (db_allocations db) = None"
    and store: "store_allocation now reference f (allocated_of (cr_id receipt) (db_allocations db) + af_received f = cr_amount receipt) db = Inr (db', res)"
    using a nb assms(2) unfolding allocate_receipt_def Let_def by (auto split: option.splits if_splits)
  note s = store_allocation_cash [OF store]
  have keep: "db_facilities db' = db_facilities db" "db_exceptions db' = db_exceptions db" "db_settlements db' = db_settlements db"
    "db_accounts db' = db_accounts db" "re_entity_id res = Some (af_allocation_id f)"
    using store unfolding store_allocation_def insert_allocation_def
    by (auto simp: then_do_eq_Inr emit_def mark_allocated_def Let_def split: option.splits if_splits)
  obtain r' where r': "List.find (\<lambda>r. cr_id r = af_receipt_id f) (db_cash_receipts db') = Some r'" "r' = receipt \<or> r' = receipt\<lparr>cr_state := CS_ALLOCATED\<rparr>"
    using s r find_update [where p = "\<lambda>r. cr_id r = af_receipt_id f" and f = "\<lambda>r. r\<lparr>cr_state := CS_ALLOCATED\<rparr>" and rows = "db_cash_receipts db"]
    by (auto split: if_splits)
  have new: "List.find (\<lambda>a. allocation_key a = (af_receipt_id f, af_facility_id f)) (db_allocations db') = Some (new_allocation f)"
    using s none by (simp add: find_append new_allocation_def allocation_key_def)
  have dup: "allocate_receipt uid' now' reference f r' db' =
      Inr (db', \<lparr>re_entity_id = re_entity_id res, re_created = False, re_reason = Some ''DUPLICATE_ALLOCATION''\<rparr>)"
    unfolding allocate_receipt_def new using keep(5) by (simp add: same_allocation_def new_allocation_def)
  have ob: "other_borrower r' fac db' = other_borrower receipt fac db" using r'(2) unfolding other_borrower_def keep by auto
  from r'(2) have "\<not> route_mismatch f r' (Some fac)" "fa_profile fac = cr_profile r'" "af_profile f = cr_profile r'"
    "cr_state r' \<noteq> CS_RETURNED" "cr_source_kind r' \<noteq> ''UNKNOWN''" "\<not> cash_quarantined (cr_id r') db'" "other_borrower r' fac db' = Inr False"
    using c keep unfolding ob by (auto simp: route_mismatch_def cash_quarantined_def)
  with rd r' keep fac c dup show ?thesis by (simp add: record_confirmed_allocation_def)
qed

section \<open>A receipt and its allocation\<close>

definition sample_asset :: asset_ref where
  "sample_asset = \<lparr>as_chain_id = 102031, as_address = Some (''0x'' @ replicate 40 CHR ''a''), as_symbol = ''mUSDT'', as_decimals = 6\<rparr>"

definition sample_route :: destination_route where
  "sample_route = \<lparr>dr_vault_id = ''v1'', dr_receiver = ''0x'' @ replicate 40 CHR ''b'', dr_asset = sample_asset, dr_profile = EP_NATIVE_TESTNET\<rparr>"

definition sample_reader :: cash_reader where
  "sample_reader = \<lparr>
    rd_receipt = \<lambda>_. Some \<lparr>rf_receipt_id = replicate 26 CHR ''1'', rf_asset = sample_asset, rf_amount = 3600, rf_tx_hash = ''0x'' @ replicate 64 CHR ''c'',
      rf_log_index = 0, rf_block_hash = ''0x'' @ replicate 64 CHR ''d'', rf_block_number = 9, rf_payer = Some (''0x'' @ replicate 40 CHR ''e''),
      rf_payee = ''0x'' @ replicate 40 CHR ''b'', rf_source_kind = ''DIRECT_REPAYMENT'', rf_profile = EP_NATIVE_TESTNET, rf_received_at = Aware 5,
      rf_canonical = True, rf_finalized = True, rf_status = 1, rf_settlement_id = None\<rparr>,
    rd_allocation = \<lambda>_. Some \<lparr>af_allocation_id = replicate 26 CHR ''2'', af_receipt_id = replicate 26 CHR ''1'', af_facility_id = ''F1'', af_received = 3600,
      af_fee_paid = 100, af_interest_paid = 500, af_principal_paid = 3000, af_excess = 0, af_new_debt = 1400, af_tx_hash = ''0x'' @ replicate 64 CHR ''f'',
      af_chain_id = 102031, af_profile = EP_NATIVE_TESTNET, af_canonical = True, af_finalized = True, af_status = 1\<rparr>\<rparr>"

definition sample_cash_db :: cash_db where
  "sample_cash_db = rcv_db.extend empty_rcv_db \<lparr>db_settlements = [], db_cash_receipts = [], db_allocations = []\<rparr>
     \<lparr>db_facilities := [\<lparr>fa_id = ''F1'', fa_borrower_id = ''B1'', fa_policy_id = ''P1'', fa_profile = EP_NATIVE_TESTNET, fa_maturity_at = None,
        fa_control_id = None, fa_funded_version = None, fa_vault_id = ''v1'', fa_loan_chain_id = 102031,
        fa_loan_token = Some (''0x'' @ replicate 40 CHR ''a''), fa_loan_decimals = 6\<rparr>]\<rparr>"

definition sample_received :: "app_error + cash_db \<times> reconciliation_result" where
  "sample_received = record_destination_receipt (\<lambda>_. ''X'') 7 ''ref'' sample_route (Some sample_reader) sample_cash_db"

definition sample_allocated :: "app_error + cash_db \<times> reconciliation_result" where
  "sample_allocated = then_do sample_received (\<lambda>(db, _). record_confirmed_allocation (\<lambda>_. ''X'') 8 ''ref'' (Some sample_reader) db)"

lemma sample_hex [simp]:
  "is_hex_low c \<Longrightarrow> is_hex32 (CHR ''0'' # CHR ''x'' # replicate 64 c)" "is_hex_low c \<Longrightarrow> is_addr (CHR ''0'' # CHR ''x'' # replicate 40 c)"
  "c \<in> set CROCKFORD \<Longrightarrow> is_ulid (replicate 26 c)"
  by (simp_all only: is_hex32_def is_addr_def is_ulid_def list_all_iff) simp_all

lemma sample_chars [simp]:
  "is_hex_low CHR ''a''" "is_hex_low CHR ''b''" "is_hex_low CHR ''c''" "is_hex_low CHR ''d''" "is_hex_low CHR ''e''" "is_hex_low CHR ''f''"
  "CHR ''1'' \<in> set CROCKFORD" "CHR ''2'' \<in> set CROCKFORD"
  by code_simp+

lemmas sample_defs = sample_reader_def sample_route_def sample_asset_def no_result_def exact_units_def asset_key_def effective_kind_def
  CASH_SOURCE_KINDS_def new_cash_receipt_def receipt_key_def

lemma sample_received_ok:
  "\<exists>db. sample_received = Inr (db, \<lparr>re_entity_id = Some (replicate 26 CHR ''1''), re_created = True, re_reason = None\<rparr>) \<and>
     db_cash_receipts db = [new_cash_receipt (the (rd_receipt sample_reader ''ref'')) sample_route 5] \<and> db_allocations db = [] \<and>
     db_facilities db = db_facilities sample_cash_db \<and> db_exceptions db = [] \<and> db_settlements db = []"
  by (simp add: sample_received_def record_destination_receipt_def store_receipt_def insert_cash_receipt_def cash_receipt_checks_def
      check_receipt_fact_def emit_def receipt_event_key_def has_key_def sample_defs sample_cash_db_def empty_rcv_db_def empty_proof_db_def
      rcv_db.defs proof_db.defs core_db.defs Let_def ensure_def)

lemma sample_allocated_ok:
  "\<exists>db1 db2 res. sample_received = Inr (db1, \<lparr>re_entity_id = Some (replicate 26 CHR ''1''), re_created = True, re_reason = None\<rparr>) \<and>
     record_confirmed_allocation (\<lambda>_. ''X'') 8 ''ref'' (Some sample_reader) db1 = Inr (db2, res) \<and> re_created res \<and>
     map cr_state (db_cash_receipts db2) = [CS_ALLOCATED] \<and> map cr_id (db_cash_receipts db2) = [replicate 26 CHR ''1''] \<and>
     map cr_amount (db_cash_receipts db2) = [3600]"
proof -
  obtain db1 where r: "sample_received = Inr (db1, \<lparr>re_entity_id = Some (replicate 26 CHR ''1''), re_created = True, re_reason = None\<rparr>)"
    and t: "db_cash_receipts db1 = [new_cash_receipt (the (rd_receipt sample_reader ''ref'')) sample_route 5]" "db_allocations db1 = []"
      "db_facilities db1 = db_facilities sample_cash_db" "db_exceptions db1 = []" "db_settlements db1 = []"
    using sample_received_ok by blast
  have "\<exists>db2 res. record_confirmed_allocation (\<lambda>_. ''X'') 8 ''ref'' (Some sample_reader) db1 = Inr (db2, res) \<and> re_created res \<and>
     map cr_state (db_cash_receipts db2) = [CS_ALLOCATED] \<and> map cr_id (db_cash_receipts db2) = [replicate 26 CHR ''1''] \<and>
     map cr_amount (db_cash_receipts db2) = [3600]"
    by (simp add: record_confirmed_allocation_def check_allocation_fact_def allocate_receipt_def store_allocation_def insert_allocation_def
      hcg_allocations_within_receipt_def allocation_checks_def new_allocation_def allocated_of_def mark_allocated_def update_where_def emit_def
      route_mismatch_def cash_quarantined_def other_borrower_def t sample_defs sample_cash_db_def has_key_def Let_def ensure_def)
  then obtain db2 res where "record_confirmed_allocation (\<lambda>_. ''X'') 8 ''ref'' (Some sample_reader) db1 = Inr (db2, res)" "re_created res"
     "map cr_state (db_cash_receipts db2) = [CS_ALLOCATED]" "map cr_id (db_cash_receipts db2) = [replicate 26 CHR ''1'']"
     "map cr_amount (db_cash_receipts db2) = [3600]"
    by (elim exE conjE) (rule that)
  with r show ?thesis by (intro exI conjI)
qed

theorem cash_never_over_allocated_witness:
  "\<exists>db. cash_step\<^sup>*\<^sup>* sample_cash_db db \<and> map cr_state (db_cash_receipts db) = [CS_ALLOCATED] \<and>
     allocated_of (replicate 26 CHR ''1'') (db_allocations db) = 3600"
proof -
  obtain db1 db2 res where s: "sample_received = Inr (db1, \<lparr>re_entity_id = Some (replicate 26 CHR ''1''), re_created = True, re_reason = None\<rparr>)"
    "record_confirmed_allocation (\<lambda>_. ''X'') 8 ''ref'' (Some sample_reader) db1 = Inr (db2, res)"
    and rows: "map cr_state (db_cash_receipts db2) = [CS_ALLOCATED]" "map cr_id (db_cash_receipts db2) = [replicate 26 CHR ''1'']"
      "map cr_amount (db_cash_receipts db2) = [3600]"
    using sample_allocated_ok by (elim exE conjE) (rule that)
  have run: "cash_step\<^sup>*\<^sup>* sample_cash_db db2"
    using receipt [OF s(1) [unfolded sample_received_def]] allocate [OF s(2)] by (meson converse_rtranclp_into_rtranclp r_into_rtranclp)
  have start: "cash_start sample_cash_db" by (simp add: cash_start_def sample_cash_db_def rcv_db.defs)
  obtain r where r: "db_cash_receipts db2 = [r]" "cr_state r = CS_ALLOCATED" "cr_id r = replicate 26 CHR ''1''" "cr_amount r = 3600"
    using rows by (auto simp: map_eq_Cons_conv)
  then have "allocated_of (cr_id r) (db_allocations db2) = cr_amount r"
    using cash_never_over_allocated [OF start run] by simp
  with r run rows show ?thesis by metis
qed

theorem allocation_retry_is_idempotent_witness:
  "\<exists>db id. record_confirmed_allocation (\<lambda>_. ''Y'') 99 ''ref'' (Some sample_reader) db =
     Inr (db, \<lparr>re_entity_id = id, re_created = False, re_reason = Some ''DUPLICATE_ALLOCATION''\<rparr>)"
proof -
  obtain db1 db2 res where "record_confirmed_allocation (\<lambda>_. ''X'') 8 ''ref'' (Some sample_reader) db1 = Inr (db2, res)" "re_created res"
    using sample_allocated_ok by (elim exE conjE) (rule that)
  from allocation_retry_is_idempotent [OF this] show ?thesis by (intro exI)
qed

end
