(* ===== verification/Settlement_Legs.thy ===== *)
theory Settlement_Legs
  imports Cash_Engine Job_Queue
begin

text \<open>
  Settlement legs (\<open>settlement/legs.py\<close>): planning a transfer of settlement cash over a rail, sending it, and
  turning the destination receipt and its allocation into events. The rail adapter and the reader of the
  destination chain are arguments; whatever they answer, or raise, is a value. The handler runs in the job's
  transaction, which a raise rolls back, and commits the acknowledgement and the measured receipt in
  transactions of its own, so it returns what is committed next to its outcome.
\<close>

section \<open>Bindings, quotes and observations\<close>

record rail_binding =
  rb_rail_id :: string
  rb_profile :: execution_profile
  rb_status :: string
  rb_partner_binding :: string
  rb_source_asset :: asset_ref
  rb_destination_asset :: asset_ref
  rb_destination_receiver :: string
  rb_vault_id :: string
  rb_source_cap :: int
  rb_max_fee_destination :: int
  rb_max_slippage_bps :: int
  rb_approval_ref :: string
  rb_refund_address :: string

record quote =
  qt_leg_id :: string
  qt_settlement_id :: string
  qt_rail_id :: string
  qt_source_amount :: int
  qt_expected_destination :: int
  qt_minimum_destination :: int
  qt_fee_destination :: int
  qt_expires_at :: int
  qt_destination_receiver :: string
  qt_refund_address :: string

record leg_observation =
  lo_state :: string
  lo_reference :: string
  lo_receipt_reference :: "string option"

record settlement_adapter =
  sa_is_mock :: bool
  sa_idempotent_requests :: bool
  sa_lookup :: "string \<Rightarrow> app_error + string option"
  sa_send :: "quote \<Rightarrow> string \<Rightarrow> app_error + string"
  sa_observe :: "string \<Rightarrow> app_error + leg_observation"

definition validate_quote :: "quote \<Rightarrow> rail_binding \<Rightarrow> int \<Rightarrow> app_error + unit" where
  "validate_quote q b now =
    ensure (rb_approval_ref b \<noteq> [] \<and> rb_status b \<in> {''APPROVED'', ''TEST_ONLY''}) (ValueError ''settlement rail is not approved'')
    (ensure (\<not> (rb_profile b = EP_PRODUCTION \<and> (rb_status b \<noteq> ''APPROVED'' \<or> rb_partner_binding b \<noteq> ''LIVE_VERIFIED'')))
      (ValueError ''production settlement requires a verified live rail'')
    (ensure (qt_rail_id q = rb_rail_id b \<and> qt_destination_receiver q = rb_destination_receiver b \<and> qt_refund_address q = rb_refund_address b)
      (ValueError ''quote destination/refund route mismatch'')
    (ensure (list_all (\<lambda>v. 0 \<le> v) [qt_source_amount q, qt_expected_destination q, qt_minimum_destination q, qt_fee_destination q, qt_expires_at q])
      (ValueError ''quote uses nonnegative exact integer units'')
    (ensure (0 \<le> rb_max_slippage_bps b \<and> rb_max_slippage_bps b \<le> 10000 \<and> now < qt_expires_at q)
      (ValueError ''expired quote or invalid slippage policy'')
    (ensure (0 < qt_source_amount q \<and> qt_source_amount q \<le> rb_source_cap b) (ValueError ''source leg cap exceeded'')
    (ensure (qt_fee_destination q \<le> rb_max_fee_destination b) (ValueError ''settlement fee cap exceeded'')
    (ensure (0 < qt_minimum_destination q \<and> qt_minimum_destination q \<le> qt_expected_destination q)
      (ValueError ''invalid minimum destination amount'')
    (ensure (qt_expected_destination q * (10000 - rb_max_slippage_bps b) \<le> qt_minimum_destination q * 10000)
      (ValueError ''minimum destination violates slippage bound'')
      (Inr ())))))))))"

section \<open>Payloads\<close>

definition quote_json :: "quote \<Rightarrow> json" where
  "quote_json q = JObj [(''leg_id'', JStr (qt_leg_id q)), (''settlement_id'', JStr (qt_settlement_id q)), (''rail_id'', JStr (qt_rail_id q)),
     (''source_amount'', JInt (qt_source_amount q)), (''expected_destination'', JInt (qt_expected_destination q)),
     (''minimum_destination'', JInt (qt_minimum_destination q)), (''fee_destination'', JInt (qt_fee_destination q)),
     (''expires_at'', JInt (qt_expires_at q)), (''destination_receiver'', JStr (qt_destination_receiver q)),
     (''refund_address'', JStr (qt_refund_address q))]"

definition payload_str :: "json \<Rightarrow> string \<Rightarrow> app_error + string" where
  "payload_str j k = (case json_get j k of Some (JStr s) \<Rightarrow> Inr s | _ \<Rightarrow> Inl (OtherError (''KeyError: '' @ k)))"

definition payload_int :: "json \<Rightarrow> string \<Rightarrow> app_error + int" where
  "payload_int j k = (case json_get j k of
     Some (JInt i) \<Rightarrow> Inr i
   | Some (JStr s) \<Rightarrow> (case int_of_str s of None \<Rightarrow> Inl (ValueError ''int'') | Some i \<Rightarrow> Inr i)
   | _ \<Rightarrow> Inl (OtherError (''KeyError: '' @ k)))"

text \<open>\<open>Quote(**job.payload)\<close>: exactly the ten fields, each of its type; anything else is a \<open>TypeError\<close>.\<close>

definition str_field :: "json \<Rightarrow> string \<Rightarrow> app_error + string" where
  "str_field j k = (case json_get j k of Some (JStr s) \<Rightarrow> Inr s | _ \<Rightarrow> Inl (OtherError ''TypeError''))"

definition int_field :: "json \<Rightarrow> string \<Rightarrow> app_error + int" where
  "int_field j k = (case json_get j k of Some (JInt i) \<Rightarrow> Inr i | _ \<Rightarrow> Inl (OtherError ''TypeError''))"

definition quote_of_payload :: "json \<Rightarrow> app_error + quote" where
  "quote_of_payload j =
    ensure (case j of JObj kvs \<Rightarrow> length kvs = 10 | _ \<Rightarrow> False) (OtherError ''TypeError'')
    (then_do (str_field j ''leg_id'') (\<lambda>leg.
     then_do (str_field j ''settlement_id'') (\<lambda>settlement.
     then_do (str_field j ''rail_id'') (\<lambda>rail.
     then_do (int_field j ''source_amount'') (\<lambda>src.
     then_do (int_field j ''expected_destination'') (\<lambda>expected.
     then_do (int_field j ''minimum_destination'') (\<lambda>minimum.
     then_do (int_field j ''fee_destination'') (\<lambda>fee.
     then_do (int_field j ''expires_at'') (\<lambda>expires.
     then_do (str_field j ''destination_receiver'') (\<lambda>receiver.
     then_do (str_field j ''refund_address'') (\<lambda>refund.
       Inr \<lparr>qt_leg_id = leg, qt_settlement_id = settlement, qt_rail_id = rail, qt_source_amount = src, qt_expected_destination = expected,
         qt_minimum_destination = minimum, qt_fee_destination = fee, qt_expires_at = expires, qt_destination_receiver = receiver,
         qt_refund_address = refund\<rparr>)))))))))))"

section \<open>Planning a leg\<close>

definition settlement_of_quote :: "quote \<Rightarrow> cash_db \<Rightarrow> settlement_row option" where
  "settlement_of_quote q db = List.find (\<lambda>s. se_id s = qt_settlement_id q) (db_settlements db)"

definition payout_evidence :: "settlement_row \<Rightarrow> cash_db \<Rightarrow> evidence_consumption option" where
  "payout_evidence s db =
    (if se_consumption_id s = Some [] then None else find_opt ec_id (db_consumptions db) (se_consumption_id s))"

definition payout_verification :: "evidence_consumption \<Rightarrow> cash_db \<Rightarrow> native_verification option" where
  "payout_verification e db = List.find (\<lambda>v. nv_id v = ec_verification_id e) (db_verifications db)"

text \<open>The source settlement is paid, of the rail's profile and asset, and backed by an accepted native payout proof.\<close>

definition settlement_backed :: "rail_binding \<Rightarrow> settlement_row \<Rightarrow> cash_db \<Rightarrow> bool" where
  "settlement_backed b s db \<longleftrightarrow>
     se_profile s = rb_profile b \<and> se_state s \<notin> {SS_ANNOUNCED, SS_REVERSED} \<and>
     (se_chain_id s, (case se_token s of None \<Rightarrow> [] | Some t \<Rightarrow> t), se_decimals s) = asset_key (rb_source_asset b) \<and>
     (case payout_evidence s db of None \<Rightarrow> False
      | Some e \<Rightarrow> ec_meaning e = EM_PAYOUT \<and> ec_trust e = TR_PROVEN \<and> ec_provider_account_id e = se_account_id s \<and>
          (case payout_verification e db of None \<Rightarrow> False | Some v \<Rightarrow> nv_status v = VS_ACCEPTED) \<and>
          (rb_profile b \<noteq> EP_LOCAL_MOCK \<longrightarrow> ec_method e = VM_ATTESTCOIN_NATIVE))"

definition leg_key :: "string \<Rightarrow> rail_binding \<Rightarrow> quote \<Rightarrow> string" where
  "leg_key what b q = what @ '':'' @ rb_rail_id b @ '':'' @ qt_leg_id q"

definition planned_row :: "string \<Rightarrow> outbox_row \<Rightarrow> bool" where
  "planned_row sid r \<longleftrightarrow> o_aggregate_type r = ''settlement'' \<and> o_aggregate_id r = sid \<and> o_event_type r = ''SETTLEMENT_LEG_PLANNED''"

fun sum_payloads :: "outbox_row list \<Rightarrow> app_error + int" where
  "sum_payloads [] = Inr 0"
| "sum_payloads (r # rs) =
     then_do (payload_int (o_payload r) ''source_amount'') (\<lambda>i. then_do (sum_payloads rs) (\<lambda>n. Inr (i + n)))"

definition reserved :: "string \<Rightarrow> outbox_row list \<Rightarrow> app_error + int" where
  "reserved sid rows = sum_payloads (filter (planned_row sid) rows)"

definition plan_leg :: "int \<Rightarrow> rail_binding \<Rightarrow> settlement_row \<Rightarrow> quote \<Rightarrow> cash_db \<Rightarrow> app_error + cash_db" where
  "plan_leg now b s q db =
    (case List.find (\<lambda>r. o_key r = leg_key ''settlement-plan'' b q) (db_outbox db) of
       Some prior \<Rightarrow> ensure (o_payload prior = quote_json q) (ValueError ''legId already bound to another quote'') (Inr db)
     | None \<Rightarrow>
        then_do (reserved (qt_settlement_id q) (db_outbox db)) (\<lambda>n.
        ensure (n + qt_source_amount q \<le> se_source_amount s) (ValueError ''settlement legs exceed source receipt'')
        (then_do (emit now ''settlement'' (qt_settlement_id q) ''SETTLEMENT_LEG_PLANNED'' (quote_json q) (leg_key ''settlement-plan'' b q) db)
          (\<lambda>(db, _). Inr db))))"

definition enqueue_leg ::
  "hash_fun \<Rightarrow> int \<Rightarrow> string \<Rightarrow> rail_binding \<Rightarrow> settlement_adapter \<Rightarrow> quote \<Rightarrow> int \<Rightarrow> cash_db \<Rightarrow> app_error + (cash_db \<times> string)" where
  "enqueue_leg sha clock jid b ad q now db =
    then_do (validate_quote q b now) (\<lambda>_.
    ensure (\<not> (sa_is_mock ad \<and> rb_profile b = EP_PRODUCTION)) (ValueError ''mock settlement adapter cannot run in production'')
    (ensure (sa_idempotent_requests ad) (ValueError ''durable settlement requires an idempotent external interface'')
    (case settlement_of_quote q db of
       None \<Rightarrow> Inl (ValueError ''source settlement requires matching native payout evidence'')
     | Some s \<Rightarrow>
        ensure (settlement_backed b s db) (ValueError ''source settlement requires matching native payout evidence'')
        (then_do (plan_leg clock b s q db) (\<lambda>db.
          enqueue sha clock jid ''SETTLEMENT_LEG'' (quote_json q) (leg_key ''settlement-leg'' b q) 100 None db)))))"

section \<open>Handling a leg\<close>

text \<open>
  The rows that the job's transaction has inserted and not committed. After a commit of another transaction
  the view of the job's transaction is the committed state with these rows after it.
\<close>

record pending_rows =
  pd_jobs :: "job_row list"
  pd_outbox :: "outbox_row list"

definition no_pending :: pending_rows where
  "no_pending = \<lparr>pd_jobs = [], pd_outbox = []\<rparr>"

definition pending_of :: "cash_db \<Rightarrow> cash_db \<Rightarrow> pending_rows" where
  "pending_of db db' = \<lparr>pd_jobs = drop (length (db_jobs db)) (db_jobs db'), pd_outbox = drop (length (db_outbox db)) (db_outbox db')\<rparr>"

fun number_from :: "int \<Rightarrow> outbox_row list \<Rightarrow> outbox_row list" where
  "number_from n [] = []"
| "number_from n (r # rs) = r\<lparr>o_id := n\<rparr> # number_from (n + 1) rs"

definition overlay :: "pending_rows \<Rightarrow> cash_db \<Rightarrow> cash_db" where
  "overlay p db = db\<lparr>db_jobs := db_jobs db @ pd_jobs p,
     db_outbox := db_outbox db @ number_from (int (length (db_outbox db)) + 1) (pd_outbox p)\<rparr>"

fun as_terminal :: "app_error \<Rightarrow> app_error" where
  "as_terminal (ValueError m) = TerminalError m"
| "as_terminal e = e"

text \<open>The acknowledgement is committed on its own, before the outcome is known.\<close>

definition acknowledge ::
  "int \<Rightarrow> rail_binding \<Rightarrow> quote \<Rightarrow> string \<Rightarrow> pending_rows \<Rightarrow> cash_db \<Rightarrow> app_error + (string \<times> pending_rows \<times> cash_db)" where
  "acknowledge clock b q reference p db =
    ensure (reference \<noteq> []) (TransientError ''settlement submission outcome unknown'')
    (then_do (emit clock ''settlement'' (qt_settlement_id q) ''SETTLEMENT_LEG_ACKNOWLEDGED''
      (JObj [(''reference'', JStr reference), (''legId'', JStr (qt_leg_id q)), (''cashState'', JStr ''IN_FLIGHT''), (''debtApplied'', JBool False)])
      (leg_key ''settlement-ack'' b q) db) (\<lambda>(db, _). Inr (reference, p, db)))"

text \<open>What happened to \<open>send\<close>: not called, raised, or answered with a reference (which may be empty).\<close>

datatype send_call = Not_Sent | Send_Raised | Send_Answered string

text \<open>The reference of the leg.\<close>

definition leg_reference ::
  "hash_fun \<Rightarrow> int \<Rightarrow> string \<Rightarrow> rail_binding \<Rightarrow> settlement_adapter \<Rightarrow> quote \<Rightarrow> cash_db \<Rightarrow>
   send_call \<times> (app_error + (string \<times> pending_rows \<times> cash_db))" where
  "leg_reference sha clock jid b ad q db =
    (case List.find (\<lambda>r. o_key r = leg_key ''settlement-ack'' b q) (db_outbox db) of
       Some ack \<Rightarrow> (Not_Sent, then_do (payload_str (o_payload ack) ''reference'') (\<lambda>reference. Inr (reference, no_pending, db)))
     | None \<Rightarrow>
    (case sa_lookup ad (qt_leg_id q) of
       Inl e \<Rightarrow> (Not_Sent, Inl e)
     | Inr (Some reference) \<Rightarrow> (Not_Sent, acknowledge clock b q reference no_pending db)
     | Inr None \<Rightarrow>
    (case enqueue_leg sha clock jid b ad q (clock div 1000000) db of
       Inl e \<Rightarrow> (Not_Sent, Inl (as_terminal e))
     | Inr (db', _) \<Rightarrow>
    (case sa_send ad q (qt_leg_id q) of
       Inl e \<Rightarrow> (Send_Raised, Inl e)
     | Inr reference \<Rightarrow> (Send_Answered reference, acknowledge clock b q reference (pending_of db db') db)))))"

definition leg_route :: "rail_binding \<Rightarrow> destination_route" where
  "leg_route b = \<lparr>dr_vault_id = rb_vault_id b, dr_receiver = rb_destination_receiver b, dr_asset = rb_destination_asset b, dr_profile = rb_profile b\<rparr>"

text \<open>The transaction that records the measured receipt, and a breach of the quoted minimum.\<close>

definition receive_leg ::
  "(nat \<Rightarrow> string) \<Rightarrow> int \<Rightarrow> rail_binding \<Rightarrow> quote \<Rightarrow> cash_reader \<Rightarrow> string \<Rightarrow> receipt_fact \<Rightarrow> cash_db \<Rightarrow>
   app_error + (cash_db \<times> reconciliation_result)" where
  "receive_leg uid clock b q rd reference f db =
    then_do (record_destination_receipt uid clock reference (leg_route b) (Some rd) db) (\<lambda>(db, res).
    if re_entity_id res \<noteq> None \<and> rf_amount f < qt_minimum_destination q
    then then_do (open_exception uid clock ''SETTLEMENT_MINIMUM_BREACH'' ''settlements'' (qt_settlement_id q) (JObj []) db) (\<lambda>db.
         then_do (emit clock ''settlement'' (qt_settlement_id q) ''SETTLEMENT_LEG_SLIPPAGE_BREACH''
           (JObj [(''actualDestination'', JStr (str_int (rf_amount f))), (''minimumDestination'', JStr (str_int (qt_minimum_destination q))),
             (''requiresReview'', JBool True)])
           (leg_key ''settlement-slippage'' b q) db) (\<lambda>(db, _). Inr (db, res)))
    else Inr (db, res))"

definition reason_or :: "reconciliation_result \<Rightarrow> string \<Rightarrow> string" where
  "reason_or res alt = (case re_reason res of None \<Rightarrow> alt | Some m \<Rightarrow> if m = [] then alt else m)"

definition allocate_leg ::
  "(nat \<Rightarrow> string) \<Rightarrow> int \<Rightarrow> rail_binding \<Rightarrow> quote \<Rightarrow> cash_reader \<Rightarrow> string \<Rightarrow> string \<Rightarrow> cash_db \<Rightarrow> app_error + cash_db" where
  "allocate_leg uid clock b q rd reference receipt_reference db =
    then_do (record_confirmed_allocation uid clock receipt_reference (Some rd) db) (\<lambda>(db, res).
    (case re_entity_id res of
       None \<Rightarrow> Inl (TransientError (reason_or res ''destination allocation pending''))
     | Some aid \<Rightarrow>
        then_do (emit clock ''settlement'' (qt_settlement_id q) ''SETTLEMENT_LEG_ALLOCATED''
          (JObj [(''reference'', JStr reference), (''allocationId'', JStr aid), (''cashState'', JStr ''ALLOCATED'')])
          (leg_key ''settlement-allocated'' b q) db) (\<lambda>(db, _). Inr db)))"

definition refund_leg :: "int \<Rightarrow> rail_binding \<Rightarrow> quote \<Rightarrow> string \<Rightarrow> cash_db \<Rightarrow> app_error + cash_db" where
  "refund_leg clock b q reference db =
    then_do (emit clock ''settlement'' (qt_settlement_id q) ''SETTLEMENT_LEG_REFUNDED''
      (JObj [(''reference'', JStr reference), (''refundAddress'', JStr (qt_refund_address q)), (''debtApplied'', JBool False)])
      (leg_key ''settlement-refund'' b q) db) (\<lambda>(db, _). Inr db)"

text \<open>From the observation of the reference on: what is committed, and the outcome of the job's transaction.\<close>

definition conclude_leg ::
  "(nat \<Rightarrow> string) \<Rightarrow> int \<Rightarrow> rail_binding \<Rightarrow> settlement_adapter \<Rightarrow> cash_reader option \<Rightarrow> quote \<Rightarrow> string \<Rightarrow> pending_rows \<Rightarrow> cash_db \<Rightarrow>
   cash_db \<times> (app_error + cash_db)" where
  "conclude_leg uid clock b ad reader q reference p db =
    (case sa_observe ad reference of
       Inl e \<Rightarrow> (db, Inl e)
     | Inr obs \<Rightarrow>
        if lo_reference obs \<noteq> reference then (db, Inl (TerminalError ''settlement observation reference mismatch''))
        else if lo_state obs \<in> {''PENDING'', ''SOURCE_SENT'', ''IN_FLIGHT''}
        then (db, Inl (TransientError ''destination receipt pending; source send is not repayment''))
        else if lo_state obs = ''REFUNDED'' then (db, refund_leg clock b q reference (overlay p db))
        else (case (if lo_state obs \<noteq> ''DESTINATION_RECEIVED'' then None else lo_receipt_reference obs) of
            None \<Rightarrow> (db, Inl (TransientError ''settlement outcome unresolved''))
          | Some rref \<Rightarrow>
        if rref = [] then (db, Inl (TransientError ''settlement outcome unresolved''))
        else (case reader of
            None \<Rightarrow> (db, Inl (TransientError ''destination canonical cash reader unavailable''))
          | Some rd \<Rightarrow>
        (case rd_receipt rd rref of
            None \<Rightarrow> (db, Inl (TransientError ''destination receipt not yet indexed''))
          | Some f \<Rightarrow>
        if rf_source_kind f \<noteq> ''SETTLEMENT'' \<or> rf_settlement_id f \<noteq> Some (qt_settlement_id q)
        then (db, Inl (TerminalError ''destination receipt does not belong to this settlement''))
        else (case receive_leg uid clock b q rd rref f db of
            Inl e \<Rightarrow> (db, Inl e)
          | Inr (db', res) \<Rightarrow>
              (db', if re_entity_id res = None then Inl (TransientError (reason_or res ''destination receipt not reconciled''))
                    else allocate_leg uid clock b q rd reference rref (overlay p db')))))))"

text \<open>\<open>handle\<close>: what happened to \<open>send\<close>, what is committed, and the outcome of the job's transaction.\<close>

definition handle_leg ::
  "hash_fun \<Rightarrow> (nat \<Rightarrow> string) \<Rightarrow> int \<Rightarrow> string \<Rightarrow> rail_binding \<Rightarrow> settlement_adapter \<Rightarrow> cash_reader option \<Rightarrow> json \<Rightarrow> cash_db \<Rightarrow>
   send_call \<times> cash_db \<times> (app_error + cash_db)" where
  "handle_leg sha uid clock jid b ad reader payload db =
    (case quote_of_payload payload of
       Inl e \<Rightarrow> (Not_Sent, db, Inl e)
     | Inr q \<Rightarrow>
        if settlement_of_quote q db = None then (Not_Sent, db, Inl (TerminalError ''unknown source settlement''))
        else (case leg_reference sha clock jid b ad q db of
            (sc, Inl e) \<Rightarrow> (sc, db, Inl e)
          | (sc, Inr (reference, p, db')) \<Rightarrow> (sc, conclude_leg uid clock b ad reader q reference p db')))"

section \<open>The legs as a machine\<close>

text \<open>A change that plans no leg: events are appended, none of them a plan, and settlements stay.\<close>

definition quiet :: "cash_db \<Rightarrow> cash_db \<Rightarrow> bool" where
  "quiet db db' \<longleftrightarrow> db_settlements db' = db_settlements db \<and>
     (\<exists>rows. db_outbox db' = db_outbox db @ rows \<and> (\<forall>r \<in> set rows. o_event_type r \<noteq> ''SETTLEMENT_LEG_PLANNED''))"

text \<open>The reference of an answered send, by rail and leg.\<close>

type_synonym send_log = "((string \<times> string) \<times> string) list"

definition log_send :: "rail_binding \<Rightarrow> json \<Rightarrow> send_call \<Rightarrow> send_log" where
  "log_send b payload sc =
    (case (quote_of_payload payload, sc) of
       (Inr q, Send_Answered reference) \<Rightarrow> if reference = [] then [] else [((rb_rail_id b, qt_leg_id q), reference)]
     | _ \<Rightarrow> [])"

text \<open>
  Planning, handling, publishing the outbox and any other service that plans no leg. A handled job leaves what
  it committed on its own, or its whole transaction when that commits too. The log grows by every
  send that the rail answered with a reference.
\<close>

inductive leg_step :: "hash_fun \<Rightarrow> cash_db \<times> send_log \<Rightarrow> cash_db \<times> send_log \<Rightarrow> bool" for sha where
  plan: "enqueue_leg sha clock jid b ad q now db = Inr (db', out) \<Longrightarrow> leg_step sha (db, sends) (db', sends)"
| handle: "handle_leg sha uid clock jid b ad reader payload db = (sc, committed, out) \<Longrightarrow> db' = committed \<or> out = Inr db' \<Longrightarrow>
    leg_step sha (db, sends) (db', sends @ log_send b payload sc)"
| publish: "dispatch_outbox now pub batch m db = (db', n, k) \<Longrightarrow> leg_step sha (db, sends) (db', sends)"
| other: "quiet db db' \<Longrightarrow> leg_step sha (db, sends) (db', sends)"

lemma quiet_refl [simp]: "quiet db db"
  by (simp add: quiet_def)

lemma quiet_trans: "quiet a b \<Longrightarrow> quiet b c \<Longrightarrow> quiet a c"
  by (force simp: quiet_def)

lemma emit_quiet: "emit now t i ev pay key db = Inr (db', n) \<Longrightarrow> ev \<noteq> ''SETTLEMENT_LEG_PLANNED'' \<Longrightarrow> quiet db db'"
  by (auto simp: emit_def quiet_def Let_def split: if_splits)

lemma open_exception_quiet: "open_exception uid now code table entity detail db = Inr db' \<Longrightarrow> quiet db db'"
  by (auto simp: open_exception_def quiet_def Let_def split: if_splits)

lemma block_quiet: "block uid now code table entity db = Inr (db', res) \<Longrightarrow> quiet db db'"
  by (auto simp: block_def then_do_eq_Inr dest: open_exception_quiet)

lemma store_receipt_quiet:
  assumes "store_receipt uid now reference f row db = Inr (db', res)"
  shows "quiet db db'"
proof -
  obtain db1 db2 n where i: "insert_cash_receipt row db = Inr db1" and e: "quiet db1 db2" "quiet db2 db'"
    using assms unfolding store_receipt_def
    by (auto simp: then_do_eq_Inr case_prod_beta split: if_splits dest!: emit_quiet open_exception_quiet)
  from i have "quiet db db1" by (auto simp: insert_cash_receipt_def quiet_def)
  with e show ?thesis by (blast intro: quiet_trans)
qed

lemma record_receipt_quiet:
  assumes "record_destination_receipt uid now reference route reader db = Inr (db', res)"
  shows "quiet db db'"
  using assms unfolding record_destination_receipt_def Let_def
  by (auto simp: then_do_eq_Inr split: option.splits if_splits dest: block_quiet store_receipt_quiet)

lemma store_allocation_quiet:
  assumes "store_allocation now reference f full db = Inr (db', res)"
  shows "quiet db db'"
proof -
  obtain db1 where i: "insert_allocation (new_allocation f) db = Inr db1"
    and e: "quiet (if full then mark_allocated (af_receipt_id f) db1 else db1) db'"
    using assms unfolding store_allocation_def Let_def by (auto simp: then_do_eq_Inr case_prod_beta dest!: emit_quiet)
  have "quiet db (if full then mark_allocated (af_receipt_id f) db1 else db1)"
    using insert_allocation_cash [OF i] by (auto simp: quiet_def mark_allocated_def)
  with e show ?thesis by (rule quiet_trans [rotated])
qed

lemma record_allocation_quiet:
  assumes "record_confirmed_allocation uid now reference reader db = Inr (db', res)"
  shows "quiet db db'"
proof -
  have "quiet db db'" if "allocate_receipt uid now reference f receipt db = Inr (db', res)" for f receipt
    using that unfolding allocate_receipt_def Let_def
    by (auto split: option.splits if_splits dest: block_quiet store_allocation_quiet)
  with assms show ?thesis unfolding record_confirmed_allocation_def Let_def
    by (auto simp: then_do_eq_Inr split: option.splits if_splits dest: block_quiet)
qed

section \<open>The invariant\<close>

text \<open>What of an event the reservations and the acknowledgements depend on.\<close>

definition event_view :: "outbox_row \<Rightarrow> string \<times> string \<times> string \<times> string \<times> json" where
  "event_view r = (o_aggregate_type r, o_aggregate_id r, o_event_type r, o_key r, o_payload r)"

lemma sum_payloads_append:
  "sum_payloads (xs @ ys) = then_do (sum_payloads xs) (\<lambda>n. then_do (sum_payloads ys) (\<lambda>m. Inr (n + m)))"
  by (induction xs) (auto simp: then_do_def split: sum.splits)

lemma reserved_append: "reserved sid xs = Inr n \<Longrightarrow> reserved sid ys = Inr m \<Longrightarrow> reserved sid (xs @ ys) = Inr (n + m)"
  by (simp add: reserved_def sum_payloads_append)

lemma reserved_none: "\<forall>r \<in> set rows. \<not> planned_row sid r \<Longrightarrow> reserved sid rows = Inr 0"
  by (simp add: reserved_def filter_empty_conv [THEN iffD2])

lemma reserved_cong: "map event_view rows = map event_view rows' \<Longrightarrow> reserved sid rows = reserved sid rows'"
proof (induction rows arbitrary: rows')
  case (Cons r rows)
  then obtain r' rest where r: "rows' = r' # rest" "event_view r = event_view r'" "map event_view rows = map event_view rest"
    by (cases rows') auto
  then have "planned_row sid r = planned_row sid r'" "o_payload r = o_payload r'" by (simp_all add: planned_row_def event_view_def)
  with r(1) Cons.IH [OF r(3)] show ?case unfolding reserved_def by simp
qed simp

lemma number_from_view: "map event_view (number_from n rows) = map event_view rows"
  by (induction rows arbitrary: n) (simp_all add: event_view_def)

lemma update_where_view: "(\<And>r. event_view (f r) = event_view r) \<Longrightarrow> map event_view (update_where p f rows) = map event_view rows"
  by (induction rows) (simp_all add: update_where_def)

lemma dispatch_view:
  assumes "dispatch_outbox now pub batch m db = (db', n, k)"
  shows "map event_view (db_outbox db') = map event_view (db_outbox db)"
proof -
  have one: "map event_view (ds_rows (dispatch_one now pub i s)) = map event_view (ds_rows s)" for i s
    by (simp add: dispatch_one_def update_where_view event_view_def split: option.split)
  have "map event_view (ds_rows (fold (dispatch_one now pub) ids s)) = map event_view (ds_rows s)" for ids s
    by (induction ids arbitrary: s) (simp_all add: one)
  with assms show ?thesis by (auto simp: dispatch_outbox_def dispatch_rows_def Let_def)
qed

definition ack_recorded :: "cash_db \<Rightarrow> (string \<times> string) \<times> string \<Rightarrow> bool" where
  "ack_recorded db s \<longleftrightarrow> (\<exists>r \<in> set (db_outbox db). o_key r = ''settlement-ack:'' @ fst (fst s) @ '':'' @ snd (fst s) \<and>
     payload_str (o_payload r) ''reference'' = Inr (snd s))"

definition plans_ok :: "cash_db \<Rightarrow> bool" where
  "plans_ok db \<longleftrightarrow> unique_on se_id (db_settlements db) \<and>
     (\<forall>s \<in> set (db_settlements db). \<exists>n. reserved (se_id s) (db_outbox db) = Inr n \<and> 0 \<le> n \<and> n \<le> se_source_amount s)"

definition leg_inv :: "cash_db \<times> send_log \<Rightarrow> bool" where
  "leg_inv st \<longleftrightarrow> plans_ok (fst st) \<and> distinct (map fst (snd st)) \<and> (\<forall>s \<in> set (snd st). ack_recorded (fst st) s)"

lemma ack_view:
  assumes "ack_recorded db s" and "set (map event_view (db_outbox db)) \<subseteq> set (map event_view (db_outbox db'))"
  shows "ack_recorded db' s"
proof -
  obtain r where r: "r \<in> set (db_outbox db)" "o_key r = ''settlement-ack:'' @ fst (fst s) @ '':'' @ snd (fst s)"
    "payload_str (o_payload r) ''reference'' = Inr (snd s)" using assms(1) unfolding ack_recorded_def by blast
  with assms(2) obtain r' where "r' \<in> set (db_outbox db')" "event_view r' = event_view r" by force
  with r show ?thesis by (auto simp: ack_recorded_def event_view_def intro!: bexI [of _ r'])
qed

lemma plans_quiet:
  assumes "plans_ok db" and "quiet db db'"
  shows "plans_ok db'"
proof -
  obtain rows where rows: "db_outbox db' = db_outbox db @ rows" "\<forall>r \<in> set rows. o_event_type r \<noteq> ''SETTLEMENT_LEG_PLANNED''"
    and st: "db_settlements db' = db_settlements db" using assms(2) by (auto simp: quiet_def)
  have "reserved sid rows = Inr 0" for sid using rows(2) by (intro reserved_none) (auto simp: planned_row_def)
  then have "reserved sid (db_outbox db') = Inr n" if "reserved sid (db_outbox db) = Inr n" for sid n
    using reserved_append [OF that] rows(1) by force
  with assms(1) st show ?thesis unfolding plans_ok_def by metis
qed

lemma plan_leg_effect:
  assumes "plan_leg clock b s q db = Inr db'"
  shows "db_settlements db' = db_settlements db \<and>
    (db_outbox db' = db_outbox db \<or> (\<exists>n row. reserved (qt_settlement_id q) (db_outbox db) = Inr n \<and> n + qt_source_amount q \<le> se_source_amount s \<and>
       db_outbox db' = db_outbox db @ [row] \<and> o_aggregate_type row = ''settlement'' \<and> o_aggregate_id row = qt_settlement_id q \<and>
       o_event_type row = ''SETTLEMENT_LEG_PLANNED'' \<and> o_payload row = quote_json q))"
  using assms unfolding plan_leg_def emit_def Let_def
  by (auto simp: then_do_eq_Inr split: option.splits if_splits)

lemma enqueue_tables:
  "enqueue sha now jid kind payload key m run_at db = Inr (db', out) \<Longrightarrow>
    db_outbox db' = db_outbox db \<and> db_settlements db' = db_settlements db"
  by (auto simp: enqueue_def Let_def split: option.splits)

lemma validate_positive: "validate_quote q b now = Inr u \<Longrightarrow> 0 < qt_source_amount q"
  by (simp add: validate_quote_def)

lemma enqueue_leg_effect:
  assumes "enqueue_leg sha clock jid b ad q now db = Inr (db', out)"
  obtains s rows where "settlement_of_quote q db = Some s" "db_settlements db' = db_settlements db" "db_outbox db' = db_outbox db @ rows"
    "rows = [] \<or> (\<exists>n row. rows = [row] \<and> reserved (qt_settlement_id q) (db_outbox db) = Inr n \<and> n + qt_source_amount q \<le> se_source_amount s \<and>
       0 < qt_source_amount q \<and> planned_row (qt_settlement_id q) row \<and> o_payload row = quote_json q)"
proof -
  obtain s db1 where s: "settlement_of_quote q db = Some s" "plan_leg clock b s q db = Inr db1" "0 < qt_source_amount q"
    and e: "db_outbox db' = db_outbox db1" "db_settlements db' = db_settlements db1"
    using assms unfolding enqueue_leg_def
    by (auto simp: then_do_eq_Inr split: option.splits dest!: enqueue_tables validate_positive)
  from plan_leg_effect [OF s(2)] show thesis
  proof (elim conjE disjE exE)
    assume "db_settlements db1 = db_settlements db" "db_outbox db1 = db_outbox db"
    with e show thesis by (intro that [OF s(1), of "[]"]) simp_all
  next
    fix n row
    assume "db_settlements db1 = db_settlements db" "reserved (qt_settlement_id q) (db_outbox db) = Inr n"
      "n + qt_source_amount q \<le> se_source_amount s" "db_outbox db1 = db_outbox db @ [row]" "o_aggregate_type row = ''settlement''"
      "o_aggregate_id row = qt_settlement_id q" "o_event_type row = ''SETTLEMENT_LEG_PLANNED''" "o_payload row = quote_json q"
    with e s(3) show thesis by (intro that [OF s(1), of "[row]"]) (simp_all add: planned_row_def)
  qed
qed

lemma planned_reserved: "o_payload row = quote_json q \<Longrightarrow> reserved sid [row] = Inr (if planned_row sid row then qt_source_amount q else 0)"
  by (simp add: reserved_def payload_int_def json_get_def quote_json_def)

lemma plans_enqueue:
  assumes "plans_ok db" and "enqueue_leg sha clock jid b ad q now db = Inr (db', out)"
  shows "plans_ok db'"
proof -
  from assms(2) obtain s rows where s: "settlement_of_quote q db = Some s" "db_settlements db' = db_settlements db" "db_outbox db' = db_outbox db @ rows"
    and rows: "rows = [] \<or> (\<exists>n row. rows = [row] \<and> reserved (qt_settlement_id q) (db_outbox db) = Inr n \<and> n + qt_source_amount q \<le> se_source_amount s \<and>
       0 < qt_source_amount q \<and> planned_row (qt_settlement_id q) row \<and> o_payload row = quote_json q)"
    by (rule enqueue_leg_effect)
  have id: "se_id s = qt_settlement_id q" "s \<in> set (db_settlements db)" using s(1) by (auto simp: settlement_of_quote_def dest: find_Some_iff)
  have "\<exists>n. reserved (se_id t) (db_outbox db') = Inr n \<and> 0 \<le> n \<and> n \<le> se_source_amount t" if t: "t \<in> set (db_settlements db)" for t
  proof -
    obtain k where k: "reserved (se_id t) (db_outbox db) = Inr k" "0 \<le> k" "k \<le> se_source_amount t" using assms(1) t by (auto simp: plans_ok_def)
    from rows show ?thesis
    proof
      assume "rows = []"
      with k s show ?thesis by simp
    next
      assume "\<exists>n row. rows = [row] \<and> reserved (qt_settlement_id q) (db_outbox db) = Inr n \<and> n + qt_source_amount q \<le> se_source_amount s \<and>
        0 < qt_source_amount q \<and> planned_row (qt_settlement_id q) row \<and> o_payload row = quote_json q"
      then obtain n row where r: "rows = [row]" "reserved (qt_settlement_id q) (db_outbox db) = Inr n" "n + qt_source_amount q \<le> se_source_amount s"
        "0 < qt_source_amount q" "planned_row (qt_settlement_id q) row" "o_payload row = quote_json q" by blast
      note app = reserved_append [OF k(1) planned_reserved [OF r(6)]]
      show ?thesis
      proof (cases "se_id t = qt_settlement_id q")
        case True
        with unique_on_same [OF _ t id(2), of se_id] assms(1) id(1) have "t = s" by (simp add: plans_ok_def)
        with True r k app s(3) show ?thesis by simp
      next
        case False
        with r(5) have "\<not> planned_row (se_id t) row" by (auto simp: planned_row_def)
        with app k s(3) r(1) show ?thesis by simp
      qed
    qed
  qed
  with assms(1) s(2) show ?thesis by (simp add: plans_ok_def)
qed

lemma overlay_none [simp]: "overlay no_pending db = db"
  by (simp add: overlay_def no_pending_def)

lemma overlay_tables [simp]:
  "db_settlements (overlay p db) = db_settlements db" "db_cash_receipts (overlay p db) = db_cash_receipts db"
  "db_allocations (overlay p db) = db_allocations db" "db_exceptions (overlay p db) = db_exceptions db"
  by (simp_all add: overlay_def)

lemma overlay_view: "set (map event_view (db_outbox db)) \<subseteq> set (map event_view (db_outbox (overlay p db)))"
  by (simp add: overlay_def)

lemma quiet_view: "quiet db db' \<Longrightarrow> set (map event_view (db_outbox db)) \<subseteq> set (map event_view (db_outbox db'))"
  by (auto simp: quiet_def)

text \<open>The rows of a transaction that is still open fit on top of what others committed meanwhile.\<close>

lemma overlay_plans:
  assumes "plans_ok db" and "enqueue_leg sha clock jid b ad q now db = Inr (dbq, out)" and "quiet db db'"
  shows "plans_ok (overlay (pending_of db dbq) db')"
proof -
  from assms(2) obtain rows where rows: "db_outbox dbq = db_outbox db @ rows" and st: "db_settlements dbq = db_settlements db"
    by (rule enqueue_leg_effect)
  obtain more where more: "db_outbox db' = db_outbox db @ more" "\<forall>r \<in> set more. o_event_type r \<noteq> ''SETTLEMENT_LEG_PLANNED''"
    and st': "db_settlements db' = db_settlements db" using assms(3) by (auto simp: quiet_def)
  have zero: "reserved sid more = Inr 0" for sid using more(2) by (intro reserved_none) (auto simp: planned_row_def)
  have "\<exists>n. reserved (se_id s) (db_outbox (overlay (pending_of db dbq) db')) = Inr n \<and> 0 \<le> n \<and> n \<le> se_source_amount s"
    if s: "s \<in> set (db_settlements db)" for s
  proof -
    obtain n k where n: "reserved (se_id s) (db_outbox db) = Inr n"
      and k: "reserved (se_id s) (db_outbox dbq) = Inr k" "0 \<le> k" "k \<le> se_source_amount s"
      using plans_enqueue [OF assms(1,2)] assms(1) s st unfolding plans_ok_def by metis
    then obtain m where m: "reserved (se_id s) rows = Inr m" "k = n + m"
      using rows by (auto simp: reserved_def sum_payloads_append then_do_eq_Inr)
    have "reserved (se_id s) (number_from i rows) = Inr m" for i
      using m(1) reserved_cong [OF number_from_view, of "se_id s" i rows] by simp
    from reserved_append [OF reserved_append [OF n zero] this] m(2) k show ?thesis
      by (simp add: overlay_def pending_of_def rows more(1))
  qed
  with assms(1) st' show ?thesis by (simp add: plans_ok_def)
qed

lemma acknowledge_effect:
  assumes "acknowledge clock b q reference p db = Inr (r, p', db')" and "\<not> has_key o_key (db_outbox db) (leg_key ''settlement-ack'' b q)"
  shows "r = reference \<and> p' = p \<and> quiet db db' \<and> ack_recorded db' ((rb_rail_id b, qt_leg_id q), reference)"
proof -
  have e: "r = reference" "p' = p" and em: "\<exists>n. emit clock ''settlement'' (qt_settlement_id q) ''SETTLEMENT_LEG_ACKNOWLEDGED''
      (JObj [(''reference'', JStr reference), (''legId'', JStr (qt_leg_id q)), (''cashState'', JStr ''IN_FLIGHT''), (''debtApplied'', JBool False)])
      (leg_key ''settlement-ack'' b q) db = Inr (db', n)"
    using assms(1) by (auto simp: acknowledge_def then_do_eq_Inr)
  from em have "quiet db db'" by (auto intro: emit_quiet)
  moreover from em assms(2) have "ack_recorded db' ((rb_rail_id b, qt_leg_id q), reference)"
    by (auto simp: emit_def Let_def ack_recorded_def leg_key_def payload_str_def json_get_def)
  ultimately show ?thesis using e by simp
qed

lemma acknowledge_fails: "acknowledge clock b q reference p db = Inl e \<Longrightarrow> reference = []"
  by (auto simp: acknowledge_def emit_def leg_key_def then_do_eq_Inl Let_def ensure_def split: if_splits)

lemma no_ack: "\<not> has_key o_key rows k \<Longrightarrow> List.find (\<lambda>r. o_key r = k) rows = None"
  by (auto simp: find_None_iff has_key_def)

lemma ack_found: "has_key o_key rows k \<Longrightarrow> \<exists>r. List.find (\<lambda>r. o_key r = k) rows = Some r"
  by (cases "List.find (\<lambda>r. o_key r = k) rows") (auto simp: find_None_iff has_key_def)

lemma leg_reference_effect:
  assumes "leg_reference sha clock jid b ad q db = (sc, Inr (reference, p, db'))"
  shows "quiet db db' \<and> (p = no_pending \<or> (\<exists>dbq out. enqueue_leg sha clock jid b ad q (clock div 1000000) db = Inr (dbq, out) \<and> p = pending_of db dbq))"
proof (cases "has_key o_key (db_outbox db) (leg_key ''settlement-ack'' b q)")
  case True
  with assms show ?thesis unfolding leg_reference_def by (auto simp: then_do_eq_Inr dest!: ack_found)
next
  case False
  with assms show ?thesis unfolding leg_reference_def
    by (auto simp: no_ack split: sum.splits option.splits dest!: acknowledge_effect)
qed

lemma leg_reference_sent:
  assumes "leg_reference sha clock jid b ad q db = (Send_Answered r, res)" and "r \<noteq> []"
  shows "\<not> has_key o_key (db_outbox db) (leg_key ''settlement-ack'' b q) \<and>
    (\<exists>p db'. res = Inr (r, p, db') \<and> ack_recorded db' ((rb_rail_id b, qt_leg_id q), r))"
proof -
  have none: "\<not> has_key o_key (db_outbox db) (leg_key ''settlement-ack'' b q)"
    using assms(1) by (auto simp: leg_reference_def dest!: ack_found)
  obtain p where "res = acknowledge clock b q r p db"
    using assms(1) unfolding leg_reference_def by (auto split: option.splits sum.splits)
  with acknowledge_fails [of clock b q r p db] acknowledge_effect [OF _ none, of clock r p] assms(2) none show ?thesis
    by (cases res) force+
qed

lemma receive_leg_quiet:
  assumes "receive_leg uid clock b q rd reference f db = Inr (db', res)"
  shows "quiet db db'"
proof -
  obtain db1 where "quiet db db1" "quiet db1 db'"
    using assms unfolding receive_leg_def
    by (fastforce simp: then_do_eq_Inr split: if_splits dest!: record_receipt_quiet open_exception_quiet emit_quiet intro: quiet_trans)
  then show ?thesis by (rule quiet_trans)
qed

lemma allocate_leg_quiet:
  assumes "allocate_leg uid clock b q rd reference rref db = Inr db'"
  shows "quiet db db'"
  using assms unfolding allocate_leg_def
  by (auto simp: then_do_eq_Inr split: option.splits dest!: record_allocation_quiet emit_quiet intro: quiet_trans)

lemma refund_leg_quiet: "refund_leg clock b q reference db = Inr db' \<Longrightarrow> quiet db db'"
  by (auto simp: refund_leg_def then_do_eq_Inr dest!: emit_quiet)

lemma conclude_leg_quiet:
  assumes "conclude_leg uid clock b ad reader q reference p db = (committed, out)"
  shows "quiet db committed \<and> (\<forall>db'. out = Inr db' \<longrightarrow> quiet (overlay p committed) db')"
  using assms unfolding conclude_leg_def
  by (auto split: sum.splits option.splits if_splits dest: receive_leg_quiet allocate_leg_quiet refund_leg_quiet)

lemma handle_leg_effect:
  assumes "handle_leg sha uid clock jid b ad reader payload db = (sc, committed, out)" and "plans_ok db" and "db' = committed \<or> out = Inr db'"
  shows "plans_ok db' \<and> set (map event_view (db_outbox db)) \<subseteq> set (map event_view (db_outbox db')) \<and>
    (\<forall>s \<in> set (log_send b payload sc). ack_recorded db' s \<and>
       \<not> has_key o_key (db_outbox db) (''settlement-ack:'' @ fst (fst s) @ '':'' @ snd (fst s)))"
proof (cases "\<exists>q reference p db1. quote_of_payload payload = Inr q \<and> leg_reference sha clock jid b ad q db = (sc, Inr (reference, p, db1)) \<and>
    conclude_leg uid clock b ad reader q reference p db1 = (committed, out)")
  case True
  then obtain q reference p db1 where q: "quote_of_payload payload = Inr q"
    and r: "leg_reference sha clock jid b ad q db = (sc, Inr (reference, p, db1))"
    and c: "conclude_leg uid clock b ad reader q reference p db1 = (committed, out)" by blast
  note e = leg_reference_effect [OF r] and k = conclude_leg_quiet [OF c]
  have quiet: "quiet db committed" using e k by (blast intro: quiet_trans)
  have ok: "plans_ok (overlay p committed)" using e overlay_plans [OF assms(2) _ quiet] plans_quiet [OF assms(2) quiet] by auto
  have "plans_ok db'" using assms(3) plans_quiet [OF assms(2) quiet] plans_quiet [OF ok] k by blast
  moreover have v: "set (map event_view (db_outbox db1)) \<subseteq> set (map event_view (db_outbox db'))"
    using assms(3) k overlay_view [of committed p] quiet_view [of db1 committed] quiet_view [of "overlay p committed" db'] by blast
  moreover have "set (map event_view (db_outbox db)) \<subseteq> set (map event_view (db_outbox db1))" using e quiet_view by blast
  moreover have "ack_recorded db' s \<and> \<not> has_key o_key (db_outbox db) (''settlement-ack:'' @ fst (fst s) @ '':'' @ snd (fst s))" if s: "s \<in> set (log_send b payload sc)" for s
  proof -
    from s q obtain x where x: "sc = Send_Answered x" "x \<noteq> []" "s = ((rb_rail_id b, qt_leg_id q), x)"
      by (auto simp: log_send_def split: send_call.splits if_splits)
    from leg_reference_sent [OF r [unfolded x(1)] x(2)] x(3) show ?thesis
      using ack_view [OF _ v] by (auto simp: leg_key_def)
  qed
  ultimately show ?thesis by blast
next
  case False
  have c: "committed = db" "\<exists>e. out = Inl e" using assms(1) False unfolding handle_leg_def
    by (auto split: sum.splits if_splits prod.splits)
  have "log_send b payload sc = []"
  proof (rule ccontr)
    assume "log_send b payload sc \<noteq> []"
    then obtain q x where x: "quote_of_payload payload = Inr q" "sc = Send_Answered x" "x \<noteq> []"
      by (auto simp: log_send_def split: sum.splits send_call.splits if_splits)
    obtain sc' res where r: "leg_reference sha clock jid b ad q db = (sc', res)" by fastforce
    with assms(1) x(1,2) have "sc' = Send_Answered x" unfolding handle_leg_def by (auto split: sum.splits if_splits)
    with leg_reference_sent [of sha clock jid b ad q db x res] r x(3) obtain p db1 where "res = Inr (x, p, db1)" by auto
    with False assms(1) x(1,2) r show False unfolding handle_leg_def by (auto split: if_splits)
  qed
  with c assms(2,3) show ?thesis by auto
qed

lemma leg_inv_grows:
  assumes "leg_inv (db, sends)" and "plans_ok db'" and "set (map event_view (db_outbox db)) \<subseteq> set (map event_view (db_outbox db'))"
  shows "leg_inv (db', sends)"
  using assms ack_view [OF _ assms(3)] by (simp add: leg_inv_def)

lemma leg_step_inv: "leg_step sha st st' \<Longrightarrow> leg_inv st \<Longrightarrow> leg_inv st'"
proof (induction rule: leg_step.induct)
  case (plan clock jid b ad q now db db' out sends)
  then have "set (map event_view (db_outbox db)) \<subseteq> set (map event_view (db_outbox db'))" by (auto elim: enqueue_leg_effect)
  with plan plans_enqueue [OF _ plan(1)] show ?case by (intro leg_inv_grows [OF plan(2)]) (simp_all add: leg_inv_def)
next
  case (handle uid clock jid b ad reader payload db sc committed out db' sends)
  note e = handle_leg_effect [OF handle(1) _ handle(2)]
  have inv: "plans_ok db" "distinct (map fst sends)" "\<forall>s \<in> set sends. ack_recorded db s" using handle(3) by (auto simp: leg_inv_def)
  have old: "ack_recorded db' s" if "s \<in> set sends" for s using e [OF inv(1)] inv(3) that by (blast intro: ack_view)
  have "fst s \<noteq> fst t" if "s \<in> set sends" "t \<in> set (log_send b payload sc)" for s t
  proof
    assume same: "fst s = fst t"
    from that(2) e [OF inv(1)] have "\<not> has_key o_key (db_outbox db) (''settlement-ack:'' @ fst (fst t) @ '':'' @ snd (fst t))" by blast
    with inv(3) that(1) same show False by (auto simp: ack_recorded_def has_key_def)
  qed
  then have "fst ` set sends \<inter> fst ` set (log_send b payload sc) = {}" by blast
  moreover have "distinct (map fst (log_send b payload sc))" by (auto simp: log_send_def split: sum.splits send_call.splits)
  ultimately have "distinct (map fst (sends @ log_send b payload sc))" using inv(2) by simp
  with e [OF inv(1)] old show ?case by (auto simp: leg_inv_def)
next
  case (publish now pub batch m db db' n k sends)
  have v: "map event_view (db_outbox db') = map event_view (db_outbox db)" by (rule dispatch_view [OF publish(1)])
  have "db_settlements db' = db_settlements db" using publish(1) by (auto simp: dispatch_outbox_def Let_def)
  with publish(2) reserved_cong [OF v] have "plans_ok db'" by (simp add: leg_inv_def plans_ok_def)
  with v show ?case by (intro leg_inv_grows [OF publish(2)]) simp_all
next
  case (other db db' sends)
  then show ?case using plans_quiet quiet_view by (intro leg_inv_grows [OF other(2)]) (auto simp: leg_inv_def)
qed

definition leg_start :: "cash_db \<times> send_log \<Rightarrow> bool" where
  "leg_start st \<longleftrightarrow> snd st = [] \<and> unique_on se_id (db_settlements (fst st)) \<and> (\<forall>s \<in> set (db_settlements (fst st)). 0 \<le> se_source_amount s) \<and>
     (\<forall>r \<in> set (db_outbox (fst st)). o_event_type r \<noteq> ''SETTLEMENT_LEG_PLANNED'')"

interpretation legs: inv_machine leg_start "leg_step sha" leg_inv for sha
proof unfold_locales
  fix st
  assume "leg_start st"
  then show "leg_inv st" by (auto simp: leg_inv_def leg_start_def plans_ok_def planned_row_def reserved_none)
qed (rule leg_step_inv)

section \<open>Cash behind a finished leg\<close>

lemma recorded_receipt:
  assumes "record_destination_receipt uid now reference route (Some rd) db = Inr (db', res)" and "rd_receipt rd reference = Some f"
    and "re_entity_id res = Some i"
  shows "db_allocations db' = db_allocations db \<and>
    (\<exists>r \<in> set (db_cash_receipts db'). cr_id r = i \<and> cr_amount r = rf_amount f \<and> cr_settlement_id r = rf_settlement_id f \<and>
       cr_vault_id r = dr_vault_id route \<and> cr_profile r = dr_profile route)"
proof -
  have nb: "\<not> block uid now code table entity db = Inr (db', res)" for code table entity
    using assms(3) by (auto simp: block_def then_do_eq_Inr no_result_def)
  obtain t where c: "check_receipt_fact f route = Inr t"
    using assms(1,2) unfolding record_destination_receipt_def by (auto simp: then_do_eq_Inr)
  have t: "rf_profile f = dr_profile route" and
    "(\<exists>r. List.find (\<lambda>r. receipt_key r = receipt_key (new_cash_receipt f route t)) (db_cash_receipts db) = Some r \<and> same_receipt r f route \<and>
       db' = db \<and> i = cr_id r) \<or> store_receipt uid now reference f (new_cash_receipt f route t) db = Inr (db', res)"
    using assms c nb unfolding record_destination_receipt_def Let_def
    by (auto simp: no_result_def split: option.splits if_splits)
  from this(2) show ?thesis
  proof (elim disjE exE conjE)
    fix r
    assume "List.find (\<lambda>r. receipt_key r = receipt_key (new_cash_receipt f route t)) (db_cash_receipts db) = Some r" "same_receipt r f route"
      "db' = db" "i = cr_id r"
    with t show ?thesis by (auto simp: same_receipt_def dest: find_Some_iff)
  next
    assume st: "store_receipt uid now reference f (new_cash_receipt f route t) db = Inr (db', res)"
    then have "i = rf_receipt_id f" using assms(3) unfolding store_receipt_def
      by (auto simp: then_do_eq_Inr new_cash_receipt_def split: if_splits)
    with store_receipt_cash [OF st] t show ?thesis by (auto simp: new_cash_receipt_def)
  qed
qed

lemma recorded_allocation:
  assumes "record_confirmed_allocation uid now reference (Some rd) db = Inr (db', res)" and "re_entity_id res = Some i"
  shows "\<exists>a \<in> set (db_allocations db'). aw_id a = i"
proof -
  have nb: "\<not> block uid now code table entity db = Inr (db', res)" for code table entity
    using assms(2) by (auto simp: block_def then_do_eq_Inr no_result_def)
  obtain f receipt where a: "allocate_receipt uid now reference f receipt db = Inr (db', res)"
    using assms nb unfolding record_confirmed_allocation_def Let_def
    by (auto simp: then_do_eq_Inr no_result_def split: option.splits if_splits)
  show ?thesis
  proof (cases "List.find (\<lambda>a. allocation_key a = (af_receipt_id f, af_facility_id f)) (db_allocations db)")
    case None
    then obtain full where st: "store_allocation now reference f full db = Inr (db', res)"
      using a nb unfolding allocate_receipt_def Let_def by (auto split: if_splits)
    then have "i = af_allocation_id f" using assms(2) unfolding store_allocation_def Let_def by (auto simp: then_do_eq_Inr)
    with store_allocation_cash [OF st] show ?thesis by (auto simp: new_allocation_def)
  next
    case (Some x)
    with a nb have "db' = db" "i = aw_id x" using assms(2) unfolding allocate_receipt_def by (auto split: if_splits)
    with Some show ?thesis by (auto dest: find_Some_iff)
  qed
qed

text \<open>An open case that keeps a settlement under review.\<close>

definition under_review :: "string \<Rightarrow> cash_db \<Rightarrow> bool" where
  "under_review sid db \<longleftrightarrow> (\<exists>x \<in> set (db_exceptions db). ex_kind x = ''SETTLEMENT_MINIMUM_BREACH'' \<and> ex_table x = ''settlements'' \<and> ex_entity x = sid \<and>
     ex_resolved_at x = None)"

lemma receive_leg_cash:
  assumes "receive_leg uid clock b q rd reference f db = Inr (db', res)" and "rd_receipt rd reference = Some f" and "re_entity_id res = Some i"
  shows "db_allocations db' = db_allocations db \<and>
    (\<exists>r \<in> set (db_cash_receipts db'). cr_amount r = rf_amount f \<and> cr_settlement_id r = rf_settlement_id f \<and>
       cr_vault_id r = rb_vault_id b \<and> cr_profile r = rb_profile b \<and> (cr_amount r < qt_minimum_destination q \<longrightarrow> under_review (qt_settlement_id q) db'))"
proof -
  obtain db1 where rec: "record_destination_receipt uid clock reference (leg_route b) (Some rd) db = Inr (db1, res)"
    and rest: "same_cash db1 db' \<and> (rf_amount f < qt_minimum_destination q \<longrightarrow> under_review (qt_settlement_id q) db')"
  proof -
    have rev: "under_review sid db'" if "open_exception uid clock ''SETTLEMENT_MINIMUM_BREACH'' ''settlements'' sid d db1 = Inr db2"
      "emit clock t a ev pay key db2 = Inr (db', n)" for sid d db1 db2 t a ev pay key n
      using that by (auto simp: open_exception_def emit_def under_review_def Let_def split: if_splits)
    obtain db1 where r: "record_destination_receipt uid clock reference (leg_route b) (Some rd) db = Inr (db1, res)"
      using assms(1) unfolding receive_leg_def by (auto simp: then_do_eq_Inr split: if_splits)
    moreover have "same_cash db1 db'" using assms(1) r unfolding receive_leg_def
      by (auto simp: then_do_eq_Inr same_cash_def split: if_splits dest!: open_exception_cash emit_cash)
    moreover have "under_review (qt_settlement_id q) db'" if "rf_amount f < qt_minimum_destination q"
      using assms(1,3) r that unfolding receive_leg_def by (auto simp: then_do_eq_Inr intro: rev)
    ultimately show thesis by (blast intro: that)
  qed
  with recorded_receipt [OF rec assms(2,3)] show ?thesis by (auto simp: same_cash_def leg_route_def)
qed

text \<open>C14: planned legs never exceed the source receipt. However plans, handlers, publication and other services interleave, the
  legs planned for a settlement sum to at most the amount that the settlement paid at its source.\<close>

theorem planned_legs_within_source:
  assumes "leg_start (db0, [])" and "(leg_step sha)\<^sup>*\<^sup>* (db0, []) (db, sends)"
  shows "\<forall>s \<in> set (db_settlements db). \<exists>n. reserved (se_id s) (db_outbox db) = Inr n \<and> 0 \<le> n \<and> n \<le> se_source_amount s"
  using legs.reachable_inv [OF assms] by (simp add: leg_inv_def plans_ok_def)



lemma emit_has_key: "emit now t i ev pay key db = Inr (db', n) \<Longrightarrow> has_key o_key (db_outbox db') key"
  by (auto simp: emit_def has_key_def Let_def split: if_splits)

lemma allocate_leg_cash:
  assumes "allocate_leg uid clock b q rd reference rref db = Inr db'"
  shows "has_key o_key (db_outbox db') (leg_key ''settlement-allocated'' b q) \<and> db_allocations db' \<noteq> []"
proof -
  obtain db1 res i n where r: "record_confirmed_allocation uid clock rref (Some rd) db = Inr (db1, res)" "re_entity_id res = Some i"
    and e: "emit clock ''settlement'' (qt_settlement_id q) ''SETTLEMENT_LEG_ALLOCATED''
          (JObj [(''reference'', JStr reference), (''allocationId'', JStr i), (''cashState'', JStr ''ALLOCATED'')])
          (leg_key ''settlement-allocated'' b q) db1 = Inr (db', n)"
    using assms unfolding allocate_leg_def by (auto simp: then_do_eq_Inr split: option.splits)
  with recorded_allocation [OF r] emit_has_key [OF e] emit_cash [OF e] show ?thesis by (auto simp: same_cash_def)
qed

lemma receive_leg_allocations:
  assumes "receive_leg uid clock b q rd reference f db = Inr (db', res)"
  shows "db_allocations db' = db_allocations db"
  using assms unfolding receive_leg_def
  by (auto simp: then_do_eq_Inr same_cash_def split: if_splits dest!: record_receipt_cash open_exception_cash emit_cash)

lemma leg_reference_cash:
  assumes "leg_reference sha clock jid b ad q db = (sc, Inr (reference, p, db'))"
  shows "same_cash db db'"
proof -
  have "same_cash db db'" if "acknowledge clock b q r p' db = Inr (reference, p, db')" for r p'
    using that by (auto simp: acknowledge_def then_do_eq_Inr dest!: emit_cash)
  with assms show ?thesis unfolding leg_reference_def
    by (auto simp: then_do_eq_Inr same_cash_def split: option.splits sum.splits)
qed

lemma refund_leg_cash:
  assumes "refund_leg clock b q reference db = Inr db'"
  shows "has_key o_key (db_outbox db') (leg_key ''settlement-refund'' b q) \<and> db_allocations db' = db_allocations db"
  using assms unfolding refund_leg_def by (auto simp: then_do_eq_Inr same_cash_def dest: emit_has_key emit_cash)

definition leg_finished :: "rail_binding \<Rightarrow> quote \<Rightarrow> cash_db \<Rightarrow> cash_db \<Rightarrow> cash_db \<Rightarrow> bool" where
  "leg_finished b q db committed db' \<longleftrightarrow>
     has_key o_key (db_outbox db') (leg_key ''settlement-refund'' b q) \<and> db_allocations db' = db_allocations db \<or>
     has_key o_key (db_outbox db') (leg_key ''settlement-allocated'' b q) \<and> db_allocations db' \<noteq> [] \<and>
     (\<exists>r \<in> set (db_cash_receipts committed). cr_settlement_id r = Some (qt_settlement_id q) \<and> cr_vault_id r = rb_vault_id b \<and>
        cr_profile r = rb_profile b \<and> (cr_amount r < qt_minimum_destination q \<longrightarrow> under_review (qt_settlement_id q) committed))"

lemma allocated_leg_finished:
  assumes "receive_leg uid clock b q rd rref f db = Inr (committed, res)" and "rd_receipt rd rref = Some f"
    and "rf_settlement_id f = Some (qt_settlement_id q)" and "re_entity_id res = Some i"
    and "allocate_leg uid clock b q rd reference rref (overlay p committed) = Inr db'"
  shows "leg_finished b q db committed db'"
  using receive_leg_cash [OF assms(1,2,4)] allocate_leg_cash [OF assms(5)] assms(3) by (auto simp: leg_finished_def)

lemma refunded_leg_finished: "refund_leg clock b q reference (overlay p db) = Inr db' \<Longrightarrow> leg_finished b q db db db'"
  by (auto simp: leg_finished_def dest: refund_leg_cash)

lemma conclude_leg_cash:
  assumes "conclude_leg uid clock b ad reader q reference p db = (committed, out)"
  shows "db_allocations committed = db_allocations db \<and> (\<forall>db'. out = Inr db' \<longrightarrow> leg_finished b q db committed db')"
  using assms unfolding conclude_leg_def
  by (auto split: sum.splits option.splits if_splits dest: receive_leg_allocations refunded_leg_finished allocated_leg_finished)

text \<open>A leg is finished only by cash or by a refund. The job's transaction succeeds only when the rail reported a refund, and then no
  allocation is made, or when a receipt of this settlement, at the rail's vault and profile, is committed and the
  allocation of its reference is recorded; a receipt below the quoted minimum puts the settlement under
  review. A handler that raises leaves the allocations as they were: a send or an acknowledgement is never a
  repayment.\<close>

theorem finished_leg_has_cash:
  assumes "handle_leg sha uid clock jid b ad reader payload db = (sc, committed, out)"
  shows "db_allocations committed = db_allocations db \<and>
    (\<forall>db'. out = Inr db' \<longrightarrow> (\<exists>q. quote_of_payload payload = Inr q \<and>
      (has_key o_key (db_outbox db') (leg_key ''settlement-refund'' b q) \<and> db_allocations db' = db_allocations db \<or>
       has_key o_key (db_outbox db') (leg_key ''settlement-allocated'' b q) \<and> db_allocations db' \<noteq> [] \<and>
       (\<exists>r \<in> set (db_cash_receipts committed). cr_settlement_id r = Some (qt_settlement_id q) \<and> cr_vault_id r = rb_vault_id b \<and>
          cr_profile r = rb_profile b \<and> (cr_amount r < qt_minimum_destination q \<longrightarrow> under_review (qt_settlement_id q) committed)))))"
proof (cases "\<exists>q reference p db1. quote_of_payload payload = Inr q \<and> leg_reference sha clock jid b ad q db = (sc, Inr (reference, p, db1)) \<and>
    conclude_leg uid clock b ad reader q reference p db1 = (committed, out)")
  case True
  then obtain q reference p db1 where q: "quote_of_payload payload = Inr q" "leg_reference sha clock jid b ad q db = (sc, Inr (reference, p, db1))"
    and c: "conclude_leg uid clock b ad reader q reference p db1 = (committed, out)" by blast
  have "db_allocations db1 = db_allocations db" using leg_reference_cash [OF q(2)] by (simp add: same_cash_def)
  with conclude_leg_cash [OF c] q(1) show ?thesis unfolding leg_finished_def by simp
next
  case False
  with assms show ?thesis unfolding handle_leg_def by (auto split: sum.splits if_splits prod.splits)
qed

section \<open>A leg from plan to allocation\<close>

definition sample_binding :: rail_binding where
  "sample_binding = \<lparr>rb_rail_id = ''rail-1'', rb_profile = EP_NATIVE_TESTNET, rb_status = ''TEST_ONLY'', rb_partner_binding = ''SANDBOX'',
     rb_source_asset = sample_asset, rb_destination_asset = sample_asset, rb_destination_receiver = ''0x'' @ replicate 40 CHR ''b'', rb_vault_id = ''v1'',
     rb_source_cap = 10000, rb_max_fee_destination = 50, rb_max_slippage_bps = 100, rb_approval_ref = ''ops-1'', rb_refund_address = ''refund''\<rparr>"

definition sample_quote :: quote where
  "sample_quote = \<lparr>qt_leg_id = ''leg-1'', qt_settlement_id = ''S1'', qt_rail_id = ''rail-1'', qt_source_amount = 3650, qt_expected_destination = 3620,
     qt_minimum_destination = 3590, qt_fee_destination = 20, qt_expires_at = 900, qt_destination_receiver = ''0x'' @ replicate 40 CHR ''b'',
     qt_refund_address = ''refund''\<rparr>"

definition sample_adapter :: settlement_adapter where
  "sample_adapter = \<lparr>sa_is_mock = False, sa_idempotent_requests = True, sa_lookup = \<lambda>_. Inr None, sa_send = \<lambda>_ _. Inr ''tx-9'',
     sa_observe = \<lambda>r. Inr \<lparr>lo_state = ''DESTINATION_RECEIVED'', lo_reference = r, lo_receipt_reference = Some ''ref''\<rparr>\<rparr>"

definition settlement_reader :: cash_reader where
  "settlement_reader = sample_reader\<lparr>rd_receipt := \<lambda>r. map_option (\<lambda>f. f\<lparr>rf_source_kind := ''SETTLEMENT'', rf_settlement_id := Some ''S1''\<rparr>)
     (rd_receipt sample_reader r)\<rparr>"

definition sample_settlement :: settlement_row where
  "sample_settlement = \<lparr>se_id = ''S1'', se_account_id = ''A1'', se_state = SS_PAID_AT_SOURCE, se_chain_id = 102031,
     se_token = Some (''0x'' @ replicate 40 CHR ''a''), se_decimals = 6, se_source_amount = 4000, se_consumption_id = Some ''C1'', se_profile = EP_NATIVE_TESTNET\<rparr>"

definition sample_consumption :: evidence_consumption where
  "sample_consumption = \<lparr>ec_id = ''C1'', ec_env_id = ''e'', ec_source_event_id = ''s'', ec_economic_event_id = ''x'', ec_verification_id = ''V1'',
     ec_method = VM_ATTESTCOIN_NATIVE, ec_trust = TR_PROVEN, ec_profile = EP_NATIVE_TESTNET, ec_proven_at = 1, ec_valid_until = 2, ec_chain_key = 1,
     ec_height = 1, ec_tx_index = 0, ec_log_ordinal = 0, ec_provider_account_id = ''A1'', ec_meaning = EM_PAYOUT, ec_manifest_hash = ''m''\<rparr>"

definition sample_verification :: native_verification where
  "sample_verification = \<lparr>nv_id = ''V1'', nv_request_id = ''R1'', nv_artifact_id = ''T1'', nv_profile = EP_NATIVE_TESTNET, nv_method = VM_ATTESTCOIN_NATIVE,
     nv_destination_chain_id = 1, nv_submission_tx_hash = ''h'', nv_block = None, nv_receipt_status = Some 1, nv_status = VS_ACCEPTED,
     nv_accepted_at = Some 1, nv_proven_height = None, nv_proven_tx_index = None\<rparr>"

definition sample_leg_db :: cash_db where
  "sample_leg_db = sample_cash_db\<lparr>db_settlements := [sample_settlement], db_consumptions := [sample_consumption],
     db_verifications := [sample_verification], db_accounts := [\<lparr>ac_id = ''A1'', ac_provider_id = ''P1'', ac_external_id = ''x'', ac_borrower_id = ''B1''\<rparr>]\<rparr>"

lemmas sample_leg_defs = sample_binding_def sample_quote_def sample_adapter_def settlement_reader_def sample_asset_def asset_key_def
  sample_settlement_def sample_consumption_def sample_verification_def

lemma sample_leg_tables [simp]:
  "db_outbox sample_leg_db = []" "db_jobs sample_leg_db = []" "db_cash_receipts sample_leg_db = []" "db_allocations sample_leg_db = []"
  "db_exceptions sample_leg_db = []" "db_facilities sample_leg_db = db_facilities sample_cash_db" "db_settlements sample_leg_db = [sample_settlement]"
  "db_consumptions sample_leg_db = [sample_consumption]" "db_verifications sample_leg_db = [sample_verification]"
  "db_accounts sample_leg_db = [\<lparr>ac_id = ''A1'', ac_provider_id = ''P1'', ac_external_id = ''x'', ac_borrower_id = ''B1''\<rparr>]"
  by (simp_all add: sample_leg_db_def sample_cash_db_def empty_rcv_db_def empty_proof_db_def rcv_db.defs proof_db.defs core_db.defs)

definition sample_plan_event :: outbox_row where
  "sample_plan_event = \<lparr>o_id = 1, o_aggregate_type = ''settlement'', o_aggregate_id = qt_settlement_id sample_quote, o_event_type = ''SETTLEMENT_LEG_PLANNED'',
     o_key = leg_key ''settlement-plan'' sample_binding sample_quote, o_payload = quote_json sample_quote, o_attempt = 0, o_created_at = 5000000,
     o_published_at = None\<rparr>"

definition sample_leg_job :: job_row where
  "sample_leg_job = new_job id 5000000 ''J1'' ''SETTLEMENT_LEG'' (quote_json sample_quote) (leg_key ''settlement-leg'' sample_binding sample_quote) 100 None"

definition sample_planned :: cash_db where
  "sample_planned = sample_leg_db\<lparr>db_outbox := [sample_plan_event], db_jobs := [sample_leg_job]\<rparr>"

lemma sample_validated: "validate_quote sample_quote sample_binding 5 = Inr ()"
  by (simp add: validate_quote_def sample_leg_defs ensure_def)

lemma sample_backed: "settlement_backed sample_binding sample_settlement db" if "db_consumptions db = [sample_consumption]" "db_verifications db = [sample_verification]"
  using that by (simp add: settlement_backed_def payout_evidence_def find_opt_def payout_verification_def sample_leg_defs)

lemma sample_leg_planned: "enqueue_leg id 5000000 ''J1'' sample_binding sample_adapter sample_quote 5 sample_leg_db = Inr (sample_planned, ''J1'')"
proof -
  have s: "settlement_of_quote sample_quote sample_leg_db = Some sample_settlement"
    by (simp add: settlement_of_quote_def sample_quote_def sample_settlement_def)
  have "qt_source_amount sample_quote \<le> se_source_amount sample_settlement" by (simp add: sample_quote_def sample_settlement_def)
  then have p: "plan_leg 5000000 sample_binding sample_settlement sample_quote sample_leg_db = Inr (sample_leg_db\<lparr>db_outbox := [sample_plan_event]\<rparr>)"
    by (simp add: plan_leg_def reserved_def emit_def has_key_def sample_plan_event_def Let_def) (simp add: leg_key_def)
  have e: "enqueue id 5000000 ''J1'' ''SETTLEMENT_LEG'' (quote_json sample_quote) (leg_key ''settlement-leg'' sample_binding sample_quote) 100 None
      (sample_leg_db\<lparr>db_outbox := [sample_plan_event]\<rparr>) = Inr (sample_planned, ''J1'')"
    by (simp add: enqueue_def sample_leg_job_def sample_planned_def job_checks_def has_key_def Let_def) (simp add: leg_key_def new_job_def)
  show ?thesis
    by (simp add: enqueue_leg_def sample_validated sample_backed s p e) (simp add: sample_adapter_def sample_binding_def ensure_def)
qed

lemma sample_leg_replanned: "enqueue_leg id 5000000 ''J2'' sample_binding sample_adapter sample_quote 5 sample_planned = Inr (sample_planned, ''J1'')"
proof -
  have s: "settlement_of_quote sample_quote sample_planned = Some sample_settlement"
    by (simp add: settlement_of_quote_def sample_planned_def sample_quote_def sample_settlement_def)
  have p: "plan_leg 5000000 sample_binding sample_settlement sample_quote sample_planned = Inr sample_planned"
    by (simp add: plan_leg_def sample_planned_def sample_plan_event_def)
  have e: "enqueue id 5000000 ''J2'' ''SETTLEMENT_LEG'' (quote_json sample_quote) (leg_key ''settlement-leg'' sample_binding sample_quote) 100 None
      sample_planned = Inr (sample_planned, ''J1'')"
    by (simp add: enqueue_def sample_leg_job_def sample_planned_def job_checks_def Let_def) (simp add: leg_key_def new_job_def)
  show ?thesis
    by (simp add: enqueue_leg_def sample_validated sample_backed s p e sample_planned_def [THEN arg_cong [of _ _ db_consumptions]]
        sample_planned_def [THEN arg_cong [of _ _ db_verifications]]) (simp add: sample_adapter_def sample_binding_def ensure_def)
qed

definition sample_ack_event :: outbox_row where
  "sample_ack_event = \<lparr>o_id = 2, o_aggregate_type = ''settlement'', o_aggregate_id = qt_settlement_id sample_quote,
     o_event_type = ''SETTLEMENT_LEG_ACKNOWLEDGED'', o_key = leg_key ''settlement-ack'' sample_binding sample_quote,
     o_payload = JObj [(''reference'', JStr ''tx-9''), (''legId'', JStr (qt_leg_id sample_quote)), (''cashState'', JStr ''IN_FLIGHT''), (''debtApplied'', JBool False)],
     o_attempt = 0, o_created_at = 5000000, o_published_at = None\<rparr>"

definition sample_acked :: cash_db where
  "sample_acked = sample_planned\<lparr>db_outbox := [sample_plan_event, sample_ack_event]\<rparr>"

lemma sample_leg_sent:
  "leg_reference id 5000000 ''J2'' sample_binding sample_adapter sample_quote sample_planned = (Send_Answered ''tx-9'', Inr (''tx-9'', no_pending, sample_acked))"
proof -
  have none: "\<not> has_key o_key (db_outbox sample_planned) (leg_key ''settlement-ack'' sample_binding sample_quote)"
    by (simp add: has_key_def sample_planned_def sample_plan_event_def leg_key_def)
  have p: "pending_of sample_planned sample_planned = no_pending" by (simp add: pending_of_def no_pending_def)
  have l: "sa_lookup sample_adapter k = Inr None" "sa_send sample_adapter q k = Inr ''tx-9''" for k q by (simp_all add: sample_adapter_def)
  have ne: "leg_key ''settlement-ack'' sample_binding sample_quote \<noteq> []" by (simp add: leg_key_def)
  have "acknowledge 5000000 sample_binding sample_quote ''tx-9'' no_pending sample_planned = Inr (''tx-9'', no_pending, sample_acked)"
    using none ne by (simp add: acknowledge_def emit_def Let_def sample_acked_def sample_ack_event_def) (simp add: sample_planned_def)
  then show ?thesis by (simp add: leg_reference_def no_ack [OF none] l p sample_leg_replanned)
qed

lemma sample_acked_tables [simp]:
  "db_outbox sample_acked = [sample_plan_event, sample_ack_event]" "db_cash_receipts sample_acked = []" "db_allocations sample_acked = []"
  "db_exceptions sample_acked = []" "db_settlements sample_acked = [sample_settlement]" "db_facilities sample_acked = db_facilities sample_cash_db"
  "db_accounts sample_acked = [\<lparr>ac_id = ''A1'', ac_provider_id = ''P1'', ac_external_id = ''x'', ac_borrower_id = ''B1''\<rparr>]"
  by (simp_all add: sample_acked_def sample_planned_def)

lemma sample_keys [simp]:
  "o_key sample_plan_event = ''settlement-plan:rail-1:leg-1''" "o_key sample_ack_event = ''settlement-ack:rail-1:leg-1''"
  by (simp_all add: sample_plan_event_def sample_ack_event_def leg_key_def sample_binding_def sample_quote_def)

lemma sample_leg_received:
  "\<exists>db. receive_leg (\<lambda>_. ''X'') 5000000 sample_binding sample_quote settlement_reader ''ref'' (the (rd_receipt settlement_reader ''ref'')) sample_acked =
     Inr (db, \<lparr>re_entity_id = Some (replicate 26 CHR ''1''), re_created = True, re_reason = None\<rparr>) \<and>
     db_cash_receipts db = [new_cash_receipt (the (rd_receipt settlement_reader ''ref'')) sample_route 5] \<and> db_allocations db = [] \<and>
     db_facilities db = db_facilities sample_cash_db \<and> db_exceptions db = [] \<and> db_settlements db = [sample_settlement] \<and>
     db_accounts db = db_accounts sample_acked \<and> db_outbox db \<noteq> []"
  by (simp add: receive_leg_def leg_route_def record_destination_receipt_def store_receipt_def insert_cash_receipt_def cash_receipt_checks_def
      check_receipt_fact_def emit_def receipt_event_key_def has_key_def settlement_unreconciled_def find_opt_def sample_defs sample_leg_defs Let_def ensure_def)

lemma sample_leg_allocated:
  assumes "db_cash_receipts db = [new_cash_receipt (the (rd_receipt settlement_reader ''ref'')) sample_route 5]" and "db_allocations db = []"
    and "db_facilities db = db_facilities sample_cash_db" and "db_exceptions db = []" and "db_settlements db = [sample_settlement]"
    and "db_accounts db = db_accounts sample_acked"
  shows "\<exists>db'. allocate_leg (\<lambda>_. ''X'') 5000000 sample_binding sample_quote settlement_reader ''tx-9'' ''ref'' db = Inr db'"
proof -
  have "\<exists>db1. record_confirmed_allocation (\<lambda>_. ''X'') 5000000 ''ref'' (Some settlement_reader) db =
      Inr (db1, \<lparr>re_entity_id = Some (replicate 26 CHR ''2''), re_created = True, re_reason = None\<rparr>)"
    by (simp add: record_confirmed_allocation_def check_allocation_fact_def allocate_receipt_def store_allocation_def insert_allocation_def
      hcg_allocations_within_receipt_def allocation_checks_def new_allocation_def allocated_of_def mark_allocated_def update_where_def emit_def
      route_mismatch_def cash_quarantined_def other_borrower_def find_opt_def assms sample_defs sample_leg_defs sample_cash_db_def has_key_def Let_def ensure_def)
  then show ?thesis by (auto simp: allocate_leg_def emit_def leg_key_def Let_def ensure_def)
qed

lemma sample_leg_handled:
  "\<exists>committed db. handle_leg id (\<lambda>_. ''X'') 5000000 ''J2'' sample_binding sample_adapter (Some settlement_reader) (quote_json sample_quote) sample_planned =
     (Send_Answered ''tx-9'', committed, Inr db) \<and> db_settlements db = [sample_settlement]"
proof -
  have q: "quote_of_payload (quote_json sample_quote) = Inr sample_quote"
    by (simp add: quote_of_payload_def quote_json_def str_field_def int_field_def json_get_def)
  have s: "settlement_of_quote sample_quote sample_planned \<noteq> None"
    by (simp add: settlement_of_quote_def sample_planned_def sample_quote_def sample_settlement_def)
  obtain db1 where r: "receive_leg (\<lambda>_. ''X'') 5000000 sample_binding sample_quote settlement_reader ''ref'' (the (rd_receipt settlement_reader ''ref'')) sample_acked =
     Inr (db1, \<lparr>re_entity_id = Some (replicate 26 CHR ''1''), re_created = True, re_reason = None\<rparr>)"
    and t: "db_cash_receipts db1 = [new_cash_receipt (the (rd_receipt settlement_reader ''ref'')) sample_route 5]" "db_allocations db1 = []"
     "db_facilities db1 = db_facilities sample_cash_db" "db_exceptions db1 = []" "db_settlements db1 = [sample_settlement]"
     "db_accounts db1 = db_accounts sample_acked"
    using sample_leg_received by blast
  obtain db2 where a: "allocate_leg (\<lambda>_. ''X'') 5000000 sample_binding sample_quote settlement_reader ''tx-9'' ''ref'' db1 = Inr db2"
    using sample_leg_allocated [OF t] by blast
  obtain f where f: "rd_receipt settlement_reader ''ref'' = Some f" "rf_source_kind f = ''SETTLEMENT''" "rf_settlement_id f = Some (qt_settlement_id sample_quote)"
    by (simp add: settlement_reader_def sample_reader_def sample_quote_def)
  have o: "sa_observe sample_adapter ''tx-9'' = Inr \<lparr>lo_state = ''DESTINATION_RECEIVED'', lo_reference = ''tx-9'', lo_receipt_reference = Some ''ref''\<rparr>"
    by (simp add: sample_adapter_def)
  have "conclude_leg (\<lambda>_. ''X'') 5000000 sample_binding sample_adapter (Some settlement_reader) sample_quote ''tx-9'' no_pending sample_acked = (db1, Inr db2)"
    using r a f by (simp add: conclude_leg_def o)
  moreover have "db_settlements db2 = [sample_settlement]" using allocate_leg_quiet [OF a] t(5) by (simp add: quiet_def)
  ultimately show ?thesis using q s sample_leg_sent by (simp add: handle_leg_def)
qed

lemma sample_leg_start: "leg_start (sample_leg_db, [])"
  by (simp add: leg_start_def unique_on_def sample_settlement_def)

lemma sample_leg_run:
  "\<exists>db. (leg_step id)\<^sup>*\<^sup>* (sample_leg_db, []) (db, [((''rail-1'', ''leg-1''), ''tx-9'')]) \<and> db_settlements db = [sample_settlement]"
proof -
  obtain committed db where h: "handle_leg id (\<lambda>_. ''X'') 5000000 ''J2'' sample_binding sample_adapter (Some settlement_reader) (quote_json sample_quote) sample_planned =
     (Send_Answered ''tx-9'', committed, Inr db)" and st: "db_settlements db = [sample_settlement]" using sample_leg_handled by blast
  have q: "quote_of_payload (quote_json sample_quote) = Inr sample_quote"
    by (simp add: quote_of_payload_def quote_json_def str_field_def int_field_def json_get_def)
  have "leg_step id (sample_leg_db, []) (sample_planned, [])" by (rule plan [OF sample_leg_planned])
  moreover have "leg_step id (sample_planned, []) (db, [] @ log_send sample_binding (quote_json sample_quote) (Send_Answered ''tx-9''))"
    by (rule handle [OF h]) simp
  then have "leg_step id (sample_planned, []) (db, [((''rail-1'', ''leg-1''), ''tx-9'')])"
    by (simp add: log_send_def q) (simp add: sample_binding_def sample_quote_def)
  ultimately have "(leg_step id)\<^sup>*\<^sup>* (sample_leg_db, []) (db, [((''rail-1'', ''leg-1''), ''tx-9'')])"
    by (meson converse_rtranclp_into_rtranclp r_into_rtranclp)
  with st show ?thesis by blast
qed

theorem planned_legs_within_source_witness:
  "\<exists>db sends n. (leg_step id)\<^sup>*\<^sup>* (sample_leg_db, []) (db, sends) \<and> reserved ''S1'' (db_outbox db) = Inr n \<and> n \<le> 4000"
proof -
  obtain db sends where run: "(leg_step id)\<^sup>*\<^sup>* (sample_leg_db, []) (db, sends)" and st: "db_settlements db = [sample_settlement]"
    using sample_leg_run by blast
  from planned_legs_within_source [OF sample_leg_start run] st run show ?thesis by (auto simp: sample_settlement_def)
qed


theorem finished_leg_has_cash_witness:
  "\<exists>committed db. handle_leg id (\<lambda>_. ''X'') 5000000 ''J2'' sample_binding sample_adapter (Some settlement_reader) (quote_json sample_quote) sample_planned =
     (Send_Answered ''tx-9'', committed, Inr db) \<and> db_allocations committed = []"
proof -
  obtain committed db where h: "handle_leg id (\<lambda>_. ''X'') 5000000 ''J2'' sample_binding sample_adapter (Some settlement_reader) (quote_json sample_quote)
     sample_planned = (Send_Answered ''tx-9'', committed, Inr db)" using sample_leg_handled by blast
  from finished_leg_has_cash [OF h] have "db_allocations committed = []" by (simp add: sample_planned_def)
  with h show ?thesis by blast
qed

end
