(* ===== verification/Asset_Registry.thy ===== *)
theory Asset_Registry
  imports Receivables
begin

text \<open>
  The GPU asset registry (\<open>assets/registry.py\<close>, \<open>assets/encumbrance.py\<close>, \<open>assets/evidence.py\<close>, \<open>assets/roles.py\<close>) over the
  tables of \<open>db/models.py\<close> and \<open>db/assets_models.py\<close>: physical assets with identity keys that have lifetimes,
  partitions, provider assignments, review flags, third-party rights, custody documents, and the
  encumbrances by which facilities take assets as collateral. An operation is a transaction: a raise leaves the
  database as it was. \<open>now\<close> is the clock of the call.
\<close>

section \<open>Errors and roles\<close>

datatype assets_error = NotFound string | Forbidden string | InvalidState string | NotOwnershipEvidence string | DbError app_error

definition REGISTER_ROLES :: "string list" where
  "REGISTER_ROLES = [role_value R_OPERATOR, role_value R_SYSTEM]"

definition REVIEW_ROLES :: "string list" where
  "REVIEW_ROLES = [role_value R_UNDERWRITER]"

definition RELEASE_ROLES :: "string list" where
  "RELEASE_ROLES = [role_value R_UNDERWRITER, role_value R_OPERATOR]"

definition require_role :: "string \<Rightarrow> string list \<Rightarrow> string \<Rightarrow> assets_error + string" where
  "require_role rl allowed action =
    ensure (rl \<in> set role_values) (Forbidden (''unknown role for '' @ action))
    (ensure (rl \<in> set allowed) (Forbidden (''role may not '' @ action)) (Inr rl))"

section \<open>Tables\<close>

definition is_doc_ref :: "string \<Rightarrow> bool" where
  "is_doc_ref s \<longleftrightarrow> starts_with ''vault://'' s \<or> starts_with ''secret://'' s \<or> starts_with ''doc://'' s"

definition doc_ref_ok :: "string option \<Rightarrow> bool" where
  "doc_ref_ok r = (case r of None \<Rightarrow> True | Some s \<Rightarrow> is_doc_ref s)"

record gpu_asset =
  ga_id :: string
  ga_kind :: string
  ga_sku :: "string option"
  ga_unit_count :: int
  ga_ownership :: string
  ga_custodian :: "string option"
  ga_location :: "string option"
  ga_parent_id :: "string option"
  ga_eligible :: bool
  ga_status :: string
  ga_replaces_id :: "string option"
  ga_ownership_review :: string
  ga_identity_confidence :: string
  ga_review_ref :: "string option"

definition ASSET_KINDS :: "string list" where
  "ASSET_KINDS = map asset_kind_value [AK_PHYSICAL_GPU, AK_MIG_PARTITION, AK_VGPU, AK_VM, AK_CONTAINER, AK_STAKING_GROUP, AK_NODE_NFT]"

definition gpu_asset_checks :: "gpu_asset \<Rightarrow> bool" where
  "gpu_asset_checks a \<longleftrightarrow> is_ulid (ga_id a) \<and> ga_kind a \<in> set ASSET_KINDS \<and> 0 < ga_unit_count a \<and> ga_ownership a \<in> {''OWNED'', ''LEASED'', ''UNKNOWN''} \<and>
     ga_parent_id a \<noteq> Some (ga_id a) \<and> (ga_eligible a \<longrightarrow> ga_ownership a \<noteq> ''UNKNOWN'') \<and> ga_status a \<in> {''ACTIVE'', ''RETIRED''} \<and>
     ga_replaces_id a \<noteq> Some (ga_id a) \<and> ga_ownership_review a \<in> {''UNVERIFIED'', ''VERIFIED'', ''REJECTED''} \<and>
     ga_identity_confidence a \<in> {''LOW'', ''MEDIUM'', ''HIGH''} \<and> doc_ref_ok (ga_review_ref a) \<and>
     (ga_eligible a \<longrightarrow> ga_ownership_review a = ''VERIFIED'' \<and> ga_status a = ''ACTIVE'')"

record identity_key =
  ik_asset_id :: string
  ik_scheme :: string
  ik_value :: string
  ik_provenance :: json
  ik_recorded_at :: int
  ik_retired_at :: "int option"

definition KEY_SCHEMES :: "string list" where
  "KEY_SCHEMES = [''GPU_UUID'', ''SERIAL'', ''HOST_ID'', ''GROUP_ID'', ''NFT_TOKEN'', ''NIC_MAC'']"

definition identity_key_checks :: "identity_key \<Rightarrow> bool" where
  "identity_key_checks k \<longleftrightarrow> ik_scheme k \<in> set KEY_SCHEMES \<and> (case ik_retired_at k of None \<Rightarrow> True | Some t \<Rightarrow> ik_recorded_at k \<le> t)"

definition key_active :: "identity_key \<Rightarrow> bool" where
  "key_active k \<longleftrightarrow> ik_retired_at k = None"

definition key_name :: "identity_key \<Rightarrow> string \<times> string" where
  "key_name k = (ik_scheme k, ik_value k)"

record provider_assignment =
  pn_id :: string
  pn_asset_id :: string
  pn_account_id :: string
  pn_started_at :: int
  pn_ended_at :: "int option"
  pn_reason :: string
  pn_provenance :: json

definition provider_assignment_checks :: "provider_assignment \<Rightarrow> bool" where
  "provider_assignment_checks a \<longleftrightarrow> is_ulid (pn_id a) \<and> pn_reason a \<in> {''ONBOARD'', ''MOVE'', ''RMA'', ''OFFBOARD''} \<and>
     (case pn_ended_at a of None \<Rightarrow> True | Some t \<Rightarrow> pn_started_at a < t)"

definition assignment_open :: "provider_assignment \<Rightarrow> bool" where
  "assignment_open a \<longleftrightarrow> pn_ended_at a = None"

record encumbrance =
  en_id :: string
  en_asset_id :: string
  en_holder :: string
  en_priority :: int
  en_kind :: string
  en_document_ref :: "string option"
  en_valid_from :: int
  en_facility_id :: "string option"
  en_status :: string
  en_released_at :: "int option"

definition encumbrance_checks :: "encumbrance \<Rightarrow> bool" where
  "encumbrance_checks e \<longleftrightarrow> is_ulid (en_id e) \<and> en_status e \<in> {''OPEN'', ''RELEASED''} \<and> (en_status e = ''RELEASED'') = (en_released_at e \<noteq> None) \<and>
     0 < en_priority e \<and> en_kind e \<in> {''LIEN'', ''ASSIGNMENT'', ''LEASE'', ''PLEDGE''} \<and> doc_ref_ok (en_document_ref e)"

definition financed :: "encumbrance \<Rightarrow> bool" where
  "financed e \<longleftrightarrow> en_status e = ''OPEN'' \<and> en_facility_id e \<noteq> None"

record custody_document =
  cu_asset_id :: string
  cu_kind :: string
  cu_document_ref :: string
  cu_document_hash :: "string option"

definition custody_document_checks :: "custody_document \<Rightarrow> bool" where
  "custody_document_checks d \<longleftrightarrow> is_doc_ref (cu_document_ref d) \<and> (case cu_document_hash d of None \<Rightarrow> True | Some h \<Rightarrow> is_hex32 h)"

record review_flag =
  fg_id :: int
  fg_asset_id :: string
  fg_flag :: string
  fg_details :: json
  fg_resolved_at :: "int option"
  fg_resolved_by :: "string option"
  fg_resolution :: "string option"

definition ASSET_FLAGS :: "string list" where
  "ASSET_FLAGS = [''DUPLICATE_LISTING'', ''OWNERSHIP_UNVERIFIED'', ''LEASE_UNVERIFIED'', ''PRIORITY_CONFLICT'', ''RMA_PENDING'']"

record asset_db =
  gd_assets :: "gpu_asset list"
  gd_keys :: "identity_key list"
  gd_assignments :: "provider_assignment list"
  gd_encumbrances :: "encumbrance list"
  gd_documents :: "custody_document list"
  gd_flags :: "review_flag list"
  gd_facilities :: "facility_row list"
  gd_accounts :: "account_row list"

section \<open>Statements\<close>

definition insert_asset :: "gpu_asset \<Rightarrow> asset_db \<Rightarrow> assets_error + asset_db" where
  "insert_asset a db =
    ensure (gpu_asset_checks a) (DbError (IntegrityError ''ck_gpu_assets''))
    (ensure (\<not> has_key ga_id (gd_assets db) (ga_id a)) (DbError (IntegrityError ''gpu_assets_pkey''))
    (ensure ((case ga_parent_id a of None \<Rightarrow> True | Some p \<Rightarrow> has_key ga_id (gd_assets db) p) \<and>
             (case ga_replaces_id a of None \<Rightarrow> True | Some p \<Rightarrow> has_key ga_id (gd_assets db) p)) (DbError (IntegrityError ''fk_gpu_assets''))
      (Inr (db\<lparr>gd_assets := gd_assets db @ [a]\<rparr>))))"

definition update_asset :: "string \<Rightarrow> (gpu_asset \<Rightarrow> gpu_asset) \<Rightarrow> asset_db \<Rightarrow> assets_error + asset_db" where
  "update_asset aid f db =
    ensure (\<forall>a \<in> set (gd_assets db). ga_id a = aid \<longrightarrow> gpu_asset_checks (f a)) (DbError (IntegrityError ''ck_gpu_assets''))
      (Inr (db\<lparr>gd_assets := update_where (\<lambda>a. ga_id a = aid) f (gd_assets db)\<rparr>))"

definition insert_identity_key :: "identity_key \<Rightarrow> asset_db \<Rightarrow> assets_error + asset_db" where
  "insert_identity_key k db =
    ensure (identity_key_checks k) (DbError (IntegrityError ''ck_asset_identity_keys''))
    (ensure (\<not> (\<exists>q \<in> set (gd_keys db). key_active q \<and> key_name q = key_name k)) (DbError (IntegrityError ''uq_asset_identity_keys_active''))
    (ensure (has_key ga_id (gd_assets db) (ik_asset_id k)) (DbError (IntegrityError ''fk_asset_identity_keys''))
      (Inr (db\<lparr>gd_keys := gd_keys db @ [k]\<rparr>))))"

definition retire_keys :: "int \<Rightarrow> (identity_key \<Rightarrow> bool) \<Rightarrow> asset_db \<Rightarrow> assets_error + asset_db" where
  "retire_keys now p db =
    ensure (\<forall>k \<in> set (gd_keys db). p k \<longrightarrow> identity_key_checks (k\<lparr>ik_retired_at := Some now\<rparr>)) (DbError (IntegrityError ''ck_asset_identity_keys_lifetime''))
      (Inr (db\<lparr>gd_keys := update_where p (\<lambda>k. k\<lparr>ik_retired_at := Some now\<rparr>) (gd_keys db)\<rparr>))"

definition insert_assignment :: "provider_assignment \<Rightarrow> asset_db \<Rightarrow> assets_error + asset_db" where
  "insert_assignment a db =
    ensure (provider_assignment_checks a) (DbError (IntegrityError ''ck_asset_assignments''))
    (ensure (\<not> has_key pn_id (gd_assignments db) (pn_id a)) (DbError (IntegrityError ''asset_provider_assignments_pkey''))
    (ensure (\<not> (\<exists>q \<in> set (gd_assignments db). assignment_open q \<and> pn_asset_id q = pn_asset_id a)) (DbError (IntegrityError ''uq_asset_assignments_open''))
    (ensure (has_key ga_id (gd_assets db) (pn_asset_id a) \<and> has_key ac_id (gd_accounts db) (pn_account_id a)) (DbError (IntegrityError ''fk_asset_assignments''))
      (Inr (db\<lparr>gd_assignments := gd_assignments db @ [a]\<rparr>)))))"

definition insert_encumbrance :: "encumbrance \<Rightarrow> asset_db \<Rightarrow> assets_error + asset_db" where
  "insert_encumbrance e db =
    ensure (encumbrance_checks e) (DbError (IntegrityError ''ck_asset_encumbrances''))
    (ensure (\<not> has_key en_id (gd_encumbrances db) (en_id e)) (DbError (IntegrityError ''asset_encumbrances_pkey''))
    (ensure (\<not> (financed e \<and> (\<exists>q \<in> set (gd_encumbrances db). financed q \<and> en_asset_id q = en_asset_id e)))
      (DbError (IntegrityError ''uq_asset_encumbrances_open_facility''))
    (ensure (has_key ga_id (gd_assets db) (en_asset_id e) \<and> (case en_facility_id e of None \<Rightarrow> True | Some f \<Rightarrow> has_key fa_id (gd_facilities db) f))
      (DbError (IntegrityError ''fk_asset_encumbrances''))
      (Inr (db\<lparr>gd_encumbrances := gd_encumbrances db @ [e]\<rparr>)))))"

definition close_encumbrance :: "int \<Rightarrow> string \<Rightarrow> asset_db \<Rightarrow> asset_db" where
  "close_encumbrance now eid db = db\<lparr>gd_encumbrances :=
     update_where (\<lambda>e. en_id e = eid) (\<lambda>e. e\<lparr>en_status := ''RELEASED'', en_released_at := Some now\<rparr>) (gd_encumbrances db)\<rparr>"

definition insert_document :: "custody_document \<Rightarrow> asset_db \<Rightarrow> assets_error + asset_db" where
  "insert_document d db = ensure (custody_document_checks d) (DbError (IntegrityError ''ck_custody_documents''))
    (Inr (db\<lparr>gd_documents := gd_documents db @ [d]\<rparr>))"

section \<open>Look-ups and flags\<close>

definition active_keys :: "string \<Rightarrow> asset_db \<Rightarrow> identity_key list" where
  "active_keys aid db = filter (\<lambda>k. ik_asset_id k = aid \<and> key_active k) (gd_keys db)"

definition key_history :: "string \<Rightarrow> asset_db \<Rightarrow> identity_key list" where
  "key_history aid db = filter (\<lambda>k. ik_asset_id k = aid) (gd_keys db)"

definition get_asset :: "string \<Rightarrow> asset_db \<Rightarrow> assets_error + gpu_asset" where
  "get_asset aid db = (case List.find (\<lambda>a. ga_id a = aid) (gd_assets db) of None \<Rightarrow> Inl (NotFound (''asset '' @ aid)) | Some a \<Rightarrow> Inr a)"

definition find_asset_by_key :: "string \<times> string \<Rightarrow> asset_db \<Rightarrow> gpu_asset option" where
  "find_asset_by_key name db =
    (case List.find (\<lambda>k. key_name k = name \<and> key_active k) (gd_keys db) of
       None \<Rightarrow> None | Some k \<Rightarrow> List.find (\<lambda>a. ga_id a = ik_asset_id k) (gd_assets db))"

definition open_assignment :: "string \<Rightarrow> asset_db \<Rightarrow> provider_assignment option" where
  "open_assignment aid db = List.find (\<lambda>a. pn_asset_id a = aid \<and> assignment_open a) (gd_assignments db)"

definition open_flags :: "string \<Rightarrow> asset_db \<Rightarrow> review_flag list" where
  "open_flags aid db = filter (\<lambda>f. fg_asset_id f = aid \<and> fg_resolved_at f = None) (gd_flags db)"

definition asset_children :: "string \<Rightarrow> asset_db \<Rightarrow> gpu_asset list" where
  "asset_children aid db = sort_key ga_id (filter (\<lambda>a. ga_parent_id a = Some aid) (gd_assets db))"

definition raise_flag :: "string \<Rightarrow> string \<Rightarrow> json \<Rightarrow> asset_db \<Rightarrow> assets_error + (asset_db \<times> review_flag)" where
  "raise_flag aid flag details db =
    then_do (get_asset aid db) (\<lambda>_.
    (let row = \<lparr>fg_id = int (length (gd_flags db)) + 1, fg_asset_id = aid, fg_flag = flag, fg_details = details, fg_resolved_at = None,
       fg_resolved_by = None, fg_resolution = None\<rparr>
     in ensure (flag \<in> set ASSET_FLAGS) (DbError (IntegrityError ''ck_asset_review_flags_flag''))
       (then_do (update_asset aid (\<lambda>a. a\<lparr>ga_eligible := False\<rparr>) db) (\<lambda>db. Inr (db\<lparr>gd_flags := gd_flags db @ [row]\<rparr>, row)))))"

definition resolve_flag :: "int \<Rightarrow> int \<Rightarrow> string \<Rightarrow> string \<Rightarrow> asset_db \<Rightarrow> assets_error + asset_db" where
  "resolve_flag now flag_id by_role resolution db =
    then_do (require_role by_role REVIEW_ROLES ''resolve an asset review flag'') (\<lambda>_.
    (case List.find (\<lambda>f. fg_id f = flag_id) (gd_flags db) of
       None \<Rightarrow> Inl (NotFound ''flag'')
     | Some f \<Rightarrow> ensure (fg_resolved_at f = None) (InvalidState ''flag already resolved'')
         (Inr (db\<lparr>gd_flags := update_where (\<lambda>f. fg_id f = flag_id)
            (\<lambda>f. f\<lparr>fg_resolved_at := Some now, fg_resolved_by := Some by_role, fg_resolution := Some resolution\<rparr>) (gd_flags db)\<rparr>))))"

section \<open>Assignments to provider accounts\<close>

definition or_json :: "json option \<Rightarrow> json \<Rightarrow> json" where
  "or_json j alt = (case j of None \<Rightarrow> alt | Some (JObj []) \<Rightarrow> alt | Some v \<Rightarrow> v)"

fun json_with :: "json \<Rightarrow> (string \<times> json) list \<Rightarrow> json" where
  "json_with (JObj kvs) extra = JObj (fold (\<lambda>(k, v) d. dict_set k v d) extra kvs)"
| "json_with _ extra = JObj extra"

text \<open>The result is the new assignment, or the flag that was raised instead.\<close>

definition assign_provider ::
  "int \<Rightarrow> string \<Rightarrow> string \<Rightarrow> string \<Rightarrow> string \<Rightarrow> string \<Rightarrow> int option \<Rightarrow> json option \<Rightarrow> asset_db \<Rightarrow>
   assets_error + (asset_db \<times> (provider_assignment + review_flag))" where
  "assign_provider now aid account by_role reason assignment_id started provenance db =
    then_do (require_role by_role REGISTER_ROLES ''assign an asset to a provider'') (\<lambda>_.
    then_do (get_asset aid db) (\<lambda>asset.
    ensure (ga_status asset = ''ACTIVE'') (InvalidState ''retired asset cannot be assigned'')
    (ensure (has_key ac_id (gd_accounts db) account) (NotFound (''provider account '' @ account))
    (case open_assignment aid db of
       Some cur \<Rightarrow>
         ensure (pn_account_id cur \<noteq> account) (InvalidState ''asset already live on this provider account'')
         (then_do (raise_flag aid ''DUPLICATE_LISTING''
            (JObj [(''existingProviderAccountId'', JStr (pn_account_id cur)), (''attemptedProviderAccountId'', JStr account)]) db)
            (\<lambda>(db, f). Inr (db, Inr f)))
     | None \<Rightarrow>
         (let row = \<lparr>pn_id = assignment_id, pn_asset_id = aid, pn_account_id = account, pn_started_at = (case started of None \<Rightarrow> now | Some t \<Rightarrow> t),
            pn_ended_at = None, pn_reason = reason, pn_provenance = or_json provenance (JObj [(''by'', JStr by_role)])\<rparr>
          in then_do (insert_assignment row db) (\<lambda>db. Inr (db, Inl row)))))))"

definition finish_assignment :: "int \<Rightarrow> string \<Rightarrow> (string \<times> json) list \<Rightarrow> asset_db \<Rightarrow> assets_error + asset_db" where
  "finish_assignment ended aid extra db =
    (let f = (\<lambda>a. a\<lparr>pn_ended_at := Some ended, pn_provenance := json_with (pn_provenance a) extra\<rparr>);
         p = (\<lambda>a. pn_asset_id a = aid \<and> assignment_open a)
     in ensure (\<forall>a \<in> set (gd_assignments db). p a \<longrightarrow> provider_assignment_checks (f a)) (DbError (IntegrityError ''ck_asset_assignments_period''))
         (Inr (db\<lparr>gd_assignments := update_where p f (gd_assignments db)\<rparr>)))"

definition end_assignment :: "int \<Rightarrow> string \<Rightarrow> string \<Rightarrow> string \<Rightarrow> int option \<Rightarrow> asset_db \<Rightarrow> assets_error + asset_db" where
  "end_assignment now aid by_role reason ended db =
    then_do (require_role by_role REGISTER_ROLES ''end an assignment'') (\<lambda>_.
    ensure (open_assignment aid db \<noteq> None) (NotFound (''no open assignment for '' @ aid))
      (finish_assignment (case ended of None \<Rightarrow> now | Some t \<Rightarrow> t) aid [(''endReason'', JStr reason)] db))"

section \<open>Registration\<close>

definition derive_ulid :: "string \<Rightarrow> string \<Rightarrow> string" where
  "derive_ulid base tag = take 26 (take (26 - length tag) base @ tag)"

fun insert_keys :: "int \<Rightarrow> string \<Rightarrow> json \<Rightarrow> (string \<times> string) list \<Rightarrow> asset_db \<Rightarrow> assets_error + asset_db" where
  "insert_keys now aid provenance [] db = Inr db"
| "insert_keys now aid provenance ((scheme, v) # ks) db =
     then_do (insert_identity_key \<lparr>ik_asset_id = aid, ik_scheme = scheme, ik_value = v, ik_provenance = provenance, ik_recorded_at = now,
       ik_retired_at = None\<rparr> db) (insert_keys now aid provenance ks)"

definition opt_json :: "string option \<Rightarrow> json" where
  "opt_json s = (case s of None \<Rightarrow> JNull | Some x \<Rightarrow> JStr x)"

text \<open>The first key that another asset already uses, with that asset.\<close>

fun listed_key :: "(string \<times> string) list \<Rightarrow> asset_db \<Rightarrow> ((string \<times> string) \<times> gpu_asset) option" where
  "listed_key [] db = None"
| "listed_key (k # ks) db = (case find_asset_by_key k db of Some a \<Rightarrow> Some (k, a) | None \<Rightarrow> listed_key ks db)"

record registration_result =
  rg_asset_id :: string
  rg_created :: bool
  rg_conflict :: "review_flag option"

definition new_asset :: "string \<Rightarrow> string \<Rightarrow> gpu_asset" where
  "new_asset aid kind = \<lparr>ga_id = aid, ga_kind = kind, ga_sku = None, ga_unit_count = 1, ga_ownership = ''UNKNOWN'', ga_custodian = None,
     ga_location = None, ga_parent_id = None, ga_eligible = False, ga_status = ''ACTIVE'', ga_replaces_id = None, ga_ownership_review = ''UNVERIFIED'',
     ga_identity_confidence = ''LOW'', ga_review_ref = None\<rparr>"

definition register_asset ::
  "int \<Rightarrow> string \<Rightarrow> string \<Rightarrow> (string \<times> string) list \<Rightarrow> string \<Rightarrow> string option \<Rightarrow> string option \<Rightarrow> int \<Rightarrow> string option \<Rightarrow> string option \<Rightarrow> json option \<Rightarrow>
   string \<Rightarrow> asset_db \<Rightarrow> assets_error + (asset_db \<times> registration_result)" where
  "register_asset now aid kind keys by_role account sku unit_count custodian location key_provenance identity_confidence db =
    then_do (require_role by_role REGISTER_ROLES ''register an asset'') (\<lambda>_.
    ensure (keys \<noteq> []) (InvalidState ''an asset needs at least one identity key'')
    (case listed_key keys db of
       Some ((scheme, v), existing) \<Rightarrow>
         then_do (raise_flag (ga_id existing) ''DUPLICATE_LISTING''
           (JObj [(''attemptedAssetId'', JStr aid), (''attemptedProviderAccountId'', opt_json account),
             (''existingProviderAccountId'', opt_json (map_option pn_account_id (open_assignment (ga_id existing) db))),
             (''key'', JObj [(''scheme'', JStr scheme), (''value'', JStr v)])]) db)
           (\<lambda>(db, f). Inr (db, \<lparr>rg_asset_id = ga_id existing, rg_created = False, rg_conflict = Some f\<rparr>))
     | None \<Rightarrow>
         then_do (insert_asset ((new_asset aid kind)\<lparr>ga_sku := sku, ga_unit_count := unit_count, ga_custodian := custodian, ga_location := location,
           ga_identity_confidence := identity_confidence\<rparr>) db) (\<lambda>db.
         then_do (insert_keys now aid (or_json key_provenance (JObj [(''by'', JStr by_role)])) keys db) (\<lambda>db.
         (case account of
            None \<Rightarrow> Inr (db, \<lparr>rg_asset_id = aid, rg_created = True, rg_conflict = None\<rparr>)
          | Some acc \<Rightarrow> then_do (assign_provider now aid acc by_role ''ONBOARD'' (derive_ulid aid ''AS'') None None db)
              (\<lambda>(db, _). Inr (db, \<lparr>rg_asset_id = aid, rg_created = True, rg_conflict = None\<rparr>)))))))"

definition register_partition ::
  "int \<Rightarrow> string \<Rightarrow> string \<Rightarrow> (string \<times> string) list \<Rightarrow> string \<Rightarrow> string option \<Rightarrow> asset_db \<Rightarrow> assets_error + asset_db" where
  "register_partition now parent_id child_id keys by_role sku db =
    then_do (require_role by_role REGISTER_ROLES ''register a partition'') (\<lambda>_.
    then_do (get_asset parent_id db) (\<lambda>parent.
    ensure (ga_kind parent = ''PHYSICAL_GPU'') (InvalidState ''partitions can only be created under a PHYSICAL_GPU'')
    (ensure (ga_status parent = ''ACTIVE'') (InvalidState ''cannot partition a retired asset'')
    (then_do (insert_asset ((new_asset child_id ''MIG_PARTITION'')\<lparr>ga_sku := sku, ga_parent_id := Some parent_id, ga_ownership := ga_ownership parent\<rparr>) db)
      (insert_keys now child_id (JObj [(''partitionOf'', JStr parent_id)]) keys)))))"

section \<open>Collateral units\<close>

text \<open>The walk to the root asset; a cycle of parents would never end, which is the value \<open>None\<close>.\<close>

partial_function (option) root_of :: "asset_db \<Rightarrow> gpu_asset \<Rightarrow> (assets_error + gpu_asset) option" where
  "root_of db a = (case ga_parent_id a of
     None \<Rightarrow> Some (Inr a)
   | Some p \<Rightarrow> (case get_asset p db of Inl e \<Rightarrow> Some (Inl e) | Inr q \<Rightarrow> root_of db q))"

fun collateral_loop :: "asset_db \<Rightarrow> string list \<Rightarrow> (string, int) dict \<Rightarrow> (assets_error + (string, int) dict) option" where
  "collateral_loop db [] acc = Some (Inr acc)"
| "collateral_loop db (aid # rest) acc =
     (case get_asset aid db of
        Inl e \<Rightarrow> Some (Inl e)
      | Inr a \<Rightarrow>
     (case root_of db a of
        None \<Rightarrow> None
      | Some (Inl e) \<Rightarrow> Some (Inl e)
      | Some (Inr r) \<Rightarrow> collateral_loop db rest (dict_set (ga_id r) (if ga_status r \<noteq> ''ACTIVE'' then 0 else ga_unit_count r) acc)))"

definition collateral_units :: "string list \<Rightarrow> asset_db \<Rightarrow> (assets_error + (string, int) dict) option" where
  "collateral_units ids db = collateral_loop db ids []"

section \<open>Identity changes\<close>

definition change_identity_key ::
  "int \<Rightarrow> string \<Rightarrow> string \<Rightarrow> string option \<Rightarrow> string \<Rightarrow> string \<Rightarrow> (string \<times> json) list \<Rightarrow> asset_db \<Rightarrow> assets_error + asset_db" where
  "change_identity_key now aid scheme old_value new_value by_role provenance db =
    then_do (require_role by_role REGISTER_ROLES ''change an identity key'') (\<lambda>_.
    then_do (get_asset aid db) (\<lambda>asset.
    ensure (ga_status asset = ''ACTIVE'') (InvalidState ''retired asset'')
    (then_do (case old_value of
        None \<Rightarrow> Inr db
      | Some v \<Rightarrow>
          (let p = (\<lambda>k. ik_asset_id k = aid \<and> key_name k = (scheme, v) \<and> key_active k)
           in ensure (\<exists>k \<in> set (gd_keys db). p k) (NotFound (''active key '' @ scheme @ ''='' @ v)) (retire_keys now p db))) (\<lambda>db.
     ensure (find_asset_by_key (scheme, new_value) db = None) (InvalidState (scheme @ ''='' @ new_value @ '' is active on another asset''))
     (insert_identity_key \<lparr>ik_asset_id = aid, ik_scheme = scheme, ik_value = new_value,
        ik_provenance = json_with (JObj provenance) [(''replaces'', opt_json old_value), (''by'', JStr by_role)], ik_recorded_at = now, ik_retired_at = None\<rparr> db)))))"

section \<open>Encumbrances\<close>

definition OUR_HOLDER_PREFIX :: string where
  "OUR_HOLDER_PREFIX = ''facility:''"

definition THIRD_PARTY_KINDS :: "string list" where
  "THIRD_PARTY_KINDS = [''LIEN'', ''PLEDGE'', ''ASSIGNMENT'']"

definition open_encumbrances :: "string \<Rightarrow> asset_db \<Rightarrow> encumbrance list" where
  "open_encumbrances aid db = sort_key (\<lambda>e. (en_priority e, en_id e)) (filter (\<lambda>e. en_asset_id e = aid \<and> en_status e = ''OPEN'') (gd_encumbrances db))"

definition open_facility_encumbrance :: "string \<Rightarrow> asset_db \<Rightarrow> encumbrance option" where
  "open_facility_encumbrance aid db = List.find (\<lambda>e. en_asset_id e = aid \<and> financed e) (gd_encumbrances db)"

definition record_third_party_right ::
  "int \<Rightarrow> string \<Rightarrow> string \<Rightarrow> string \<Rightarrow> string \<Rightarrow> int \<Rightarrow> string \<Rightarrow> string \<Rightarrow> int option \<Rightarrow> asset_db \<Rightarrow> assets_error + asset_db" where
  "record_third_party_right now eid aid holder kind priority document_ref by_role valid_from db =
    then_do (require_role by_role REVIEW_ROLES ''record a third-party right'') (\<lambda>_.
    ensure (\<not> starts_with OUR_HOLDER_PREFIX holder) (InvalidState ''use assign_to_facility for our own encumbrances'')
    (then_do (get_asset aid db) (\<lambda>_.
     then_do (insert_encumbrance \<lparr>en_id = eid, en_asset_id = aid, en_holder = holder, en_priority = priority, en_kind = kind,
       en_document_ref = Some document_ref, en_valid_from = (case valid_from of None \<Rightarrow> now | Some t \<Rightarrow> t), en_facility_id = None,
       en_status = ''OPEN'', en_released_at = None\<rparr> db) (\<lambda>db.
     then_do (raise_flag aid (if kind \<in> set THIRD_PARTY_KINDS then ''PRIORITY_CONFLICT'' else ''LEASE_UNVERIFIED'')
       (JObj [(''encumbranceId'', JStr eid), (''holder'', JStr holder), (''kind'', JStr kind), (''priority'', JInt priority)]) db) (\<lambda>(db, _). Inr db)))))"

definition attach_document :: "string \<Rightarrow> string \<Rightarrow> string \<Rightarrow> string option \<Rightarrow> string \<Rightarrow> asset_db \<Rightarrow> assets_error + asset_db" where
  "attach_document aid kind document_ref document_hash by_role db =
    then_do (require_role by_role (REGISTER_ROLES @ REVIEW_ROLES) ''attach a document'') (\<lambda>_.
    then_do (get_asset aid db) (\<lambda>_.
      insert_document \<lparr>cu_asset_id = aid, cu_kind = kind, cu_document_ref = document_ref, cu_document_hash = document_hash\<rparr> db))"

definition has_document :: "string \<Rightarrow> string \<Rightarrow> asset_db \<Rightarrow> bool" where
  "has_document aid kind db = (\<exists>d \<in> set (gd_documents db). cu_asset_id d = aid \<and> cu_kind d = kind)"

text \<open>Why an asset may not be taken as collateral; \<open>fac\<close> is the facility it would be taken for.\<close>

definition asset_reasons :: "gpu_asset \<Rightarrow> asset_db \<Rightarrow> string list" where
  "asset_reasons asset db =
    (if ga_status asset \<noteq> ''ACTIVE'' then [''status='' @ ga_status asset] else []) @
    (if ga_ownership_review asset \<noteq> ''VERIFIED'' then [''ownershipReview='' @ ga_ownership_review asset] else []) @
    (if ga_ownership asset = ''UNKNOWN'' then [''ownership=UNKNOWN''] else []) @
    (if ga_ownership asset = ''LEASED'' \<and> \<not> has_document (ga_id asset) ''LEASE_CONSENT'' db then [''leased without LEASE_CONSENT document''] else []) @
    map (\<lambda>f. ''openFlag='' @ fg_flag f) (open_flags (ga_id asset) db)"

definition encumbrance_reasons :: "string option \<Rightarrow> encumbrance \<Rightarrow> string list" where
  "encumbrance_reasons fac e =
    (case en_facility_id e of
       Some f \<Rightarrow> if fac = None \<or> fac \<noteq> Some f then [''financedByFacility='' @ f] else []
     | None \<Rightarrow> if en_kind e \<in> set THIRD_PARTY_KINDS then [''thirdParty'' @ en_kind e @ ''='' @ en_holder e @ ''@'' @ str_int (en_priority e)] else [])"

definition relative_reasons :: "string \<Rightarrow> string option \<Rightarrow> string \<Rightarrow> asset_db \<Rightarrow> string list" where
  "relative_reasons label fac aid db =
    (case open_facility_encumbrance aid db of
       None \<Rightarrow> []
     | Some e \<Rightarrow> if en_facility_id e \<noteq> fac then [label @ the (en_facility_id e)] else [])"

definition eligibility_reasons :: "string option \<Rightarrow> gpu_asset \<Rightarrow> asset_db \<Rightarrow> string list" where
  "eligibility_reasons fac asset db =
    asset_reasons asset db @ concat (map (encumbrance_reasons fac) (open_encumbrances (ga_id asset) db)) @
    (case ga_parent_id asset of None \<Rightarrow> [] | Some p \<Rightarrow> relative_reasons ''parentFinancedByFacility='' fac p db) @
    concat (map (\<lambda>c. relative_reasons ''partitionFinancedByFacility='' fac (ga_id c) db) (asset_children (ga_id asset) db))"

record eligibility_outcome =
  eo_asset_id :: string
  eo_eligible :: bool
  eo_reasons :: "string list"

definition eligibility :: "string \<Rightarrow> string option \<Rightarrow> asset_db \<Rightarrow> assets_error + (asset_db \<times> eligibility_outcome)" where
  "eligibility aid fac db =
    then_do (get_asset aid db) (\<lambda>asset.
    (let reasons = eligibility_reasons fac asset db; ok = (reasons = [])
     in then_do (update_asset aid (\<lambda>a. a\<lparr>ga_eligible := ok\<rparr>) db) (\<lambda>db. Inr (db, \<lparr>eo_asset_id = aid, eo_eligible = ok, eo_reasons = reasons\<rparr>))))"

definition assign_to_facility :: "int \<Rightarrow> string \<Rightarrow> string \<Rightarrow> string \<Rightarrow> string \<Rightarrow> string option \<Rightarrow> asset_db \<Rightarrow> assets_error + asset_db" where
  "assign_to_facility now eid aid fac by_role document_ref db =
    then_do (require_role by_role REVIEW_ROLES ''assign an asset to a facility'') (\<lambda>_.
    ensure (has_key fa_id (gd_facilities db) fac) (NotFound (''facility '' @ fac))
    (then_do (eligibility aid (Some fac) db) (\<lambda>(db, result).
     ensure (eo_eligible result) (InvalidState (''asset not eligible: '' @ join_with ''; '' (eo_reasons result)))
     (ensure (open_facility_encumbrance aid db = None) (InvalidState ''asset already financed'')
     (insert_encumbrance \<lparr>en_id = eid, en_asset_id = aid, en_holder = OUR_HOLDER_PREFIX @ fac, en_priority = 1, en_kind = ''ASSIGNMENT'',
        en_document_ref = document_ref, en_valid_from = now, en_facility_id = Some fac, en_status = ''OPEN'', en_released_at = None\<rparr> db)))))"

definition release :: "int \<Rightarrow> string \<Rightarrow> string \<Rightarrow> asset_db \<Rightarrow> assets_error + asset_db" where
  "release now eid by_role db =
    then_do (require_role by_role REVIEW_ROLES ''release an encumbrance'') (\<lambda>_.
    (case List.find (\<lambda>e. en_id e = eid) (gd_encumbrances db) of
       None \<Rightarrow> Inl (NotFound (''encumbrance '' @ eid))
     | Some e \<Rightarrow> ensure (en_status e = ''OPEN'') (InvalidState ''already released'') (Inr (close_encumbrance now eid db))))"

definition carry_over :: "int \<Rightarrow> encumbrance \<Rightarrow> string \<Rightarrow> string \<Rightarrow> asset_db \<Rightarrow> assets_error + asset_db" where
  "carry_over now e new_aid new_eid db =
    ensure (financed e) (InvalidState ''only an open facility encumbrance can be carried over'')
    (insert_encumbrance (e\<lparr>en_id := new_eid, en_asset_id := new_aid, en_valid_from := now\<rparr>) (close_encumbrance now (en_id e) db))"

section \<open>Replacement\<close>

fun move_keys :: "int \<Rightarrow> string \<Rightarrow> string \<Rightarrow> (string \<times> string) list \<Rightarrow> asset_db \<Rightarrow> assets_error + asset_db" where
  "move_keys now old new [] db = Inr db"
| "move_keys now old new ((scheme, v) # ks) db =
     (let p = (\<lambda>k. ik_asset_id k = old \<and> key_name k = (scheme, v) \<and> key_active k)
      in ensure (\<exists>k \<in> set (gd_keys db). p k) (NotFound (''active key '' @ scheme @ ''='' @ v))
        (then_do (retire_keys now p db) (\<lambda>db.
         then_do (insert_identity_key \<lparr>ik_asset_id = new, ik_scheme = scheme, ik_value = v,
           ik_provenance = JObj [(''movedFrom'', JStr old), (''reason'', JStr ''RMA'')], ik_recorded_at = now, ik_retired_at = None\<rparr> db)
           (move_keys now old new ks))))"

definition replacement_of :: "gpu_asset \<Rightarrow> string \<Rightarrow> gpu_asset" where
  "replacement_of old new_aid = (new_asset new_aid (ga_kind old))\<lparr>ga_sku := ga_sku old, ga_unit_count := ga_unit_count old, ga_ownership := ga_ownership old,
     ga_custodian := ga_custodian old, ga_location := ga_location old, ga_replaces_id := Some (ga_id old), ga_ownership_review := ga_ownership_review old,
     ga_identity_confidence := ga_identity_confidence old\<rparr>"

definition replace_asset ::
  "int \<Rightarrow> string \<Rightarrow> string \<Rightarrow> (string \<times> string) list \<Rightarrow> (string \<times> string) list \<Rightarrow> string \<Rightarrow> string \<Rightarrow> bool \<Rightarrow> asset_db \<Rightarrow> assets_error + asset_db" where
  "replace_asset now old_aid new_aid moved_keys new_keys by_role assignment_id carry db =
    then_do (require_role by_role REGISTER_ROLES ''replace an asset (RMA)'') (\<lambda>_.
    then_do (get_asset old_aid db) (\<lambda>old.
    ensure (ga_status old = ''ACTIVE'') (InvalidState ''old asset already retired'')
    (let held = open_facility_encumbrance old_aid db; cur = open_assignment old_aid db
     in ensure (held = None \<or> carry) (InvalidState ''old asset is financed; carry_encumbrance=True is required to move the right'')
    (then_do (insert_asset (replacement_of old new_aid) db) (\<lambda>db.
     then_do (move_keys now old_aid new_aid moved_keys db) (\<lambda>db.
     then_do (insert_keys now new_aid (JObj [(''reason'', JStr ''RMA''), (''by'', JStr by_role)]) new_keys db) (\<lambda>db.
     then_do (retire_keys now (\<lambda>k. ik_asset_id k = old_aid \<and> key_active k) db) (\<lambda>db.
     then_do (update_asset old_aid (\<lambda>a. a\<lparr>ga_status := ''RETIRED'', ga_eligible := False\<rparr>) db) (\<lambda>db.
     then_do (case cur of
         None \<Rightarrow> Inr db
       | Some c \<Rightarrow>
           then_do (finish_assignment now old_aid [(''endReason'', JStr ''RMA''), (''replacedBy'', JStr new_aid)] db) (\<lambda>db.
           then_do (assign_provider now new_aid (pn_account_id c) by_role ''RMA'' assignment_id None (Some (JObj [(''replaces'', JStr old_aid)])) db)
             (\<lambda>(db, _). Inr db))) (\<lambda>db.
     (case held of None \<Rightarrow> Inr db | Some e \<Rightarrow> carry_over now e new_aid (derive_ulid new_aid ''EN'') db)))))))))))"

section \<open>Review\<close>

definition review_ownership ::
  "string \<Rightarrow> string \<Rightarrow> string \<Rightarrow> string \<Rightarrow> string option \<Rightarrow> string option \<Rightarrow> asset_db \<Rightarrow> assets_error + asset_db" where
  "review_ownership aid verdict ownership by_role review_ref identity_confidence db =
    then_do (require_role by_role REVIEW_ROLES ''review asset ownership'') (\<lambda>_.
    ensure (verdict \<in> {''VERIFIED'', ''REJECTED''}) (InvalidState ''verdict must be VERIFIED or REJECTED'')
    (ensure (ownership \<in> {''OWNED'', ''LEASED'', ''UNKNOWN''}) (InvalidState ''ownership must be OWNED, LEASED or UNKNOWN'')
    (ensure (\<not> (verdict = ''VERIFIED'' \<and> ownership = ''UNKNOWN'')) (InvalidState ''cannot verify ownership as UNKNOWN'')
    (then_do (get_asset aid db) (\<lambda>_.
      update_asset aid (\<lambda>a. a\<lparr>ga_ownership_review := verdict, ga_ownership := ownership, ga_review_ref := review_ref,
        ga_identity_confidence := (case identity_confidence of None \<Rightarrow> ga_identity_confidence a | Some c \<Rightarrow> c)\<rparr>) db)))))"

section \<open>Native evidence\<close>

definition NATIVE_EVIDENCE_KINDS :: "string list" where
  "NATIVE_EVIDENCE_KINDS = [''NFT_MINT'', ''HASH_ANCHOR'', ''TOKEN_TRANSFER'']"

definition rights_snapshot :: "string \<Rightarrow> asset_db \<Rightarrow> (string \<times> string \<times> bool \<times> string) option \<times> (string \<times> string) list" where
  "rights_snapshot aid db =
    (map_option (\<lambda>a. (ga_ownership a, ga_ownership_review a, ga_eligible a, ga_status a)) (List.find (\<lambda>a. ga_id a = aid) (gd_assets db)),
     map (\<lambda>e. (en_id e, en_status e)) (open_encumbrances aid db))"

definition evidence_str :: "json \<Rightarrow> string \<Rightarrow> string" where
  "evidence_str evidence k = (case json_get evidence k of Some (JStr s) \<Rightarrow> s | _ \<Rightarrow> [])"

definition attach_native_evidence :: "string \<Rightarrow> json \<Rightarrow> string \<Rightarrow> asset_db \<Rightarrow> assets_error + asset_db" where
  "attach_native_evidence aid evidence by_role db =
    then_do (require_role by_role (REGISTER_ROLES @ REVIEW_ROLES) ''attach native evidence'') (\<lambda>_.
    ensure (\<forall>k \<in> {''sourceEventId'', ''verificationMethod'', ''nativeStatus'', ''kind'', ''dataHash''}. json_get evidence k \<noteq> None)
      (InvalidState ''evidence missing'')
    (ensure (evidence_str evidence ''kind'' \<in> set NATIVE_EVIDENCE_KINDS) (InvalidState ''unknown native evidence kind'')
    (ensure (\<forall>k \<in> {''ownership'', ''ownershipReview'', ''controlGrade'', ''eligible'', ''encumbrance'', ''unencumbered''}. json_get evidence k = None)
      (NotOwnershipEvidence ''native evidence cannot carry a claim'')
    (then_do (get_asset aid db) (\<lambda>_.
     then_do (insert_document \<lparr>cu_asset_id = aid, cu_kind = ''NATIVE_EVIDENCE_'' @ evidence_str evidence ''kind'',
       cu_document_ref = ''doc://native-evidence/'' @ evidence_str evidence ''sourceEventId'',
       cu_document_hash = Some (evidence_str evidence ''dataHash'')\<rparr> db) (\<lambda>db'.
     ensure (rights_snapshot aid db = rights_snapshot aid db') (NotOwnershipEvidence ''attaching evidence changed rights state'') (Inr db')))))))"

definition ownership_from_evidence :: "json \<Rightarrow> assets_error + unit" where
  "ownership_from_evidence evidence = Inl (NotOwnershipEvidence (evidence_str evidence ''kind''))"

section \<open>The registry as a machine\<close>

inductive asset_step :: "asset_db \<Rightarrow> asset_db \<Rightarrow> bool" where
  flag_resolved: "resolve_flag now fid rl text db = Inr db' \<Longrightarrow> asset_step db db'"
| assigned: "assign_provider now aid acc rl reason asg started prov db = Inr (db', out) \<Longrightarrow> asset_step db db'"
| assignment_ended: "end_assignment now aid rl reason ended db = Inr db' \<Longrightarrow> asset_step db db'"
| registered: "register_asset now aid kind keys rl acc sku n cust loc prov conf db = Inr (db', res) \<Longrightarrow> asset_step db db'"
| partitioned: "register_partition now parent child keys rl sku db = Inr db' \<Longrightarrow> asset_step db db'"
| key_changed: "change_identity_key now aid scheme old new rl prov db = Inr db' \<Longrightarrow> asset_step db db'"
| replaced: "replace_asset now old new moved fresh rl asg carry db = Inr db' \<Longrightarrow> asset_step db db'"
| reviewed: "review_ownership aid verdict ownership rl ref conf db = Inr db' \<Longrightarrow> asset_step db db'"
| right_recorded: "record_third_party_right now eid aid holder kind priority doc rl vf db = Inr db' \<Longrightarrow> asset_step db db'"
| documented: "attach_document aid kind ref h rl db = Inr db' \<Longrightarrow> asset_step db db'"
| evidenced: "attach_native_evidence aid evidence rl db = Inr db' \<Longrightarrow> asset_step db db'"
| assessed: "eligibility aid fac db = Inr (db', res) \<Longrightarrow> asset_step db db'"
| financed_by: "assign_to_facility now eid aid f rl doc db = Inr db' \<Longrightarrow> asset_step db db'"
| released: "release now eid rl db = Inr db' \<Longrightarrow> asset_step db db'"
| other_tables: "asset_step db (db\<lparr>gd_facilities := fs, gd_accounts := accs\<rparr>)"

section \<open>Partial uniqueness\<close>

text \<open>A unique index with a condition: the keys of the rows that satisfy it are distinct.\<close>

definition unique_where :: "('r \<Rightarrow> bool) \<Rightarrow> ('r \<Rightarrow> 'k) \<Rightarrow> 'r list \<Rightarrow> bool" where
  "unique_where p key rows = distinct (map key (filter p rows))"

lemma unique_where_append:
  "unique_where p key (rows @ [r]) \<longleftrightarrow> unique_where p key rows \<and> (p r \<longrightarrow> \<not> (\<exists>q \<in> set rows. p q \<and> key q = key r))"
  by (auto simp: unique_where_def image_iff)

lemma unique_where_shrink:
  assumes "\<And>r. r \<in> set rows \<Longrightarrow> p (f r) \<Longrightarrow> p r \<and> key (f r) = key r" and "unique_where p key rows"
  shows "unique_where p key (map f rows)"
  using assms
proof (induction rows)
  case (Cons r rows)
  have "key ` {x \<in> set (map f rows). p x} \<subseteq> key ` {x \<in> set rows. p x}" using Cons.prems(1) by fastforce
  with Cons show ?case by (auto simp: unique_where_def split: if_splits)
qed (simp add: unique_where_def)

lemma unique_where_update:
  assumes "\<And>r. q r \<Longrightarrow> p (f r) \<Longrightarrow> p r \<and> key (f r) = key r" and "unique_where p key rows"
  shows "unique_where p key (update_where q f rows)"
  unfolding update_where_def by (rule unique_where_shrink) (use assms in auto)

lemma unique_where_same:
  "unique_where p key rows \<Longrightarrow> r \<in> set rows \<Longrightarrow> q \<in> set rows \<Longrightarrow> p r \<Longrightarrow> p q \<Longrightarrow> key r = key q \<Longrightarrow> r = q"
  by (auto simp: unique_where_def distinct_map inj_on_def)

text \<open>A row that is open after rows were closed was open before and not among them.\<close>

lemma open_row_kept:
  assumes "r \<in> set (update_where p f rows)" and "opened r" and "\<And>q. p q \<Longrightarrow> \<not> opened (f q)"
  shows "r \<in> set rows \<and> \<not> p r"
  using assms unfolding in_update_where by (metis (full_types))

section \<open>The invariant\<close>

text \<open>What the other tables depend on of the assets: identifier, status, parent and kind.\<close>

type_synonym asset_view = "string \<times> string \<times> string option \<times> string"

definition view_of :: "gpu_asset \<Rightarrow> asset_view" where
  "view_of a = (ga_id a, ga_status a, ga_parent_id a, ga_kind a)"

definition views :: "asset_db \<Rightarrow> asset_view set" where
  "views db = view_of ` set (gd_assets db)"

definition known_in :: "asset_view set \<Rightarrow> string \<Rightarrow> bool" where
  "known_in V aid \<longleftrightarrow> (\<exists>s p k. (aid, s, p, k) \<in> V)"

definition active_in :: "asset_view set \<Rightarrow> string \<Rightarrow> bool" where
  "active_in V aid \<longleftrightarrow> (\<exists>p k. (aid, ''ACTIVE'', p, k) \<in> V)"

definition child_in :: "asset_view set \<Rightarrow> string \<Rightarrow> string \<Rightarrow> bool" where
  "child_in V aid parent \<longleftrightarrow> (\<exists>s k. (aid, s, Some parent, k) \<in> V)"

definition family_ok :: "asset_view set \<Rightarrow> bool" where
  "family_ok V \<longleftrightarrow> (\<forall>aid s parent k. (aid, s, Some parent, k) \<in> V \<longrightarrow> k = ''MIG_PARTITION'' \<and> (\<exists>s'. (parent, s', None, ''PHYSICAL_GPU'') \<in> V))"

definition keys_ok :: "asset_view set \<Rightarrow> identity_key list \<Rightarrow> bool" where
  "keys_ok V keys \<longleftrightarrow> unique_where key_active key_name keys \<and>
     (\<forall>k \<in> set keys. known_in V (ik_asset_id k) \<and> (key_active k \<longrightarrow> active_in V (ik_asset_id k)))"

definition assignments_ok :: "asset_view set \<Rightarrow> provider_assignment list \<Rightarrow> bool" where
  "assignments_ok V rows \<longleftrightarrow> unique_where assignment_open pn_asset_id rows \<and>
     (\<forall>a \<in> set rows. known_in V (pn_asset_id a) \<and> (assignment_open a \<longrightarrow> active_in V (pn_asset_id a)))"

definition encumbrances_ok :: "asset_view set \<Rightarrow> encumbrance list \<Rightarrow> bool" where
  "encumbrances_ok V es \<longleftrightarrow> unique_on en_id es \<and> unique_where financed en_asset_id es \<and>
     (\<forall>e \<in> set es. known_in V (en_asset_id e) \<and> (financed e \<longrightarrow> active_in V (en_asset_id e))) \<and>
     (\<forall>e \<in> set es. \<forall>e' \<in> set es. financed e \<and> financed e' \<and> child_in V (en_asset_id e) (en_asset_id e') \<longrightarrow> en_facility_id e = en_facility_id e')"

definition third_party_open :: "string \<Rightarrow> encumbrance \<Rightarrow> bool" where
  "third_party_open aid e \<longleftrightarrow> en_asset_id e = aid \<and> en_status e = ''OPEN'' \<and> en_facility_id e = None \<and> en_kind e \<in> set THIRD_PARTY_KINDS"

definition clean :: "string \<Rightarrow> review_flag list \<Rightarrow> encumbrance list \<Rightarrow> bool" where
  "clean aid flags es \<longleftrightarrow> (\<forall>f \<in> set flags. fg_asset_id f = aid \<longrightarrow> fg_resolved_at f \<noteq> None) \<and> (\<forall>e \<in> set es. \<not> third_party_open aid e)"

definition assets_ok :: "asset_db \<Rightarrow> bool" where
  "assets_ok db \<longleftrightarrow> unique_on ga_id (gd_assets db) \<and> (\<forall>a \<in> set (gd_assets db). gpu_asset_checks a) \<and>
     (\<forall>a \<in> set (gd_assets db). ga_eligible a \<longrightarrow> clean (ga_id a) (gd_flags db) (gd_encumbrances db))"

definition asset_inv :: "asset_db \<Rightarrow> bool" where
  "asset_inv db \<longleftrightarrow> assets_ok db \<and> family_ok (views db) \<and> keys_ok (views db) (gd_keys db) \<and> assignments_ok (views db) (gd_assignments db) \<and>
     encumbrances_ok (views db) (gd_encumbrances db)"

section \<open>Statements keep it\<close>

lemma known_has_key: "known_in (views db) aid \<longleftrightarrow> has_key ga_id (gd_assets db) aid"
proof
  show "known_in (views db) aid \<Longrightarrow> has_key ga_id (gd_assets db) aid" by (auto simp: known_in_def views_def view_of_def has_key_def)
  assume "has_key ga_id (gd_assets db) aid"
  then obtain a where a: "a \<in> set (gd_assets db)" "ga_id a = aid" by (auto simp: has_key_def)
  then have "(aid, ga_status a, ga_parent_id a, ga_kind a) \<in> views db" by (auto simp: views_def view_of_def)
  then show "known_in (views db) aid" unfolding known_in_def by blast
qed

lemma insert_asset_effect:
  assumes "insert_asset a db = Inr db'"
  shows "db' = db\<lparr>gd_assets := gd_assets db @ [a]\<rparr> \<and> gpu_asset_checks a \<and> \<not> known_in (views db) (ga_id a)"
  using assms by (simp add: insert_asset_def known_has_key)

lemma update_asset_effect:
  assumes "update_asset aid f db = Inr db'"
  shows "db' = db\<lparr>gd_assets := update_where (\<lambda>a. ga_id a = aid) f (gd_assets db)\<rparr> \<and> (\<forall>a \<in> set (gd_assets db). ga_id a = aid \<longrightarrow> gpu_asset_checks (f a))"
  using assms by (simp add: update_asset_def)

lemma views_insert: "views (db\<lparr>gd_assets := gd_assets db @ [a]\<rparr>) = insert (view_of a) (views db)"
  by (simp add: views_def)

lemma views_update:
  assumes "\<And>a. view_of (f a) = view_of a"
  shows "views (db\<lparr>gd_assets := update_where p f (gd_assets db)\<rparr>) = views db"
proof -
  have "map view_of (update_where p f rows) = map view_of rows" for rows by (induction rows) (simp_all add: update_where_def assms)
  from arg_cong [OF this, of set] show ?thesis by (simp add: views_def)
qed

lemma views_tables [simp]:
  "views (db\<lparr>gd_keys := ks\<rparr>) = views db" "views (db\<lparr>gd_assignments := as\<rparr>) = views db" "views (db\<lparr>gd_encumbrances := es\<rparr>) = views db"
  "views (db\<lparr>gd_documents := ds\<rparr>) = views db" "views (db\<lparr>gd_flags := fs\<rparr>) = views db" "views (db\<lparr>gd_facilities := fas\<rparr>) = views db"
  "views (db\<lparr>gd_accounts := acs\<rparr>) = views db"
  by (simp_all add: views_def)

lemma get_asset_eq: "get_asset aid db = Inr a \<Longrightarrow> a \<in> set (gd_assets db) \<and> ga_id a = aid"
  by (auto simp: get_asset_def split: option.splits dest: find_Some_iff)

lemma get_asset_active: "get_asset aid db = Inr a \<Longrightarrow> ga_status a = ''ACTIVE'' \<Longrightarrow> active_in (views db) aid"
  using get_asset_eq [of aid db a] by (auto simp: active_in_def views_def view_of_def image_iff) metis

lemma keys_grow: "V \<subseteq> W \<Longrightarrow> keys_ok V ks \<Longrightarrow> keys_ok W ks"
  unfolding keys_ok_def known_in_def active_in_def by blast

lemma assignments_grow: "V \<subseteq> W \<Longrightarrow> assignments_ok V rows \<Longrightarrow> assignments_ok W rows"
  unfolding assignments_ok_def known_in_def active_in_def by blast

lemma encumbrances_grow:
  assumes "encumbrances_ok V es" and "\<not> known_in V (fst v)"
  shows "encumbrances_ok (insert v V) es"
proof -
  have "child_in V (en_asset_id e) p" if "e \<in> set es" "child_in (insert v V) (en_asset_id e) p" for e p
    using that assms by (auto simp: child_in_def encumbrances_ok_def known_in_def)
  moreover have "known_in (insert v V) x" if "known_in V x" for x using that by (auto simp: known_in_def)
  moreover have "active_in (insert v V) x" if "active_in V x" for x using that by (auto simp: active_in_def)
  ultimately show ?thesis using assms(1) unfolding encumbrances_ok_def by blast
qed

lemma active_known: "active_in V x \<Longrightarrow> known_in V x"
  by (auto simp: active_in_def known_in_def)

lemma key_added:
  assumes "insert_identity_key k db = Inr db'" and "keys_ok (views db) (gd_keys db)" and "active_in (views db) (ik_asset_id k)"
  obtains ks where "db' = db\<lparr>gd_keys := ks\<rparr>" "keys_ok (views db) ks"
proof (rule that)
  show "db' = db\<lparr>gd_keys := gd_keys db @ [k]\<rparr>" using assms(1) by (auto simp: insert_identity_key_def)
  show "keys_ok (views db) (gd_keys db @ [k])"
    using assms active_known [OF assms(3)] by (auto simp: insert_identity_key_def keys_ok_def unique_where_append)
qed

lemma keys_retired:
  assumes "retire_keys now p db = Inr db'" and "keys_ok (views db) (gd_keys db)"
  obtains ks where "db' = db\<lparr>gd_keys := ks\<rparr>" "keys_ok (views db) ks" "\<forall>k \<in> set ks. key_active k \<longrightarrow> k \<in> set (gd_keys db) \<and> \<not> p k"
proof (rule that)
  let ?ks = "update_where p (\<lambda>k. k\<lparr>ik_retired_at := Some now\<rparr>) (gd_keys db)"
  show "db' = db\<lparr>gd_keys := ?ks\<rparr>" using assms(1) by (simp add: retire_keys_def)
  have closed: "\<not> key_active (k\<lparr>ik_retired_at := Some now\<rparr>)" for k by (simp add: key_active_def)
  show kept: "\<forall>k \<in> set ?ks. key_active k \<longrightarrow> k \<in> set (gd_keys db) \<and> \<not> p k" 
    by (intro ballI impI) (erule open_row_kept [where opened = key_active], simp_all add: closed)
  have "unique_where key_active key_name ?ks" using assms(2) closed by (intro unique_where_update) (auto simp: keys_ok_def)
  moreover have "known_in (views db) (ik_asset_id k)" if "k \<in> set ?ks" for k
    using that assms(2) unfolding in_update_where keys_ok_def by fastforce
  ultimately show "keys_ok (views db) ?ks" using kept assms(2) unfolding keys_ok_def by blast
qed

lemma keys_inserted:
  assumes "insert_keys now aid prov ks db = Inr db'" and "keys_ok (views db) (gd_keys db)" and "active_in (views db) aid"
  shows "\<exists>rows. db' = db\<lparr>gd_keys := rows\<rparr> \<and> keys_ok (views db) rows"
  using assms
proof (induction now aid prov ks db rule: insert_keys.induct)
  case (1 now aid prov db)
  then show ?case by (intro exI [of _ "gd_keys db"]) simp
next
  case (2 now aid prov scheme v ks db)
  then obtain db1 where i: "insert_identity_key \<lparr>ik_asset_id = aid, ik_scheme = scheme, ik_value = v, ik_provenance = prov, ik_recorded_at = now,
       ik_retired_at = None\<rparr> db = Inr db1" and r: "insert_keys now aid prov ks db1 = Inr db'" by (auto simp: then_do_eq_Inr)
  obtain rows where d: "db1 = db\<lparr>gd_keys := rows\<rparr>" "keys_ok (views db) rows" using key_added [OF i] 2(3,4) by auto
  have "\<exists>rows. db' = db1\<lparr>gd_keys := rows\<rparr> \<and> keys_ok (views db1) rows" by (rule 2(1) [OF r]) (use d 2(4) in simp_all)
  with d show ?case by simp
qed

lemma assignment_added:
  assumes "insert_assignment a db = Inr db'" and "assignments_ok (views db) (gd_assignments db)" and "active_in (views db) (pn_asset_id a)"
  obtains rows where "db' = db\<lparr>gd_assignments := rows\<rparr>" "assignments_ok (views db) rows"
proof (rule that)
  show "db' = db\<lparr>gd_assignments := gd_assignments db @ [a]\<rparr>" using assms(1) by (auto simp: insert_assignment_def)
  show "assignments_ok (views db) (gd_assignments db @ [a])"
    using assms active_known [OF assms(3)] by (auto simp: insert_assignment_def assignments_ok_def unique_where_append)
qed

lemma assignment_finished:
  assumes "finish_assignment ended aid extra db = Inr db'" and "assignments_ok V (gd_assignments db)"
  obtains rows where "db' = db\<lparr>gd_assignments := rows\<rparr>" "assignments_ok V rows" "\<forall>a \<in> set rows. assignment_open a \<longrightarrow> pn_asset_id a \<noteq> aid"
proof (rule that)
  let ?rows = "update_where (\<lambda>a. pn_asset_id a = aid \<and> assignment_open a)
    (\<lambda>a. a\<lparr>pn_ended_at := Some ended, pn_provenance := json_with (pn_provenance a) extra\<rparr>) (gd_assignments db)"
  show "db' = db\<lparr>gd_assignments := ?rows\<rparr>" using assms(1) by (simp add: finish_assignment_def Let_def)
  have closed: "\<not> assignment_open (a\<lparr>pn_ended_at := Some ended, pn_provenance := json_with (pn_provenance a) extra\<rparr>)" for a by (simp add: assignment_open_def)
  have kept: "a \<in> set (gd_assignments db) \<and> \<not> (pn_asset_id a = aid \<and> assignment_open a)" if "a \<in> set ?rows" "assignment_open a" for a
    using open_row_kept [where opened = assignment_open, OF that closed] by blast
  have "unique_where assignment_open pn_asset_id ?rows" using assms(2) closed by (intro unique_where_update) (auto simp: assignments_ok_def)
  moreover have "known_in V (pn_asset_id a)" if "a \<in> set ?rows" for a
    using that assms(2) unfolding in_update_where assignments_ok_def by fastforce
  ultimately show "assignments_ok V ?rows" using kept assms(2) unfolding assignments_ok_def by blast
  show "\<forall>a \<in> set ?rows. assignment_open a \<longrightarrow> pn_asset_id a \<noteq> aid" using kept by blast
qed

lemma encumbrance_added:
  assumes "insert_encumbrance e db = Inr db'" and "encumbrances_ok (views db) (gd_encumbrances db)"
    and "financed e \<Longrightarrow> active_in (views db) (en_asset_id e)"
    and "\<And>q. financed e \<Longrightarrow> q \<in> set (gd_encumbrances db) \<Longrightarrow> financed q \<Longrightarrow>
      child_in (views db) (en_asset_id e) (en_asset_id q) \<or> child_in (views db) (en_asset_id q) (en_asset_id e) \<Longrightarrow> en_facility_id e = en_facility_id q"
  shows "db' = db\<lparr>gd_encumbrances := gd_encumbrances db @ [e]\<rparr> \<and> encumbrances_ok (views db) (gd_encumbrances db @ [e])"
proof
  show "db' = db\<lparr>gd_encumbrances := gd_encumbrances db @ [e]\<rparr>" using assms(1) by (auto simp: insert_encumbrance_def)
  have k: "known_in (views db) (en_asset_id e)"
    using assms(1) by (simp add: insert_encumbrance_def known_has_key)
  have u: "unique_on en_id (gd_encumbrances db @ [e])" "unique_where financed en_asset_id (gd_encumbrances db @ [e])"
    using assms(1,2) by (auto simp: insert_encumbrance_def encumbrances_ok_def unique_on_append unique_where_append)
  have "en_facility_id x = en_facility_id y"
    if "x \<in> set (gd_encumbrances db @ [e])" "y \<in> set (gd_encumbrances db @ [e])" "financed x" "financed y" "child_in (views db) (en_asset_id x) (en_asset_id y)" for x y
    using that assms(2,4) unfolding encumbrances_ok_def by (auto dest: sym)
  moreover have "known_in (views db) (en_asset_id x) \<and> (financed x \<longrightarrow> active_in (views db) (en_asset_id x))" if "x \<in> set (gd_encumbrances db @ [e])" for x
    using that k assms(2,3) by (auto simp: encumbrances_ok_def)
  ultimately show "encumbrances_ok (views db) (gd_encumbrances db @ [e])" using u unfolding encumbrances_ok_def by blast
qed

lemma encumbrance_closed:
  assumes "encumbrances_ok V (gd_encumbrances db)"
  obtains es where "close_encumbrance now eid db = db\<lparr>gd_encumbrances := es\<rparr>" "encumbrances_ok V es"
    "\<forall>e \<in> set es. en_status e = ''OPEN'' \<longrightarrow> e \<in> set (gd_encumbrances db) \<and> en_id e \<noteq> eid"
proof (rule that)
  let ?f = "\<lambda>e. e\<lparr>en_status := ''RELEASED'', en_released_at := Some now\<rparr>"
  let ?es = "update_where (\<lambda>e. en_id e = eid) ?f (gd_encumbrances db)"
  show "close_encumbrance now eid db = db\<lparr>gd_encumbrances := ?es\<rparr>" by (simp add: close_encumbrance_def)
  have closed: "\<not> financed (?f e)" for e by (simp add: financed_def)
  have kept: "e \<in> set (gd_encumbrances db) \<and> en_id e \<noteq> eid" if "e \<in> set ?es" "en_status e = ''OPEN''" for e
    using open_row_kept [where opened = "\<lambda>e. en_status e = ''OPEN''", OF that] by simp
  then show "\<forall>e \<in> set ?es. en_status e = ''OPEN'' \<longrightarrow> e \<in> set (gd_encumbrances db) \<and> en_id e \<noteq> eid" by blast
  have f: "e \<in> set (gd_encumbrances db)" if "e \<in> set ?es" "financed e" for e using kept [OF that(1)] that(2) by (simp add: financed_def)
  have "unique_where financed en_asset_id ?es" using assms closed by (intro unique_where_update) (auto simp: encumbrances_ok_def)
  moreover have "unique_on en_id ?es" using assms by (simp add: encumbrances_ok_def unique_on_update)
  moreover have "known_in V (en_asset_id e)" if "e \<in> set ?es" for e
    using that assms unfolding in_update_where encumbrances_ok_def by fastforce
  ultimately show "encumbrances_ok V ?es" using f assms unfolding encumbrances_ok_def by blast
qed

text \<open>The assets but one, whose eligibility is about to be withdrawn.\<close>

definition assets_ok_but :: "string \<Rightarrow> asset_db \<Rightarrow> bool" where
  "assets_ok_but aid db \<longleftrightarrow> unique_on ga_id (gd_assets db) \<and> (\<forall>a \<in> set (gd_assets db). gpu_asset_checks a) \<and>
     (\<forall>a \<in> set (gd_assets db). ga_eligible a \<and> ga_id a \<noteq> aid \<longrightarrow> clean (ga_id a) (gd_flags db) (gd_encumbrances db))"

lemma assets_ok_but: "assets_ok db \<Longrightarrow> assets_ok_but aid db"
  by (auto simp: assets_ok_def assets_ok_but_def)

lemma clean_closed: "clean aid flags es \<Longrightarrow> \<forall>e \<in> set es'. en_status e = ''OPEN'' \<longrightarrow> e \<in> set es \<Longrightarrow> clean aid flags es'"
  by (auto simp: clean_def third_party_open_def)

lemma assets_inserted:
  assumes "assets_ok db" and "gpu_asset_checks a" and "\<not> known_in (views db) (ga_id a)" and "\<not> ga_eligible a"
  shows "assets_ok (db\<lparr>gd_assets := gd_assets db @ [a]\<rparr>)"
  using assms by (auto simp: assets_ok_def unique_on_append known_has_key)

lemma assets_updated:
  assumes "assets_ok_but aid db" and "\<forall>a \<in> set (gd_assets db). ga_id a = aid \<longrightarrow> gpu_asset_checks (f a)" and "\<And>a. ga_id (f a) = ga_id a"
    and "\<And>a. a \<in> set (gd_assets db) \<Longrightarrow> ga_id a = aid \<Longrightarrow> ga_eligible (f a) \<Longrightarrow> clean aid (gd_flags db) (gd_encumbrances db)"
  shows "assets_ok (db\<lparr>gd_assets := update_where (\<lambda>a. ga_id a = aid) f (gd_assets db)\<rparr>)"
  using assms unfolding assets_ok_def assets_ok_but_def by (auto simp: unique_on_update in_update_where)

lemma raise_flag_effect:
  assumes "raise_flag aid flag details db = Inr (db', row)" and "assets_ok_but aid db"
  obtains as where "db' = db\<lparr>gd_assets := as, gd_flags := gd_flags db @ [row]\<rparr>" "views db' = views db" "assets_ok db'"
proof -
  obtain db1 where u: "update_asset aid (\<lambda>a. a\<lparr>ga_eligible := False\<rparr>) db = Inr db1" and db': "db' = db1\<lparr>gd_flags := gd_flags db1 @ [row]\<rparr>"
    and r: "fg_asset_id row = aid"
    using assms(1) by (auto simp: raise_flag_def Let_def then_do_eq_Inr update_asset_def)
  note e = update_asset_effect [OF u]
  show thesis
  proof (rule that)
    show "db' = db\<lparr>gd_assets := gd_assets db1, gd_flags := gd_flags db @ [row]\<rparr>" using e db' by simp
    show "views db' = views db" using e db' views_update [of "\<lambda>a. a\<lparr>ga_eligible := False\<rparr>"] by (simp add: view_of_def)
    have "\<not> ga_eligible a" if a: "a \<in> set (gd_assets db1)" "ga_id a = aid" for a
    proof -
      from a(1) e obtain q where "a = (if ga_id q = aid then q\<lparr>ga_eligible := False\<rparr> else q)" by (auto simp: in_update_where)
      with a(2) show ?thesis by (cases "ga_id q = aid") simp_all
    qed
    moreover have "assets_ok db1" using assets_updated [OF assms(2), of "\<lambda>a. a\<lparr>ga_eligible := False\<rparr>"] e by simp
    ultimately show "assets_ok db'" using r unfolding db' by (auto simp: assets_ok_def clean_def)
  qed
qed

section \<open>Operations keep it\<close>

lemma inv_tables:
  assumes "asset_inv db"
  shows "keys_ok (views db) ks \<Longrightarrow> asset_inv (db\<lparr>gd_keys := ks\<rparr>)" "assignments_ok (views db) as \<Longrightarrow> asset_inv (db\<lparr>gd_assignments := as\<rparr>)"
    "asset_inv (db\<lparr>gd_documents := ds\<rparr>)" "asset_inv (db\<lparr>gd_facilities := fs, gd_accounts := acs\<rparr>)"
  using assms by (simp_all add: asset_inv_def assets_ok_def)

lemma raise_flag_inv:
  assumes "raise_flag aid flag details db = Inr (db', row)" and "asset_inv db"
  shows "asset_inv db'"
proof -
  have "assets_ok_but aid db" using assms(2) by (simp add: asset_inv_def assets_ok_but)
  with assms(1) obtain as where "db' = db\<lparr>gd_assets := as, gd_flags := gd_flags db @ [row]\<rparr>" "views db' = views db" "assets_ok db'"
    by (rule raise_flag_effect)
  with assms(2) show ?thesis by (simp add: asset_inv_def)
qed

lemma assign_provider_effect:
  assumes "assign_provider now aid acc rl reason asg started prov db = Inr (db', out)" and "assets_ok db" and "assignments_ok (views db) (gd_assignments db)"
  shows "views db' = views db \<and> assets_ok db' \<and> assignments_ok (views db) (gd_assignments db') \<and> gd_keys db' = gd_keys db \<and> gd_encumbrances db' = gd_encumbrances db"
proof -
  obtain a where a: "get_asset aid db = Inr a" "ga_status a = ''ACTIVE''"
    using assms(1) unfolding assign_provider_def by (auto simp: then_do_eq_Inr)
  show ?thesis
  proof (cases "open_assignment aid db")
    case None
    then obtain row where row: "insert_assignment row db = Inr db'" "pn_asset_id row = aid"
      using assms(1) unfolding assign_provider_def by (auto simp: then_do_eq_Inr Let_def)
    obtain rows where "db' = db\<lparr>gd_assignments := rows\<rparr>" "assignments_ok (views db) rows"
      using assignment_added [OF row(1) assms(3)] get_asset_active [OF a] row(2) by blast
    with assms(2) show ?thesis by (simp add: assets_ok_def)
  next
    case (Some cur)
    then obtain details row where "raise_flag aid ''DUPLICATE_LISTING'' details db = Inr (db', row)"
      using assms(1) unfolding assign_provider_def by (auto simp: then_do_eq_Inr)
    then obtain as where "db' = db\<lparr>gd_assets := as, gd_flags := gd_flags db @ [row]\<rparr>" "views db' = views db" "assets_ok db'"
      using assets_ok_but [OF assms(2)] by (rule raise_flag_effect)
    with assms(3) show ?thesis by simp
  qed
qed

lemma assign_provider_inv:
  assumes "assign_provider now aid acc rl reason asg started prov db = Inr (db', out)" and "asset_inv db"
  shows "asset_inv db'"
  using assign_provider_effect [OF assms(1)] assms(2) by (simp add: asset_inv_def)

lemma family_insert:
  assumes "family_ok V" and "p = None \<or> (\<exists>q t. p = Some q \<and> k = ''MIG_PARTITION'' \<and> (q, t, None, ''PHYSICAL_GPU'') \<in> V)"
  shows "family_ok (insert (i, s, p, k) V)"
  using assms unfolding family_ok_def by blast

lemma insert_asset_inv:
  assumes "insert_asset a db = Inr db'" and "asset_inv db" and "\<not> ga_eligible a"
    and "ga_parent_id a = None \<or> (\<exists>q t. ga_parent_id a = Some q \<and> ga_kind a = ''MIG_PARTITION'' \<and> (q, t, None, ''PHYSICAL_GPU'') \<in> views db)"
  shows "asset_inv db' \<and> views db' = insert (view_of a) (views db) \<and> \<not> known_in (views db) (ga_id a)"
proof -
  note e = insert_asset_effect [OF assms(1)]
  have v: "views db' = insert (view_of a) (views db)" using e by (simp add: views_insert)
  have "family_ok (views db')" unfolding v view_of_def using assms(2,4) by (intro family_insert) (auto simp: asset_inv_def)
  moreover have "assets_ok db'" using assets_inserted [of db a] e assms(2,3) by (simp add: asset_inv_def)
  moreover have "encumbrances_ok (views db') (gd_encumbrances db')"
    unfolding v using e assms(2) by (intro encumbrances_grow) (auto simp: asset_inv_def view_of_def)
  ultimately show ?thesis using e v assms(2) keys_grow [of "views db" "views db'"] assignments_grow [of "views db" "views db'"]
    by (auto simp: asset_inv_def)
qed

lemma new_asset_fields [simp]:
  "ga_id (new_asset aid kind) = aid" "ga_kind (new_asset aid kind) = kind" "ga_eligible (new_asset aid kind) = False"
  "ga_parent_id (new_asset aid kind) = None" "ga_status (new_asset aid kind) = ''ACTIVE''"
  by (simp_all add: new_asset_def)

lemma insert_keys_inv:
  assumes "insert_keys now aid prov ks db = Inr db'" and "asset_inv db" and "active_in (views db) aid"
  shows "asset_inv db' \<and> views db' = views db \<and> gd_encumbrances db' = gd_encumbrances db \<and> gd_assignments db' = gd_assignments db"
  using keys_inserted [OF assms(1) _ assms(3)] inv_tables(1) [OF assms(2)] assms(2) by (auto simp: asset_inv_def)

lemma register_asset_inv:
  assumes "register_asset now aid kind keys rl acc sku n cust loc prov conf db = Inr (db', res)" and "asset_inv db"
  shows "asset_inv db'"
proof (cases "listed_key keys db")
  case (Some x)
  then obtain details row where "raise_flag (ga_id (snd x)) ''DUPLICATE_LISTING'' details db = Inr (db', row)"
    using assms(1) by (cases x) (auto simp: register_asset_def then_do_eq_Inr split: prod.splits)
  then show ?thesis by (rule raise_flag_inv) (rule assms(2))
next
  case None
  let ?a = "(new_asset aid kind)\<lparr>ga_sku := sku, ga_unit_count := n, ga_custodian := cust, ga_location := loc, ga_identity_confidence := conf\<rparr>"
  obtain db1 db2 where i: "insert_asset ?a db = Inr db1" and k: "insert_keys now aid (or_json prov (JObj [(''by'', JStr rl)])) keys db1 = Inr db2"
    and r: "case acc of None \<Rightarrow> db' = db2 | Some b \<Rightarrow> \<exists>out. assign_provider now aid b rl ''ONBOARD'' (derive_ulid aid ''AS'') None None db2 = Inr (db', out)"
    using assms(1) None unfolding register_asset_def by (cases acc) (auto simp: then_do_eq_Inr)
  have d: "asset_inv db1" "views db1 = insert (view_of ?a) (views db)" using insert_asset_inv [OF i assms(2)] by auto
  have "active_in (views db1) aid" unfolding d(2) by (auto simp: active_in_def view_of_def)
  with insert_keys_inv [OF k d(1)] have "asset_inv db2" by blast
  with r show ?thesis by (cases acc) (auto intro: assign_provider_inv)
qed

lemma register_partition_inv:
  assumes "register_partition now parent child keys rl sku db = Inr db'" and "asset_inv db"
  shows "asset_inv db'"
proof -
  obtain q db1 pr where q: "get_asset parent db = Inr q" "ga_kind q = ''PHYSICAL_GPU''"
    and i: "insert_asset ((new_asset child ''MIG_PARTITION'')\<lparr>ga_sku := sku, ga_parent_id := Some parent, ga_ownership := ga_ownership q\<rparr>) db = Inr db1"
    and k: "insert_keys now child pr keys db1 = Inr db'"
    using assms(1) unfolding register_partition_def by (auto simp: then_do_eq_Inr)
  have "view_of q \<in> views db" using get_asset_eq [OF q(1)] by (simp add: views_def)
  then have m: "(parent, ga_status q, ga_parent_id q, ''PHYSICAL_GPU'') \<in> views db" using get_asset_eq [OF q(1)] q(2) by (simp add: view_of_def)
  have "ga_parent_id q = None"
  proof (rule ccontr)
    assume "ga_parent_id q \<noteq> None"
    then obtain g where "ga_parent_id q = Some g" by blast
    with m assms(2) show False by (auto simp: asset_inv_def family_ok_def)
  qed
  with m insert_asset_inv [OF i assms(2)] have d: "asset_inv db1" and v: "(child, ''ACTIVE'', Some parent, ''MIG_PARTITION'') \<in> views db1"
    by (auto simp: view_of_def)
  from v have "active_in (views db1) child" unfolding active_in_def by blast
  with insert_keys_inv [OF k d] show ?thesis by blast
qed

lemma change_identity_key_inv:
  assumes "change_identity_key now aid scheme old new rl prov db = Inr db'" and "asset_inv db"
  shows "asset_inv db'"
proof -
  obtain a where a: "get_asset aid db = Inr a" "ga_status a = ''ACTIVE''"
    using assms(1) unfolding change_identity_key_def by (auto simp: then_do_eq_Inr)
  let ?k = "\<lparr>ik_asset_id = aid, ik_scheme = scheme, ik_value = new,
    ik_provenance = json_with (JObj prov) [(''replaces'', opt_json old), (''by'', JStr rl)], ik_recorded_at = now, ik_retired_at = None\<rparr>"
  obtain db1 where r: "db1 = db \<or> (\<exists>p. retire_keys now p db = Inr db1)" and i: "insert_identity_key ?k db1 = Inr db'"
    using assms(1) unfolding change_identity_key_def Let_def by (cases old) (auto simp: then_do_eq_Inr)
  have d: "asset_inv db1 \<and> views db1 = views db" using r assms(2)
  proof (elim disjE exE)
    fix p assume "retire_keys now p db = Inr db1"
    then obtain ks where "db1 = db\<lparr>gd_keys := ks\<rparr>" "keys_ok (views db) ks" by (rule keys_retired) (use assms(2) in \<open>simp add: asset_inv_def\<close>)
    with inv_tables(1) [OF assms(2)] show ?thesis by simp
  qed simp
  obtain ks where "db' = db1\<lparr>gd_keys := ks\<rparr>" "keys_ok (views db1) ks"
    by (rule key_added [OF i]) (use d get_asset_active [OF a] in \<open>auto simp: asset_inv_def\<close>)
  with d inv_tables(1) show ?thesis by blast
qed

lemma record_right_inv:
  assumes "record_third_party_right now eid aid holder kind priority doc rl vf db = Inr db'" and "asset_inv db"
  shows "asset_inv db'"
proof -
  let ?e = "\<lparr>en_id = eid, en_asset_id = aid, en_holder = holder, en_priority = priority, en_kind = kind, en_document_ref = Some doc,
    en_valid_from = (case vf of None \<Rightarrow> now | Some t \<Rightarrow> t), en_facility_id = None, en_status = ''OPEN'', en_released_at = None\<rparr>"
  obtain db1 flag details row where i: "insert_encumbrance ?e db = Inr db1" and f: "raise_flag aid flag details db1 = Inr (db', row)"
    using assms(1) unfolding record_third_party_right_def by (auto simp: then_do_eq_Inr)
  have "\<not> financed ?e" by (simp add: financed_def)
  with encumbrance_added [OF i] assms(2) have e: "db1 = db\<lparr>gd_encumbrances := gd_encumbrances db @ [?e]\<rparr>"
    "encumbrances_ok (views db) (gd_encumbrances db @ [?e])" by (auto simp: asset_inv_def)
  have "assets_ok_but aid db1" using assms(2) unfolding e(1)
    by (auto simp: asset_inv_def assets_ok_def assets_ok_but_def clean_def third_party_open_def)
  with f obtain as where "db' = db1\<lparr>gd_assets := as, gd_flags := gd_flags db1 @ [row]\<rparr>" "views db' = views db1" "assets_ok db'"
    by (rule raise_flag_effect)
  with e assms(2) show ?thesis by (simp add: asset_inv_def)
qed

lemma reasons_clean:
  assumes "eligibility_reasons fac a db = []"
  shows "clean (ga_id a) (gd_flags db) (gd_encumbrances db) \<and> ga_status a = ''ACTIVE''"
proof -
  have "encumbrance_reasons fac e = []" if "e \<in> set (gd_encumbrances db)" "en_asset_id e = ga_id a" "en_status e = ''OPEN''" for e
    using assms that by (auto simp: eligibility_reasons_def open_encumbrances_def)
  then have "\<not> third_party_open (ga_id a) e" if "e \<in> set (gd_encumbrances db)" for e
    using that by (fastforce simp: third_party_open_def encumbrance_reasons_def)
  moreover have "fg_resolved_at f \<noteq> None" if "f \<in> set (gd_flags db)" "fg_asset_id f = ga_id a" for f
    using assms that by (auto simp: eligibility_reasons_def asset_reasons_def open_flags_def filter_empty_conv)
  moreover have "ga_status a = ''ACTIVE''" using assms by (auto simp: eligibility_reasons_def asset_reasons_def split: if_splits)
  ultimately show ?thesis by (simp add: clean_def)
qed

lemma eligibility_effect:
  assumes "eligibility aid fac db = Inr (db', res)" and "asset_inv db"
  obtains as a where "db' = db\<lparr>gd_assets := as\<rparr>" "views db' = views db" "asset_inv db'" "get_asset aid db = Inr a"
    "eo_eligible res = (eligibility_reasons fac a db = [])"
proof -
  obtain a where a: "get_asset aid db = Inr a" and u: "update_asset aid (\<lambda>x. x\<lparr>ga_eligible := (eligibility_reasons fac a db = [])\<rparr>) db = Inr db'"
    and r: "eo_eligible res = (eligibility_reasons fac a db = [])"
    using assms(1) by (auto simp: eligibility_def Let_def then_do_eq_Inr)
  note e = update_asset_effect [OF u]
  have v: "views db' = views db" using e views_update [of "\<lambda>x. x\<lparr>ga_eligible := (eligibility_reasons fac a db = [])\<rparr>"] by (simp add: view_of_def)
  have "assets_ok db'"
    using assets_updated [of aid db "\<lambda>x. x\<lparr>ga_eligible := (eligibility_reasons fac a db = [])\<rparr>"] e assms(2) reasons_clean [of fac a db] get_asset_eq [OF a]
    by (simp add: asset_inv_def assets_ok_but)
  with e v assms(2) have "asset_inv db'" by (simp add: asset_inv_def)
  with that [of "gd_assets db'" a] e v a r show thesis by simp
qed

lemma relative_none:
  assumes "relative_reasons label fac x db = []" and "q \<in> set (gd_encumbrances db)" and "financed q" and "en_asset_id q = x"
    and "unique_where financed en_asset_id (gd_encumbrances db)"
  shows "en_facility_id q = fac"
proof -
  obtain e where e: "open_facility_encumbrance x db = Some e"
    using assms(2-4) by (cases "open_facility_encumbrance x db") (auto simp: open_facility_encumbrance_def find_None_iff)
  then have "e \<in> set (gd_encumbrances db)" "en_asset_id e = x" "financed e" by (auto simp: open_facility_encumbrance_def dest: find_Some_iff)
  with assms have "e = q" by (intro unique_where_same [OF assms(5)]) auto
  with e assms(1) show ?thesis by (auto simp: relative_reasons_def split: if_splits)
qed

lemma assign_to_facility_inv:
  assumes "assign_to_facility now eid aid f rl doc db = Inr db'" and "asset_inv db"
  shows "asset_inv db'"
proof -
  let ?e = "\<lparr>en_id = eid, en_asset_id = aid, en_holder = OUR_HOLDER_PREFIX @ f, en_priority = 1, en_kind = ''ASSIGNMENT'', en_document_ref = doc,
    en_valid_from = now, en_facility_id = Some f, en_status = ''OPEN'', en_released_at = None\<rparr>"
  obtain db1 res where el: "eligibility aid (Some f) db = Inr (db1, res)" "eo_eligible res" and i: "insert_encumbrance ?e db1 = Inr db'"
    using assms(1) unfolding assign_to_facility_def by (auto simp: then_do_eq_Inr)
  obtain as a where d: "db1 = db\<lparr>gd_assets := as\<rparr>" "views db1 = views db" "asset_inv db1" and a: "get_asset aid db = Inr a"
    and r: "eligibility_reasons (Some f) a db = []" using eligibility_effect [OF el(1) assms(2)] el(2) by metis
  have aid: "ga_id a = aid" "a \<in> set (gd_assets db)" using get_asset_eq [OF a] by auto
  have u: "unique_where financed en_asset_id (gd_encumbrances db)" "unique_on ga_id (gd_assets db)"
    using assms(2) by (auto simp: asset_inv_def encumbrances_ok_def assets_ok_def)
  have act: "active_in (views db1) aid" using get_asset_active [OF a] reasons_clean [OF r] d(2) by simp
  have rel: "en_facility_id q = Some f" if q: "q \<in> set (gd_encumbrances db)" "financed q"
    "child_in (views db) aid (en_asset_id q) \<or> child_in (views db) (en_asset_id q) aid" for q
    using q(3)
  proof
    assume "child_in (views db) aid (en_asset_id q)"
    then obtain b where "b \<in> set (gd_assets db)" "ga_id b = aid" "ga_parent_id b = Some (en_asset_id q)"
      by (auto simp: child_in_def views_def view_of_def)
    with unique_on_same [OF u(2)] aid have "ga_parent_id a = Some (en_asset_id q)" by metis
    with r have "relative_reasons ''parentFinancedByFacility='' (Some f) (en_asset_id q) db = []" by (simp add: eligibility_reasons_def)
    from relative_none [OF this q(1,2) refl u(1)] show ?thesis .
  next
    assume "child_in (views db) (en_asset_id q) aid"
    then obtain b where b: "b \<in> set (gd_assets db)" "ga_id b = en_asset_id q" "ga_parent_id b = Some aid"
      by (auto simp: child_in_def views_def view_of_def)
    then have "b \<in> set (asset_children aid db)" by (simp add: asset_children_def)
    with r aid(1) b(2) have "relative_reasons ''partitionFinancedByFacility='' (Some f) (en_asset_id q) db = []"
      by (auto simp: eligibility_reasons_def)
    from relative_none [OF this q(1,2) refl u(1)] show ?thesis .
  qed
  have "db' = db1\<lparr>gd_encumbrances := gd_encumbrances db1 @ [?e]\<rparr> \<and> encumbrances_ok (views db1) (gd_encumbrances db1 @ [?e])"
    by (rule encumbrance_added [OF i]) (use d act rel in \<open>auto simp: asset_inv_def\<close>)
  moreover have "clean x (gd_flags db1) (gd_encumbrances db1 @ [?e]) = clean x (gd_flags db1) (gd_encumbrances db1)" for x
    by (auto simp: clean_def third_party_open_def)
  ultimately show ?thesis using d(3) by (auto simp: asset_inv_def assets_ok_def)
qed

lemma close_inv:
  assumes "asset_inv db"
  shows "asset_inv (close_encumbrance now eid db) \<and> views (close_encumbrance now eid db) = views db"
proof -
  obtain es where "close_encumbrance now eid db = db\<lparr>gd_encumbrances := es\<rparr>" "encumbrances_ok (views db) es"
    "\<forall>e \<in> set es. en_status e = ''OPEN'' \<longrightarrow> e \<in> set (gd_encumbrances db) \<and> en_id e \<noteq> eid"
    by (rule encumbrance_closed [of "views db" db]) (use assms in \<open>auto simp: asset_inv_def\<close>)
  then show ?thesis using assms clean_closed [of _ "gd_flags db" "gd_encumbrances db" es] by (auto simp: asset_inv_def assets_ok_def)
qed

lemma release_inv: "release now eid rl db = Inr db' \<Longrightarrow> asset_inv db \<Longrightarrow> asset_inv db'"
  using close_inv by (auto simp: release_def then_do_eq_Inr split: option.splits)

lemma review_inv:
  assumes "review_ownership aid verdict ownership rl ref conf db = Inr db'" and "asset_inv db"
  shows "asset_inv db'"
proof -
  let ?f = "\<lambda>a. a\<lparr>ga_ownership_review := verdict, ga_ownership := ownership, ga_review_ref := ref,
    ga_identity_confidence := (case conf of None \<Rightarrow> ga_identity_confidence a | Some c \<Rightarrow> c)\<rparr>"
  have "update_asset aid ?f db = Inr db'" using assms(1) unfolding review_ownership_def by (auto simp: then_do_eq_Inr)
  note e = update_asset_effect [OF this]
  have "views db' = views db" using e views_update [of ?f] by (simp add: view_of_def)
  moreover have "assets_ok db'" using assets_updated [of aid db ?f] e assms(2) by (auto simp: asset_inv_def assets_ok_but assets_ok_def)
  ultimately show ?thesis using e assms(2) by (simp add: asset_inv_def)
qed

lemma resolve_inv:
  assumes "resolve_flag now fid rl resolution db = Inr db'" and "asset_inv db"
  shows "asset_inv db'"
proof -
  let ?fs = "update_where (\<lambda>f. fg_id f = fid) (\<lambda>f. f\<lparr>fg_resolved_at := Some now, fg_resolved_by := Some rl, fg_resolution := Some resolution\<rparr>) (gd_flags db)"
  have d: "db' = db\<lparr>gd_flags := ?fs\<rparr>" using assms(1) by (auto simp: resolve_flag_def then_do_eq_Inr split: option.splits)
  have "clean x ?fs es" if "clean x (gd_flags db) es" for x es
  proof -
    have "fg_resolved_at f \<noteq> None" if f: "f \<in> set ?fs" "fg_asset_id f = x" for f
    proof -
      from f(1) obtain q where q: "q \<in> set (gd_flags db)" "f = (if fg_id q = fid then q\<lparr>fg_resolved_at := Some now, fg_resolved_by := Some rl,
        fg_resolution := Some resolution\<rparr> else q)" unfolding in_update_where by blast
      with f(2) \<open>clean x (gd_flags db) es\<close> show ?thesis by (cases "fg_id q = fid") (auto simp: clean_def)
    qed
    with that show ?thesis by (auto simp: clean_def)
  qed
  with assms(2) show ?thesis by (simp add: d asset_inv_def assets_ok_def)
qed

lemma document_inv: "insert_document d db = Inr db' \<Longrightarrow> asset_inv db \<Longrightarrow> asset_inv db'"
  using inv_tables(3) by (auto simp: insert_document_def)

lemma end_assignment_inv:
  assumes "end_assignment now aid rl reason ended db = Inr db'" and "asset_inv db"
  shows "asset_inv db'"
proof -
  obtain t where "finish_assignment t aid [(''endReason'', JStr reason)] db = Inr db'"
    using assms(1) unfolding end_assignment_def by (auto simp: then_do_eq_Inr)
  then obtain rows where "db' = db\<lparr>gd_assignments := rows\<rparr>" "assignments_ok (views db) rows"
    by (rule assignment_finished) (use assms(2) in \<open>auto simp: asset_inv_def\<close>)
  with inv_tables(2) [OF assms(2)] show ?thesis by simp
qed

subsection \<open>Replacement\<close>

definition retire_view :: "string \<Rightarrow> asset_view \<Rightarrow> asset_view" where
  "retire_view old v = (case v of (i, s, p, k) \<Rightarrow> (i, if i = old then ''RETIRED'' else s, p, k))"

lemma views_retired:
  "views (db\<lparr>gd_assets := update_where (\<lambda>a. ga_id a = old) (\<lambda>a. a\<lparr>ga_status := ''RETIRED'', ga_eligible := False\<rparr>) (gd_assets db)\<rparr>) =
     retire_view old ` views db"
proof -
  have "map view_of (update_where (\<lambda>a. ga_id a = old) (\<lambda>a. a\<lparr>ga_status := ''RETIRED'', ga_eligible := False\<rparr>) rows) = map (retire_view old) (map view_of rows)" for rows
    by (induction rows) (simp_all add: update_where_def view_of_def retire_view_def)
  from arg_cong [OF this, of set] show ?thesis by (simp add: views_def image_image)
qed

lemma in_retired: "(i, s, p, k) \<in> retire_view old ` V \<longleftrightarrow> (\<exists>t. (i, t, p, k) \<in> V \<and> s = (if i = old then ''RETIRED'' else t))"
proof
  assume "(i, s, p, k) \<in> retire_view old ` V"
  then obtain v where "v \<in> V" "(i, s, p, k) = retire_view old v" by blast
  then show "\<exists>t. (i, t, p, k) \<in> V \<and> s = (if i = old then ''RETIRED'' else t)" by (cases v) (auto simp: retire_view_def)
next
  assume "\<exists>t. (i, t, p, k) \<in> V \<and> s = (if i = old then ''RETIRED'' else t)"
  then obtain t where "(i, t, p, k) \<in> V" "s = (if i = old then ''RETIRED'' else t)" by blast
  then show "(i, s, p, k) \<in> retire_view old ` V" by (intro image_eqI [of _ _ "(i, t, p, k)"]) (auto simp: retire_view_def)
qed

lemma retired_in:
  "known_in (retire_view old ` V) x \<longleftrightarrow> known_in V x" "active_in (retire_view old ` V) x \<longleftrightarrow> active_in V x \<and> x \<noteq> old"
  "child_in (retire_view old ` V) x y \<longleftrightarrow> child_in V x y"
  unfolding known_in_def active_in_def child_in_def in_retired by auto

lemma retired_family: "family_ok V \<Longrightarrow> family_ok (retire_view old ` V)"
  unfolding family_ok_def in_retired by blast

lemma retired_encumbrances:
  "encumbrances_ok V es \<Longrightarrow> \<forall>e \<in> set es. financed e \<longrightarrow> en_asset_id e \<noteq> old \<Longrightarrow> encumbrances_ok (retire_view old ` V) es"
  by (auto simp: encumbrances_ok_def retired_in)

lemma move_keys_inv:
  assumes "move_keys now old new ks db = Inr db'" and "asset_inv db" and "active_in (views db) new"
  shows "asset_inv db' \<and> views db' = views db \<and> gd_encumbrances db' = gd_encumbrances db \<and> gd_assignments db' = gd_assignments db"
  using assms
proof (induction now old new ks db rule: move_keys.induct)
  case (2 now old new scheme v ks db)
  let ?p = "\<lambda>k. ik_asset_id k = old \<and> key_name k = (scheme, v) \<and> key_active k"
  let ?k = "\<lparr>ik_asset_id = new, ik_scheme = scheme, ik_value = v, ik_provenance = JObj [(''movedFrom'', JStr old), (''reason'', JStr ''RMA'')],
    ik_recorded_at = now, ik_retired_at = None\<rparr>"
  obtain db1 db2 where r: "retire_keys now ?p db = Inr db1" and i: "insert_identity_key ?k db1 = Inr db2" and rest: "move_keys now old new ks db2 = Inr db'"
    using 2(2) by (auto simp: Let_def then_do_eq_Inr)
  obtain ks1 where d1: "db1 = db\<lparr>gd_keys := ks1\<rparr>" "keys_ok (views db) ks1"
    using r by (rule keys_retired) (use 2(3) in \<open>auto simp: asset_inv_def\<close>)
  obtain ks2 where d2: "db2 = db1\<lparr>gd_keys := ks2\<rparr>" "keys_ok (views db1) ks2"
    using i by (rule key_added) (use d1 2(4) in auto)
  have inv: "asset_inv db2" "views db2 = views db" using inv_tables(1) [OF 2(3)] d1 d2 by simp_all
  from 2(1) [OF refl rest inv(1)] inv(2) 2(4) d1(1) d2(1) show ?case by simp
qed simp

lemma retired_assignments:
  "assignments_ok V rows \<Longrightarrow> \<forall>a \<in> set rows. assignment_open a \<longrightarrow> pn_asset_id a \<noteq> old \<Longrightarrow> assignments_ok (retire_view old ` V) rows"
  by (auto simp: assignments_ok_def retired_in)

lemma retired_keys:
  "keys_ok V ks \<Longrightarrow> \<forall>k \<in> set ks. key_active k \<longrightarrow> ik_asset_id k \<noteq> old \<Longrightarrow> keys_ok (retire_view old ` V) ks"
  by (auto simp: keys_ok_def retired_in)

text \<open>The first half: the new asset is there, the old one retired, its assignment and encumbrance still to move.\<close>

lemma replace_first_half:
  assumes inv: "asset_inv db" and a: "get_asset old db = Inr oa"
    and i: "insert_asset (replacement_of oa new) db = Inr db1" and m: "move_keys now old new moved db1 = Inr db2"
    and k: "insert_keys now new prov fresh db2 = Inr db3" and r: "retire_keys now (\<lambda>k. ik_asset_id k = old \<and> key_active k) db3 = Inr db4"
    and u: "update_asset old (\<lambda>a. a\<lparr>ga_status := ''RETIRED'', ga_eligible := False\<rparr>) db4 = Inr db5"
  shows "assets_ok db5" "family_ok (views db5)" "keys_ok (views db5) (gd_keys db5)" "gd_assignments db5 = gd_assignments db" "gd_encumbrances db5 = gd_encumbrances db"
    "views db5 = retire_view old ` insert (view_of (replacement_of oa new)) (views db)"
    "assignments_ok (insert (view_of (replacement_of oa new)) (views db)) (gd_assignments db)"
    "encumbrances_ok (insert (view_of (replacement_of oa new)) (views db)) (gd_encumbrances db)"
proof -
  let ?V = "insert (view_of (replacement_of oa new)) (views db)"
  have fields: "\<not> ga_eligible (replacement_of oa new)" "ga_parent_id (replacement_of oa new) = None" "ga_id (replacement_of oa new) = new"
    "ga_status (replacement_of oa new) = ''ACTIVE''" by (simp_all add: replacement_of_def)
  have d1: "asset_inv db1" "views db1 = ?V" using insert_asset_inv [OF i inv] fields by auto
  have t1: "gd_assignments db1 = gd_assignments db" "gd_encumbrances db1 = gd_encumbrances db" using insert_asset_effect [OF i] by simp_all
  have act: "active_in (views db1) new" unfolding d1(2) using fields by (auto simp: active_in_def view_of_def)
  note d2 = move_keys_inv [OF m d1(1) act]
  with act have "active_in (views db2) new" by simp
  with insert_keys_inv [OF k] d2 have d3: "asset_inv db3" "views db3 = ?V" "gd_assignments db3 = gd_assignments db" "gd_encumbrances db3 = gd_encumbrances db"
    using d1(2) t1 by simp_all
  obtain ks where ks: "db4 = db3\<lparr>gd_keys := ks\<rparr>" "keys_ok (views db3) ks" "\<forall>x \<in> set ks. key_active x \<longrightarrow> x \<in> set (gd_keys db3) \<and> \<not> (ik_asset_id x = old \<and> key_active x)"
    using r by (rule keys_retired) (use d3 in \<open>auto simp: asset_inv_def\<close>)
  have d4: "asset_inv db4" "views db4 = ?V" using inv_tables(1) [OF d3(1)] ks d3(2) by simp_all
  note e = update_asset_effect [OF u]
  show v: "views db5 = retire_view old ` ?V" using e views_retired [of old db4] d4(2) by simp
  show "assets_ok db5" using assets_updated [of old db4 "\<lambda>a. a\<lparr>ga_status := ''RETIRED'', ga_eligible := False\<rparr>"] e d4(1)
    by (simp add: asset_inv_def assets_ok_but)
  show "family_ok (views db5)" unfolding v using d4 by (intro retired_family) (simp add: asset_inv_def)
  show "keys_ok (views db5) (gd_keys db5)" unfolding v using ks d3 e by (intro retired_keys) auto
  show "gd_assignments db5 = gd_assignments db" "gd_encumbrances db5 = gd_encumbrances db" using e ks(1) d3 by simp_all
  show "assignments_ok ?V (gd_assignments db)" "encumbrances_ok ?V (gd_encumbrances db)" using d1 t1 by (auto simp: asset_inv_def)
qed

lemma carry_over_inv:
  assumes c: "carry_over now h new eid db = Inr db'" and h: "open_facility_encumbrance old db = Some h"
    and ok: "assets_ok db" "family_ok (views db)" "keys_ok (views db) (gd_keys db)" "assignments_ok (views db) (gd_assignments db)"
    and v: "views db = retire_view old ` V" and es: "encumbrances_ok V (gd_encumbrances db)"
    and act: "active_in (views db) new" and alone: "\<And>x. \<not> child_in (views db) new x" "\<And>x. \<not> child_in (views db) x new"
  shows "asset_inv db'"
proof -
  let ?e = "h\<lparr>en_id := eid, en_asset_id := new, en_valid_from := now\<rparr>"
  have hh: "h \<in> set (gd_encumbrances db)" "en_asset_id h = old" "financed h" using h by (auto simp: open_facility_encumbrance_def dest: find_Some_iff)
  have i: "insert_encumbrance ?e (close_encumbrance now (en_id h) db) = Inr db'" using c by (simp add: carry_over_def)
  obtain es1 where e1: "close_encumbrance now (en_id h) db = db\<lparr>gd_encumbrances := es1\<rparr>" "encumbrances_ok V es1"
    "\<forall>e \<in> set es1. en_status e = ''OPEN'' \<longrightarrow> e \<in> set (gd_encumbrances db) \<and> en_id e \<noteq> en_id h"
    by (rule encumbrance_closed [OF es])
  have "\<forall>e \<in> set es1. financed e \<longrightarrow> en_asset_id e \<noteq> old"
  proof (intro ballI impI notI)
    fix e assume e: "e \<in> set es1" "financed e" "en_asset_id e = old"
    then have "e \<in> set (gd_encumbrances db)" "en_id e \<noteq> en_id h" using e1(3) by (auto simp: financed_def)
    with hh e unique_where_same [of financed en_asset_id "gd_encumbrances db" e h] es show False by (auto simp: encumbrances_ok_def)
  qed
  then have es2: "encumbrances_ok (views db) es1" unfolding v using e1(2) by (intro retired_encumbrances)
  have d: "db' = db\<lparr>gd_encumbrances := es1 @ [?e]\<rparr> \<and> encumbrances_ok (views db) (es1 @ [?e])"
    using encumbrance_added [OF i] es2 act alone unfolding e1(1) by simp
  have "clean x (gd_flags db) (es1 @ [?e])" if "clean x (gd_flags db) (gd_encumbrances db)" for x
    using clean_closed [OF that] e1(3) hh(3) by (auto simp: clean_def third_party_open_def financed_def)
  with d ok show ?thesis by (auto simp: asset_inv_def assets_ok_def)
qed

lemma replace_asset_inv:
  assumes "replace_asset now old new moved fresh rl asg carry db = Inr db'" and inv: "asset_inv db"
  shows "asset_inv db'"
proof -
  obtain oa where a: "get_asset old db = Inr oa" using assms(1) unfolding replace_asset_def by (auto simp: then_do_eq_Inr)
  let ?r = "replacement_of oa new" and ?V = "insert (view_of (replacement_of oa new)) (views db)"
  obtain db1 db2 db3 db4 db5 db6 where steps: "insert_asset ?r db = Inr db1" "move_keys now old new moved db1 = Inr db2"
      "insert_keys now new (JObj [(''reason'', JStr ''RMA''), (''by'', JStr rl)]) fresh db2 = Inr db3"
      "retire_keys now (\<lambda>k. ik_asset_id k = old \<and> key_active k) db3 = Inr db4"
      "update_asset old (\<lambda>a. a\<lparr>ga_status := ''RETIRED'', ga_eligible := False\<rparr>) db4 = Inr db5"
    and asg: "(case open_assignment old db of None \<Rightarrow> Inr db5 | Some c \<Rightarrow>
           then_do (finish_assignment now old [(''endReason'', JStr ''RMA''), (''replacedBy'', JStr new)] db5) (\<lambda>db.
           then_do (assign_provider now new (pn_account_id c) rl ''RMA'' asg None (Some (JObj [(''replaces'', JStr old)])) db) (\<lambda>(db, _). Inr db))) = Inr db6"
    and enc: "(case open_facility_encumbrance old db of None \<Rightarrow> Inr db6 | Some e \<Rightarrow> carry_over now e new (derive_ulid new ''EN'') db6) = Inr db'"
    using assms(1) a unfolding replace_asset_def Let_def by (auto simp: then_do_eq_Inr)
  note half = replace_first_half [OF inv a steps]
  have nk: "\<not> known_in (views db) new" using insert_asset_effect [OF steps(1)] by (simp add: replacement_of_def)
  have ne: "new \<noteq> old" using nk get_asset_eq [OF a] by (auto simp: known_has_key has_key_def)
  have d6: "views db6 = views db5 \<and> assets_ok db6 \<and> assignments_ok (views db5) (gd_assignments db6) \<and> gd_keys db6 = gd_keys db5 \<and>
    gd_encumbrances db6 = gd_encumbrances db5"
  proof (cases "open_assignment old db")
    case None
    then have "\<forall>x \<in> set (gd_assignments db). assignment_open x \<longrightarrow> pn_asset_id x \<noteq> old" by (auto simp: open_assignment_def find_None_iff)
    with None asg half retired_assignments [OF half(7)] show ?thesis by simp
  next
    case (Some c)
    then obtain x out where f: "finish_assignment now old [(''endReason'', JStr ''RMA''), (''replacedBy'', JStr new)] db5 = Inr x"
      and p: "assign_provider now new (pn_account_id c) rl ''RMA'' asg None (Some (JObj [(''replaces'', JStr old)])) x = Inr (db6, out)"
      using asg by (auto simp: then_do_eq_Inr)
    obtain rows where x: "x = db5\<lparr>gd_assignments := rows\<rparr>" "assignments_ok ?V rows" "\<forall>y \<in> set rows. assignment_open y \<longrightarrow> pn_asset_id y \<noteq> old"
      using f by (rule assignment_finished [of _ _ _ _ _ ?V]) (use half in simp_all)
    have "assets_ok x" using half(1) x(1) by (simp add: assets_ok_def)
    moreover have "assignments_ok (views x) (gd_assignments x)" using retired_assignments [OF x(2,3)] x(1) half(6) by simp
    ultimately show ?thesis using assign_provider_effect [OF p] x(1) by simp
  qed
  show ?thesis
  proof (cases "open_facility_encumbrance old db")
    case None
    then have "\<forall>e \<in> set (gd_encumbrances db). financed e \<longrightarrow> en_asset_id e \<noteq> old" by (auto simp: open_facility_encumbrance_def find_None_iff)
    from retired_encumbrances [OF half(8) this] None enc d6 half show ?thesis by (simp add: asset_inv_def)
  next
    case (Some h)
    have "child_in (views db6) x y \<longleftrightarrow> child_in ?V x y" "active_in (views db6) x \<longleftrightarrow> active_in ?V x \<and> x \<noteq> old" for x y
      using d6 half(6) by (simp_all only: retired_in)
    moreover have "active_in ?V new" by (auto simp: active_in_def view_of_def replacement_of_def)
    moreover have "\<not> child_in ?V new y" for y using nk by (auto simp: child_in_def view_of_def replacement_of_def known_in_def)
    moreover have "\<not> child_in ?V x new" for x
    proof
      assume "child_in ?V x new"
      then obtain s k where "(x, s, Some new, k) \<in> views db" by (auto simp: child_in_def view_of_def replacement_of_def)
      moreover from inv have "family_ok (views db)" by (simp add: asset_inv_def)
      ultimately have "\<exists>s'. (new, s', None, ''PHYSICAL_GPU'') \<in> views db" unfolding family_ok_def by blast
      with nk show False by (auto simp: known_in_def)
    qed
    moreover have "open_facility_encumbrance old db6 = Some h" using Some d6 half(5) by (simp add: open_facility_encumbrance_def)
    ultimately show ?thesis
      using Some enc d6 half ne by (intro carry_over_inv [of now h new "derive_ulid new ''EN''" db6 db' old ?V]) simp_all
  qed
qed

section \<open>Every step keeps it\<close>

definition asset_start :: "asset_db \<Rightarrow> bool" where
  "asset_start db \<longleftrightarrow> gd_assets db = [] \<and> gd_keys db = [] \<and> gd_assignments db = [] \<and> gd_encumbrances db = []"

lemma attach_document_inv: "attach_document aid kind ref h rl db = Inr db' \<Longrightarrow> asset_inv db \<Longrightarrow> asset_inv db'"
  using document_inv by (auto simp: attach_document_def then_do_eq_Inr)

lemma attach_evidence_inv: "attach_native_evidence aid evidence rl db = Inr db' \<Longrightarrow> asset_inv db \<Longrightarrow> asset_inv db'"
  using document_inv by (auto simp: attach_native_evidence_def then_do_eq_Inr)

lemma eligibility_inv: "eligibility aid fac db = Inr (db', res) \<Longrightarrow> asset_inv db \<Longrightarrow> asset_inv db'"
  by (erule eligibility_effect)

lemmas asset_operations_inv = resolve_inv assign_provider_inv end_assignment_inv register_asset_inv register_partition_inv
  change_identity_key_inv replace_asset_inv review_inv record_right_inv attach_document_inv attach_evidence_inv eligibility_inv
  assign_to_facility_inv release_inv

lemma asset_step_inv: "asset_step db db' \<Longrightarrow> asset_inv db \<Longrightarrow> asset_inv db'"
  by (induction rule: asset_step.induct) (erule (1) asset_operations_inv | simp add: inv_tables(4))+

lemma asset_start_inv: "asset_start db \<Longrightarrow> asset_inv db"
  by (auto simp: asset_start_def asset_inv_def assets_ok_def family_ok_def keys_ok_def assignments_ok_def encumbrances_ok_def views_def
      unique_on_def unique_where_def)

interpretation registry: inv_machine asset_start asset_step asset_inv
  by unfold_locales (blast intro: asset_start_inv asset_step_inv)+

section \<open>The walk to the root ends\<close>

text \<open>The row whose units an asset stands for: its parent's when it is a partition, otherwise its own.\<close>

definition root_row :: "asset_db \<Rightarrow> string \<Rightarrow> gpu_asset \<Rightarrow> bool" where
  "root_row db aid r \<longleftrightarrow> r \<in> set (gd_assets db) \<and>
     (\<exists>a \<in> set (gd_assets db). ga_id a = aid \<and> (case ga_parent_id a of None \<Rightarrow> r = a | Some p \<Rightarrow> ga_id r = p))"

definition root_units :: "gpu_asset \<Rightarrow> int" where
  "root_units r = (if ga_status r = ''ACTIVE'' then ga_unit_count r else 0)"

lemma view_row: "(i, s, p, k) \<in> views db \<longleftrightarrow> (\<exists>a \<in> set (gd_assets db). ga_id a = i \<and> ga_status a = s \<and> ga_parent_id a = p \<and> ga_kind a = k)"
  by (auto simp: views_def view_of_def image_iff)

lemma get_asset_row: "asset_inv db \<Longrightarrow> a \<in> set (gd_assets db) \<Longrightarrow> get_asset (ga_id a) db = Inr a"
proof (cases "get_asset (ga_id a) db")
  case (Inl e)
  assume "a \<in> set (gd_assets db)"
  with Inl show ?thesis by (auto simp: get_asset_def find_None_iff split: option.splits)
next
  case (Inr b)
  assume "asset_inv db" "a \<in> set (gd_assets db)"
  with get_asset_eq [OF Inr] unique_on_same [of ga_id "gd_assets db" b a] Inr show ?thesis by (auto simp: asset_inv_def assets_ok_def)
qed

lemma asset_row_unique: "asset_inv db \<Longrightarrow> b \<in> set (gd_assets db) \<Longrightarrow> c \<in> set (gd_assets db) \<Longrightarrow> ga_id b = ga_id c \<Longrightarrow> b = c"
  using unique_on_same [of ga_id "gd_assets db" b c] by (simp add: asset_inv_def assets_ok_def)

lemma root_row_at:
  assumes "asset_inv db" and "a \<in> set (gd_assets db)"
  shows "root_row db (ga_id a) r \<longleftrightarrow> r \<in> set (gd_assets db) \<and> (case ga_parent_id a of None \<Rightarrow> r = a | Some p \<Rightarrow> ga_id r = p)"
proof -
  have "b = a" if "b \<in> set (gd_assets db)" "ga_id b = ga_id a" for b using asset_row_unique [OF assms(1) that(1) assms(2) that(2)] .
  with assms(2) show ?thesis unfolding root_row_def by metis
qed

lemma root_found:
  assumes inv: "asset_inv db" and a: "a \<in> set (gd_assets db)"
  shows "\<exists>r. root_of db a = Some (Inr r) \<and> (\<forall>q. root_row db (ga_id a) q \<longleftrightarrow> q = r) \<and> r \<in> set (gd_assets db)"
proof (cases "ga_parent_id a")
  case None
  then have "root_of db a = Some (Inr a)" by (simp add: root_of.simps)
  with None a show ?thesis by (auto simp: root_row_at [OF inv a])
next
  case (Some p)
  with a have "(ga_id a, ga_status a, Some p, ga_kind a) \<in> views db" by (auto simp: view_row)
  with inv obtain r where r: "r \<in> set (gd_assets db)" "ga_id r = p" "ga_parent_id r = None"
    unfolding asset_inv_def family_ok_def view_row by blast
  then have "root_of db a = Some (Inr r)"
    using Some get_asset_row [OF inv r(1)] by (simp add: root_of.simps [of db a] root_of.simps [of db r])
  moreover have "root_row db (ga_id a) q \<longleftrightarrow> q = r" for q
    using Some r asset_row_unique [OF inv _ r(1), of q] by (auto simp: root_row_at [OF inv a])
  ultimately show ?thesis using r(1) by blast
qed

definition roots_of :: "asset_db \<Rightarrow> string list \<Rightarrow> string set" where
  "roots_of db ids = {ga_id r | r i. i \<in> set ids \<and> root_row db i r}"

lemma collateral_loop_total:
  assumes "asset_inv db" and "\<forall>i \<in> set ids. has_key ga_id (gd_assets db) i"
  shows "\<exists>u. collateral_loop db ids acc = Some (Inr u) \<and> (dict_ok acc \<longrightarrow> dict_ok u) \<and>
    (\<forall>r \<in> set (gd_assets db). ga_id r \<in> roots_of db ids \<longrightarrow> map_of u (ga_id r) = Some (root_units r)) \<and>
    (\<forall>k. k \<notin> roots_of db ids \<longrightarrow> map_of u k = map_of acc k)"
  using assms(2)
proof (induction ids arbitrary: acc)
  case (Cons i ids)
  then obtain a where a: "a \<in> set (gd_assets db)" "ga_id a = i" by (auto simp: has_key_def)
  from root_found [OF assms(1) a(1)] obtain r where r: "root_of db a = Some (Inr r)" "\<forall>q. root_row db i q \<longleftrightarrow> q = r" "r \<in> set (gd_assets db)"
    unfolding a(2) by blast
  let ?acc = "dict_set (ga_id r) (root_units r) acc"
  have step: "collateral_loop db (i # ids) acc = collateral_loop db ids ?acc"
    using get_asset_row [OF assms(1) a(1)] a(2) r(1) by (simp add: root_units_def)
  have roots: "roots_of db (i # ids) = insert (ga_id r) (roots_of db ids)" using r(2) by (auto simp: roots_of_def)
  have "\<forall>j \<in> set ids. has_key ga_id (gd_assets db) j" using Cons.prems by simp
  from Cons.IH [OF this, of ?acc] obtain u where u: "collateral_loop db ids ?acc = Some (Inr u)" "dict_ok ?acc \<longrightarrow> dict_ok u"
      "\<forall>r \<in> set (gd_assets db). ga_id r \<in> roots_of db ids \<longrightarrow> map_of u (ga_id r) = Some (root_units r)"
      "\<forall>k. k \<notin> roots_of db ids \<longrightarrow> map_of u k = map_of ?acc k"
    by blast
  have "map_of u (ga_id q) = Some (root_units q)" if "q \<in> set (gd_assets db)" "ga_id q \<in> insert (ga_id r) (roots_of db ids)" for q
    using that u(3,4) asset_row_unique [OF assms(1) that(1) r(3)] by (cases "ga_id q \<in> roots_of db ids") auto
  with u show ?case unfolding step roots by (intro exI [of _ u]) auto
qed (simp add: roots_of_def)

text \<open>C33: the collateral count is total and counts each physical unit once. In every reachable state the walk to the root of a
  registered asset ends, and the count answers, for the assets asked, a dictionary with exactly one entry per
  root asset: a partition counts as its parent, listing an asset twice or beside its partitions adds
  nothing, and a retired root counts zero.\<close>

theorem collateral_counts_once:
  assumes "asset_start db0" and "asset_step\<^sup>*\<^sup>* db0 db" and "\<forall>i \<in> set ids. has_key ga_id (gd_assets db) i"
  shows "\<exists>u. collateral_units ids db = Some (Inr u) \<and> dict_ok u \<and> fst ` set u = {ga_id r | r i. i \<in> set ids \<and> root_row db i r} \<and>
    (\<forall>i \<in> set ids. \<forall>r. root_row db i r \<longrightarrow> map_of u (ga_id r) = Some (root_units r))"
proof -
  note inv = registry.reachable_inv [OF assms(1,2)]
  obtain u where u: "collateral_units ids db = Some (Inr u)" "dict_ok u"
      "\<forall>r \<in> set (gd_assets db). ga_id r \<in> roots_of db ids \<longrightarrow> map_of u (ga_id r) = Some (root_units r)" "\<forall>k. k \<notin> roots_of db ids \<longrightarrow> map_of u k = None"
    using collateral_loop_total [OF inv assms(3), of "[]"] by (auto simp: collateral_units_def)
  have val: "map_of u (ga_id r) = Some (root_units r)" if "i \<in> set ids" "root_row db i r" for i r
    using that u(3) by (auto simp: roots_of_def root_row_def)
  have "dom (map_of u) = roots_of db ids"
  proof
    show "dom (map_of u) \<subseteq> roots_of db ids" using u(4) by (auto simp: dom_def)
    show "roots_of db ids \<subseteq> dom (map_of u)" using val by (auto simp: roots_of_def)
  qed
  then have "fst ` set u = {ga_id r | r i. i \<in> set ids \<and> root_row db i r}" by (simp add: dom_map_of_conv_image_fst roots_of_def)
  with u(1,2) val show ?thesis by blast
qed

section \<open>What the registry guarantees\<close>

text \<open>C16: no double financing. In every reachable state an asset has at most one open facility encumbrance; a partition and its
  parent are never financed by different facilities; an identity key is active on one asset only; an asset is
  live on one provider account only; and a retired asset has no active key, no open assignment and no
  open facility encumbrance.\<close>

theorem no_double_financing:
  assumes "asset_start db0" and "asset_step\<^sup>*\<^sup>* db0 db"
  shows "unique_where financed en_asset_id (gd_encumbrances db) \<and> unique_where key_active key_name (gd_keys db) \<and>
    unique_where assignment_open pn_asset_id (gd_assignments db) \<and>
    (\<forall>a \<in> set (gd_assets db). \<forall>e \<in> set (gd_encumbrances db). \<forall>p \<in> set (gd_encumbrances db).
       financed e \<and> financed p \<and> en_asset_id e = ga_id a \<and> ga_parent_id a = Some (en_asset_id p) \<longrightarrow> en_facility_id e = en_facility_id p) \<and>
    (\<forall>a \<in> set (gd_assets db). ga_status a \<noteq> ''ACTIVE'' \<longrightarrow> active_keys (ga_id a) db = [] \<and> open_assignment (ga_id a) db = None \<and>
       open_facility_encumbrance (ga_id a) db = None)"
proof -
  note inv = registry.reachable_inv [OF assms]
  then have ok: "keys_ok (views db) (gd_keys db)" "assignments_ok (views db) (gd_assignments db)" "encumbrances_ok (views db) (gd_encumbrances db)"
    by (simp_all add: asset_inv_def)
  have act: "ga_status a = ''ACTIVE''" if "active_in (views db) (ga_id a)" "a \<in> set (gd_assets db)" for a
    using that inv unique_on_same [of ga_id "gd_assets db" _ a] by (auto simp: active_in_def view_row asset_inv_def assets_ok_def)
  have "child_in (views db) (ga_id a) p" if "a \<in> set (gd_assets db)" "ga_parent_id a = Some p" for a p
    using that by (auto simp: child_in_def view_row)
  then have "en_facility_id e = en_facility_id p" if "a \<in> set (gd_assets db)" "e \<in> set (gd_encumbrances db)" "p \<in> set (gd_encumbrances db)"
      "financed e" "financed p" "en_asset_id e = ga_id a" "ga_parent_id a = Some (en_asset_id p)" for a e p
    using that ok(3) unfolding encumbrances_ok_def by metis
  moreover have "active_keys (ga_id a) db = [] \<and> open_assignment (ga_id a) db = None \<and> open_facility_encumbrance (ga_id a) db = None"
    if "a \<in> set (gd_assets db)" "ga_status a \<noteq> ''ACTIVE''" for a
  proof -
    have no: "\<not> active_in (views db) (ga_id a)" using that act by blast
    have "\<not> (ik_asset_id k = ga_id a \<and> key_active k)" if "k \<in> set (gd_keys db)" for k using that no ok(1) unfolding keys_ok_def by metis
    moreover have "\<not> (pn_asset_id r = ga_id a \<and> assignment_open r)" if "r \<in> set (gd_assignments db)" for r
      using that no ok(2) unfolding assignments_ok_def by metis
    moreover have "\<not> (en_asset_id e = ga_id a \<and> financed e)" if "e \<in> set (gd_encumbrances db)" for e
      using that no ok(3) unfolding encumbrances_ok_def by metis
    ultimately show ?thesis by (simp add: active_keys_def open_assignment_def open_facility_encumbrance_def find_None_iff filter_empty_conv)
  qed
  ultimately show ?thesis using ok unfolding keys_ok_def assignments_ok_def encumbrances_ok_def by blast
qed

text \<open>An eligible asset is clean. In every reachable state an asset marked eligible is active, its ownership is verified and
  known, it has no unresolved review flag and no open lien, pledge or assignment of a third party.\<close>

theorem eligible_asset_is_clean:
  assumes "asset_start db0" and "asset_step\<^sup>*\<^sup>* db0 db"
  shows "\<forall>a \<in> set (gd_assets db). ga_eligible a \<longrightarrow> ga_status a = ''ACTIVE'' \<and> ga_ownership_review a = ''VERIFIED'' \<and> ga_ownership a \<noteq> ''UNKNOWN'' \<and>
    open_flags (ga_id a) db = [] \<and> (\<forall>e \<in> set (open_encumbrances (ga_id a) db). en_facility_id e \<noteq> None \<or> en_kind e \<notin> set THIRD_PARTY_KINDS)"
proof (intro ballI impI)
  fix a
  assume a: "a \<in> set (gd_assets db)" "ga_eligible a"
  with registry.reachable_inv [OF assms] have "gpu_asset_checks a" "clean (ga_id a) (gd_flags db) (gd_encumbrances db)"
    by (auto simp: asset_inv_def assets_ok_def)
  note facts = this
  have "ga_status a = ''ACTIVE'' \<and> ga_ownership_review a = ''VERIFIED'' \<and> ga_ownership a \<noteq> ''UNKNOWN''"
    using facts(1) a(2) unfolding gpu_asset_checks_def by blast
  moreover have "open_flags (ga_id a) db = []" using facts(2) by (auto simp: clean_def open_flags_def filter_empty_conv)
  moreover have "en_facility_id e \<noteq> None \<or> en_kind e \<notin> set THIRD_PARTY_KINDS" if "e \<in> set (open_encumbrances (ga_id a) db)" for e
    using facts(2) that unfolding clean_def open_encumbrances_def third_party_open_def by auto
  ultimately show "ga_status a = ''ACTIVE'' \<and> ga_ownership_review a = ''VERIFIED'' \<and> ga_ownership a \<noteq> ''UNKNOWN'' \<and> open_flags (ga_id a) db = [] \<and>
      (\<forall>e \<in> set (open_encumbrances (ga_id a) db). en_facility_id e \<noteq> None \<or> en_kind e \<notin> set THIRD_PARTY_KINDS)"
    by blast
qed

section \<open>A registry from registration to replacement\<close>

definition gpu1 :: string where
  "gpu1 = replicate 26 CHR ''1''"

definition gpu2 :: string where
  "gpu2 = replicate 26 CHR ''2''"

definition mig1 :: string where
  "mig1 = replicate 26 CHR ''3''"

definition enc1 :: string where
  "enc1 = replicate 26 CHR ''4''"

definition sample_facility_row :: "string \<Rightarrow> facility_row" where
  "sample_facility_row f = \<lparr>fa_id = f, fa_borrower_id = ''B1'', fa_policy_id = ''P1'', fa_profile = EP_NATIVE_TESTNET, fa_maturity_at = None, fa_control_id = None,
     fa_funded_version = None, fa_vault_id = ''v1'', fa_loan_chain_id = 1, fa_loan_token = None, fa_loan_decimals = 6\<rparr>"

definition empty_registry :: asset_db where
  "empty_registry = \<lparr>gd_assets = [], gd_keys = [], gd_assignments = [], gd_encumbrances = [], gd_documents = [], gd_flags = [], gd_facilities = [], gd_accounts = []\<rparr>"

definition sample_key :: "string \<Rightarrow> string \<Rightarrow> json \<Rightarrow> identity_key" where
  "sample_key aid v prov = \<lparr>ik_asset_id = aid, ik_scheme = ''GPU_UUID'', ik_value = v, ik_provenance = prov, ik_recorded_at = 5, ik_retired_at = None\<rparr>"

definition key1 :: identity_key where
  "key1 = sample_key gpu1 ''a'' (JObj [(''by'', JStr ''operator'')])"

definition registry1 :: asset_db where
  "registry1 = empty_registry\<lparr>gd_facilities := [sample_facility_row ''F1'', sample_facility_row ''F2''], gd_accounts := []\<rparr>"

definition registry2 :: asset_db where
  "registry2 = registry1\<lparr>gd_assets := [new_asset gpu1 ''PHYSICAL_GPU''], gd_keys := [key1]\<rparr>"

definition verified_gpu1 :: gpu_asset where
  "verified_gpu1 = (new_asset gpu1 ''PHYSICAL_GPU'')\<lparr>ga_ownership_review := ''VERIFIED'', ga_ownership := ''OWNED''\<rparr>"

definition registry3 :: asset_db where
  "registry3 = registry2\<lparr>gd_assets := [verified_gpu1]\<rparr>"

definition registry4 :: asset_db where
  "registry4 = registry3\<lparr>gd_assets := [verified_gpu1, (new_asset mig1 ''MIG_PARTITION'')\<lparr>ga_parent_id := Some gpu1, ga_ownership := ''OWNED''\<rparr>]\<rparr>"

definition sample_encumbrance :: encumbrance where
  "sample_encumbrance = \<lparr>en_id = enc1, en_asset_id = gpu1, en_holder = ''facility:F1'', en_priority = 1, en_kind = ''ASSIGNMENT'', en_document_ref = None,
     en_valid_from = 9, en_facility_id = Some ''F1'', en_status = ''OPEN'', en_released_at = None\<rparr>"

definition registry5 :: asset_db where
  "registry5 = registry4\<lparr>gd_assets := [verified_gpu1\<lparr>ga_eligible := True\<rparr>, (new_asset mig1 ''MIG_PARTITION'')\<lparr>ga_parent_id := Some gpu1, ga_ownership := ''OWNED''\<rparr>],
     gd_encumbrances := [sample_encumbrance]\<rparr>"

lemmas registry_states = registry1_def registry2_def registry3_def registry4_def registry5_def empty_registry_def verified_gpu1_def key1_def sample_key_def
  sample_facility_row_def sample_encumbrance_def new_asset_def

lemmas registry_ids = gpu1_def gpu2_def mig1_def enc1_def

lemma sample_ids_ok [simp]: "is_ulid gpu1" "is_ulid gpu2" "is_ulid mig1" "is_ulid enc1" "gpu1 \<noteq> gpu2" "gpu1 \<noteq> mig1" "gpu2 \<noteq> gpu1" "mig1 \<noteq> gpu1" "gpu2 \<noteq> mig1" "mig1 \<noteq> gpu2"
  by (simp_all add: registry_ids is_ulid_def CROCKFORD_def numeral_eq_Suc)

lemma sample_roles [simp]: "require_role ''operator'' REGISTER_ROLES act = Inr ''operator''" "require_role ''underwriter'' REVIEW_ROLES act = Inr ''underwriter''"
  by (simp_all add: require_role_def REGISTER_ROLES_def REVIEW_ROLES_def role_values_def)

lemma sample_registered: "register_asset 5 gpu1 ''PHYSICAL_GPU'' [(''GPU_UUID'', ''a'')] ''operator'' None None 1 None None None ''LOW'' registry1 =
    Inr (registry2, \<lparr>rg_asset_id = gpu1, rg_created = True, rg_conflict = None\<rparr>)"
  by (simp add: register_asset_def registry_states find_asset_by_key_def insert_asset_def gpu_asset_checks_def ASSET_KINDS_def has_key_def doc_ref_ok_def
      insert_identity_key_def identity_key_checks_def KEY_SCHEMES_def or_json_def)

lemma sample_reviewed: "review_ownership gpu1 ''VERIFIED'' ''OWNED'' ''underwriter'' None None registry2 = Inr registry3"
  by (simp add: review_ownership_def registry_states get_asset_def update_asset_def gpu_asset_checks_def ASSET_KINDS_def doc_ref_ok_def update_where_def)

lemma sample_partitioned: "register_partition 6 gpu1 mig1 [] ''operator'' None registry3 = Inr registry4"
  by (simp add: register_partition_def registry_states get_asset_def insert_asset_def gpu_asset_checks_def ASSET_KINDS_def doc_ref_ok_def has_key_def)

lemma sample_financed: "assign_to_facility 9 enc1 gpu1 ''F1'' ''underwriter'' None registry4 = Inr registry5"
  by (simp add: assign_to_facility_def eligibility_def Let_def eligibility_reasons_def asset_reasons_def registry_states get_asset_def update_asset_def
      gpu_asset_checks_def ASSET_KINDS_def doc_ref_ok_def update_where_def has_key_def open_flags_def open_encumbrances_def asset_children_def
      relative_reasons_def open_facility_encumbrance_def insert_encumbrance_def encumbrance_checks_def financed_def OUR_HOLDER_PREFIX_def)

lemma registry_run: "asset_start empty_registry" "asset_step\<^sup>*\<^sup>* empty_registry registry5"
proof -
  show "asset_start empty_registry" by (simp add: asset_start_def empty_registry_def)
  have "asset_step\<^sup>*\<^sup>* empty_registry registry1" unfolding registry1_def by (rule r_into_rtranclp) (rule other_tables)
  also have "asset_step registry1 registry2" by (rule registered [OF sample_registered])
  also have "asset_step registry2 registry3" by (rule reviewed [OF sample_reviewed])
  also have "asset_step registry3 registry4" by (rule partitioned [OF sample_partitioned])
  also have "asset_step registry4 registry5" by (rule financed_by [OF sample_financed])
  finally show "asset_step\<^sup>*\<^sup>* empty_registry registry5" .
qed

theorem no_double_financing_witness:
  "asset_step\<^sup>*\<^sup>* empty_registry registry5 \<and> financed sample_encumbrance \<and> gd_encumbrances registry5 = [sample_encumbrance] \<and>
   unique_where financed en_asset_id (gd_encumbrances registry5) \<and> unique_where key_active key_name (gd_keys registry5)"
  using no_double_financing [OF registry_run] registry_run(2) by (simp add: registry5_def sample_encumbrance_def financed_def)

theorem eligible_asset_is_clean_witness:
  "ga_eligible (verified_gpu1\<lparr>ga_eligible := True\<rparr>) \<and> open_flags gpu1 registry5 = []"
  using eligible_asset_is_clean [OF registry_run] by (simp add: registry5_def verified_gpu1_def new_asset_def)

theorem collateral_counts_once_witness:
  "\<exists>u. collateral_units [gpu1, mig1, gpu1] registry5 = Some (Inr u) \<and> dict_ok u \<and> map_of u gpu1 = Some 1 \<and> fst ` set u = {gpu1}"
proof -
  have known: "\<forall>i \<in> set [gpu1, mig1, gpu1]. has_key ga_id (gd_assets registry5) i" by (simp add: registry_states has_key_def)
  have roots: "root_row registry5 gpu1 r \<longleftrightarrow> r = verified_gpu1\<lparr>ga_eligible := True\<rparr>" "root_row registry5 mig1 r \<longleftrightarrow> r = verified_gpu1\<lparr>ga_eligible := True\<rparr>" for r
    by (auto simp: root_row_def registry_states)
  from collateral_counts_once [OF registry_run known] obtain u where "collateral_units [gpu1, mig1, gpu1] registry5 = Some (Inr u)" "dict_ok u"
      "fst ` set u = {ga_id r | r i. i \<in> set [gpu1, mig1, gpu1] \<and> root_row registry5 i r}"
      "map_of u (ga_id (verified_gpu1\<lparr>ga_eligible := True\<rparr>)) = Some (root_units (verified_gpu1\<lparr>ga_eligible := True\<rparr>))"
    using roots by auto
  moreover have "{ga_id r | r i. i \<in> set [gpu1, mig1, gpu1] \<and> root_row registry5 i r} = {gpu1}"
  proof -
    have rid: "ga_id (verified_gpu1\<lparr>ga_eligible := True\<rparr>) = gpu1" by (simp add: verified_gpu1_def new_asset_def)
    have "i \<in> set [gpu1, mig1, gpu1] \<and> root_row registry5 i r \<longleftrightarrow> i \<in> {gpu1, mig1} \<and> r = verified_gpu1\<lparr>ga_eligible := True\<rparr>" for i r
      using roots [of r] by auto
    then have "{ga_id r | r i. i \<in> set [gpu1, mig1, gpu1] \<and> root_row registry5 i r} =
      {ga_id r | r i. i \<in> {gpu1, mig1} \<and> r = verified_gpu1\<lparr>ga_eligible := True\<rparr>}" by (simp only:)
    also have "\<dots> = {gpu1}" using rid by auto
    finally show ?thesis .
  qed
  moreover have "ga_id (verified_gpu1\<lparr>ga_eligible := True\<rparr>) = gpu1" "root_units (verified_gpu1\<lparr>ga_eligible := True\<rparr>) = 1"
    by (simp_all add: root_units_def verified_gpu1_def new_asset_def)
  ultimately show ?thesis by auto
qed

section \<open>Where the code and its documentation part\<close>

text \<open>A rejection, or a verdict that leaves the ownership unknown, cannot be recorded on an asset that is still marked eligible: the
  flush violates the constraint that ties \<open>eligible\<close> to a verified review, and the underwriter gets a
  database error.\<close>

lemma rejection_of_eligible_fails:
  assumes "get_asset aid db = Inr a" and "ga_eligible a" and "ownership \<in> {''OWNED'', ''LEASED'', ''UNKNOWN''}"
  shows "review_ownership aid ''REJECTED'' ownership ''underwriter'' ref conf db = Inl (DbError (IntegrityError ''ck_gpu_assets''))"
proof -
  note a = get_asset_eq [OF assms(1)]
  let ?f = "\<lambda>a. a\<lparr>ga_ownership_review := ''REJECTED'', ga_ownership := ownership, ga_review_ref := ref,
    ga_identity_confidence := (case conf of None \<Rightarrow> ga_identity_confidence a | Some c \<Rightarrow> c)\<rparr>"
  have "ga_eligible x \<Longrightarrow> gpu_asset_checks x \<Longrightarrow> ga_ownership_review x = ''VERIFIED''" for x by (simp add: gpu_asset_checks_def)
  from this [of "?f a"] assms(2) have "\<not> gpu_asset_checks (?f a)" by auto
  with a have "\<not> (\<forall>x \<in> set (gd_assets db). ga_id x = aid \<longrightarrow> gpu_asset_checks (?f x))" by blast
  then have "update_asset aid ?f db = Inl (DbError (IntegrityError ''ck_gpu_assets''))" by (simp add: update_asset_def ensure_def)
  with assms show ?thesis by (simp add: review_ownership_def)
qed

text \<open>A replacement takes over the ownership review but neither the open flags nor the open third-party rights of the asset it
  replaces: an asset blocked by a lien yields an eligible successor.\<close>

definition lien_gpu1 :: encumbrance where
  "lien_gpu1 = \<lparr>en_id = enc1, en_asset_id = gpu1, en_holder = ''bank'', en_priority = 1, en_kind = ''LIEN'', en_document_ref = Some ''doc://lien'',
     en_valid_from = 7, en_facility_id = None, en_status = ''OPEN'', en_released_at = None\<rparr>"

definition registry6 :: asset_db where
  "registry6 = registry3\<lparr>gd_encumbrances := [lien_gpu1], gd_flags := [\<lparr>fg_id = 1, fg_asset_id = gpu1, fg_flag = ''PRIORITY_CONFLICT'',
     fg_details = JObj [(''encumbranceId'', JStr enc1), (''holder'', JStr ''bank''), (''kind'', JStr ''LIEN''), (''priority'', JInt 1)],
     fg_resolved_at = None, fg_resolved_by = None, fg_resolution = None\<rparr>]\<rparr>"

definition registry7 :: asset_db where
  "registry7 = registry6\<lparr>gd_assets := [verified_gpu1\<lparr>ga_status := ''RETIRED''\<rparr>, replacement_of verified_gpu1 gpu2],
     gd_keys := [key1\<lparr>ik_retired_at := Some 8\<rparr>, (sample_key gpu2 ''a'' (JObj [(''movedFrom'', JStr gpu1), (''reason'', JStr ''RMA'')]))\<lparr>ik_recorded_at := 8\<rparr>]\<rparr>"

lemmas lien_states = registry7_def registry6_def lien_gpu1_def replacement_of_def registry_states

lemma lien_recorded: "record_third_party_right 7 enc1 gpu1 ''bank'' ''LIEN'' 1 ''doc://lien'' ''underwriter'' None registry3 = Inr registry6"
  by (simp add: record_third_party_right_def starts_with_def OUR_HOLDER_PREFIX_def lien_states get_asset_def insert_encumbrance_def encumbrance_checks_def
      doc_ref_ok_def is_doc_ref_def has_key_def financed_def raise_flag_def Let_def ASSET_FLAGS_def THIRD_PARTY_KINDS_def update_asset_def gpu_asset_checks_def
      ASSET_KINDS_def update_where_def)

lemma lien_replaced: "replace_asset 8 gpu1 gpu2 [(''GPU_UUID'', ''a'')] [] ''operator'' mig1 False registry6 = Inr registry7"
  by (simp add: replace_asset_def lien_states get_asset_def open_facility_encumbrance_def financed_def open_assignment_def insert_asset_def gpu_asset_checks_def
      ASSET_KINDS_def doc_ref_ok_def has_key_def Let_def key_name_def key_active_def retire_keys_def identity_key_checks_def KEY_SCHEMES_def
      insert_identity_key_def update_where_def update_asset_def)

lemma replacement_found: "get_asset gpu2 registry7 = Inr (replacement_of verified_gpu1 gpu2)"
  by (simp add: get_asset_def lien_states)

lemma replacement_passes: "update_asset gpu2 (ga_eligible_update (\<lambda>_. True)) registry7 =
    Inr (registry7\<lparr>gd_assets := [verified_gpu1\<lparr>ga_status := ''RETIRED''\<rparr>, (replacement_of verified_gpu1 gpu2)\<lparr>ga_eligible := True\<rparr>]\<rparr>)"
  by (simp add: update_asset_def lien_states gpu_asset_checks_def ASSET_KINDS_def doc_ref_ok_def update_where_def)

lemma replacement_sheds_lien:
  "asset_step\<^sup>*\<^sup>* registry3 registry7 \<and> lien_gpu1 \<in> set (gd_encumbrances registry7) \<and> open_flags gpu1 registry7 \<noteq> [] \<and>
   (\<exists>db out. eligibility gpu2 None registry7 = Inr (db, out) \<and> eo_eligible out)"
proof -
  have "asset_step registry3 registry6" "asset_step registry6 registry7"
    by (rule right_recorded [OF lien_recorded], rule replaced [OF lien_replaced])
  moreover have "eligibility_reasons None (replacement_of verified_gpu1 gpu2) registry7 = []"
    by (simp add: eligibility_reasons_def asset_reasons_def lien_states open_flags_def open_encumbrances_def asset_children_def)
  then have "\<exists>db out. eligibility gpu2 None registry7 = Inr (db, out) \<and> eo_eligible out"
    by (simp add: eligibility_def Let_def replacement_found replacement_passes)
  ultimately show ?thesis by (simp add: lien_states open_flags_def)
qed

end
