(* ===== verification/Datetime.thy ===== *)
theory Datetime
  imports Python_Std
begin

text \<open>
  Aware UTC datetimes as the services use them: microseconds of the epoch, \<open>datetime.isoformat\<close> and, on the texts it
  writes, \<open>datetime.fromisoformat\<close>, over the proleptic Gregorian calendar of the standard library. The years 1 to 9999
  are those a \<open>datetime\<close> can have.
\<close>

section \<open>The calendar\<close>

definition is_leap :: "nat \<Rightarrow> bool" where
  "is_leap y \<longleftrightarrow> y mod 4 = 0 \<and> (y mod 100 \<noteq> 0 \<or> y mod 400 = 0)"

definition days_in_year :: "nat \<Rightarrow> nat" where
  "days_in_year y = (if is_leap y then 366 else 365)"

definition days_before_year :: "nat \<Rightarrow> nat" where
  "days_before_year y = (let p = y - 1 in 365 * p + p div 4 + p div 400 - p div 100)"

definition month_days :: "nat \<Rightarrow> nat list" where
  "month_days y = [31, if is_leap y then 29 else 28, 31, 30, 31, 30, 31, 31, 30, 31, 30, 31]"

text \<open>Year and day of the year of a day counted from the first of January of the given year; month and day of the month.\<close>

function year_of :: "nat \<Rightarrow> nat \<Rightarrow> nat \<times> nat" where
  "year_of y d = (if d < days_in_year y then (y, d) else year_of (Suc y) (d - days_in_year y))"
  by pat_completeness auto
termination by (relation "measure snd") (auto simp: days_in_year_def split: if_splits)

declare year_of.simps [simp del]

fun month_of :: "nat \<Rightarrow> nat list \<Rightarrow> nat \<Rightarrow> nat \<times> nat" where
  "month_of m [] d = (m, d)"
| "month_of m (l # ls) d = (if d < l then (m, d) else month_of (Suc m) ls (d - l))"

definition date_of :: "nat \<Rightarrow> nat \<times> nat \<times> nat" where
  "date_of d = (let (y, r) = year_of 1 d; (m, k) = month_of 1 (month_days y) r in (y, m, k + 1))"

definition day_number :: "nat \<Rightarrow> nat \<Rightarrow> nat \<Rightarrow> nat" where
  "day_number y m d = days_before_year y + sum_list (take (m - 1) (month_days y)) + d - 1"

lemma days_before_Suc: "1 \<le> y \<Longrightarrow> days_before_year (Suc y) = days_before_year y + days_in_year y"
proof -
  assume "1 \<le> y"
  then obtain p where y: "y = Suc p" by (cases y) simp_all
  have le: "p div 100 \<le> p div 4" "Suc p div 100 \<le> Suc p div 4" by (simp_all add: div_le_mono2)
  have "Suc p mod 400 = 0 \<Longrightarrow> Suc p mod 100 = 0" "Suc p mod 100 = 0 \<Longrightarrow> Suc p mod 4 = 0" by presburger+
  then show ?thesis using le unfolding y days_before_year_def days_in_year_def is_leap_def Let_def
    by (simp add: div_Suc ac_simps)
qed

lemma year_of_sound:
  assumes "1 \<le> y" and "year_of y d = (z, r)"
  shows "y \<le> z \<and> r < days_in_year z \<and> days_before_year z + r = days_before_year y + d"
  using assms
proof (induction y d rule: year_of.induct)
  case (1 y d)
  show ?case
  proof (cases "d < days_in_year y")
    case True
    with 1(3) show ?thesis by (simp add: year_of.simps)
  next
    case False
    with 1(3) have "year_of (Suc y) (d - days_in_year y) = (z, r)" by (subst (asm) year_of.simps) simp
    from 1(1) [OF False _ this] False days_before_Suc [OF 1(2)] show ?thesis by auto
  qed
qed

lemma month_of_sound:
  assumes "month_of m ls d = (n, k)" and "d < sum_list ls"
  shows "m \<le> n \<and> n < m + length ls \<and> k < ls ! (n - m) \<and> sum_list (take (n - m) ls) + k = d"
  using assms
proof (induction m ls d rule: month_of.induct)
  case (2 m l ls d)
  show ?case
  proof (cases "d < l")
    case True
    with 2(2) show ?thesis by simp
  next
    case False
    with 2 have h: "Suc m \<le> n \<and> n < Suc m + length ls \<and> k < ls ! (n - Suc m) \<and> sum_list (take (n - Suc m) ls) + k = d - l" by simp
    then obtain j where j: "n - m = Suc j" "n - Suc m = j" by (metis Suc_diff_le diff_Suc_Suc)
    with h False show ?thesis by auto
  qed
qed simp

lemma sum_month_days: "sum_list (month_days y) = days_in_year y"
  by (simp add: month_days_def days_in_year_def)

theorem date_round_trip:
  assumes "date_of d = (y, m, k)"
  shows "day_number y m k = d \<and> 1 \<le> y \<and> 1 \<le> m \<and> m \<le> 12 \<and> 1 \<le> k \<and> k \<le> 31"
proof -
  obtain r j where yr: "year_of 1 d = (y, r)" and mo: "month_of 1 (month_days y) r = (m, j)" and k: "k = j + 1"
    using assms by (auto simp: date_of_def split: prod.splits)
  note ys = year_of_sound [OF _ yr] and ms = month_of_sound [OF mo]
  have y: "1 \<le> y" "r < days_in_year y" "days_before_year y + r = d" using ys by (simp_all add: days_before_year_def)
  then have m: "1 \<le> m" "m < 1 + length (month_days y)" "j < month_days y ! (m - 1)" "sum_list (take (m - 1) (month_days y)) + j = r"
    using ms by (simp_all add: sum_month_days)
  have "m - 1 < 12" using m(1,2) by (simp add: month_days_def)
  then have "month_days y ! (m - 1) \<le> 31" unfolding month_days_def by (auto simp: less_Suc_eq numeral_eq_Suc)
  with y m k show ?thesis by (simp add: day_number_def month_days_def)
qed

section \<open>ISO 8601 text\<close>

definition padded :: "nat \<Rightarrow> nat \<Rightarrow> string" where
  "padded w n = (let s = str_nat n in replicate (w - length s) CHR ''0'' @ s)"

definition EPOCH_DAY :: int where
  "EPOCH_DAY = 719162"

definition isoformat :: "int \<Rightarrow> string" where
  "isoformat t =
    (let (y, m, d) = date_of (nat (t div 86400000000 + EPOCH_DAY)); s = nat (t div 1000000 mod 86400); us = nat (t mod 1000000)
     in padded 4 y @ ''-'' @ padded 2 m @ ''-'' @ padded 2 d @ ''T'' @ padded 2 (s div 3600) @ '':'' @ padded 2 (s div 60 mod 60) @ '':'' @ padded 2 (s mod 60) @
        (if us = 0 then [] else ''.'' @ padded 6 us) @ ''+00:00'')"

definition field :: "nat \<Rightarrow> nat \<Rightarrow> string \<Rightarrow> nat option" where
  "field i w s = read_digits 0 (take w (drop i s))"

definition fromisoformat :: "string \<Rightarrow> int option" where
  "fromisoformat s =
    (case (field 0 4 s, field 5 2 s, field 8 2 s, field 11 2 s, field 14 2 s, field 17 2 s, if length s = 32 then field 20 6 s else Some 0) of
       (Some y, Some m, Some d, Some hh, Some mm, Some ss, Some us) \<Rightarrow>
         Some (((int (day_number y m d) - EPOCH_DAY) * 86400 + int hh * 3600 + int mm * 60 + int ss) * 1000000 + int us)
     | _ \<Rightarrow> None)"

definition in_range :: "int \<Rightarrow> bool" where
  "in_range t \<longleftrightarrow> 0 \<le> t div 86400000000 + EPOCH_DAY \<and> fst (date_of (nat (t div 86400000000 + EPOCH_DAY))) \<le> 9999"

lemma str_nat_length: "n < 10 ^ w \<Longrightarrow> 0 < w \<Longrightarrow> length (str_nat n) \<le> w"
proof (induction n arbitrary: w rule: str_nat.induct)
  case (1 n)
  show ?case
  proof (cases "n < 10")
    case False
    with 1(2,3) obtain v where w: "w = Suc v" by (cases w) simp_all
    with False 1(2) have v: "0 < v" by (cases v) simp_all
   
    from w have "n div 10 < 10 ^ v" using 1(2) by (simp add: less_mult_imp_div_less mult.commute)
    with 1(1) [OF False _ v] show ?thesis using False w by (subst str_nat.simps) simp
  qed (use 1(3) in \<open>simp add: str_nat.simps\<close>)
qed

lemma padded_length: "n < 10 ^ w \<Longrightarrow> 0 < w \<Longrightarrow> length (padded w n) = w"
  using str_nat_length [of n w] by (simp add: padded_def Let_def)

lemma padded_read: "read_digits 0 (padded w n) = Some n"
proof -
  have z: "char_digit (CHR ''0'') = Some 0" by (simp add: char_digit_def)
  have "read_digits 0 (replicate k CHR ''0'') = Some 0" for k by (induction k) (simp_all add: z)
  then show ?thesis by (simp add: padded_def Let_def read_digits_append read_digits_str_nat)
qed

lemma field_at:
  assumes "s = pre @ padded w n @ post" and "length pre = i" and "n < 10 ^ w" and "0 < w"
  shows "field i w s = Some n"
  using assms padded_length [of n w] by (simp add: field_def padded_read)

text \<open>A UTC timestamp survives its text. For every time a \<open>datetime\<close> can hold, \<open>fromisoformat\<close> of \<open>isoformat\<close> is the same
  instant, to the microsecond.\<close>

theorem isoformat_parses:
  assumes "in_range t"
  shows "fromisoformat (isoformat t) = Some t"
proof -
  define day where "day = nat (t div 86400000000 + EPOCH_DAY)"
  define s where "s = nat (t div 1000000 mod 86400)"
  define us where "us = nat (t mod 1000000)"
  obtain y m d where date: "date_of day = (y, m, d)" by (metis prod_cases3)
  note dn = date_round_trip [OF date]
  have y: "y < 10 ^ 4" using assms date by (simp add: in_range_def day_def)
  have md: "m < 10 ^ 2" "d < 10 ^ 2" using dn by simp_all
  have s: "int s = t div 1000000 mod 86400" "s < 86400" by (simp_all add: s_def nat_less_iff)
  then have hms: "s div 3600 < 10 ^ 2" "s div 60 mod 60 < 10 ^ 2" "s mod 60 < 10 ^ 2" by (simp_all add: less_mult_imp_div_less)
  have us: "int us = t mod 1000000" "us < 10 ^ 6" by (simp_all add: us_def nat_less_iff)
  let ?rest = "(if us = 0 then [] else ''.'' @ padded 6 us) @ ''+00:00''"
  have iso: "isoformat t = padded 4 y @ ''-'' @ padded 2 m @ ''-'' @ padded 2 d @ ''T'' @ padded 2 (s div 3600) @ '':'' @ padded 2 (s div 60 mod 60) @ '':'' @
      padded 2 (s mod 60) @ ?rest"
    using date unfolding isoformat_def day_def s_def us_def Let_def by simp
  note len = padded_length [OF y] padded_length [OF md(1)] padded_length [OF md(2)] padded_length [OF hms(1)] padded_length [OF hms(2)] padded_length [OF hms(3)]
    padded_length [OF us(2)]
  have f: "field 0 4 (isoformat t) = Some y" "field 5 2 (isoformat t) = Some m" "field 8 2 (isoformat t) = Some d"
      "field 11 2 (isoformat t) = Some (s div 3600)" "field 14 2 (isoformat t) = Some (s div 60 mod 60)" "field 17 2 (isoformat t) = Some (s mod 60)"
    unfolding iso by (simp_all add: field_def len padded_read)
  have g: "(if length (isoformat t) = 32 then field 20 6 (isoformat t) else Some 0) = Some us"
    unfolding iso by (simp add: field_def len padded_read)
  have "int (day_number y m d) = t div 86400000000 + EPOCH_DAY" using dn assms by (simp add: day_def in_range_def)
  moreover have "int (s div 3600) * 3600 + int (s div 60 mod 60) * 60 + int (s mod 60) = int s"
  proof -
    have "s div 3600 = s div 60 div 60" by (simp add: div_mult2_eq [symmetric])
    moreover have "s div 60 div 60 * 60 + s div 60 mod 60 = s div 60" "s div 60 * 60 + s mod 60 = s" by simp_all
    ultimately have "s div 3600 * 3600 + s div 60 mod 60 * 60 + s mod 60 = s" by linarith
    from arg_cong [OF this, of int] show ?thesis by simp
  qed
  moreover have "t div 86400000000 * 86400000000 + t div 1000000 mod 86400 * 1000000 + t mod 1000000 = t"
  proof -
    have "t div 86400000000 = t div 1000000 div 86400" using zdiv_zmult2_eq [of 86400 t 1000000] by simp
    moreover have "t div 1000000 div 86400 * 86400 + t div 1000000 mod 86400 = t div 1000000" "t div 1000000 * 1000000 + t mod 1000000 = t" by simp_all
    ultimately show ?thesis by linarith
  qed
  ultimately show ?thesis using f g us(1) s(1) by (simp add: fromisoformat_def)
qed

theorem isoformat_parses_witness: "in_range (- 62135596800000000) \<and> fromisoformat (isoformat (- 62135596800000000)) = Some (- 62135596800000000)"
proof -
  have "in_range (- 62135596800000000)" by (simp add: in_range_def EPOCH_DAY_def date_of_def year_of.simps days_in_year_def month_days_def)
  with isoformat_parses [OF this] show ?thesis by simp
qed

end
