(* ===== verification/Account_Links.thy ===== *)
theory Account_Links
  imports Asset_Registry Datetime
begin

text \<open>
  The links between provider accounts and borrowers (\<open>assets/entities.py\<close>, table \<open>provider_account_links\<close> of
  \<open>db/assets_models.py\<close>): a link is registered, reviewed once, released, and an account moves to another borrower
  only by a new link that names the one before it. Times are microseconds of the epoch.
\<close>

section \<open>Tables\<close>

record borrower_row =
  bo_id :: string
  bo_legal_entity_id :: string
  bo_kyc_status :: string
  bo_underwriting_status :: string

record account_link =
  lk_id :: int
  lk_account_id :: string
  lk_borrower_id :: string
  lk_legal_entity_id :: string
  lk_review_state :: string
  lk_linked_by :: string
  lk_linked_at :: int
  lk_reviewed_by :: "string option"
  lk_reviewed_at :: "int option"
  lk_review_ref :: "string option"
  lk_released_at :: "int option"
  lk_release_reason :: "string option"
  lk_previous_id :: "int option"
  lk_provenance :: json

definition LINK_STATES :: "string list" where
  "LINK_STATES = [''REGISTERED'', ''VERIFIED'', ''REJECTED'']"

definition account_link_checks :: "account_link \<Rightarrow> bool" where
  "account_link_checks l \<longleftrightarrow> lk_review_state l \<in> set LINK_STATES \<and> lk_linked_by l \<in> set role_values \<and>
     (case lk_reviewed_by l of None \<Rightarrow> True | Some r \<Rightarrow> r \<in> set role_values) \<and> (lk_review_state l = ''REGISTERED'') = (lk_reviewed_at l = None) \<and>
     doc_ref_ok (lk_review_ref l) \<and> (case lk_released_at l of None \<Rightarrow> True | Some t \<Rightarrow> lk_linked_at l \<le> t)"

definition link_live :: "account_link \<Rightarrow> bool" where
  "link_live l \<longleftrightarrow> lk_released_at l = None"

record link_db =
  ld_accounts :: "account_row list"
  ld_borrowers :: "borrower_row list"
  ld_links :: "account_link list"

text \<open>The identifier comes from a sequence.\<close>

definition insert_link :: "account_link \<Rightarrow> link_db \<Rightarrow> assets_error + (link_db \<times> account_link)" where
  "insert_link l0 db =
    (let l = l0\<lparr>lk_id := int (length (ld_links db)) + 1\<rparr>
     in ensure (account_link_checks l) (DbError (IntegrityError ''ck_provider_account_links''))
       (ensure (\<not> (\<exists>q \<in> set (ld_links db). link_live q \<and> lk_account_id q = lk_account_id l)) (DbError (IntegrityError ''uq_provider_account_links_active''))
         (Inr (db\<lparr>ld_links := ld_links db @ [l]\<rparr>, l))))"

definition update_link :: "int \<Rightarrow> (account_link \<Rightarrow> account_link) \<Rightarrow> link_db \<Rightarrow> assets_error + link_db" where
  "update_link lid f db =
    ensure (\<forall>l \<in> set (ld_links db). lk_id l = lid \<longrightarrow> account_link_checks (f l)) (DbError (IntegrityError ''ck_provider_account_links''))
      (Inr (db\<lparr>ld_links := update_where (\<lambda>l. lk_id l = lid) f (ld_links db)\<rparr>))"

section \<open>Operations\<close>

definition active_link :: "string \<Rightarrow> link_db \<Rightarrow> account_link option" where
  "active_link acc db = List.find (\<lambda>l. lk_account_id l = acc \<and> link_live l) (ld_links db)"

definition link_history :: "string \<Rightarrow> link_db \<Rightarrow> account_link list" where
  "link_history acc db = sort_key lk_id (filter (\<lambda>l. lk_account_id l = acc) (ld_links db))"

definition get_account :: "string \<Rightarrow> link_db \<Rightarrow> assets_error + account_row" where
  "get_account acc db = (case List.find (\<lambda>a. ac_id a = acc) (ld_accounts db) of None \<Rightarrow> Inl (NotFound (''provider account '' @ acc)) | Some a \<Rightarrow> Inr a)"

definition get_borrower :: "string \<Rightarrow> link_db \<Rightarrow> assets_error + borrower_row" where
  "get_borrower b db = (case List.find (\<lambda>x. bo_id x = b) (ld_borrowers db) of None \<Rightarrow> Inl (NotFound (''borrower '' @ b)) | Some x \<Rightarrow> Inr x)"

definition new_link :: "int \<Rightarrow> string \<Rightarrow> borrower_row \<Rightarrow> string \<Rightarrow> int option \<Rightarrow> json \<Rightarrow> account_link" where
  "new_link now acc b by_role previous provenance = \<lparr>lk_id = 0, lk_account_id = acc, lk_borrower_id = bo_id b, lk_legal_entity_id = bo_legal_entity_id b,
     lk_review_state = ''REGISTERED'', lk_linked_by = by_role, lk_linked_at = now, lk_reviewed_by = None, lk_reviewed_at = None, lk_review_ref = None,
     lk_released_at = None, lk_release_reason = None, lk_previous_id = previous, lk_provenance = provenance\<rparr>"

definition link_account :: "int \<Rightarrow> string \<Rightarrow> string \<Rightarrow> string \<Rightarrow> json option \<Rightarrow> link_db \<Rightarrow> assets_error + (link_db \<times> account_link)" where
  "link_account now acc borrower by_role provenance db =
    then_do (require_role by_role REGISTER_ROLES ''link a provider account'') (\<lambda>_.
    then_do (get_account acc db) (\<lambda>account.
    then_do (get_borrower borrower db) (\<lambda>b.
    ensure (ac_borrower_id account = borrower) (InvalidState ''provider account is bound to another borrower; release and relink instead'')
    (ensure (active_link acc db = None) (InvalidState ''provider account already has a live link'')
      (insert_link (new_link now acc b by_role None (or_json provenance (JObj []))) db)))))"

definition review_link :: "int \<Rightarrow> int \<Rightarrow> string \<Rightarrow> string \<Rightarrow> string option \<Rightarrow> link_db \<Rightarrow> assets_error + link_db" where
  "review_link now lid verdict by_role review_ref db =
    then_do (require_role by_role REVIEW_ROLES ''review a provider account link'') (\<lambda>_.
    ensure (verdict \<in> {''VERIFIED'', ''REJECTED''}) (InvalidState ''verdict must be VERIFIED or REJECTED'')
    (case List.find (\<lambda>l. lk_id l = lid) (ld_links db) of
       None \<Rightarrow> Inl (NotFound ''link'')
     | Some l \<Rightarrow>
         ensure (link_live l) (InvalidState ''released link cannot be reviewed'')
         (ensure (lk_review_state l = ''REGISTERED'') (InvalidState ''link already reviewed'')
         (update_link lid (\<lambda>l. l\<lparr>lk_review_state := verdict, lk_reviewed_by := Some by_role, lk_reviewed_at := Some now, lk_review_ref := review_ref\<rparr>) db))))"

definition release_link :: "int \<Rightarrow> string \<Rightarrow> string \<Rightarrow> string \<Rightarrow> link_db \<Rightarrow> assets_error + link_db" where
  "release_link now acc by_role reason db =
    then_do (require_role by_role RELEASE_ROLES ''release a provider account link'') (\<lambda>_.
    (case active_link acc db of
       None \<Rightarrow> Inl (NotFound (''no live link for '' @ acc))
     | Some l \<Rightarrow> update_link (lk_id l) (\<lambda>l. l\<lparr>lk_released_at := Some now, lk_release_reason := Some reason\<rparr>) db))"

definition bind_account :: "string \<Rightarrow> string \<Rightarrow> link_db \<Rightarrow> link_db" where
  "bind_account acc borrower db = db\<lparr>ld_accounts := update_where (\<lambda>a. ac_id a = acc) (\<lambda>a. a\<lparr>ac_borrower_id := borrower\<rparr>) (ld_accounts db)\<rparr>"

definition relink_account :: "int \<Rightarrow> string \<Rightarrow> string \<Rightarrow> string \<Rightarrow> (string \<times> json) list \<Rightarrow> link_db \<Rightarrow> assets_error + (link_db \<times> account_link)" where
  "relink_account now acc borrower by_role provenance db =
    then_do (require_role by_role REGISTER_ROLES ''relink a provider account'') (\<lambda>_.
    ensure (active_link acc db = None) (InvalidState ''release the live link before relinking to another borrower'')
    (let history = link_history acc db; previous = (if history = [] then None else Some (last history))
     in then_do (get_account acc db) (\<lambda>_.
        then_do (get_borrower borrower db) (\<lambda>b.
          insert_link (new_link now acc b by_role (map_option lk_id previous)
            (json_with (JObj provenance) [(''from'', opt_json (map_option lk_borrower_id previous)), (''to'', JStr borrower), (''at'', JStr (isoformat now))]))
            (bind_account acc borrower db)))))"

inductive link_step :: "link_db \<Rightarrow> link_db \<Rightarrow> bool" where
  linked: "link_account now acc b rl prov db = Inr (db', l) \<Longrightarrow> link_step db db'"
| link_reviewed: "review_link now lid verdict rl ref db = Inr db' \<Longrightarrow> link_step db db'"
| link_released: "release_link now acc rl reason db = Inr db' \<Longrightarrow> link_step db db'"
| relinked: "relink_account now acc b rl prov db = Inr (db', l) \<Longrightarrow> link_step db db'"
| account_added: "\<not> has_key ac_id (ld_accounts db) (ac_id a) \<Longrightarrow> has_key bo_id (ld_borrowers db) (ac_borrower_id a) \<Longrightarrow> link_step db (db\<lparr>ld_accounts := ld_accounts db @ [a]\<rparr>)"
| borrower_added: "\<not> has_key bo_id (ld_borrowers db) (bo_id b) \<Longrightarrow> link_step db (db\<lparr>ld_borrowers := ld_borrowers db @ [b]\<rparr>)"

definition link_start :: "link_db \<Rightarrow> bool" where
  "link_start db \<longleftrightarrow> ld_accounts db = [] \<and> ld_borrowers db = [] \<and> ld_links db = []"

section \<open>The invariant\<close>

text \<open>A link that names a previous one names the latest earlier link of its account, and that one is released.\<close>

definition prev_ok :: "account_link list \<Rightarrow> account_link \<Rightarrow> bool" where
  "prev_ok ls l = (case lk_previous_id l of
     None \<Rightarrow> True
   | Some p \<Rightarrow> p < lk_id l \<and> (\<exists>q \<in> set ls. lk_id q = p \<and> \<not> link_live q \<and> lk_account_id q = lk_account_id l) \<and>
       (\<forall>q \<in> set ls. lk_account_id q = lk_account_id l \<and> lk_id q < lk_id l \<longrightarrow> lk_id q \<le> p))"

definition accounts_of :: "link_db \<Rightarrow> (string \<times> string) set" where
  "accounts_of db = (\<lambda>a. (ac_id a, ac_borrower_id a)) ` set (ld_accounts db)"

definition borrowers_of :: "link_db \<Rightarrow> (string \<times> string) set" where
  "borrowers_of db = (\<lambda>b. (bo_id b, bo_legal_entity_id b)) ` set (ld_borrowers db)"

definition link_ok :: "(string \<times> string) set \<Rightarrow> (string \<times> string) set \<Rightarrow> account_link list \<Rightarrow> account_link \<Rightarrow> bool" where
  "link_ok A B ls l \<longleftrightarrow> account_link_checks l \<and> (lk_borrower_id l, lk_legal_entity_id l) \<in> B \<and>
     (link_live l \<longrightarrow> (lk_account_id l, lk_borrower_id l) \<in> A) \<and> prev_ok ls l"

definition links_ok :: "(string \<times> string) set \<Rightarrow> (string \<times> string) set \<Rightarrow> account_link list \<Rightarrow> bool" where
  "links_ok A B ls \<longleftrightarrow> unique_where link_live lk_account_id ls \<and> map lk_id ls = map (\<lambda>i. int i + 1) [0..<length ls] \<and> (\<forall>l \<in> set ls. link_ok A B ls l)"

definition link_inv :: "link_db \<Rightarrow> bool" where
  "link_inv db \<longleftrightarrow> unique_on ac_id (ld_accounts db) \<and> unique_on bo_id (ld_borrowers db) \<and> links_ok (accounts_of db) (borrowers_of db) (ld_links db)"

lemma link_ids: "links_ok A B ls \<Longrightarrow> l \<in> set ls \<Longrightarrow> 0 < lk_id l \<and> lk_id l \<le> int (length ls)"
proof -
  assume "links_ok A B ls" "l \<in> set ls"
  then have "lk_id l \<in> set (map (\<lambda>i. int i + 1) [0..<length ls])" unfolding links_ok_def by (metis image_eqI set_map)
  then show ?thesis by auto
qed

lemma links_grow: "links_ok A B ls \<Longrightarrow> A \<subseteq> A' \<Longrightarrow> B \<subseteq> B' \<Longrightarrow> links_ok A' B' ls"
  unfolding links_ok_def link_ok_def by blast

lemma prev_ok_append:
  assumes "prev_ok ls l" and "lk_id l \<le> lk_id r"
  shows "prev_ok (ls @ [r]) l"
  using assms by (auto simp: prev_ok_def split: option.splits)

lemma links_append:
  assumes "links_ok A B ls" and "lk_id l = int (length ls) + 1" and "\<not> (\<exists>q \<in> set ls. link_live q \<and> lk_account_id q = lk_account_id l)"
    and "link_ok A B (ls @ [l]) l"
  shows "links_ok A B (ls @ [l])"
proof -
  have "link_ok A B (ls @ [l]) q" if "q \<in> set ls" for q
    using that assms(1,2) link_ids [OF assms(1) that] prev_ok_append [of ls q l] by (auto simp: links_ok_def link_ok_def)
  with assms show ?thesis by (auto simp: links_ok_def unique_where_append)
qed

lemma insert_link_effect:
  assumes "insert_link l0 db = Inr (db', l)"
  shows "l = l0\<lparr>lk_id := int (length (ld_links db)) + 1\<rparr> \<and> db' = db\<lparr>ld_links := ld_links db @ [l]\<rparr> \<and> account_link_checks l \<and>
    \<not> (\<exists>q \<in> set (ld_links db). link_live q \<and> lk_account_id q = lk_account_id l)"
  using assms by (auto simp: insert_link_def Let_def)

lemma tables_of [simp]:
  "accounts_of (db\<lparr>ld_links := ls\<rparr>) = accounts_of db" "borrowers_of (db\<lparr>ld_links := ls\<rparr>) = borrowers_of db"
  "accounts_of (db\<lparr>ld_borrowers := bs\<rparr>) = accounts_of db" "borrowers_of (db\<lparr>ld_accounts := as\<rparr>) = borrowers_of db"
  by (simp_all add: accounts_of_def borrowers_of_def)

lemma get_borrower_eq: "get_borrower b db = Inr x \<Longrightarrow> bo_id x = b \<and> (b, bo_legal_entity_id x) \<in> borrowers_of db"
  by (auto simp: get_borrower_def borrowers_of_def split: option.splits dest: find_Some_iff)

lemma get_account_eq: "get_account acc db = Inr x \<Longrightarrow> x \<in> set (ld_accounts db) \<and> ac_id x = acc"
  by (auto simp: get_account_def split: option.splits dest: find_Some_iff)

lemma link_account_inv:
  assumes "link_account now acc b rl prov db = Inr (db', l)" and "link_inv db"
  shows "link_inv db'"
proof -
  obtain a x where a: "get_account acc db = Inr a" "ac_borrower_id a = b" and x: "get_borrower b db = Inr x"
    and i: "insert_link (new_link now acc x rl None (or_json prov (JObj []))) db = Inr (db', l)"
    using assms(1) unfolding link_account_def by (auto simp: then_do_eq_Inr)
  note e = insert_link_effect [OF i]
  have "(acc, b) \<in> accounts_of db" using get_account_eq [OF a(1)] a(2) by (auto simp: accounts_of_def image_iff)
  with e get_borrower_eq [OF x] have "link_ok (accounts_of db) (borrowers_of db) (ld_links db @ [l]) l"
    by (auto simp: link_ok_def new_link_def prev_ok_def)
  with e assms(2) show ?thesis by (auto simp: link_inv_def new_link_def intro!: links_append)
qed

text \<open>An update that keeps what identifies a link and does not revive it.\<close>

lemma update_link_inv:
  assumes "update_link lid f db = Inr db'" and "link_inv db"
    and keep: "\<And>l. lk_id (f l) = lk_id l \<and> lk_account_id (f l) = lk_account_id l \<and> lk_borrower_id (f l) = lk_borrower_id l \<and>
      lk_legal_entity_id (f l) = lk_legal_entity_id l \<and> lk_previous_id (f l) = lk_previous_id l \<and> (link_live (f l) \<longrightarrow> link_live l)"
  shows "link_inv db'"
proof -
  define g where "g = (\<lambda>l. if lk_id l = lid then f l else l)"
  let ?ls = "ld_links db" and ?A = "accounts_of db" and ?B = "borrowers_of db"
  have db': "db' = db\<lparr>ld_links := map g ?ls\<rparr>" and checks: "\<forall>l \<in> set ?ls. lk_id l = lid \<longrightarrow> account_link_checks (f l)"
    using assms(1) by (auto simp: update_link_def update_where_def g_def)
  have g: "lk_id (g l) = lk_id l" "lk_account_id (g l) = lk_account_id l" "lk_borrower_id (g l) = lk_borrower_id l"
      "lk_legal_entity_id (g l) = lk_legal_entity_id l" "lk_previous_id (g l) = lk_previous_id l" "link_live (g l) \<Longrightarrow> link_live l" for l
    using keep by (simp_all add: g_def split: if_splits)
  have ok: "links_ok ?A ?B ?ls" using assms(2) by (simp add: link_inv_def)
  have prev: "prev_ok (map g ?ls) (g l)" if "prev_ok ?ls l" for l
    using that g by (auto simp: prev_ok_def split: option.splits)
  have "link_ok ?A ?B (map g ?ls) (g l)" if l: "l \<in> set ?ls" for l
  proof -
    have "link_ok ?A ?B ?ls l" using ok l by (simp add: links_ok_def)
    moreover have "account_link_checks (g l)" using calculation checks l by (simp add: g_def link_ok_def)
    ultimately show ?thesis using g [of l] prev [of l] by (auto simp: link_ok_def)
  qed
  moreover have "map lk_id (map g ?ls) = map lk_id ?ls" using g(1) by simp
  moreover have "unique_where link_live lk_account_id (map g ?ls)"
    using ok g by (intro unique_where_shrink) (auto simp: links_ok_def)
  ultimately have "links_ok ?A ?B (map g ?ls)" using ok unfolding links_ok_def by auto
  with assms(2) show ?thesis by (simp add: link_inv_def db')
qed

lemma review_link_inv: "review_link now lid verdict rl ref db = Inr db' \<Longrightarrow> link_inv db \<Longrightarrow> link_inv db'"
  by (auto simp: review_link_def then_do_eq_Inr link_live_def split: option.splits elim!: update_link_inv)

lemma release_link_inv: "release_link now acc rl reason db = Inr db' \<Longrightarrow> link_inv db \<Longrightarrow> link_inv db'"
  by (auto simp: release_link_def then_do_eq_Inr link_live_def split: option.splits elim!: update_link_inv)

lemma last_sorted:
  assumes "x \<in> set xs"
  shows "f x \<le> f (last (sort_key f xs)) \<and> last (sort_key f xs) \<in> set xs"
proof -
  let ?ys = "sort_key f xs"
  from assms have ne: "?ys \<noteq> []" by (metis empty_iff empty_set set_sort)
  then have ys: "?ys = butlast ?ys @ [last ?ys]" by simp
  have "sorted (map f ?ys)" by simp
  then have "\<forall>y \<in> set (butlast ?ys). f y \<le> f (last ?ys)" by (subst (asm) ys) (simp add: sorted_append)
  moreover have "x \<in> set ?ys" using assms by simp
  then have "x \<in> set (butlast ?ys) \<or> x = last ?ys" by (subst (asm) ys) auto
  ultimately show ?thesis using last_in_set [OF ne] by auto
qed

lemma accounts_bound: "accounts_of (bind_account acc b db) = (\<lambda>(k, v). (k, if k = acc then b else v)) ` accounts_of db"
proof -
  have "map (\<lambda>a. (ac_id a, ac_borrower_id a)) (update_where (\<lambda>a. ac_id a = acc) (\<lambda>a. a\<lparr>ac_borrower_id := b\<rparr>) rows) =
      map ((\<lambda>(k, v). (k, if k = acc then b else v)) \<circ> (\<lambda>a. (ac_id a, ac_borrower_id a))) rows" for rows
    by (induction rows) (simp_all add: update_where_def)
  from arg_cong [OF this, of set] show ?thesis by (simp add: accounts_of_def bind_account_def image_comp comp_def)
qed

lemma bind_account_inv:
  assumes "link_inv db" and "active_link acc db = None"
  shows "link_inv (bind_account acc b db)"
proof -
  have "(k, v) \<in> accounts_of (bind_account acc b db)" if "(k, v) \<in> accounts_of db" "k \<noteq> acc" for k v
    using that by (force simp: accounts_bound)
  moreover have "lk_account_id l \<noteq> acc" if "l \<in> set (ld_links db)" "link_live l" for l
    using that assms(2) by (auto simp: active_link_def find_None_iff)
  ultimately have "links_ok (accounts_of (bind_account acc b db)) (borrowers_of db) (ld_links db)"
    using assms(1) unfolding link_inv_def links_ok_def link_ok_def by blast
  with assms(1) show ?thesis by (auto simp: link_inv_def bind_account_def unique_on_update)
qed

lemma relink_account_inv:
  assumes "relink_account now acc b rl prov db = Inr (db', l)" and "link_inv db"
  shows "link_inv db'"
proof -
  let ?prev = "if link_history acc db = [] then None else Some (last (link_history acc db))" and ?db = "bind_account acc b db"
  obtain a x pv where a: "get_account acc db = Inr a" and x: "get_borrower b db = Inr x" and none: "active_link acc db = None"
    and i: "insert_link (new_link now acc x rl (map_option lk_id ?prev) pv) ?db = Inr (db', l)"
    using assms(1) unfolding relink_account_def Let_def by (auto simp: then_do_eq_Inr)
  note e = insert_link_effect [OF i] and inv = bind_account_inv [OF assms(2) none, of b]
  have ls: "ld_links ?db = ld_links db" "borrowers_of ?db = borrowers_of db" by (simp_all add: bind_account_def)
  have ok: "links_ok (accounts_of ?db) (borrowers_of ?db) (ld_links db)" using inv ls by (simp add: link_inv_def)
  have "(acc, b) \<in> accounts_of ?db" using get_account_eq [OF a] unfolding accounts_bound by (force simp: accounts_of_def)
  moreover have "prev_ok (ld_links db @ [l]) l"
  proof (cases "link_history acc db = []")
    case False
    let ?q = "last (link_history acc db)"
    from False obtain y where "y \<in> set (link_history acc db)" by (cases "link_history acc db") auto
    then have "y \<in> set (filter (\<lambda>l. lk_account_id l = acc) (ld_links db))" by (simp add: link_history_def)
    note top = last_sorted [of _ "filter (\<lambda>l. lk_account_id l = acc) (ld_links db)" lk_id, folded link_history_def]
    have q: "?q \<in> set (ld_links db)" "lk_account_id ?q = acc" using top [OF \<open>y \<in> set (filter _ _)\<close>] by auto
    have "\<not> link_live ?q" using none q by (auto simp: active_link_def find_None_iff)
    moreover have "\<forall>r \<in> set (ld_links db). lk_account_id r = acc \<longrightarrow> lk_id r \<le> lk_id ?q" using top by auto
    moreover have "lk_id ?q < lk_id l" using link_ids [OF ok q(1)] e ls by simp
    ultimately show ?thesis using e False q ls by (auto simp: prev_ok_def new_link_def)
  qed (use e in \<open>simp add: prev_ok_def new_link_def\<close>)
  ultimately have "link_ok (accounts_of ?db) (borrowers_of ?db) (ld_links db @ [l]) l"
    using e get_borrower_eq [OF x] ls by (auto simp: link_ok_def new_link_def)
  with ok e ls have "links_ok (accounts_of ?db) (borrowers_of ?db) (ld_links db @ [l])" by (intro links_append) auto
  with inv e ls show ?thesis by (simp add: link_inv_def)
qed

lemma link_step_inv: "link_step db db' \<Longrightarrow> link_inv db \<Longrightarrow> link_inv db'"
proof (induction rule: link_step.induct)
  case (account_added db a)
  moreover have "accounts_of db \<subseteq> accounts_of (db\<lparr>ld_accounts := ld_accounts db @ [a]\<rparr>)" by (auto simp: accounts_of_def)
  ultimately show ?case by (auto simp: link_inv_def unique_on_append intro: links_grow)
next
  case (borrower_added db b)
  moreover have "borrowers_of db \<subseteq> borrowers_of (db\<lparr>ld_borrowers := ld_borrowers db @ [b]\<rparr>)" by (auto simp: borrowers_of_def)
  ultimately show ?case by (auto simp: link_inv_def unique_on_append intro: links_grow)
qed (blast intro: link_account_inv review_link_inv release_link_inv relink_account_inv)+

interpretation account_links: inv_machine link_start link_step link_inv
proof unfold_locales
  fix db
  assume "link_start db"
  then show "link_inv db" by (simp add: link_inv_def link_start_def links_ok_def unique_on_def unique_where_def)
qed (rule link_step_inv)

text \<open>One live link, to the account's current borrower. In every reachable state an account has at most one live link; a live
  link names the borrower the account is bound to and that borrower's legal entity; and a link that
  follows another names the latest earlier link of its account, which is released. So an account
  never changes borrower under a live link.\<close>

theorem live_link_names_borrower:
  assumes "link_start db0" and "link_step\<^sup>*\<^sup>* db0 db"
  shows "unique_where link_live lk_account_id (ld_links db) \<and>
    (\<forall>l \<in> set (ld_links db). link_live l \<longrightarrow> (\<exists>a \<in> set (ld_accounts db). ac_id a = lk_account_id l \<and> ac_borrower_id a = lk_borrower_id l)) \<and>
    (\<forall>l \<in> set (ld_links db). \<exists>b \<in> set (ld_borrowers db). bo_id b = lk_borrower_id l \<and> bo_legal_entity_id b = lk_legal_entity_id l) \<and>
    (\<forall>l \<in> set (ld_links db). \<forall>p. lk_previous_id l = Some p \<longrightarrow> p < lk_id l \<and>
       (\<exists>q \<in> set (ld_links db). lk_id q = p \<and> \<not> link_live q \<and> lk_account_id q = lk_account_id l) \<and>
       (\<forall>q \<in> set (ld_links db). lk_account_id q = lk_account_id l \<and> lk_id q < lk_id l \<longrightarrow> lk_id q \<le> p))"
proof -
  from account_links.reachable_inv [OF assms] have ok: "links_ok (accounts_of db) (borrowers_of db) (ld_links db)" by (simp add: link_inv_def)
  have "\<exists>a \<in> set (ld_accounts db). ac_id a = k \<and> ac_borrower_id a = v" if "(k, v) \<in> accounts_of db" for k v using that by (auto simp: accounts_of_def)
  moreover have "\<exists>b \<in> set (ld_borrowers db). bo_id b = k \<and> bo_legal_entity_id b = v" if "(k, v) \<in> borrowers_of db" for k v
    using that by (auto simp: borrowers_of_def)
  moreover have "link_ok (accounts_of db) (borrowers_of db) (ld_links db) l" if "l \<in> set (ld_links db)" for l using that ok by (simp add: links_ok_def)
  ultimately show ?thesis using ok unfolding links_ok_def link_ok_def prev_ok_def by fastforce
qed

text \<open>A review never touches a released link, and is made once: what it changes is a live link in the state \<open>REGISTERED\<close>.\<close>

lemma review_link_once:
  assumes "review_link now lid verdict rl ref db = Inr db'"
  shows "rl = ''underwriter'' \<and> (\<exists>l \<in> set (ld_links db). lk_id l = lid \<and> link_live l \<and> lk_review_state l = ''REGISTERED'') \<and>
    ld_accounts db' = ld_accounts db \<and> ld_borrowers db' = ld_borrowers db"
  using assms by (auto simp: review_link_def then_do_eq_Inr require_role_def REVIEW_ROLES_def update_link_def split: option.splits dest: find_Some_iff)

section \<open>An account that moves\<close>

definition sample_borrower :: "string \<Rightarrow> borrower_row" where
  "sample_borrower b = \<lparr>bo_id = b, bo_legal_entity_id = ''E'' @ b, bo_kyc_status = ''NONE'', bo_underwriting_status = ''NONE''\<rparr>"

definition links0 :: link_db where
  "links0 = \<lparr>ld_accounts = [], ld_borrowers = [], ld_links = []\<rparr>"

definition links1 :: link_db where
  "links1 = \<lparr>ld_accounts = [\<lparr>ac_id = ''p:x'', ac_provider_id = ''p'', ac_external_id = ''x'', ac_borrower_id = ''B1''\<rparr>],
     ld_borrowers = [sample_borrower ''B1'', sample_borrower ''B2''], ld_links = []\<rparr>"

definition link1 :: account_link where
  "link1 = (new_link 1000000 ''p:x'' (sample_borrower ''B1'') ''operator'' None (JObj []))\<lparr>lk_id := 1\<rparr>"

definition link2 :: account_link where
  "link2 = (new_link 3000000 ''p:x'' (sample_borrower ''B2'') ''operator'' (Some 1)
     (JObj [(''from'', JStr ''B1''), (''to'', JStr ''B2''), (''at'', JStr (isoformat 3000000))]))\<lparr>lk_id := 2\<rparr>"

definition links2 :: link_db where
  "links2 = links1\<lparr>ld_links := [link1]\<rparr>"

definition released1 :: account_link where
  "released1 = link1\<lparr>lk_released_at := Some 2000000, lk_release_reason := Some ''sold''\<rparr>"

definition links3 :: link_db where
  "links3 = links1\<lparr>ld_links := [released1]\<rparr>"

definition links4 :: link_db where
  "links4 = \<lparr>ld_accounts = [\<lparr>ac_id = ''p:x'', ac_provider_id = ''p'', ac_external_id = ''x'', ac_borrower_id = ''B2''\<rparr>],
     ld_borrowers = [sample_borrower ''B1'', sample_borrower ''B2''], ld_links = [released1, link2]\<rparr>"

lemmas link_states = links0_def links1_def links2_def links3_def links4_def link1_def link2_def released1_def new_link_def sample_borrower_def

lemma links_built: "link_step\<^sup>*\<^sup>* links0 links1"
proof -
  let ?b = "links0\<lparr>ld_borrowers := [sample_borrower ''B1'']\<rparr>" and ?c = "links0\<lparr>ld_borrowers := [sample_borrower ''B1'', sample_borrower ''B2'']\<rparr>"
  have "link_step links0 ?b" using borrower_added [of links0 "sample_borrower ''B1''"] by (simp add: links0_def has_key_def)
  moreover have "link_step ?b ?c" using borrower_added [of ?b "sample_borrower ''B2''"] by (simp add: link_states has_key_def)
  moreover have "link_step ?c links1"
    using account_added [of ?c "\<lparr>ac_id = ''p:x'', ac_provider_id = ''p'', ac_external_id = ''x'', ac_borrower_id = ''B1''\<rparr>"] by (simp add: link_states has_key_def)
  ultimately show ?thesis by (meson converse_rtranclp_into_rtranclp rtranclp.rtrancl_refl)
qed

lemma sample_linked: "link_account 1000000 ''p:x'' ''B1'' ''operator'' None links1 = Inr (links2, link1)"
  by (simp add: link_account_def get_account_def get_borrower_def active_link_def insert_link_def Let_def account_link_checks_def LINK_STATES_def doc_ref_ok_def
      or_json_def role_values_def link_states)

lemma sample_released: "release_link 2000000 ''p:x'' ''operator'' ''sold'' links2 = Inr links3"
  by (simp add: release_link_def require_role_def RELEASE_ROLES_def active_link_def link_live_def update_link_def update_where_def account_link_checks_def
      LINK_STATES_def doc_ref_ok_def role_values_def link_states)

lemma sample_relinked: "relink_account 3000000 ''p:x'' ''B2'' ''operator'' [] links3 = Inr (links4, link2)"
  by (simp add: relink_account_def Let_def active_link_def link_live_def link_history_def get_account_def get_borrower_def insert_link_def bind_account_def
      update_where_def account_link_checks_def LINK_STATES_def doc_ref_ok_def opt_json_def role_values_def link_states)

theorem live_link_names_borrower_witness:
  "link_step\<^sup>*\<^sup>* links0 links4 \<and> ld_links links4 = [released1, link2] \<and> unique_where link_live lk_account_id (ld_links links4) \<and> 1 < lk_id link2"
proof -
  note links_built
  also have "link_step links1 links2" by (rule linked [OF sample_linked])
  also have "link_step links2 links3" by (rule link_released [OF sample_released])
  also have "link_step links3 links4" by (rule relinked [OF sample_relinked])
  finally have run: "link_step\<^sup>*\<^sup>* links0 links4" .
  have start: "link_start links0" by (simp add: link_start_def links0_def)
  note facts = live_link_names_borrower [OF start run]
  have "link2 \<in> set (ld_links links4)" "lk_previous_id link2 = Some 1" by (simp_all add: links4_def link2_def new_link_def)
  with facts have "1 < lk_id link2" by blast
  with facts run show ?thesis by (simp add: links4_def)
qed

end
