(* ===== verification/Json_Access.thy ===== *)
theory Json_Access
  imports Core_DB
begin

text \<open>
  Reading JSON objects the way the services do: \<open>d[k]\<close>, \<open>d.get(k)\<close> in a condition, \<open>int(v)\<close>, indexing a list. A missing key is a
  \<open>KeyError\<close>, a value of the wrong type a \<open>TypeError\<close>.
\<close>

definition key_error :: "string \<Rightarrow> app_error" where
  "key_error k = OtherError (''KeyError: '' @ k)"

definition json_field :: "json \<Rightarrow> string \<Rightarrow> app_error + json" where
  "json_field j k = (case json_get j k of None \<Rightarrow> Inl (key_error k) | Some v \<Rightarrow> Inr v)"

definition need_str :: "json \<Rightarrow> string \<Rightarrow> app_error + string" where
  "need_str j k = (case json_get j k of None \<Rightarrow> Inl (key_error k) | Some (JStr s) \<Rightarrow> Inr s | Some _ \<Rightarrow> Inl (OtherError ''TypeError''))"

fun json_truthy :: "json option \<Rightarrow> bool" where
  "json_truthy None = False"
| "json_truthy (Some JNull) = False"
| "json_truthy (Some (JBool b)) = b"
| "json_truthy (Some (JInt i)) = (i \<noteq> 0)"
| "json_truthy (Some (JStr s)) = (s \<noteq> [])"
| "json_truthy (Some (JList xs)) = (xs \<noteq> [])"
| "json_truthy (Some (JObj kvs)) = (kvs \<noteq> [])"

text \<open>\<open>int(str)\<close>: surrounding blanks, a sign, and single underscores between digits are accepted.\<close>

fun joined_digits :: "string \<Rightarrow> bool" where
  "joined_digits [] = False"
| "joined_digits [c] = (c \<noteq> CHR ''_'')"
| "joined_digits (c # d # cs) = ((c \<noteq> CHR ''_'' \<or> d \<noteq> CHR ''_'') \<and> joined_digits (d # cs))"

definition py_int :: "string \<Rightarrow> int option" where
  "py_int s =
    (let t = str_strip s; d = (if t \<noteq> [] \<and> hd t \<in> {CHR ''+'', CHR ''-''} then tl t else t)
     in if d = [] \<or> hd d = CHR ''_'' \<or> \<not> joined_digits d then None
        else map_option (\<lambda>n. if hd t = CHR ''-'' then - int n else int n) (nat_of_str (filter (\<lambda>c. c \<noteq> CHR ''_'') d)))"

text \<open>\<open>int(v)\<close>: a boolean counts as 0 or 1.\<close>

fun json_int :: "json \<Rightarrow> app_error + int" where
  "json_int (JInt i) = Inr i"
| "json_int (JBool b) = Inr (if b then 1 else 0)"
| "json_int (JStr s) = (case py_int s of None \<Rightarrow> Inl (ValueError ''int'') | Some i \<Rightarrow> Inr i)"
| "json_int _ = Inl (OtherError ''TypeError: int'')"

text \<open>\<open>xs[i]\<close>: a negative index counts from the end.\<close>

definition py_index :: "'a list \<Rightarrow> int \<Rightarrow> app_error + 'a" where
  "py_index xs i =
    (if 0 \<le> i \<and> i < int (length xs) then Inr (xs ! nat i)
     else if i < 0 \<and> - int (length xs) \<le> i then Inr (xs ! nat (int (length xs) + i))
     else Inl (OtherError ''IndexError''))"

lemma json_field_eq: "json_field j k = Inr v \<longleftrightarrow> json_get j k = Some v"
  by (auto simp: json_field_def split: option.splits)

lemma dropWhile_none: "\<forall>x \<in> set xs. \<not> P x \<Longrightarrow> dropWhile P xs = xs"
  by (cases xs) auto

lemma digit_plain [simp]: "n < 10 \<Longrightarrow> \<not> is_space (digit_char n) \<and> digit_char n \<noteq> CHR ''_'' \<and> digit_char n \<noteq> CHR ''+'' \<and> digit_char n \<noteq> CHR ''-''"
  by (auto simp: is_space_def digit_char_def of_char_of dest!: arg_cong [where f = "of_char :: char \<Rightarrow> nat"])

lemma str_nat_plain: "list_all (\<lambda>c. \<not> is_space c \<and> c \<noteq> CHR ''_'' \<and> c \<noteq> CHR ''+'' \<and> c \<noteq> CHR ''-'') (str_nat n)"
  by (induction n rule: str_nat.induct) (subst str_nat.simps, auto)

lemma str_int_no_space: "str_strip (str_int i) = str_int i"
proof -
  have "list_all (\<lambda>c. \<not> is_space c) (str_int i)" using str_nat_plain by (auto simp: str_int_def is_space_def list_all_iff)
  then have "dropWhile is_space (str_int i) = str_int i" "dropWhile is_space (rev (str_int i)) = rev (str_int i)"
    by (simp_all add: dropWhile_none list_all_iff)
  then show ?thesis by (simp add: str_strip_def)
qed

lemma joined_plain: "xs \<noteq> [] \<Longrightarrow> list_all (\<lambda>c. c \<noteq> CHR ''_'') xs \<Longrightarrow> joined_digits xs"
  by (induction xs rule: joined_digits.induct) auto

lemma py_int_str_int [simp]: "py_int (str_int i) = Some i"
proof -
  obtain c cs where s: "str_nat (nat \<bar>i\<bar>) = c # cs" by (cases "str_nat (nat \<bar>i\<bar>)") simp_all
  have p: "c \<noteq> CHR ''_''" "c \<noteq> CHR ''+''" "c \<noteq> CHR ''-''" "list_all (\<lambda>c. c \<noteq> CHR ''_'') (c # cs)"
    using str_nat_plain [of "nat \<bar>i\<bar>"] by (auto simp: s list_all_iff)
  then have j: "joined_digits (c # cs)" "filter (\<lambda>c. c \<noteq> CHR ''_'') (c # cs) = c # cs"
    using joined_plain [of "c # cs"] by (auto simp: list_all_iff filter_id_conv)
  have n: "nat_of_str (c # cs) = Some (nat \<bar>i\<bar>)" using read_digits_str_nat [of "nat \<bar>i\<bar>"] by (simp add: nat_of_str_def s)
  show ?thesis
  proof (cases "i < 0")
    case True
    then have t: "str_int i = CHR ''-'' # c # cs" using s by (simp add: str_int_def)
    from p j n str_int_no_space [of i] True show ?thesis unfolding py_int_def Let_def t by simp
  next
    case False
    then have t: "str_int i = c # cs" using s by (simp add: str_int_def)
    from p j n str_int_no_space [of i] False show ?thesis unfolding py_int_def Let_def t by simp
  qed
qed

lemma json_int_str: "json_int (JStr (str_int i)) = Inr i"
  by simp

end
