(* ===== verification/Providers.thy ===== *)
theory Providers
  imports Domain Core_DB
begin

text \<open>
  The contract with partner APIs (\<open>providers/types.py\<close>, \<open>providers/base.py\<close>, \<open>providers/errors.py\<close>): capabilities, windows,
  pages, observations with their validators, and the guards that decide what an adapter may be used for. An adapter
  is a record of functions; what it answers is a parameter. The fields that an observation cannot choose
  (provenance, trust, verification method, native status) are constants of the type and have no field here.
  Times are microseconds of the epoch.
\<close>

section \<open>Errors and capabilities\<close>

datatype adapter_error =
    UnsupportedOperation string
  | UnsupportedChainError string
  | MalformedResponse string
  | MissingUnit string
  | ExpiredData string
  | RateLimited "int option"
  | AuthError string
  | NotProductionAdmissible "string list"
  | NotNativeCapable string
  | InvalidValue string

datatype support = SU_SUPPORTED | SU_UNSUPPORTED | SU_UNKNOWN

fun support_value :: "support \<Rightarrow> string" where
  "support_value SU_SUPPORTED = ''SUPPORTED''"
| "support_value SU_UNSUPPORTED = ''UNSUPPORTED''"
| "support_value SU_UNKNOWN = ''UNKNOWN''"

definition usable :: "support \<Rightarrow> bool" where
  "usable s \<longleftrightarrow> s = SU_SUPPORTED"

record capabilities =
  cp_list_assets :: support
  cp_fetch_revenue :: support
  cp_fetch_settlements :: support
  cp_get_control_state :: support
  cp_claim_revenue :: support
  cp_request_control_change :: support
  cp_source_support :: support

definition default_capabilities :: capabilities where
  "default_capabilities = \<lparr>cp_list_assets = SU_UNKNOWN, cp_fetch_revenue = SU_UNKNOWN, cp_fetch_settlements = SU_UNKNOWN, cp_get_control_state = SU_UNKNOWN,
     cp_claim_revenue = SU_UNKNOWN, cp_request_control_change = SU_UNKNOWN, cp_source_support = SU_UNKNOWN\<rparr>"

text \<open>\<open>getattr(self, op)\<close>.\<close>

definition capability_of :: "capabilities \<Rightarrow> string \<Rightarrow> support option" where
  "capability_of c op =
    (if op = ''list_assets'' then Some (cp_list_assets c) else if op = ''fetch_revenue'' then Some (cp_fetch_revenue c)
     else if op = ''fetch_settlements'' then Some (cp_fetch_settlements c) else if op = ''get_control_state'' then Some (cp_get_control_state c)
     else if op = ''claim_revenue'' then Some (cp_claim_revenue c) else if op = ''request_control_change'' then Some (cp_request_control_change c)
     else if op = ''source_support'' then Some (cp_source_support c) else None)"

definition require_capability :: "capabilities \<Rightarrow> string \<Rightarrow> adapter_error + unit" where
  "require_capability c op =
    (case capability_of c op of
       None \<Rightarrow> Inl (InvalidValue op)
     | Some s \<Rightarrow> ensure (s = SU_SUPPORTED) (UnsupportedOperation (op @ '': '' @ support_value s)) (Inr ()))"

section \<open>Accounts, windows and pages\<close>

record account_ref =
  af_slug :: string
  af_external_id :: string

definition account_key :: "account_ref \<Rightarrow> string" where
  "account_key a = af_slug a @ '':'' @ af_external_id a"

record page_cursor =
  pc_token :: "string option"
  pc_has_more :: bool

record 'a page =
  pg_items :: "'a list"
  pg_next :: page_cursor

record window =
  wn_start :: int
  wn_end :: int
  wn_max_age_seconds :: int
  wn_as_of :: "int option"

definition make_window :: "int \<Rightarrow> int \<Rightarrow> int \<Rightarrow> int option \<Rightarrow> adapter_error + window" where
  "make_window start stop max_age as_of =
    ensure (0 \<le> max_age) (InvalidValue ''max_age_seconds'')
    (ensure (start \<le> stop) (InvalidValue ''window end before start'')
      (Inr \<lparr>wn_start = start, wn_end = stop, wn_max_age_seconds = max_age, wn_as_of = as_of\<rparr>))"

section \<open>Observations\<close>

record asserted =
  ao_slug :: string
  ao_observed_at :: int
  ao_as_of :: int

record revenue_observation = asserted +
  rx_account :: account_ref
  rx_event_ref :: string
  rx_revision :: int
  rx_period_start :: int
  rx_period_end :: int
  rx_gross :: money
  rx_deductions :: money
  rx_net :: money
  rx_provenance :: earnings_provenance
  rx_settlement_ref :: "string option"

text \<open>The field bound and the model validator.\<close>

definition revenue_consistent :: "revenue_observation \<Rightarrow> money_error + revenue_observation" where
  "revenue_consistent r =
    ensure (1 \<le> rx_revision r) (MoneyValueError ''revision'')
    (ensure (asset_key (m_asset (rx_gross r)) = asset_key (m_asset (rx_net r)) \<and> asset_key (m_asset (rx_gross r)) = asset_key (m_asset (rx_deductions r)))
      (MoneyValueError ''gross/deductions/net must share one asset'')
    (then_do (Domain.units (rx_gross r)) (\<lambda>g. then_do (Domain.units (rx_deductions r)) (\<lambda>d. then_do (Domain.units (rx_net r)) (\<lambda>n.
      ensure (g - d = n) (MoneyValueError ''net must equal gross - deductions'')
      (ensure (0 \<le> n \<and> 0 \<le> d) (MoneyValueError ''negative revenue components'') (Inr r)))))))"

record settlement_observation = asserted +
  sx_account :: account_ref
  sx_settlement_ref :: string
  sx_revision :: int
  sx_amount :: money
  sx_payer :: "string option"
  sx_payee :: "string option"
  sx_paid_at :: "int option"
  sx_status :: string
  sx_tx_ref :: "string option"

definition settlement_consistent :: "settlement_observation \<Rightarrow> money_error + settlement_observation" where
  "settlement_consistent s =
    ensure (1 \<le> sx_revision s) (MoneyValueError ''revision'')
    (ensure (sx_status s \<in> {''ANNOUNCED'', ''PAID'', ''REVERSED''}) (MoneyValueError ''status'') (Inr s))"

datatype provider_observation = Revenue revenue_observation | Settlement settlement_observation

fun observed_at :: "provider_observation \<Rightarrow> int" where
  "observed_at (Revenue r) = ao_observed_at r"
| "observed_at (Settlement s) = ao_observed_at s"

section \<open>Requests, results and the adapter\<close>

record claim_request =
  cq_account :: account_ref
  cq_amount :: "money option"
  cq_key :: string

record control_change_request =
  cc_account :: account_ref
  cc_new_receiver :: string
  cc_new_receiver_chain_id :: int
  cc_key :: string

text \<open>\<open>ClaimResult\<close> and \<open>ControlChangeResult\<close>: what the callers read of them.\<close>

record action_result =
  ar_account :: account_ref
  ar_key :: string
  ar_accepted :: bool
  ar_provider_ref :: "string option"

record adapter_identity =
  ai_slug :: string
  ai_profile :: execution_profile
  ai_is_mock :: bool
  ai_partner_revenue :: string
  ai_source_chain_ids :: "int list"
  ai_supported_assets :: "asset_ref list"

record provider_adapter =
  ad_identity :: adapter_identity
  ad_capabilities :: capabilities
  ad_fetch_revenue :: "account_ref \<Rightarrow> window \<Rightarrow> page_cursor option \<Rightarrow> adapter_error + provider_observation page"
  ad_fetch_settlements :: "account_ref \<Rightarrow> window \<Rightarrow> page_cursor option \<Rightarrow> adapter_error + provider_observation page"
  ad_claim_revenue :: "claim_request \<Rightarrow> adapter_error + action_result"
  ad_request_control_change :: "control_change_request \<Rightarrow> adapter_error + action_result"

section \<open>Guards\<close>

definition require_op :: "provider_adapter \<Rightarrow> string \<Rightarrow> adapter_error + unit" where
  "require_op ad op =
    (case capability_of (ad_capabilities ad) op of
       None \<Rightarrow> Inl (InvalidValue op)
     | Some s \<Rightarrow> ensure (s = SU_SUPPORTED) (UnsupportedOperation (ai_slug (ad_identity ad) @ ''.'' @ op @ '': '' @ support_value s)) (Inr ()))"

definition require_account :: "provider_adapter \<Rightarrow> account_ref \<Rightarrow> adapter_error + unit" where
  "require_account ad a = ensure (af_slug a = ai_slug (ad_identity ad)) (UnsupportedOperation ''account namespace'') (Inr ())"

definition require_chain :: "provider_adapter \<Rightarrow> int \<Rightarrow> adapter_error + unit" where
  "require_chain ad chain_id =
    ensure (chain_id \<in> set (ai_source_chain_ids (ad_identity ad))) (UnsupportedChainError (ai_slug (ad_identity ad) @ '': chain '' @ str_int chain_id)) (Inr ())"

definition check_freshness :: "int \<Rightarrow> int \<Rightarrow> window \<Rightarrow> adapter_error + unit" where
  "check_freshness clock as_of w =
    (let now = (case wn_as_of w of None \<Rightarrow> clock | Some t \<Rightarrow> t); age = now - as_of
     in ensure (age \<le> 1000000 * wn_max_age_seconds w) (ExpiredData ''observation too old'') (Inr ()))"

definition MOCK_SLUG_PREFIXES :: "string list" where
  "MOCK_SLUG_PREFIXES = [''mock-'', ''mockdepin-testonly'']"

definition is_mock_slug :: "string \<Rightarrow> bool" where
  "is_mock_slug slug = (\<exists>p \<in> set MOCK_SLUG_PREFIXES. slug = p \<or> starts_with p slug)"

definition admission_reasons :: "provider_adapter \<Rightarrow> string list" where
  "admission_reasons ad =
    (let i = ad_identity ad; c = ad_capabilities ad
     in (if ai_is_mock i \<or> is_mock_slug (ai_slug i) then [''mock adapter''] else []) @
        (if ai_profile i \<noteq> EP_PRODUCTION then [''execution profile '' @ execution_profile_value (ai_profile i)] else []) @
        (if ai_partner_revenue i \<noteq> ''REAL'' then [''partner revenue '' @ ai_partner_revenue i] else []) @
        (if cp_source_support c \<noteq> SU_SUPPORTED then [''official source support '' @ support_value (cp_source_support c)] else []))"

definition assert_production_admissible :: "provider_adapter \<Rightarrow> adapter_error + unit" where
  "assert_production_admissible ad = ensure (admission_reasons ad = []) (NotProductionAdmissible (admission_reasons ad)) (Inr ())"

definition assert_native_capable :: "provider_adapter \<Rightarrow> adapter_error + unit" where
  "assert_native_capable ad = Inl (NotNativeCapable (ai_slug (ad_identity ad)))"

section \<open>What the guards admit\<close>

lemma require_capability_eq: "require_capability c op = Inr () \<longleftrightarrow> capability_of c op = Some SU_SUPPORTED"
  by (auto simp: require_capability_def split: option.splits)

lemma default_refuses: "\<not> require_capability default_capabilities op = Inr ()"
  by (auto simp: require_capability_eq capability_of_def default_capabilities_def)

lemma production_admission:
  "assert_production_admissible ad = Inr () \<longleftrightarrow> \<not> ai_is_mock (ad_identity ad) \<and> \<not> is_mock_slug (ai_slug (ad_identity ad)) \<and>
     ai_profile (ad_identity ad) = EP_PRODUCTION \<and> ai_partner_revenue (ad_identity ad) = ''REAL'' \<and> cp_source_support (ad_capabilities ad) = SU_SUPPORTED"
  by (auto simp: assert_production_admissible_def admission_reasons_def Let_def)

lemma revenue_consistent_units:
  assumes "revenue_consistent r = Inr r'"
  shows "r' = r \<and> (\<exists>g d n. Domain.units (rx_gross r) = Inr g \<and> Domain.units (rx_deductions r) = Inr d \<and> Domain.units (rx_net r) = Inr n \<and>
    n = g - d \<and> 0 \<le> n \<and> n \<le> g \<and> 0 \<le> g)"
  using assms by (auto simp: revenue_consistent_def then_do_eq_Inr)

end
