(* ===== verification/Control_Executor.thy ===== *)
theory Control_Executor
  imports Json_Access Providers Job_Queue Outbox
begin

text \<open>
  Partner actions (\<open>control/executor.py\<close>): claims, receiver changes and releases that an operator approved, sent through a
  provider's adapter. \<open>_authorize\<close> decides from the binding, the account's row and the action; \<open>enqueue\<close> plans a
  job; \<open>handle\<close> asks the adapter at most once per acknowledgement, records the acknowledgement in a transaction of its
  own, and succeeds only when the effect is observed. The action is the JSON object of the job; the adapter
  and the reader of effects are arguments.
\<close>

section \<open>The action object\<close>

text \<open>Membership in a set of strings: lists and dictionaries are unhashable.\<close>

fun in_strs :: "json option \<Rightarrow> string list \<Rightarrow> app_error + bool" where
  "in_strs (Some (JStr s)) xs = Inr (s \<in> set xs)"
| "in_strs (Some (JList _)) xs = Inl (OtherError ''TypeError: unhashable'')"
| "in_strs (Some (JObj _)) xs = Inl (OtherError ''TypeError: unhashable'')"
| "in_strs _ xs = Inr False"

text \<open>Equality of a value with an integer: a boolean counts as 0 or 1.\<close>

definition equals_int :: "json option \<Rightarrow> int \<Rightarrow> bool" where
  "equals_int j n = (case j of Some (JInt i) \<Rightarrow> i = n | Some (JBool b) \<Rightarrow> n = (if b then 1 else 0) | _ \<Rightarrow> False)"

definition as_invalid :: "money_error + 'a \<Rightarrow> app_error + 'a" where
  "as_invalid r = (case r of Inl e \<Rightarrow> Inl (ValueError ''ValidationError'') | Inr x \<Rightarrow> Inr x)"

text \<open>\<open>Money.model_validate\<close> of a JSON object; other keys are ignored.\<close>

definition asset_of_json :: "json \<Rightarrow> app_error + asset_ref" where
  "asset_of_json j =
    (case (json_get j ''chain_id'', json_get j ''address'', json_get j ''symbol'', json_get j ''decimals'') of
       (Some c, Some a, Some (JStr s), Some d) \<Rightarrow>
         (case (json_int c, json_int d, a) of
            (Inr chain, Inr decimals, JNull) \<Rightarrow> as_invalid (make_asset chain None s decimals)
          | (Inr chain, Inr decimals, JStr v) \<Rightarrow> as_invalid (make_asset chain (Some v) s decimals)
          | _ \<Rightarrow> Inl (ValueError ''ValidationError''))
     | _ \<Rightarrow> Inl (ValueError ''ValidationError''))"

definition money_of_json :: "json \<Rightarrow> app_error + money" where
  "money_of_json j =
    (case (json_get j ''amount'', json_get j ''asset'') of
       (Some (JStr s), Some a) \<Rightarrow> then_do (asset_of_json a) (\<lambda>asset. as_invalid (make_money s asset))
     | _ \<Rightarrow> Inl (ValueError ''ValidationError''))"

section \<open>Binding and state\<close>

record write_binding =
  wb_provider_id :: string
  wb_profile :: string
  wb_partner_binding :: string
  wb_credential_scope :: "string list"
  wb_allowed_receivers :: "string list"
  wb_receiver_chain_id :: int
  wb_claim_cap :: int
  wb_approval_ref :: string
  wb_idempotent_requests :: bool

record effect_observation =
  eb_applied :: bool
  eb_reference :: "string option"

text \<open>The reader is asked again after the request: its answer may differ by the number of the call.\<close>

record effect_reader =
  er_observe :: "nat \<Rightarrow> json \<Rightarrow> app_error + effect_observation"
  er_release_permitted :: "json \<Rightarrow> bool"

record scoped_account =
  sc_id :: string
  sc_provider_id :: string
  sc_external_id :: string
  sc_auth_scope :: "string list"

record control_db = core_db +
  db_scoped_accounts :: "scoped_account list"

section \<open>Authorisation\<close>

definition operation_of :: "json \<Rightarrow> string" where
  "operation_of kind = (if kind = JStr ''CLAIM'' then ''claim_revenue'' else ''request_control_change'')"

definition binding_ok :: "write_binding \<Rightarrow> adapter_identity \<Rightarrow> app_error + unit" where
  "binding_ok b i =
    ensure (wb_approval_ref b \<noteq> [] \<and> wb_idempotent_requests b \<and> ai_slug i = wb_provider_id b \<and> execution_profile_value (ai_profile i) = wb_profile b)
      (TerminalError ''write binding is missing or inconsistent'')
    (ensure (wb_profile b = ''LOCAL_MOCK'' \<or> wb_partner_binding b \<in> {''SANDBOX_VERIFIED'', ''LIVE_VERIFIED''})
      (TerminalError ''partner write binding is unconfigured'')
    (ensure (\<not> (wb_profile b = ''PRODUCTION'' \<and> (ai_is_mock i \<or> wb_partner_binding b \<noteq> ''LIVE_VERIFIED'')))
      (TerminalError ''production requires live partner write authority'') (Inr ())))"

definition claim_within :: "write_binding \<Rightarrow> adapter_identity \<Rightarrow> json \<Rightarrow> app_error + unit" where
  "claim_within b i action =
    then_do (json_field action ''amount'') (\<lambda>j. then_do (money_of_json j) (\<lambda>amount. then_do (as_invalid (Domain.units amount)) (\<lambda>n.
      ensure (0 < n \<and> n \<le> wb_claim_cap b \<and> m_asset amount \<in> set (ai_supported_assets i)) (TerminalError ''claim amount or asset exceeds approved binding'') (Inr ()))))"

definition receiver_within :: "write_binding \<Rightarrow> effect_reader \<Rightarrow> json \<Rightarrow> json \<Rightarrow> bool \<Rightarrow> app_error + unit" where
  "receiver_within b er kind action write =
    then_do (in_strs (json_get action ''receiver'') (wb_allowed_receivers b)) (\<lambda>allowed.
    ensure (allowed \<and> equals_int (json_get action ''receiverChainId'') (wb_receiver_chain_id b)) (TerminalError ''receiver is outside approved agreement targets'')
    (ensure (\<not> (write \<and> kind = JStr ''RELEASE'' \<and> \<not> er_release_permitted er action))
      (TerminalError ''release blocked by debt, unresolved refunds or active agreement'') (Inr ())))"

definition authorize :: "write_binding \<Rightarrow> provider_adapter \<Rightarrow> effect_reader \<Rightarrow> int \<Rightarrow> json \<Rightarrow> bool \<Rightarrow> control_db \<Rightarrow> app_error + account_ref" where
  "authorize b ad er now action write db =
    then_do (binding_ok b (ad_identity ad)) (\<lambda>_.
    then_do (json_field action ''kind'') (\<lambda>kind.
    then_do (in_strs (Some kind) [''CLAIM'', ''SET_RECEIVER'', ''RELEASE'']) (\<lambda>known.
    ensure known (TerminalError ''unsupported provider action'')
    (then_do (need_str action ''providerAccountId'') (\<lambda>pid.
    (case List.find (\<lambda>a. sc_id a = pid) (db_scoped_accounts db) of
       None \<Rightarrow> Inl (TerminalError ''provider account binding mismatch'')
     | Some account \<Rightarrow>
    ensure (sc_provider_id account = wb_provider_id b) (TerminalError ''provider account binding mismatch'')
    (ensure (\<not> write \<or> operation_of kind \<in> set (wb_credential_scope b) \<and> operation_of kind \<in> set (sc_auth_scope account))
      (TerminalError ''partner write scope revoked or unavailable'')
    (ensure (json_truthy (json_get action ''reason'') \<and> json_truthy (json_get action ''approvedBy'') \<and> json_get action ''approvalRef'' = Some (JStr (wb_approval_ref b)))
      (TerminalError ''reason and bound approval required'')
    (then_do (in_strs (json_get action ''approvedRole'') [''operator'', ''treasury'']) (\<lambda>role_ok.
    ensure role_ok (TerminalError ''action requires operator or treasury approval'')
    (then_do (if write then then_do (json_field action ''deadline'') json_int else Inr (now div 1000000 + 1)) (\<lambda>deadline.
    ensure (now div 1000000 < deadline) (TerminalError ''provider action deadline expired'')
    (ensure (\<not> write \<or> require_capability (ad_capabilities ad) (operation_of kind) = Inr ()) (TerminalError ''partner operation unsupported'')
    (then_do (if kind = JStr ''CLAIM'' then claim_within b (ad_identity ad) action else receiver_within b er kind action write) (\<lambda>_.
      Inr \<lparr>af_slug = sc_provider_id account, af_external_id = sc_external_id account\<rparr>)))))))))))))))"

section \<open>Planning\<close>

definition action_key :: "string \<Rightarrow> write_binding \<Rightarrow> string \<Rightarrow> string" where
  "action_key prefix b action_id = prefix @ '':'' @ wb_provider_id b @ '':'' @ action_id"

definition enqueue_action ::
  "hash_fun \<Rightarrow> int \<Rightarrow> string \<Rightarrow> write_binding \<Rightarrow> provider_adapter \<Rightarrow> effect_reader \<Rightarrow> json \<Rightarrow> control_db \<Rightarrow> app_error + (control_db \<times> string)" where
  "enqueue_action sha now jid b ad er action db =
    then_do (authorize b ad er now action True db) (\<lambda>_.
    (case json_get action ''actionId'' of
       Some (JStr aid) \<Rightarrow>
         ensure (aid \<noteq> [] \<and> length aid \<le> 128) (ValueError ''bounded semantic actionId required'')
         (case List.find (\<lambda>j. j_key j = action_key ''provider-action'' b aid) (db_jobs db) of
            Some j \<Rightarrow> ensure (j_payload j = action) (ValueError ''provider actionId already bound to different request'')
              (enqueue sha now jid ''PROVIDER_ACTION'' action (action_key ''provider-action'' b aid) 100 None db)
          | None \<Rightarrow> enqueue sha now jid ''PROVIDER_ACTION'' action (action_key ''provider-action'' b aid) 100 None db)
     | _ \<Rightarrow> Inl (ValueError ''bounded semantic actionId required'')))"

section \<open>Handling\<close>

text \<open>What happened to the adapter's write call: an answer that is bound to the account and the action and accepts it, or another one.\<close>

datatype action_call = Not_Called | Call_Raised | Call_Refused action_result | Call_Accepted action_result

definition adapter_failure :: "adapter_error \<Rightarrow> app_error" where
  "adapter_failure e = OtherError ''ProviderAdapterError''"

definition request_action :: "provider_adapter \<Rightarrow> account_ref \<Rightarrow> json \<Rightarrow> string \<Rightarrow> app_error + (adapter_error + action_result)" where
  "request_action ad account action aid =
    then_do (json_field action ''kind'') (\<lambda>kind.
    if kind = JStr ''CLAIM''
    then then_do (json_field action ''amount'') (\<lambda>j. then_do (money_of_json j) (\<lambda>amount.
           Inr (ad_claim_revenue ad \<lparr>cq_account = account, cq_amount = Some amount, cq_key = aid\<rparr>)))
    else then_do (need_str action ''receiver'') (\<lambda>receiver. then_do (json_field action ''receiverChainId'') (\<lambda>c. then_do (json_int c) (\<lambda>chain.
           Inr (ad_request_control_change ad \<lparr>cc_account = account, cc_new_receiver = receiver, cc_new_receiver_chain_id = chain, cc_key = aid\<rparr>)))))"

definition result_bound :: "account_ref \<Rightarrow> string \<Rightarrow> action_result \<Rightarrow> app_error + unit" where
  "result_bound account aid r =
    ensure (ar_account r = account \<and> ar_key r = aid) (TerminalError ''provider acknowledgement binding mismatch'')
    (ensure (ar_accepted r) (TerminalError ''provider rejected approved action'') (Inr ()))"

definition acknowledge_action :: "int \<Rightarrow> write_binding \<Rightarrow> string \<Rightarrow> action_result \<Rightarrow> control_db \<Rightarrow> app_error + control_db" where
  "acknowledge_action now b aid r db =
    then_do (emit now ''provider_action'' aid ''PROVIDER_ACTION_ACKNOWLEDGED''
      (JObj [(''providerRef'', json_opt (ar_provider_ref r)), (''cashState'', JStr ''NONE''), (''controlGradeEffect'', JStr ''NONE'')])
      (action_key ''provider-ack'' b aid) db) (\<lambda>(db, _). Inr db)"

text \<open>The request: the call, what the acknowledgement committed, and the effect observed afterwards.\<close>

definition perform_action ::
  "write_binding \<Rightarrow> provider_adapter \<Rightarrow> effect_reader \<Rightarrow> int \<Rightarrow> json \<Rightarrow> account_ref \<Rightarrow> string \<Rightarrow> control_db \<Rightarrow>
   action_call \<times> control_db \<times> (app_error + effect_observation)" where
  "perform_action b ad er now action account aid db =
    (case authorize b ad er now action True db of
       Inl e \<Rightarrow> (Not_Called, db, Inl e)
     | Inr _ \<Rightarrow>
    (case request_action ad account action aid of
       Inl e \<Rightarrow> (Not_Called, db, Inl e)
     | Inr (Inl e) \<Rightarrow> (Call_Raised, db, Inl (adapter_failure e))
     | Inr (Inr r) \<Rightarrow>
    (case result_bound account aid r of
       Inl e \<Rightarrow> (Call_Refused r, db, Inl e)
     | Inr _ \<Rightarrow>
    (case acknowledge_action now b aid r db of
       Inl e \<Rightarrow> (Call_Accepted r, db, Inl e)
     | Inr db' \<Rightarrow> (Call_Accepted r, db', er_observe er 1 action)))))"

definition record_effect_observed :: "hash_fun \<Rightarrow> int \<Rightarrow> string \<Rightarrow> write_binding \<Rightarrow> json \<Rightarrow> string \<Rightarrow> string \<Rightarrow> control_db \<Rightarrow> app_error + control_db" where
  "record_effect_observed sha now jid b action aid reference db =
    then_do (emit now ''provider_action'' aid ''PROVIDER_ACTION_EFFECT_OBSERVED''
      (JObj [(''effectRef'', JStr reference), (''cashState'', JStr ''NONE''), (''controlGradeEffect'', JStr ''NONE''),
        (''partnerBinding'', JStr (wb_partner_binding b))]) (action_key ''provider-effect'' b aid) db) (\<lambda>(db, emitted).
    if emitted = None then Inr db
    else then_do (need_str action ''approvedBy'') (\<lambda>actor. then_do (need_str action ''approvedRole'') (\<lambda>rl.
         then_do (need_str action ''providerAccountId'') (\<lambda>pid. then_do (json_field action ''reason'') (\<lambda>reason.
         then_do (write_audit sha now actor rl ''PROVIDER_EFFECT_OBSERVED'' ''provider_accounts'' pid None
           (Some (JObj [(''actionId'', JStr aid), (''effectRef'', JStr reference), (''reason'', reason)])) (Some jid) db) (\<lambda>(db, _). Inr db))))))"

text \<open>\<open>handle\<close>: the call, what is committed on its own, and the outcome of the job's transaction. The identifier of a planned
  action is a string.\<close>

definition handle_action ::
  "hash_fun \<Rightarrow> int \<Rightarrow> string \<Rightarrow> write_binding \<Rightarrow> provider_adapter \<Rightarrow> effect_reader \<Rightarrow> json \<Rightarrow> control_db \<Rightarrow>
   action_call \<times> control_db \<times> (app_error + control_db)" where
  "handle_action sha now jid b ad er action db =
    (case authorize b ad er now action False db of
       Inl e \<Rightarrow> (Not_Called, db, Inl e)
     | Inr account \<Rightarrow>
    (case er_observe er 0 action of
       Inl e \<Rightarrow> (Not_Called, db, Inl e)
     | Inr effect0 \<Rightarrow>
    (case need_str action ''actionId'' of
       Inl e \<Rightarrow> (Not_Called, db, Inl e)
     | Inr aid \<Rightarrow>
    (case (if \<not> eb_applied effect0 \<and> \<not> has_key o_key (db_outbox db) (action_key ''provider-ack'' b aid)
           then perform_action b ad er now action account aid db else (Not_Called, db, Inr effect0)) of
       (call, committed, Inl e) \<Rightarrow> (call, committed, Inl e)
     | (call, committed, Inr effect) \<Rightarrow>
         (call, committed,
          (case (eb_applied effect, eb_reference effect) of
             (True, Some reference) \<Rightarrow>
               if reference = [] then Inl (TransientError ''provider action acknowledged; applied effect not observed'')
               else record_effect_observed sha now jid b action aid reference committed
           | _ \<Rightarrow> Inl (TransientError ''provider action acknowledged; applied effect not observed'')))))))"

section \<open>The executor as a machine\<close>

text \<open>Accepted calls, by provider and action.\<close>

type_synonym call_log = "(string \<times> string) list"

definition log_call :: "write_binding \<Rightarrow> json \<Rightarrow> action_call \<Rightarrow> call_log" where
  "log_call b action call =
    (case (json_get action ''actionId'', call) of
       (Some (JStr aid), Call_Accepted r) \<Rightarrow> [(wb_provider_id b, aid)]
     | _ \<Rightarrow> [])"

text \<open>Another service, or the publication of the outbox, loses no event.\<close>

definition outbox_grows :: "control_db \<Rightarrow> control_db \<Rightarrow> bool" where
  "outbox_grows db db' \<longleftrightarrow> o_key ` set (db_outbox db) \<subseteq> o_key ` set (db_outbox db')"

inductive control_step :: "hash_fun \<Rightarrow> control_db \<times> call_log \<Rightarrow> control_db \<times> call_log \<Rightarrow> bool" for sha where
  action_planned: "enqueue_action sha now jid b ad er action db = Inr (db', j) \<Longrightarrow> control_step sha (db, calls) (db', calls)"
| action_handled: "handle_action sha now jid b ad er action db = (call, committed, out) \<Longrightarrow> db' = committed \<or> out = Inr db' \<Longrightarrow>
    control_step sha (db, calls) (db', calls @ log_call b action call)"
| other_service: "outbox_grows db db' \<Longrightarrow> control_step sha (db, calls) (db', calls)"

section \<open>Authority\<close>

text \<open>What a write authorisation has established.\<close>

definition authority :: "write_binding \<Rightarrow> provider_adapter \<Rightarrow> effect_reader \<Rightarrow> int \<Rightarrow> json \<Rightarrow> control_db \<Rightarrow> bool" where
  "authority b ad er now action db \<longleftrightarrow>
     (\<exists>kind account deadline. json_get action ''kind'' = Some kind \<and> account \<in> set (db_scoped_accounts db) \<and>
        json_get action ''providerAccountId'' = Some (JStr (sc_id account)) \<and> sc_provider_id account = wb_provider_id b \<and>
        operation_of kind \<in> set (wb_credential_scope b) \<inter> set (sc_auth_scope account) \<and>
        capability_of (ad_capabilities ad) (operation_of kind) = Some SU_SUPPORTED \<and>
        json_get action ''deadline'' = Some deadline \<and> (\<exists>d. json_int deadline = Inr d \<and> now div 1000000 < d) \<and>
        (kind = JStr ''CLAIM'' \<and> claim_within b (ad_identity ad) action = Inr () \<or>
         (\<exists>receiver. kind \<in> {JStr ''SET_RECEIVER'', JStr ''RELEASE''} \<and> json_get action ''receiver'' = Some (JStr receiver) \<and> receiver \<in> set (wb_allowed_receivers b)) \<and>
         (kind = JStr ''RELEASE'' \<longrightarrow> er_release_permitted er action)))"

lemma in_strs_True: "in_strs j xs = Inr True \<longleftrightarrow> (\<exists>s. j = Some (JStr s) \<and> s \<in> set xs)"
  by (induction j xs rule: in_strs.induct) auto

lemma need_str_eq: "need_str j k = Inr s \<longleftrightarrow> json_get j k = Some (JStr s)"
  by (auto simp: need_str_def split: option.splits json.splits)

lemma binding_ok_eq:
  "binding_ok b i = Inr () \<longleftrightarrow> wb_approval_ref b \<noteq> [] \<and> wb_idempotent_requests b \<and> ai_slug i = wb_provider_id b \<and>
     execution_profile_value (ai_profile i) = wb_profile b \<and> (wb_profile b = ''LOCAL_MOCK'' \<or> wb_partner_binding b \<in> {''SANDBOX_VERIFIED'', ''LIVE_VERIFIED''}) \<and>
     (wb_profile b = ''PRODUCTION'' \<longrightarrow> \<not> ai_is_mock i \<and> wb_partner_binding b = ''LIVE_VERIFIED'')"
  unfolding binding_ok_def ensure_eq_Inr by blast

lemma authorize_facts:
  assumes "authorize b ad er now action True db = Inr ref"
  shows "binding_ok b (ad_identity ad) = Inr () \<and> authority b ad er now action db \<and> json_get action ''approvalRef'' = Some (JStr (wb_approval_ref b)) \<and>
    json_get action ''approvedRole'' \<in> {Some (JStr ''operator''), Some (JStr ''treasury'')}"
proof -
  obtain u kind pid account deadline v where f: "binding_ok b (ad_identity ad) = Inr u" "json_get action ''kind'' = Some kind"
      "in_strs (Some kind) [''CLAIM'', ''SET_RECEIVER'', ''RELEASE''] = Inr True" "json_get action ''providerAccountId'' = Some (JStr pid)"
      "List.find (\<lambda>a. sc_id a = pid) (db_scoped_accounts db) = Some account" "sc_provider_id account = wb_provider_id b"
      "operation_of kind \<in> set (wb_credential_scope b) \<and> operation_of kind \<in> set (sc_auth_scope account)"
      "json_get action ''approvalRef'' = Some (JStr (wb_approval_ref b))" "in_strs (json_get action ''approvedRole'') [''operator'', ''treasury''] = Inr True"
      "then_do (json_field action ''deadline'') json_int = Inr deadline" "now div 1000000 < deadline"
      "require_capability (ad_capabilities ad) (operation_of kind) = Inr ()"
      "(if kind = JStr ''CLAIM'' then claim_within b (ad_identity ad) action else receiver_within b er kind action True) = Inr v"
    using assms unfolding authorize_def by (auto simp: then_do_eq_Inr json_field_eq need_str_eq split: option.splits)
  have "account \<in> set (db_scoped_accounts db)" "sc_id account = pid" using f(5) by (auto dest: find_Some_iff)
  moreover have "\<exists>d. json_get action ''deadline'' = Some d \<and> json_int d = Inr deadline" using f(10) by (auto simp: then_do_eq_Inr json_field_eq)
  moreover have "kind = JStr ''CLAIM'' \<and> claim_within b (ad_identity ad) action = Inr () \<or>
         (\<exists>receiver. kind \<in> {JStr ''SET_RECEIVER'', JStr ''RELEASE''} \<and> json_get action ''receiver'' = Some (JStr receiver) \<and> receiver \<in> set (wb_allowed_receivers b)) \<and>
         (kind = JStr ''RELEASE'' \<longrightarrow> er_release_permitted er action)"
  proof (cases "kind = JStr ''CLAIM''")
    case False
    with f(3) have "kind \<in> {JStr ''SET_RECEIVER'', JStr ''RELEASE''}" by (auto simp: in_strs_True)
    with f(13) False show ?thesis by (auto simp: receiver_within_def then_do_eq_Inr in_strs_True)
  qed (use f(13) in simp)
  ultimately have "authority b ad er now action db"
    unfolding authority_def using f(2,4,6,7,11,12) by (auto simp: require_capability_eq)
  moreover have "json_get action ''approvedRole'' \<in> {Some (JStr ''operator''), Some (JStr ''treasury'')}" using f(9) by (auto simp: in_strs_True)
  ultimately show ?thesis using f(1,8) by simp
qed

lemma perform_calls:
  assumes "perform_action b ad er now action account aid db = (call, committed, out)" and "call \<noteq> Not_Called"
  shows "\<exists>ref. authorize b ad er now action True db = Inr ref"
  using assms unfolding perform_action_def by (auto split: sum.splits)

text \<open>The handler, by whether it asks the adapter.\<close>

lemma handle_action_cases:
  assumes "handle_action sha now jid b ad er action db = (call, committed, out)"
  obtains (refused) e where "call = Not_Called" "committed = db" "out = Inl e"
  | (observed) effect aid where "call = Not_Called" "committed = db" "er_observe er 0 action = Inr effect" "json_get action ''actionId'' = Some (JStr aid)"
      "\<And>db'. out = Inr db' \<Longrightarrow> \<exists>reference. eb_applied effect \<and> eb_reference effect = Some reference \<and> reference \<noteq> [] \<and>
         record_effect_observed sha now jid b action aid reference committed = Inr db'"
  | (asked) account aid res where "json_get action ''actionId'' = Some (JStr aid)" "\<not> has_key o_key (db_outbox db) (action_key ''provider-ack'' b aid)"
      "perform_action b ad er now action account aid db = (call, committed, res)"
      "\<And>db'. out = Inr db' \<Longrightarrow> \<exists>effect reference. res = Inr effect \<and> eb_applied effect \<and> eb_reference effect = Some reference \<and> reference \<noteq> [] \<and>
         record_effect_observed sha now jid b action aid reference committed = Inr db'"
proof (cases "\<exists>account effect0 aid. authorize b ad er now action False db = Inr account \<and> er_observe er 0 action = Inr effect0 \<and>
    json_get action ''actionId'' = Some (JStr aid)")
  case False
  then have "\<exists>e. call = Not_Called \<and> committed = db \<and> out = Inl e"
    using assms unfolding handle_action_def by (auto simp: need_str_eq split: sum.splits)
  with refused show ?thesis by blast
next
  case True
  then obtain account effect0 aid where a: "authorize b ad er now action False db = Inr account" "er_observe er 0 action = Inr effect0"
    and aid: "need_str action ''actionId'' = Inr aid" by (auto simp: need_str_eq)
  show ?thesis
  proof (cases "\<not> eb_applied effect0 \<and> \<not> has_key o_key (db_outbox db) (action_key ''provider-ack'' b aid)")
    case True
    obtain c d res where p: "perform_action b ad er now action account aid db = (c, d, res)" by (metis prod_cases3)
    show ?thesis
    proof (rule asked [of aid account res])
      show "json_get action ''actionId'' = Some (JStr aid)" using aid by (simp add: need_str_eq)
      show "\<not> has_key o_key (db_outbox db) (action_key ''provider-ack'' b aid)" using True by simp
      show "perform_action b ad er now action account aid db = (call, committed, res)"
        using assms a aid True p unfolding handle_action_def by (auto split: sum.splits)
      fix db'
      assume "out = Inr db'"
      then show "\<exists>effect reference. res = Inr effect \<and> eb_applied effect \<and> eb_reference effect = Some reference \<and> reference \<noteq> [] \<and>
         record_effect_observed sha now jid b action aid reference committed = Inr db'"
        using assms a aid True p unfolding handle_action_def by (auto split: sum.splits option.splits bool.splits if_splits)
    qed
  next
    case False
    show ?thesis
    proof (rule observed [of effect0 aid])
      show "call = Not_Called" "committed = db" using assms a aid False unfolding handle_action_def by auto
      show "er_observe er 0 action = Inr effect0" "json_get action ''actionId'' = Some (JStr aid)" using a aid by (simp_all add: need_str_eq)
      fix db'
      assume "out = Inr db'"
      then show "\<exists>reference. eb_applied effect0 \<and> eb_reference effect0 = Some reference \<and> reference \<noteq> [] \<and>
         record_effect_observed sha now jid b action aid reference committed = Inr db'"
        using assms a aid False unfolding handle_action_def by (auto split: option.splits bool.splits if_splits)
    qed
  qed
qed


section \<open>An accepted action is not sent again\<close>

definition acked :: "control_db \<Rightarrow> string \<times> string \<Rightarrow> bool" where
  "acked db k = has_key o_key (db_outbox db) (''provider-ack:'' @ fst k @ '':'' @ snd k)"

definition control_inv :: "control_db \<times> call_log \<Rightarrow> bool" where
  "control_inv st \<longleftrightarrow> distinct (snd st) \<and> (\<forall>k \<in> set (snd st). acked (fst st) k)"

lemma emit_grows: "emit now t i ev pay key (db :: control_db) = Inr (db', n) \<Longrightarrow> outbox_grows db db' \<and> has_key o_key (db_outbox db') key"
  by (auto simp: emit_def outbox_grows_def has_key_def Let_def split: if_splits)

lemma grows_has_key: "outbox_grows db db' \<Longrightarrow> has_key o_key (db_outbox db) k \<Longrightarrow> has_key o_key (db_outbox db') k"
  unfolding has_key_def outbox_grows_def by (metis imageE image_eqI subsetD)

lemma acked_grows: "outbox_grows db db' \<Longrightarrow> acked db k \<Longrightarrow> acked db' k"
  unfolding acked_def by (rule grows_has_key)

lemma grows_refl [simp]: "outbox_grows db db"
  by (simp add: outbox_grows_def)

lemma grows_trans: "outbox_grows a b \<Longrightarrow> outbox_grows b c \<Longrightarrow> outbox_grows a c"
  by (auto simp: outbox_grows_def)

lemma effect_grows: "record_effect_observed sha now jid b action aid reference db = Inr db' \<Longrightarrow> outbox_grows db db'"
proof -
  assume "record_effect_observed sha now jid b action aid reference db = Inr db'"
  then obtain d pay key n where e: "emit now ''provider_action'' aid ''PROVIDER_ACTION_EFFECT_OBSERVED'' pay key db = Inr (d, n)" and "db_outbox db' = db_outbox d"
    unfolding record_effect_observed_def by (auto simp: then_do_eq_Inr write_audit_def Let_def split: if_splits)
  then show ?thesis using emit_grows [OF e] by (simp add: outbox_grows_def)
qed

lemma ack_key: "action_key ''provider-ack'' b aid = ''provider-ack:'' @ wb_provider_id b @ '':'' @ aid"
  by (simp add: action_key_def)

lemma acknowledge_grows:
  assumes "acknowledge_action now b aid r db = Inr db'"
  shows "outbox_grows db db' \<and> acked db' (wb_provider_id b, aid)"
proof -
  obtain pay n where e: "emit now ''provider_action'' aid ''PROVIDER_ACTION_ACKNOWLEDGED'' pay (action_key ''provider-ack'' b aid) db = Inr (db', n)"
    using assms unfolding acknowledge_action_def by (auto simp: then_do_eq_Inr)
  from emit_grows [OF e] show ?thesis unfolding acked_def ack_key fst_conv snd_conv .
qed

lemma acknowledge_succeeds: "\<exists>db'. acknowledge_action now b aid r db = Inr db'"
  by (simp add: acknowledge_action_def emit_def action_key_def then_do_eq_Inr Let_def)

lemma perform_effect:
  assumes "perform_action b ad er now action account aid db = (call, committed, out)" and "json_get action ''actionId'' = Some (JStr aid)"
  shows "outbox_grows db committed \<and> (log_call b action call = [] \<or> log_call b action call = [(wb_provider_id b, aid)] \<and> acked committed (wb_provider_id b, aid))"
  using assms acknowledge_succeeds [of now b aid _ db] unfolding perform_action_def
  by (auto simp: log_call_def split: sum.splits dest!: acknowledge_grows) (metis Inl_Inr_False)+

lemma handle_effect:
  assumes "handle_action sha now jid b ad er action db = (call, committed, out)" and "db' = committed \<or> out = Inr db'"
  shows "outbox_grows db db' \<and> (log_call b action call = [] \<or>
    (\<exists>k. log_call b action call = [k] \<and> \<not> acked db k \<and> acked db' k))"
  using assms(1)
proof (cases rule: handle_action_cases)
  case refused
  with assms(2) show ?thesis by (auto simp: log_call_def split: option.splits json.splits)
next
  case (observed effect aid)
  with assms(2) show ?thesis by (auto simp: log_call_def split: option.splits json.splits dest: effect_grows)
next
  case (asked account aid res)
  have "outbox_grows committed db'" using assms(2) asked(4) [of db'] effect_grows by auto
  with perform_effect [OF asked(3,1)] asked(2) show ?thesis
    by (auto simp: acked_def ack_key intro: grows_trans grows_has_key)
qed

lemma control_step_inv: "control_step sha st st' \<Longrightarrow> control_inv st \<Longrightarrow> control_inv st'"
proof (induction rule: control_step.induct)
  case (action_planned now jid b ad er action db db' j calls)
  then have "db_outbox db' = db_outbox db"
    unfolding enqueue_action_def by (auto simp: then_do_eq_Inr enqueue_def Let_def split: option.splits json.splits)
  with action_planned show ?case by (auto simp: control_inv_def acked_def)
next
  case (action_handled now jid b ad er action db call committed out db' calls)
  from handle_effect [OF action_handled(1,2)] action_handled(3) show ?case
    by (auto simp: control_inv_def dest: acked_grows)
next
  case (other_service db db' calls)
  then show ?case by (auto simp: control_inv_def dest: acked_grows)
qed

interpretation control: inv_machine "\<lambda>st. snd st = []" "control_step sha" control_inv for sha
  by unfold_locales (simp add: control_inv_def, rule control_step_inv)

text \<open>C26: an accepted partner action is never sent again. However planning, handling (retries included) and other services
  interleave, the calls that a provider accepted are for different actions of that provider, and the
  acknowledgement of each is in the outbox.\<close>

theorem accepted_action_is_final:
  assumes "(control_step sha)\<^sup>*\<^sup>* (db0, []) (db, calls)"
  shows "distinct calls \<and> (\<forall>(provider, aid) \<in> set calls. has_key o_key (db_outbox db) (''provider-ack:'' @ provider @ '':'' @ aid))"
  using control.reachable_inv [OF _ assms] by (auto simp: control_inv_def acked_def)

section \<open>A claim from plan to effect\<close>

definition claim_asset :: asset_ref where
  "claim_asset = \<lparr>as_chain_id = 5, as_address = None, as_symbol = ''CRED'', as_decimals = 6\<rparr>"

definition claim_binding :: write_binding where
  "claim_binding = \<lparr>wb_provider_id = ''p'', wb_profile = ''LOCAL_MOCK'', wb_partner_binding = ''NONE'', wb_credential_scope = [''claim_revenue''],
     wb_allowed_receivers = [], wb_receiver_chain_id = 1, wb_claim_cap = 100, wb_approval_ref = ''ops-7'', wb_idempotent_requests = True\<rparr>"

definition claim_adapter :: provider_adapter where
  "claim_adapter = \<lparr>ad_identity = \<lparr>ai_slug = ''p'', ai_profile = EP_LOCAL_MOCK, ai_is_mock = True, ai_partner_revenue = ''SIMULATED'', ai_source_chain_ids = [5],
       ai_supported_assets = [claim_asset]\<rparr>,
     ad_capabilities = default_capabilities\<lparr>cp_claim_revenue := SU_SUPPORTED\<rparr>, ad_fetch_revenue = \<lambda>_ _ _. Inl (UnsupportedOperation []),
     ad_fetch_settlements = \<lambda>_ _ _. Inl (UnsupportedOperation []),
     ad_claim_revenue = \<lambda>r. Inr \<lparr>ar_account = cq_account r, ar_key = cq_key r, ar_accepted = True, ar_provider_ref = Some ''ref''\<rparr>,
     ad_request_control_change = \<lambda>_. Inl (UnsupportedOperation [])\<rparr>"

definition claim_effects :: effect_reader where
  "claim_effects = \<lparr>er_observe = \<lambda>n _. Inr \<lparr>eb_applied = (n = 1), eb_reference = (if n = 1 then Some ''tx'' else None)\<rparr>, er_release_permitted = \<lambda>_. False\<rparr>"

definition claim_action :: json where
  "claim_action = JObj [(''kind'', JStr ''CLAIM''), (''actionId'', JStr ''a1''), (''providerAccountId'', JStr ''p:x''), (''reason'', JStr ''sweep''),
     (''approvedBy'', JStr ''ops''), (''approvedRole'', JStr ''operator''), (''approvalRef'', JStr ''ops-7''), (''deadline'', JInt 100),
     (''amount'', JObj [(''amount'', JStr ''7''), (''asset'', JObj [(''chain_id'', JInt 5), (''address'', JNull), (''symbol'', JStr ''CRED''), (''decimals'', JInt 6)])])]"

definition claim_db :: control_db where
  "claim_db = \<lparr>db_jobs = [], db_outbox = [], db_audit = [], db_scoped_accounts = [\<lparr>sc_id = ''p:x'', sc_provider_id = ''p'', sc_external_id = ''x'',
     sc_auth_scope = [''claim_revenue'']\<rparr>]\<rparr>"

lemmas claim_defs = claim_asset_def claim_binding_def claim_adapter_def claim_effects_def claim_action_def claim_db_def

lemma claim_money: "json_field claim_action ''amount'' = Inr (JObj [(''amount'', JStr ''7''), (''asset'', JObj [(''chain_id'', JInt 5), (''address'', JNull),
    (''symbol'', JStr ''CRED''), (''decimals'', JInt 6)])])"
  by (simp add: json_field_eq claim_action_def json_get_def)

lemma claim_money_value: "money_of_json (JObj [(''amount'', JStr ''7''), (''asset'', JObj [(''chain_id'', JInt 5), (''address'', JNull),
    (''symbol'', JStr ''CRED''), (''decimals'', JInt 6)])]) = Inr \<lparr>m_amount = ''7'', m_asset = claim_asset\<rparr>"
  by (simp add: money_of_json_def asset_of_json_def json_get_def make_asset_def make_money_def as_invalid_def int_re_def char_digit_def claim_asset_def)

lemma claim_units: "Domain.units \<lparr>m_amount = ''7'', m_asset = a\<rparr> = Inr 7"
proof -
  have "str_int 7 = ''7''" by code_simp
  with units_str_int [of 7 a] show ?thesis by simp
qed

lemma claim_checked: "claim_within claim_binding (ad_identity claim_adapter) claim_action = Inr ()"
  by (simp add: claim_within_def claim_money claim_money_value claim_units as_invalid_def claim_binding_def claim_adapter_def)

lemma claim_fields:
  "json_get claim_action ''kind'' = Some (JStr ''CLAIM'')" "json_get claim_action ''actionId'' = Some (JStr ''a1'')"
  "json_get claim_action ''providerAccountId'' = Some (JStr ''p:x'')" "json_get claim_action ''reason'' = Some (JStr ''sweep'')"
  "json_get claim_action ''approvedBy'' = Some (JStr ''ops'')" "json_get claim_action ''approvedRole'' = Some (JStr ''operator'')"
  "json_get claim_action ''approvalRef'' = Some (JStr ''ops-7'')" "json_get claim_action ''deadline'' = Some (JInt 100)"
  by (simp_all add: claim_action_def json_get_def)

lemma claim_authorized: "authorize claim_binding claim_adapter claim_effects 1000000 claim_action write claim_db = Inr \<lparr>af_slug = ''p'', af_external_id = ''x''\<rparr>"
proof -
  have b: "binding_ok claim_binding (ad_identity claim_adapter) = Inr ()" by (simp add: binding_ok_eq claim_binding_def claim_adapter_def)
  have c: "require_capability (ad_capabilities claim_adapter) ''claim_revenue'' = Inr ()"
    by (simp add: require_capability_eq capability_of_def claim_adapter_def)
  show ?thesis
    by (simp add: authorize_def b c json_field_def need_str_def claim_fields claim_checked operation_of_def claim_db_def)
      (simp add: claim_binding_def)
qed

definition claim_acked :: control_db where
  "claim_acked = claim_db\<lparr>db_outbox := [\<lparr>o_id = 1, o_aggregate_type = ''provider_action'', o_aggregate_id = ''a1'', o_event_type = ''PROVIDER_ACTION_ACKNOWLEDGED'',
     o_key = ''provider-ack:p:a1'', o_payload = JObj [(''providerRef'', JStr ''ref''), (''cashState'', JStr ''NONE''), (''controlGradeEffect'', JStr ''NONE'')],
     o_attempt = 0, o_created_at = 1000000, o_published_at = None\<rparr>]\<rparr>"

lemma claim_handled: "\<exists>r out. handle_action sha 1000000 ''j1'' claim_binding claim_adapter claim_effects claim_action claim_db = (Call_Accepted r, claim_acked, out)"
proof -
  let ?acc = "\<lparr>af_slug = ''p'', af_external_id = ''x''\<rparr>"
  let ?r = "\<lparr>ar_account = ?acc, ar_key = ''a1'', ar_accepted = True, ar_provider_ref = Some ''ref''\<rparr>"
  have ask: "request_action claim_adapter ?acc claim_action ''a1'' = Inr (Inr ?r)"
    by (simp add: request_action_def claim_money claim_money_value claim_fields json_field_eq [THEN iffD2])
      (simp add: claim_adapter_def)
  have ack: "acknowledge_action 1000000 claim_binding ''a1'' ?r claim_db = Inr claim_acked"
    by (simp add: acknowledge_action_def emit_def action_key_def has_key_def json_opt_def claim_acked_def claim_db_def claim_binding_def)
  have obs: "er_observe claim_effects n a = Inr \<lparr>eb_applied = (n = 1), eb_reference = (if n = 1 then Some ''tx'' else None)\<rparr>" for n a
    by (simp add: claim_effects_def)
  have "perform_action claim_binding claim_adapter claim_effects 1000000 claim_action ?acc ''a1'' claim_db =
      (Call_Accepted ?r, claim_acked, Inr \<lparr>eb_applied = True, eb_reference = Some ''tx''\<rparr>)"
    by (simp add: perform_action_def claim_authorized ask result_bound_def ack obs)
  moreover have "\<not> has_key o_key (db_outbox claim_db) k" for k by (simp add: claim_db_def has_key_def)
  ultimately show ?thesis by (simp add: handle_action_def claim_authorized need_str_def claim_fields obs)
qed


theorem accepted_action_is_final_witness:
  "\<exists>calls. (control_step (\<lambda>x. x))\<^sup>*\<^sup>* (claim_db, []) (claim_acked, calls) \<and> calls = [(''p'', ''a1'')] \<and> distinct calls"
proof -
  obtain r out where "handle_action (\<lambda>x. x) 1000000 ''j1'' claim_binding claim_adapter claim_effects claim_action claim_db = (Call_Accepted r, claim_acked, out)"
    using claim_handled by blast
  then have "control_step (\<lambda>x. x) (claim_db, []) (claim_acked, [] @ log_call claim_binding claim_action (Call_Accepted r))"
    by (rule action_handled) simp
  then have run: "(control_step (\<lambda>x. x))\<^sup>*\<^sup>* (claim_db, []) (claim_acked, [(''p'', ''a1'')])" by (simp add: log_call_def claim_fields claim_binding_def)
  with accepted_action_is_final [OF run] show ?thesis by blast
qed

end
