(* ===== verification/Ingestion.thy ===== *)
theory Ingestion
  imports Providers Receivables Datetime
begin

text \<open>
  Ingestion of provider data (\<open>ingestion/cursors.py\<close>, \<open>collector.py\<close>, \<open>proof_candidates.py\<close>, \<open>backfill.py\<close>, \<open>webhook.py\<close>):
  cursors with a high-water mark and a page in flight, the collector that commits one page per transaction with its raw
  observations, events and proof candidates, overlapping backfills, and the signed webhook that stores through the
  same path. The adapter, the raw store, \<open>model_dump\<close> and the parser of webhook bodies are arguments; \<open>ie_uid\<close> gives the identifiers of a call,
  \<open>ie_now\<close> its clock. The fault hooks of the tests are absent.
\<close>

section \<open>Tables\<close>

record source_request = proof_request +
  sq_provider_id :: string
  sq_manifest_hash :: string
  sq_sdk_version :: string

record raw_observation = observation_row +
  ro_schema_id :: string
  ro_schema_revision :: int
  ro_payload_ref :: string
  ro_observed_at :: int

text \<open>\<open>position\<close> is a text column that holds JSON; the model keeps the JSON value.\<close>

record cursor_row =
  ix_provider_id :: string
  ix_stream :: string
  ix_position :: json
  ix_backfill_from :: "string option"

record ingest_db = core_db +
  db_source_requests :: "source_request list"
  db_raw :: "raw_observation list"
  db_cursors :: "cursor_row list"
  db_gaps :: "exception_row list"

datatype ingest_error =
    Stored app_error
  | Adapter adapter_error
  | IngestionCrash string
  | MissingCursorError string
  | CollectValueError string
  | AssertionFailed

definition lift_app :: "app_error + 'a \<Rightarrow> ingest_error + 'a" where
  "lift_app r = (case r of Inl e \<Rightarrow> Inl (Stored e) | Inr x \<Rightarrow> Inr x)"

section \<open>Cursors\<close>

record cursor_state =
  cs_provider_id :: string
  cs_stream :: string
  cs_high_water :: "int option"
  cs_page_token :: "string option"
  cs_window_end :: "int option"
  cs_overlap_seconds :: int
  cs_backfill_from :: "string option"

definition iso_opt :: "int option \<Rightarrow> json" where
  "iso_opt t = (case t of None \<Rightarrow> JNull | Some x \<Rightarrow> JStr (isoformat x))"

definition to_position :: "cursor_state \<Rightarrow> json" where
  "to_position st = JObj [(''high_water'', iso_opt (cs_high_water st)), (''overlap_seconds'', JInt (cs_overlap_seconds st)),
     (''page_token'', json_opt (cs_page_token st)), (''window_end'', iso_opt (cs_window_end st))]"

definition parse_opt :: "json option \<Rightarrow> app_error + int option" where
  "parse_opt j = (case j of
     None \<Rightarrow> Inr None
   | Some JNull \<Rightarrow> Inr None
   | Some (JStr s) \<Rightarrow> if s = [] then Inr None else (case fromisoformat s of None \<Rightarrow> Inl (ValueError ''isoformat'') | Some t \<Rightarrow> Inr (Some t))
   | Some _ \<Rightarrow> Inl (OtherError ''TypeError''))"

definition token_opt :: "json option \<Rightarrow> app_error + string option" where
  "token_opt j = (case j of None \<Rightarrow> Inr None | Some JNull \<Rightarrow> Inr None | Some (JStr s) \<Rightarrow> Inr (Some s) | Some _ \<Rightarrow> Inl (OtherError ''TypeError''))"

definition overlap_of :: "json option \<Rightarrow> app_error + int" where
  "overlap_of j = (case j of
     None \<Rightarrow> Inr 0
   | Some (JInt i) \<Rightarrow> Inr i
   | Some (JStr s) \<Rightarrow> (case int_of_str (str_strip s) of None \<Rightarrow> Inl (ValueError ''int'') | Some i \<Rightarrow> Inr i)
   | Some _ \<Rightarrow> Inl (OtherError ''TypeError''))"

definition from_row :: "string \<Rightarrow> string \<Rightarrow> json \<Rightarrow> string option \<Rightarrow> app_error + cursor_state" where
  "from_row provider stream position backfill =
    then_do (parse_opt (json_get position ''high_water'')) (\<lambda>hw.
    then_do (token_opt (json_get position ''page_token'')) (\<lambda>token.
    then_do (parse_opt (json_get position ''window_end'')) (\<lambda>we.
    then_do (overlap_of (json_get position ''overlap_seconds'')) (\<lambda>overlap.
      Inr \<lparr>cs_provider_id = provider, cs_stream = stream, cs_high_water = hw, cs_page_token = token, cs_window_end = we, cs_overlap_seconds = overlap,
        cs_backfill_from = backfill\<rparr>))))"

definition cursor_key :: "cursor_row \<Rightarrow> string \<times> string" where
  "cursor_key r = (ix_provider_id r, ix_stream r)"

definition load_cursor :: "string \<Rightarrow> string \<Rightarrow> ingest_db \<Rightarrow> ingest_error + cursor_state option" where
  "load_cursor provider stream db =
    (case List.find (\<lambda>r. cursor_key r = (provider, stream)) (db_cursors db) of
       None \<Rightarrow> Inr None
     | Some r \<Rightarrow> then_do (lift_app (from_row provider stream (ix_position r) (ix_backfill_from r))) (\<lambda>st. Inr (Some st)))"

definition open_cursor :: "string \<Rightarrow> string \<Rightarrow> int option \<Rightarrow> int \<Rightarrow> ingest_db \<Rightarrow> ingest_error + (ingest_db \<times> cursor_state)" where
  "open_cursor provider stream initial_start overlap db =
    then_do (load_cursor provider stream db) (\<lambda>found.
    (case found of
       Some st \<Rightarrow> Inr (db, st)
     | None \<Rightarrow>
    (case initial_start of
       None \<Rightarrow> Inl (MissingCursorError (provider @ ''/'' @ stream))
     | Some start \<Rightarrow>
         (let st = \<lparr>cs_provider_id = provider, cs_stream = stream, cs_high_water = Some start, cs_page_token = None, cs_window_end = None,
                cs_overlap_seconds = overlap, cs_backfill_from = None\<rparr>;
              db' = db\<lparr>db_cursors := insert_or_ignore cursor_key
                \<lparr>ix_provider_id = provider, ix_stream = stream, ix_position = to_position st, ix_backfill_from = None\<rparr> (db_cursors db)\<rparr>
          in ensure (length provider \<le> 64 \<and> length stream \<le> 64) (Stored (OtherError ''DataError: value too long''))
            (then_do (load_cursor provider stream db') (\<lambda>found.
              (case found of None \<Rightarrow> Inl AssertionFailed | Some st2 \<Rightarrow> Inr (db', st2))))))))"

definition save_cursor :: "cursor_state \<Rightarrow> ingest_db \<Rightarrow> ingest_db" where
  "save_cursor st db = db\<lparr>db_cursors := update_where (\<lambda>r. cursor_key r = (cs_provider_id st, cs_stream st))
     (\<lambda>r. r\<lparr>ix_position := to_position st, ix_backfill_from := cs_backfill_from st\<rparr>) (db_cursors db)\<rparr>"

definition with_page :: "cursor_state \<Rightarrow> string option \<Rightarrow> int \<Rightarrow> cursor_state" where
  "with_page st token window_end = st\<lparr>cs_page_token := token, cs_window_end := Some window_end\<rparr>"

definition advanced :: "cursor_state \<Rightarrow> int \<Rightarrow> cursor_state" where
  "advanced st window_end = st\<lparr>cs_high_water := Some window_end, cs_page_token := None, cs_window_end := None\<rparr>"

section \<open>Proof candidates\<close>

record proof_env =
  pe_env_id :: string
  pe_chain_key :: int
  pe_source_chain_id :: int
  pe_manifest_hash :: string
  pe_sdk_version :: string
  pe_profile :: execution_profile

record proof_candidate =
  pq_provider_id :: string
  pq_env_id :: string
  pq_chain_key :: int
  pq_tx_hash :: string
  pq_settlement_ref :: string
  pq_account_key :: string

text \<open>The expression \<open>^0x[0-9a-f]{64}$\<close>: \<open>$\<close> also matches before a final newline.\<close>

definition tx_re :: "string \<Rightarrow> bool" where
  "tx_re s \<longleftrightarrow> (let t = (if s \<noteq> [] \<and> last s = CHR 0x0A then butlast s else s) in is_hex32 t)"

definition candidate_from_settlement :: "settlement_observation \<Rightarrow> proof_env \<Rightarrow> string \<Rightarrow> proof_candidate option" where
  "candidate_from_settlement obs env provider =
    (case sx_tx_ref obs of
       None \<Rightarrow> None
     | Some ref \<Rightarrow>
         if sx_status obs \<noteq> ''PAID'' \<or> ref = [] then None
         else if \<not> tx_re (str_lower ref) then None
         else if as_chain_id (m_asset (sx_amount obs)) \<noteq> pe_source_chain_id env then None
         else Some \<lparr>pq_provider_id = provider, pq_env_id = pe_env_id env, pq_chain_key = pe_chain_key env, pq_tx_hash = str_lower ref,
           pq_settlement_ref = sx_settlement_ref obs, pq_account_key = account_key (sx_account obs)\<rparr>)"

definition query_key :: "source_request \<Rightarrow> string \<times> int \<times> string" where
  "query_key r = (pr_env_id r, pr_chain_key r, pr_tx_hash r)"

definition candidate_row :: "int \<Rightarrow> string \<Rightarrow> proof_candidate \<Rightarrow> proof_env \<Rightarrow> source_request" where
  "candidate_row now rid c env = \<lparr>pr_id = rid, pr_env_id = pq_env_id c, pr_chain_key = pq_chain_key c, pr_tx_hash = pq_tx_hash c, pr_profile = pe_profile env,
     pr_status = NS_OBSERVED, pr_attempt = 0, pr_last_error = None, pr_api_ready_at = None, pr_precheck_ok_at = None, pr_updated_at = now,
     sq_provider_id = pq_provider_id c, sq_manifest_hash = pe_manifest_hash env, sq_sdk_version = pe_sdk_version env\<rparr>"

definition is_manifest_hash :: "string \<Rightarrow> bool" where
  "is_manifest_hash s \<longleftrightarrow> length s = 71 \<and> take 7 s = ''sha256:'' \<and> list_all is_hex_low (drop 7 s)"

definition source_request_checks :: "source_request \<Rightarrow> bool" where
  "source_request_checks r \<longleftrightarrow> is_ulid (pr_id r) \<and> is_hex32 (pr_tx_hash r) \<and> 0 < pr_chain_key r \<and> is_manifest_hash (sq_manifest_hash r) \<and> 0 \<le> pr_attempt r"

definition candidate_key :: "proof_candidate \<Rightarrow> string" where
  "candidate_key c = ''proof-candidate:'' @ pq_env_id c @ '':'' @ str_int (pq_chain_key c) @ '':'' @ pq_tx_hash c"

definition emit_candidate ::
  "hash_fun \<Rightarrow> int \<Rightarrow> string \<Rightarrow> string \<Rightarrow> proof_candidate \<Rightarrow> proof_env \<Rightarrow> string \<Rightarrow> ingest_db \<Rightarrow> app_error + (ingest_db \<times> string option)" where
  "emit_candidate sha now rid jid c env raw_id db =
    (let row = candidate_row now rid c env
     in ensure (source_request_checks row) (IntegrityError ''ck_proof_requests'')
       (if has_key query_key (db_source_requests db) (query_key row) then Inr (db, None)
        else ensure (\<not> has_key pr_id (db_source_requests db) rid) (IntegrityError ''proof_requests_pkey'')
          (then_do (emit now ''proof_request'' rid ''PROOF_CANDIDATE_OBSERVED''
             (JObj [(''proofRequestId'', JStr rid), (''envId'', JStr (pq_env_id c)), (''chainKey'', JInt (pq_chain_key c)), (''txHash'', JStr (pq_tx_hash c)),
               (''settlementRef'', JStr (pq_settlement_ref c)), (''accountKey'', JStr (pq_account_key c)), (''rawObservationId'', JStr raw_id),
               (''nativeStatus'', JStr ''OBSERVED'')]) (candidate_key c) (db\<lparr>db_source_requests := db_source_requests db @ [row]\<rparr>)) (\<lambda>(db, _).
           then_do (enqueue sha now jid ''PROOF_WAIT_ATTESTATION''
             (JObj [(''proofRequestId'', JStr rid), (''txHash'', JStr (pq_tx_hash c)), (''chainKey'', JInt (pq_chain_key c)), (''envId'', JStr (pq_env_id c))])
             (job_key ''PROOF_WAIT_ATTESTATION'' rid) 10 None db) (\<lambda>(db, _). Inr (db, Some rid))))))"

section \<open>Storing observations\<close>

record ingestion_config =
  ig_provider_id :: string
  ig_env :: proof_env
  ig_overlap_seconds :: int
  ig_max_window_seconds :: int
  ig_max_age_seconds :: int
  ig_schema_id :: string
  ig_schema_revision :: int

text \<open>The collector with what it calls.\<close>

record ingest_env =
  ie_cfg :: ingestion_config
  ie_adapter :: provider_adapter
  ie_put :: "string \<Rightarrow> string \<Rightarrow> app_error + string"
  ie_dump :: "provider_observation \<Rightarrow> json"
  ie_sha :: hash_fun
  ie_now :: int
  ie_uid :: "nat \<Rightarrow> string"

definition canonical_payload :: "ingest_env \<Rightarrow> provider_observation \<Rightarrow> string" where
  "canonical_payload E obs = json_dumps (ie_dump E obs)"

definition payload_hash_of :: "hash_fun \<Rightarrow> string \<Rightarrow> string" where
  "payload_hash_of sha body = ''0x'' @ hex_of_bytes (sha (str_bytes body))"

definition hash_of_observation :: "ingest_env \<Rightarrow> provider_observation \<Rightarrow> string" where
  "hash_of_observation E obs = payload_hash_of (ie_sha E) (canonical_payload E obs)"

definition raw_key :: "raw_observation \<Rightarrow> string \<times> string \<times> string" where
  "raw_key r = (ob_provider_id r, ob_origin r, ob_payload_hash r)"

definition raw_event_key :: "string \<times> string \<times> string \<Rightarrow> string" where
  "raw_event_key k = (case k of (provider, origin, ph) \<Rightarrow> ''raw:'' @ provider @ '':'' @ origin @ '':'' @ ph)"

definition OBSERVATION_ORIGINS :: "string list" where
  "OBSERVATION_ORIGINS = [''CHAIN'', ''API'', ''WEBHOOK'', ''MANUAL'']"

definition is_blob_ref :: "string \<Rightarrow> bool" where
  "is_blob_ref s \<longleftrightarrow> (\<exists>p \<in> {''secret'', ''vault'', ''doc'', ''blob'', ''s3''}. starts_with (p @ ''://'') s)"

definition store_observation ::
  "ingest_env \<Rightarrow> string \<Rightarrow> provider_observation \<Rightarrow> string \<Rightarrow> string \<Rightarrow> ingest_db \<Rightarrow> app_error + (ingest_db \<times> string \<times> bool)" where
  "store_observation E oid obs origin stream db =
    (let ph = hash_of_observation E obs; provider = ig_provider_id (ie_cfg E)
     in then_do (ie_put E ph (canonical_payload E obs)) (\<lambda>ref.
        (case List.find (\<lambda>r. raw_key r = (provider, origin, ph)) (db_raw db) of
           Some r \<Rightarrow> Inr (db, ob_id r, False)
         | None \<Rightarrow>
             (let row = \<lparr>ob_id = oid, ob_provider_id = provider, ob_origin = origin, ob_payload_hash = ph, ob_trust = TR_ASSERTED,
                ro_schema_id = ig_schema_id (ie_cfg E) @ '':'' @ stream, ro_schema_revision = ig_schema_revision (ie_cfg E), ro_payload_ref = ref,
                ro_observed_at = observed_at obs\<rparr>
              in ensure (is_ulid oid \<and> origin \<in> set OBSERVATION_ORIGINS \<and> is_hex32 ph \<and> is_blob_ref ref \<and> 1 \<le> ig_schema_revision (ie_cfg E)) (IntegrityError ''ck_raw_obs'')
                (ensure (\<not> has_key ob_id (db_raw db) oid) (IntegrityError ''raw_source_observations_pkey'')
                (then_do (emit (ie_now E) ''raw_source_observation'' oid (''OBSERVED_'' @ map upper_char stream)
                   (JObj [(''observationId'', JStr oid), (''payloadHash'', JStr ph), (''origin'', JStr origin), (''stream'', JStr stream), (''trust'', JStr ''ASSERTED''),
                     (''verificationMethod'', JStr ''OFFCHAIN_ASSERTION'')]) (raw_event_key (provider, origin, ph)) (db\<lparr>db_raw := db_raw db @ [row]\<rparr>)) (\<lambda>(db, _).
                 Inr (db, oid, True))))))))"

definition store_candidate :: "ingest_env \<Rightarrow> nat \<Rightarrow> provider_observation \<Rightarrow> string \<Rightarrow> ingest_db \<Rightarrow> app_error + (ingest_db \<times> string option)" where
  "store_candidate E n obs oid db =
    (case obs of
       Revenue _ \<Rightarrow> Inr (db, None)
     | Settlement s \<Rightarrow>
         (case candidate_from_settlement s (ig_env (ie_cfg E)) (ig_provider_id (ie_cfg E)) of
            None \<Rightarrow> Inr (db, None)
          | Some c \<Rightarrow> emit_candidate (ie_sha E) (ie_now E) (ie_uid E (3 * n + 1)) (ie_uid E (3 * n + 2)) c (ig_env (ie_cfg E)) oid db))"

text \<open>The counts are of new rows, duplicates and candidates; \<open>n\<close> numbers the items of the call.\<close>

fun store_page :: "ingest_env \<Rightarrow> nat \<Rightarrow> string \<Rightarrow> provider_observation list \<Rightarrow> ingest_db \<Rightarrow> app_error + (ingest_db \<times> int \<times> int \<times> int)" where
  "store_page E n stream [] db = Inr (db, 0, 0, 0)"
| "store_page E n stream (obs # rest) db =
     then_do (store_observation E (ie_uid E (3 * n)) obs ''API'' stream db) (\<lambda>(db, oid, new).
     if \<not> new
     then then_do (store_page E (Suc n) stream rest db) (\<lambda>(db, s, d, c). Inr (db, s, d + 1, c))
     else then_do (store_candidate E n obs oid db) (\<lambda>(db, made).
          then_do (store_page E (Suc n) stream rest db) (\<lambda>(db, s, d, c). Inr (db, s + 1, d, c + (if made = None then 0 else 1)))))"

section \<open>Raw stores\<close>

text \<open>The two stores of the code: what \<open>put\<close> keeps, and the reference. A file store refuses content that does not hash to its
  name and never overwrites.\<close>

definition blob_ref :: "string \<Rightarrow> string" where
  "blob_ref ph = ''blob://raw/'' @ drop 2 ph"

definition memory_put :: "string \<Rightarrow> string \<Rightarrow> (string, string) dict \<Rightarrow> (string, string) dict \<times> string" where
  "memory_put ph body blobs = ((if map_of blobs ph = None then dict_set ph body blobs else blobs), blob_ref ph)"

definition file_put :: "hash_fun \<Rightarrow> string \<Rightarrow> string \<Rightarrow> (string, string) dict \<Rightarrow> app_error + ((string, string) dict \<times> string)" where
  "file_put sha ph body files =
    ensure (ph = payload_hash_of sha body) (ValueError ''raw content does not match hash'')
    (case map_of files (drop 2 ph) of
       None \<Rightarrow> Inr (dict_set (drop 2 ph) body files, blob_ref ph)
     | Some old \<Rightarrow> ensure (old = body) (ValueError ''raw artifact integrity mismatch'') (Inr (files, blob_ref ph)))"

section \<open>The collector\<close>

definition STREAMS :: "string list" where
  "STREAMS = [''revenue'', ''settlements'']"

record collect_result =
  co_stream :: string
  co_pages :: int
  co_fetched :: int
  co_stored :: int
  co_duplicates :: int
  co_candidates :: int
  co_tokens :: "string option list"
  co_exception :: "string option"

definition stream_name :: "string \<Rightarrow> account_ref \<Rightarrow> string" where
  "stream_name stream account = stream @ '':'' @ account_key account"

definition fetch :: "ingest_env \<Rightarrow> account_ref \<Rightarrow> string \<Rightarrow> window \<Rightarrow> page_cursor option \<Rightarrow> adapter_error + provider_observation page" where
  "fetch E account stream w cursor =
    (if stream = ''revenue'' then ad_fetch_revenue (ie_adapter E) account w cursor else ad_fetch_settlements (ie_adapter E) account w cursor)"

definition gap_detail :: "cursor_state \<Rightarrow> window \<Rightarrow> string \<Rightarrow> json" where
  "gap_detail st w detail = JObj [(''windowStart'', JStr (isoformat (wn_start w))), (''windowEnd'', JStr (isoformat (wn_end w))),
     (''highWater'', iso_opt (cs_high_water st)), (''detail'', JStr detail),
     (''action'', JStr ''cursor NOT advanced; operator must confirm the gap (backfill from provider export or accept)'')]"

definition open_gap_exception :: "ingest_env \<Rightarrow> nat \<Rightarrow> cursor_state \<Rightarrow> window \<Rightarrow> string \<Rightarrow> ingest_db \<Rightarrow> ingest_error + (ingest_db \<times> string)" where
  "open_gap_exception E n st w detail db =
    (let eid = ie_uid E (3 * n)
     in ensure (is_ulid eid \<and> \<not> has_key ex_id (db_gaps db) eid) (Stored (IntegrityError ''exceptions_pkey''))
       (Inr (db\<lparr>db_gaps := db_gaps db @ [\<lparr>ex_id = eid, ex_kind = ''SOURCE_RETENTION_GAP'', ex_severity = ''BLOCKING'', ex_table = ''ingest_cursors'',
          ex_entity = cs_provider_id st @ ''/'' @ cs_stream st, ex_detail = gap_detail st w detail, ex_opened_at = ie_now E, ex_resolved_at = None\<rparr>]\<rparr>, eid)))"

definition next_state :: "cursor_state \<Rightarrow> provider_observation page \<Rightarrow> int \<Rightarrow> cursor_state" where
  "next_state st page w_end = (if pc_has_more (pg_next page) then with_page st (pc_token (pg_next page)) w_end else advanced st w_end)"

text \<open>The transaction of one page.\<close>

definition commit_page ::
  "ingest_env \<Rightarrow> nat \<Rightarrow> string \<Rightarrow> cursor_state \<Rightarrow> provider_observation page \<Rightarrow> int \<Rightarrow> ingest_db \<Rightarrow> ingest_error + (ingest_db \<times> int \<times> int \<times> int)" where
  "commit_page E n stream st page w_end db =
    then_do (load_cursor (cs_provider_id st) (cs_stream st) db) (\<lambda>current.
    ensure (current = Some st) (IngestionCrash ''stream cursor changed concurrently; retry from persisted cursor'')
    (then_do (lift_app (store_page E n stream (pg_items page) db)) (\<lambda>(db, counts). Inr (save_cursor (next_state st page w_end) db, counts))))"

definition count_page :: "provider_observation page \<Rightarrow> int \<times> int \<times> int \<Rightarrow> collect_result \<Rightarrow> collect_result" where
  "count_page page counts res =
    (case counts of (s, d, c) \<Rightarrow> res\<lparr>co_pages := co_pages res + 1, co_fetched := co_fetched res + int (length (pg_items page)), co_stored := co_stored res + s,
       co_duplicates := co_duplicates res + d, co_candidates := co_candidates res + c,
       co_tokens := co_tokens res @ [if pc_has_more (pg_next page) then pc_token (pg_next page) else None]\<rparr>)"

text \<open>The loop over pages; a provider that always has more pages would keep it running, which is the value \<open>None\<close>. Committed
  pages stay when a later one fails.\<close>

partial_function (option) collect_loop ::
  "ingest_env \<Rightarrow> nat \<Rightarrow> account_ref \<Rightarrow> string \<Rightarrow> window \<Rightarrow> cursor_state \<Rightarrow> page_cursor option \<Rightarrow> collect_result \<Rightarrow> ingest_db \<Rightarrow>
   (ingest_db \<times> (ingest_error + collect_result)) option" where
  "collect_loop E n account stream w st cursor res db =
    (case fetch E account stream w cursor of
       Inl (ExpiredData detail) \<Rightarrow>
         Some (case open_gap_exception E n st w detail db of Inl e \<Rightarrow> (db, Inl e) | Inr (db', eid) \<Rightarrow> (db', Inr (res\<lparr>co_exception := Some eid\<rparr>)))
     | Inl e \<Rightarrow> Some (db, Inl (Adapter e))
     | Inr page \<Rightarrow>
         (case commit_page E n stream st page (wn_end w) db of
            Inl e \<Rightarrow> Some (db, Inl e)
          | Inr (db', counts) \<Rightarrow>
              if pc_has_more (pg_next page)
              then collect_loop E (n + length (pg_items page)) account stream w (next_state st page (wn_end w)) (Some (pg_next page)) (count_page page counts res) db'
              else Some (db', Inr (count_page page counts res))))"

text \<open>The constructor accepts only the adapter of the configured provider; \<open>open_exceptions\<close> lists what operators still have to resolve.\<close>

definition new_collector :: "ingest_env \<Rightarrow> ingest_error + ingest_env" where
  "new_collector E = ensure (ai_slug (ad_identity (ie_adapter E)) = ig_provider_id (ie_cfg E)) (CollectValueError ''adapter slug must equal the DB provider id'') (Inr E)"

definition open_exceptions :: "string \<Rightarrow> ingest_db \<Rightarrow> (string \<times> string \<times> json) list" where
  "open_exceptions kind db = map (\<lambda>r. (ex_id r, ex_entity r, ex_detail r))
     (sort_key ex_opened_at (filter (\<lambda>r. ex_kind r = kind \<and> ex_resolved_at r = None) (db_gaps db)))"

definition empty_result :: "string \<Rightarrow> collect_result" where
  "empty_result stream = \<lparr>co_stream = stream, co_pages = 0, co_fetched = 0, co_stored = 0, co_duplicates = 0, co_candidates = 0, co_tokens = [], co_exception = None\<rparr>"

text \<open>Where a run starts: a page in flight is resumed, otherwise the window begins before the high-water mark. \<open>None\<close> is nothing new.\<close>

definition plan_window :: "ingestion_config \<Rightarrow> cursor_state \<Rightarrow> int \<Rightarrow> int \<Rightarrow> bool \<Rightarrow> int option \<Rightarrow> (int \<times> int \<times> page_cursor option) option" where
  "plan_window cfg st hw until backfill window_start =
    (let w_start = (case window_start of None \<Rightarrow> hw | Some s \<Rightarrow> s) - 1000000 * cs_overlap_seconds st
     in case (cs_page_token st, cs_window_end st) of
       (Some token, Some we) \<Rightarrow> Some (w_start, we, Some \<lparr>pc_token = Some token, pc_has_more = True\<rparr>)
     | _ \<Rightarrow>
         (let w_end = (if backfill then until else min until (w_start + 1000000 * ig_max_window_seconds cfg))
          in if w_end \<le> hw \<and> \<not> backfill then None else Some (w_start, w_end, None)))"

definition collect_from ::
  "ingest_env \<Rightarrow> account_ref \<Rightarrow> string \<Rightarrow> cursor_state \<Rightarrow> int \<Rightarrow> bool \<Rightarrow> int option \<Rightarrow> ingest_db \<Rightarrow> (ingest_db \<times> (ingest_error + collect_result)) option" where
  "collect_from E account stream st until backfill window_start db =
    (case cs_high_water st of
       None \<Rightarrow> Some (db, Inl AssertionFailed)
     | Some hw \<Rightarrow>
    (case plan_window (ie_cfg E) st hw until backfill window_start of
       None \<Rightarrow> Some (db, Inr (empty_result (cs_stream st)))
     | Some (w_start, w_end, cursor) \<Rightarrow>
    (case make_window w_start w_end (ig_max_age_seconds (ie_cfg E)) (Some (ie_now E)) of
       Inl e \<Rightarrow> Some (db, Inl (Adapter e))
     | Inr w \<Rightarrow> collect_loop E 0 account stream w st cursor (empty_result (cs_stream st)) db)))"

definition poll ::
  "ingest_env \<Rightarrow> account_ref \<Rightarrow> string \<Rightarrow> int option \<Rightarrow> int option \<Rightarrow> ingest_db \<Rightarrow> (ingest_db \<times> (ingest_error + collect_result)) option" where
  "poll E account stream initial_start until db =
    (if stream \<notin> set STREAMS then Some (db, Inl (CollectValueError (''unknown stream '' @ stream)))
     else (let until = (case until of None \<Rightarrow> ie_now E | Some t \<Rightarrow> min t (ie_now E))
       in case open_cursor (ig_provider_id (ie_cfg E)) (stream_name stream account) initial_start (ig_overlap_seconds (ie_cfg E)) db of
         Inl e \<Rightarrow> Some (db, Inl e)
       | Inr (db', st) \<Rightarrow> collect_from E account stream st until False None db'))"

definition collect_window ::
  "ingest_env \<Rightarrow> account_ref \<Rightarrow> string \<Rightarrow> int \<Rightarrow> int \<Rightarrow> string \<Rightarrow> ingest_db \<Rightarrow> (ingest_db \<times> (ingest_error + collect_result)) option" where
  "collect_window E account stream start stop tag db =
    (case open_cursor (ig_provider_id (ie_cfg E)) (tag @ '':'' @ stream_name stream account) (Some start) 0 db of
       Inl e \<Rightarrow> Some (db, Inl e)
     | Inr (db', st) \<Rightarrow> collect_from E account stream st stop True (Some start) db')"

section \<open>Backfill\<close>

text \<open>The windows of a backfill; a chunk that is not positive would never end.\<close>

partial_function (option) backfill_windows :: "int \<Rightarrow> int \<Rightarrow> int \<Rightarrow> int \<Rightarrow> int \<Rightarrow> (int \<times> int) list option" where
  "backfill_windows start stop chunk overlap cursor =
    (if cursor < stop
     then (let chunk_end = min stop (cursor + 1000000 * chunk); chunk_start = max start (cursor - 1000000 * overlap)
           in Option.bind (backfill_windows start stop chunk overlap chunk_end) (\<lambda>ws. Some ((chunk_start, chunk_end) # ws)))
     else Some [])"

definition backfill_tag :: "int \<times> int \<Rightarrow> string" where
  "backfill_tag w = ''backfill:'' @ str_int (fst w div 1000000) @ ''-'' @ str_int (snd w div 1000000)"

fun collect_windows ::
  "(nat \<Rightarrow> ingest_env) \<Rightarrow> account_ref \<Rightarrow> string \<Rightarrow> (int \<times> int) list \<Rightarrow> ingest_db \<Rightarrow> (ingest_db \<times> (ingest_error + collect_result list)) option" where
  "collect_windows E account stream [] db = Some (db, Inr [])"
| "collect_windows E account stream (w # ws) db =
     (case collect_window (E (length ws)) account stream (fst w) (snd w) (backfill_tag w) db of
        None \<Rightarrow> None
      | Some (db', Inl e) \<Rightarrow> Some (db', Inl e)
      | Some (db', Inr res) \<Rightarrow>
          (case collect_windows E account stream ws db' of
             None \<Rightarrow> None
           | Some (db'', Inl e) \<Rightarrow> Some (db'', Inl e)
           | Some (db'', Inr rest) \<Rightarrow> Some (db'', Inr (res # rest))))"

definition backfill_account ::
  "(nat \<Rightarrow> ingest_env) \<Rightarrow> account_ref \<Rightarrow> string \<Rightarrow> int \<Rightarrow> int \<Rightarrow> int \<Rightarrow> int \<Rightarrow> ingest_db \<Rightarrow> (ingest_db \<times> (ingest_error + collect_result list)) option" where
  "backfill_account E account stream start stop chunk overlap db =
    (if stop \<le> start then Some (db, Inl (CollectValueError ''backfill end must be after start''))
     else if chunk \<le> overlap then Some (db, Inl (CollectValueError ''chunk must be longer than the overlap''))
     else (case backfill_windows start stop chunk overlap start of None \<Rightarrow> None | Some ws \<Rightarrow> collect_windows E account stream ws db))"

definition refetch_corrections ::
  "ingest_env \<Rightarrow> account_ref \<Rightarrow> string \<Rightarrow> int \<Rightarrow> int \<Rightarrow> string \<Rightarrow> ingest_db \<Rightarrow> (ingest_db \<times> (ingest_error + collect_result)) option" where
  "refetch_corrections E account stream around radius suffix db =
    collect_window E account stream (around - 1000000 * radius) (around + 1000000 * radius) (''refetch:'' @ suffix) db"

section \<open>Cursors survive\<close>

definition opt_in_range :: "int option \<Rightarrow> bool" where
  "opt_in_range t = (case t of None \<Rightarrow> True | Some x \<Rightarrow> in_range x)"

definition cursor_in_range :: "cursor_state \<Rightarrow> bool" where
  "cursor_in_range st \<longleftrightarrow> opt_in_range (cs_high_water st) \<and> opt_in_range (cs_window_end st)"

lemma isoformat_nonempty: "isoformat t \<noteq> []"
  by (simp add: isoformat_def Let_def split: prod.splits)

lemma parse_iso_opt: "opt_in_range t \<Longrightarrow> parse_opt (Some (iso_opt t)) = Inr t"
  by (cases t) (simp_all add: parse_opt_def iso_opt_def opt_in_range_def isoformat_nonempty isoformat_parses)

lemma position_round_trip:
  assumes "cursor_in_range st"
  shows "from_row (cs_provider_id st) (cs_stream st) (to_position st) (cs_backfill_from st) = Inr st"
proof -
  have fields: "json_get (to_position st) ''high_water'' = Some (iso_opt (cs_high_water st))" "json_get (to_position st) ''page_token'' = Some (json_opt (cs_page_token st))"
    "json_get (to_position st) ''window_end'' = Some (iso_opt (cs_window_end st))" "json_get (to_position st) ''overlap_seconds'' = Some (JInt (cs_overlap_seconds st))"
    by (simp_all add: to_position_def json_get_def)
  have "token_opt (Some (json_opt (cs_page_token st))) = Inr (cs_page_token st)" by (simp add: token_opt_def json_opt_def split: option.splits)
  with assms show ?thesis unfolding from_row_def fields by (simp add: cursor_in_range_def parse_iso_opt overlap_of_def)
qed

lemma load_saved:
  assumes "load_cursor (cs_provider_id st) (cs_stream st) db = Inr (Some st0)" and "cursor_in_range st"
  shows "load_cursor (cs_provider_id st) (cs_stream st) (save_cursor st db) = Inr (Some st)"
proof -
  obtain r where "List.find (\<lambda>r. cursor_key r = (cs_provider_id st, cs_stream st)) (db_cursors db) = Some r"
    using assms(1) by (auto simp: load_cursor_def split: option.splits)
  then have "List.find (\<lambda>r. cursor_key r = (cs_provider_id st, cs_stream st)) (db_cursors (save_cursor st db)) =
      Some (r\<lparr>ix_position := to_position st, ix_backfill_from := cs_backfill_from st\<rparr>)"
    unfolding save_cursor_def by (simp add: find_update cursor_key_def)
  with position_round_trip [OF assms(2)] show ?thesis by (simp add: load_cursor_def lift_app_def)
qed

lemma load_other:
  assumes "(p, s) \<noteq> (cs_provider_id st, cs_stream st)"
  shows "load_cursor p s (save_cursor st db) = load_cursor p s db"
proof -
  have "List.find (\<lambda>r. cursor_key r = (p, s)) (update_where (\<lambda>r. cursor_key r = (cs_provider_id st, cs_stream st))
      (\<lambda>r. r\<lparr>ix_position := to_position st, ix_backfill_from := cs_backfill_from st\<rparr>) rows) = List.find (\<lambda>r. cursor_key r = (p, s)) rows" for rows
    using assms by (induction rows) (auto simp: update_where_def cursor_key_def)
  then show ?thesis by (simp add: load_cursor_def save_cursor_def)
qed

section \<open>What a page adds\<close>

definition adds :: "ingest_db \<Rightarrow> ingest_db \<Rightarrow> bool" where
  "adds db db' \<longleftrightarrow> (\<exists>rs. db_raw db' = db_raw db @ rs) \<and> (\<exists>qs. db_source_requests db' = db_source_requests db @ qs) \<and>
     db_cursors db' = db_cursors db \<and> db_gaps db' = db_gaps db \<and>
     (\<forall>k. has_key o_key (db_outbox db) k \<longrightarrow> has_key o_key (db_outbox db') k) \<and> (\<forall>k. has_key j_key (db_jobs db) k \<longrightarrow> has_key j_key (db_jobs db') k)"

lemma adds_refl [simp]: "adds db db"
  by (simp add: adds_def)

lemma adds_trans: "adds a b \<Longrightarrow> adds b c \<Longrightarrow> adds a c"
  unfolding adds_def by (metis append.assoc)

text \<open>One event per stored payload; one request, event and waiting job per query.\<close>

definition effects_ok :: "ingest_db \<Rightarrow> bool" where
  "effects_ok db \<longleftrightarrow> unique_on raw_key (db_raw db) \<and> unique_on query_key (db_source_requests db) \<and> unique_on o_key (db_outbox db) \<and> unique_on j_key (db_jobs db) \<and>
     (\<forall>r \<in> set (db_raw db). ob_trust r = TR_ASSERTED \<and> has_key o_key (db_outbox db) (raw_event_key (raw_key r))) \<and>
     (\<forall>q \<in> set (db_source_requests db). has_key j_key (db_jobs db) (job_key ''PROOF_WAIT_ATTESTATION'' (pr_id q)))"

lemma emit_effect:
  assumes "emit now t i ev pay key (db :: ingest_db) = Inr (db', n)"
  shows "db_raw db' = db_raw db \<and> db_source_requests db' = db_source_requests db \<and> db_cursors db' = db_cursors db \<and> db_gaps db' = db_gaps db \<and> db_jobs db' = db_jobs db \<and>
    has_key o_key (db_outbox db') key \<and> (\<forall>k. has_key o_key (db_outbox db) k \<longrightarrow> has_key o_key (db_outbox db') k) \<and>
    (unique_on o_key (db_outbox db) \<longrightarrow> unique_on o_key (db_outbox db'))"
  using assms by (auto simp: emit_def Let_def unique_on_append has_key_def split: if_splits)

lemma enqueue_effect:
  assumes "enqueue sha now jid kind pay key m ra (db :: ingest_db) = Inr (db', n)"
  shows "db_raw db' = db_raw db \<and> db_source_requests db' = db_source_requests db \<and> db_cursors db' = db_cursors db \<and> db_gaps db' = db_gaps db \<and> db_outbox db' = db_outbox db \<and>
    has_key j_key (db_jobs db') key \<and> (\<forall>k. has_key j_key (db_jobs db) k \<longrightarrow> has_key j_key (db_jobs db') k) \<and>
    (unique_on j_key (db_jobs db) \<longrightarrow> unique_on j_key (db_jobs db'))"
proof (cases "List.find (\<lambda>r. j_key r = key) (db_jobs db)")
  case (Some r)
  with assms have "db' = db" by (auto simp: enqueue_def Let_def)
  with find_Some_iff [OF Some] show ?thesis by (auto simp: has_key_def)
next
  case None
  with assms have "db' = db\<lparr>db_jobs := db_jobs db @ [new_job sha now jid kind pay key m ra]\<rparr>" by (auto simp: enqueue_def Let_def)
  with None show ?thesis by (auto simp: unique_on_append has_key_def find_None_iff new_job_def)
qed

lemma store_observation_effect:
  assumes "store_observation E oid obs origin stream db = Inr (db', oid', new)"
  shows "adds db db' \<and> (effects_ok db \<longrightarrow> effects_ok db') \<and> has_key raw_key (db_raw db') (ig_provider_id (ie_cfg E), origin, hash_of_observation E obs) \<and>
    (\<not> new \<longrightarrow> db' = db) \<and> (new \<longrightarrow> \<not> has_key raw_key (db_raw db) (ig_provider_id (ie_cfg E), origin, hash_of_observation E obs))"
proof (cases "List.find (\<lambda>r. raw_key r = (ig_provider_id (ie_cfg E), origin, hash_of_observation E obs)) (db_raw db)")
  case (Some r)
  with assms have "db' = db" "\<not> new" by (auto simp: store_observation_def Let_def then_do_eq_Inr)
  with find_Some_iff [OF Some] show ?thesis by (auto simp: has_key_def)
next
  case None
  let ?k = "(ig_provider_id (ie_cfg E), origin, hash_of_observation E obs)"
  let ?row = "\<lambda>ref. \<lparr>ob_id = oid, ob_provider_id = ig_provider_id (ie_cfg E), ob_origin = origin, ob_payload_hash = hash_of_observation E obs,
    ob_trust = TR_ASSERTED, ro_schema_id = ig_schema_id (ie_cfg E) @ '':'' @ stream, ro_schema_revision = ig_schema_revision (ie_cfg E), ro_payload_ref = ref,
    ro_observed_at = observed_at obs\<rparr>"
  from assms None obtain ref ev pay n where e: "emit (ie_now E) ''raw_source_observation'' oid ev pay (raw_event_key ?k)
      (db\<lparr>db_raw := db_raw db @ [?row ref]\<rparr>) = Inr (db', n)" and "new"
    by (auto simp: store_observation_def Let_def then_do_eq_Inr)
  have row: "raw_key (?row ref) = ?k" "ob_trust (?row ref) = TR_ASSERTED" by (simp_all add: raw_key_def)
  have none: "\<not> has_key raw_key (db_raw db) ?k" using None by (auto simp: has_key_def find_None_iff)
  note ee = emit_effect [OF e]
  have "effects_ok db'" if "effects_ok db" using that ee row none by (auto simp: effects_ok_def unique_on_append)
  moreover have "adds db db'" using ee by (auto simp: adds_def)
  moreover have "has_key raw_key (db_raw db') ?k" using ee row by (auto simp: has_key_def)
  ultimately show ?thesis using none \<open>new\<close> by blast
qed

lemma emit_candidate_effect:
  assumes "emit_candidate sha now rid jid c env raw db = Inr (db', made)"
  shows "adds db db' \<and> (effects_ok db \<longrightarrow> effects_ok db') \<and> db_raw db' = db_raw db"
proof (cases "has_key query_key (db_source_requests db) (query_key (candidate_row now rid c env))")
  case True
  with assms have "db' = db" by (auto simp: emit_candidate_def Let_def)
  then show ?thesis by simp
next
  case False
  let ?db = "db\<lparr>db_source_requests := db_source_requests db @ [candidate_row now rid c env]\<rparr>"
  from assms False obtain t i ev pay n db1 kind pay2 m where e: "emit now t i ev pay (candidate_key c) ?db = Inr (db1, n)"
    and q: "enqueue sha now jid kind pay2 (job_key ''PROOF_WAIT_ATTESTATION'' rid) 10 None db1 = Inr (db', m)"
    by (auto simp: emit_candidate_def Let_def then_do_eq_Inr)
  note ee = emit_effect [OF e] and qe = enqueue_effect [OF q]
  have id: "pr_id (candidate_row now rid c env) = rid" by (simp add: candidate_row_def)
  have "effects_ok db'" if "effects_ok db" using that ee qe False id by (auto simp: effects_ok_def unique_on_append)
  moreover have "adds db db'" using ee qe by (auto simp: adds_def)
  ultimately show ?thesis using ee qe by auto
qed

lemma store_candidate_effect:
  "store_candidate E n obs oid db = Inr (db', made) \<Longrightarrow> adds db db' \<and> (effects_ok db \<longrightarrow> effects_ok db') \<and> db_raw db' = db_raw db"
  by (auto simp: store_candidate_def split: provider_observation.splits option.splits dest: emit_candidate_effect)

lemma adds_has_raw: "adds db db' \<Longrightarrow> has_key raw_key (db_raw db) k \<Longrightarrow> has_key raw_key (db_raw db') k"
  by (auto simp: adds_def has_key_def)

text \<open>Where an item of a page is found after its commit.\<close>

definition stored :: "ingest_env \<Rightarrow> provider_observation \<Rightarrow> ingest_db \<Rightarrow> bool" where
  "stored E obs db = has_key raw_key (db_raw db) (ig_provider_id (ie_cfg E), ''API'', hash_of_observation E obs)"

lemma store_page_effect:
  assumes "store_page E n stream items db = Inr (db', s, d, c)"
  shows "adds db db' \<and> (effects_ok db \<longrightarrow> effects_ok db') \<and> (\<forall>obs \<in> set items. stored E obs db') \<and> s + d = int (length items)"
  using assms
proof (induction items arbitrary: n db db' s d c)
  case (Cons obs rest)
  from Cons.prems obtain db1 oid new where o1: "store_observation E (ie_uid E (3 * n)) obs ''API'' stream db = Inr (db1, oid, new)"
    by (auto simp: then_do_eq_Inr)
  note oe = store_observation_effect [OF o1]
  show ?case
  proof (cases new)
    case False
    with Cons.prems o1 obtain s' d' where r: "store_page E (Suc n) stream rest db1 = Inr (db', s', d', c)" "s = s'" "d = d' + 1"
      by (auto simp: then_do_eq_Inr)
    from Cons.IH [OF r(1)] oe r(2,3) show ?thesis by (auto simp: stored_def intro: adds_trans adds_has_raw)
  next
    case True
    with Cons.prems o1 obtain db2 made s' c' where cnd: "store_candidate E n obs oid db1 = Inr (db2, made)"
      and r: "store_page E (Suc n) stream rest db2 = Inr (db', s', d, c')" "s = s' + 1"
      by (auto simp: then_do_eq_Inr)
    note ce = store_candidate_effect [OF cnd]
    from Cons.IH [OF r(1)] oe ce r(2) show ?thesis by (auto simp: stored_def intro: adds_trans adds_has_raw)
  qed
qed simp

section \<open>Storing a page succeeds\<close>

text \<open>What the collector relies on: the raw store answers with a reference, SHA-256 gives 32 bytes, the identifiers of \<open>k\<close> items are
  different ULIDs, the configuration names a valid schema revision and proof environment.\<close>

definition env_ok :: "ingest_env \<Rightarrow> nat \<Rightarrow> bool" where
  "env_ok E k \<longleftrightarrow> inj_on (ie_uid E) {..<3 * k} \<and> (\<forall>m < 3 * k. is_ulid (ie_uid E m)) \<and> (\<forall>ph body. \<exists>ref. ie_put E ph body = Inr ref \<and> is_blob_ref ref) \<and>
     (\<forall>obs. is_hex32 (hash_of_observation E obs)) \<and> 1 \<le> ig_schema_revision (ie_cfg E) \<and> 0 < pe_chain_key (ig_env (ie_cfg E)) \<and>
     is_manifest_hash (pe_manifest_hash (ig_env (ie_cfg E)))"

definition used_ids :: "ingest_db \<Rightarrow> string set" where
  "used_ids db = ob_id ` set (db_raw db) \<union> pr_id ` set (db_source_requests db) \<union> j_job_id ` set (db_jobs db)"

definition fresh_from :: "ingest_env \<Rightarrow> nat \<Rightarrow> nat \<Rightarrow> ingest_db \<Rightarrow> bool" where
  "fresh_from E k n db \<longleftrightarrow> (\<forall>m. 3 * n \<le> m \<and> m < 3 * k \<longrightarrow> ie_uid E m \<notin> used_ids db)"

text \<open>A settlement whose transaction reference gives a candidate gives a well-formed hash.\<close>

definition clean_reference :: "ingest_env \<Rightarrow> provider_observation \<Rightarrow> bool" where
  "clean_reference E obs = (case obs of
     Revenue _ \<Rightarrow> True
   | Settlement s \<Rightarrow> (\<forall>c. candidate_from_settlement s (ig_env (ie_cfg E)) (ig_provider_id (ie_cfg E)) = Some c \<longrightarrow> is_hex32 (pq_tx_hash c)))"

lemma unused_id:
  "i \<notin> used_ids db \<Longrightarrow> \<not> has_key ob_id (db_raw db) i" "i \<notin> used_ids db \<Longrightarrow> \<not> has_key pr_id (db_source_requests db) i"
  "i \<notin> used_ids db \<Longrightarrow> \<not> has_key j_job_id (db_jobs db) i"
  by (auto simp: used_ids_def has_key_def)

lemma emit_total: "key \<noteq> [] \<Longrightarrow> \<exists>db' n. emit now t i ev pay key (db :: ingest_db) = Inr (db', n)"
  by (simp add: emit_def Let_def)

lemma enqueue_total:
  assumes "key \<noteq> []" and "\<not> has_key j_job_id (db_jobs db) jid"
  shows "\<exists>db' i. enqueue sha now jid kind pay key 10 None (db :: ingest_db) = Inr (db', i) \<and> used_ids db' \<subseteq> insert jid (used_ids db)"
proof (cases "List.find (\<lambda>r. j_key r = key) (db_jobs db)")
  case None
  with assms have "enqueue sha now jid kind pay key 10 None db = Inr (db\<lparr>db_jobs := db_jobs db @ [new_job sha now jid kind pay key 10 None]\<rparr>, jid)"
    by (simp add: enqueue_def Let_def job_checks_def new_job_def)
  then show ?thesis by (auto simp: used_ids_def new_job_def)
next
  case (Some r)
  with assms have "enqueue sha now jid kind pay key 10 None db = Inr (db, j_job_id r)" by (simp add: enqueue_def Let_def job_checks_def new_job_def)
  then show ?thesis by auto
qed

lemma emit_ids: "emit now t i ev pay key (db :: ingest_db) = Inr (db', n) \<Longrightarrow> used_ids db' = used_ids db"
  using emit_effect [of now t i ev pay key db db' n] by (simp add: used_ids_def)

lemma store_observation_total:
  assumes "env_ok E k" and "oid \<notin> used_ids db" and "is_ulid oid" and "origin \<in> set OBSERVATION_ORIGINS"
  shows "\<exists>db' oid' new. store_observation E oid obs origin stream db = Inr (db', oid', new) \<and> used_ids db' \<subseteq> insert oid (used_ids db)"
proof -
  let ?k = "(ig_provider_id (ie_cfg E), origin, hash_of_observation E obs)"
  obtain ref where ref: "ie_put E (hash_of_observation E obs) (canonical_payload E obs) = Inr ref" "is_blob_ref ref" using assms(1) unfolding env_ok_def by blast
  have ph: "is_hex32 (hash_of_observation E obs)" "1 \<le> ig_schema_revision (ie_cfg E)" using assms(1) by (simp_all add: env_ok_def)
  show ?thesis
  proof (cases "List.find (\<lambda>r. raw_key r = ?k) (db_raw db)")
    case None
    let ?row = "\<lparr>ob_id = oid, ob_provider_id = ig_provider_id (ie_cfg E), ob_origin = origin, ob_payload_hash = hash_of_observation E obs,
      ob_trust = TR_ASSERTED, ro_schema_id = ig_schema_id (ie_cfg E) @ '':'' @ stream, ro_schema_revision = ig_schema_revision (ie_cfg E), ro_payload_ref = ref,
      ro_observed_at = observed_at obs\<rparr>"
    let ?db = "db\<lparr>db_raw := db_raw db @ [?row]\<rparr>"
    let ?pay = "JObj [(''observationId'', JStr oid), (''payloadHash'', JStr (hash_of_observation E obs)), (''origin'', JStr origin), (''stream'', JStr stream),
      (''trust'', JStr ''ASSERTED''), (''verificationMethod'', JStr ''OFFCHAIN_ASSERTION'')]"
    have "raw_event_key ?k \<noteq> []" by (simp add: raw_event_key_def)
    from emit_total [OF this] obtain db' n
      where e: "emit (ie_now E) ''raw_source_observation'' oid (''OBSERVED_'' @ map upper_char stream) ?pay (raw_event_key ?k) ?db = Inr (db', n)" by blast
    have "store_observation E oid obs origin stream db = Inr (db', oid, True)"
      using None ref ph assms(3,4) unused_id(1) [OF assms(2)] e by (simp add: store_observation_def)
    moreover have "used_ids ?db \<subseteq> insert oid (used_ids db)" by (auto simp: used_ids_def)
    ultimately show ?thesis using emit_ids [OF e] by auto
  next
    case (Some r)
    with ref have "store_observation E oid obs origin stream db = Inr (db, ob_id r, False)" by (simp add: store_observation_def)
    then show ?thesis by blast
  qed
qed

lemma candidate_chain: "candidate_from_settlement s env p = Some c \<Longrightarrow> pq_chain_key c = pe_chain_key env"
  by (auto simp: candidate_from_settlement_def split: option.splits if_splits)

lemma emit_candidate_total:
  assumes "source_request_checks (candidate_row now rid c env)" and "rid \<notin> used_ids db" and "jid \<notin> used_ids db"
  shows "\<exists>db' made. emit_candidate sha now rid jid c env raw db = Inr (db', made) \<and> used_ids db' \<subseteq> insert rid (insert jid (used_ids db))"
proof (cases "has_key query_key (db_source_requests db) (query_key (candidate_row now rid c env))")
  case False
  let ?db = "db\<lparr>db_source_requests := db_source_requests db @ [candidate_row now rid c env]\<rparr>"
  let ?pay = "JObj [(''proofRequestId'', JStr rid), (''envId'', JStr (pq_env_id c)), (''chainKey'', JInt (pq_chain_key c)), (''txHash'', JStr (pq_tx_hash c)),
    (''settlementRef'', JStr (pq_settlement_ref c)), (''accountKey'', JStr (pq_account_key c)), (''rawObservationId'', JStr raw), (''nativeStatus'', JStr ''OBSERVED'')]"
  have "candidate_key c \<noteq> []" by (simp add: candidate_key_def)
  from emit_total [OF this] obtain db1 n where e: "emit now ''proof_request'' rid ''PROOF_CANDIDATE_OBSERVED'' ?pay (candidate_key c) ?db = Inr (db1, n)" by blast
  have ids: "used_ids db1 \<subseteq> insert rid (used_ids db)" unfolding emit_ids [OF e] by (auto simp: used_ids_def candidate_row_def)
  have "db_jobs db1 = db_jobs db" using emit_effect [OF e] by simp
  then have "\<not> has_key j_job_id (db_jobs db1) jid" using unused_id(3) [OF assms(3)] by simp
  moreover have "job_key ''PROOF_WAIT_ATTESTATION'' rid \<noteq> []" by (simp add: job_key_def)
  ultimately obtain db' i
    where q: "enqueue sha now jid ''PROOF_WAIT_ATTESTATION'' (JObj [(''proofRequestId'', JStr rid), (''txHash'', JStr (pq_tx_hash c)), (''chainKey'', JInt (pq_chain_key c)),
      (''envId'', JStr (pq_env_id c))]) (job_key ''PROOF_WAIT_ATTESTATION'' rid) 10 None db1 = Inr (db', i)" "used_ids db' \<subseteq> insert jid (used_ids db1)"
    using enqueue_total by blast
  have "emit_candidate sha now rid jid c env raw db = Inr (db', Some rid)"
    using assms(1) False unused_id(2) [OF assms(2)] e q(1) by (simp add: emit_candidate_def)
  with q(2) ids show ?thesis by blast
qed (use assms(1) in \<open>auto simp: emit_candidate_def\<close>)

lemma store_candidate_total:
  assumes "env_ok E k" and "n < k" and "clean_reference E obs" and "ie_uid E (3 * n + 1) \<notin> used_ids db" and "ie_uid E (3 * n + 2) \<notin> used_ids db"
  shows "\<exists>db' made. store_candidate E n obs oid db = Inr (db', made) \<and> used_ids db' \<subseteq> {ie_uid E (3 * n + 1), ie_uid E (3 * n + 2)} \<union> used_ids db"
proof (cases "\<exists>s c. obs = Settlement s \<and> candidate_from_settlement s (ig_env (ie_cfg E)) (ig_provider_id (ie_cfg E)) = Some c")
  case True
  then obtain s c where c: "obs = Settlement s" "candidate_from_settlement s (ig_env (ie_cfg E)) (ig_provider_id (ie_cfg E)) = Some c" by blast
  have "source_request_checks (candidate_row (ie_now E) (ie_uid E (3 * n + 1)) c (ig_env (ie_cfg E)))"
    using assms(1-3) c candidate_chain [OF c(2)] by (simp add: source_request_checks_def candidate_row_def env_ok_def clean_reference_def)
  from emit_candidate_total [OF this assms(4,5)] c show ?thesis by (simp add: store_candidate_def)
next
  case False
  then have "store_candidate E n obs oid db = Inr (db, None)" by (auto simp: store_candidate_def split: provider_observation.splits option.splits)
  then show ?thesis by auto
qed

lemma store_page_total:
  assumes "env_ok E k" and "fresh_from E k n db" and "\<forall>obs \<in> set items. clean_reference E obs" and "n + length items \<le> k"
  shows "\<exists>db' counts. store_page E n stream items db = Inr (db', counts) \<and> fresh_from E k (n + length items) db'"
  using assms(2-)
proof (induction items arbitrary: n db)
  case (Cons obs rest)
  let ?u = "\<lambda>i. ie_uid E (3 * n + i)"
  have n: "n < k" using Cons.prems(3) by simp
  have uid: "is_ulid (ie_uid E m)" "j < 3 * k \<Longrightarrow> ie_uid E m = ie_uid E j \<longleftrightarrow> m = j" if "m < 3 * k" for m j
    using that assms(1) by (auto simp: env_ok_def inj_on_eq_iff)
  have fr: "ie_uid E m \<notin> used_ids db" if "3 * n \<le> m" "m < 3 * k" for m using that Cons.prems(1) by (simp add: fresh_from_def)
  obtain db1 oid new where o1: "store_observation E (?u 0) obs ''API'' stream db = Inr (db1, oid, new)" "used_ids db1 \<subseteq> insert (?u 0) (used_ids db)"
    using store_observation_total [OF assms(1) fr [of "3 * n"] uid(1), of "''API''" obs stream] n by (auto simp: OBSERVATION_ORIGINS_def)
  have f1: "ie_uid E m \<notin> used_ids db1" if "3 * n < m" "m < 3 * k" for m
  proof -
    have "ie_uid E m \<noteq> ?u 0" using that uid(2) [of m "3 * n + 0"] n by simp
    with o1(2) fr [of m] that show ?thesis by auto
  qed
  have onward: "\<exists>db' counts. store_page E (Suc n) stream rest db2 = Inr (db', counts) \<and> fresh_from E k (n + length (obs # rest)) db'"
    if "used_ids db2 \<subseteq> {?u 1, ?u 2} \<union> used_ids db1" for db2
  proof -
    have "ie_uid E m \<notin> used_ids db2" if m: "3 * Suc n \<le> m" "m < 3 * k" for m
    proof -
      have "ie_uid E m \<noteq> ?u 1" "ie_uid E m \<noteq> ?u 2" using m n uid(2) [of m "3 * n + 1"] uid(2) [of m "3 * n + 2"] by simp_all
      with \<open>used_ids db2 \<subseteq> _\<close> f1 [of m] m show ?thesis by auto
    qed
    then have "fresh_from E k (Suc n) db2" by (simp add: fresh_from_def)
    from Cons.IH [OF this] Cons.prems(2,3) show ?thesis by auto
  qed
  show ?case
  proof (cases new)
    case False
    from onward [of db1] o1(1) False show ?thesis by (auto simp: then_do_eq_Inr)
  next
    case True
    have "clean_reference E obs" using Cons.prems(2) by simp
    from store_candidate_total [OF assms(1) n this, of db1 oid] f1 [of "3 * n + 1"] f1 [of "3 * n + 2"] n obtain db2 made
      where c: "store_candidate E n obs oid db1 = Inr (db2, made)" "used_ids db2 \<subseteq> {?u 1, ?u 2} \<union> used_ids db1" by auto
    from onward [OF c(2)] o1(1) c(1) True show ?thesis by (auto simp: then_do_eq_Inr)
  qed
qed (auto simp: fresh_from_def)

section \<open>A window is collected completely\<close>

definition page_items :: "provider_observation page list \<Rightarrow> nat" where
  "page_items pages = sum_list (map (\<lambda>p. length (pg_items p)) pages)"

text \<open>The pages a provider serves from a cursor, when there is a last one.\<close>

inductive served :: "(page_cursor option \<Rightarrow> adapter_error + provider_observation page) \<Rightarrow> page_cursor option \<Rightarrow> provider_observation page list \<Rightarrow> bool" for f where
  served_last: "f c = Inr page \<Longrightarrow> \<not> pc_has_more (pg_next page) \<Longrightarrow> served f c [page]"
| served_more: "f c = Inr page \<Longrightarrow> pc_has_more (pg_next page) \<Longrightarrow> served f (Some (pg_next page)) pages \<Longrightarrow> served f c (page # pages)"

lemma next_state_fields [simp]:
  "cs_provider_id (next_state st page e) = cs_provider_id st" "cs_stream (next_state st page e) = cs_stream st"
  by (simp_all add: next_state_def with_page_def advanced_def)

lemma next_state_range: "cursor_in_range st \<Longrightarrow> in_range e \<Longrightarrow> cursor_in_range (next_state st page e)"
  by (simp add: next_state_def with_page_def advanced_def cursor_in_range_def opt_in_range_def)

lemma next_state_advanced: "pc_has_more (pg_next page) \<Longrightarrow> advanced (next_state st page e) e = advanced st e"
  by (simp add: next_state_def with_page_def advanced_def)

lemma load_adds: "adds db db' \<Longrightarrow> load_cursor p s db' = load_cursor p s db"
  by (simp add: adds_def load_cursor_def)

lemma save_fields [simp]:
  "db_raw (save_cursor st db) = db_raw db" "db_source_requests (save_cursor st db) = db_source_requests db" "db_outbox (save_cursor st db) = db_outbox db"
  "db_jobs (save_cursor st db) = db_jobs db" "db_gaps (save_cursor st db) = db_gaps db"
  by (simp_all add: save_cursor_def)

lemma commit_page_total:
  assumes "env_ok E k" and "fresh_from E k n db" and "\<forall>obs \<in> set (pg_items page). clean_reference E obs" and "n + length (pg_items page) \<le> k"
    and "load_cursor (cs_provider_id st) (cs_stream st) db = Inr (Some st)" and "cursor_in_range st" and "in_range e"
  shows "\<exists>db' counts. commit_page E n stream st page e db = Inr (db', counts) \<and> fresh_from E k (n + length (pg_items page)) db' \<and>
    load_cursor (cs_provider_id st) (cs_stream st) db' = Inr (Some (next_state st page e)) \<and>
    (\<forall>obs \<in> set (pg_items page). stored E obs db') \<and> (\<forall>k. has_key raw_key (db_raw db) k \<longrightarrow> has_key raw_key (db_raw db') k)"
proof -
  obtain db1 s d c where p: "store_page E n stream (pg_items page) db = Inr (db1, s, d, c)" and f: "fresh_from E k (n + length (pg_items page)) db1"
    using store_page_total [OF assms(1-4), of stream] by auto
  note eff = store_page_effect [OF p]
  let ?db = "save_cursor (next_state st page e) db1"
  have "commit_page E n stream st page e db = Inr (?db, s, d, c)" using assms(5) p by (simp add: commit_page_def lift_app_def)
  moreover have "load_cursor (cs_provider_id st) (cs_stream st) ?db = Inr (Some (next_state st page e))"
    using load_saved [of "next_state st page e" db1 st] next_state_range [OF assms(6,7), of page] load_adds [of db db1] eff assms(5) by simp
  moreover have "fresh_from E k (n + length (pg_items page)) ?db" using f by (simp add: fresh_from_def used_ids_def)
  ultimately show ?thesis using eff by (auto simp: stored_def intro: adds_has_raw)
qed

lemma collect_loop_completes:
  assumes "served (fetch E account stream w) cursor pages" and "env_ok E k" and "fresh_from E k n db"
    and "\<forall>page \<in> set pages. \<forall>obs \<in> set (pg_items page). clean_reference E obs" and "n + page_items pages \<le> k"
    and "load_cursor (cs_provider_id st) (cs_stream st) db = Inr (Some st)" and "cursor_in_range st" and "in_range (wn_end w)"
  shows "\<exists>db' res'. collect_loop E n account stream w st cursor res db = Some (db', Inr res') \<and> co_pages res' = co_pages res + int (length pages) \<and>
    load_cursor (cs_provider_id st) (cs_stream st) db' = Inr (Some (advanced st (wn_end w))) \<and>
    (\<forall>page \<in> set pages. \<forall>obs \<in> set (pg_items page). stored E obs db') \<and> (\<forall>k. has_key raw_key (db_raw db) k \<longrightarrow> has_key raw_key (db_raw db') k)"
  using assms
proof (induction arbitrary: n st res db rule: served.induct)
  case (served_last c page)
  from commit_page_total [OF served_last(3,4) _ _ served_last(7-9), of page stream] served_last(5,6) obtain db' counts
    where "commit_page E n stream st page (wn_end w) db = Inr (db', counts)"
      and "load_cursor (cs_provider_id st) (cs_stream st) db' = Inr (Some (next_state st page (wn_end w)))"
      and "\<forall>obs \<in> set (pg_items page). stored E obs db'" "\<forall>k. has_key raw_key (db_raw db) k \<longrightarrow> has_key raw_key (db_raw db') k" by (auto simp: page_items_def)
  with served_last(1,2) show ?case by (subst collect_loop.simps) (simp add: next_state_def count_page_def split: prod.splits)
next
  case (served_more c page pages)
  let ?st = "next_state st page (wn_end w)"
  from commit_page_total [OF served_more(5,6) _ _ served_more(9-11), of page stream] served_more(7,8) obtain db1 counts
    where c: "commit_page E n stream st page (wn_end w) db = Inr (db1, counts)"
      and f: "fresh_from E k (n + length (pg_items page)) db1" and l: "load_cursor (cs_provider_id st) (cs_stream st) db1 = Inr (Some ?st)"
      and s: "\<forall>obs \<in> set (pg_items page). stored E obs db1" "\<forall>k. has_key raw_key (db_raw db) k \<longrightarrow> has_key raw_key (db_raw db1) k" by (auto simp: page_items_def)
  have "\<forall>p \<in> set pages. \<forall>obs \<in> set (pg_items p). clean_reference E obs" "n + length (pg_items page) + page_items pages \<le> k"
    using served_more(7,8) by (simp_all add: page_items_def)
  from served_more(4) [OF served_more(5) f this, of ?st "count_page page counts res"] l next_state_range [OF served_more(10,11)] served_more(11) obtain db' res'
    where "collect_loop E (n + length (pg_items page)) account stream w ?st (Some (pg_next page)) (count_page page counts res) db1 = Some (db', Inr res')"
      and "co_pages res' = co_pages (count_page page counts res) + int (length pages)"
      and "load_cursor (cs_provider_id st) (cs_stream st) db' = Inr (Some (advanced ?st (wn_end w)))"
      and "\<forall>p \<in> set pages. \<forall>obs \<in> set (pg_items p). stored E obs db'" "\<forall>k. has_key raw_key (db_raw db1) k \<longrightarrow> has_key raw_key (db_raw db') k" by auto
  with served_more(1,2) c s show ?case
    by (subst collect_loop.simps) (auto simp: next_state_advanced count_page_def stored_def split: prod.splits)
qed


section \<open>Backfills cover\<close>

definition chained :: "int \<Rightarrow> int \<Rightarrow> (int \<times> int) list \<Rightarrow> bool" where
  "chained start overlap ws \<longleftrightarrow> (\<forall>i. Suc i < length ws \<longrightarrow> fst (ws ! Suc i) = max start (snd (ws ! i) - 1000000 * overlap))"

lemma chained_Cons:
  "chained start overlap (w # ws) \<longleftrightarrow> chained start overlap ws \<and> (ws = [] \<or> fst (hd ws) = max start (snd w - 1000000 * overlap))"
proof -
  have split: "(\<forall>i. P i) \<longleftrightarrow> P 0 \<and> (\<forall>i. P (Suc i))" for P :: "nat \<Rightarrow> bool" by (metis nat.exhaust)
  show ?thesis unfolding chained_def by (subst split) (cases ws; auto)
qed

lemma backfill_windows_total:
  assumes "0 < chunk" and "0 \<le> overlap" and "start \<le> cursor" and "cursor \<le> stop"
  shows "\<exists>ws. backfill_windows start stop chunk overlap cursor = Some ws \<and> (\<forall>t. cursor \<le> t \<and> t \<le> stop \<and> cursor < stop \<longrightarrow> (\<exists>(x, y) \<in> set ws. x \<le> t \<and> t \<le> y)) \<and>
    (\<forall>(x, y) \<in> set ws. start \<le> x \<and> x < y \<and> y \<le> stop) \<and> chained start overlap ws \<and> (cursor < stop \<longrightarrow> ws \<noteq> []) \<and>
    (ws \<noteq> [] \<longrightarrow> fst (hd ws) = max start (cursor - 1000000 * overlap))"
  using assms(3,4)
proof (induction cursor rule: measure_induct_rule [where f = "\<lambda>c. nat (stop - c)"])
  case (less cursor)
  show ?case
  proof (cases "cursor < stop")
    case False
    then show ?thesis by (subst backfill_windows.simps) (simp add: chained_def)
  next
    case True
    let ?e = "min stop (cursor + 1000000 * chunk)" and ?s = "max start (cursor - 1000000 * overlap)"
    have e: "cursor < ?e" "?e \<le> stop" "nat (stop - ?e) < nat (stop - cursor)" using True assms(1) by auto
    from less.IH [OF e(3)] e less.prems obtain ws where ws: "backfill_windows start stop chunk overlap ?e = Some ws"
        "\<forall>t. ?e \<le> t \<and> t \<le> stop \<and> ?e < stop \<longrightarrow> (\<exists>(x, y) \<in> set ws. x \<le> t \<and> t \<le> y)" "\<forall>(x, y) \<in> set ws. start \<le> x \<and> x < y \<and> y \<le> stop"
        "chained start overlap ws" "ws \<noteq> [] \<longrightarrow> fst (hd ws) = max start (?e - 1000000 * overlap)"
      by auto
    have "backfill_windows start stop chunk overlap cursor = Some ((?s, ?e) # ws)" using True ws(1) by (subst backfill_windows.simps) simp
    moreover have "\<exists>(x, y) \<in> set ((?s, ?e) # ws). x \<le> t \<and> t \<le> y" if t: "cursor \<le> t" "t \<le> stop" for t
    proof (cases "t \<le> ?e")
      case True
      have "?s \<le> t" using t(1) less.prems assms(2) by auto
      with True show ?thesis by auto
    next
      case False
      with ws(2) t(2) e(2) show ?thesis by auto
    qed
    moreover have "start \<le> ?s \<and> ?s < ?e \<and> ?e \<le> stop" using e less.prems assms(2) by auto
    moreover have "chained start overlap ((?s, ?e) # ws)" using ws(4,5) by (auto simp: chained_Cons)
    ultimately show ?thesis using ws(3) by auto
  qed
qed

text \<open>A backfill covers its range. For a range that is not empty and a chunk longer than the overlap, the loop over chunks ends
  and the windows it collects, in order, lie within the range, cover every instant of it, and each
  starts the overlap before the end of the one before, or at the start of the range.\<close>

theorem backfill_covers:
  assumes "start < stop" and "overlap < chunk" and "0 \<le> overlap"
  shows "\<exists>ws. backfill_account E account stream start stop chunk overlap db = collect_windows E account stream ws db \<and>
    (\<forall>t. start \<le> t \<and> t \<le> stop \<longrightarrow> (\<exists>(x, y) \<in> set ws. x \<le> t \<and> t \<le> y)) \<and> (\<forall>(x, y) \<in> set ws. start \<le> x \<and> x < y \<and> y \<le> stop) \<and>
    (\<forall>i. Suc i < length ws \<longrightarrow> fst (ws ! Suc i) = max start (snd (ws ! i) - 1000000 * overlap))"
proof -
  obtain ws where "backfill_windows start stop chunk overlap start = Some ws" "\<forall>t. start \<le> t \<and> t \<le> stop \<longrightarrow> (\<exists>(x, y) \<in> set ws. x \<le> t \<and> t \<le> y)"
      "\<forall>(x, y) \<in> set ws. start \<le> x \<and> x < y \<and> y \<le> stop" "chained start overlap ws"
    using backfill_windows_total [of chunk overlap start start stop] assms by auto
  with assms show ?thesis by (intro exI [of _ ws]) (simp add: backfill_account_def chained_def)
qed

section \<open>Effects happen once\<close>

text \<open>The steps of collectors, webhooks and other services. A collector commits whatever page it fetched, from whatever cursor it
  believes in; a raise leaves the tables as they were. Another service may append events and jobs and move requests along.\<close>

definition others_keep :: "ingest_db \<Rightarrow> ingest_db \<Rightarrow> bool" where
  "others_keep db db' \<longleftrightarrow> db_raw db' = db_raw db \<and> db_cursors db' = db_cursors db \<and> map pr_id (db_source_requests db') = map pr_id (db_source_requests db) \<and>
     map query_key (db_source_requests db') = map query_key (db_source_requests db) \<and> unique_on o_key (db_outbox db') \<and> unique_on j_key (db_jobs db') \<and>
     (\<forall>k. has_key o_key (db_outbox db) k \<longrightarrow> has_key o_key (db_outbox db') k) \<and> (\<forall>k. has_key j_key (db_jobs db) k \<longrightarrow> has_key j_key (db_jobs db') k)"

inductive ingest_step :: "ingest_db \<Rightarrow> ingest_db \<Rightarrow> bool" where
  cursor_opened: "open_cursor p s start overlap db = Inr (db', st) \<Longrightarrow> ingest_step db db'"
| page_committed: "commit_page E n stream st page e db = Inr (db', counts) \<Longrightarrow> ingest_step db db'"
| gap_opened: "open_gap_exception E n st w detail db = Inr (db', eid) \<Longrightarrow> ingest_step db db'"
| webhook_stored: "store_observation E oid obs ''WEBHOOK'' stream db = Inr (db1, oid', new) \<Longrightarrow>
    (if new then store_candidate E n obs oid' db1 else Inr (db1, None)) = Inr (db', made) \<Longrightarrow> ingest_step db db'"
| other_ingest: "others_keep db db' \<Longrightarrow> ingest_step db db'"

definition ingest_start :: "ingest_db \<Rightarrow> bool" where
  "ingest_start db \<longleftrightarrow> db_raw db = [] \<and> db_source_requests db = [] \<and> unique_on o_key (db_outbox db) \<and> unique_on j_key (db_jobs db)"

lemma ingest_step_ok: "ingest_step db db' \<Longrightarrow> effects_ok db \<Longrightarrow> effects_ok db'"
proof (induction rule: ingest_step.induct)
  case (cursor_opened p s start overlap db db' st)
  then show ?case by (auto simp: open_cursor_def then_do_eq_Inr Let_def effects_ok_def split: option.splits)
next
  case (page_committed E n stream st page e db db' counts)
  then obtain db1 s d c where p: "store_page E n stream (pg_items page) db = Inr (db1, s, d, c)" and d: "db' = save_cursor (next_state st page e) db1"
    by (auto simp: commit_page_def then_do_eq_Inr lift_app_def split: sum.splits)
  from store_page_effect [OF p] page_committed(2) show ?case by (simp add: d effects_ok_def)
next
  case (gap_opened E n st w detail db db' eid)
  then show ?case by (auto simp: open_gap_exception_def Let_def effects_ok_def)
next
  case (webhook_stored E oid obs stream db db1 oid' new n db' made)
  then show ?case using store_observation_effect [OF webhook_stored(1)] by (auto split: if_splits dest: store_candidate_effect)
next
  case (other_ingest db db')
  note k = other_ingest(1) [unfolded others_keep_def]
  have "pr_id ` set (db_source_requests db') = pr_id ` set (db_source_requests db)" using k by (metis set_map)
  then have "\<exists>r \<in> set (db_source_requests db). pr_id r = pr_id q" if "q \<in> set (db_source_requests db')" for q using that by (metis image_iff)
  then have "has_key j_key (db_jobs db') (job_key ''PROOF_WAIT_ATTESTATION'' (pr_id q))" if "q \<in> set (db_source_requests db')" for q
    using that other_ingest(2) k unfolding effects_ok_def by metis
  with k other_ingest(2) show ?case by (simp add: effects_ok_def unique_on_def)
qed

interpretation ingestion: inv_machine ingest_start ingest_step effects_ok
  by unfold_locales (simp add: ingest_start_def effects_ok_def unique_on_def, rule ingest_step_ok)

text \<open>C20: ingestion has each effect once. However polls, backfills, webhook deliveries, crashes, retries and other services
  interleave, a payload of a provider and origin is stored at most once and asserted only, with exactly one event in the outbox;
  a source transaction has at most one proof request, and that request has exactly one waiting job.\<close>

theorem ingestion_effects_once:
  assumes "ingest_start db0" and "ingest_step\<^sup>*\<^sup>* db0 db"
  shows "unique_on raw_key (db_raw db) \<and> unique_on query_key (db_source_requests db) \<and> unique_on o_key (db_outbox db) \<and> unique_on j_key (db_jobs db) \<and>
    (\<forall>r \<in> set (db_raw db). ob_trust r = TR_ASSERTED \<and> has_key o_key (db_outbox db) (raw_event_key (raw_key r))) \<and>
    (\<forall>q \<in> set (db_source_requests db). has_key j_key (db_jobs db) (job_key ''PROOF_WAIT_ATTESTATION'' (pr_id q)))"
  using ingestion.reachable_inv [OF assms] by (simp add: effects_ok_def)

text \<open>A page stored before changes nothing: no row, event, request or job.\<close>

lemma stored_page_changes_nothing:
  assumes "\<forall>obs \<in> set items. stored E obs db" and "\<forall>ph body. \<exists>ref. ie_put E ph body = Inr ref"
  shows "store_page E n stream items db = Inr (db, 0, int (length items), 0)"
  using assms(1)
proof (induction items arbitrary: n)
  case (Cons obs rest)
  let ?k = "(ig_provider_id (ie_cfg E), ''API'', hash_of_observation E obs)"
  obtain ref where ref: "ie_put E (hash_of_observation E obs) (canonical_payload E obs) = Inr ref" using assms(2) by blast
  obtain r where "List.find (\<lambda>r. raw_key r = ?k) (db_raw db) = Some r"
    using Cons.prems by (cases "List.find (\<lambda>r. raw_key r = ?k) (db_raw db)") (auto simp: stored_def has_key_def find_None_iff)
  with ref have "store_observation E (ie_uid E (3 * n)) obs ''API'' stream db = Inr (db, ob_id r, False)" by (simp add: store_observation_def)
  with Cons show ?case by simp
qed simp

text \<open>A transaction reference with a trailing newline passes the pattern of \<open>candidate_from_settlement\<close> and then violates the
  column's constraint: the page that carries it cannot be committed, now or on any retry.\<close>

lemma newline_reference_blocks_page:
  assumes "sx_tx_ref s = Some (h @ [CHR 0x0A])" and "is_hex32 h" and "sx_status s = ''PAID''"
    and "as_chain_id (m_asset (sx_amount s)) = pe_source_chain_id (ig_env (ie_cfg E))"
  shows "\<not> clean_reference E (Settlement s) \<and> (\<exists>e. store_candidate E n (Settlement s) oid db = Inl e)"
proof -
  have low: "lower_char c = c" if "is_hex_low c" for c using that by (auto simp: lower_char_def is_hex_low_def Let_def)
  have "str_lower h = h"
  proof -
    have "h = ''0x'' @ drop 2 h" using assms(2) by (metis append_take_drop_id is_hex32_def)
    moreover have "map lower_char (drop 2 h) = drop 2 h" using assms(2) low by (simp add: is_hex32_def list_all_iff map_idI)
    moreover have "map lower_char ''0x'' = ''0x''" by (simp add: lower_char_def)
    ultimately show ?thesis unfolding str_lower_def by (metis map_append)
  qed
  moreover have "lower_char (CHR 0x0A) = CHR 0x0A" by (simp add: lower_char_def)
  ultimately have t: "str_lower (h @ [CHR 0x0A]) = h @ [CHR 0x0A]" by (simp add: str_lower_def)
  then have "tx_re (str_lower (h @ [CHR 0x0A]))" using assms(2) by (simp add: tx_re_def)
  then obtain c where c: "candidate_from_settlement s (ig_env (ie_cfg E)) (ig_provider_id (ie_cfg E)) = Some c" "pq_tx_hash c = h @ [CHR 0x0A]"
    using assms t by (simp add: candidate_from_settlement_def)
  have "\<not> is_hex32 (h @ [CHR 0x0A])" using assms(2) by (simp add: is_hex32_def)
  with c show ?thesis by (auto simp: clean_reference_def store_candidate_def emit_candidate_def source_request_checks_def candidate_row_def ensure_def)
qed

section \<open>A settlement from the provider to the tables\<close>

definition first_instant :: int where
  "first_instant = - 62135596800000000"

definition paid_settlement :: settlement_observation where
  "paid_settlement = \<lparr>ao_slug = ''p'', ao_observed_at = first_instant, ao_as_of = first_instant, sx_account = \<lparr>af_slug = ''p'', af_external_id = ''x''\<rparr>,
     sx_settlement_ref = ''s1'', sx_revision = 1, sx_amount = \<lparr>m_amount = ''7'', m_asset = \<lparr>as_chain_id = 5, as_address = None, as_symbol = ''CRED'', as_decimals = 6\<rparr>\<rparr>,
     sx_payer = None, sx_payee = None, sx_paid_at = None, sx_status = ''PAID'', sx_tx_ref = Some (''0x'' @ replicate 64 CHR ''a'')\<rparr>"

definition paid_page :: "provider_observation page" where
  "paid_page = \<lparr>pg_items = [Settlement paid_settlement], pg_next = \<lparr>pc_token = None, pc_has_more = False\<rparr>\<rparr>"

definition paid_adapter :: provider_adapter where
  "paid_adapter = \<lparr>ad_identity = \<lparr>ai_slug = ''p'', ai_profile = EP_LOCAL_MOCK, ai_is_mock = True, ai_partner_revenue = ''SIMULATED'', ai_source_chain_ids = [5],
       ai_supported_assets = []\<rparr>, ad_capabilities = default_capabilities,
     ad_fetch_revenue = \<lambda>_ _ _. Inl (UnsupportedOperation []), ad_fetch_settlements = \<lambda>_ _ _. Inr paid_page,
     ad_claim_revenue = \<lambda>_. Inl (UnsupportedOperation []), ad_request_control_change = \<lambda>_. Inl (UnsupportedOperation [])\<rparr>"

definition paid_env :: ingest_env where
  "paid_env = \<lparr>ie_cfg = \<lparr>ig_provider_id = ''p'', ig_env = \<lparr>pe_env_id = ''env'', pe_chain_key = 1, pe_source_chain_id = 5,
       pe_manifest_hash = ''sha256:'' @ replicate 64 CHR ''0'', pe_sdk_version = ''1'', pe_profile = EP_LOCAL_MOCK\<rparr>,
       ig_overlap_seconds = 0, ig_max_window_seconds = 3600, ig_max_age_seconds = 60, ig_schema_id = ''provider-observation'', ig_schema_revision = 1\<rparr>,
     ie_adapter = paid_adapter, ie_put = \<lambda>ph body. Inr (blob_ref ph), ie_dump = \<lambda>_. JNull, ie_sha = \<lambda>_. replicate 32 0, ie_now = first_instant,
     ie_uid = \<lambda>m. replicate 26 (if m = 0 then CHR ''1'' else if m = 1 then CHR ''2'' else CHR ''3'')\<rparr>"

definition paid_cursor :: cursor_state where
  "paid_cursor = \<lparr>cs_provider_id = ''p'', cs_stream = ''settlements:p:x'', cs_high_water = Some first_instant, cs_page_token = None, cs_window_end = None,
     cs_overlap_seconds = 0, cs_backfill_from = None\<rparr>"

definition paid_db :: ingest_db where
  "paid_db = \<lparr>db_jobs = [], db_outbox = [], db_audit = [], db_source_requests = [], db_raw = [],
     db_cursors = [\<lparr>ix_provider_id = ''p'', ix_stream = ''settlements:p:x'', ix_position = to_position paid_cursor, ix_backfill_from = None\<rparr>], db_gaps = []\<rparr>"

lemma paid_range: "in_range first_instant" "in_range (first_instant + 1000000)" "cursor_in_range paid_cursor"
proof -
  show "in_range first_instant" "in_range (first_instant + 1000000)"
    by (simp_all add: first_instant_def in_range_def EPOCH_DAY_def date_of_def year_of.simps days_in_year_def month_days_def)
  then show "cursor_in_range paid_cursor" by (simp add: cursor_in_range_def opt_in_range_def paid_cursor_def)
qed

lemma paid_loads: "load_cursor (cs_provider_id paid_cursor) (cs_stream paid_cursor) paid_db = Inr (Some paid_cursor)"
  using position_round_trip [OF paid_range(3)] by (simp add: load_cursor_def paid_db_def cursor_key_def lift_app_def) (simp add: paid_cursor_def)

lemma paid_env_ok: "env_ok paid_env 1"
proof -
  have lim: "m < 3 \<longleftrightarrow> m = 0 \<or> m = 1 \<or> m = 2" for m :: nat by auto
  have ulid: "is_ulid (replicate 26 CHR ''1'')" "is_ulid (replicate 26 CHR ''2'')" "is_ulid (replicate 26 CHR ''3'')"
    by (simp_all add: is_ulid_def CROCKFORD_def)
  have zero: "hex_digit 0 = CHR ''0''" by code_simp
  have "hex_of_bytes (replicate n 0) = replicate (2 * n) CHR ''0''" for n by (induction n) (simp_all add: hex_of_bytes_def zero)
  then have "hash_of_observation paid_env obs = ''0x'' @ replicate 64 CHR ''0''" for obs
    by (simp add: hash_of_observation_def payload_hash_of_def paid_env_def)
  moreover have "is_hex32 (''0x'' @ replicate 64 CHR ''0'')" by (simp add: is_hex32_def is_hex_low_def list_all_iff)
  ultimately have h: "is_hex32 (hash_of_observation paid_env obs)" for obs by simp
  have m: "is_manifest_hash (''sha256:'' @ replicate 64 CHR ''0'')" by (simp add: is_manifest_hash_def is_hex_low_def list_all_iff)
  have b: "is_blob_ref (blob_ref ph)" for ph by (simp add: is_blob_ref_def blob_ref_def starts_with_def)
  show ?thesis unfolding env_ok_def
    using ulid h m b by (auto simp: paid_env_def inj_on_def lim replicate_eq_replicate)
qed

lemma paid_clean: "clean_reference paid_env (Settlement paid_settlement)"
proof -
  have "lower_char CHR ''a'' = CHR ''a''" "lower_char CHR ''0'' = CHR ''0''" "lower_char CHR ''x'' = CHR ''x''" by (simp_all add: lower_char_def)
  then have "str_lower (''0x'' @ replicate 64 CHR ''a'') = ''0x'' @ replicate 64 CHR ''a''" by (simp add: str_lower_def)
  moreover have "is_hex32 (''0x'' @ replicate 64 CHR ''a'')" by (simp add: is_hex32_def is_hex_low_def list_all_iff)
  ultimately show ?thesis by (auto simp: clean_reference_def candidate_from_settlement_def paid_settlement_def split: if_splits)
qed


theorem ingestion_effects_once_witness:
  "\<exists>db. ingest_step\<^sup>*\<^sup>* paid_db db \<and> stored paid_env (Settlement paid_settlement) db \<and> unique_on raw_key (db_raw db)"
proof -
  have f: "fresh_from paid_env 1 0 paid_db" by (simp add: fresh_from_def used_ids_def paid_db_def)
  have "\<forall>obs \<in> set (pg_items paid_page). clean_reference paid_env obs" "0 + length (pg_items paid_page) \<le> 1" using paid_clean by (simp_all add: paid_page_def)
  from commit_page_total [OF paid_env_ok f this paid_loads paid_range(3,2), of "''settlements''"] obtain db counts
    where c: "commit_page paid_env 0 ''settlements'' paid_cursor paid_page (first_instant + 1000000) paid_db = Inr (db, counts)"
      and st: "\<forall>obs \<in> set (pg_items paid_page). stored paid_env obs db" by blast
  have run: "ingest_step\<^sup>*\<^sup>* paid_db db" using page_committed [OF c] by (rule r_into_rtranclp)
  have "ingest_start paid_db" by (simp add: ingest_start_def paid_db_def unique_on_def)
  from ingestion_effects_once [OF this run] run st show ?thesis by (auto simp: paid_page_def)
qed

theorem backfill_covers_witness:
  "\<exists>ws. backfill_account (\<lambda>_. paid_env) \<lparr>af_slug = ''p'', af_external_id = ''x''\<rparr> ''settlements'' 0 10000000 4 1 paid_db =
      collect_windows (\<lambda>_. paid_env) \<lparr>af_slug = ''p'', af_external_id = ''x''\<rparr> ''settlements'' ws paid_db \<and> (\<exists>(x, y) \<in> set ws. x \<le> 5000000 \<and> 5000000 \<le> y)"
proof -
  obtain ws where ws: "backfill_account (\<lambda>_. paid_env) \<lparr>af_slug = ''p'', af_external_id = ''x''\<rparr> ''settlements'' 0 10000000 4 1 paid_db =
      collect_windows (\<lambda>_. paid_env) \<lparr>af_slug = ''p'', af_external_id = ''x''\<rparr> ''settlements'' ws paid_db"
    and cover: "\<forall>t. 0 \<le> t \<and> t \<le> 10000000 \<longrightarrow> (\<exists>(x, y) \<in> set ws. x \<le> t \<and> t \<le> y)"
    using backfill_covers [of 0 10000000 1 4 "\<lambda>_. paid_env" "\<lparr>af_slug = ''p'', af_external_id = ''x''\<rparr>" "''settlements''" paid_db] by auto
  have "\<exists>(x, y) \<in> set ws. x \<le> 5000000 \<and> 5000000 \<le> y" using cover [rule_format, of 5000000] by simp
  with ws show ?thesis by blast
qed

end
