(* ===== verification/Webhook.thy ===== *)
theory Webhook
  imports Ingestion Json_Access
begin

text \<open>
  The signed webhook (\<open>ingestion/webhook.py\<close>): a body is checked for size, time and signature before anything is parsed, and an accepted observation
  is stored by the collector's own path. HMAC is written out over the hash function; \<open>json.loads\<close> and the field parsers of the observation models are arguments.
\<close>

section \<open>Verification\<close>

unbundle bit_operations_syntax

definition hmac :: "hash_fun \<Rightarrow> bytes \<Rightarrow> bytes \<Rightarrow> bytes" where
  "hmac sha secret msg =
    (let k0 = (if 64 < length secret then sha secret else secret); k = k0 @ replicate (64 - length k0) 0
     in sha (map (\<lambda>b. b XOR 92) k @ sha (map (\<lambda>b. b XOR 54) k @ msg)))"

datatype webhook_error = WebhookError string | WebhookStore app_error

definition sign_webhook :: "hash_fun \<Rightarrow> bytes \<Rightarrow> int \<Rightarrow> bytes \<Rightarrow> string" where
  "sign_webhook sha secret timestamp body = hex_of_bytes (hmac sha secret (str_bytes (str_int timestamp @ ''.'') @ body))"

definition lower_headers :: "(string, string) dict \<Rightarrow> (string, string) dict" where
  "lower_headers headers = fold (\<lambda>(k, v) d. dict_set (str_lower k) v d) headers []"

text \<open>\<open>hmac.compare_digest\<close> on two strings: \<open>TypeError\<close> when one is not ASCII, which no handler of \<open>verify_webhook\<close> catches.\<close>

definition compare_digest :: "string \<Rightarrow> string \<Rightarrow> webhook_error + bool" where
  "compare_digest a b =
    ensure (list_all (\<lambda>c. of_char c < (128 :: nat)) (a @ b)) (WebhookStore (OtherError ''TypeError: comparing strings with non-ASCII characters'')) (Inr (a = b))"

definition unix_seconds :: "int \<Rightarrow> int" where
  "unix_seconds now = (if 0 \<le> now then now div 1000000 else - ((- now) div 1000000))"

definition verify_webhook ::
  "hash_fun \<Rightarrow> (bytes \<Rightarrow> json option) \<Rightarrow> bytes \<Rightarrow> (string, string) dict \<Rightarrow> bytes \<Rightarrow> int \<Rightarrow> int \<Rightarrow> nat \<Rightarrow> webhook_error + json" where
  "verify_webhook sha loads secret headers body now max_skew max_bytes =
    ensure (length body \<le> max_bytes) (WebhookError ''PAYLOAD_TOO_LARGE'')
    (let hdr = lower_headers headers
     in case (map_of hdr ''x-rackline-timestamp'', map_of hdr ''x-rackline-signature'') of
       (Some ts_raw, Some sig) \<Rightarrow>
         ensure (ts_raw \<noteq> [] \<and> sig \<noteq> []) (WebhookError ''MISSING_HEADERS'')
         (case py_int ts_raw of
            None \<Rightarrow> Inl (WebhookError ''BAD_TIMESTAMP'')
          | Some ts \<Rightarrow>
              ensure (\<bar>unix_seconds now - ts\<bar> \<le> max_skew) (WebhookError ''STALE_TIMESTAMP'')
              (then_do (compare_digest (sign_webhook sha secret ts body) (str_lower sig)) (\<lambda>same.
               ensure same (WebhookError ''BAD_SIGNATURE'')
              (case loads body of
                 None \<Rightarrow> Inl (WebhookError ''BAD_JSON'')
               | Some (JObj kvs) \<Rightarrow> Inr (JObj kvs)
               | Some _ \<Rightarrow> Inl (WebhookError ''BAD_JSON'')))))
     | _ \<Rightarrow> Inl (WebhookError ''MISSING_HEADERS''))"

section \<open>Receiving\<close>

record webhook_outcome =
  wo_observation_id :: string
  wo_stored :: bool
  wo_request_id :: "string option"

record webhook_parsers =
  wp_loads :: "bytes \<Rightarrow> json option"
  wp_revenue :: "json \<Rightarrow> revenue_observation option"
  wp_settlement :: "json \<Rightarrow> settlement_observation option"

definition parse_observation :: "webhook_parsers \<Rightarrow> string \<Rightarrow> json \<Rightarrow> webhook_error + provider_observation" where
  "parse_observation P kind data =
    (if kind = ''revenue''
     then (case wp_revenue P data of None \<Rightarrow> Inl (WebhookError ''BAD_OBSERVATION'')
           | Some r \<Rightarrow> (case revenue_consistent r of Inl _ \<Rightarrow> Inl (WebhookError ''BAD_OBSERVATION'') | Inr r \<Rightarrow> Inr (Revenue r)))
     else (case wp_settlement P data of None \<Rightarrow> Inl (WebhookError ''BAD_OBSERVATION'')
           | Some s \<Rightarrow> (case settlement_consistent s of Inl _ \<Rightarrow> Inl (WebhookError ''BAD_OBSERVATION'') | Inr s \<Rightarrow> Inr (Settlement s))))"

fun observation_slugs :: "provider_observation \<Rightarrow> string \<times> string" where
  "observation_slugs (Revenue r) = (ao_slug r, af_slug (rx_account r))"
| "observation_slugs (Settlement s) = (ao_slug s, af_slug (sx_account s))"

text \<open>The observation of a payload, before any table is touched.\<close>

definition read_payload :: "string \<Rightarrow> webhook_parsers \<Rightarrow> json \<Rightarrow> webhook_error + (string \<times> provider_observation)" where
  "read_payload slug P payload =
    (case (json_get payload ''kind'', json_get payload ''observation'') of
       (Some (JStr kind), Some (JObj data)) \<Rightarrow>
         ensure (kind \<in> {''revenue'', ''settlement''}) (WebhookError ''BAD_KIND'')
         (then_do (parse_observation P kind (JObj data)) (\<lambda>obs.
          ensure (observation_slugs obs = (slug, slug)) (WebhookError ''PROVIDER_MISMATCH'')
            (Inr (if kind = ''revenue'' then ''revenue'' else ''settlements'', obs))))
     | _ \<Rightarrow> Inl (WebhookError ''BAD_KIND''))"

text \<open>The transaction of a delivery.\<close>

definition store_delivery :: "ingest_env \<Rightarrow> string \<Rightarrow> provider_observation \<Rightarrow> ingest_db \<Rightarrow> app_error + (ingest_db \<times> webhook_outcome)" where
  "store_delivery E stream obs db =
    then_do (store_observation E (ie_uid E 0) obs ''WEBHOOK'' stream db) (\<lambda>(db, oid, new).
    then_do (if new then store_candidate E 0 obs oid db else Inr (db, None)) (\<lambda>(db, rid).
      Inr (db, \<lparr>wo_observation_id = oid, wo_stored = new, wo_request_id = rid\<rparr>)))"

definition receive_webhook ::
  "ingest_env \<Rightarrow> webhook_parsers \<Rightarrow> bytes \<Rightarrow> int \<Rightarrow> nat \<Rightarrow> (string, string) dict \<Rightarrow> bytes \<Rightarrow> ingest_db \<Rightarrow> webhook_error + (ingest_db \<times> webhook_outcome)" where
  "receive_webhook E P secret max_skew max_bytes headers body db =
    then_do (verify_webhook (ie_sha E) (wp_loads P) secret headers body (ie_now E) max_skew max_bytes) (\<lambda>payload.
    then_do (read_payload (ig_provider_id (ie_cfg E)) P payload) (\<lambda>(stream, obs).
    (case store_delivery E stream obs db of Inl e \<Rightarrow> Inl (WebhookStore e) | Inr r \<Rightarrow> Inr r)))"

section \<open>A delivery is authentic and counts once\<close>

lemma compared: "compare_digest a b = Inr same \<Longrightarrow> same = (a = b)"
  by (simp add: compare_digest_def ensure_def split: if_splits)

text \<open>What a verified body satisfied: its size, a timestamp near the clock, and the signature of exactly that timestamp and body.\<close>

definition authentic :: "hash_fun \<Rightarrow> bytes \<Rightarrow> (string, string) dict \<Rightarrow> bytes \<Rightarrow> int \<Rightarrow> int \<Rightarrow> nat \<Rightarrow> bool" where
  "authentic sha secret headers body now max_skew max_bytes \<longleftrightarrow> length body \<le> max_bytes \<and>
    (\<exists>ts_raw ts sig. map_of (lower_headers headers) ''x-rackline-timestamp'' = Some ts_raw \<and> py_int ts_raw = Some ts \<and>
      map_of (lower_headers headers) ''x-rackline-signature'' = Some sig \<and> \<bar>unix_seconds now - ts\<bar> \<le> max_skew \<and> sign_webhook sha secret ts body = str_lower sig)"

lemma verified_facts:
  assumes "verify_webhook sha loads secret headers body now max_skew max_bytes = Inr payload"
  shows "authentic sha secret headers body now max_skew max_bytes \<and> loads body = Some payload"
  using assms unfolding verify_webhook_def Let_def authentic_def
  by (auto simp: then_do_eq_Inr dest!: compared split: option.splits json.splits)

lemma then_do_InrE: "then_do r k = Inr y \<Longrightarrow> (\<And>x. r = Inr x \<Longrightarrow> k x = Inr y \<Longrightarrow> thesis) \<Longrightarrow> thesis"
  by (auto simp: then_do_eq_Inr)

lemma received_facts:
  assumes "receive_webhook E P secret max_skew max_bytes headers body db = Inr (db', out)"
  obtains payload stream obs where "verify_webhook (ie_sha E) (wp_loads P) secret headers body (ie_now E) max_skew max_bytes = Inr payload"
    "read_payload (ig_provider_id (ie_cfg E)) P payload = Inr (stream, obs)" "store_delivery E stream obs db = Inr (db', out)"
proof -
  from assms obtain payload so where p: "verify_webhook (ie_sha E) (wp_loads P) secret headers body (ie_now E) max_skew max_bytes = Inr payload"
    "read_payload (ig_provider_id (ie_cfg E)) P payload = Inr so"
    and d: "(\<lambda>(stream, obs). case store_delivery E stream obs db of Inl e \<Rightarrow> Inl (WebhookStore e) | Inr r \<Rightarrow> Inr r) so = Inr (db', out)"
    unfolding receive_webhook_def by (elim then_do_InrE)
  obtain stream obs where so: "so = (stream, obs)" by (cases so)
  from d have "store_delivery E stream obs db = Inr (db', out)" unfolding so by (cases "store_delivery E stream obs db") simp_all
  with p show thesis unfolding so by (rule that)
qed

lemma delivered_facts:
  assumes "store_delivery E stream obs db = Inr (db', out)"
  obtains db1 where "store_observation E (ie_uid E 0) obs ''WEBHOOK'' stream db = Inr (db1, wo_observation_id out, wo_stored out)"
    "(if wo_stored out then store_candidate E 0 obs (wo_observation_id out) db1 else Inr (db1, None)) = Inr (db', wo_request_id out)"
proof -
  from assms obtain t where o: "store_observation E (ie_uid E 0) obs ''WEBHOOK'' stream db = Inr t"
    and c: "(\<lambda>(db, oid, new). then_do (if new then store_candidate E 0 obs oid db else Inr (db, None)) (\<lambda>(db, rid).
      Inr (db, \<lparr>wo_observation_id = oid, wo_stored = new, wo_request_id = rid\<rparr>))) t = Inr (db', out)"
    unfolding store_delivery_def by (elim then_do_InrE)
  obtain db1 oid new where t: "t = (db1, oid, new)" by (cases t)
  have "then_do (if new then store_candidate E 0 obs oid db1 else Inr (db1, None)) (\<lambda>(db, rid).
      Inr (db, \<lparr>wo_observation_id = oid, wo_stored = new, wo_request_id = rid\<rparr>)) = Inr (db', out)" using c unfolding t prod.case .
  then obtain u where u: "(if new then store_candidate E 0 obs oid db1 else Inr (db1, None)) = Inr u"
    and w: "(\<lambda>(db, rid). Inr (db, \<lparr>wo_observation_id = oid, wo_stored = new, wo_request_id = rid\<rparr>)) u = (Inr (db', out) :: app_error + _)" by (rule then_do_InrE)
  from w have r: "u = (db', wo_request_id out)" "wo_observation_id out = oid" "wo_stored out = new" by (cases u, auto)+
  show thesis by (rule that [of db1]) (use o u in \<open>simp_all only: t r\<close>)
qed

lemma step_keeps_raw: "ingest_step db db' \<Longrightarrow> \<exists>rs. db_raw db' = db_raw db @ rs"
proof (induction rule: ingest_step.induct)
  case (cursor_opened p s start overlap db db' st)
  then show ?case by (auto simp: open_cursor_def then_do_eq_Inr Let_def split: option.splits)
next
  case (page_committed E n stream st page e db db' counts)
  then obtain db1 s d c where p: "store_page E n stream (pg_items page) db = Inr (db1, s, d, c)" and d: "db' = save_cursor (next_state st page e) db1"
    by (auto simp: commit_page_def then_do_eq_Inr lift_app_def split: sum.splits)
  from store_page_effect [OF p] show ?case by (auto simp: d adds_def)
next
  case (webhook_stored E oid obs stream db db1 oid' new n db' made)
  have "adds db db'" using store_observation_effect [OF webhook_stored(1)] webhook_stored(2)
    by (auto split: if_splits dest: store_candidate_effect intro: adds_trans)
  then show ?case by (simp add: adds_def)
qed (auto simp: open_gap_exception_def Let_def others_keep_def)

lemma run_keeps_raw: "ingest_step\<^sup>*\<^sup>* db db' \<Longrightarrow> \<exists>rs. db_raw db' = db_raw db @ rs"
proof (induction rule: rtranclp_induct)
  case (step y z)
  from step(3) step_keeps_raw [OF step(2)] show ?case by auto
qed simp

lemma find_append_Some: "List.find p xs = Some x \<Longrightarrow> List.find p (xs @ ys) = Some x"
  by (induction xs) (auto split: if_splits)

lemma find_append_None: "List.find p xs = None \<Longrightarrow> List.find p (xs @ ys) = List.find p ys"
  by (induction xs) (auto split: if_splits)

lemma stored_is_found:
  assumes "store_observation E oid obs origin stream db = Inr (db', oid', new)"
  shows "\<exists>r. List.find (\<lambda>r. raw_key r = (ig_provider_id (ie_cfg E), origin, hash_of_observation E obs)) (db_raw db') = Some r \<and> ob_id r = oid'"
proof (cases "List.find (\<lambda>r. raw_key r = (ig_provider_id (ie_cfg E), origin, hash_of_observation E obs)) (db_raw db)")
  case (Some r)
  with assms have "db' = db" "oid' = ob_id r" by (auto simp: store_observation_def Let_def then_do_eq_Inr)
  with Some show ?thesis by simp
next
  case None
  let ?k = "(ig_provider_id (ie_cfg E), origin, hash_of_observation E obs)"
  from assms None obtain row ev pay n where e: "emit (ie_now E) ''raw_source_observation'' oid ev pay (raw_event_key ?k) (db\<lparr>db_raw := db_raw db @ [row]\<rparr>) = Inr (db', n)"
    and r: "raw_key row = ?k" "ob_id row = oid'"
    by (auto simp: store_observation_def Let_def then_do_eq_Inr raw_key_def)
  from emit_effect [OF e] have "db_raw db' = db_raw db @ [row]" by simp
  with None r show ?thesis by (simp add: find_append_None)
qed

lemma delivery_is_step: "store_delivery E stream obs db = Inr (db', out) \<Longrightarrow> ingest_step db db'"
  by (erule delivered_facts) (rule webhook_stored)

lemma delivered_is_found:
  assumes "store_delivery E stream obs db = Inr (db', out)"
  shows "\<exists>r. List.find (\<lambda>r. raw_key r = (ig_provider_id (ie_cfg E), ''WEBHOOK'', hash_of_observation E obs)) (db_raw db') = Some r \<and> ob_id r = wo_observation_id out"
proof -
  from assms obtain db1 where o: "store_observation E (ie_uid E 0) obs ''WEBHOOK'' stream db = Inr (db1, wo_observation_id out, wo_stored out)"
    and c: "(if wo_stored out then store_candidate E 0 obs (wo_observation_id out) db1 else Inr (db1, None)) = Inr (db', wo_request_id out)"
    by (rule delivered_facts)
  have "adds db1 db' \<or> db' = db1" using c by (auto split: if_splits dest: store_candidate_effect)
  then obtain rs where "db_raw db' = db_raw db1 @ rs" by (auto simp: adds_def)
  with stored_is_found [OF o] show ?thesis by (auto dest: find_append_Some)
qed

text \<open>C23: a webhook is accepted only when authentic, and counts once. A delivery that the receiver accepts was within the size limit, near the
  receiver's clock and signed over its timestamp and body; and a later delivery of the same body, whatever the polls, webhooks and
  other services did in between, returns the same observation and changes no table.\<close>

theorem webhook_counts_once:
  assumes "receive_webhook E P secret max_skew max_bytes headers body db = Inr (db1, out)"
    and "ingest_step\<^sup>*\<^sup>* db1 db2"
    and "ie_cfg E' = ie_cfg E" and "ie_sha E' = ie_sha E" and "ie_dump E' = ie_dump E"
    and "receive_webhook E' P secret max_skew max_bytes headers' body db2 = Inr (db3, out')"
  shows "authentic (ie_sha E) secret headers body (ie_now E) max_skew max_bytes \<and> db3 = db2 \<and>
    \<not> wo_stored out' \<and> wo_observation_id out' = wo_observation_id out \<and> wo_request_id out' = None"
proof -
  from assms(1) obtain payload stream obs where v: "verify_webhook (ie_sha E) (wp_loads P) secret headers body (ie_now E) max_skew max_bytes = Inr payload"
    and p: "read_payload (ig_provider_id (ie_cfg E)) P payload = Inr (stream, obs)" and d: "store_delivery E stream obs db = Inr (db1, out)" by (rule received_facts)
  from assms(6) obtain payload' stream' obs' where v': "verify_webhook (ie_sha E') (wp_loads P) secret headers' body (ie_now E') max_skew max_bytes = Inr payload'"
    and p': "read_payload (ig_provider_id (ie_cfg E')) P payload' = Inr (stream', obs')" and d': "store_delivery E' stream' obs' db2 = Inr (db3, out')" by (rule received_facts)
  from v v' have "payload' = payload" by (auto dest!: verified_facts)
  with p p' assms(3) have same: "stream' = stream" "obs' = obs" by simp_all
  let ?k = "(ig_provider_id (ie_cfg E), ''WEBHOOK'', hash_of_observation E obs)"
  obtain r where r: "List.find (\<lambda>r. raw_key r = ?k) (db_raw db1) = Some r" "ob_id r = wo_observation_id out" using delivered_is_found [OF d] by blast
  obtain rs where "db_raw db2 = db_raw db1 @ rs" using run_keeps_raw [OF assms(2)] by blast
  with r have f: "List.find (\<lambda>r. raw_key r = ?k) (db_raw db2) = Some r" by (simp add: find_append_Some)
  from d' obtain db4 where o: "store_observation E' (ie_uid E' 0) obs' ''WEBHOOK'' stream' db2 = Inr (db4, wo_observation_id out', wo_stored out')"
    and c: "(if wo_stored out' then store_candidate E' 0 obs' (wo_observation_id out') db4 else Inr (db4, None)) = Inr (db3, wo_request_id out')"
    by (rule delivered_facts)
  have k: "hash_of_observation E' obs' = hash_of_observation E obs" using assms(4,5) same by (simp add: hash_of_observation_def canonical_payload_def)
  from o f have "db4 = db2" "wo_observation_id out' = ob_id r" "\<not> wo_stored out'"
    by (auto simp: store_observation_def Let_def then_do_eq_Inr k assms(3))
  with c r verified_facts [OF v] show ?thesis by simp
qed

text \<open>A signature header with a character outside ASCII is not refused as \<open>BAD_SIGNATURE\<close>: \<open>compare_digest\<close> raises \<open>TypeError\<close>.\<close>

lemma non_ascii_signature_raises:
  assumes "length body \<le> max_bytes" and "map_of (lower_headers headers) ''x-rackline-timestamp'' = Some ts_raw" and "py_int ts_raw = Some ts" and "ts_raw \<noteq> []"
    and "map_of (lower_headers headers) ''x-rackline-signature'' = Some sig" and "\<bar>unix_seconds now - ts\<bar> \<le> max_skew"
    and "c \<in> set (str_lower sig)" and "128 \<le> (of_char c :: nat)"
  shows "\<exists>d. verify_webhook sha loads secret headers body now max_skew max_bytes = Inl (WebhookStore (OtherError d))"
proof -
  have "\<not> list_all (\<lambda>c. of_char c < (128 :: nat)) (str_lower sig)" using assms(7,8) unfolding list_all_iff not_le [symmetric] by blast
  moreover have "sig \<noteq> []" using assms(7) by (auto simp: str_lower_def)
  ultimately show ?thesis using assms(1-6) by (simp add: verify_webhook_def compare_digest_def)
qed

section \<open>Two deliveries of a settlement\<close>

lemma store_delivery_total:
  assumes "env_ok E 1" and "fresh_from E 1 0 db" and "clean_reference E obs"
  shows "\<exists>db' out. store_delivery E stream obs db = Inr (db', out)"
proof -
  have uid: "is_ulid (ie_uid E 0)" "ie_uid E 1 \<noteq> ie_uid E 0" "ie_uid E 2 \<noteq> ie_uid E 0" using assms(1) by (auto simp: env_ok_def inj_on_eq_iff)
  have fr: "ie_uid E m \<notin> used_ids db" if "m < 3" for m using assms(2) that by (simp add: fresh_from_def)
  from store_observation_total [OF assms(1) fr [of 0] uid(1), of "''WEBHOOK''" obs stream] obtain db1 oid new
    where o: "store_observation E (ie_uid E 0) obs ''WEBHOOK'' stream db = Inr (db1, oid, new)" "used_ids db1 \<subseteq> insert (ie_uid E 0) (used_ids db)"
    by (auto simp: OBSERVATION_ORIGINS_def)
  then have "ie_uid E (3 * 0 + 1) \<notin> used_ids db1" "ie_uid E (3 * 0 + 2) \<notin> used_ids db1" using uid fr [of 1] fr [of 2] by (auto simp: numeral_2_eq_2)
  from store_candidate_total [OF assms(1) _ assms(3) this, of oid] obtain db2 made where "store_candidate E 0 obs oid db1 = Inr (db2, made)" by auto
  with o(1) show ?thesis by (simp add: store_delivery_def)
qed

lemma replayed_delivery:
  assumes "List.find (\<lambda>r. raw_key r = (ig_provider_id (ie_cfg E), ''WEBHOOK'', hash_of_observation E obs)) (db_raw db) = Some r"
    and "ie_put E (hash_of_observation E obs) (canonical_payload E obs) = Inr ref"
  shows "store_delivery E stream obs db = Inr (db, \<lparr>wo_observation_id = ob_id r, wo_stored = False, wo_request_id = None\<rparr>)"
  using assms by (simp add: store_delivery_def store_observation_def)

definition paid_parsers :: webhook_parsers where
  "paid_parsers = \<lparr>wp_loads = \<lambda>_. Some (JObj [(''kind'', JStr ''settlement''), (''observation'', JObj [])]), wp_revenue = \<lambda>_. None, wp_settlement = \<lambda>_. Some paid_settlement\<rparr>"

definition paid_headers :: "(string, string) dict" where
  "paid_headers = [(''X-Rackline-Timestamp'', ''-62135596800''), (''X-Rackline-Signature'', replicate 64 CHR ''0'')]"

lemma paid_verified:
  "verify_webhook (ie_sha paid_env) (wp_loads paid_parsers) [] paid_headers [] (ie_now paid_env) 300 10 = Inr (JObj [(''kind'', JStr ''settlement''), (''observation'', JObj [])])"
proof -
  have "lower_headers paid_headers = [(''x-rackline-timestamp'', ''-62135596800''), (''x-rackline-signature'', replicate 64 CHR ''0'')]"
    unfolding paid_headers_def by code_simp
  moreover have "py_int ''-62135596800'' = Some (- 62135596800)"
    by (simp add: py_int_def nat_of_str_def char_digit_def str_strip_def is_space_def)
  moreover have "sign_webhook (\<lambda>_. replicate 32 0) [] ts [] = replicate 64 CHR ''0''" for ts
  proof -
    have "hex_digit 0 = CHR ''0''" by code_simp
    then have "hex_of_bytes (replicate n 0) = replicate (2 * n) CHR ''0''" for n by (induction n) (simp_all add: hex_of_bytes_def)
    then show ?thesis by (simp add: sign_webhook_def hmac_def Let_def)
  qed
  moreover have "str_lower (replicate 64 CHR ''0'') = replicate 64 CHR ''0''" by (simp add: str_lower_def lower_char_def)
  ultimately show ?thesis
    by (simp add: verify_webhook_def paid_env_def paid_parsers_def unix_seconds_def first_instant_def compare_digest_def list_all_iff)
qed

lemma paid_read: "read_payload (ig_provider_id (ie_cfg paid_env)) paid_parsers (JObj [(''kind'', JStr ''settlement''), (''observation'', JObj [])]) = Inr (''settlements'', Settlement paid_settlement)"
  by (simp add: read_payload_def json_get_def parse_observation_def paid_parsers_def settlement_consistent_def paid_settlement_def paid_env_def)

theorem webhook_counts_once_witness:
  "\<exists>db1 out. receive_webhook paid_env paid_parsers [] 300 10 paid_headers [] paid_db = Inr (db1, out) \<and>
     (\<exists>out'. receive_webhook paid_env paid_parsers [] 300 10 paid_headers [] db1 = Inr (db1, out') \<and>
        wo_observation_id out' = wo_observation_id out \<and> \<not> wo_stored out')"
proof -
  have "fresh_from paid_env 1 0 paid_db" by (simp add: fresh_from_def used_ids_def paid_db_def)
  from store_delivery_total [OF paid_env_ok this paid_clean] obtain db1 out where d: "store_delivery paid_env ''settlements'' (Settlement paid_settlement) paid_db = Inr (db1, out)" by blast
  have r: "receive_webhook paid_env paid_parsers [] 300 10 paid_headers [] db = (case store_delivery paid_env ''settlements'' (Settlement paid_settlement) db of Inl e \<Rightarrow> Inl (WebhookStore e) | Inr r \<Rightarrow> Inr r)" for db
    unfolding receive_webhook_def by (simp add: paid_verified paid_read)
  obtain row where "List.find (\<lambda>r. raw_key r = (ig_provider_id (ie_cfg paid_env), ''WEBHOOK'', hash_of_observation paid_env (Settlement paid_settlement))) (db_raw db1) = Some row"
    using delivered_is_found [OF d] by blast
  from replayed_delivery [OF this] obtain out' where "store_delivery paid_env ''settlements'' (Settlement paid_settlement) db1 = Inr (db1, out')" by (auto simp: paid_env_def)
  then have r2: "receive_webhook paid_env paid_parsers [] 300 10 paid_headers [] db1 = Inr (db1, out')" by (simp add: r)
  have r1: "receive_webhook paid_env paid_parsers [] 300 10 paid_headers [] paid_db = Inr (db1, out)" by (simp add: r d)
  from webhook_counts_once [OF r1 rtranclp.rtrancl_refl refl refl refl r2] r1 r2 show ?thesis by blast
qed

end
