(* ===== verification/Chain_Decoder.thy ===== *)
theory Chain_Decoder
  imports Json_Access Abi "HOL-Library.List_Lexorder" "HOL-Library.Char_ord"
begin

text \<open>
  Event decoders built from pinned ABI files (\<open>projections/decoders.py\<close>). The parsed ABI files and the decoder of the \<open>eth_abi\<close> package are
  arguments; signatures, topics and the JSON form of values are computed here.
\<close>

section \<open>Event descriptions\<close>

datatype abi_param = AbiParam (pa_name: string) (pa_type: string) (pa_components: "abi_param list") (pa_indexed: bool)

record abi_entry =
  be_type :: string
  be_name :: string
  be_inputs :: "abi_param list"

record event_abi =
  ea_contract :: string
  ea_name :: string
  ea_signature :: string
  ea_topic0 :: string
  ea_indexed :: "(string \<times> string) list"
  ea_unindexed :: "(string \<times> string) list"

definition PROJECTED_CONTRACTS :: "string list" where
  "PROJECTED_CONTRACTS = [''ProtocolRoles'', ''AuthorizationVerifier'', ''ProviderRegistry'', ''AccountRegistry'', ''AttestcoinRevenueVerifier'', ''EvidenceBook'',
     ''ControlRegistry'', ''DebtLedger'', ''LendingVaultV2'', ''ReceivableBook'', ''GpuRiskPolicy'', ''ExposureController'', ''RevenueEscrow'', ''CreditFacilityManager'',
     ''SourceEscrow'', ''RepaymentRouter'', ''RecoveryManager'', ''SettlementReceiver'', ''GovernanceTimelock'', ''TreasuryTimelock'', ''GpuTestToken'']"

fun canonical_type :: "abi_param \<Rightarrow> string" where
  "canonical_type (AbiParam nm ty comps ix) =
     (if take 5 ty = ''tuple'' then ''('' @ join_with '','' (map canonical_type comps) @ '')'' @ drop 5 ty else ty)"

definition event_signature :: "abi_entry \<Rightarrow> string" where
  "event_signature e = be_name e @ ''('' @ join_with '','' (map canonical_type (be_inputs e)) @ '')''"

definition event_abi_of :: "string \<Rightarrow> abi_entry \<Rightarrow> event_abi" where
  "event_abi_of contract e = \<lparr>ea_contract = contract, ea_name = be_name e, ea_signature = event_signature e, ea_topic0 = keccak_hex (str_bytes (event_signature e)),
     ea_indexed = map (\<lambda>i. (pa_name i, canonical_type i)) (filter pa_indexed (be_inputs e)),
     ea_unindexed = map (\<lambda>i. (pa_name i, canonical_type i)) (filter (\<lambda>i. \<not> pa_indexed i) (be_inputs e))\<rparr>"

definition load_events :: "(string \<Rightarrow> abi_entry list) \<Rightarrow> string \<Rightarrow> (string, event_abi) dict" where
  "load_events abis contract =
    fold (\<lambda>e out. let ev = event_abi_of contract e in dict_set (ea_topic0 ev) ev out)
      (filter (\<lambda>e. be_type e = ''event'') (abis (if contract = ''TreasuryTimelock'' then ''GovernanceTimelock'' else contract))) []"

section \<open>Values\<close>

datatype abi_value = AVBool bool | AVInt int | AVBytes bytes | AVStr string | AVList "abi_value list"

fun json_safe :: "abi_value \<Rightarrow> json" where
  "json_safe (AVBool b) = JBool b"
| "json_safe (AVInt i) = JStr (str_int i)"
| "json_safe (AVBytes bs) = JStr (''0x'' @ hex_of_bytes bs)"
| "json_safe (AVList vs) = JList (map json_safe vs)"
| "json_safe (AVStr s) = JStr (if take 2 s = ''0x'' \<and> length s = 42 then str_lower s else s)"

type_synonym abi_decode_fun = "string list \<Rightarrow> bytes \<Rightarrow> app_error + abi_value list"

definition topic_bytes :: "string \<Rightarrow> app_error + bytes" where
  "topic_bytes s = (case bytes_fromhex s of None \<Rightarrow> Inl (ValueError ''non-hexadecimal number found'') | Some bs \<Rightarrow> Inr bs)"

definition decode_topic :: "abi_decode_fun \<Rightarrow> string \<Rightarrow> string \<Rightarrow> app_error + abi_value" where
  "decode_topic dec typ topic =
    then_do (topic_bytes (drop 2 topic)) (\<lambda>raw.
    if typ \<in> {''string'', ''bytes''} \<or> (typ \<noteq> [] \<and> last typ = CHR '']'') then Inr (AVStr (''0x'' @ hex_of_bytes raw))
    else then_do (dec [typ] raw) (\<lambda>vs. py_index vs 0))"

section \<open>Decoding a log\<close>

record decoded_log =
  dl_contract :: string
  dl_event :: string
  dl_args :: "(string, json) dict"

record decoder =
  de_names :: "(string, string) dict"
  de_events :: "(string, (string, event_abi) dict) dict"

definition make_decoder :: "(string \<Rightarrow> abi_entry list) \<Rightarrow> (string, string) dict \<Rightarrow> app_error + decoder" where
  "make_decoder abis contracts =
    ensure (list_all (\<lambda>(name, _). name \<in> set PROJECTED_CONTRACTS) contracts) (ValueError ''unknown contract names for projection'')
      (Inr \<lparr>de_names = fold (\<lambda>(name, addr) m. dict_set (str_lower addr) name m) contracts [], de_events = map (\<lambda>(name, _). (name, load_events abis name)) contracts\<rparr>)"

definition decoder_addresses :: "decoder \<Rightarrow> string list" where
  "decoder_addresses D = sort (map fst (de_names D))"

definition contract_of :: "decoder \<Rightarrow> string \<Rightarrow> string option" where
  "contract_of D address = map_of (de_names D) (str_lower address)"

definition topic0_of :: "decoder \<Rightarrow> string \<Rightarrow> string \<Rightarrow> app_error + string" where
  "topic0_of D contract event =
    (case map_of (de_events D) contract of
       None \<Rightarrow> Inl (key_error contract)
     | Some evs \<Rightarrow> (case List.find (\<lambda>(t, ev). ea_name ev = event) evs of None \<Rightarrow> Inl (key_error (contract @ ''.'' @ event)) | Some (t, _) \<Rightarrow> Inr t))"

fun decode_topics :: "abi_decode_fun \<Rightarrow> (string \<times> string) list \<Rightarrow> string list \<Rightarrow> (string, json) dict \<Rightarrow> app_error + (string, json) dict" where
  "decode_topics dec ((name, typ) # ps) (topic # ts) args = then_do (decode_topic dec typ topic) (\<lambda>v. decode_topics dec ps ts (dict_set name (json_safe v) args))"
| "decode_topics dec [] [] args = Inr args"
| "decode_topics dec _ _ args = Inl (ValueError ''zip() argument 2 length differs'')"

fun name_values :: "(string \<times> string) list \<Rightarrow> abi_value list \<Rightarrow> (string, json) dict \<Rightarrow> app_error + (string, json) dict" where
  "name_values ((name, typ) # ps) (v # vs) args = name_values ps vs (dict_set name (json_safe v) args)"
| "name_values [] [] args = Inr args"
| "name_values _ _ args = Inl (ValueError ''zip() argument 2 length differs'')"

definition decode_log :: "abi_decode_fun \<Rightarrow> decoder \<Rightarrow> string \<Rightarrow> string list \<Rightarrow> string \<Rightarrow> app_error + decoded_log option" where
  "decode_log dec D address topics data =
    (case (contract_of D address, topics) of
       (Some name, t0 # ts) \<Rightarrow>
         (case map_of (de_events D) name of
            None \<Rightarrow> Inl (key_error name)
          | Some evs \<Rightarrow>
         (case map_of evs (str_lower t0) of
            None \<Rightarrow> Inr None
          | Some ev \<Rightarrow>
              ensure (length ts = length (ea_indexed ev)) (ValueError (name @ ''.'' @ ea_name ev @ '': indexed topics''))
              (then_do (decode_topics dec (ea_indexed ev) ts []) (\<lambda>args.
               then_do (if ea_unindexed ev = [] then Inr args
                 else then_do (if data \<notin> {[], ''0x''} then topic_bytes (drop 2 data) else Inr []) (\<lambda>raw.
                      then_do (dec (map snd (ea_unindexed ev)) raw) (\<lambda>vs. name_values (ea_unindexed ev) vs args))) (\<lambda>args.
                 Inr (Some \<lparr>dl_contract = name, dl_event = ea_name ev, dl_args = args\<rparr>))))))
     | _ \<Rightarrow> Inr None)"

section \<open>What a decoded log is\<close>

text \<open>A number survives its JSON form.\<close>

lemma json_int_safe: "json_int (json_safe (AVInt i)) = Inr i"
  by simp

lemma dom_dict_set: "dom (map_of (dict_set k v d)) = insert k (dom (map_of d))"
  by simp

lemma decode_topics_keys: "decode_topics dec ps ts args = Inr out \<Longrightarrow> dom (map_of out) = dom (map_of args) \<union> dom (map_of ps)"
proof (induction dec ps ts args rule: decode_topics.induct)
  case (1 dec name ty ps topic ts args)
  then obtain v where "decode_topics dec ps ts (dict_set name (json_safe v) args) = Inr out" by (auto simp: then_do_eq_Inr)
  with "1.IH" [OF this] show ?case unfolding dom_dict_set by (auto split: if_splits)
qed auto

lemma name_values_keys: "name_values ps vs args = Inr out \<Longrightarrow> dom (map_of out) = dom (map_of args) \<union> dom (map_of ps)"
proof (induction ps vs args rule: name_values.induct)
  case (1 name ty ps v vs args)
  then have "name_values ps vs (dict_set name (json_safe v) args) = Inr out" by simp
  with "1.IH" [OF this] show ?case unfolding dom_dict_set by (auto split: if_splits)
qed auto

text \<open>A decoded log is an event that the contract at its address declares under its first topic, with exactly the declared arguments.\<close>

theorem decoded_log_is_declared:
  assumes "decode_log dec D address topics data = Inr (Some dl)"
  shows "\<exists>evs ev t0 ts. contract_of D address = Some (dl_contract dl) \<and> topics = t0 # ts \<and> map_of (de_events D) (dl_contract dl) = Some evs \<and>
    map_of evs (str_lower t0) = Some ev \<and> dl_event dl = ea_name ev \<and> length ts = length (ea_indexed ev) \<and>
    dom (map_of (dl_args dl)) = dom (map_of (ea_indexed ev)) \<union> dom (map_of (ea_unindexed ev))"
proof -
  from assms obtain name t0 ts evs ev where e: "contract_of D address = Some name" "topics = t0 # ts" "map_of (de_events D) name = Some evs" "map_of evs (str_lower t0) = Some ev"
    by (auto simp: decode_log_def split: option.splits list.splits)
  from assms e obtain a1 a2 where l: "length ts = length (ea_indexed ev)" and a1: "decode_topics dec (ea_indexed ev) ts [] = Inr a1"
    and a2: "(if ea_unindexed ev = [] then Inr a1 else then_do (if data \<notin> {[], ''0x''} then topic_bytes (drop 2 data) else Inr []) (\<lambda>raw.
      then_do (dec (map snd (ea_unindexed ev)) raw) (\<lambda>vs. name_values (ea_unindexed ev) vs a1))) = Inr a2"
    and dl: "dl = \<lparr>dl_contract = name, dl_event = ea_name ev, dl_args = a2\<rparr>"
    by (auto simp add: decode_log_def then_do_eq_Inr simp del: if_split_eq2)
  have "dom (map_of a2) = dom (map_of a1) \<union> dom (map_of (ea_unindexed ev))"
    using a2 by (cases "ea_unindexed ev = []") (auto simp: then_do_eq_Inr dest!: name_values_keys)
  with decode_topics_keys [OF a1] e l dl show ?thesis by auto
qed

end
