(* ===== verification/Projections.thy ===== *)
theory Projections
  imports Json_Access Domain "HOL-Library.Product_Lexorder"
begin

text \<open>
  The read models replayed from the journal of chain logs (\<open>projections/indexer.py\<close>: \<open>replay\<close>, \<open>_project_credit\<close>, \<open>_project_receivable\<close>,
  \<open>_project_repayments\<close>; \<open>reconciliation/chain_reader.py\<close>: \<open>pair_repayment_events\<close>; the tables of \<open>db/projections_models.py\<close>). Every statement of the
  code is restricted to one deployment, so the tables here are the rows of one deployment. The arguments of an event are
  the JSON object the decoder stored.
\<close>

section \<open>Journal rows\<close>

datatype tier = T_PENDING | T_FINALIZED

record chain_deployment =
  cd_chain_id :: int
  cd_profile :: execution_profile
  cd_block :: int
  cd_contracts :: "(string, string) dict"
  cd_finality_depth :: int

record chain_block =
  cb_number :: int
  cb_hash :: string
  cb_parent :: string
  cb_timestamp :: int
  cb_tier :: tier

record chain_log =
  lg_block :: int
  lg_block_hash :: string
  lg_tx_hash :: string
  lg_tx_index :: int
  lg_index :: int
  lg_status :: int
  lg_address :: string
  lg_contract :: string
  lg_event :: string
  lg_topics :: "string list"
  lg_data :: string
  lg_args :: json
  lg_tier :: tier

definition arg_int :: "chain_log \<Rightarrow> string \<Rightarrow> app_error + int" where
  "arg_int l k = then_do (json_field (lg_args l) k) json_int"

definition arg_str :: "chain_log \<Rightarrow> string \<Rightarrow> app_error + string" where
  "arg_str l k = need_str (lg_args l) k"

definition block_at :: "chain_block list \<Rightarrow> int \<Rightarrow> chain_block option" where
  "block_at blocks n = List.find (\<lambda>b. cb_number b = n) blocks"

text \<open>An optional string argument; the columns hold strings.\<close>

definition get_str :: "chain_log \<Rightarrow> string \<Rightarrow> string option \<Rightarrow> app_error + string option" where
  "get_str l k d = (case json_get (lg_args l) k of
     None \<Rightarrow> Inr d | Some (JStr s) \<Rightarrow> Inr (Some s) | Some JNull \<Rightarrow> Inr None | Some _ \<Rightarrow> Inl (OtherError ''DataError''))"

text \<open>\<open>a.get(k)\<close> used as a key when it is true.\<close>

definition key_arg :: "chain_log \<Rightarrow> string \<Rightarrow> app_error + string option" where
  "key_arg l k = then_do (get_str l k None) (\<lambda>s. Inr (if s = Some [] then None else s))"

text \<open>\<open>d[k] = f(d.get(k) or new)\<close>.\<close>

definition touch :: "'k \<Rightarrow> 'v \<Rightarrow> ('v \<Rightarrow> 'e + 'v) \<Rightarrow> ('k, 'v) dict \<Rightarrow> 'e + ('k, 'v) dict" where
  "touch k new f d = then_do (f (case map_of d k of None \<Rightarrow> new | Some v \<Rightarrow> v)) (\<lambda>v. Inr (dict_set k v d))"

section \<open>Facilities\<close>

record proj_facility =
  pf_borrower :: "string option"
  pf_profile :: execution_profile
  pf_state :: facility_state
  pf_principal :: int
  pf_fees :: int
  pf_interest :: int
  pf_rate :: int
  pf_last_accrual :: "int option"
  pf_frozen :: bool
  pf_decision :: "string option"
  pf_auth_until :: "int option"
  pf_last_block :: int

definition new_proj_facility :: "chain_deployment \<Rightarrow> int \<Rightarrow> proj_facility" where
  "new_proj_facility d block = \<lparr>pf_borrower = None, pf_profile = cd_profile d, pf_state = FS_DRAFT, pf_principal = 0, pf_fees = 0, pf_interest = 0, pf_rate = 0,
     pf_last_accrual = None, pf_frozen = False, pf_decision = None, pf_auth_until = None, pf_last_block = block\<rparr>"

definition FACILITY_STATES :: "facility_state list" where
  "FACILITY_STATES = [FS_DRAFT, FS_UNDER_REVIEW, FS_CONTROL_PENDING, FS_ACTIVE, FS_DRAW_FROZEN, FS_DELINQUENT, FS_DEFAULTED, FS_RECOVERY, FS_REPAID,
     FS_RELEASED, FS_CLOSED_WITH_LOSS]"

definition EXECUTION_PROFILES :: "execution_profile list" where
  "EXECUTION_PROFILES = [EP_LOCAL_MOCK, EP_NATIVE_TESTNET, EP_PRODUCTION]"

definition profile_matches :: "chain_deployment \<Rightarrow> chain_log \<Rightarrow> app_error + unit" where
  "profile_matches d l = (case json_get (lg_args l) ''profile'' of
     None \<Rightarrow> Inr ()
   | Some j \<Rightarrow> then_do (json_int j) (\<lambda>i. then_do (py_index EXECUTION_PROFILES i) (\<lambda>p.
       ensure (p = cd_profile d) (ValueError ''event execution profile differs from deployment'') (Inr ()))))"

definition facility_opened :: "chain_deployment \<Rightarrow> chain_log \<Rightarrow> proj_facility \<Rightarrow> app_error + proj_facility" where
  "facility_opened d l f =
    then_do (profile_matches d l) (\<lambda>_.
    then_do (get_str l ''borrowerId'' (pf_borrower f)) (\<lambda>borrower.
    then_do (case json_get (lg_args l) ''rateBps'' of None \<Rightarrow> Inr (pf_rate f) | Some j \<Rightarrow> json_int j) (\<lambda>rate.
    then_do (case json_get (lg_args l) ''openedAt'' of None \<Rightarrow> Inr (pf_last_accrual f) | Some j \<Rightarrow> then_do (json_int j) (\<lambda>t. Inr (Some t))) (\<lambda>accrual.
      Inr (f\<lparr>pf_borrower := borrower, pf_rate := rate, pf_last_accrual := accrual\<rparr>)))))"

definition facility_allocated :: "chain_log \<Rightarrow> proj_facility \<Rightarrow> app_error + proj_facility" where
  "facility_allocated l f =
    then_do (arg_int l ''feePaid'') (\<lambda>fee. then_do (arg_int l ''interestPaid'') (\<lambda>interest. then_do (arg_int l ''principalPaid'') (\<lambda>principal.
    then_do (arg_int l ''newDebt'') (\<lambda>debt.
      ensure (pf_fees f - fee + (pf_interest f - interest) + (pf_principal f - principal) = debt) (ValueError ''debt event conservation discrepancy'')
        (Inr (f\<lparr>pf_fees := pf_fees f - fee, pf_interest := pf_interest f - interest, pf_principal := pf_principal f - principal\<rparr>))))))"

definition facility_state_arg :: "chain_log \<Rightarrow> app_error + facility_state" where
  "facility_state_arg l =
    then_do (case json_get (lg_args l) ''state'' of Some j \<Rightarrow> json_int j
       | None \<Rightarrow> (case json_get (lg_args l) ''to'' of Some j \<Rightarrow> json_int j | None \<Rightarrow> Inl (OtherError ''TypeError: int''))) (py_index FACILITY_STATES)"

definition facility_event :: "chain_deployment \<Rightarrow> chain_log \<Rightarrow> proj_facility \<Rightarrow> app_error + proj_facility" where
  "facility_event d l f0 =
    (let f = f0\<lparr>pf_last_block := lg_block l\<rparr>; ev = lg_event l
     in if ev = ''FacilityOpened'' then facility_opened d l f
        else if ev = ''Drawn'' then then_do (arg_int l ''newPrincipal'') (\<lambda>p. Inr (f\<lparr>pf_principal := p\<rparr>))
        else if ev = ''Capitalized''
        then then_do (arg_int l ''newPrincipal'') (\<lambda>p. then_do (arg_int l ''interestUnits'') (\<lambda>i. Inr (f\<lparr>pf_principal := p, pf_interest := pf_interest f - i\<rparr>)))
        else if ev = ''Accrued''
        then then_do (arg_int l ''interestUnits'') (\<lambda>i. then_do (arg_int l ''to'') (\<lambda>t. then_do (arg_int l ''rateBps'') (\<lambda>r.
          Inr (f\<lparr>pf_interest := pf_interest f + i, pf_last_accrual := Some t, pf_rate := r\<rparr>))))
        else if ev = ''FeeCharged'' then then_do (arg_int l ''amount'') (\<lambda>n. Inr (f\<lparr>pf_fees := pf_fees f + n\<rparr>))
        else if ev = ''Allocated'' then facility_allocated l f
        else if ev = ''AccrualFrozen'' then Inr (f\<lparr>pf_frozen := True\<rparr>)
        else if ev \<in> {''StateSet'', ''StateChanged''} then then_do (facility_state_arg l) (\<lambda>st. Inr (f\<lparr>pf_state := st\<rparr>))
        else if ev = ''FacilityFrozen'' then Inr (f\<lparr>pf_state := FS_DRAW_FROZEN\<rparr>)
        else if ev = ''AuthorizationAnchored''
        then then_do (arg_str l ''decisionHash'') (\<lambda>h. then_do (arg_int l ''validUntil'') (\<lambda>t. Inr (f\<lparr>pf_decision := Some h, pf_auth_until := Some t\<rparr>)))
        else Inr f)"

definition project_facility :: "chain_deployment \<Rightarrow> chain_log \<Rightarrow> (string, proj_facility) dict \<Rightarrow> app_error + (string, proj_facility) dict" where
  "project_facility d l fs =
    then_do (key_arg l ''facilityId'') (\<lambda>key.
    (case key of
       Some k \<Rightarrow> if lg_contract l \<in> {''DebtLedger'', ''CreditFacilityManager''} then touch k (new_proj_facility d (lg_block l)) (facility_event d l) fs else Inr fs
     | None \<Rightarrow> Inr fs))"

section \<open>Receivables\<close>

record chain_history =
  hs_event :: string
  hs_tx_hash :: string
  hs_block :: int
  hs_index :: int
  hs_args :: json

record proj_receivable =
  prc_account :: string
  prc_obligation :: string
  prc_facility :: "string option"
  prc_state :: string
  prc_net :: int
  prc_paid :: int
  prc_revision :: int
  prc_disputed :: bool
  prc_recognition_tx :: string
  prc_last_tx :: string
  prc_first_block :: int
  prc_last_block :: int
  prc_history :: "chain_history list"

definition CORRECTION_REASON_CANCEL :: int where "CORRECTION_REASON_CANCEL = 3"

definition history_of :: "chain_log \<Rightarrow> chain_history" where
  "history_of l = \<lparr>hs_event = lg_event l, hs_tx_hash = lg_tx_hash l, hs_block = lg_block l, hs_index = lg_index l, hs_args = lg_args l\<rparr>"

definition recognized :: "chain_log \<Rightarrow> app_error + proj_receivable" where
  "recognized l =
    then_do (arg_str l ''accountKey'') (\<lambda>account. then_do (arg_str l ''obligationRef'') (\<lambda>obligation. then_do (arg_int l ''net'') (\<lambda>net.
      Inr \<lparr>prc_account = account, prc_obligation = obligation, prc_facility = None, prc_state = ''OPEN'', prc_net = net, prc_paid = 0, prc_revision = 1, prc_disputed = False,
        prc_recognition_tx = lg_tx_hash l, prc_last_tx = lg_tx_hash l, prc_first_block = lg_block l, prc_last_block = lg_block l, prc_history = []\<rparr>)))"

text \<open>The events after recognition; \<open>None\<close> is an event that does not concern the row.\<close>

definition receivable_event :: "chain_log \<Rightarrow> proj_receivable \<Rightarrow> app_error + proj_receivable option" where
  "receivable_event l r =
    (let ev = lg_event l
     in if ev = ''ReceivableAssigned''
        then then_do (arg_str l ''facilityId'') (\<lambda>k. then_do (arg_int l ''revision'') (\<lambda>n. Inr (Some (r\<lparr>prc_facility := Some k, prc_state := ''ASSIGNED'', prc_revision := n\<rparr>))))
        else if ev = ''ReceivableCorrected''
        then then_do (arg_int l ''delta'') (\<lambda>delta. then_do (arg_int l ''revision'') (\<lambda>n. then_do (arg_int l ''reason'') (\<lambda>reason.
          Inr (Some (r\<lparr>prc_net := prc_net r + delta, prc_revision := n, prc_state := (if reason = CORRECTION_REASON_CANCEL then ''CANCELLED'' else prc_state r)\<rparr>)))))
        else if ev = ''ReceivablePaid''
        then then_do (arg_int l ''amount'') (\<lambda>n. then_do (arg_int l ''unpaidAfter'') (\<lambda>unpaid.
          ensure (prc_net r - (prc_paid r + n) = unpaid) (ValueError ''receivable payout conservation discrepancy'')
            (Inr (Some (r\<lparr>prc_paid := prc_paid r + n, prc_revision := prc_revision r + 1, prc_state := (if prc_paid r + n = prc_net r then ''PAID'' else prc_state r)\<rparr>)))))
        else if ev = ''ReceivablePayoutCancelled''
        then then_do (arg_int l ''amount'') (\<lambda>n. Inr (Some (r\<lparr>prc_paid := prc_paid r - n, prc_revision := prc_revision r + 1,
          prc_state := (if prc_state r = ''PAID'' then (if prc_facility r \<in> {None, Some []} then ''OPEN'' else ''ASSIGNED'') else prc_state r)\<rparr>)))
        else if ev = ''ReceivableDisputed''
        then then_do (json_field (lg_args l) ''disputed'') (\<lambda>j. Inr (Some (r\<lparr>prc_disputed := json_truthy (Some j)\<rparr>)))
        else Inr None)"

definition settle_row :: "chain_log \<Rightarrow> proj_receivable \<Rightarrow> app_error + proj_receivable" where
  "settle_row l r =
    ensure (0 \<le> prc_net r \<and> 0 \<le> prc_paid r \<and> prc_paid r \<le> prc_net r) (ValueError ''receivable amount conservation discrepancy'')
      (Inr (r\<lparr>prc_last_tx := lg_tx_hash l, prc_last_block := lg_block l, prc_history := prc_history r @ [history_of l]\<rparr>))"

definition project_receivable :: "chain_log \<Rightarrow> (string, proj_receivable) dict \<Rightarrow> app_error + (string, proj_receivable) dict" where
  "project_receivable l rs =
    then_do (key_arg l ''receivableId'') (\<lambda>key.
    (case key of
       None \<Rightarrow> Inr rs
     | Some k \<Rightarrow>
         then_do (case map_of rs k of
             None \<Rightarrow> if lg_event l = ''ReceivableRecognized'' then then_do (recognized l) (\<lambda>r. Inr (Some r))
               else Inl (ValueError ''receivable event before its recognition in the canonical journal'')
           | Some r \<Rightarrow> if lg_event l = ''ReceivableRecognized'' then Inl (ValueError ''receivable recognised twice in the canonical journal'') else receivable_event l r)
           (\<lambda>row. (case row of None \<Rightarrow> Inr rs | Some r \<Rightarrow> then_do (settle_row l r) (\<lambda>r. Inr (dict_set k r rs))))))"

section \<open>Credit status\<close>

definition CREDIT_EVENTS :: "(string \<times> string) list" where
  "CREDIT_EVENTS = [(''CreditFacilityManager'', ''StateChanged''), (''RecoveryManager'', ''ScheduleSet''), (''RecoveryManager'', ''DisputeSet''),
     (''RecoveryManager'', ''DefaultApproved''), (''RecoveryManager'', ''ReserveFunded''), (''RecoveryManager'', ''ReserveApplied''), (''RecoveryManager'', ''LossApplied''),
     (''LendingVaultV2'', ''ImpairmentRecognized''), (''LendingVaultV2'', ''ImpairmentReversed''), (''LendingVaultV2'', ''WrittenOff'')]"

definition is_credit_event :: "chain_log \<Rightarrow> bool" where
  "is_credit_event l \<longleftrightarrow> (lg_contract l, lg_event l) \<in> set CREDIT_EVENTS"

record transition_entry =
  te_from :: facility_state
  te_to :: facility_state
  te_trigger :: string
  te_authority :: string
  te_tx_hash :: string
  te_block :: int
  te_at :: int

record proj_credit =
  pk_state :: facility_state
  pk_trigger :: "string option"
  pk_authority :: "string option"
  pk_changed_at :: "int option"
  pk_tx_hash :: "string option"
  pk_due_at :: "int option"
  pk_grace :: "int option"
  pk_due_amount :: "int option"
  pk_set_at :: "int option"
  pk_disputed :: bool
  pk_default_reason :: "string option"
  pk_default_at :: "int option"
  pk_reserve_owner :: "string option"
  pk_pledged :: int
  pk_applied :: int
  pk_impairment :: int
  pk_loss_id :: "string option"
  pk_loss_amount :: "int option"
  pk_written_off_at :: "int option"
  pk_transitions :: "transition_entry list"
  pk_last_block :: int

definition new_proj_credit :: "int \<Rightarrow> proj_credit" where
  "new_proj_credit block = \<lparr>pk_state = FS_DRAFT, pk_trigger = None, pk_authority = None, pk_changed_at = None, pk_tx_hash = None, pk_due_at = None, pk_grace = None,
     pk_due_amount = None, pk_set_at = None, pk_disputed = False, pk_default_reason = None, pk_default_at = None, pk_reserve_owner = None, pk_pledged = 0, pk_applied = 0,
     pk_impairment = 0, pk_loss_id = None, pk_loss_amount = None, pk_written_off_at = None, pk_transitions = [], pk_last_block = block\<rparr>"

definition state_changed :: "chain_log \<Rightarrow> int \<Rightarrow> proj_credit \<Rightarrow> app_error + proj_credit" where
  "state_changed l t c =
    then_do (arg_int l ''to'') (\<lambda>i. then_do (py_index FACILITY_STATES i) (\<lambda>new.
    then_do (arg_str l ''trigger'') (\<lambda>trigger. then_do (arg_str l ''authority'') (\<lambda>authority.
    then_do (arg_int l ''from'') (\<lambda>j. then_do (py_index FACILITY_STATES j) (\<lambda>old.
      Inr (c\<lparr>pk_state := new, pk_trigger := Some trigger, pk_authority := Some authority, pk_changed_at := Some t, pk_tx_hash := Some (lg_tx_hash l),
        pk_transitions := pk_transitions c @ [\<lparr>te_from = old, te_to = new, te_trigger = trigger, te_authority = authority, te_tx_hash = lg_tx_hash l,
          te_block = lg_block l, te_at = t\<rparr>]\<rparr>)))))))"

definition recovery_event :: "chain_log \<Rightarrow> int \<Rightarrow> proj_credit \<Rightarrow> app_error + proj_credit" where
  "recovery_event l t c =
    (let ev = lg_event l
     in if ev = ''ScheduleSet''
        then then_do (arg_int l ''dueAt'') (\<lambda>due. then_do (arg_int l ''graceSeconds'') (\<lambda>grace. then_do (arg_int l ''dueAmount'') (\<lambda>n.
          Inr (c\<lparr>pk_due_at := Some due, pk_grace := Some grace, pk_due_amount := Some n, pk_set_at := Some t, pk_disputed := False\<rparr>))))
        else if ev = ''DisputeSet''
        then then_do (json_field (lg_args l) ''disputed'') (\<lambda>j. let b = json_truthy (Some j) in
          Inr (if b then c\<lparr>pk_disputed := True, pk_default_reason := None, pk_default_at := None\<rparr> else c\<lparr>pk_disputed := False\<rparr>))
        else if ev = ''DefaultApproved'' then then_do (arg_str l ''reason'') (\<lambda>r. Inr (c\<lparr>pk_default_reason := Some r, pk_default_at := Some t\<rparr>))
        else if ev = ''ReserveFunded''
        then then_do (arg_str l ''owner'') (\<lambda>w. then_do (arg_int l ''amount'') (\<lambda>n. Inr (c\<lparr>pk_reserve_owner := Some w, pk_pledged := pk_pledged c + n\<rparr>)))
        else if ev = ''ReserveApplied''
        then then_do (arg_int l ''amount'') (\<lambda>n. ensure (n \<le> pk_pledged c) (ValueError ''reserve application exceeds the pledged reserve'')
          (Inr (c\<lparr>pk_pledged := pk_pledged c - n, pk_applied := pk_applied c + n\<rparr>)))
        else if ev = ''LossApplied''
        then then_do (json_field (lg_args l) ''writeOff'') (\<lambda>j. if json_truthy (Some j)
          then then_do (arg_str l ''lossId'') (\<lambda>i. then_do (arg_int l ''amount'') (\<lambda>n. Inr (c\<lparr>pk_loss_id := Some i, pk_loss_amount := Some n, pk_written_off_at := Some t\<rparr>)))
          else Inr c)
        else Inr c)"

definition impairment_event :: "chain_log \<Rightarrow> proj_credit \<Rightarrow> app_error + proj_credit" where
  "impairment_event l c =
    (let ev = lg_event l
     in if ev = ''ImpairmentRecognized'' then then_do (arg_int l ''amount'') (\<lambda>n. Inr (c\<lparr>pk_impairment := pk_impairment c + n\<rparr>))
        else if ev = ''ImpairmentReversed''
        then then_do (arg_int l ''amount'') (\<lambda>n. ensure (n \<le> pk_impairment c) (ValueError ''impairment reversal exceeds the recognised impairment'')
          (Inr (c\<lparr>pk_impairment := pk_impairment c - n\<rparr>)))
        else Inr (c\<lparr>pk_impairment := 0\<rparr>))"

definition credit_event :: "chain_log \<Rightarrow> int \<Rightarrow> proj_credit \<Rightarrow> app_error + proj_credit" where
  "credit_event l t c0 =
    (let c = c0\<lparr>pk_last_block := lg_block l\<rparr>; ev = lg_event l
     in if ev = ''StateChanged'' then state_changed l t c
        else if ev \<in> {''ImpairmentRecognized'', ''ImpairmentReversed'', ''WrittenOff''} then impairment_event l c
        else recovery_event l t c)"

definition project_credit :: "chain_block list \<Rightarrow> chain_log \<Rightarrow> (string, proj_credit) dict \<Rightarrow> app_error + (string, proj_credit) dict" where
  "project_credit blocks l cs =
    (if \<not> is_credit_event l then Inr cs
     else then_do (arg_str l ''facilityId'') (\<lambda>key.
       (case block_at blocks (lg_block l) of
          None \<Rightarrow> Inl (ValueError ''credit event lacks its canonical block journal row'')
        | Some b \<Rightarrow> touch key (new_proj_credit (lg_block l)) (credit_event l (cb_timestamp b)) cs)))"

section \<open>Evidence\<close>

record proj_evidence =
  pev_source_event :: string
  pev_economic_key :: string
  pev_consumer :: string
  pev_meaning :: string
  pev_manifest :: string
  pev_method :: string
  pev_profile :: execution_profile
  pev_height :: int
  pev_tx_index :: int
  pev_ordinal :: int
  pev_tx_hash :: string
  pev_block :: int
  pev_block_hash :: string
  pev_index :: int

definition event_id :: "chain_log \<Rightarrow> json" where
  "event_id l = (case json_get (lg_args l) ''id'' of None \<Rightarrow> JNull | Some j \<Rightarrow> j)"

text \<open>The verifier's event of a transaction and id; the last of the journal wins.\<close>

definition verified_proof :: "chain_log list \<Rightarrow> string \<Rightarrow> json \<Rightarrow> json option" where
  "verified_proof logs tx i =
    map_option lg_args (List.find (\<lambda>l. lg_contract l = ''AttestcoinRevenueVerifier'' \<and> lg_event l = ''SourceEventVerified'' \<and> lg_tx_hash l = tx \<and> event_id l = i) (rev logs))"

definition evidence_row :: "chain_deployment \<Rightarrow> chain_log \<Rightarrow> json \<Rightarrow> app_error + proj_evidence" where
  "evidence_row d l v =
    then_do (arg_str l ''id'') (\<lambda>i. then_do (arg_str l ''economicEventId'') (\<lambda>e. then_do (arg_str l ''consumer'') (\<lambda>c. then_do (arg_str l ''meaning'') (\<lambda>m.
    then_do (arg_str l ''manifestHash'') (\<lambda>h.
    then_do (then_do (json_field v ''height'') json_int) (\<lambda>height. then_do (then_do (json_field v ''txIndex'') json_int) (\<lambda>ti.
    then_do (then_do (json_field v ''logOrdinal'') json_int) (\<lambda>ordinal.
      Inr \<lparr>pev_source_event = i, pev_economic_key = e, pev_consumer = c, pev_meaning = m, pev_manifest = h,
        pev_method = (if cd_profile d = EP_LOCAL_MOCK then ''LOCAL_MOCK'' else ''ATTESTCOIN_NATIVE''), pev_profile = cd_profile d, pev_height = height, pev_tx_index = ti,
        pev_ordinal = ordinal, pev_tx_hash = lg_tx_hash l, pev_block = lg_block l, pev_block_hash = lg_block_hash l, pev_index = lg_index l\<rparr>))))))))"

definition project_evidence :: "chain_deployment \<Rightarrow> chain_log list \<Rightarrow> chain_log \<Rightarrow> proj_evidence list \<Rightarrow> app_error + proj_evidence list" where
  "project_evidence d logs l es =
    (if lg_contract l = ''EvidenceBook'' \<and> lg_event l = ''SourceEventConsumed''
     then then_do (json_field (lg_args l) ''id'') (\<lambda>i.
       (let v = verified_proof logs (lg_tx_hash l) i
        in ensure (json_truthy v) (ValueError ''app consumption lacks native verifier event in same transaction'')
          (then_do (evidence_row d l (the v)) (\<lambda>e. Inr (es @ [e])))))
     else Inr es)"

section \<open>Entities\<close>

record proj_entity =
  en_state :: "(string, json) dict"
  en_last_block :: int

definition entity_kind :: "string \<Rightarrow> string" where
  "entity_kind contract = (case map_of [(''LendingVaultV2'', ''VAULT''), (''ProviderRegistry'', ''PROVIDER''), (''ControlRegistry'', ''CONTROL_AGREEMENT''),
     (''ReceivableBook'', ''RECEIVABLE''), (''ExposureController'', ''RESERVATION''), (''GpuRiskPolicy'', ''POLICY''), (''ProtocolRoles'', ''ROLE''),
     (''RevenueEscrow'', ''ESCROW''), (''SourceEscrow'', ''ESCROW''), (''EvidenceBook'', ''VERIFIER_BINDING'')] contract of None \<Rightarrow> ''ADMIN'' | Some k \<Rightarrow> k)"

definition ENTITY_KEYS :: "string list" where
  "ENTITY_KEYS = [''receivableId'', ''reservationId'', ''agreementId'', ''providerId'', ''accountKey'']"

definition entity_key :: "chain_log \<Rightarrow> app_error + string" where
  "entity_key l = (case List.find (\<lambda>k. json_get (lg_args l) k \<noteq> None) ENTITY_KEYS of None \<Rightarrow> Inr (lg_address l) | Some k \<Rightarrow> arg_str l k)"

definition ZERO_ADDRESS :: string where
  "ZERO_ADDRESS = ''0x'' @ replicate 40 CHR ''0''"

definition balance_of :: "string \<Rightarrow> (string, json) dict \<Rightarrow> app_error + int" where
  "balance_of who balances = (case map_of balances who of None \<Rightarrow> Inr 0 | Some j \<Rightarrow> json_int j)"

definition state_balances :: "(string, json) dict \<Rightarrow> app_error + (string, json) dict" where
  "state_balances st = (case map_of st ''shareBalances'' of None \<Rightarrow> Inr [] | Some (JObj kvs) \<Rightarrow> Inr kvs | Some _ \<Rightarrow> Inl (OtherError ''TypeError: dict''))"

definition state_total :: "(string, json) dict \<Rightarrow> app_error + int" where
  "state_total st = (case map_of st ''totalShares'' of None \<Rightarrow> Inr 0 | Some j \<Rightarrow> json_int j)"

definition move_shares :: "string \<Rightarrow> int \<Rightarrow> (string, json) dict \<Rightarrow> app_error + (string, json) dict" where
  "move_shares who n balances = then_do (balance_of who balances) (\<lambda>b. Inr (dict_set who (JStr (str_int (b + n))) balances))"

fun values_nonneg :: "(string, json) dict \<Rightarrow> app_error + bool" where
  "values_nonneg [] = Inr True"
| "values_nonneg ((k, j) # rest) = then_do (json_int j) (\<lambda>n. if n < 0 then Inr False else values_nonneg rest)"

definition transfer_shares :: "chain_log \<Rightarrow> (string, json) dict \<Rightarrow> app_error + (string, json) dict" where
  "transfer_shares l st =
    then_do (state_balances st) (\<lambda>balances. then_do (state_total st) (\<lambda>total. then_do (arg_int l ''value'') (\<lambda>n.
    then_do (arg_str l ''from'') (\<lambda>src. then_do (arg_str l ''to'') (\<lambda>dst.
    then_do (if src = ZERO_ADDRESS then Inr balances else move_shares src (- n) balances) (\<lambda>balances.
    then_do (if dst = ZERO_ADDRESS then Inr balances else move_shares dst n balances) (\<lambda>balances.
    (let total = total + (if src = ZERO_ADDRESS then n else 0) - (if dst = ZERO_ADDRESS then n else 0)
     in then_do (values_nonneg balances) (\<lambda>ok.
        ensure (0 \<le> total \<and> ok) (ValueError ''share event conservation discrepancy; deployment history incomplete'')
          (Inr (dict_set ''totalShares'' (JStr (str_int total)) (dict_set ''shareBalances'' (JObj balances) st))))))))))))"

definition entity_event :: "chain_log \<Rightarrow> proj_entity \<Rightarrow> app_error + proj_entity" where
  "entity_event l e =
    (let st = dict_set ''lastTxHash'' (JStr (lg_tx_hash l)) (dict_set ''lastEvent'' (JStr (lg_event l)) (dict_set (lg_event l) (lg_args l) (en_state e)))
     in then_do (if lg_contract l = ''LendingVaultV2'' \<and> lg_event l = ''Transfer'' then transfer_shares l st else Inr st) (\<lambda>st.
          Inr \<lparr>en_state = st, en_last_block = lg_block l\<rparr>))"

definition project_entity :: "chain_log \<Rightarrow> (string \<times> string, proj_entity) dict \<Rightarrow> app_error + (string \<times> string, proj_entity) dict" where
  "project_entity l es =
    then_do (entity_key l) (\<lambda>k. touch (entity_kind (lg_contract l), k) \<lparr>en_state = [], en_last_block = lg_block l\<rparr> (entity_event l) es)"

section \<open>Repayment legs\<close>

text \<open>\<open>pair_repayment_events\<close>: whatever raises inside it is \<open>None\<close>, like the cases it refuses.\<close>

definition REPAYMENT_CONTRACTS :: "string list" where
  "REPAYMENT_CONTRACTS = [''CreditFacilityManager'', ''RepaymentRouter'']"

definition ZERO_REF :: string where
  "ZERO_REF = ''0x'' @ replicate 64 CHR ''0''"

definition is_repaid :: "chain_log \<Rightarrow> bool" where
  "is_repaid l \<longleftrightarrow> lg_contract l \<in> set REPAYMENT_CONTRACTS \<and> lg_event l = ''Repaid''"

definition is_allocated :: "chain_log \<Rightarrow> bool" where
  "is_allocated l \<longleftrightarrow> lg_contract l = ''DebtLedger'' \<and> lg_event l = ''Allocated''"

definition is_receipt :: "chain_log \<Rightarrow> bool" where
  "is_receipt l \<longleftrightarrow> lg_contract l = ''LendingVaultV2'' \<and> lg_event l = ''RepaymentReceived''"

definition canonical_uint :: "json \<Rightarrow> int option" where
  "canonical_uint j = Option.bind (case j of JInt i \<Rightarrow> Some i | JStr s \<Rightarrow> map_option int (nat_of_str s) | _ \<Rightarrow> None) (\<lambda>i. if 0 \<le> i \<and> i < 2 ^ 256 then Some i else None)"

definition uint_arg :: "chain_log \<Rightarrow> string \<Rightarrow> int option" where
  "uint_arg l k = Option.bind (json_get (lg_args l) k) canonical_uint"

definition event_configured :: "(string, string) dict \<Rightarrow> string \<Rightarrow> chain_log \<Rightarrow> bool option" where
  "event_configured contracts key l =
    (if str_lower (lg_address l) \<noteq> str_lower (case map_of contracts (lg_contract l) of None \<Rightarrow> [] | Some a \<Rightarrow> a) then Some False
     else (case json_get (lg_args l) ''facilityId'' of
        None \<Rightarrow> Some (str_lower key = [])
      | Some (JStr s) \<Rightarrow> Some (str_lower s = str_lower key)
      | Some _ \<Rightarrow> None))"

fun configured_logs :: "(string, string) dict \<Rightarrow> string \<Rightarrow> chain_log list \<Rightarrow> chain_log list option" where
  "configured_logs contracts key [] = Some []"
| "configured_logs contracts key (l # ls) =
     Option.bind (event_configured contracts key l) (\<lambda>b. Option.bind (configured_logs contracts key ls) (\<lambda>rest. Some (if b then l # rest else rest)))"

definition tx_identity :: "chain_log \<Rightarrow> string \<times> int \<times> string \<times> int" where
  "tx_identity l = (lg_tx_hash l, lg_block l, lg_block_hash l, lg_tx_index l)"

text \<open>The leg of a repayment: what lies between the previous repayment of the transaction and it.\<close>

definition previous_repaid :: "chain_log list \<Rightarrow> int \<Rightarrow> int" where
  "previous_repaid same i = (let xs = map lg_index (filter (\<lambda>l. is_repaid l \<and> lg_index l < i) same) in if xs = [] then - 1 else Max (set xs))"

definition leg_of :: "chain_log list \<Rightarrow> int \<Rightarrow> chain_log list" where
  "leg_of same i = filter (\<lambda>l. previous_repaid same i < lg_index l \<and> lg_index l < i) same"

definition next_leg :: "chain_log list \<Rightarrow> int \<Rightarrow> int option" where
  "next_leg same i = (let xs = map lg_index (filter (\<lambda>l. i < lg_index l \<and> (is_repaid l \<or> is_allocated l)) same) in if xs = [] then None else Some (Min (set xs)))"

definition settlement_marked :: "chain_log list \<Rightarrow> chain_log \<Rightarrow> int \<Rightarrow> bool" where
  "settlement_marked same allocated i \<longleftrightarrow>
    list_ex (\<lambda>l. lg_contract l = ''RepaymentRouter'' \<and> lg_event l = ''AllocationApplied'' \<and> lg_index allocated < lg_index l \<and>
      (case next_leg same i of None \<Rightarrow> True | Some n \<Rightarrow> lg_index l < n)) same"

definition direct_reference :: "bool \<Rightarrow> chain_log \<Rightarrow> bool" where
  "direct_reference allow repaid \<longleftrightarrow> lg_contract repaid \<noteq> ''RepaymentRouter'' \<or> allow \<or>
    (case json_get (lg_args repaid) ''settlementRef'' of Some (JStr s) \<Rightarrow> str_lower s = ZERO_REF | _ \<Rightarrow> False)"

definition leg_amounts_agree :: "chain_log \<Rightarrow> chain_log \<Rightarrow> chain_log \<Rightarrow> bool" where
  "leg_amounts_agree repaid allocated vault \<longleftrightarrow>
    (case (those (map (uint_arg allocated) [''feePaid'', ''interestPaid'', ''principalPaid'', ''excess'', ''newDebt'']),
           those (map (uint_arg vault) [''received'', ''applied'', ''excess'']),
           those (map (uint_arg repaid) [''requested'', ''newDebt'', ''received'', ''applied'', ''excess''])) of
       (Some [fee, interest, prin, aexcess, debt], Some [received, applied, excess], Some [_, rdebt, rreceived, rapplied, rexcess]) \<Rightarrow>
         0 < received \<and> received = applied + excess \<and> applied = fee + interest + prin \<and> excess = aexcess \<and> rdebt = debt \<and>
         rreceived = received \<and> rapplied = applied \<and> rexcess = excess \<and>
         (lg_contract repaid = ''RepaymentRouter'' \<longrightarrow>
            uint_arg repaid ''feePaid'' = Some fee \<and> uint_arg repaid ''interestPaid'' = Some interest \<and> uint_arg repaid ''principalPaid'' = Some prin)
     | _ \<Rightarrow> False)"

definition pair_repayment_events ::
  "chain_log list \<Rightarrow> (string, string) dict \<Rightarrow> int \<Rightarrow> string \<Rightarrow> bool \<Rightarrow> (chain_log \<times> chain_log \<times> chain_log) option" where
  "pair_repayment_events logs contracts target key allow =
    Option.bind (configured_logs contracts key logs) (\<lambda>configured.
    (case filter (\<lambda>l. lg_index l = target \<and> is_repaid l) configured of
       [repaid] \<Rightarrow>
         (let same = filter (\<lambda>l. tx_identity l = tx_identity repaid) configured; leg = leg_of same target
          in case (filter is_allocated leg, filter is_receipt leg) of
               ([allocated], [vault]) \<Rightarrow>
                 if lg_index allocated < lg_index vault \<and> \<not> settlement_marked same allocated target \<and> direct_reference allow repaid \<and>
                    leg_amounts_agree repaid allocated vault
                 then Some (repaid, allocated, vault) else None
             | _ \<Rightarrow> None)
     | _ \<Rightarrow> None))"

record proj_repayment =
  pj_tx_hash :: string
  pj_index :: int
  pj_facility :: string
  pj_contract :: string
  pj_payer :: string
  pj_settlement_ref :: "string option"
  pj_requested :: int
  pj_received :: int
  pj_fee :: int
  pj_interest :: int
  pj_principal :: int
  pj_excess :: int
  pj_new_debt :: int
  pj_block :: int
  pj_block_hash :: string
  pj_timestamp :: int

definition repayment_row :: "chain_block list \<Rightarrow> string \<Rightarrow> chain_log \<times> chain_log \<times> chain_log \<Rightarrow> app_error + proj_repayment" where
  "repayment_row blocks key p =
    (case p of (repaid, allocated, vault) \<Rightarrow>
      then_do (arg_int allocated ''feePaid'') (\<lambda>fee. then_do (arg_int allocated ''interestPaid'') (\<lambda>interest. then_do (arg_int allocated ''principalPaid'') (\<lambda>principal.
      then_do (arg_int repaid ''received'') (\<lambda>received. then_do (arg_int repaid ''excess'') (\<lambda>excess. then_do (arg_int repaid ''newDebt'') (\<lambda>debt.
      then_do (arg_int vault ''received'') (\<lambda>vreceived. then_do (arg_int vault ''excess'') (\<lambda>vexcess. then_do (arg_int allocated ''newDebt'') (\<lambda>adebt.
      ensure (fee + interest + principal + excess = received \<and> vreceived = received \<and> vexcess = excess \<and> adebt = debt) (ValueError ''repayment event conservation discrepancy'')
      (case block_at blocks (lg_block repaid) of
         None \<Rightarrow> Inl (ValueError ''repayment log is not anchored in the canonical block journal'')
       | Some b \<Rightarrow>
           ensure (cb_hash b = lg_block_hash repaid) (ValueError ''repayment log is not anchored in the canonical block journal'')
           (then_do (arg_str repaid ''payer'') (\<lambda>payer. then_do (get_str repaid ''settlementRef'' None) (\<lambda>sref. then_do (arg_int repaid ''requested'') (\<lambda>requested.
             Inr \<lparr>pj_tx_hash = lg_tx_hash repaid, pj_index = lg_index repaid, pj_facility = key, pj_contract = lg_contract repaid, pj_payer = payer, pj_settlement_ref = sref,
               pj_requested = requested, pj_received = received, pj_fee = fee, pj_interest = interest, pj_principal = principal, pj_excess = excess, pj_new_debt = debt,
               pj_block = lg_block repaid, pj_block_hash = lg_block_hash repaid, pj_timestamp = cb_timestamp b\<rparr>)))))))))))))))"

definition repayment_of :: "chain_deployment \<Rightarrow> chain_block list \<Rightarrow> chain_log list \<Rightarrow> chain_log \<Rightarrow> app_error + proj_repayment option" where
  "repayment_of d blocks logs l =
    (if \<not> is_repaid l then Inr None
     else then_do (key_arg l ''facilityId'') (\<lambda>key.
       (case key of
          None \<Rightarrow> Inr None
        | Some k \<Rightarrow>
            (case pair_repayment_events (filter (\<lambda>m. lg_tx_hash m = lg_tx_hash l) logs) (cd_contracts d) (lg_index l) k True of
               None \<Rightarrow> Inr None
             | Some p \<Rightarrow> then_do (repayment_row blocks k p) (\<lambda>row. Inr (Some row))))))"

fun project_repayments :: "chain_deployment \<Rightarrow> chain_block list \<Rightarrow> chain_log list \<Rightarrow> chain_log list \<Rightarrow> app_error + proj_repayment list" where
  "project_repayments d blocks logs [] = Inr []"
| "project_repayments d blocks logs (l # ls) =
     then_do (repayment_of d blocks logs l) (\<lambda>row. then_do (project_repayments d blocks logs ls) (\<lambda>rows. Inr (case row of None \<Rightarrow> rows | Some r \<Rightarrow> r # rows)))"

section \<open>Replay\<close>

record read_model =
  rm_facilities :: "(string, proj_facility) dict"
  rm_evidence :: "proj_evidence list"
  rm_receivables :: "(string, proj_receivable) dict"
  rm_credits :: "(string, proj_credit) dict"
  rm_entities :: "(string \<times> string, proj_entity) dict"
  rm_repayments :: "proj_repayment list"

definition empty_model :: read_model where
  "empty_model = \<lparr>rm_facilities = [], rm_evidence = [], rm_receivables = [], rm_credits = [], rm_entities = [], rm_repayments = []\<rparr>"

definition project_log :: "chain_deployment \<Rightarrow> chain_block list \<Rightarrow> chain_log list \<Rightarrow> chain_log \<Rightarrow> read_model \<Rightarrow> app_error + read_model" where
  "project_log d blocks logs l rm =
    (if lg_event l = ''UNKNOWN'' then Inr rm
     else then_do (project_facility d l (rm_facilities rm)) (\<lambda>fs.
          then_do (project_evidence d logs l (rm_evidence rm)) (\<lambda>ev.
          then_do (if lg_contract l = ''ReceivableBook'' then project_receivable l (rm_receivables rm) else Inr (rm_receivables rm)) (\<lambda>rs.
          then_do (project_credit blocks l (rm_credits rm)) (\<lambda>cs.
          then_do (project_entity l (rm_entities rm)) (\<lambda>es.
            Inr (rm\<lparr>rm_facilities := fs, rm_evidence := ev, rm_receivables := rs, rm_credits := cs, rm_entities := es\<rparr>)))))))"

fun project_logs :: "chain_deployment \<Rightarrow> chain_block list \<Rightarrow> chain_log list \<Rightarrow> chain_log list \<Rightarrow> read_model \<Rightarrow> app_error + read_model" where
  "project_logs d blocks logs [] rm = Inr rm"
| "project_logs d blocks logs (l # ls) rm = then_do (project_log d blocks logs l rm) (project_logs d blocks logs ls)"

text \<open>The constraints of the tables, checked when a tier is flushed.\<close>

definition facility_checks :: "string \<times> proj_facility \<Rightarrow> bool" where
  "facility_checks e \<longleftrightarrow> (case e of (k, f) \<Rightarrow> is_hex32 k \<and> 0 \<le> pf_principal f \<and> 0 \<le> pf_fees f \<and> 0 \<le> pf_interest f)"

definition receivable_row_checks :: "string \<times> proj_receivable \<Rightarrow> bool" where
  "receivable_row_checks e \<longleftrightarrow> (case e of (k, r) \<Rightarrow> is_hex32 k \<and> is_hex32 (prc_account r) \<and> is_hex32 (prc_obligation r) \<and> is_hex32 (prc_recognition_tx r) \<and>
     is_hex32 (prc_last_tx r) \<and> prc_state r \<in> {''OPEN'', ''ASSIGNED'', ''PAID'', ''CANCELLED''} \<and> 0 \<le> prc_net r \<and> 0 \<le> prc_paid r \<and> prc_paid r \<le> prc_net r \<and> 1 \<le> prc_revision r)"

definition credit_checks :: "string \<times> proj_credit \<Rightarrow> bool" where
  "credit_checks e \<longleftrightarrow> (case e of (k, c) \<Rightarrow> is_hex32 k \<and> 0 \<le> pk_pledged c \<and> 0 \<le> pk_applied c \<and> 0 \<le> pk_impairment c \<and>
     (case pk_loss_amount c of None \<Rightarrow> True | Some n \<Rightarrow> 0 \<le> n) \<and> (pk_loss_id c = None) = (pk_written_off_at c = None))"

definition evidence_checks :: "proj_evidence \<Rightarrow> bool" where
  "evidence_checks e \<longleftrightarrow> is_hex32 (pev_source_event e) \<and> is_hex32 (pev_economic_key e) \<and> is_addr (pev_consumer e)"

definition repayment_checks :: "proj_repayment \<Rightarrow> bool" where
  "repayment_checks r \<longleftrightarrow> is_hex32 (pj_tx_hash r) \<and> is_hex32 (pj_facility r) \<and> is_hex32 (pj_block_hash r) \<and> is_addr (pj_payer r) \<and>
     pj_contract r \<in> set REPAYMENT_CONTRACTS \<and> 0 \<le> pj_requested r \<and> 0 \<le> pj_received r \<and> 0 \<le> pj_fee r \<and> 0 \<le> pj_interest r \<and> 0 \<le> pj_principal r \<and> 0 \<le> pj_excess r \<and>
     0 \<le> pj_new_debt r \<and> pj_fee r + pj_interest r + pj_principal r + pj_excess r = pj_received r"

definition read_model_checks :: "read_model \<Rightarrow> bool" where
  "read_model_checks rm \<longleftrightarrow> list_all facility_checks (rm_facilities rm) \<and> list_all receivable_row_checks (rm_receivables rm) \<and> list_all credit_checks (rm_credits rm) \<and>
     list_all evidence_checks (rm_evidence rm) \<and> distinct (map pev_source_event (rm_evidence rm)) \<and> distinct (map pev_economic_key (rm_evidence rm)) \<and>
     list_all repayment_checks (rm_repayments rm) \<and> distinct (map (\<lambda>r. (pj_tx_hash r, pj_index r)) (rm_repayments rm))"

definition timed_blocks :: "chain_log list \<Rightarrow> chain_block list \<Rightarrow> chain_block list" where
  "timed_blocks logs blocks = filter (\<lambda>b. cb_number b \<in> set (map lg_block (filter (\<lambda>l. lg_event l = ''Repaid'' \<or> is_credit_event l) logs))) blocks"

definition tier_logs :: "tier \<Rightarrow> chain_log list \<Rightarrow> chain_log list" where
  "tier_logs t logs = filter (\<lambda>l. t = T_PENDING \<or> lg_tier l = t) logs"

definition replay_tier :: "chain_deployment \<Rightarrow> chain_block list \<Rightarrow> chain_log list \<Rightarrow> tier \<Rightarrow> app_error + read_model" where
  "replay_tier d blocks logs t =
    (let ls = tier_logs t logs
     in then_do (project_repayments d blocks ls ls) (\<lambda>reps.
        then_do (project_logs d blocks logs ls (empty_model\<lparr>rm_repayments := reps\<rparr>)) (\<lambda>rm.
          ensure (read_model_checks rm) (IntegrityError ''ck_proj'') (Inr rm))))"

definition log_order :: "chain_log \<Rightarrow> int \<times> int \<times> int" where
  "log_order l = (lg_block l, lg_tx_index l, lg_index l)"

definition replay :: "chain_deployment \<Rightarrow> chain_block list \<Rightarrow> chain_log list \<Rightarrow> app_error + (read_model \<times> read_model)" where
  "replay d blocks journal =
    (let logs = sort_key log_order journal; timed = timed_blocks logs blocks
     in then_do (replay_tier d timed logs T_FINALIZED) (\<lambda>f. then_do (replay_tier d timed logs T_PENDING) (\<lambda>p. Inr (f, p))))"

section \<open>Invariants along the fold\<close>

lemma project_logs_inv:
  assumes "project_logs d blocks logs ls rm = Inr rm'" and "I pre rm"
    and "\<And>pre l rm rm'. l \<in> set ls \<Longrightarrow> project_log d blocks logs l rm = Inr rm' \<Longrightarrow> I pre rm \<Longrightarrow> I (pre @ [l]) rm'"
  shows "I (pre @ ls) rm'"
  using assms
proof (induction ls arbitrary: pre rm)
  case (Cons l ls)
  then obtain rm1 where l: "project_log d blocks logs l rm = Inr rm1" "project_logs d blocks logs ls rm1 = Inr rm'" by (auto simp: then_do_eq_Inr)
  have "I (pre @ [l]) rm1" using Cons.prems(2,3) l(1) by simp
  from Cons.IH [OF l(2) this] Cons.prems(3) show ?case by simp
qed simp

lemma projected_parts:
  assumes "project_log d blocks logs l rm = Inr rm'" and "lg_event l \<noteq> ''UNKNOWN''"
  shows "project_entity l (rm_entities rm) = Inr (rm_entities rm') \<and> project_credit blocks l (rm_credits rm) = Inr (rm_credits rm') \<and>
    (if lg_contract l = ''ReceivableBook'' then project_receivable l (rm_receivables rm) else Inr (rm_receivables rm)) = Inr (rm_receivables rm')"
  using assms unfolding project_log_def by (auto simp only: then_do_eq_Inr if_False Inr_inject) simp_all

lemma unknown_is_skipped: "project_log d blocks logs l rm = Inr rm' \<Longrightarrow> lg_event l = ''UNKNOWN'' \<Longrightarrow> rm' = rm"
  by (simp add: project_log_def)

section \<open>Receivables balance\<close>

definition entry_amount :: "chain_history \<Rightarrow> string \<Rightarrow> int" where
  "entry_amount h k = (case then_do (json_field (hs_args h) k) json_int of Inl _ \<Rightarrow> 0 | Inr i \<Rightarrow> i)"

definition net_change :: "chain_history \<Rightarrow> int" where
  "net_change h = (if hs_event h = ''ReceivableRecognized'' then entry_amount h ''net'' else if hs_event h = ''ReceivableCorrected'' then entry_amount h ''delta'' else 0)"

definition paid_change :: "chain_history \<Rightarrow> int" where
  "paid_change h = (if hs_event h = ''ReceivablePaid'' then entry_amount h ''amount'' else if hs_event h = ''ReceivablePayoutCancelled'' then - entry_amount h ''amount'' else 0)"

definition RECEIVABLE_EVENTS :: "string list" where
  "RECEIVABLE_EVENTS = [''ReceivableRecognized'', ''ReceivableAssigned'', ''ReceivableCorrected'', ''ReceivablePaid'', ''ReceivablePayoutCancelled'', ''ReceivableDisputed'']"

definition concerns :: "string \<Rightarrow> chain_log \<Rightarrow> bool" where
  "concerns k l \<longleftrightarrow> k \<noteq> [] \<and> lg_contract l = ''ReceivableBook'' \<and> lg_event l \<in> set RECEIVABLE_EVENTS \<and> json_get (lg_args l) ''receivableId'' = Some (JStr k)"

definition row_balanced :: "proj_receivable \<Rightarrow> bool" where
  "row_balanced r \<longleftrightarrow> 0 \<le> prc_paid r \<and> prc_paid r \<le> prc_net r \<and> prc_net r = sum_list (map net_change (prc_history r)) \<and> prc_paid r = sum_list (map paid_change (prc_history r))"

definition receivables_inv :: "chain_log list \<Rightarrow> (string, proj_receivable) dict \<Rightarrow> bool" where
  "receivables_inv ls rs \<longleftrightarrow> (\<forall>k. (case map_of rs k of
      None \<Rightarrow> filter (concerns k) ls = []
    | Some r \<Rightarrow> row_balanced r \<and> prc_history r = map history_of (filter (concerns k) ls)))"

lemma entry_amount_arg: "arg_int l k = Inr i \<Longrightarrow> entry_amount (history_of l) k = i"
  by (auto simp: arg_int_def entry_amount_def history_of_def split: sum.splits)

lemma recognized_row:
  assumes "recognized l = Inr r"
  shows "prc_history r = [] \<and> prc_paid r = 0 \<and> prc_net r = entry_amount (history_of l) ''net''"
  using assms by (auto simp: recognized_def then_do_eq_Inr entry_amount_arg)

lemma receivable_event_row:
  assumes "receivable_event l r = Inr (Some r')"
  shows "prc_history r' = prc_history r \<and> lg_event l \<in> set RECEIVABLE_EVENTS \<and> lg_event l \<noteq> ''ReceivableRecognized'' \<and>
    prc_net r' = prc_net r + net_change (history_of l) \<and> prc_paid r' = prc_paid r + paid_change (history_of l)"
proof -
  have ev: "hs_event (history_of l) = lg_event l" by (simp add: history_of_def)
  consider "lg_event l = ''ReceivableAssigned''" | "lg_event l = ''ReceivableCorrected''" | "lg_event l = ''ReceivablePaid''" | "lg_event l = ''ReceivablePayoutCancelled''"
    | "lg_event l = ''ReceivableDisputed''" using assms by (auto simp: receivable_event_def Let_def split: if_splits)
  then show ?thesis
    using assms by cases (auto simp: receivable_event_def then_do_eq_Inr entry_amount_arg net_change_def paid_change_def ev RECEIVABLE_EVENTS_def)
qed

lemma settled_row:
  assumes "settle_row l r = Inr r'"
  shows "prc_history r' = prc_history r @ [history_of l] \<and> prc_net r' = prc_net r \<and> prc_paid r' = prc_paid r \<and> 0 \<le> prc_paid r \<and> prc_paid r \<le> prc_net r"
  using assms by (auto simp: settle_row_def)

lemma key_arg_Some: "key_arg l f = Inr (Some k) \<Longrightarrow> json_get (lg_args l) f = Some (JStr k)"
  by (auto simp: key_arg_def get_str_def then_do_eq_Inr split: option.splits json.splits if_splits)

lemma key_arg_other: "key_arg l f = Inr key \<Longrightarrow> key \<noteq> Some k \<Longrightarrow> k \<noteq> [] \<Longrightarrow> json_get (lg_args l) f \<noteq> Some (JStr k)"
  by (auto simp: key_arg_def get_str_def split: if_splits)

lemma receivable_event_none:
  assumes "receivable_event l r = Inr None" and "lg_event l \<noteq> ''ReceivableRecognized''"
  shows "lg_event l \<notin> set RECEIVABLE_EVENTS"
  using assms by (auto simp: receivable_event_def RECEIVABLE_EVENTS_def Let_def then_do_eq_Inr split: if_splits)

lemma unconcerned:
  assumes "receivables_inv ls rs" and "\<And>k. \<not> concerns k l"
  shows "receivables_inv (ls @ [l]) rs"
proof -
  have "filter (concerns k) (ls @ [l]) = filter (concerns k) ls" for k using assms(2) by simp
  with assms(1) show ?thesis by (simp only: receivables_inv_def simp_thms)
qed

lemma receivable_set:
  assumes inv: "receivables_inv ls rs" and k: "concerns k l" and others: "\<And>j. j \<noteq> k \<Longrightarrow> \<not> concerns j l"
    and row: "row_balanced r" "prc_history r = map history_of (filter (concerns k) ls @ [l])"
  shows "receivables_inv (ls @ [l]) (dict_set k r rs)"
proof -
  have "case map_of (dict_set k r rs) j of None \<Rightarrow> filter (concerns j) (ls @ [l]) = [] | Some r \<Rightarrow> row_balanced r \<and> prc_history r = map history_of (filter (concerns j) (ls @ [l]))" for j
  proof (cases "j = k")
    case False
    then have "filter (concerns j) (ls @ [l]) = filter (concerns j) ls" "map_of (dict_set k r rs) j = map_of rs j" using others by simp_all
    with inv show ?thesis by (simp only: receivables_inv_def)
  qed (use k row in simp)
  then show ?thesis by (simp add: receivables_inv_def)
qed

lemma project_receivable_inv:
  assumes "receivables_inv ls rs" and "project_receivable l rs = Inr rs'" and "lg_contract l = ''ReceivableBook''"
  shows "receivables_inv (ls @ [l]) rs'"
proof -
  obtain key where key: "key_arg l ''receivableId'' = Inr key" using assms(2) by (auto simp: project_receivable_def then_do_eq_Inr)
  have other: "\<not> concerns j l" if "key \<noteq> Some j" for j using key_arg_other [OF key that] by (auto simp: concerns_def)
  show ?thesis
  proof (cases key)
    case None
    with assms(2) key have "rs' = rs" by (simp add: project_receivable_def)
    with assms(1) other None show ?thesis by (simp add: unconcerned)
  next
    case (Some k)
    have kk: "json_get (lg_args l) ''receivableId'' = Some (JStr k)" "k \<noteq> []" using key Some key_arg_Some by (auto simp: key_arg_def then_do_eq_Inr split: if_splits)
    have inv: "case map_of rs k of None \<Rightarrow> filter (concerns k) ls = [] | Some r \<Rightarrow> row_balanced r \<and> prc_history r = map history_of (filter (concerns k) ls)"
      using assms(1) by (simp add: receivables_inv_def)
    have oth: "\<not> concerns j l" if "j \<noteq> k" for j using other Some that by simp
    have con: "concerns k l \<longleftrightarrow> lg_event l \<in> set RECEIVABLE_EVENTS" using assms(3) kk by (simp add: concerns_def)
    show ?thesis
    proof (cases "map_of rs k")
      case None
      then obtain r r' where r: "lg_event l = ''ReceivableRecognized''" "recognized l = Inr r" "settle_row l r = Inr r'" "rs' = dict_set k r' rs"
        using assms(2) key Some by (auto simp: project_receivable_def then_do_eq_Inr split: if_splits)
      have c: "concerns k l" unfolding con r(1) by (simp add: RECEIVABLE_EVENTS_def)
      have "row_balanced r'" using recognized_row [OF r(2)] settled_row [OF r(3)] r(1) by (simp add: row_balanced_def net_change_def paid_change_def history_of_def)
      moreover have "prc_history r' = map history_of (filter (concerns k) ls @ [l])" using recognized_row [OF r(2)] settled_row [OF r(3)] inv None by simp
      ultimately show ?thesis unfolding r(4) using receivable_set [OF assms(1) c oth] by blast
    next
      case (Some r0)
      then have ev: "lg_event l \<noteq> ''ReceivableRecognized''" using assms(2) key \<open>key = Some k\<close> by (auto simp: project_receivable_def)
      from Some ev assms(2) key \<open>key = Some k\<close> obtain row where row: "receivable_event l r0 = Inr row"
        and res: "(case row of None \<Rightarrow> Inr rs | Some r \<Rightarrow> then_do (settle_row l r) (\<lambda>r. Inr (dict_set k r rs))) = Inr rs'"
        by (auto simp: project_receivable_def then_do_eq_Inr)
      show ?thesis
      proof (cases row)
        case None
        with row ev have "lg_event l \<notin> set RECEIVABLE_EVENTS" using receivable_event_none by blast
        then have "\<not> concerns j l" for j using oth con by (cases "j = k") auto
        moreover have "rs' = rs" using res None by simp
        ultimately show ?thesis using unconcerned [OF assms(1)] by simp
      next
        case (Some r)
        with res obtain r' where r': "settle_row l r = Inr r'" "rs' = dict_set k r' rs" by (auto simp: then_do_eq_Inr)
        note re = receivable_event_row [OF row [unfolded Some]] and se = settled_row [OF r'(1)]
        have old: "row_balanced r0" "prc_history r0 = map history_of (filter (concerns k) ls)" using inv \<open>map_of rs k = Some r0\<close> by simp_all
        have c: "concerns k l" using con re by simp
        have "row_balanced r'" "prc_history r' = map history_of (filter (concerns k) ls @ [l])" using re se old by (simp_all add: row_balanced_def)
        then show ?thesis unfolding r'(2) using receivable_set [OF assms(1) c oth] by blast
      qed
    qed
  qed
qed

lemma project_log_receivables:
  assumes "project_log d blocks logs l rm = Inr rm'" and "receivables_inv pre (rm_receivables rm)"
  shows "receivables_inv (pre @ [l]) (rm_receivables rm')"
proof (cases "lg_event l = ''UNKNOWN'' \<or> lg_contract l \<noteq> ''ReceivableBook''")
  case True
  then have "rm_receivables rm' = rm_receivables rm" using unknown_is_skipped [OF assms(1)] projected_parts [OF assms(1)] by (cases "lg_event l = ''UNKNOWN''") auto
  moreover have "\<not> concerns k l" for k using True by (auto simp: concerns_def RECEIVABLE_EVENTS_def)
  ultimately show ?thesis using unconcerned [OF assms(2)] by simp
next
  case False
  with projected_parts [OF assms(1)] have "project_receivable l (rm_receivables rm) = Inr (rm_receivables rm')" by simp
  with project_receivable_inv [OF assms(2)] False show ?thesis by simp
qed

lemma replayed_tier:
  assumes "replay_tier d blocks logs t = Inr rm"
  obtains reps where "project_repayments d blocks (tier_logs t logs) (tier_logs t logs) = Inr reps"
    "project_logs d blocks logs (tier_logs t logs) (empty_model\<lparr>rm_repayments := reps\<rparr>) = Inr rm" "read_model_checks rm"
  using assms by (auto simp: replay_tier_def Let_def then_do_eq_Inr)

text \<open>C8: projected receivables balance. After a replay, in either tier, the history of a receivable is exactly the journal's
  events of that receivable in order; its net amount is the recognised one plus the corrections, what is paid the payouts less the
  cancelled ones, and it is neither negative nor more than the net amount.\<close>

theorem projected_receivables_balance:
  assumes "replay_tier d blocks logs t = Inr rm" and "map_of (rm_receivables rm) k = Some r"
  shows "prc_history r = map history_of (filter (concerns k) (tier_logs t logs)) \<and> prc_net r = sum_list (map net_change (prc_history r)) \<and>
    prc_paid r = sum_list (map paid_change (prc_history r)) \<and> 0 \<le> prc_paid r \<and> prc_paid r \<le> prc_net r"
proof -
  from assms(1) obtain reps where p: "project_logs d blocks logs (tier_logs t logs) (empty_model\<lparr>rm_repayments := reps\<rparr>) = Inr rm" by (rule replayed_tier)
  have "receivables_inv ([] @ tier_logs t logs) (rm_receivables rm)"
    by (rule project_logs_inv [OF p, where I = "\<lambda>pre rm. receivables_inv pre (rm_receivables rm)"])
      (simp add: receivables_inv_def empty_model_def, rule project_log_receivables)
  then have "case map_of (rm_receivables rm) k of None \<Rightarrow> filter (concerns k) (tier_logs t logs) = []
      | Some r \<Rightarrow> row_balanced r \<and> prc_history r = map history_of (filter (concerns k) (tier_logs t logs))"
    by (simp add: receivables_inv_def)
  with assms(2) have "row_balanced r" "prc_history r = map history_of (filter (concerns k) (tier_logs t logs))" by simp_all
  then show ?thesis unfolding row_balanced_def by blast
qed

section \<open>Shares are conserved\<close>

definition share_value :: "json \<Rightarrow> int" where
  "share_value j = (case json_int j of Inl _ \<Rightarrow> 0 | Inr i \<Rightarrow> i)"

definition share_sum :: "(string, json) dict \<Rightarrow> int" where
  "share_sum bs = sum_list (map (share_value \<circ> snd) bs)"

text \<open>The share register of an entity: every balance is a number that is not negative, and together they are the total.\<close>

definition shares_ok :: "(string, json) dict \<Rightarrow> bool" where
  "shares_ok st \<longleftrightarrow> (\<exists>bs. state_balances st = Inr bs \<and> list_all (\<lambda>(_, j). \<exists>i. json_int j = Inr i \<and> 0 \<le> i) bs \<and> state_total st = Inr (share_sum bs))"

lemma share_sum_set: "(case map_of bs k of None \<Rightarrow> Inr 0 | Some j \<Rightarrow> json_int j) = Inr b \<Longrightarrow> share_sum (dict_set k (JStr (str_int v)) bs) = share_sum bs - b + v"
  by (induction bs) (auto simp: share_sum_def share_value_def split: if_splits)

lemma moved:
  assumes "move_shares who n bs = Inr bs'"
  shows "share_sum bs' = share_sum bs + n"
  using assms share_sum_set by (auto simp: move_shares_def balance_of_def then_do_eq_Inr)

lemma values_nonneg_all: "values_nonneg bs = Inr True \<Longrightarrow> list_all (\<lambda>(_, j). \<exists>i. json_int j = Inr i \<and> 0 \<le> i) bs"
  by (induction bs rule: values_nonneg.induct) (auto simp: then_do_eq_Inr split: if_splits)

lemma transfer_keeps_shares:
  assumes "transfer_shares l st = Inr st'" and "shares_ok st"
  shows "shares_ok st'"
proof -
  obtain bs where bs: "state_balances st = Inr bs" "state_total st = Inr (share_sum bs)" using assms(2) by (auto simp: shares_ok_def)
  from assms(1) bs obtain n src dst b1 b2 ok where
      b1: "(if src = ZERO_ADDRESS then Inr bs else move_shares src (- n) bs) = Inr b1" and b2: "(if dst = ZERO_ADDRESS then Inr b1 else move_shares dst n b1) = Inr b2"
    and ok: "values_nonneg b2 = Inr True"
    and st': "st' = dict_set ''totalShares'' (JStr (str_int (share_sum bs + (if src = ZERO_ADDRESS then n else 0) - (if dst = ZERO_ADDRESS then n else 0)))) (dict_set ''shareBalances'' (JObj b2) st)"
    by (auto simp: transfer_shares_def then_do_eq_Inr Let_def simp del: if_split)
  have "share_sum b1 = share_sum bs - (if src = ZERO_ADDRESS then 0 else n)" using b1 moved by (auto split: if_splits)
  moreover have "share_sum b2 = share_sum b1 + (if dst = ZERO_ADDRESS then 0 else n)" using b2 moved by (auto split: if_splits)
  ultimately have "share_sum b2 = share_sum bs + (if src = ZERO_ADDRESS then n else 0) - (if dst = ZERO_ADDRESS then n else 0)" by auto
  then have "state_total st' = Inr (share_sum b2)" unfolding st' by (simp add: state_total_def)
  moreover have "state_balances st' = Inr b2" unfolding st' by (simp add: state_balances_def)
  ultimately show ?thesis using values_nonneg_all [OF ok] by (auto simp: shares_ok_def)
qed

lemma shares_ok_cong: "map_of st' ''shareBalances'' = map_of st ''shareBalances'' \<Longrightarrow> map_of st' ''totalShares'' = map_of st ''totalShares'' \<Longrightarrow> shares_ok st' = shares_ok st"
  by (simp add: shares_ok_def state_balances_def state_total_def)

lemma entity_event_shares:
  assumes "entity_event l e = Inr e'" and "shares_ok (en_state e)" and "lg_event l \<notin> {''shareBalances'', ''totalShares''}"
  shows "shares_ok (en_state e')"
proof -
  let ?st = "dict_set ''lastTxHash'' (JStr (lg_tx_hash l)) (dict_set ''lastEvent'' (JStr (lg_event l)) (dict_set (lg_event l) (lg_args l) (en_state e)))"
  have "map_of ?st ''shareBalances'' = map_of (en_state e) ''shareBalances''" "map_of ?st ''totalShares'' = map_of (en_state e) ''totalShares''" using assms(3) by auto
  with assms(2) have "shares_ok ?st" using shares_ok_cong by blast
  with assms(1) transfer_keeps_shares show ?thesis by (auto simp: entity_event_def Let_def then_do_eq_Inr split: if_splits)
qed

definition entities_inv :: "(string \<times> string, proj_entity) dict \<Rightarrow> bool" where
  "entities_inv es \<longleftrightarrow> (\<forall>k e. map_of es k = Some e \<longrightarrow> shares_ok (en_state e))"

lemma project_log_shares:
  assumes "project_log d blocks logs l rm = Inr rm'" and "entities_inv (rm_entities rm)" and "lg_event l \<notin> {''shareBalances'', ''totalShares''}"
  shows "entities_inv (rm_entities rm')"
proof (cases "lg_event l = ''UNKNOWN''")
  case False
  with projected_parts [OF assms(1)] obtain k where
      t: "touch (entity_kind (lg_contract l), k) \<lparr>en_state = [], en_last_block = lg_block l\<rparr> (entity_event l) (rm_entities rm) = Inr (rm_entities rm')"
    by (auto simp: project_entity_def then_do_eq_Inr)
  let ?k = "(entity_kind (lg_contract l), k)"
  let ?e = "case map_of (rm_entities rm) ?k of None \<Rightarrow> \<lparr>en_state = [], en_last_block = lg_block l\<rparr> | Some v \<Rightarrow> v"
  from t obtain e where e: "entity_event l ?e = Inr e" "rm_entities rm' = dict_set ?k e (rm_entities rm)" by (auto simp: touch_def then_do_eq_Inr)
  have "shares_ok []" by (simp add: shares_ok_def state_balances_def state_total_def share_sum_def)
  with assms(2) have "shares_ok (en_state ?e)" by (auto simp: entities_inv_def split: option.splits)
  from entity_event_shares [OF e(1) this assms(3)] assms(2) show ?thesis by (auto simp: entities_inv_def e(2))
qed (use assms(2) unknown_is_skipped [OF assms(1)] in simp)

text \<open>C19: projected shares are conserved. After a replay, in either tier, the register of every entity has balances that are not negative and add up to its
  total of shares. The names of events are those of the contracts; none is called like the two keys of the register.\<close>

theorem projected_shares_conserved:
  assumes "replay_tier d blocks logs t = Inr rm" and "\<forall>l \<in> set logs. lg_event l \<notin> {''shareBalances'', ''totalShares''}" and "map_of (rm_entities rm) k = Some e"
  shows "\<exists>bs. state_balances (en_state e) = Inr bs \<and> list_all (\<lambda>(_, j). \<exists>i. json_int j = Inr i \<and> 0 \<le> i) bs \<and> state_total (en_state e) = Inr (share_sum bs)"
proof -
  from assms(1) obtain reps where p: "project_logs d blocks logs (tier_logs t logs) (empty_model\<lparr>rm_repayments := reps\<rparr>) = Inr rm" by (rule replayed_tier)
  have "entities_inv (rm_entities rm)"
    by (rule project_logs_inv [OF p, where I = "\<lambda>pre rm. entities_inv (rm_entities rm)" and pre = "[]"])
      (simp add: entities_inv_def empty_model_def, rule project_log_shares, use assms(2) in \<open>auto simp: tier_logs_def\<close>)
  with assms(3) have "shares_ok (en_state e)" unfolding entities_inv_def by blast
  then show ?thesis by (simp add: shares_ok_def)
qed

section \<open>Repayment legs\<close>

lemma configured_facility:
  assumes "configured_logs contracts key logs = Some cs"
  shows "\<forall>l \<in> set cs. l \<in> set logs \<and> event_configured contracts key l = Some True"
  using assms by (induction logs arbitrary: cs) (auto simp: bind_eq_Some_conv split: if_splits)

definition log_facility :: "chain_log \<Rightarrow> string" where
  "log_facility l = (case json_get (lg_args l) ''facilityId'' of Some (JStr s) \<Rightarrow> str_lower s | _ \<Rightarrow> [])"

lemma configured_of: "event_configured contracts key l = Some True \<Longrightarrow> log_facility l = str_lower key"
  by (auto simp: event_configured_def log_facility_def split: if_splits option.splits json.splits)

text \<open>What a pair is: a repayment with the one allocation and the one vault receipt of its leg.\<close>

lemma pair_facts:
  assumes "pair_repayment_events logs contracts i key allow = Some (r, a, v)"
  obtains cs where "configured_logs contracts key logs = Some cs" "r \<in> set cs" "lg_index r = i" "is_repaid r"
    "a \<in> set (leg_of (filter (\<lambda>l. tx_identity l = tx_identity r) cs) i)" "is_allocated a"
    "v \<in> set (leg_of (filter (\<lambda>l. tx_identity l = tx_identity r) cs) i)" "is_receipt v" "lg_index a < lg_index v" "leg_amounts_agree r a v"
proof -
  from assms obtain cs where cs: "configured_logs contracts key logs = Some cs"
    and k: "(case filter (\<lambda>l. lg_index l = i \<and> is_repaid l) cs of [repaid] \<Rightarrow>
         (let same = filter (\<lambda>l. tx_identity l = tx_identity repaid) cs; leg = leg_of same i
          in case (filter is_allocated leg, filter is_receipt leg) of ([allocated], [vault]) \<Rightarrow>
               if lg_index allocated < lg_index vault \<and> \<not> settlement_marked same allocated i \<and> direct_reference allow repaid \<and> leg_amounts_agree repaid allocated vault
               then Some (repaid, allocated, vault) else None
             | _ \<Rightarrow> None) | _ \<Rightarrow> None) = Some (r, a, v)"
    by (auto simp: pair_repayment_events_def bind_eq_Some_conv)
  from k obtain r' where f: "filter (\<lambda>l. lg_index l = i \<and> is_repaid l) cs = [r']" by (auto split: list.splits)
  let ?leg = "leg_of (filter (\<lambda>l. tx_identity l = tx_identity r') cs) i"
  from k f obtain a' v' where fa: "filter is_allocated ?leg = [a']" and fv: "filter is_receipt ?leg = [v']" by (auto simp: Let_def split: list.splits)
  from k f fa fv have e: "r = r'" "a = a'" "v = v'" "lg_index a < lg_index v" "leg_amounts_agree r a v" by (auto simp: Let_def split: if_splits)
  have "r' \<in> set (filter (\<lambda>l. lg_index l = i \<and> is_repaid l) cs)" "a' \<in> set (filter is_allocated ?leg)" "v' \<in> set (filter is_receipt ?leg)" unfolding f fa fv by simp_all
  with cs e show thesis by (intro that [of cs]) auto
qed

lemma leg_bounds:
  assumes "x \<in> set (leg_of same i)"
  shows "x \<in> set same \<and> previous_repaid same i < lg_index x \<and> lg_index x < i"
  using assms by (auto simp: leg_of_def)

lemma previous_above: "r \<in> set same \<Longrightarrow> is_repaid r \<Longrightarrow> lg_index r < i \<Longrightarrow> lg_index r \<le> previous_repaid same i"
  by (auto simp: previous_repaid_def Let_def filter_empty_conv)

text \<open>Legs of different repayments of a transaction share no event.\<close>

lemma legs_apart:
  assumes "pair_repayment_events logs contracts i key allow = Some (r, a, v)" and "pair_repayment_events logs contracts j key' allow' = Some (r', a', v')"
    and "str_lower key = str_lower key'" and "i < j"
  shows "a \<noteq> a' \<and> v \<noteq> v'"
proof -
  obtain cs where p: "configured_logs contracts key logs = Some cs" "r \<in> set cs" "lg_index r = i" "is_repaid r"
    "a \<in> set (leg_of (filter (\<lambda>l. tx_identity l = tx_identity r) cs) i)" "v \<in> set (leg_of (filter (\<lambda>l. tx_identity l = tx_identity r) cs) i)" using assms(1) by (rule pair_facts)
  obtain cs' where q: "configured_logs contracts key' logs = Some cs'" "r' \<in> set cs'" "lg_index r' = j" "is_repaid r'"
    "a' \<in> set (leg_of (filter (\<lambda>l. tx_identity l = tx_identity r') cs') j)" "v' \<in> set (leg_of (filter (\<lambda>l. tx_identity l = tx_identity r') cs') j)" using assms(2) by (rule pair_facts)
  have "event_configured contracts key = event_configured contracts key'" unfolding fun_eq_iff event_configured_def assms(3) by simp
  then have "configured_logs contracts key logs = configured_logs contracts key' logs" by (induction logs) simp_all
  with p q have cs: "cs' = cs" by simp
  note bp = leg_bounds [OF p(5)] leg_bounds [OF p(6)] and bq = leg_bounds [OF q(5)] leg_bounds [OF q(6)]
  show ?thesis
  proof (cases "tx_identity r = tx_identity r'")
    case True
    have "i \<le> previous_repaid (filter (\<lambda>l. tx_identity l = tx_identity r') cs') j"
      using previous_above [of r "filter (\<lambda>l. tx_identity l = tx_identity r') cs'" j] p(2-4) cs True assms(4) by simp
    with bp bq show ?thesis by auto
  next
    case False
    with bp bq show ?thesis by auto
  qed
qed

text \<open>C17: no allocation is counted twice. Two different repayments of a transaction are never paired with the same allocation or the same vault
  receipt, and each pair conserves amounts: what the vault received is the fee, interest and principal that the
  ledger allocated plus the excess, all three events agreeing.\<close>

theorem no_allocation_counted_twice:
  assumes "pair_repayment_events logs contracts i key allow = Some (r, a, v)" and "pair_repayment_events logs contracts j key' allow' = Some (r', a', v')"
    and "(i, str_lower key) \<noteq> (j, str_lower key')"
  shows "a \<noteq> a' \<and> v \<noteq> v' \<and>
    (\<exists>fee interest prin excess received. uint_arg a ''feePaid'' = Some fee \<and> uint_arg a ''interestPaid'' = Some interest \<and> uint_arg a ''principalPaid'' = Some prin \<and>
      uint_arg v ''excess'' = Some excess \<and> uint_arg v ''received'' = Some received \<and> uint_arg r ''received'' = Some received \<and> 0 < received \<and>
      received = fee + interest + prin + excess)"
proof -
  obtain cs where p: "configured_logs contracts key logs = Some cs" "a \<in> set (leg_of (filter (\<lambda>l. tx_identity l = tx_identity r) cs) i)"
    "v \<in> set (leg_of (filter (\<lambda>l. tx_identity l = tx_identity r) cs) i)" "leg_amounts_agree r a v" using assms(1) by (rule pair_facts)
  obtain cs' where q: "configured_logs contracts key' logs = Some cs'" "a' \<in> set (leg_of (filter (\<lambda>l. tx_identity l = tx_identity r') cs') j)"
    "v' \<in> set (leg_of (filter (\<lambda>l. tx_identity l = tx_identity r') cs') j)" using assms(2) by (rule pair_facts)
  have "a \<in> set cs" "v \<in> set cs" "a' \<in> set cs'" "v' \<in> set cs'" using leg_bounds [OF p(2)] leg_bounds [OF p(3)] leg_bounds [OF q(2)] leg_bounds [OF q(3)] by auto
  with configured_facility [OF p(1)] configured_facility [OF q(1)]
  have f: "log_facility a = str_lower key" "log_facility v = str_lower key" "log_facility a' = str_lower key'" "log_facility v' = str_lower key'" by (auto dest: configured_of)
  have "a \<noteq> a' \<and> v \<noteq> v'"
  proof (cases "str_lower key = str_lower key'")
    case True
    with assms(3) consider "i < j" | "j < i" by fastforce
    then show ?thesis using legs_apart [OF assms(1,2) True] legs_apart [OF assms(2,1) True [symmetric]] by cases auto
  qed (use f in auto)
  moreover have "\<exists>fee interest prin excess received. uint_arg a ''feePaid'' = Some fee \<and> uint_arg a ''interestPaid'' = Some interest \<and> uint_arg a ''principalPaid'' = Some prin \<and>
      uint_arg v ''excess'' = Some excess \<and> uint_arg v ''received'' = Some received \<and> uint_arg r ''received'' = Some received \<and> 0 < received \<and>
      received = fee + interest + prin + excess"
    using p(4) by (auto simp: leg_amounts_agree_def split: option.splits list.splits)
  ultimately show ?thesis by blast
qed

section \<open>The finalized view\<close>

lemma find_filter: "(\<forall>x \<in> set xs. p x \<longrightarrow> q x) \<Longrightarrow> List.find p (filter q xs) = List.find p xs"
  by (induction xs) auto

lemma block_at_timed:
  assumes "l \<in> set logs" and "lg_event l = ''Repaid'' \<or> is_credit_event l"
  shows "block_at (timed_blocks logs blocks) (lg_block l) = block_at blocks (lg_block l)"
  unfolding block_at_def timed_blocks_def using assms by (intro find_filter) auto

definition one_tier_per_tx :: "chain_log list \<Rightarrow> bool" where
  "one_tier_per_tx logs \<longleftrightarrow> (\<forall>l \<in> set logs. \<forall>m \<in> set logs. lg_tx_hash l = lg_tx_hash m \<longrightarrow> lg_tier l = lg_tier m)"

lemma verified_in_tier:
  assumes "one_tier_per_tx logs" and "l \<in> set (tier_logs T_FINALIZED logs)"
  shows "verified_proof (tier_logs T_FINALIZED logs) (lg_tx_hash l) i = verified_proof logs (lg_tx_hash l) i"
proof -
  have l: "l \<in> set logs" "lg_tier l = T_FINALIZED" using assms(2) by (simp_all add: tier_logs_def)
  have "\<forall>m \<in> set (rev logs). lg_tx_hash m = lg_tx_hash l \<longrightarrow> lg_tier m = T_FINALIZED" using assms(1) l unfolding one_tier_per_tx_def by (metis set_rev)
  then have "List.find (\<lambda>m. lg_contract m = ''AttestcoinRevenueVerifier'' \<and> lg_event m = ''SourceEventVerified'' \<and> lg_tx_hash m = lg_tx_hash l \<and> event_id m = i)
      (filter (\<lambda>m. T_FINALIZED = T_PENDING \<or> lg_tier m = T_FINALIZED) (rev logs)) =
    List.find (\<lambda>m. lg_contract m = ''AttestcoinRevenueVerifier'' \<and> lg_event m = ''SourceEventVerified'' \<and> lg_tx_hash m = lg_tx_hash l \<and> event_id m = i) (rev logs)"
    by (intro find_filter) blast
  then show ?thesis by (simp only: verified_proof_def tier_logs_def rev_filter)
qed

lemma project_log_tier:
  assumes "one_tier_per_tx logs" and "l \<in> set (tier_logs T_FINALIZED logs)"
  shows "project_log d (timed_blocks logs blocks) logs l rm = project_log d (timed_blocks (tier_logs T_FINALIZED logs) blocks) (tier_logs T_FINALIZED logs) l rm"
proof -
  have l: "l \<in> set logs" using assms(2) by (simp add: tier_logs_def)
  have "project_evidence d logs l es = project_evidence d (tier_logs T_FINALIZED logs) l es" for es
    by (simp only: project_evidence_def verified_in_tier [OF assms])
  moreover have "project_credit (timed_blocks logs blocks) l cs = project_credit (timed_blocks (tier_logs T_FINALIZED logs) blocks) l cs" for cs
    using block_at_timed [OF l] block_at_timed [OF assms(2)] by (cases "is_credit_event l") (simp_all add: project_credit_def)
  ultimately show ?thesis by (simp only: project_log_def)
qed

lemma project_logs_tier:
  assumes "one_tier_per_tx logs" and "set ls \<subseteq> set (tier_logs T_FINALIZED logs)"
  shows "project_logs d (timed_blocks logs blocks) logs ls rm = project_logs d (timed_blocks (tier_logs T_FINALIZED logs) blocks) (tier_logs T_FINALIZED logs) ls rm"
  using assms(2)
proof (induction ls arbitrary: rm)
  case (Cons l ls)
  then have l: "l \<in> set (tier_logs T_FINALIZED logs)" "set ls \<subseteq> set (tier_logs T_FINALIZED logs)" by simp_all
  have "project_logs d (timed_blocks logs blocks) logs ls = project_logs d (timed_blocks (tier_logs T_FINALIZED logs) blocks) (tier_logs T_FINALIZED logs) ls"
    using Cons.IH [OF l(2)] by (rule ext)
  with project_log_tier [OF assms(1) l(1)] show ?case by (simp only: project_logs.simps)
qed simp

lemma repayment_row_cong: "block_at b1 (lg_block r) = block_at b2 (lg_block r) \<Longrightarrow> repayment_row b1 k (r, a, v) = repayment_row b2 k (r, a, v)"
  by (simp only: repayment_row_def prod.case)

lemma repayment_of_tier:
  assumes "set ls \<subseteq> set logs" and "set ls \<subseteq> set logs'"
  shows "repayment_of d (timed_blocks logs blocks) ls l = repayment_of d (timed_blocks logs' blocks) ls l"
proof -
  have "repayment_row (timed_blocks logs blocks) k p = repayment_row (timed_blocks logs' blocks) k p"
    if pr: "pair_repayment_events (filter (\<lambda>m. lg_tx_hash m = lg_tx_hash l) ls) (cd_contracts d) (lg_index l) k True = Some p" for k p
  proof -
    obtain r a v where p: "p = (r, a, v)" by (cases p)
    obtain cs where cs: "configured_logs (cd_contracts d) k (filter (\<lambda>m. lg_tx_hash m = lg_tx_hash l) ls) = Some cs" "r \<in> set cs" "is_repaid r"
      using pr [unfolded p] by (rule pair_facts)
    then have "r \<in> set ls" using configured_facility [OF cs(1)] by auto
    moreover have "lg_event r = ''Repaid''" using cs(3) by (simp add: is_repaid_def)
    ultimately have "block_at (timed_blocks logs blocks) (lg_block r) = block_at (timed_blocks logs' blocks) (lg_block r)"
      using assms by (simp add: block_at_timed subset_iff)
    then show ?thesis unfolding p by (rule repayment_row_cong)
  qed
  then show ?thesis unfolding repayment_of_def
    by (intro if_cong refl arg_cong [where f = "then_do (key_arg l ''facilityId'')"] ext) (auto split: option.splits)
qed

lemma project_repayments_tier:
  assumes "set ls \<subseteq> set logs" and "set ls \<subseteq> set logs'"
  shows "project_repayments d (timed_blocks logs blocks) ls ms = project_repayments d (timed_blocks logs' blocks) ls ms"
  using repayment_of_tier [OF assms] by (induction ms) simp_all

text \<open>C30: the finalized view is closed. When the events of a transaction are all in one tier, the finalized read model, computed from a journal
  with pending logs and blocks, is the one computed from the finalized logs alone: nothing pending can show in it.\<close>

theorem finalized_view_is_closed:
  assumes "one_tier_per_tx logs"
  shows "replay_tier d (timed_blocks logs blocks) logs T_FINALIZED =
    replay_tier d (timed_blocks (tier_logs T_FINALIZED logs) blocks) (tier_logs T_FINALIZED logs) T_FINALIZED"
proof -
  have t: "tier_logs T_FINALIZED (tier_logs T_FINALIZED logs) = tier_logs T_FINALIZED logs" by (simp add: tier_logs_def)
  have sub: "set (tier_logs T_FINALIZED logs) \<subseteq> set logs" by (auto simp: tier_logs_def)
  show ?thesis unfolding replay_tier_def Let_def t
    by (simp only: project_repayments_tier [OF sub subset_refl] project_logs_tier [OF assms subset_refl])
qed

section \<open>Sample journals\<close>

definition sample_ref :: string where
  "sample_ref = ''0x'' @ replicate 64 CHR ''a''"

definition sample_deployment :: chain_deployment where
  "sample_deployment = \<lparr>cd_chain_id = 7, cd_profile = EP_LOCAL_MOCK, cd_block = 1,
     cd_contracts = [(''RepaymentRouter'', ''r''), (''DebtLedger'', ''d''), (''LendingVaultV2'', ''v'')], cd_finality_depth = 1\<rparr>"

definition sample_log :: "tier \<Rightarrow> int \<Rightarrow> string \<Rightarrow> string \<Rightarrow> string \<Rightarrow> (string \<times> json) list \<Rightarrow> chain_log" where
  "sample_log t i addr contract ev args = \<lparr>lg_block = 1, lg_block_hash = sample_ref, lg_tx_hash = sample_ref, lg_tx_index = 0, lg_index = i, lg_status = 1, lg_address = addr,
     lg_contract = contract, lg_event = ev, lg_topics = [], lg_data = ''0x'', lg_args = JObj args, lg_tier = t\<rparr>"

definition recognition_log :: chain_log where
  "recognition_log = sample_log T_FINALIZED 0 ''b'' ''ReceivableBook'' ''ReceivableRecognized''
     [(''receivableId'', JStr sample_ref), (''accountKey'', JStr sample_ref), (''obligationRef'', JStr sample_ref), (''net'', JInt 10)]"

definition payout_log :: chain_log where
  "payout_log = sample_log T_FINALIZED 1 ''b'' ''ReceivableBook'' ''ReceivablePaid'' [(''receivableId'', JStr sample_ref), (''amount'', JInt 4), (''unpaidAfter'', JInt 6)]"

definition mint_log :: "tier \<Rightarrow> chain_log" where
  "mint_log t = sample_log t 0 ''v'' ''LendingVaultV2'' ''Transfer'' [(''from'', JStr ZERO_ADDRESS), (''to'', JStr ''lp''), (''value'', JInt 5)]"

lemma sample_ref_simps [simp]: "is_hex32 sample_ref" "sample_ref \<noteq> []"
  by (simp_all add: sample_ref_def is_hex32_def is_hex_low_def list_all_iff)

lemmas sample_log_defs = json_get_def sample_log_def recognition_log_def payout_log_def mint_log_def sample_deployment_def

lemmas replay_defs = replay_tier_def tier_logs_def project_log_def project_facility_def project_evidence_def project_receivable_def project_credit_def project_entity_def
  is_credit_event_def CREDIT_EVENTS_def key_arg_def get_str_def arg_int_def arg_str_def need_str_def json_field_def touch_def entity_event_def entity_key_def ENTITY_KEYS_def
  entity_kind_def read_model_checks_def empty_model_def repayment_of_def is_repaid_def REPAYMENT_CONTRACTS_def Let_def ensure_def

lemma sample_receivables:
  "\<exists>rm r. replay_tier sample_deployment [] [recognition_log, payout_log] T_FINALIZED = Inr rm \<and> map_of (rm_receivables rm) sample_ref = Some r \<and> prc_net r = 10 \<and> prc_paid r = 4"
  by (simp add: replay_defs sample_log_defs recognized_def settle_row_def receivable_event_def receivable_row_checks_def)

theorem projected_receivables_balance_witness:
  "\<exists>rm r. replay_tier sample_deployment [] [recognition_log, payout_log] T_FINALIZED = Inr rm \<and> map_of (rm_receivables rm) sample_ref = Some r \<and>
     length (prc_history r) = 2 \<and> prc_net r = 10 \<and> prc_paid r = 4 \<and> prc_paid r = sum_list (map paid_change (prc_history r))"
proof -
  obtain rm r where r: "replay_tier sample_deployment [] [recognition_log, payout_log] T_FINALIZED = Inr rm" "map_of (rm_receivables rm) sample_ref = Some r" "prc_net r = 10" "prc_paid r = 4"
    using sample_receivables by blast
  have f: "filter (concerns sample_ref) (tier_logs T_FINALIZED [recognition_log, payout_log]) = [recognition_log, payout_log]"
    by (simp add: tier_logs_def concerns_def RECEIVABLE_EVENTS_def sample_log_defs)
  from projected_receivables_balance [OF r(1,2)] have "length (prc_history r) = 2" "prc_paid r = sum_list (map paid_change (prc_history r))" unfolding f by simp_all
  with r show ?thesis by blast
qed

lemma sample_shares:
  "\<exists>rm e. replay_tier sample_deployment [] [mint_log T_PENDING] T_PENDING = Inr rm \<and> map_of (rm_entities rm) (''VAULT'', ''v'') = Some e \<and> state_total (en_state e) = Inr 5"
  by (simp add: replay_defs sample_log_defs transfer_shares_def state_balances_def state_total_def move_shares_def balance_of_def ZERO_ADDRESS_def)

theorem projected_shares_conserved_witness:
  "\<exists>rm e bs. replay_tier sample_deployment [] [mint_log T_PENDING] T_PENDING = Inr rm \<and> map_of (rm_entities rm) (''VAULT'', ''v'') = Some e \<and>
     state_balances (en_state e) = Inr bs \<and> share_sum bs = 5"
proof -
  obtain rm e where r: "replay_tier sample_deployment [] [mint_log T_PENDING] T_PENDING = Inr rm" "map_of (rm_entities rm) (''VAULT'', ''v'') = Some e" "state_total (en_state e) = Inr 5"
    using sample_shares by blast
  have "\<forall>l \<in> set [mint_log T_PENDING]. lg_event l \<notin> {''shareBalances'', ''totalShares''}" by (simp add: sample_log_defs)
  from projected_shares_conserved [OF r(1) this r(2)] r show ?thesis by auto
qed

text \<open>Two repayments through the router in one transaction.\<close>

definition leg_log :: "int \<Rightarrow> string \<Rightarrow> string \<Rightarrow> string \<Rightarrow> int \<Rightarrow> chain_log" where
  "leg_log i addr contract ev n = sample_log T_FINALIZED i addr contract ev
     [(''facilityId'', JStr ''f''), (''requested'', JInt n), (''received'', JInt n), (''applied'', JInt n), (''excess'', JInt 0), (''feePaid'', JInt 0), (''interestPaid'', JInt 0),
      (''principalPaid'', JInt n), (''newDebt'', JInt 0), (''settlementRef'', JStr ''s'')]"

definition two_legs :: "chain_log list" where
  "two_legs = [leg_log 0 ''d'' ''DebtLedger'' ''Allocated'' 3, leg_log 1 ''v'' ''LendingVaultV2'' ''RepaymentReceived'' 3, leg_log 2 ''r'' ''RepaymentRouter'' ''Repaid'' 3,
     leg_log 3 ''d'' ''DebtLedger'' ''Allocated'' 3, leg_log 4 ''v'' ''LendingVaultV2'' ''RepaymentReceived'' 3, leg_log 5 ''r'' ''RepaymentRouter'' ''Repaid'' 3]"

lemmas pair_defs = json_get_def pair_repayment_events_def two_legs_def leg_log_def sample_log_def sample_deployment_def event_configured_def str_lower_def lower_char_def tx_identity_def leg_of_def
  previous_repaid_def is_repaid_def is_allocated_def is_receipt_def REPAYMENT_CONTRACTS_def settlement_marked_def direct_reference_def leg_amounts_agree_def uint_arg_def
  canonical_uint_def Let_def

lemma sample_pairs:
  "pair_repayment_events two_legs (cd_contracts sample_deployment) 2 ''f'' True = Some (two_legs ! 2, two_legs ! 0, two_legs ! 1)"
  "pair_repayment_events two_legs (cd_contracts sample_deployment) 5 ''f'' True = Some (two_legs ! 5, two_legs ! 3, two_legs ! 4)"
  by (simp_all add: pair_defs)

theorem no_allocation_counted_twice_witness:
  "pair_repayment_events two_legs (cd_contracts sample_deployment) 2 ''f'' True = Some (two_legs ! 2, two_legs ! 0, two_legs ! 1) \<and>
   pair_repayment_events two_legs (cd_contracts sample_deployment) 5 ''f'' True = Some (two_legs ! 5, two_legs ! 3, two_legs ! 4) \<and> two_legs ! 0 \<noteq> two_legs ! 3"
  using no_allocation_counted_twice [OF sample_pairs] sample_pairs by simp

theorem finalized_view_is_closed_witness:
  "\<exists>rm. replay_tier sample_deployment [] [recognition_log, payout_log, (mint_log T_PENDING)\<lparr>lg_tx_hash := ''other''\<rparr>] T_FINALIZED = Inr rm \<and>
     rm_entities rm \<noteq> [] \<and> map_of (rm_entities rm) (''VAULT'', ''v'') = None"
proof -
  let ?logs = "[recognition_log, payout_log, (mint_log T_PENDING)\<lparr>lg_tx_hash := ''other''\<rparr>]"
  have one: "one_tier_per_tx ?logs" by (simp add: one_tier_per_tx_def sample_log_defs sample_ref_def)
  have f: "tier_logs T_FINALIZED ?logs = [recognition_log, payout_log]" by (simp add: tier_logs_def sample_log_defs)
  have "timed_blocks ls [] = []" for ls by (simp add: timed_blocks_def)
  with finalized_view_is_closed [OF one, of sample_deployment "[]", unfolded f]
  have e: "replay_tier sample_deployment [] ?logs T_FINALIZED = replay_tier sample_deployment [] [recognition_log, payout_log] T_FINALIZED" by simp
  show ?thesis unfolding e by (simp add: replay_defs sample_log_defs recognized_def settle_row_def receivable_event_def receivable_row_checks_def)
qed

end
