(* ===== verification/Chain_Indexer.thy ===== *)
theory Chain_Indexer
  imports Chain_Decoder Projections
begin

text \<open>
  The chain indexer (\<open>projections/indexer.py\<close>: \<open>ChainIndexer.sync\<close>; the journal tables of \<open>db/projections_models.py\<close>). One call is one transaction: it drops
  rows above the cursor, walks back to the last common block, rolls the journal back, reads blocks and logs up to a bound,
  marks what is final, replays the read models and moves the cursor. The answers of the node are a record with one function
  per call site, so the chain may move between any two calls. Hexadecimal quantities of the node are given as integers,
  with the text of a log's index beside it, because the code compares that text.
\<close>

section \<open>The node\<close>

record rpc_block =
  rb_number :: int
  rb_hash :: string
  rb_parent :: string
  rb_timestamp :: int

record rpc_log =
  rl_block :: int
  rl_tx_index :: int
  rl_index :: int
  rl_index_text :: string
  rl_removed :: bool
  rl_block_hash :: string
  rl_tx_hash :: string
  rl_address :: string
  rl_topics :: "string list"
  rl_data :: string

record tx_receipt =
  tr_block_hash :: string
  tr_status :: int

record chain_rpc =
  rc_chain_id :: int
  rc_head :: int
  rc_scan :: "int \<Rightarrow> rpc_block option"
  rc_tip :: "int \<Rightarrow> rpc_block option"
  rc_read :: "int \<Rightarrow> rpc_block option"
  rc_logs :: "string list \<Rightarrow> int \<Rightarrow> int \<Rightarrow> rpc_log list"
  rc_receipt :: "string \<Rightarrow> tx_receipt option"
  rc_check :: "int \<Rightarrow> rpc_block option"

section \<open>The journal\<close>

record chain_cursor =
  cu_last :: int
  cu_hash :: string
  cu_finalized :: int
  cu_updated :: int

record reorg_row =
  rg_fork :: int
  rg_old :: string
  rg_new :: string
  rg_logs :: int

record chain_db =
  ch_deployment :: "chain_deployment option"
  ch_cursor :: "chain_cursor option"
  ch_blocks :: "chain_block list"
  ch_logs :: "chain_log list"
  ch_reorgs :: "reorg_row list"
  ch_models :: "read_model \<times> read_model"

datatype index_error =
    FinalizedReorg int
  | TransientChainChange string
  | IndexerError app_error

definition lift_index :: "app_error + 'a \<Rightarrow> index_error + 'a" where
  "lift_index r = (case r of Inl e \<Rightarrow> Inl (IndexerError e) | Inr x \<Rightarrow> Inr x)"

definition up_to :: "int \<Rightarrow> chain_db \<Rightarrow> chain_db" where
  "up_to n db = db\<lparr>ch_logs := filter (\<lambda>l. lg_block l \<le> n) (ch_logs db), ch_blocks := filter (\<lambda>b. cb_number b \<le> n) (ch_blocks db)\<rparr>"

definition drop_orphans :: "chain_db \<Rightarrow> chain_db" where
  "drop_orphans db = (case ch_cursor db of None \<Rightarrow> db | Some c \<Rightarrow> up_to (cu_last c) db)"

definition same_block :: "chain_block option \<Rightarrow> rpc_block option \<Rightarrow> bool" where
  "same_block known actual \<longleftrightarrow> (case (known, actual) of (Some b, Some r) \<Rightarrow> cb_hash b = str_lower (rb_hash r) | _ \<Rightarrow> False)"

text \<open>The walk back to the last common block.\<close>

function find_ancestor :: "chain_rpc \<Rightarrow> chain_block list \<Rightarrow> int \<Rightarrow> int \<Rightarrow> int \<Rightarrow> index_error + int" where
  "find_ancestor rpc blocks first final n =
    (if n < first then Inr n
     else if same_block (block_at blocks n) (rc_scan rpc n) then Inr n
     else if n \<le> final then Inl (FinalizedReorg n)
     else find_ancestor rpc blocks first final (n - 1))"
  by pat_completeness auto
termination by (relation "measure (\<lambda>(rpc, blocks, first, final, n). nat (n - first + 1))") auto

declare find_ancestor.simps [simp del]

definition roll_back :: "chain_rpc \<Rightarrow> chain_cursor \<Rightarrow> int \<Rightarrow> chain_db \<Rightarrow> index_error + chain_db" where
  "roll_back rpc c n db =
    (case rc_tip rpc (min (cu_last c) (rc_head rpc)) of
       None \<Rightarrow> Inl (IndexerError (OtherError ''TypeError''))
     | Some tip \<Rightarrow>
         (let row = \<lparr>rg_fork = n, rg_old = cu_hash c, rg_new = str_lower (rb_hash tip), rg_logs = int (length (filter (\<lambda>l. n < lg_block l) (ch_logs db)))\<rparr>
          in ensure (is_hex32 (rg_old row) \<and> is_hex32 (rg_new row)) (IndexerError (IntegrityError ''ck_reorg_journal_hashes''))
            (Inr ((up_to n db)\<lparr>ch_reorgs := ch_reorgs db @ [row]\<rparr>))))"

text \<open>The journal after orphans and reorganisations, with the number of its last block.\<close>

definition common_part :: "chain_rpc \<Rightarrow> chain_deployment \<Rightarrow> chain_db \<Rightarrow> index_error + (chain_db \<times> int)" where
  "common_part rpc d db0 =
    (let db = drop_orphans db0
     in case ch_cursor db of
          None \<Rightarrow> Inr (db, cd_block d - 1)
        | Some c \<Rightarrow>
            then_do (find_ancestor rpc (ch_blocks db) (cd_block d) (cu_finalized c) (cu_last c)) (\<lambda>n.
            if n < cu_last c then then_do (roll_back rpc c n db) (\<lambda>db. Inr (db, n)) else Inr (db, cu_last c)))"

section \<open>Reading blocks and logs\<close>

definition tier_of :: "int \<Rightarrow> int \<Rightarrow> tier" where
  "tier_of final n = (if n \<le> final then T_FINALIZED else T_PENDING)"

fun read_blocks :: "chain_rpc \<Rightarrow> int \<Rightarrow> string option \<Rightarrow> int list \<Rightarrow> index_error + chain_block list" where
  "read_blocks rpc final parent [] = Inr []"
| "read_blocks rpc final parent (n # ns) =
     (case rc_read rpc n of
        None \<Rightarrow> Inl (TransientChainChange ''canonical block unavailable'')
      | Some b \<Rightarrow>
          ensure (rb_number b = n) (TransientChainChange ''canonical block unavailable'')
          (ensure (parent \<in> {None, Some []} \<or> parent = Some (str_lower (rb_parent b))) (TransientChainChange ''chain changed while indexing; retry atomically'')
          (then_do (read_blocks rpc final (Some (str_lower (rb_hash b))) ns) (\<lambda>rest.
            Inr (\<lparr>cb_number = n, cb_hash = str_lower (rb_hash b), cb_parent = str_lower (rb_parent b), cb_timestamp = rb_timestamp b, cb_tier = tier_of final n\<rparr> # rest)))))"

definition block_checks :: "chain_block \<Rightarrow> bool" where
  "block_checks b \<longleftrightarrow> is_hex32 (cb_hash b) \<and> is_hex32 (cb_parent b)"

definition add_blocks :: "chain_block list \<Rightarrow> chain_db \<Rightarrow> index_error + chain_db" where
  "add_blocks bs db =
    ensure (list_all block_checks bs \<and> distinct (map cb_number (ch_blocks db @ bs))) (IndexerError (IntegrityError ''chain_blocks''))
      (Inr (db\<lparr>ch_blocks := ch_blocks db @ bs\<rparr>))"

definition receipt_ok :: "tx_receipt option \<Rightarrow> string \<Rightarrow> bool" where
  "receipt_ok r h \<longleftrightarrow> (case r of None \<Rightarrow> False | Some r \<Rightarrow> str_lower (tr_block_hash r) = h \<and> tr_status r = 1)"

definition log_row :: "abi_decode_fun \<Rightarrow> decoder \<Rightarrow> int \<Rightarrow> string \<Rightarrow> rpc_log \<Rightarrow> index_error + chain_log" where
  "log_row dec D final h raw =
    then_do (lift_index (decode_log dec D (rl_address raw) (rl_topics raw) (rl_data raw))) (\<lambda>decoded.
    (case contract_of D (rl_address raw) of
       None \<Rightarrow> Inl (IndexerError (ValueError ''RPC returned unregistered contract''))
     | Some contract \<Rightarrow>
         Inr \<lparr>lg_block = rl_block raw, lg_block_hash = h, lg_tx_hash = str_lower (rl_tx_hash raw), lg_tx_index = rl_tx_index raw, lg_index = rl_index raw, lg_status = 1,
           lg_address = str_lower (rl_address raw), lg_contract = contract, lg_event = (case decoded of None \<Rightarrow> ''UNKNOWN'' | Some x \<Rightarrow> dl_event x),
           lg_topics = rl_topics raw, lg_data = rl_data raw, lg_args = JObj (case decoded of None \<Rightarrow> [] | Some x \<Rightarrow> dl_args x), lg_tier = tier_of final (rl_block raw)\<rparr>))"

definition raw_position :: "rpc_log \<Rightarrow> string \<times> string \<times> string" where
  "raw_position raw = (rl_block_hash raw, rl_tx_hash raw, rl_index_text raw)"

text \<open>The loop over the node's logs; \<open>seen\<close> holds the positions already stored.\<close>

fun read_logs ::
  "abi_decode_fun \<Rightarrow> decoder \<Rightarrow> chain_rpc \<Rightarrow> int \<Rightarrow> int \<Rightarrow> int \<Rightarrow> chain_block list \<Rightarrow> (string \<times> string \<times> string) set \<Rightarrow> rpc_log list \<Rightarrow> index_error + chain_log list" where
  "read_logs dec D rpc low stop final blocks seen [] = Inr []"
| "read_logs dec D rpc low stop final blocks seen (raw # raws) =
     ensure (low < rl_block raw \<and> rl_block raw \<le> stop \<and> \<not> rl_removed raw) (TransientChainChange ''RPC returned log outside canonical requested range'')
     (case block_at blocks (rl_block raw) of
        None \<Rightarrow> Inl (IndexerError (OtherError ''AttributeError''))
      | Some b \<Rightarrow>
          ensure (str_lower (rl_block_hash raw) = cb_hash b) (TransientChainChange ''log belongs to another block hash'')
          (if raw_position raw \<in> seen then read_logs dec D rpc low stop final blocks seen raws
           else ensure (receipt_ok (rc_receipt rpc (str_lower (rl_tx_hash raw))) (cb_hash b)) (TransientChainChange ''log lacks canonical successful receipt'')
             (then_do (log_row dec D final (cb_hash b) raw) (\<lambda>row.
              then_do (read_logs dec D rpc low stop final blocks (insert (raw_position raw) seen) raws) (\<lambda>rows. Inr (row # rows))))))"

definition log_position :: "chain_log \<Rightarrow> string \<times> string \<times> int" where
  "log_position l = (lg_block_hash l, lg_tx_hash l, lg_index l)"

definition log_checks :: "chain_log \<Rightarrow> bool" where
  "log_checks l \<longleftrightarrow> is_hex32 (lg_block_hash l) \<and> is_hex32 (lg_tx_hash l) \<and> is_addr (lg_address l) \<and> 0 \<le> lg_block l \<and> lg_block l < 2 ^ 63 \<and>
     0 \<le> lg_tx_index l \<and> lg_tx_index l < 2 ^ 31 \<and> 0 \<le> lg_index l \<and> lg_index l < 2 ^ 31"

definition add_logs :: "chain_log list \<Rightarrow> chain_db \<Rightarrow> index_error + chain_db" where
  "add_logs ls db =
    ensure (list_all log_checks ls \<and> distinct (map log_position (ch_logs db @ ls))) (IndexerError (IntegrityError ''chain_logs''))
      (Inr (db\<lparr>ch_logs := ch_logs db @ ls\<rparr>))"

definition raw_order :: "rpc_log \<Rightarrow> int \<times> int \<times> int" where
  "raw_order raw = (rl_block raw, rl_tx_index raw, rl_index raw)"

definition check_tip :: "chain_rpc \<Rightarrow> int \<Rightarrow> chain_db \<Rightarrow> index_error + unit" where
  "check_tip rpc stop db =
    (case (rc_check rpc stop, block_at (ch_blocks db) stop) of
       (Some r, Some b) \<Rightarrow> ensure (str_lower (rb_hash r) = cb_hash b) (TransientChainChange ''chain changed before index commit'') (Inr ())
     | _ \<Rightarrow> Inl (IndexerError (OtherError ''TypeError'')))"

definition extend_journal :: "abi_decode_fun \<Rightarrow> decoder \<Rightarrow> chain_rpc \<Rightarrow> int \<Rightarrow> int \<Rightarrow> int \<Rightarrow> chain_db \<Rightarrow> index_error + chain_db" where
  "extend_journal dec D rpc low stop final db =
    then_do (read_blocks rpc final (map_option cb_hash (block_at (ch_blocks db) low)) [low + 1..stop]) (\<lambda>bs.
    then_do (add_blocks bs db) (\<lambda>db.
    if \<not> low < stop then Inr db
    else then_do (read_logs dec D rpc low stop final (ch_blocks db) {} (sort_key raw_order (rc_logs rpc (decoder_addresses D) (low + 1) stop))) (\<lambda>ls.
         then_do (add_logs ls db) (\<lambda>db. then_do (check_tip rpc stop db) (\<lambda>_. Inr db)))))"

section \<open>One synchronisation\<close>

definition final_block :: "int \<Rightarrow> chain_block \<Rightarrow> chain_block" where
  "final_block final b = (if cb_number b \<le> final then b\<lparr>cb_tier := T_FINALIZED\<rparr> else b)"

definition final_log :: "int \<Rightarrow> chain_log \<Rightarrow> chain_log" where
  "final_log final l = (if lg_block l \<le> final then l\<lparr>lg_tier := T_FINALIZED\<rparr> else l)"

definition mark_finalized :: "int \<Rightarrow> chain_db \<Rightarrow> chain_db" where
  "mark_finalized final db = db\<lparr>ch_blocks := map (final_block final) (ch_blocks db), ch_logs := map (final_log final) (ch_logs db)\<rparr>"

record sync_result =
  sy_last :: int
  sy_finalized :: "int option"
  sy_head :: int
  sy_lag :: int

definition target_final :: "chain_deployment \<Rightarrow> int \<Rightarrow> int \<Rightarrow> int" where
  "target_final d head stop = max (cd_block d - 1) (min stop (head - cd_finality_depth d))"

definition commit_sync :: "int \<Rightarrow> chain_deployment \<Rightarrow> int \<Rightarrow> int \<Rightarrow> int \<Rightarrow> chain_db \<Rightarrow> index_error + (chain_db \<times> sync_result)" where
  "commit_sync now d head stop final db0 =
    (let db = mark_finalized final db0
     in then_do (lift_index (replay d (ch_blocks db) (ch_logs db))) (\<lambda>models.
        (case block_at (ch_blocks db) stop of
           None \<Rightarrow> Inl (IndexerError (OtherError ''AttributeError''))
         | Some b \<Rightarrow>
             Inr (db\<lparr>ch_models := models, ch_cursor := Some \<lparr>cu_last = stop, cu_hash = cb_hash b, cu_finalized = final, cu_updated = now\<rparr>\<rparr>,
               \<lparr>sy_last = stop, sy_finalized = Some final, sy_head = head, sy_lag = head - stop\<rparr>))))"

definition sync ::
  "abi_decode_fun \<Rightarrow> (string \<Rightarrow> abi_entry list) \<Rightarrow> int \<Rightarrow> chain_rpc \<Rightarrow> int \<Rightarrow> chain_db \<Rightarrow> index_error + (chain_db \<times> sync_result)" where
  "sync dec abis now rpc chunk db =
    ensure (1 \<le> chunk \<and> chunk \<le> 5000) (IndexerError (ValueError ''chunk_size must be between 1 and 5000''))
    (case ch_deployment db of
       None \<Rightarrow> Inl (IndexerError (ValueError ''unknown deployment''))
     | Some d \<Rightarrow>
         ensure (rc_chain_id rpc = cd_chain_id d) (IndexerError (ValueError ''RPC chain differs from deployment''))
         (then_do (lift_index (make_decoder abis (cd_contracts d))) (\<lambda>D.
          then_do (common_part rpc d db) (\<lambda>(db, low).
          (let stop = min (rc_head rpc) (low + chunk); final = target_final d (rc_head rpc) stop
           in then_do (extend_journal dec D rpc low stop final db) (\<lambda>db.
              if stop < cd_block d
              then Inr (db, \<lparr>sy_last = low, sy_finalized = None, sy_head = rc_head rpc, sy_lag = max 0 (rc_head rpc - low)\<rparr>)
              else commit_sync now d (rc_head rpc) stop final db))))))"

section \<open>The journal is a chain\<close>

fun parent_linked :: "chain_block list \<Rightarrow> bool" where
  "parent_linked (a # b # bs) = (cb_parent b = cb_hash a \<and> parent_linked (b # bs))"
| "parent_linked _ = True"

definition anchored :: "chain_db \<Rightarrow> bool" where
  "anchored db \<longleftrightarrow> (\<forall>l \<in> set (ch_logs db). \<exists>b \<in> set (ch_blocks db). cb_number b = lg_block l \<and> cb_hash b = lg_block_hash l)"

text \<open>The journal holds the blocks from the deployment's to \<open>m\<close>, each once and each the parent of the next, and every log stands in one of them.\<close>

definition chain_to :: "int \<Rightarrow> int \<Rightarrow> chain_db \<Rightarrow> bool" where
  "chain_to first m db \<longleftrightarrow> first - 1 \<le> m \<and> map cb_number (ch_blocks db) = [first..m] \<and> parent_linked (ch_blocks db) \<and> list_all block_checks (ch_blocks db) \<and> anchored db \<and>
     distinct (map log_position (ch_logs db))"

definition cursor_ok :: "int \<Rightarrow> int \<Rightarrow> chain_db \<Rightarrow> bool" where
  "cursor_ok first m db \<longleftrightarrow>
    (case ch_cursor db of
       None \<Rightarrow> m = first - 1
     | Some c \<Rightarrow> first \<le> cu_last c \<and> first - 1 \<le> cu_finalized c \<and> cu_finalized c \<le> cu_last c \<and> cu_finalized c \<le> m \<and>
         (\<forall>b \<in> set (ch_blocks db). cb_number b = cu_last c \<longrightarrow> cb_hash b = cu_hash c) \<and>
         (\<forall>b \<in> set (ch_blocks db). cb_number b \<le> cu_finalized c \<longrightarrow> cb_tier b = T_FINALIZED) \<and>
         (\<forall>l \<in> set (ch_logs db). lg_block l \<le> cu_finalized c \<longrightarrow> lg_tier l = T_FINALIZED))"

definition journal_ok :: "chain_deployment \<Rightarrow> chain_db \<Rightarrow> bool" where
  "journal_ok d db \<longleftrightarrow> ch_deployment db = Some d \<and> 0 \<le> cd_finality_depth d \<and> (\<exists>m. chain_to (cd_block d) m db \<and> cursor_ok (cd_block d) m db)"

lemma filter_le_upto: "filter (\<lambda>x. x \<le> n) [i..j] = [i..min j n]"
proof (induction i j rule: upto.induct)
  case (1 i j)
  show ?case
  proof (cases "i \<le> j \<and> i \<le> n")
    case True
    with 1 show ?thesis by (simp add: upto_rec1)
  next
    case False
    then show ?thesis by (auto simp: filter_empty_conv)
  qed
qed

lemma parent_linked_append:
  "parent_linked (xs @ ys) \<longleftrightarrow> parent_linked xs \<and> parent_linked ys \<and> (xs \<noteq> [] \<and> ys \<noteq> [] \<longrightarrow> cb_parent (hd ys) = cb_hash (last xs))"
proof (induction xs)
  case (Cons a xs)
  then show ?case by (cases xs; cases ys) auto
qed simp

lemma kept_is_prefix: "map cb_number bs = [i..m] \<Longrightarrow> \<exists>ys. bs = filter (\<lambda>b. cb_number b \<le> n) bs @ ys"
proof (induction bs arbitrary: i)
  case (Cons b bs)
  have "i \<le> m" using Cons.prems by (cases "i \<le> m") simp_all
  with Cons.prems have b: "cb_number b = i" "map cb_number bs = [i + 1..m]" by (simp_all add: upto_rec1)
  show ?case
  proof (cases "i \<le> n")
    case True
    with b Cons.IH [OF b(2)] show ?thesis by auto
  next
    case False
    have "\<forall>x \<in> set bs. i + 1 \<le> cb_number x"
    proof
      fix x
      assume "x \<in> set bs"
      then have "cb_number x \<in> set (map cb_number bs)" by simp
      then show "i + 1 \<le> cb_number x" unfolding b(2) by simp
    qed
    with False b have "filter (\<lambda>b. cb_number b \<le> n) (b # bs) = []" by (auto simp: filter_empty_conv)
    then show ?thesis by simp
  qed
qed simp

lemma up_to_chain:
  assumes "chain_to first m db" and "first - 1 \<le> n"
  shows "chain_to first (min m n) (up_to n db)"
proof -
  have nums: "map cb_number (ch_blocks db) = [first..m]" using assms(1) by (simp add: chain_to_def)
  obtain ys where ys: "ch_blocks db = filter (\<lambda>b. cb_number b \<le> n) (ch_blocks db) @ ys" using kept_is_prefix [OF nums] by blast
  have "parent_linked (filter (\<lambda>b. cb_number b \<le> n) (ch_blocks db))" using assms(1) ys parent_linked_append unfolding chain_to_def by metis
  moreover have "map cb_number (filter (\<lambda>b. cb_number b \<le> n) (ch_blocks db)) = [first..min m n]"
    unfolding filter_le_upto [symmetric] nums [symmetric] by (simp add: filter_map o_def)
  moreover have "distinct (map log_position (filter (\<lambda>l. lg_block l \<le> n) (ch_logs db)))" using assms(1) by (auto simp: chain_to_def intro: distinct_map_filter)
  moreover have "anchored (up_to n db)" using assms(1) by (fastforce simp: chain_to_def up_to_def anchored_def)
  ultimately show ?thesis using assms by (auto simp: chain_to_def up_to_def list_all_iff)
qed

lemma block_at_Some: "block_at bs n = Some b \<Longrightarrow> b \<in> set bs \<and> cb_number b = n"
  by (induction bs) (auto simp: block_at_def split: if_splits)

lemma block_at_number: "chain_to first m db \<Longrightarrow> block_at (ch_blocks db) n = Some b \<Longrightarrow> first \<le> n \<and> n \<le> m"
  by (metis atLeastAtMost_iff block_at_Some chain_to_def image_eqI list.set_map set_upto)

lemma ancestor_facts:
  assumes "find_ancestor rpc blocks first final n = Inr a" and "final \<le> n" and "first - 1 \<le> n"
  shows "final \<le> a \<and> a \<le> n \<and> first - 1 \<le> a \<and> (first \<le> a \<longrightarrow> (\<exists>b. block_at blocks a = Some b))"
  using assms
proof (induction rpc blocks first final n rule: find_ancestor.induct)
  case (1 rpc blocks first final n)
  show ?case
  proof (cases "n < first \<or> same_block (block_at blocks n) (rc_scan rpc n)")
    case True
    then have "a = n" using "1.prems"(1) by (subst (asm) find_ancestor.simps) (auto split: if_splits)
    with True "1.prems" show ?thesis by (auto simp: same_block_def split: option.splits)
  next
    case False
    then have f: "\<not> n \<le> final" "find_ancestor rpc blocks first final (n - 1) = Inr a" using "1.prems"(1) by (subst (asm) find_ancestor.simps, auto split: if_splits)+
    with False "1.IH" [OF _ _ f(1) f(2)] show ?thesis by auto
  qed
qed

lemma up_to_simps [simp]:
  "ch_deployment (up_to n db) = ch_deployment db" "ch_cursor (up_to n db) = ch_cursor db" "ch_models (up_to n db) = ch_models db" "ch_reorgs (up_to n db) = ch_reorgs db"
  by (simp_all add: up_to_def)

lemma up_to_up_to: "ch_blocks (up_to n (up_to k db)) = ch_blocks (up_to (min n k) db)" "ch_logs (up_to n (up_to k db)) = ch_logs (up_to (min n k) db)"
  by (auto simp: up_to_def intro: filter_cong)

lemma chain_to_reorgs [simp]: "chain_to first m (db\<lparr>ch_reorgs := rs\<rparr>) = chain_to first m db"
  by (simp add: chain_to_def anchored_def)

lemma rolled_back:
  assumes "roll_back rpc c n db = Inr db'"
  obtains rs where "db' = (up_to n db)\<lparr>ch_reorgs := rs\<rparr>"
  using assms by (auto simp: roll_back_def Let_def split: option.splits)

text \<open>What is left after orphans and a reorganisation is the old journal up to a block at or above the finalized one.\<close>

lemma common_part_facts:
  assumes "common_part rpc d db = Inr (db', low)" and "journal_ok d db"
  shows "chain_to (cd_block d) low db' \<and> ch_blocks db' = ch_blocks (up_to low db) \<and> ch_logs db' = ch_logs (up_to low db) \<and>
    ch_cursor db' = ch_cursor db \<and> ch_deployment db' = ch_deployment db \<and> ch_models db' = ch_models db \<and>
    (\<forall>c. ch_cursor db = Some c \<longrightarrow> cu_finalized c \<le> low \<and> low \<le> cu_last c) \<and> (ch_cursor db = None \<longrightarrow> low = cd_block d - 1)"
proof -
  obtain m where m: "chain_to (cd_block d) m db" "cursor_ok (cd_block d) m db" using assms(2) by (auto simp: journal_ok_def)
  show ?thesis
  proof (cases "ch_cursor db")
    case None
    with assms(1) have e: "db' = db" "low = cd_block d - 1" by (simp_all add: common_part_def drop_orphans_def)
    from None m have empty: "ch_blocks db = []" by (simp add: cursor_ok_def chain_to_def)
    then have "ch_logs db = []" using m(1) by (auto simp: chain_to_def anchored_def)
    with None m empty e show ?thesis by (simp add: cursor_ok_def up_to_def)
  next
    case (Some c)
    let ?u = "up_to (cu_last c) db"
    have c: "cd_block d \<le> cu_last c" "cu_finalized c \<le> cu_last c" using Some m(2) by (simp_all add: cursor_ok_def)
    have u: "chain_to (cd_block d) (min m (cu_last c)) ?u" by (rule up_to_chain [OF m(1)]) (use c in simp)
    from assms(1) Some obtain n where n: "find_ancestor rpc (ch_blocks ?u) (cd_block d) (cu_finalized c) (cu_last c) = Inr n"
      and r: "(if n < cu_last c then then_do (roll_back rpc c n ?u) (\<lambda>db. Inr (db, n)) else Inr (?u, cu_last c)) = Inr (db', low)"
      unfolding common_part_def drop_orphans_def Let_def Some up_to_simps option.case then_do_eq_Inr by blast
    have a: "cu_finalized c \<le> n" "n \<le> cu_last c" "cd_block d - 1 \<le> n" "cd_block d \<le> n \<longrightarrow> (\<exists>b. block_at (ch_blocks ?u) n = Some b)"
      using ancestor_facts [OF n] c by auto
    have nm: "n \<le> m" using a(3,4) block_at_number [OF u, of n] m(1) by (cases "cd_block d \<le> n") (auto simp: chain_to_def)
    have low: "low = n" using r a(2) by (auto simp: then_do_eq_Inr split: if_splits)
    have un: "chain_to (cd_block d) n (up_to n db)" using up_to_chain [OF m(1) a(3)] nm by (simp add: min_absorb2)
    have eq: "ch_blocks (up_to n ?u) = ch_blocks (up_to n db)" "ch_logs (up_to n ?u) = ch_logs (up_to n db)" unfolding up_to_up_to using a(2) by (simp_all add: min_absorb1)
    have "ch_blocks db' = ch_blocks (up_to n db) \<and> ch_logs db' = ch_logs (up_to n db) \<and> ch_cursor db' = ch_cursor db \<and> ch_deployment db' = ch_deployment db \<and> ch_models db' = ch_models db"
    proof (cases "n < cu_last c")
      case True
      with r have "roll_back rpc c n ?u = Inr db'" by (auto simp: then_do_eq_Inr)
      then obtain rs where "db' = (up_to n ?u)\<lparr>ch_reorgs := rs\<rparr>" by (rule rolled_back)
      with eq show ?thesis by simp
    next
      case False
      with r a(2) have "db' = ?u" "n = cu_last c" by auto
      then show ?thesis by simp
    qed
    moreover from this un have "chain_to (cd_block d) n db'" by (simp add: chain_to_def anchored_def)
    ultimately show ?thesis using a low Some by auto
  qed
qed

lemma read_blocks_facts:
  assumes "read_blocks rpc final p ns = Inr bs"
  shows "map cb_number bs = ns \<and> (\<forall>b \<in> set bs. cb_tier b = tier_of final (cb_number b)) \<and> (list_all block_checks bs \<longrightarrow> parent_linked bs) \<and>
    (\<forall>h. bs \<noteq> [] \<and> p = Some h \<and> h \<noteq> [] \<longrightarrow> cb_parent (hd bs) = h)"
  using assms
proof (induction rpc final p ns arbitrary: bs rule: read_blocks.induct)
  case (2 rpc final parent n ns)
  then obtain b rest where b: "rc_read rpc n = Some b" "parent \<in> {None, Some []} \<or> parent = Some (str_lower (rb_parent b))"
    and rest: "read_blocks rpc final (Some (str_lower (rb_hash b))) ns = Inr rest"
    and bs: "bs = \<lparr>cb_number = n, cb_hash = str_lower (rb_hash b), cb_parent = str_lower (rb_parent b), cb_timestamp = rb_timestamp b, cb_tier = tier_of final n\<rparr> # rest"
    by (auto simp: then_do_eq_Inr split: option.splits)
  have ih: "map cb_number rest = ns" "\<forall>b \<in> set rest. cb_tier b = tier_of final (cb_number b)" "list_all block_checks rest \<longrightarrow> parent_linked rest"
      "\<forall>h. rest \<noteq> [] \<and> Some (str_lower (rb_hash b)) = Some h \<and> h \<noteq> [] \<longrightarrow> cb_parent (hd rest) = h"
    using "2.IH" [OF b(1) rest] by auto
  have "parent_linked bs" if "list_all block_checks bs"
  proof -
    have "str_lower (rb_hash b) \<noteq> []" using that by (auto simp: bs block_checks_def is_hex32_def)
    then show ?thesis using that ih by (cases rest) (simp_all add: bs)
  qed
  with b(2) ih bs show ?case by auto
qed simp

lemma read_logs_facts:
  assumes "read_logs dec D rpc low stop final blocks seen raws = Inr ls"
  shows "\<forall>l \<in> set ls. low < lg_block l \<and> lg_block l \<le> stop \<and> lg_tier l = tier_of final (lg_block l) \<and> lg_status l = 1 \<and>
    (\<exists>b \<in> set blocks. cb_number b = lg_block l \<and> cb_hash b = lg_block_hash l)"
  using assms
proof (induction dec D rpc low stop final blocks seen raws arbitrary: ls rule: read_logs.induct)
  case (2 dec D rpc low stop final blocks seen raw raws)
  then obtain b where r: "low < rl_block raw" "rl_block raw \<le> stop" and b: "block_at blocks (rl_block raw) = Some b"
    by (auto split: option.splits)
  show ?case
  proof (cases "raw_position raw \<in> seen")
    case True
    with "2.prems" b r have "read_logs dec D rpc low stop final blocks seen raws = Inr ls" by simp
    with "2.IH"(1) [OF b True] show ?thesis by blast
  next
    case False
    with "2.prems" b r obtain row rows where row: "log_row dec D final (cb_hash b) raw = Inr row"
      and rows: "read_logs dec D rpc low stop final blocks (insert (raw_position raw) seen) raws = Inr rows" and ls: "ls = row # rows"
      by (auto simp: then_do_eq_Inr)
    from row have "lg_block row = rl_block raw \<and> lg_block_hash row = cb_hash b \<and> lg_tier row = tier_of final (rl_block raw) \<and> lg_status row = 1"
      by (auto simp: log_row_def then_do_eq_Inr split: option.splits)
    with "2.IH"(2) [OF b False rows] block_at_Some [OF b] r ls show ?thesis by auto
  qed
qed simp

lemma extended:
  assumes "extend_journal dec D rpc low stop final db = Inr db'" and "chain_to first low db"
  shows "chain_to first (max low stop) db' \<and> ch_cursor db' = ch_cursor db \<and> ch_deployment db' = ch_deployment db \<and> ch_models db' = ch_models db \<and>
    (\<exists>bs ls. ch_blocks db' = ch_blocks db @ bs \<and> ch_logs db' = ch_logs db @ ls \<and> (\<forall>b \<in> set bs. low < cb_number b \<and> cb_tier b = tier_of final (cb_number b)) \<and>
      (\<forall>l \<in> set ls. low < lg_block l \<and> lg_tier l = tier_of final (lg_block l)))"
proof -
  let ?p = "map_option cb_hash (block_at (ch_blocks db) low)"
  from assms(1) obtain bs db1 where bs: "read_blocks rpc final ?p [low + 1..stop] = Inr bs" and db1: "add_blocks bs db = Inr db1"
    and rest: "(if \<not> low < stop then Inr db1 else then_do (read_logs dec D rpc low stop final (ch_blocks db1) {} (sort_key raw_order (rc_logs rpc (decoder_addresses D) (low + 1) stop))) (\<lambda>ls.
      then_do (add_logs ls db1) (\<lambda>db. then_do (check_tip rpc stop db) (\<lambda>_. Inr db)))) = Inr db'"
    unfolding extend_journal_def then_do_eq_Inr by blast
  from db1 have b1: "db1 = db\<lparr>ch_blocks := ch_blocks db @ bs\<rparr>" "list_all block_checks bs" by (auto simp: add_blocks_def)
  have nb: "map cb_number bs = [low + 1..stop]" "\<forall>b \<in> set bs. cb_tier b = tier_of final (cb_number b)" "parent_linked bs"
      "\<forall>h. bs \<noteq> [] \<and> ?p = Some h \<and> h \<noteq> [] \<longrightarrow> cb_parent (hd bs) = h"
    using read_blocks_facts [OF bs] b1(2) by auto
  have above: "\<forall>b \<in> set bs. low < cb_number b"
  proof
    fix b
    assume "b \<in> set bs"
    then have "cb_number b \<in> set (map cb_number bs)" by simp
    then show "low < cb_number b" unfolding nb(1) by simp
  qed
  have nums: "map cb_number (ch_blocks db) = [first..low]" "first - 1 \<le> low" using assms(2) by (simp_all add: chain_to_def)
  have "parent_linked (ch_blocks db @ bs)"
  proof -
    have "cb_parent (hd bs) = cb_hash (last (ch_blocks db))" if "ch_blocks db \<noteq> []" "bs \<noteq> []"
    proof -
      have ne: "first \<le> low" using nums(1) that(1) by (cases "first \<le> low") auto
      let ?l = "last (ch_blocks db)"
      have "cb_number ?l = last (map cb_number (ch_blocks db))" using that(1) by (simp add: last_map)
      also have "\<dots> = low" unfolding nums(1) using ne by (simp add: upto_rec2)
      finally have l: "cb_number ?l = low" "?l \<in> set (ch_blocks db)" using that(1) by simp_all
      have inj: "inj_on cb_number (set (ch_blocks db))"
      proof -
        have "distinct (map cb_number (ch_blocks db))" unfolding nums(1) by (rule distinct_upto)
        then show ?thesis by (simp add: distinct_map)
      qed
      obtain x where x: "block_at (ch_blocks db) low = Some x" using l unfolding block_at_def by (metis (mono_tags, lifting) find_None_iff not_None_eq)
      then have "x = ?l" using block_at_Some [OF x] l inj by (auto dest: inj_onD)
      moreover have "cb_hash ?l \<noteq> []" using assms(2) l(2) by (auto simp: chain_to_def list_all_iff block_checks_def is_hex32_def)
      ultimately show ?thesis using nb(4) that(2) x by simp
    qed
    with nb(3) assms(2) show ?thesis by (auto simp: parent_linked_append chain_to_def)
  qed
  moreover have "map cb_number (ch_blocks db @ bs) = [first..max low stop]"
  proof (cases "low < stop")
    case True
    have "[first..low] @ [low + 1..stop] = [first..stop]"
    proof (cases "first \<le> low")
      case False
      with nums(2) have "first = low + 1" by simp
      then show ?thesis by simp
    qed (use True upto_split2 [of first low stop] in simp)
    with nums nb(1) True show ?thesis by (simp add: max_def)
  next
    case False
    with nums nb(1) show ?thesis by (simp add: max_def)
  qed
  moreover have "anchored db1" using assms(2) b1(1) by (auto simp: chain_to_def anchored_def)
  moreover have "list_all block_checks (ch_blocks db @ bs)" using assms(2) b1(2) by (simp add: chain_to_def)
  ultimately have c1: "chain_to first (max low stop) db1" using assms(2) b1(1) nums(2) by (auto simp: chain_to_def)
  show ?thesis
  proof (cases "low < stop")
    case False
    with rest have "db' = db1" by simp
    with c1 b1(1) above nb(2) show ?thesis by auto
  next
    case True
    with rest obtain ls where ls: "read_logs dec D rpc low stop final (ch_blocks db1) {} (sort_key raw_order (rc_logs rpc (decoder_addresses D) (low + 1) stop)) = Inr ls"
      and al: "add_logs ls db1 = Inr db'" by (auto simp: then_do_eq_Inr)
    from al have d: "db' = db1\<lparr>ch_logs := ch_logs db1 @ ls\<rparr>" "distinct (map log_position (ch_logs db1 @ ls))" by (auto simp: add_logs_def)
    have lf: "\<forall>l \<in> set ls. low < lg_block l \<and> lg_tier l = tier_of final (lg_block l) \<and> (\<exists>b \<in> set (ch_blocks db1). cb_number b = lg_block l \<and> cb_hash b = lg_block_hash l)"
      using read_logs_facts [OF ls] by blast
    have "chain_to first (max low stop) db'" using c1 d lf unfolding chain_to_def anchored_def by auto
    with b1(1) above nb(2) d lf show ?thesis by auto
  qed
qed

lemma parent_linked_map: "(\<And>b. cb_hash (f b) = cb_hash b \<and> cb_parent (f b) = cb_parent b) \<Longrightarrow> parent_linked (map f bs) = parent_linked bs"
  by (induction bs rule: parent_linked.induct) auto

lemma final_block_simps [simp]:
  "cb_number (final_block f b) = cb_number b" "cb_hash (final_block f b) = cb_hash b" "cb_parent (final_block f b) = cb_parent b" "block_checks (final_block f b) = block_checks b"
  by (simp_all add: final_block_def block_checks_def)

lemma final_log_simps [simp]:
  "lg_block (final_log f l) = lg_block l" "lg_block_hash (final_log f l) = lg_block_hash l" "log_position (final_log f l) = log_position l"
  by (simp_all add: final_log_def log_position_def)

lemma mark_final_chain: "chain_to first m db \<Longrightarrow> chain_to first m (mark_finalized final db)"
  by (simp add: chain_to_def mark_finalized_def anchored_def list_all_iff parent_linked_map o_def)

lemma mark_final_simps [simp]:
  "ch_deployment (mark_finalized f db) = ch_deployment db" "ch_cursor (mark_finalized f db) = ch_cursor db" "ch_reorgs (mark_finalized f db) = ch_reorgs db"
  by (simp_all add: mark_finalized_def)

lemma committed:
  assumes "commit_sync now d head stop final db = Inr (db', r)"
  obtains models b where "replay d (ch_blocks (mark_finalized final db)) (ch_logs (mark_finalized final db)) = Inr models"
    "block_at (ch_blocks (mark_finalized final db)) stop = Some b"
    "db' = (mark_finalized final db)\<lparr>ch_models := models, ch_cursor := Some \<lparr>cu_last = stop, cu_hash = cb_hash b, cu_finalized = final, cu_updated = now\<rparr>\<rparr>"
    "r = \<lparr>sy_last = stop, sy_finalized = Some final, sy_head = head, sy_lag = head - stop\<rparr>"
  using assms unfolding commit_sync_def Let_def lift_index_def
  by (cases "replay d (ch_blocks (mark_finalized final db)) (ch_logs (mark_finalized final db))"; cases "block_at (ch_blocks (mark_finalized final db)) stop") auto

text \<open>A call that returns: the common part of the journal, its extension, and either nothing more or the commit.\<close>

lemma synced:
  assumes "sync dec abis now rpc chunk db = Inr (db', r)"
  obtains d D db1 low db2 where "ch_deployment db = Some d" "1 \<le> chunk" "make_decoder abis (cd_contracts d) = Inr D" "common_part rpc d db = Inr (db1, low)"
    "extend_journal dec D rpc low (min (rc_head rpc) (low + chunk)) (target_final d (rc_head rpc) (min (rc_head rpc) (low + chunk))) db1 = Inr db2"
    "if min (rc_head rpc) (low + chunk) < cd_block d then db' = db2
     else commit_sync now d (rc_head rpc) (min (rc_head rpc) (low + chunk)) (target_final d (rc_head rpc) (min (rc_head rpc) (low + chunk))) db2 = Inr (db', r)"
proof -
  from assms obtain d where d: "ch_deployment db = Some d" "1 \<le> chunk"
    and k: "then_do (lift_index (make_decoder abis (cd_contracts d))) (\<lambda>D. then_do (common_part rpc d db) (\<lambda>(db, low).
      (let stop = min (rc_head rpc) (low + chunk); final = target_final d (rc_head rpc) stop
       in then_do (extend_journal dec D rpc low stop final db) (\<lambda>db. if stop < cd_block d
          then Inr (db, \<lparr>sy_last = low, sy_finalized = None, sy_head = rc_head rpc, sy_lag = max 0 (rc_head rpc - low)\<rparr>)
          else commit_sync now d (rc_head rpc) stop final db)))) = Inr (db', r)"
    unfolding sync_def by (cases "ch_deployment db") auto
  from k obtain D where D: "make_decoder abis (cd_contracts d) = Inr D" by (cases "make_decoder abis (cd_contracts d)") (simp_all add: lift_index_def)
  from k D obtain db1 low where c: "common_part rpc d db = Inr (db1, low)" by (cases "common_part rpc d db") (auto simp: lift_index_def)
  let ?stop = "min (rc_head rpc) (low + chunk)" and ?final = "target_final d (rc_head rpc) (min (rc_head rpc) (low + chunk))"
  from k D c obtain db2 where e: "extend_journal dec D rpc low ?stop ?final db1 = Inr db2"
    by (cases "extend_journal dec D rpc low ?stop ?final db1") (auto simp: lift_index_def Let_def)
  from k D c e have "if ?stop < cd_block d then db' = db2 else commit_sync now d (rc_head rpc) ?stop ?final db2 = Inr (db', r)"
    by (simp add: lift_index_def Let_def split: if_splits)
  with d D c e show thesis by (rule that)
qed

lemma target_final_bounds:
  "cd_block d - 1 \<le> target_final d head stop" "cd_block d \<le> stop \<Longrightarrow> target_final d head stop \<le> stop"
  "target_final d head stop = cd_block d - 1 \<or> target_final d head stop \<le> head - cd_finality_depth d"
  by (auto simp: target_final_def)

lemma chain_numbers: "chain_to first m db \<Longrightarrow> b \<in> set (ch_blocks db) \<Longrightarrow> first \<le> cb_number b \<and> cb_number b \<le> m"
  by (metis atLeastAtMost_iff chain_to_def image_eqI list.set_map set_upto)

lemma chain_inj: "chain_to first m db \<Longrightarrow> inj_on cb_number (set (ch_blocks db))"
  by (metis chain_to_def distinct_map distinct_upto)

lemma new_cursor_ok:
  assumes "chain_to first m (mark_finalized final db)" and "block_at (ch_blocks (mark_finalized final db)) stop = Some b"
    and "first \<le> stop" and "first - 1 \<le> final" and "final \<le> stop" and "final \<le> m"
  shows "cursor_ok first m ((mark_finalized final db)\<lparr>ch_models := models, ch_cursor := Some \<lparr>cu_last = stop, cu_hash = cb_hash b, cu_finalized = final, cu_updated = now\<rparr>\<rparr>)"
proof -
  have h: "cb_hash x = cb_hash b" if "x \<in> set (ch_blocks (mark_finalized final db))" "cb_number x = stop" for x
  proof -
    have "x = b" using block_at_Some [OF assms(2)] that by (intro inj_onD [OF chain_inj [OF assms(1)]]) simp_all
    then show ?thesis by simp
  qed
  have t: "\<forall>x \<in> set (ch_blocks (mark_finalized final db)). cb_number x \<le> final \<longrightarrow> cb_tier x = T_FINALIZED"
      "\<forall>l \<in> set (ch_logs (mark_finalized final db)). lg_block l \<le> final \<longrightarrow> lg_tier l = T_FINALIZED"
    by (auto simp: mark_finalized_def final_block_def final_log_def)
  show ?thesis by (simp add: cursor_ok_def assms(3-6) t) (use h in blast)
qed

lemma sync_keeps_journal:
  assumes "sync dec abis now rpc chunk db = Inr (db', r)" and "journal_ok d db"
  shows "journal_ok d db'"
proof -
  from assms(1) obtain d' D db1 low db2 where s: "ch_deployment db = Some d'" "1 \<le> chunk" "make_decoder abis (cd_contracts d') = Inr D" "common_part rpc d' db = Inr (db1, low)"
    and e: "extend_journal dec D rpc low (min (rc_head rpc) (low + chunk)) (target_final d' (rc_head rpc) (min (rc_head rpc) (low + chunk))) db1 = Inr db2"
    and r: "if min (rc_head rpc) (low + chunk) < cd_block d' then db' = db2
     else commit_sync now d' (rc_head rpc) (min (rc_head rpc) (low + chunk)) (target_final d' (rc_head rpc) (min (rc_head rpc) (low + chunk))) db2 = Inr (db', r)" by (rule synced)
  have d: "d' = d" using s(1) assms(2) by (simp add: journal_ok_def)
  let ?stop = "min (rc_head rpc) (low + chunk)" and ?final = "target_final d (rc_head rpc) (min (rc_head rpc) (low + chunk))"
  note cp = common_part_facts [OF s(4) [unfolded d] assms(2)]
  then have c1: "chain_to (cd_block d) low db1" by blast
  note ex = extended [OF e [unfolded d] c1]
  then have c2: "chain_to (cd_block d) (max low ?stop) db2" by blast
  have dep: "ch_deployment db2 = Some d" "0 \<le> cd_finality_depth d" using ex cp assms(2) by (auto simp: journal_ok_def)
  have lowb: "cd_block d - 1 \<le> low" using c1 by (simp add: chain_to_def)
  show ?thesis
  proof (cases "?stop < cd_block d")
    case True
    then have eq: "db' = db2" "max low ?stop = low" using r d lowb by auto
    obtain bs ls where bl: "ch_blocks db2 = ch_blocks db1 @ bs" "ch_logs db2 = ch_logs db1 @ ls" "\<forall>b \<in> set bs. low < cb_number b" "\<forall>l \<in> set ls. low < lg_block l" using ex by blast
    have "bs = []"
    proof (rule ccontr)
      assume "bs \<noteq> []"
      then obtain b where "b \<in> set bs" by (cases bs) auto
      with bl(1,3) chain_numbers [OF c2, of b] eq(2) show False by auto
    qed
    moreover have "ls = []"
    proof (rule ccontr)
      assume "ls \<noteq> []"
      then obtain l where "l \<in> set ls" by (cases ls) auto
      with bl c2 eq(2) have "\<exists>b \<in> set (ch_blocks db2). cb_number b = lg_block l \<and> low < lg_block l" by (auto simp: chain_to_def anchored_def)
      with chain_numbers [OF c2] eq(2) show False by force
    qed
    ultimately have sub: "set (ch_blocks db2) \<subseteq> set (ch_blocks db)" "set (ch_logs db2) \<subseteq> set (ch_logs db)" using bl cp by (auto simp: up_to_def)
    obtain m where m: "cursor_ok (cd_block d) m db" using assms(2) by (auto simp: journal_ok_def)
    have cu: "ch_cursor db2 = ch_cursor db" using ex cp by simp
    have "cursor_ok (cd_block d) low db2"
    proof (cases "ch_cursor db")
      case None
      with cp cu show ?thesis by (simp add: cursor_ok_def)
    next
      case (Some c)
      with m cu sub cp show ?thesis by (auto simp: cursor_ok_def)
    qed
    with c2 eq dep show ?thesis by (auto simp: journal_ok_def)
  next
    case False
    with r d have "commit_sync now d (rc_head rpc) ?stop ?final db2 = Inr (db', r)" by simp
    then obtain models b where b: "block_at (ch_blocks (mark_finalized ?final db2)) ?stop = Some b"
      and db': "db' = (mark_finalized ?final db2)\<lparr>ch_models := models, ch_cursor := Some \<lparr>cu_last = ?stop, cu_hash = cb_hash b, cu_finalized = ?final, cu_updated = now\<rparr>\<rparr>"
      by (rule committed)
    have c3: "chain_to (cd_block d) (max low ?stop) (mark_finalized ?final db2)" by (rule mark_final_chain [OF c2])
    have fb: "cd_block d - 1 \<le> ?final" "?final \<le> ?stop" using target_final_bounds(1,2) False by (simp_all only: not_less)
    have "cursor_ok (cd_block d) (max low ?stop) db'"
      unfolding db' by (rule new_cursor_ok [OF c3 b _ fb]) (use fb(2) False in linarith)+
    moreover have "chain_to (cd_block d) (max low ?stop) db'" using c3 by (simp add: db' chain_to_def anchored_def)
    ultimately show ?thesis using dep by (auto simp: journal_ok_def db')
  qed
qed

text \<open>What stands at or below the finalized block is not touched by a call.\<close>

lemma final_block_id: "cb_tier b = T_FINALIZED \<Longrightarrow> final_block f b = b"
  by (cases b) (simp add: final_block_def)

lemma final_log_id: "lg_tier l = T_FINALIZED \<Longrightarrow> final_log f l = l"
  by (cases l) (simp add: final_log_def)

lemma kept_below:
  assumes "\<forall>x \<in> set new. low < num x" and "f \<le> low" and "\<And>x. num (g x) = num x" and "\<And>x. x \<in> set xs \<Longrightarrow> num x \<le> f \<Longrightarrow> g x = x"
  shows "filter (\<lambda>x. num x \<le> (f :: int)) (map g (filter (\<lambda>x. num x \<le> low) xs @ new)) = filter (\<lambda>x. num x \<le> f) xs"
proof -
  have "filter (\<lambda>x. num x \<le> f) (map g (filter (\<lambda>x. num x \<le> low) xs @ new)) = map g (filter (\<lambda>x. num x \<le> f) (filter (\<lambda>x. num x \<le> low) xs @ new))"
    by (simp add: filter_map o_def assms(3))
  also have "filter (\<lambda>x. num x \<le> f) (filter (\<lambda>x. num x \<le> low) xs @ new) = filter (\<lambda>x. num x \<le> f) xs"
  proof -
    have "filter (\<lambda>x. num x \<le> f) new = []" using assms(1,2) by (auto simp: filter_empty_conv)
    moreover have "filter (\<lambda>x. num x \<le> f) (filter (\<lambda>x. num x \<le> low) xs) = filter (\<lambda>x. num x \<le> f) xs" using assms(2) by (auto intro: filter_cong)
    ultimately show ?thesis by simp
  qed
  also have "map g (filter (\<lambda>x. num x \<le> f) xs) = filter (\<lambda>x. num x \<le> f) xs" using assms(4) by (intro map_idI) auto
  finally show ?thesis .
qed

lemma sync_keeps_final:
  assumes "sync dec abis now rpc chunk db = Inr (db', r)" and "journal_ok d db" and "ch_cursor db = Some c" and "f \<le> cu_finalized c"
  shows "filter (\<lambda>b. cb_number b \<le> f) (ch_blocks db') = filter (\<lambda>b. cb_number b \<le> f) (ch_blocks db) \<and>
    filter (\<lambda>l. lg_block l \<le> f) (ch_logs db') = filter (\<lambda>l. lg_block l \<le> f) (ch_logs db)"
proof -
  from assms(1) obtain d' D db1 low db2 where s: "ch_deployment db = Some d'" "1 \<le> chunk" "make_decoder abis (cd_contracts d') = Inr D" "common_part rpc d' db = Inr (db1, low)"
    and e: "extend_journal dec D rpc low (min (rc_head rpc) (low + chunk)) (target_final d' (rc_head rpc) (min (rc_head rpc) (low + chunk))) db1 = Inr db2"
    and r: "if min (rc_head rpc) (low + chunk) < cd_block d' then db' = db2
     else commit_sync now d' (rc_head rpc) (min (rc_head rpc) (low + chunk)) (target_final d' (rc_head rpc) (min (rc_head rpc) (low + chunk))) db2 = Inr (db', r)" by (rule synced)
  let ?final = "target_final d' (rc_head rpc) (min (rc_head rpc) (low + chunk))"
  have d: "d' = d" using s(1) assms(2) by (simp add: journal_ok_def)
  note cp = common_part_facts [OF s(4) [unfolded d] assms(2)]
  then have c1: "chain_to (cd_block d) low db1" and low: "f \<le> low" using assms(3,4) by auto
  obtain bs ls where bl: "ch_blocks db2 = filter (\<lambda>b. cb_number b \<le> low) (ch_blocks db) @ bs" "ch_logs db2 = filter (\<lambda>l. lg_block l \<le> low) (ch_logs db) @ ls"
      "\<forall>b \<in> set bs. low < cb_number b" "\<forall>l \<in> set ls. low < lg_block l"
    using extended [OF e [unfolded d] c1] cp by (auto simp: up_to_def)
  have fin: "\<forall>b \<in> set (ch_blocks db). cb_number b \<le> f \<longrightarrow> cb_tier b = T_FINALIZED" "\<forall>l \<in> set (ch_logs db). lg_block l \<le> f \<longrightarrow> lg_tier l = T_FINALIZED"
    using assms(2-4) by (auto simp: journal_ok_def cursor_ok_def)
  have "db' = db2 \<or> (\<exists>fin. ch_blocks db' = map (final_block fin) (ch_blocks db2) \<and> ch_logs db' = map (final_log fin) (ch_logs db2))"
  proof (cases "min (rc_head rpc) (low + chunk) < cd_block d'")
    case False
    with r have "commit_sync now d' (rc_head rpc) (min (rc_head rpc) (low + chunk)) ?final db2 = Inr (db', r)" by simp
    then show ?thesis by (rule committed) (auto simp: mark_finalized_def)
  qed (use r in simp)
  then consider "db' = db2" | fin where "ch_blocks db' = map (final_block fin) (ch_blocks db2)" "ch_logs db' = map (final_log fin) (ch_logs db2)" by blast
  then show ?thesis
  proof cases
    case 1
    have "filter (\<lambda>b. cb_number b \<le> f) (map id (ch_blocks db2)) = filter (\<lambda>b. cb_number b \<le> f) (ch_blocks db)" unfolding bl by (rule kept_below [OF bl(3) low]) simp_all
    moreover have "filter (\<lambda>l. lg_block l \<le> f) (map id (ch_logs db2)) = filter (\<lambda>l. lg_block l \<le> f) (ch_logs db)" unfolding bl by (rule kept_below [OF bl(4) low]) simp_all
    ultimately show ?thesis using 1 by simp
  next
    case (2 final)
    show ?thesis unfolding 2 bl
      by (intro conjI kept_below [OF bl(3) low] kept_below [OF bl(4) low]) (use fin in \<open>simp_all add: final_block_id final_log_id\<close>)
  qed
qed

lemma sync_final_progress:
  assumes "sync dec abis now rpc chunk db = Inr (db', r)" and "journal_ok d db"
    and "\<forall>c. ch_cursor db = Some c \<longrightarrow> cu_finalized c = cd_block d - 1 \<or> cu_finalized c \<le> rc_head rpc - cd_finality_depth d"
  shows "(\<forall>c. ch_cursor db = Some c \<longrightarrow> (\<exists>c'. ch_cursor db' = Some c' \<and> cu_finalized c \<le> cu_finalized c')) \<and>
    (\<forall>c'. ch_cursor db' = Some c' \<longrightarrow> cu_finalized c' = cd_block d - 1 \<or> cu_finalized c' \<le> rc_head rpc - cd_finality_depth d)"
proof -
  from assms(1) obtain d' D db1 low db2 where s: "ch_deployment db = Some d'" "1 \<le> chunk" "make_decoder abis (cd_contracts d') = Inr D" "common_part rpc d' db = Inr (db1, low)"
    and e: "extend_journal dec D rpc low (min (rc_head rpc) (low + chunk)) (target_final d' (rc_head rpc) (min (rc_head rpc) (low + chunk))) db1 = Inr db2"
    and r: "if min (rc_head rpc) (low + chunk) < cd_block d' then db' = db2
     else commit_sync now d' (rc_head rpc) (min (rc_head rpc) (low + chunk)) (target_final d' (rc_head rpc) (min (rc_head rpc) (low + chunk))) db2 = Inr (db', r)" by (rule synced)
  let ?stop = "min (rc_head rpc) (low + chunk)" and ?final = "target_final d (rc_head rpc) (min (rc_head rpc) (low + chunk))"
  have d: "d' = d" "0 \<le> cd_finality_depth d" using s(1) assms(2) by (simp_all add: journal_ok_def)
  note cp = common_part_facts [OF s(4) [unfolded d(1)] assms(2)]
  then have c1: "chain_to (cd_block d) low db1" by blast
  have cur: "ch_cursor db2 = ch_cursor db" using extended [OF e [unfolded d(1)] c1] cp by simp
  show ?thesis
  proof (cases "?stop < cd_block d")
    case True
    with r d(1) cur assms(3) show ?thesis by auto
  next
    case False
    with r d(1) have "commit_sync now d (rc_head rpc) ?stop ?final db2 = Inr (db', r)" by simp
    then obtain models and b :: chain_block
      where "db' = (mark_finalized ?final db2)\<lparr>ch_models := models, ch_cursor := Some \<lparr>cu_last = ?stop, cu_hash = cb_hash b, cu_finalized = ?final, cu_updated = now\<rparr>\<rparr>"
      by (rule committed) blast
    then have c': "ch_cursor db' = Some \<lparr>cu_last = ?stop, cu_hash = cb_hash b, cu_finalized = ?final, cu_updated = now\<rparr>" by simp
    have "cu_finalized c \<le> ?final" if c: "ch_cursor db = Some c" for c
    proof -
      have "cu_finalized c \<le> low" using cp c by blast
      with assms(3) c s(2) d(2) show ?thesis unfolding target_final_def by auto
    qed
    with c' target_final_bounds(3) [of d "rc_head rpc" ?stop] show ?thesis by auto
  qed
qed

section \<open>Runs\<close>

definition journal_start :: "chain_deployment \<Rightarrow> chain_db \<Rightarrow> bool" where
  "journal_start d db \<longleftrightarrow> ch_deployment db = Some d \<and> 0 \<le> cd_finality_depth d \<and> ch_cursor db = None \<and> ch_blocks db = [] \<and> ch_logs db = []"

text \<open>Calls of \<open>sync\<close> that return, whatever the node answers; a call that raises is rolled back and is no step.\<close>

inductive sync_step :: "abi_decode_fun \<Rightarrow> (string \<Rightarrow> abi_entry list) \<Rightarrow> chain_db \<Rightarrow> chain_db \<Rightarrow> bool" for dec abis where
  sync_returns: "sync dec abis now rpc chunk db = Inr (db', r) \<Longrightarrow> sync_step dec abis db db'"

lemma journal_start_ok: "journal_start d db \<Longrightarrow> journal_ok d db"
  by (auto simp: journal_start_def journal_ok_def chain_to_def cursor_ok_def anchored_def intro: exI [of _ "cd_block d - 1"])

interpretation journal: inv_machine "journal_start d" "sync_step dec abis" "journal_ok d" for d dec abis
  by unfold_locales (rule journal_start_ok, assumption, auto elim: sync_step.cases intro: sync_keeps_journal)


text \<open>Runs against a node whose reported head does not go back.\<close>

inductive steady_step :: "abi_decode_fun \<Rightarrow> (string \<Rightarrow> abi_entry list) \<Rightarrow> chain_db \<times> int \<Rightarrow> chain_db \<times> int \<Rightarrow> bool" for dec abis where
  steady_sync: "sync dec abis now rpc chunk db = Inr (db', r) \<Longrightarrow> h \<le> rc_head rpc \<Longrightarrow> steady_step dec abis (db, h) (db', rc_head rpc)"

definition steady_inv :: "chain_deployment \<Rightarrow> chain_db \<times> int \<Rightarrow> bool" where
  "steady_inv d st \<longleftrightarrow> (case st of (db, h) \<Rightarrow> journal_ok d db \<and>
     (\<forall>c. ch_cursor db = Some c \<longrightarrow> cu_finalized c = cd_block d - 1 \<or> cu_finalized c \<le> h - cd_finality_depth d))"

lemma steady_step_inv:
  assumes "steady_step dec abis st st'" and "steady_inv d st"
  shows "steady_inv d st' \<and> (\<forall>c. ch_cursor (fst st) = Some c \<longrightarrow> (\<exists>c'. ch_cursor (fst st') = Some c' \<and> cu_finalized c \<le> cu_finalized c'))"
  using assms
proof (cases rule: steady_step.cases)
  case (steady_sync now rpc chunk db db' r h)
  have j: "journal_ok d db" "\<forall>c. ch_cursor db = Some c \<longrightarrow> cu_finalized c = cd_block d - 1 \<or> cu_finalized c \<le> rc_head rpc - cd_finality_depth d"
    using assms(2) steady_sync(1,4) by (auto simp: steady_inv_def)
  from sync_keeps_journal [OF steady_sync(3) j(1)] sync_final_progress [OF steady_sync(3) j] show ?thesis by (simp add: steady_inv_def steady_sync(1,2))
qed

interpretation steady: inv_machine "\<lambda>st. journal_start d (fst st)" "steady_step dec abis" "steady_inv d" for d dec abis
proof unfold_locales
  fix st :: "chain_db \<times> int"
  assume "journal_start d (fst st)"
  then show "steady_inv d st" using journal_start_ok by (cases st) (auto simp: steady_inv_def journal_start_def)
qed (rule conjunct1 [OF steady_step_inv])

lemma steady_run_keeps:
  assumes "(steady_step dec abis)\<^sup>*\<^sup>* st st'" and "steady_inv d st" and "ch_cursor (fst st) = Some c"
  shows "\<exists>c'. ch_cursor (fst st') = Some c' \<and> cu_finalized c \<le> cu_finalized c' \<and>
    filter (\<lambda>b. cb_number b \<le> cu_finalized c) (ch_blocks (fst st')) = filter (\<lambda>b. cb_number b \<le> cu_finalized c) (ch_blocks (fst st)) \<and>
    filter (\<lambda>l. lg_block l \<le> cu_finalized c) (ch_logs (fst st')) = filter (\<lambda>l. lg_block l \<le> cu_finalized c) (ch_logs (fst st)) \<and> steady_inv d st'"
  using assms(1)
proof (induction rule: rtranclp_induct)
  case base
  with assms(2,3) show ?case by simp
next
  case (step y z)
  from step(3) obtain c' where c': "ch_cursor (fst y) = Some c'" "cu_finalized c \<le> cu_finalized c'" and inv: "steady_inv d y"
    and kept: "filter (\<lambda>b. cb_number b \<le> cu_finalized c) (ch_blocks (fst y)) = filter (\<lambda>b. cb_number b \<le> cu_finalized c) (ch_blocks (fst st))"
      "filter (\<lambda>l. lg_block l \<le> cu_finalized c) (ch_logs (fst y)) = filter (\<lambda>l. lg_block l \<le> cu_finalized c) (ch_logs (fst st))" by blast
  from step(2) obtain now rpc chunk db db' r h where s: "y = (db, h)" "z = (db', rc_head rpc)" "sync dec abis now rpc chunk db = Inr (db', r)" by (cases rule: steady_step.cases)
  have "journal_ok d db" using inv s(1) by (simp add: steady_inv_def)
  from sync_keeps_final [OF s(3) this _ c'(2)] c'(1) s(1,2) kept steady_step_inv [OF step(2) inv] c'(2) show ?case by force
qed

text \<open>C18: finalized facts are permanent. In runs against a node whose head does not go back, the finalized block never moves back, and no block or log at or
  below it is changed, removed or added, whatever reorganisations follow.\<close>

theorem finalized_is_permanent:
  assumes "journal_start d (fst st0)" and "(steady_step dec abis)\<^sup>*\<^sup>* st0 st" and "(steady_step dec abis)\<^sup>*\<^sup>* st st'" and "ch_cursor (fst st) = Some c"
  shows "\<exists>c'. ch_cursor (fst st') = Some c' \<and> cu_finalized c \<le> cu_finalized c' \<and>
    filter (\<lambda>b. cb_number b \<le> cu_finalized c) (ch_blocks (fst st')) = filter (\<lambda>b. cb_number b \<le> cu_finalized c) (ch_blocks (fst st)) \<and>
    filter (\<lambda>l. lg_block l \<le> cu_finalized c) (ch_logs (fst st')) = filter (\<lambda>l. lg_block l \<le> cu_finalized c) (ch_logs (fst st))"
  using steady_run_keeps [OF assms(3) steady.reachable_inv [OF assms(1,2)] assms(4)] by blast

section \<open>A quiet deployment\<close>

definition quiet_deployment :: chain_deployment where
  "quiet_deployment = \<lparr>cd_chain_id = 7, cd_profile = EP_LOCAL_MOCK, cd_block = 1, cd_contracts = [], cd_finality_depth = 1\<rparr>"

definition quiet_hash :: string where
  "quiet_hash = ''0x'' @ replicate 64 CHR ''a''"

definition quiet_block :: "int \<Rightarrow> rpc_block option" where
  "quiet_block n = Some \<lparr>rb_number = n, rb_hash = quiet_hash, rb_parent = quiet_hash, rb_timestamp = n\<rparr>"

definition quiet_rpc :: "int \<Rightarrow> chain_rpc" where
  "quiet_rpc head = \<lparr>rc_chain_id = 7, rc_head = head, rc_scan = quiet_block, rc_tip = quiet_block, rc_read = quiet_block, rc_logs = \<lambda>_ _ _. [], rc_receipt = \<lambda>_. None,
     rc_check = quiet_block\<rparr>"

definition quiet_row :: "tier \<Rightarrow> int \<Rightarrow> chain_block" where
  "quiet_row t n = \<lparr>cb_number = n, cb_hash = quiet_hash, cb_parent = quiet_hash, cb_timestamp = n, cb_tier = t\<rparr>"

definition quiet_db :: "chain_cursor option \<Rightarrow> chain_block list \<Rightarrow> chain_db" where
  "quiet_db c bs = \<lparr>ch_deployment = Some quiet_deployment, ch_cursor = c, ch_blocks = bs, ch_logs = [], ch_reorgs = [], ch_models = (empty_model, empty_model)\<rparr>"

definition quiet_cursor :: "int \<Rightarrow> int \<Rightarrow> chain_cursor option" where
  "quiet_cursor n f = Some \<lparr>cu_last = n, cu_hash = quiet_hash, cu_finalized = f, cu_updated = 0\<rparr>"

lemma quiet_hash_simps [simp]: "str_lower quiet_hash = quiet_hash" "is_hex32 quiet_hash" "quiet_hash \<noteq> []"
  by (simp_all add: quiet_hash_def str_lower_def lower_char_def is_hex32_def is_hex_low_def list_all_iff)

lemma quiet_replay: "replay d bs [] = Inr (empty_model, empty_model)"
  by (simp add: replay_def replay_tier_def tier_logs_def read_model_checks_def empty_model_def Let_def)

lemmas quiet_defs = quiet_db_def quiet_deployment_def quiet_rpc_def quiet_block_def quiet_row_def quiet_cursor_def sync_def common_part_def drop_orphans_def up_to_def
  find_ancestor.simps same_block_def block_at_def extend_journal_def add_blocks_def add_logs_def check_tip_def block_checks_def commit_sync_def mark_finalized_def final_block_def
  make_decoder_def lift_index_def target_final_def tier_of_def

lemma quiet_range: "[1..3] = [1, 2, 3 :: int]"
  by code_simp

lemma quiet_first: "sync dec abis 0 (quiet_rpc 3) 250 (quiet_db None []) =
    Inr (quiet_db (quiet_cursor 3 2) [quiet_row T_FINALIZED 1, quiet_row T_FINALIZED 2, quiet_row T_PENDING 3],
      \<lparr>sy_last = 3, sy_finalized = Some 2, sy_head = 3, sy_lag = 0\<rparr>)"
  by (simp add: quiet_defs quiet_replay quiet_range)

lemma quiet_second: "sync dec abis 0 (quiet_rpc 4) 250 (quiet_db (quiet_cursor 3 2) [quiet_row T_FINALIZED 1, quiet_row T_FINALIZED 2, quiet_row T_PENDING 3]) =
    Inr (quiet_db (quiet_cursor 4 3) [quiet_row T_FINALIZED 1, quiet_row T_FINALIZED 2, quiet_row T_FINALIZED 3, quiet_row T_PENDING 4],
      \<lparr>sy_last = 4, sy_finalized = Some 3, sy_head = 4, sy_lag = 0\<rparr>)"
  by (simp add: quiet_defs quiet_replay quiet_range)

text \<open>A node that answers with an older head, although it still serves the blocks above it, moves the cursor and with it the finalized block back:
  block 3, final before this call, lies above the cursor after it, and the next call deletes it as an orphan.\<close>

lemma lagging_head_unfinalizes: "sync dec abis 0 (quiet_rpc 2) 250 (quiet_db (quiet_cursor 4 3) [quiet_row T_FINALIZED 1, quiet_row T_FINALIZED 2, quiet_row T_FINALIZED 3, quiet_row T_PENDING 4]) =
    Inr (quiet_db (quiet_cursor 2 1) [quiet_row T_FINALIZED 1, quiet_row T_FINALIZED 2, quiet_row T_FINALIZED 3, quiet_row T_PENDING 4],
      \<lparr>sy_last = 2, sy_finalized = Some 1, sy_head = 2, sy_lag = 0\<rparr>)"
  by (simp add: quiet_defs quiet_replay quiet_range)


theorem finalized_is_permanent_witness:
  "\<exists>db1 db2. (steady_step (\<lambda>_ _. Inr []) (\<lambda>_. []))\<^sup>*\<^sup>* (quiet_db None [], 0) (db1, 3) \<and> (steady_step (\<lambda>_ _. Inr []) (\<lambda>_. []))\<^sup>*\<^sup>* (db1, 3) (db2, 4) \<and>
     filter (\<lambda>b. cb_number b \<le> 2) (ch_blocks db2) = filter (\<lambda>b. cb_number b \<le> 2) (ch_blocks db1) \<and> length (ch_blocks db2) = 4"
proof -
  let ?db1 = "quiet_db (quiet_cursor 3 2) [quiet_row T_FINALIZED 1, quiet_row T_FINALIZED 2, quiet_row T_PENDING 3]"
    and ?db2 = "quiet_db (quiet_cursor 4 3) [quiet_row T_FINALIZED 1, quiet_row T_FINALIZED 2, quiet_row T_FINALIZED 3, quiet_row T_PENDING 4]"
  have h: "rc_head (quiet_rpc n) = n" for n by (simp add: quiet_rpc_def)
  have r1: "(steady_step (\<lambda>_ _. Inr []) (\<lambda>_. []))\<^sup>*\<^sup>* (quiet_db None [], 0) (?db1, 3)"
    using steady_sync [OF quiet_first, of 0] unfolding h by (intro r_into_rtranclp) simp
  have r2: "(steady_step (\<lambda>_ _. Inr []) (\<lambda>_. []))\<^sup>*\<^sup>* (?db1, 3) (?db2, 4)"
    using steady_sync [OF quiet_second, of 3] unfolding h by (intro r_into_rtranclp) simp
  have s: "journal_start quiet_deployment (fst (quiet_db None [], 0 :: int))" by (simp add: journal_start_def quiet_db_def quiet_deployment_def)
  have c: "ch_cursor (fst (?db1, 3 :: int)) = Some \<lparr>cu_last = 3, cu_hash = quiet_hash, cu_finalized = 2, cu_updated = 0\<rparr>" by (simp add: quiet_db_def quiet_cursor_def)
  from finalized_is_permanent [OF s r1 r2 c] have "filter (\<lambda>b. cb_number b \<le> 2) (ch_blocks ?db2) = filter (\<lambda>b. cb_number b \<le> 2) (ch_blocks ?db1)" by auto
  moreover have "length (ch_blocks ?db2) = 4" by (simp add: quiet_db_def)
  ultimately show ?thesis using r1 r2 by blast
qed

end
