(* ===== verification/Contract_Views.thy ===== *)
theory Contract_Views
  imports Chain_Indexer
begin

text \<open>
  Views of the contracts at one block (\<open>projections/views.py\<close>) and their comparison with the read models (\<open>projections/reconcile.py\<close>). The parsed
  ABI files, the encoder and decoder of the \<open>eth_abi\<close> package and the node's answers are arguments; so is the text that Python gives a list or a dictionary.
\<close>

section \<open>Reading a view\<close>

record abi_function =
  vf_type :: string
  vf_name :: string
  vf_inputs :: "abi_param list"
  vf_outputs :: "abi_param list"
  vf_mutability :: string

text \<open>What the encoder gets: values of the caller as they are, or converted.\<close>

datatype view_value = VJson json | VInt int | VBytes bytes | VSeq "view_value list"

type_synonym abi_encode_fun = "string list \<Rightarrow> view_value list \<Rightarrow> app_error + bytes"

fun all_results :: "('e + 'a) list \<Rightarrow> 'e + 'a list" where
  "all_results [] = Inr []"
| "all_results (r # rs) = then_do r (\<lambda>x. then_do (all_results rs) (\<lambda>xs. Inr (x # xs)))"

definition is_array_type :: "string \<Rightarrow> bool" where
  "is_array_type ty \<longleftrightarrow> ty \<noteq> [] \<and> last ty = CHR '']''"

text \<open>\<open>ty[:ty.rfind("[")]\<close>; \<open>rfind\<close> gives -1 when there is none.\<close>

definition element_type :: "string \<Rightarrow> string" where
  "element_type ty = (if CHR ''['' \<in> set ty then rev (tl (dropWhile (\<lambda>c. c \<noteq> CHR ''['') (rev ty))) else butlast ty)"

definition is_int_type :: "string \<Rightarrow> bool" where
  "is_int_type ty \<longleftrightarrow> (let t = (if take 1 ty = ''u'' then drop 1 ty else ty) in take 3 t = ''int'' \<and> list_all (\<lambda>c. char_digit c \<noteq> None) (drop 3 t))"

definition exact_decimal :: "string \<Rightarrow> app_error + int" where
  "exact_decimal s = (case int_of_str s of None \<Rightarrow> Inl (ValueError ''ABI integer inputs require exact decimal units'') | Some i \<Rightarrow> Inr i)"

definition remove_0x :: "string \<Rightarrow> string" where
  "remove_0x s = (if take 2 s = ''0x'' then drop 2 s else s)"

text \<open>Iterating over a value.\<close>

fun json_iter :: "json \<Rightarrow> app_error + json list" where
  "json_iter (JList xs) = Inr xs"
| "json_iter (JStr s) = Inr (map (\<lambda>c. JStr [c]) s)"
| "json_iter (JObj kvs) = Inr (map (JStr \<circ> fst) kvs)"
| "json_iter _ = Inl (OtherError ''TypeError: not iterable'')"

fun abi_iter :: "abi_value \<Rightarrow> app_error + abi_value list" where
  "abi_iter (AVList vs) = Inr vs"
| "abi_iter (AVStr s) = Inr (map (\<lambda>c. AVStr [c]) s)"
| "abi_iter (AVBytes bs) = Inr (map (\<lambda>b. AVInt (int b)) bs)"
| "abi_iter _ = Inl (OtherError ''TypeError: not iterable'')"

lemma element_type_shorter: "is_array_type ty \<Longrightarrow> length (element_type ty) < length ty"
proof -
  assume a: "is_array_type ty"
  have "length (dropWhile P xs) \<le> length xs" for P and xs :: string by (induction xs) auto
  from this [of "\<lambda>c. c \<noteq> CHR ''[''" "rev ty"] a show ?thesis by (cases ty rule: rev_cases) (auto simp: element_type_def is_array_type_def)
qed

definition tuple_values :: "abi_param list \<Rightarrow> json \<Rightarrow> app_error + json list" where
  "tuple_values comps v = (case v of JObj kvs \<Rightarrow> all_results (map (\<lambda>c. json_field v (pa_name c)) comps) | _ \<Rightarrow> json_iter v)"

lemma component_smaller: "c \<in> set comps \<Longrightarrow> size c < size (AbiParam nm ty comps ix)"
  by (induction comps) auto

function input_value :: "abi_param \<Rightarrow> json \<Rightarrow> app_error + view_value" where
  "input_value (AbiParam nm ty comps ix) v =
    (if is_array_type ty
     then then_do (json_iter v) (\<lambda>xs. then_do (all_results (map (input_value (AbiParam nm (element_type ty) comps ix)) xs)) (\<lambda>vs. Inr (VSeq vs)))
     else case v of
       JStr s \<Rightarrow> if is_int_type ty then then_do (exact_decimal s) (\<lambda>i. Inr (VInt i))
         else if take 5 ty = ''bytes'' then then_do (topic_bytes (remove_0x s)) (\<lambda>bs. Inr (VBytes bs))
         else if take 5 ty = ''tuple'' then then_do (tuple_values comps v) (\<lambda>xs. ensure (length xs = length comps) (ValueError ''zip() arguments differ'')
           (then_do (all_results (map (\<lambda>(c, x). input_value c x) (zip comps xs))) (\<lambda>vs. Inr (VSeq vs))))
         else Inr (VJson v)
     | _ \<Rightarrow> if take 5 ty = ''tuple'' then then_do (tuple_values comps v) (\<lambda>xs. ensure (length xs = length comps) (ValueError ''zip() arguments differ'')
           (then_do (all_results (map (\<lambda>(c, x). input_value c x) (zip comps xs))) (\<lambda>vs. Inr (VSeq vs))))
         else Inr (VJson v))"
  by pat_completeness auto


termination
proof (relation "measures [\<lambda>(s, v). size s, \<lambda>(s, v). length (pa_type s)]", goal_cases)
  case (2 nm ty comps ix v xs x)
  then show ?case by (simp add: element_type_shorter)
qed (auto dest!: set_zip_leftD component_smaller)

declare input_value.simps [simp del]

lemma enumerated_component: "(i, c, x) \<in> set (enumerate n (zip comps xs)) \<Longrightarrow> c \<in> set comps"
proof -
  assume "(i, c, x) \<in> set (enumerate n (zip comps xs))"
  then have "(c, x) \<in> set (zip comps xs)" unfolding enumerate_eq_zip by (rule set_zip_rightD)
  then show ?thesis by (rule set_zip_leftD)
qed

function output_value :: "abi_param \<Rightarrow> abi_value \<Rightarrow> app_error + json" where
  "output_value (AbiParam nm ty comps ix) v =
    (if is_array_type ty
     then then_do (abi_iter v) (\<lambda>xs. then_do (all_results (map (output_value (AbiParam nm (element_type ty) comps ix)) xs)) (\<lambda>vs. Inr (JList vs)))
     else if ty = ''tuple''
     then then_do (abi_iter v) (\<lambda>xs. ensure (length xs = length comps) (ValueError ''zip() arguments differ'')
       (then_do (all_results (map (\<lambda>(i, c, x). then_do (output_value c x) (\<lambda>j. Inr (if pa_name c = [] then str_nat i else pa_name c, j))) (enumerate 0 (zip comps xs))))
         (\<lambda>kvs. Inr (JObj (fold (\<lambda>(k, j) d. dict_set k j d) kvs [])))))
     else Inr (json_safe v))"
  by pat_completeness auto
termination
proof (relation "measures [\<lambda>(s, v). size s, \<lambda>(s, v). length (pa_type s)]", goal_cases)
  case (2 nm ty comps ix v xs x)
  then show ?case by (simp add: element_type_shorter)
qed (auto dest!: enumerated_component component_smaller)

declare output_value.simps [simp del]

text \<open>\<open>ContractViews.read\<close>; the file of a contract lists its functions, \<open>call\<close> is \<open>eth_call\<close> with address, calldata and block.\<close>

definition view_calldata :: "abi_encode_fun \<Rightarrow> abi_function \<Rightarrow> json list \<Rightarrow> app_error + string" where
  "view_calldata enc fn args =
    (let types = map canonical_type (vf_inputs fn)
     in then_do (all_results (map (\<lambda>(i, v). input_value i v) (zip (vf_inputs fn) args))) (\<lambda>vs. then_do (enc types vs) (\<lambda>bs.
          Inr (selector (vf_name fn @ ''('' @ join_with '','' types @ '')'') @ hex_of_bytes bs))))"

definition view_result :: "abi_decode_fun \<Rightarrow> abi_function \<Rightarrow> string \<Rightarrow> app_error + json" where
  "view_result dec fn raw =
    then_do (topic_bytes (remove_0x raw)) (\<lambda>bs. then_do (dec (map canonical_type (vf_outputs fn)) bs) (\<lambda>values.
    ensure (length values = length (vf_outputs fn)) (ValueError ''zip() arguments differ'')
    (then_do (all_results (map (\<lambda>(spec, v). output_value spec v) (zip (vf_outputs fn) values))) (\<lambda>result. Inr (case result of [r] \<Rightarrow> r | _ \<Rightarrow> JList result)))))"

definition view_read ::
  "(string \<Rightarrow> abi_function list) \<Rightarrow> abi_encode_fun \<Rightarrow> abi_decode_fun \<Rightarrow> (string \<Rightarrow> string \<Rightarrow> int \<Rightarrow> app_error + string) \<Rightarrow> (string, string) dict \<Rightarrow>
     int \<Rightarrow> string \<Rightarrow> string \<Rightarrow> json list \<Rightarrow> app_error + json" where
  "view_read abis enc dec call contracts n contract name args =
    (case filter (\<lambda>x. vf_type x = ''function'' \<and> vf_name x = name \<and> length (vf_inputs x) = length args) (abis contract) of
       [fn] \<Rightarrow>
         ensure (vf_mutability fn \<in> {''view'', ''pure''}) (ValueError ''expected one pinned read-only contract function'')
         (then_do (view_calldata enc fn args) (\<lambda>data.
         (case map_of contracts contract of
            None \<Rightarrow> Inl (key_error contract)
          | Some address \<Rightarrow> then_do (call address data n) (view_result dec fn))))
     | _ \<Rightarrow> Inl (ValueError ''expected one pinned read-only contract function''))"

section \<open>Comparing the read models with the contracts\<close>

record discrepancy_row =
  dy_block :: int
  dy_subject :: string
  dy_projected :: string
  dy_canonical :: string
  dy_kind :: string
  dy_note :: string

text \<open>One call of \<open>compare\<close>, with both values already as text.\<close>

record comparison =
  co_subject :: string
  co_projected :: string
  co_canonical :: string
  co_lag :: bool

record view_summary =
  vr_checked :: int
  vr_discrepancies :: int
  vr_block :: "int option"
  vr_reason :: "string option"

record view_rpc =
  vp_chain_id :: int
  vp_first :: "int \<Rightarrow> rpc_block option"
  vp_last :: "int \<Rightarrow> rpc_block option"
  vp_read :: "int \<Rightarrow> string \<Rightarrow> string \<Rightarrow> json list \<Rightarrow> app_error + json"

text \<open>\<open>str(v)\<close>; \<open>rep\<close> is the text of lists and dictionaries.\<close>

definition py_str :: "(json \<Rightarrow> string) \<Rightarrow> json \<Rightarrow> string" where
  "py_str rep j = (case j of JStr s \<Rightarrow> s | JInt i \<Rightarrow> str_int i | JBool b \<Rightarrow> if b then ''True'' else ''False'' | JNull \<Rightarrow> ''None'' | _ \<Rightarrow> rep j)"

definition discrepancy_of :: "int \<Rightarrow> comparison \<Rightarrow> discrepancy_row" where
  "discrepancy_of n c = \<lparr>dy_block = n, dy_subject = co_subject c, dy_projected = co_projected c, dy_canonical = co_canonical c,
     dy_kind = (if co_lag c then ''EXPECTED_LAG'' else ''DISCREPANCY''),
     dy_note = (if co_lag c then ''Accrued interest in view exceeds last recorded accrual'' else ''Read model differs from canonical contract'')\<rparr>"

definition discrepancy_key :: "discrepancy_row \<Rightarrow> int \<times> string \<times> string \<times> string" where
  "discrepancy_key r = (dy_block r, dy_subject r, dy_projected r, dy_canonical r)"

definition compare_views :: "int \<Rightarrow> comparison \<Rightarrow> discrepancy_row list \<Rightarrow> discrepancy_row list" where
  "compare_views n c rows =
    (if co_projected c = co_canonical c \<or> has_key discrepancy_key rows (discrepancy_key (discrepancy_of n c)) then rows else rows @ [discrepancy_of n c])"

definition comparison_of :: "(json \<Rightarrow> string) \<Rightarrow> string \<Rightarrow> json \<Rightarrow> json \<Rightarrow> comparison" where
  "comparison_of rep subject projected canonical = \<lparr>co_subject = subject, co_projected = py_str rep projected, co_canonical = py_str rep canonical, co_lag = False\<rparr>"

definition facility_comparisons ::
  "(json \<Rightarrow> string) \<Rightarrow> (string \<Rightarrow> string \<Rightarrow> json list \<Rightarrow> app_error + json) \<Rightarrow> string \<times> proj_facility \<Rightarrow> app_error + comparison list" where
  "facility_comparisons rep read kf =
    (case kf of (key, f) \<Rightarrow>
      then_do (read ''DebtLedger'' ''view_'' [JStr key]) (\<lambda>data.
      then_do (json_field data ''principal'') (\<lambda>vprincipal. then_do (json_field data ''fees'') (\<lambda>vfees.
      then_do (then_do (then_do (json_field data ''executionProfile'') json_int) (py_index EXECUTION_PROFILES)) (\<lambda>profile.
      then_do (then_do (json_field data ''lastAccrualAt'') json_int) (\<lambda>last_accrual.
      then_do (read ''DebtLedger'' ''legalDebtAt'' [JStr key, JInt last_accrual]) (\<lambda>debt.
      then_do (json_field data ''unpaidInterest'') (\<lambda>vinterest. then_do (json_int vinterest) (\<lambda>interest.
        Inr [comparison_of rep (key @ '':principal'') (JInt (pf_principal f)) vprincipal,
          comparison_of rep (key @ '':fees'') (JInt (pf_fees f)) vfees,
          comparison_of rep (key @ '':profile'') (JStr (execution_profile_value (pf_profile f))) (JStr (execution_profile_value profile)),
          comparison_of rep (key @ '':recordedDebt'') (JInt (pf_principal f + pf_fees f + pf_interest f)) debt,
          (comparison_of rep (key @ '':currentInterest'') (JInt (pf_interest f)) vinterest)\<lparr>co_lag := (pf_interest f \<le> interest)\<rparr>])))))))))"

definition ledger_comparisons ::
  "(json \<Rightarrow> string) \<Rightarrow> (string \<Rightarrow> string \<Rightarrow> json list \<Rightarrow> app_error + json) \<Rightarrow> (string, proj_facility) dict \<Rightarrow> app_error + comparison list" where
  "ledger_comparisons rep read fs =
    then_do (read ''DebtLedger'' ''facilityCount'' []) (\<lambda>count.
    then_do (all_results (map (facility_comparisons rep read) fs)) (\<lambda>cs.
      Inr (comparison_of rep ''facilityCount'' (JInt (int (length fs))) count # concat cs)))"

definition VAULT_VIEWS :: "string list" where
  "VAULT_VIEWS = [''availableCash'', ''totalShares'', ''totalBorrowerOwned'', ''nav'', ''totalImpairment'']"

definition lp_comparison :: "(json \<Rightarrow> string) \<Rightarrow> (string \<Rightarrow> string \<Rightarrow> json list \<Rightarrow> app_error + json) \<Rightarrow> string \<times> json \<Rightarrow> app_error + comparison" where
  "lp_comparison rep read b =
    (case b of (address, shares) \<Rightarrow> then_do (read ''LendingVaultV2'' ''balanceOf'' [JStr address]) (\<lambda>canonical. Inr (comparison_of rep (''lp:'' @ address @ '':shares'') shares canonical)))"

text \<open>The vault's comparisons and the values of its views.\<close>

definition vault_comparisons ::
  "(json \<Rightarrow> string) \<Rightarrow> (string \<Rightarrow> string \<Rightarrow> json list \<Rightarrow> app_error + json) \<Rightarrow> proj_entity option \<Rightarrow> app_error + (comparison list \<times> (string, json) dict)" where
  "vault_comparisons rep read e =
    then_do (all_results (map (\<lambda>k. then_do (read ''LendingVaultV2'' k []) (\<lambda>v. Inr (k, v))) VAULT_VIEWS)) (\<lambda>canonical.
    then_do (json_field (JObj canonical) ''totalShares'') (\<lambda>shares.
    (let total = (case e of None \<Rightarrow> JStr ''0'' | Some e \<Rightarrow> (case map_of (en_state e) ''totalShares'' of None \<Rightarrow> JStr ''0'' | Some j \<Rightarrow> j))
     in then_do (case e of None \<Rightarrow> Inr [] | Some e \<Rightarrow> then_do (state_balances (en_state e)) (\<lambda>bs. all_results (map (lp_comparison rep read) bs))) (\<lambda>lps.
          Inr (comparison_of rep ''vault:totalShares'' total shares # lps, canonical)))))"

text \<open>The canonical values are shown beside the projected ones, under keys of their own.\<close>

definition show_canonical :: "(string, json) dict \<Rightarrow> int \<Rightarrow> proj_entity \<Rightarrow> proj_entity" where
  "show_canonical canonical n e = e\<lparr>en_state := dict_set ''canonicalBlock'' (JInt n) (dict_set ''canonical'' (JObj canonical) (en_state e))\<rparr>"

definition annotate_vault :: "string \<Rightarrow> (string, json) dict \<Rightarrow> int \<Rightarrow> (string \<times> string, proj_entity) dict \<Rightarrow> (string \<times> string, proj_entity) dict" where
  "annotate_vault address canonical n es =
    (case map_of es (''VAULT'', address) of None \<Rightarrow> es | Some e \<Rightarrow> dict_set (''VAULT'', address) (show_canonical canonical n e) es)"

definition block_unmoved :: "rpc_block option \<Rightarrow> chain_block \<Rightarrow> string \<Rightarrow> app_error + unit" where
  "block_unmoved r b msg = (case r of None \<Rightarrow> Inl (OtherError ''TypeError'') | Some r \<Rightarrow> ensure (str_lower (rb_hash r) = cb_hash b) (ValueError msg) (Inr ()))"

definition checks_and_model ::
  "(json \<Rightarrow> string) \<Rightarrow> (string \<Rightarrow> string \<Rightarrow> json list \<Rightarrow> app_error + json) \<Rightarrow> (string, string) dict \<Rightarrow> int \<Rightarrow> read_model \<Rightarrow> app_error + (comparison list \<times> read_model)" where
  "checks_and_model rep read contracts n rm =
    then_do (if map_of contracts ''DebtLedger'' = None then Inr [] else ledger_comparisons rep read (rm_facilities rm)) (\<lambda>cs.
    (case map_of contracts ''LendingVaultV2'' of
       None \<Rightarrow> Inr (cs, rm)
     | Some a \<Rightarrow>
         then_do (vault_comparisons rep read (map_of (rm_entities rm) (''VAULT'', str_lower a))) (\<lambda>(vs, canonical).
           Inr (cs @ vs, rm\<lparr>rm_entities := annotate_vault (str_lower a) canonical n (rm_entities rm)\<rparr>))))"

definition reconcile_at ::
  "(json \<Rightarrow> string) \<Rightarrow> view_rpc \<Rightarrow> chain_deployment \<Rightarrow> chain_block \<Rightarrow> chain_db \<times> discrepancy_row list \<Rightarrow> app_error + ((chain_db \<times> discrepancy_row list) \<times> view_summary)" where
  "reconcile_at rep rpc d b st =
    (let n = cb_number b; db = fst st; rows = snd st
     in ensure (vp_chain_id rpc = cd_chain_id d) (ValueError ''canonical deployment/block changed during reconciliation'')
        (then_do (block_unmoved (vp_first rpc n) b ''canonical deployment/block changed during reconciliation'') (\<lambda>_.
         then_do (checks_and_model rep (vp_read rpc n) (cd_contracts d) n (fst (ch_models db))) (\<lambda>(cs, rm).
         then_do (block_unmoved (vp_last rpc n) b ''canonical block changed before reconciliation commit'') (\<lambda>_.
           Inr ((db\<lparr>ch_models := (rm, snd (ch_models db))\<rparr>, fold (compare_views n) cs rows),
             \<lparr>vr_checked = int (length cs), vr_discrepancies = int (length (filter (\<lambda>c. co_projected c \<noteq> co_canonical c \<and> \<not> co_lag c) cs)),
               vr_block = Some n, vr_reason = None\<rparr>))))))"

definition reconcile_views ::
  "(json \<Rightarrow> string) \<Rightarrow> view_rpc \<Rightarrow> chain_db \<times> discrepancy_row list \<Rightarrow> app_error + ((chain_db \<times> discrepancy_row list) \<times> view_summary)" where
  "reconcile_views rep rpc st =
    (case (ch_deployment (fst st), ch_cursor (fst st)) of
       (Some d, Some c) \<Rightarrow>
         (case block_at (ch_blocks (fst st)) (cu_finalized c) of
            None \<Rightarrow> Inr (st, \<lparr>vr_checked = 0, vr_discrepancies = 0, vr_block = None, vr_reason = Some ''FINALIZED_BLOCK_PENDING''\<rparr>)
          | Some b \<Rightarrow> reconcile_at rep rpc d b st)
     | _ \<Rightarrow> Inr (st, \<lparr>vr_checked = 0, vr_discrepancies = 0, vr_block = None, vr_reason = Some ''INDEX_CURSOR_MISSING''\<rparr>))"

section \<open>What a comparison changes\<close>

lemma compare_prefix: "\<exists>new. fold (compare_views n) cs rows = rows @ new \<and>
    (\<forall>r \<in> set new. dy_block r = n \<and> dy_projected r \<noteq> dy_canonical r \<and> r \<in> discrepancy_of n ` set cs)"
proof (induction cs arbitrary: rows)
  case (Cons c cs)
  obtain new where new: "fold (compare_views n) cs (compare_views n c rows) = compare_views n c rows @ new"
      "\<forall>r \<in> set new. dy_block r = n \<and> dy_projected r \<noteq> dy_canonical r \<and> r \<in> discrepancy_of n ` set cs"
    using Cons.IH by blast
  show ?case
  proof (cases "compare_views n c rows = rows")
    case False
    then have "compare_views n c rows = rows @ [discrepancy_of n c]" "co_projected c \<noteq> co_canonical c" by (auto simp: compare_views_def split: if_splits)
    with new show ?thesis by (intro exI [of _ "discrepancy_of n c # new"]) (auto simp: discrepancy_of_def)
  qed (use new in auto)
qed simp

lemma compare_recorded:
  assumes "c \<in> set cs" and "co_projected c \<noteq> co_canonical c"
  shows "has_key discrepancy_key (fold (compare_views n) cs rows) (discrepancy_key (discrepancy_of n c))"
  using assms(1)
proof (induction cs arbitrary: rows)
  case (Cons d cs)
  show ?case
  proof (cases "d = c")
    case True
    have "has_key discrepancy_key (compare_views n c rows) (discrepancy_key (discrepancy_of n c))" using assms(2) by (auto simp: compare_views_def has_key_def)
    moreover obtain new where "fold (compare_views n) cs (compare_views n c rows) = compare_views n c rows @ new" using compare_prefix by blast
    ultimately show ?thesis using True by (auto simp: has_key_def)
  qed (use Cons in auto)
qed simp

lemma compare_again:
  assumes "\<forall>c \<in> set cs. co_projected c = co_canonical c \<or> has_key discrepancy_key rows (discrepancy_key (discrepancy_of n c))"
  shows "fold (compare_views n) cs rows = rows"
  using assms by (induction cs) (auto simp: compare_views_def)

lemma annotate_twice: "annotate_vault a canonical n (annotate_vault a canonical n es) = annotate_vault a canonical n es"
proof (cases "map_of es (''VAULT'', a)")
  case (Some e)
  have "show_canonical canonical n (show_canonical canonical n e) = show_canonical canonical n e"
    by (simp add: show_canonical_def update_triv)
  with Some show ?thesis by (simp add: annotate_vault_def)
qed (simp add: annotate_vault_def)

lemma annotated_lookup: "map_of (annotate_vault a canonical n es) k =
    (case map_of es k of None \<Rightarrow> None | Some e \<Rightarrow> Some (if k = (''VAULT'', a) then show_canonical canonical n e else e))"
  by (auto simp: annotate_vault_def split: option.splits)

lemma shown_register:
  "state_balances (en_state (show_canonical canonical n e)) = state_balances (en_state e)"
  "map_of (en_state (show_canonical canonical n e)) ''totalShares'' = map_of (en_state e) ''totalShares''"
  by (simp_all add: show_canonical_def state_balances_def)

lemma vault_comparisons_shown: "vault_comparisons rep read (map_option (show_canonical canonical n) e) = vault_comparisons rep read e"
  by (cases e) (simp_all add: vault_comparisons_def shown_register)

text \<open>The checks read nothing that the annotation changes.\<close>

lemma checks_again:
  assumes "checks_and_model rep read contracts n rm = Inr (cs, rm')"
  shows "checks_and_model rep read contracts n rm' = Inr (cs, rm')"
proof (cases "map_of contracts ''LendingVaultV2''")
  case None
  with assms show ?thesis by (auto simp: checks_and_model_def then_do_eq_Inr)
next
  case (Some a)
  let ?k = "(''VAULT'', str_lower a)"
  obtain ls vs canonical where l: "(if map_of contracts ''DebtLedger'' = None then Inr [] else ledger_comparisons rep read (rm_facilities rm)) = Inr ls"
    and v: "vault_comparisons rep read (map_of (rm_entities rm) ?k) = Inr (vs, canonical)"
    and r: "cs = ls @ vs" "rm' = rm\<lparr>rm_entities := annotate_vault (str_lower a) canonical n (rm_entities rm)\<rparr>"
    using assms Some by (auto simp: checks_and_model_def then_do_eq_Inr)
  have f: "rm_facilities rm' = rm_facilities rm" by (simp add: r)
  have e: "map_of (rm_entities rm') ?k = map_option (show_canonical canonical n) (map_of (rm_entities rm) ?k)"
    by (simp add: r annotated_lookup split: option.splits)
  have h: "rm'\<lparr>rm_entities := annotate_vault (str_lower a) canonical n (rm_entities rm')\<rparr> = rm'" by (simp add: r annotate_twice)
  show ?thesis by (simp only: checks_and_model_def f l Some e vault_comparisons_shown v h r(1) option.case then_do_Inr prod.case)
qed

lemma reconciled_at:
  assumes "reconcile_at rep rpc d b (db, rows) = Inr ((db', rows'), res)"
  obtains cs rm where "checks_and_model rep (vp_read rpc (cb_number b)) (cd_contracts d) (cb_number b) (fst (ch_models db)) = Inr (cs, rm)"
    "db' = db\<lparr>ch_models := (rm, snd (ch_models db))\<rparr>" "rows' = fold (compare_views (cb_number b)) cs rows" "vr_block res = Some (cb_number b)"
    "\<forall>db2 rows2. fst (ch_models db2) = rm \<longrightarrow> checks_and_model rep (vp_read rpc (cb_number b)) (cd_contracts d) (cb_number b) rm = Inr (cs, rm) \<longrightarrow>
       fold (compare_views (cb_number b)) cs rows2 = rows2 \<longrightarrow> reconcile_at rep rpc d b (db2, rows2) = Inr ((db2, rows2), res)"
proof -
  let ?n = "cb_number b"
  from assms obtain cs rm where c: "vp_chain_id rpc = cd_chain_id d"
      "block_unmoved (vp_first rpc ?n) b ''canonical deployment/block changed during reconciliation'' = Inr ()"
      "checks_and_model rep (vp_read rpc ?n) (cd_contracts d) ?n (fst (ch_models db)) = Inr (cs, rm)"
      "block_unmoved (vp_last rpc ?n) b ''canonical block changed before reconciliation commit'' = Inr ()"
    and r: "db' = db\<lparr>ch_models := (rm, snd (ch_models db))\<rparr>" "rows' = fold (compare_views ?n) cs rows"
      "res = \<lparr>vr_checked = int (length cs), vr_discrepancies = int (length (filter (\<lambda>c. co_projected c \<noteq> co_canonical c \<and> \<not> co_lag c) cs)), vr_block = Some ?n, vr_reason = None\<rparr>"
    unfolding reconcile_at_def Let_def by (auto simp only: ensure_eq_Inr then_do_eq_Inr fst_conv snd_conv split_beta Inr_inject Pair_inject)
  have "reconcile_at rep rpc d b (db2, rows2) = Inr ((db2, rows2), res)"
    if "fst (ch_models db2) = rm" "checks_and_model rep (vp_read rpc ?n) (cd_contracts d) ?n rm = Inr (cs, rm)" "fold (compare_views ?n) cs rows2 = rows2" for db2 rows2
  proof -
    have "db2\<lparr>ch_models := (rm, snd (ch_models db2))\<rparr> = db2" using that(1) by (cases "ch_models db2") auto
    then show ?thesis unfolding reconcile_at_def Let_def fst_conv snd_conv that(1) c that(2) r(3) using that(3) c(1) by simp
  qed
  then have again: "\<forall>db2 rows2. fst (ch_models db2) = rm \<longrightarrow> checks_and_model rep (vp_read rpc ?n) (cd_contracts d) ?n rm = Inr (cs, rm) \<longrightarrow>
       fold (compare_views ?n) cs rows2 = rows2 \<longrightarrow> reconcile_at rep rpc d b (db2, rows2) = Inr ((db2, rows2), res)" by blast
  have "vr_block res = Some ?n" by (simp add: r(3))
  from c(3) r(1,2) this again show thesis by (rule that)
qed

lemma checked_model:
  assumes "checks_and_model rep read contracts n rm = Inr (cs, rm')"
  shows "rm' = rm\<lparr>rm_entities := rm_entities rm'\<rparr> \<and> (\<forall>k. map_of (rm_entities rm') k = map_of (rm_entities rm) k \<or>
    (\<exists>canonical e. map_of (rm_entities rm) k = Some e \<and> map_of (rm_entities rm') k = Some (show_canonical canonical n e)))"
proof -
  consider "rm' = rm" | a canonical where "rm' = rm\<lparr>rm_entities := annotate_vault a canonical n (rm_entities rm)\<rparr>"
    using assms by (auto simp: checks_and_model_def then_do_eq_Inr split: option.splits)
  then show ?thesis
  proof cases
    case 2
    then show ?thesis by (auto simp: annotated_lookup split: option.splits)
  qed simp
qed

lemma shown_shares: "shares_ok (en_state (show_canonical canonical n e)) = shares_ok (en_state e)"
  by (rule shares_ok_cong) (simp_all add: show_canonical_def)


section \<open>A sample comparison\<close>

definition compared_db :: chain_db where
  "compared_db = \<lparr>ch_deployment = Some (quiet_deployment\<lparr>cd_contracts := [(''LendingVaultV2'', ''v'')]\<rparr>), ch_cursor = quiet_cursor 1 1, ch_blocks = [quiet_row T_FINALIZED 1],
     ch_logs = [], ch_reorgs = [],
     ch_models = (empty_model\<lparr>rm_entities := [((''VAULT'', ''v''), \<lparr>en_state = [(''totalShares'', JStr ''4'')], en_last_block = 1\<rparr>)]\<rparr>, empty_model)\<rparr>"

definition five_rpc :: view_rpc where
  "five_rpc = \<lparr>vp_chain_id = 7, vp_first = quiet_block, vp_last = quiet_block, vp_read = \<lambda>_ _ _ _. Inr (JStr ''5'')\<rparr>"

lemma lower_v: "str_lower ''v'' = ''v''"
  by (simp add: str_lower_def lower_char_def)

lemma sample_comparison:
  "\<exists>db' row res. reconcile_views (\<lambda>_. []) five_rpc (compared_db, []) = Inr ((db', [row]), res) \<and> dy_projected row = ''4'' \<and> vr_checked res = 1"
  by (simp add: reconcile_views_def reconcile_at_def compared_db_def five_rpc_def quiet_defs checks_and_model_def vault_comparisons_def VAULT_VIEWS_def json_field_def json_get_def
      state_balances_def comparison_of_def py_str_def compare_views_def has_key_def discrepancy_of_def block_unmoved_def lower_v)


end
