(* ===== verification/Cash_Reader.thy ===== *)
theory Cash_Reader
  imports Contract_Views Cash_Engine
begin

text \<open>
  The trusted reader of the cash engine (\<open>reconciliation/chain_reader.py\<close>): \<open>CanonicalRepaymentReader\<close> turns a repayment that the indexer has journaled and finalized
  into the facts of a receipt and an allocation, after asking the node again. The rows of one transaction come in the order of the journal (the query
  orders nothing). Where the engine calls the reader, the facts of the same reference are used for both calls.
\<close>

section \<open>The node and the bindings\<close>

record reader_tx =
  rt_hash :: string
  rt_block_hash :: string
  rt_block :: int
  rt_to :: "string option"
  rt_from :: string
  rt_input :: string

record reader_rpc =
  rq_chain_id :: int
  rq_transaction :: "string \<Rightarrow> reader_tx option"
  rq_block :: "int \<Rightarrow> rpc_block option"
  rq_receipt :: "string \<Rightarrow> tx_receipt option"
  rq_read :: "int \<Rightarrow> string \<Rightarrow> string \<Rightarrow> json list \<Rightarrow> app_error + json"

record facility_binding =
  fb_facility_id :: string
  fb_onchain_id :: string

section \<open>Direct router transactions\<close>

text \<open>The exceptions that make the check fail closed.\<close>

definition caught :: "app_error \<Rightarrow> bool" where
  "caught e = (case e of ValueError _ \<Rightarrow> True
     | OtherError s \<Rightarrow> list_ex (\<lambda>p. take (length p) s = p) [''AttributeError'', ''KeyError'', ''TypeError'', ''OverflowError''] | _ \<Rightarrow> False)"

definition fails_closed :: "app_error + bool \<Rightarrow> app_error + bool" where
  "fails_closed r = (case r of Inl e \<Rightarrow> if caught e then Inr False else Inl e | Inr b \<Rightarrow> Inr b)"

definition tx_matches :: "reader_tx \<Rightarrow> chain_log \<Rightarrow> (string, string) dict \<Rightarrow> bool" where
  "tx_matches t repaid contracts \<longleftrightarrow> str_lower (rt_hash t) = lg_tx_hash repaid \<and> str_lower (rt_block_hash t) = lg_block_hash repaid \<and> rt_block t = lg_block repaid \<and>
     (case (rt_to t, map_of contracts ''RepaymentRouter'') of (Some a, Some r) \<Rightarrow> str_lower a = str_lower r | _ \<Rightarrow> False) \<and>
     (case json_get (lg_args repaid) ''payer'' of Some (JStr p) \<Rightarrow> str_lower (rt_from t) = str_lower p | _ \<Rightarrow> False)"

definition direct_types :: "bytes \<Rightarrow> string list option" where
  "direct_types data =
    (let sel = ''0x'' @ hex_of_bytes (take 4 data)
     in if sel = selector ''repayExact(bytes32,uint256)'' then Some [''bytes32'', ''uint256'']
        else if sel = selector ''repayFor(bytes32,uint256,bytes32)'' then Some [''bytes32'', ''uint256'', ''bytes32''] else None)"

fun value_hex :: "abi_value \<Rightarrow> app_error + string" where
  "value_hex (AVBytes bs) = Inr (hex_of_bytes bs)"
| "value_hex _ = Inl (OtherError ''AttributeError: hex'')"

fun value_int :: "abi_value \<Rightarrow> app_error + int" where
  "value_int (AVInt i) = Inr i"
| "value_int (AVBool b) = Inr (if b then 1 else 0)"
| "value_int _ = Inl (OtherError ''TypeError: <='')"

definition direct_call :: "abi_decode_fun \<Rightarrow> chain_log \<Rightarrow> bytes \<Rightarrow> app_error + bool" where
  "direct_call dec repaid data =
    (case direct_types data of
       None \<Rightarrow> Inr False
     | Some types \<Rightarrow>
         if length data \<noteq> 4 + 32 * length types then Inr False
         else then_do (dec types (drop 4 data)) (\<lambda>values.
           then_do (then_do (py_index values 0) value_hex) (\<lambda>h. then_do (arg_str repaid ''facilityId'') (\<lambda>key.
           if ''0x'' @ h \<noteq> str_lower key then Inr False
           else then_do (arg_int repaid ''requested'') (\<lambda>requested. then_do (then_do (py_index values 1) value_int) (\<lambda>limit.
             if limit < requested then Inr False
             else if length values = 2 then Inr True
             else then_do (py_index values 2) (\<lambda>v. Inr (v = AVBytes (replicate 32 0)))))))))"

definition is_direct_router_transaction :: "abi_decode_fun \<Rightarrow> reader_tx option \<Rightarrow> chain_log \<Rightarrow> (string, string) dict \<Rightarrow> app_error + bool" where
  "is_direct_router_transaction dec tx repaid contracts =
    (case tx of
       None \<Rightarrow> Inr False
     | Some t \<Rightarrow>
         if \<not> tx_matches t repaid contracts then Inr False
         else fails_closed (then_do (topic_bytes (remove_0x (rt_input t))) (direct_call dec repaid)))"

section \<open>Facts of a reference\<close>

fun be_int :: "nat \<Rightarrow> bytes \<Rightarrow> nat" where
  "be_int n [] = n"
| "be_int n (b # bs) = be_int (256 * n + b) bs"

definition stable_id :: "hash_fun \<Rightarrow> string \<Rightarrow> string" where
  "stable_id sha reference = rev (ulid_chars 26 (int (be_int 0 (take 16 (sha (str_bytes reference))))))"

text \<open>\<open>reference.rsplit(":", 1)\<close>.\<close>

definition rsplit_colon :: "string \<Rightarrow> (string \<times> string) option" where
  "rsplit_colon s =
    (if CHR '':'' \<in> set s then Some (rev (tl (dropWhile (\<lambda>c. c \<noteq> CHR '':'') (rev s))), rev (takeWhile (\<lambda>c. c \<noteq> CHR '':'') (rev s))) else None)"

definition final_logs :: "chain_db \<Rightarrow> string \<Rightarrow> chain_log list" where
  "final_logs chain tx = filter (\<lambda>l. lg_tx_hash l = str_lower tx \<and> lg_tier l = T_FINALIZED \<and> lg_status l = 1 \<and>
     list_ex (\<lambda>b. cb_number b = lg_block l \<and> cb_hash b = lg_block_hash l \<and> cb_tier b = T_FINALIZED) (ch_blocks chain)) (ch_logs chain)"

fun find_repaid :: "string \<Rightarrow> chain_log list \<Rightarrow> app_error + chain_log option" where
  "find_repaid index [] = Inr None"
| "find_repaid index (l # ls) =
     (if is_repaid l
      then (case py_int index of None \<Rightarrow> Inl (ValueError ''int'') | Some i \<Rightarrow> if lg_index l = i then Inr (Some l) else find_repaid index ls)
      else find_repaid index ls)"

fun fields_agree :: "(json \<times> json \<times> string) list \<Rightarrow> app_error + bool" where
  "fields_agree [] = Inr True"
| "fields_agree ((x, y, k) # rest) = then_do (json_field x k) (\<lambda>a. then_do (json_field y k) (\<lambda>b. if a = b then fields_agree rest else Inr False))"

definition events_agree :: "chain_log \<Rightarrow> chain_log \<Rightarrow> chain_log \<Rightarrow> app_error + bool" where
  "events_agree repaid allocated vault =
    fields_agree [(lg_args vault, lg_args repaid, ''received''), (lg_args vault, lg_args repaid, ''applied''), (lg_args vault, lg_args repaid, ''excess''),
      (lg_args allocated, lg_args repaid, ''newDebt'')]"

definition still_canonical :: "reader_rpc \<Rightarrow> chain_log \<Rightarrow> bool" where
  "still_canonical rpc repaid \<longleftrightarrow>
    (case rq_block rpc (lg_block repaid) of None \<Rightarrow> False | Some b \<Rightarrow> str_lower (rb_hash b) = lg_block_hash repaid) \<and>
    receipt_ok (rq_receipt rpc (lg_tx_hash repaid)) (lg_block_hash repaid)"

definition canonical_reference :: "chain_log \<Rightarrow> string" where
  "canonical_reference repaid = lg_tx_hash repaid @ '':'' @ str_int (lg_index repaid)"

definition cash_id :: "hash_fun \<Rightarrow> chain_deployment \<Rightarrow> chain_log \<Rightarrow> string" where
  "cash_id sha d repaid = stable_id sha (''cash:'' @ str_int (cd_chain_id d) @ '':'' @ canonical_reference repaid)"

text \<open>\<open>datetime.fromtimestamp(t, UTC)\<close>: years 1 to 9999.\<close>

definition utc_of :: "int \<Rightarrow> app_error + py_datetime" where
  "utc_of t = ensure (- 62135596800 \<le> t \<and> t \<le> 253402300799) (ValueError ''year is out of range'') (Inr (Aware (t * 1000000)))"

definition loan_asset :: "facility_row \<Rightarrow> app_error + asset_ref" where
  "loan_asset f = (case make_asset (fa_loan_chain_id f) (fa_loan_token f) ''LOAN'' (fa_loan_decimals f) of Inl _ \<Rightarrow> Inl (ValueError ''ValidationError'') | Inr a \<Rightarrow> Inr a)"

definition receipt_fact_of ::
  "hash_fun \<Rightarrow> reader_rpc \<Rightarrow> chain_db \<Rightarrow> chain_deployment \<Rightarrow> facility_row \<Rightarrow> chain_log \<Rightarrow> chain_log \<Rightarrow> app_error + receipt_fact" where
  "receipt_fact_of sha rpc chain d f repaid vault =
    then_do (loan_asset f) (\<lambda>asset. then_do (arg_int vault ''received'') (\<lambda>received. then_do (arg_str repaid ''payer'') (\<lambda>payer.
    (case map_of (cd_contracts d) ''LendingVaultV2'' of
       None \<Rightarrow> Inl (key_error ''LendingVaultV2'')
     | Some payee \<Rightarrow>
    (case block_at (ch_blocks chain) (lg_block repaid) of
       None \<Rightarrow> Inl (OtherError ''AttributeError'')
     | Some b \<Rightarrow>
         then_do (utc_of (cb_timestamp b)) (\<lambda>received_at.
           (let canonical = still_canonical rpc repaid
            in Inr \<lparr>rf_receipt_id = cash_id sha d repaid, rf_asset = asset, rf_amount = received, rf_tx_hash = lg_tx_hash repaid, rf_log_index = lg_index repaid,
                 rf_block_hash = lg_block_hash repaid, rf_block_number = lg_block repaid, rf_payer = Some payer, rf_payee = str_lower payee,
                 rf_source_kind = ''DIRECT_REPAYMENT'', rf_profile = cd_profile d, rf_received_at = received_at, rf_canonical = canonical, rf_finalized = True,
                 rf_status = (if canonical then 1 else 0), rf_settlement_id = None\<rparr>)))))))"

definition allocation_fact_of ::
  "hash_fun \<Rightarrow> reader_rpc \<Rightarrow> chain_deployment \<Rightarrow> facility_row \<Rightarrow> chain_log \<Rightarrow> chain_log \<Rightarrow> chain_log \<Rightarrow> app_error + allocation_fact" where
  "allocation_fact_of sha rpc d f repaid allocated vault =
    then_do (arg_int vault ''received'') (\<lambda>received. then_do (arg_int allocated ''feePaid'') (\<lambda>fee. then_do (arg_int allocated ''interestPaid'') (\<lambda>interest.
    then_do (arg_int allocated ''principalPaid'') (\<lambda>prin. then_do (arg_int allocated ''excess'') (\<lambda>excess. then_do (arg_int allocated ''newDebt'') (\<lambda>debt.
    (let canonical = still_canonical rpc repaid
     in Inr \<lparr>af_allocation_id = stable_id sha (''allocation:'' @ str_int (cd_chain_id d) @ '':'' @ canonical_reference repaid), af_receipt_id = cash_id sha d repaid,
          af_facility_id = fa_id f, af_received = received, af_fee_paid = fee, af_interest_paid = interest, af_principal_paid = prin, af_excess = excess, af_new_debt = debt,
          af_tx_hash = lg_tx_hash repaid, af_chain_id = cd_chain_id d, af_profile = cd_profile d, af_canonical = canonical, af_finalized = True,
          af_status = (if canonical then 1 else 0)\<rparr>)))))))"

text \<open>From the pair of events on.\<close>

definition facts_of_pair ::
  "hash_fun \<Rightarrow> reader_rpc \<Rightarrow> chain_db \<Rightarrow> chain_deployment \<Rightarrow> facility_row \<Rightarrow> chain_log \<times> chain_log \<times> chain_log \<Rightarrow> app_error + (receipt_fact \<times> allocation_fact)" where
  "facts_of_pair sha rpc chain d f p =
    (case p of (repaid, allocated, vault) \<Rightarrow>
      then_do (rq_read rpc (lg_block repaid) ''LendingVaultV2'' ''asset'' []) (\<lambda>asset.
      ensure (asset = json_opt (fa_loan_token f)) (ValueError ''facility loan token differs from actual vault asset'')
      (then_do (events_agree repaid allocated vault) (\<lambda>agree.
       ensure agree (ValueError ''canonical repayment events disagree'')
       (then_do (receipt_fact_of sha rpc chain d f repaid vault) (\<lambda>rf. then_do (allocation_fact_of sha rpc d f repaid allocated vault) (\<lambda>af. Inr (rf, af))))))))"

definition repayment_facts ::
  "hash_fun \<Rightarrow> abi_decode_fun \<Rightarrow> reader_rpc \<Rightarrow> chain_db \<Rightarrow> facility_binding list \<Rightarrow> facility_row list \<Rightarrow> string \<Rightarrow> app_error + (receipt_fact \<times> allocation_fact) option" where
  "repayment_facts sha dec rpc chain bindings facilities reference =
    (case rsplit_colon reference of
       None \<Rightarrow> Inl (ValueError ''not enough values to unpack'')
     | Some (tx, index) \<Rightarrow>
    (case ch_deployment chain of
       None \<Rightarrow> Inl (ValueError ''cash reader deployment chain mismatch'')
     | Some d \<Rightarrow>
    ensure (rq_chain_id rpc = cd_chain_id d) (ValueError ''cash reader deployment chain mismatch'')
    (then_do (find_repaid index (final_logs chain tx)) (\<lambda>found.
    (case found of
       None \<Rightarrow> Inr None
     | Some l \<Rightarrow>
    then_do (arg_str l ''facilityId'') (\<lambda>key.
    (case List.find (\<lambda>b. fb_onchain_id b = key) bindings of
       None \<Rightarrow> Inr None
     | Some binding \<Rightarrow>
    (case List.find (\<lambda>f. fa_id f = fb_facility_id binding) facilities of
       None \<Rightarrow> Inl (ValueError ''facility binding profile/chain mismatch'')
     | Some f \<Rightarrow>
    ensure (fa_profile f = cd_profile d \<and> fa_loan_chain_id f = cd_chain_id d) (ValueError ''facility binding profile/chain mismatch'')
    (case pair_repayment_events (final_logs chain tx) (cd_contracts d) (lg_index l) key False of
       None \<Rightarrow> Inr None
     | Some p \<Rightarrow>
    then_do (if lg_contract (fst p) = ''RepaymentRouter''
        then is_direct_router_transaction dec (rq_transaction rpc (lg_tx_hash (fst p))) (fst p) (cd_contracts d) else Inr True) (\<lambda>direct.
    if \<not> direct then Inr None else then_do (facts_of_pair sha rpc chain d f p) (\<lambda>facts. Inr (Some facts))))))))))))"

section \<open>The engine with this reader\<close>

definition reader_at :: "(receipt_fact \<times> allocation_fact) option \<Rightarrow> cash_reader" where
  "reader_at facts = \<lparr>rd_receipt = \<lambda>_. map_option fst facts, rd_allocation = \<lambda>_. map_option snd facts\<rparr>"

definition record_chain_receipt ::
  "(nat \<Rightarrow> string) \<Rightarrow> int \<Rightarrow> hash_fun \<Rightarrow> abi_decode_fun \<Rightarrow> reader_rpc \<Rightarrow> chain_db \<Rightarrow> facility_binding list \<Rightarrow> destination_route \<Rightarrow> string \<Rightarrow> cash_db \<Rightarrow>
     app_error + (cash_db \<times> reconciliation_result)" where
  "record_chain_receipt uid now sha dec rpc chain bindings route reference db =
    then_do (repayment_facts sha dec rpc chain bindings (db_facilities db) reference) (\<lambda>facts.
      record_destination_receipt uid now reference route (Some (reader_at facts)) db)"

definition record_chain_allocation ::
  "(nat \<Rightarrow> string) \<Rightarrow> int \<Rightarrow> hash_fun \<Rightarrow> abi_decode_fun \<Rightarrow> reader_rpc \<Rightarrow> chain_db \<Rightarrow> facility_binding list \<Rightarrow> string \<Rightarrow> cash_db \<Rightarrow>
     app_error + (cash_db \<times> reconciliation_result)" where
  "record_chain_allocation uid now sha dec rpc chain bindings reference db =
    then_do (repayment_facts sha dec rpc chain bindings (db_facilities db) reference) (\<lambda>facts.
      record_confirmed_allocation uid now reference (Some (reader_at facts)) db)"

section \<open>What the facts rest on\<close>

lemma digit_facts: "char_digit c = Some d \<Longrightarrow> \<not> is_space c \<and> c \<noteq> CHR ''_'' \<and> c \<noteq> CHR ''+'' \<and> c \<noteq> CHR ''-''"
  by (auto simp: char_digit_def is_space_def Let_def split: if_splits)

lemma read_digits_plain: "read_digits n s = Some m \<Longrightarrow> list_all (\<lambda>c. \<not> is_space c \<and> c \<noteq> CHR ''_'' \<and> c \<noteq> CHR ''+'' \<and> c \<noteq> CHR ''-'') s"
  by (induction n s rule: read_digits.induct) (auto split: option.splits dest: digit_facts)

lemma py_int_nat:
  assumes "nat_of_str s = Some n"
  shows "py_int s = Some (int n)"
proof -
  obtain c cs where s: "s = c # cs" using assms by (cases s) (simp_all add: nat_of_str_def)
  have p: "list_all (\<lambda>c. \<not> is_space c \<and> c \<noteq> CHR ''_'' \<and> c \<noteq> CHR ''+'' \<and> c \<noteq> CHR ''-'') s" 
    by (rule read_digits_plain [of 0 s n]) (use assms in \<open>simp add: nat_of_str_def s del: read_digits.simps\<close>)
  then have t: "str_strip s = s" by (simp add: str_strip_def dropWhile_none list_all_iff)
  have "joined_digits s" "filter (\<lambda>c. c \<noteq> CHR ''_'') s = s" using p s joined_plain [of s] by (auto simp: list_all_iff filter_id_conv)
  with assms p t show ?thesis by (simp add: py_int_def s Let_def)
qed

lemma uint_is_int:
  assumes "uint_arg l k = Some i"
  shows "arg_int l k = Inr i \<and> 0 \<le> i \<and> i < 2 ^ 256"
proof -
  obtain j where j: "json_get (lg_args l) k = Some j" "canonical_uint j = Some i" using assms by (auto simp: uint_arg_def bind_eq_Some_conv)
  then have "json_int j = Inr i \<and> 0 \<le> i \<and> i < 2 ^ 256"
    by (auto simp: canonical_uint_def bind_eq_Some_conv py_int_nat split: json.splits if_splits)
  with j show ?thesis by (simp add: arg_int_def json_field_def)
qed

lemma lower_addr: "is_addr a \<Longrightarrow> str_lower a = a"
proof -
  assume a: "is_addr a"
  have "lower_char c = c" if "is_hex_low c" for c using that by (auto simp: is_hex_low_def lower_char_def)
  then have "map lower_char (drop 2 a) = drop 2 a" using a by (auto simp: is_addr_def list_all_iff intro!: map_idI)
  moreover have "a = ''0x'' @ drop 2 a" using a by (metis append_take_drop_id is_addr_def)
  moreover have "map lower_char ''0x'' = ''0x''" by (simp add: lower_char_def)
  ultimately show ?thesis unfolding str_lower_def by (metis map_append)
qed

lemma stable_id_is_ulid: "is_ulid (stable_id sha s)"
proof -
  have "length CROCKFORD = 32" by (simp add: CROCKFORD_def)
  then show ?thesis unfolding stable_id_def ulid_chars_digits is_ulid_def by (auto dest!: digits32_range intro!: nth_mem)
qed

lemma found_facts:
  assumes "repayment_facts sha dec rpc chain bindings facilities reference = Inr (Some (rf, af))"
  obtains tx d l f key i where "ch_deployment chain = Some d" "rq_chain_id rpc = cd_chain_id d" "List.find (\<lambda>f. fa_id f = i) facilities = Some f"
    "fa_profile f = cd_profile d" "fa_loan_chain_id f = cd_chain_id d"
    "\<exists>p. pair_repayment_events (final_logs chain tx) (cd_contracts d) (lg_index (l :: chain_log)) key False = Some p \<and> facts_of_pair sha rpc chain d f p = Inr (rf, af)"
proof -
  from assms obtain tx index d where s: "rsplit_colon reference = Some (tx, index)" "ch_deployment chain = Some d" "rq_chain_id rpc = cd_chain_id d"
    by (auto simp: repayment_facts_def split: option.splits)
  from assms obtain l where l: "find_repaid index (final_logs chain tx) = Inr (Some l)"
    by (auto simp: repayment_facts_def s then_do_eq_Inr split: option.splits)
  from assms obtain key where key: "arg_str l ''facilityId'' = Inr key" by (auto simp: repayment_facts_def s l then_do_eq_Inr)
  from assms obtain binding where b: "List.find (\<lambda>b. fb_onchain_id b = key) bindings = Some binding"
    by (auto simp: repayment_facts_def s l key split: option.splits)
  from assms obtain f where f: "List.find (\<lambda>f. fa_id f = fb_facility_id binding) facilities = Some f" "fa_profile f = cd_profile d" "fa_loan_chain_id f = cd_chain_id d"
    by (auto simp: repayment_facts_def s l key b split: option.splits)
  from assms obtain p where p: "pair_repayment_events (final_logs chain tx) (cd_contracts d) (lg_index l) key False = Some p"
    by (auto simp: repayment_facts_def s l key b f split: option.splits)
  from assms have "facts_of_pair sha rpc chain d f p = Inr (rf, af)"
    by (auto simp: repayment_facts_def s l key b f p then_do_eq_Inr split: if_splits)
  with p have ex: "\<exists>p. pair_repayment_events (final_logs chain tx) (cd_contracts d) (lg_index l) key False = Some p \<and> facts_of_pair sha rpc chain d f p = Inr (rf, af)" by blast
  show thesis by (rule that [OF s(2,3) f ex])
qed

lemma final_log_in: "l \<in> set (final_logs chain tx) \<Longrightarrow> l \<in> set (ch_logs chain) \<and> lg_tier l = T_FINALIZED \<and> lg_tx_hash l = str_lower tx \<and>
    (\<exists>b \<in> set (ch_blocks chain). cb_number b = lg_block l \<and> cb_hash b = lg_block_hash l \<and> cb_tier b = T_FINALIZED)"
  by (auto simp: final_logs_def list_ex_iff)

lemma receipt_fact_parts:
  assumes "receipt_fact_of sha rpc chain d f r v = Inr rf"
  obtains payee where "loan_asset f = Inr (rf_asset rf)" "arg_int v ''received'' = Inr (rf_amount rf)" "map_of (cd_contracts d) ''LendingVaultV2'' = Some payee"
    "rf_payee rf = str_lower payee" "\<exists>t. rf_received_at rf = Aware t" "rf_receipt_id rf = cash_id sha d r" "rf_tx_hash rf = lg_tx_hash r" "rf_log_index rf = lg_index r"
    "rf_block_hash rf = lg_block_hash r" "rf_block_number rf = lg_block r" "rf_source_kind rf = ''DIRECT_REPAYMENT''" "rf_profile rf = cd_profile d"
    "rf_canonical rf = still_canonical rpc r" "rf_finalized rf" "rf_status rf = (if still_canonical rpc r then 1 else 0)" "rf_settlement_id rf = None"
proof -
  obtain payee where payee: "map_of (cd_contracts d) ''LendingVaultV2'' = Some payee"
    using assms by (cases "map_of (cd_contracts d) ''LendingVaultV2''") (auto simp: receipt_fact_of_def then_do_eq_Inr)
  obtain b where b: "block_at (ch_blocks chain) (lg_block r) = Some b"
    using assms by (cases "block_at (ch_blocks chain) (lg_block r)") (auto simp: receipt_fact_of_def then_do_eq_Inr payee)
  from assms payee show thesis by (intro that) (auto simp: receipt_fact_of_def then_do_eq_Inr Let_def utc_of_def b)
qed

lemma allocation_fact_parts:
  assumes "allocation_fact_of sha rpc d f r a v = Inr af"
  shows "arg_int v ''received'' = Inr (af_received af) \<and> arg_int a ''feePaid'' = Inr (af_fee_paid af) \<and> arg_int a ''interestPaid'' = Inr (af_interest_paid af) \<and>
    arg_int a ''principalPaid'' = Inr (af_principal_paid af) \<and> arg_int a ''excess'' = Inr (af_excess af) \<and> arg_int a ''newDebt'' = Inr (af_new_debt af) \<and>
    af_receipt_id af = cash_id sha d r \<and> af_facility_id af = fa_id f \<and> af_tx_hash af = lg_tx_hash r \<and> af_chain_id af = cd_chain_id d \<and> af_profile af = cd_profile d \<and>
    af_canonical af = still_canonical rpc r \<and> af_finalized af \<and> af_status af = (if still_canonical rpc r then 1 else 0) \<and>
    af_allocation_id af = stable_id sha (''allocation:'' @ str_int (cd_chain_id d) @ '':'' @ canonical_reference r)"
  using assms by (auto simp: allocation_fact_of_def then_do_eq_Inr Let_def)

text \<open>The amounts of a pair, as the facts state them.\<close>

lemma leg_amounts:
  assumes "leg_amounts_agree r a v"
  obtains fee interest prin excess debt received where "uint_arg a ''feePaid'' = Some fee" "uint_arg a ''interestPaid'' = Some interest" "uint_arg a ''principalPaid'' = Some prin"
    "uint_arg a ''excess'' = Some excess" "uint_arg a ''newDebt'' = Some debt" "uint_arg v ''received'' = Some received" "0 < received" "received = fee + interest + prin + excess"
  using assms by (auto simp: leg_amounts_agree_def split: option.splits list.splits)

lemma allocation_amounts:
  assumes "leg_amounts_agree r a v" and "allocation_fact_of sha rpc d f r a v = Inr af" and "is_hex32 (lg_tx_hash r)"
  shows "check_allocation_fact af = Inr () \<and> 0 \<le> af_fee_paid af \<and> 0 \<le> af_interest_paid af \<and> 0 \<le> af_principal_paid af \<and> 0 \<le> af_excess af \<and> 0 \<le> af_new_debt af \<and>
    0 < af_received af \<and> af_fee_paid af + af_interest_paid af + af_principal_paid af + af_excess af = af_received af \<and> af_received af < 2 ^ 256"
proof -
  obtain fee interest prin excess debt received where u: "uint_arg a ''feePaid'' = Some fee" "uint_arg a ''interestPaid'' = Some interest" "uint_arg a ''principalPaid'' = Some prin"
    "uint_arg a ''excess'' = Some excess" "uint_arg a ''newDebt'' = Some debt" "uint_arg v ''received'' = Some received" "0 < received" "received = fee + interest + prin + excess"
    using assms(1) by (rule leg_amounts)
  note w = u(1-6) [THEN uint_is_int] and p = allocation_fact_parts [OF assms(2)]
  have e: "af_fee_paid af = fee" "af_interest_paid af = interest" "af_principal_paid af = prin" "af_excess af = excess" "af_new_debt af = debt" "af_received af = received"
    using w p by simp_all
  have small: "\<not> 10 ^ 78 \<le> \<bar>i\<bar>" if "0 \<le> i" "i < 2 ^ 256" for i :: int using that by simp
  have "check_allocation_fact af = Inr ()"
    using w u(7,8) p assms(3) by (simp add: check_allocation_fact_def exact_units_def e small)
  with w u(7,8) show ?thesis by (simp add: e)
qed


lemma final_pair:
  assumes "pair_repayment_events (final_logs chain tx) contracts i key allow = Some (r, a, v)"
  shows "{r, a, v} \<subseteq> set (final_logs chain tx) \<and> is_repaid r \<and> is_allocated a \<and> is_receipt v \<and> leg_amounts_agree r a v \<and>
    str_lower (lg_address v) = str_lower (case map_of contracts (lg_contract v) of None \<Rightarrow> [] | Some x \<Rightarrow> x)"
proof -
  obtain cs where c: "configured_logs contracts key (final_logs chain tx) = Some cs" "r \<in> set cs" "is_repaid r"
    "a \<in> set (leg_of (filter (\<lambda>l. tx_identity l = tx_identity r) cs) i)" "is_allocated a"
    "v \<in> set (leg_of (filter (\<lambda>l. tx_identity l = tx_identity r) cs) i)" "is_receipt v" "leg_amounts_agree r a v" using assms by (rule pair_facts)
  have "a \<in> set cs" "v \<in> set cs" using leg_bounds [OF c(4)] leg_bounds [OF c(6)] by simp_all
  with c configured_facility [OF c(1)] show ?thesis by (auto simp: event_configured_def split: if_splits)
qed

text \<open>C9: the facts the cash engine gets are final events of the chain. When the reader returns facts, they come from a repayment, the one allocation and the one vault
  receipt of its leg: three journaled logs of one transaction, each final and in a final block of the journal. The receipt's
  amount is what the vault received and its payee that vault, the allocation splits exactly this amount, both carry one receipt id, the transaction of the logs and the
  deployment's profile and chain, and both pass the checks the engine makes on facts. The rows satisfy the constraints of their table.\<close>

theorem chain_facts_are_final:
  assumes "repayment_facts sha dec rpc chain bindings facilities reference = Inr (Some (rf, af))" and "list_all log_checks (ch_logs chain)"
  shows "\<exists>d r a v. ch_deployment chain = Some d \<and> is_repaid r \<and> is_allocated a \<and> is_receipt v \<and> lg_index r = rf_log_index rf \<and> lg_address v = rf_payee rf \<and>
    (\<forall>l \<in> {r, a, v}. l \<in> set (ch_logs chain) \<and> lg_tx_hash l = rf_tx_hash rf \<and> lg_tier l = T_FINALIZED \<and>
       (\<exists>b \<in> set (ch_blocks chain). cb_number b = lg_block l \<and> cb_hash b = lg_block_hash l \<and> cb_tier b = T_FINALIZED)) \<and>
    arg_int v ''received'' = Inr (rf_amount rf) \<and> af_received af = rf_amount rf \<and> af_fee_paid af + af_interest_paid af + af_principal_paid af + af_excess af = rf_amount rf \<and>
    af_receipt_id af = rf_receipt_id rf \<and> af_tx_hash af = rf_tx_hash rf \<and> rf_profile rf = cd_profile d \<and> af_profile af = cd_profile d \<and> af_chain_id af = cd_chain_id d \<and>
    check_allocation_fact af = Inr () \<and> (\<forall>route. is_addr (dr_receiver route) \<longrightarrow> result_ok (check_receipt_fact rf route))"
proof -
  obtain d tx l f key i where d: "ch_deployment chain = Some d"
    and ex: "\<exists>p. pair_repayment_events (final_logs chain tx) (cd_contracts d) (lg_index (l :: chain_log)) key False = Some p \<and> facts_of_pair sha rpc chain d f p = Inr (rf, af)"
    using assms(1) by (rule found_facts)
  then obtain r a v where p: "pair_repayment_events (final_logs chain tx) (cd_contracts d) (lg_index l) key False = Some (r, a, v)"
    and fp: "facts_of_pair sha rpc chain d f (r, a, v) = Inr (rf, af)" by auto
  from fp have fs: "receipt_fact_of sha rpc chain d f r v = Inr rf" "allocation_fact_of sha rpc d f r a v = Inr af" by (auto simp: facts_of_pair_def then_do_eq_Inr)
  obtain payee where q: "arg_int v ''received'' = Inr (rf_amount rf)" "map_of (cd_contracts d) ''LendingVaultV2'' = Some payee" "rf_payee rf = str_lower payee"
    "\<exists>t. rf_received_at rf = Aware t" "rf_receipt_id rf = cash_id sha d r" "rf_tx_hash rf = lg_tx_hash r" "rf_log_index rf = lg_index r" "rf_block_hash rf = lg_block_hash r"
    "rf_block_number rf = lg_block r" "rf_profile rf = cd_profile d" using fs(1) by (rule receipt_fact_parts)
  note fin = final_pair [OF p] and al = allocation_fact_parts [OF fs(2)]
  have logs: "\<forall>x \<in> {r, a, v}. x \<in> set (ch_logs chain) \<and> lg_tier x = T_FINALIZED \<and> lg_tx_hash x = str_lower tx \<and>
      (\<exists>b \<in> set (ch_blocks chain). cb_number b = lg_block x \<and> cb_hash b = lg_block_hash x \<and> cb_tier b = T_FINALIZED)" using fin final_log_in by (meson subset_iff)
  with assms(2) have ck: "log_checks r" "log_checks v" by (auto simp: list_all_iff)
  have tx: "lg_tx_hash r = str_lower tx" using logs by simp
  have am: "check_allocation_fact af = Inr ()" "0 < af_received af" "af_fee_paid af + af_interest_paid af + af_principal_paid af + af_excess af = af_received af" "af_received af < 2 ^ 256"
    using allocation_amounts [OF _ fs(2)] fin ck by (auto simp: log_checks_def)
  have rec: "af_received af = rf_amount rf" using al q(1) by simp
  have "lg_contract v = ''LendingVaultV2''" using fin by (simp add: is_receipt_def)
  then have payee: "lg_address v = rf_payee rf" "is_addr (rf_payee rf)" using fin q(2,3) ck lower_addr [of "lg_address v"] by (simp_all add: log_checks_def)
  have "result_ok (check_receipt_fact rf route)" if "is_addr (dr_receiver route)" for route
    using that q(4) am(2,4) rec payee(2) ck(1) by (auto simp: check_receipt_fact_def exact_units_def q(6-9) log_checks_def result_ok_iff)
  with d fin logs tx am rec payee q al show ?thesis by (intro exI [of _ d] exI [of _ r] exI [of _ a] exI [of _ v]) simp
qed

section \<open>A canonical repayment is allocated in full\<close>

lemma emit_keeps:
  assumes "emit now t i ev pay key db = Inr (db', n)"
  shows "db_facilities db' = db_facilities db \<and> db_exceptions db' = db_exceptions db"
  using assms by (auto simp: emit_def Let_def split: if_splits)

lemma stored_receipt:
  assumes "store_receipt uid now reference f row db = Inr (db', res)" and "re_reason res = None"
  shows "cr_source_kind row \<noteq> ''UNKNOWN'' \<and> db_facilities db' = db_facilities db \<and> db_exceptions db' = db_exceptions db"
proof -
  obtain db1 db2 n where i: "insert_cash_receipt row db = Inr db1"
    and e: "emit now ''cash_receipt'' (cr_id row) ''DESTINATION_CASH_RECONCILED''
      (JObj [(''cashReceiptId'', JStr (cr_id row)), (''reference'', JStr reference), (''chainId'', JInt (as_chain_id (rf_asset f))),
        (''txHash'', JStr (rf_tx_hash f)), (''logIndex'', JInt (rf_log_index f)), (''blockHash'', JStr (rf_block_hash f)),
        (''blockNumber'', JStr (str_int (rf_block_number f))), (''payee'', JStr (rf_payee f)), (''amount'', JStr (str_int (rf_amount f))),
        (''executionProfile'', JStr (execution_profile_value (rf_profile f))), (''debtApplied'', JBool False)]) (receipt_event_key f) db1 = Inr (db2, n)"
    and k: "cr_source_kind row \<noteq> ''UNKNOWN''" "db' = db2"
    using assms unfolding store_receipt_def by (auto simp: then_do_eq_Inr split: if_splits)
  have "db_facilities db1 = db_facilities db \<and> db_exceptions db1 = db_exceptions db" using i by (auto simp: insert_cash_receipt_def)
  with emit_keeps [OF e] k show ?thesis by simp
qed

lemma recorded_chain_receipt:
  assumes "record_destination_receipt uid now reference route (Some (reader_at (Some (rf, af)))) db = Inr (db', res)" and "re_created res"
  obtains t where "store_receipt uid now reference rf (new_cash_receipt rf route t) db = Inr (db', res)" "rf_canonical rf" "rf_status rf = 1" "rf_profile rf = dr_profile route"
proof -
  have b: "\<not> (block uid now code table entity db = Inr (db', res))" for code table entity
    using assms(2) by (auto simp: block_def then_do_eq_Inr no_result_def)
  obtain t where t: "check_receipt_fact rf route = Inr t" using assms(1) by (auto simp: record_destination_receipt_def reader_at_def then_do_eq_Inr)
  have "store_receipt uid now reference rf (new_cash_receipt rf route t) db = Inr (db', res) \<and> rf_canonical rf \<and> rf_status rf = 1 \<and> rf_profile rf = dr_profile route"
    using assms b unfolding record_destination_receipt_def Let_def
    by (auto simp: reader_at_def t no_result_def split: option.splits if_splits)
  then show thesis using that by blast
qed

text \<open>The allocation of a receipt that no allocation has touched, for its whole amount.\<close>

lemma full_allocation:
  assumes "check_allocation_fact af = Inr ()" and "List.find (\<lambda>r. cr_id r = af_receipt_id af) (db_cash_receipts db) = Some row" and "List.find (\<lambda>x. fa_id x = af_facility_id af) (db_facilities db) = Some fac"
    and "af_canonical af" "af_status af = 1" "af_finalized af" and "\<not> route_mismatch af row (Some fac)" and "fa_profile fac = cr_profile row" "af_profile af = cr_profile row"
    and "cr_state row = CS_DESTINATION_RECEIVED" "cr_source_kind row = ''DIRECT_REPAYMENT''" and "\<not> cash_quarantined (cr_id row) db"
    and none: "\<forall>a \<in> set (db_allocations db). aw_receipt_id a \<noteq> af_receipt_id af" and "cr_amount row = af_received af"
    and ins: "allocation_checks (new_allocation af)" "\<not> has_key aw_id (db_allocations db) (af_allocation_id af)"
  shows "\<exists>db' res. record_confirmed_allocation uid now reference (Some (reader_at (Some (rf, af)))) db = Inr (db', res) \<and> re_created res \<and>
    db_allocations db' = db_allocations db @ [new_allocation af] \<and>
    db_cash_receipts db' = update_where (\<lambda>r. cr_id r = af_receipt_id af) (\<lambda>r. r\<lparr>cr_state := CS_ALLOCATED\<rparr>) (db_cash_receipts db)"
proof -
  have id: "cr_id row = af_receipt_id af" using find_Some_iff [OF assms(2)] by simp
  have zero: "allocated_of (cr_id row) (db_allocations db) = 0" using none id by (intro allocated_of_none) simp
  have fresh: "List.find (\<lambda>a. allocation_key a = (af_receipt_id af, af_facility_id af)) (db_allocations db) = None" "\<not> has_key allocation_key (db_allocations db) (allocation_key (new_allocation af))"
    using none by (auto simp: find_None_iff' allocation_key_def has_key_def new_allocation_def)
  have "allocated_of (af_receipt_id af) (filter (\<lambda>a. aw_id a \<noteq> af_allocation_id af) (db_allocations db)) = 0" using none by (intro allocated_of_none) simp
  then have "hcg_allocations_within_receipt (new_allocation af) db = None"
    using assms(2,14) by (simp add: hcg_allocations_within_receipt_def new_allocation_def)
  moreover have "has_key fa_id (db_facilities db) (af_facility_id af)" using find_Some_iff [OF assms(3)] by (auto simp: has_key_def)
  ultimately have i: "insert_allocation (new_allocation af) db = Inr (db\<lparr>db_allocations := db_allocations db @ [new_allocation af]\<rparr>)"
    using ins fresh(2) by (simp add: insert_allocation_def) (simp add: new_allocation_def)
  let ?db = "mark_allocated (af_receipt_id af) (db\<lparr>db_allocations := db_allocations db @ [new_allocation af]\<rparr>)"
  have "\<exists>db2 n. emit now t i ev pay (''cash-allocation:'' @ x) ?db = Inr (db2, n)" for t i ev pay x by (simp add: emit_def Let_def)
  then obtain db2 n where e: "emit now ''allocation'' (af_allocation_id af) ''CONFIRMED_REPAYMENT_RECONCILED''
      (JObj [(''allocationId'', JStr (af_allocation_id af)), (''reference'', JStr reference), (''cashReceiptId'', JStr (af_receipt_id af)),
        (''facilityId'', JStr (af_facility_id af)), (''received'', JStr (str_int (af_received af))), (''excess'', JStr (str_int (af_excess af))),
        (''txHash'', JStr (af_tx_hash af)), (''executionProfile'', JStr (execution_profile_value (af_profile af)))])
      (''cash-allocation:'' @ af_receipt_id af @ '':'' @ af_facility_id af) ?db = Inr (db2, n)" by blast
  have same: "same_cash ?db db2" using e by (rule emit_cash)
  have s: "store_allocation now reference af True db = Inr (db2, \<lparr>re_entity_id = Some (af_allocation_id af), re_created = True, re_reason = None\<rparr>)"
    unfolding store_allocation_def i Let_def then_do_Inr if_True e by simp
  have "record_confirmed_allocation uid now reference (Some (reader_at (Some (rf, af)))) db = allocate_receipt uid now reference af row db"
    using assms(1-12) by (simp add: record_confirmed_allocation_def reader_at_def other_borrower_def Let_def)
  also have "\<dots> = store_allocation now reference af True db" using zero fresh(1) assms(14) by (simp add: allocate_receipt_def)
  finally show ?thesis unfolding s using same by (intro exI conjI) (auto simp: same_cash_def mark_allocated_def)
qed

lemma find_new_row:
  assumes "\<not> has_key key rows k" and "key row = k"
  shows "List.find (\<lambda>r. key r = k) (rows @ [row]) = Some row"
proof -
  have "List.find (\<lambda>r. key r = k) rows = None" using assms(1) by (auto simp: find_None_iff' has_key_def)
  with assms(2) show ?thesis by (simp add: find_append)
qed

lemma find_marked_row:
  assumes "\<not> has_key key rows k" and "key row = k" and "\<And>r. key (g r) = key r"
  shows "List.find (\<lambda>r. key r = k) (update_where (\<lambda>r. key r = k) g (rows @ [row])) = Some (g row)"
proof -
  have "update_where (\<lambda>r. key r = k) g rows = rows" using assms(1) by (intro update_where_none) (auto simp: has_key_def)
  then have "update_where (\<lambda>r. key r = k) g (rows @ [row]) = rows @ [g row]" using assms(2) by (simp add: update_where_def)
  with find_new_row [of key rows k "g row"] assms show ?thesis by simp
qed

lemma loan_asset_parts:
  assumes "loan_asset f = Inr a" and "case fa_loan_token f of None \<Rightarrow> True | Some t \<Rightarrow> is_addr t"
  shows "as_chain_id a = fa_loan_chain_id f \<and> as_address a = fa_loan_token f \<and> as_decimals a = fa_loan_decimals f"
  using assms lower_addr by (auto simp: loan_asset_def make_asset_def split: option.splits if_splits sum.splits)

text \<open>C10: a canonical repayment is allocated in full. Once the engine has stored the receipt of a reference that the reader found canonical, recording the
  allocation of the same reference succeeds: it adds the one allocation of the whole amount and marks the receipt as allocated. Facilities hold
  lower-case token addresses, the receipt is not quarantined, the route is the facility's vault, and the allocation's identifier is new.\<close>

theorem chain_repayment_is_allocated:
  assumes "cash_inv db" and "list_all log_checks (ch_logs chain)" and "\<forall>f \<in> set (db_facilities db). case fa_loan_token f of None \<Rightarrow> True | Some a \<Rightarrow> is_addr a"
    and facts: "repayment_facts sha dec rpc chain bindings (db_facilities db) reference = Inr (Some (rf, af))"
    and rec: "record_chain_receipt uid now sha dec rpc chain bindings route reference db = Inr (db1, res)" "re_created res" "re_reason res = None"
    and vault: "map_option fa_vault_id (List.find (\<lambda>f. fa_id f = af_facility_id af) (db_facilities db)) = Some (dr_vault_id route)"
    and "\<not> cash_quarantined (rf_receipt_id rf) db" and "\<not> has_key aw_id (db_allocations db) (af_allocation_id af)"
  shows "\<exists>db2 res2 row. record_chain_allocation uid' now' sha dec rpc chain bindings reference db1 = Inr (db2, res2) \<and> re_created res2 \<and>
    db_allocations db2 = db_allocations db @ [new_allocation af] \<and> aw_received (new_allocation af) = rf_amount rf \<and>
    List.find (\<lambda>r. cr_id r = rf_receipt_id rf) (db_cash_receipts db2) = Some row \<and> cr_state row = CS_ALLOCATED \<and> cr_amount row = rf_amount rf"
proof -
  from rec(1) facts have "record_destination_receipt uid now reference route (Some (reader_at (Some (rf, af)))) db = Inr (db1, res)" by (simp add: record_chain_receipt_def)
  then obtain t where st: "store_receipt uid now reference rf (new_cash_receipt rf route t) db = Inr (db1, res)" and r: "rf_canonical rf" "rf_status rf = 1" "rf_profile rf = dr_profile route"
    using rec(2) by (rule recorded_chain_receipt)
  let ?row = "new_cash_receipt rf route t"
  note sk = stored_receipt [OF st rec(3)] and sc = store_receipt_cash [OF st]
  obtain d tx l f key i where d: "ch_deployment chain = Some d" and f: "List.find (\<lambda>f. fa_id f = i) (db_facilities db) = Some f" "fa_profile f = cd_profile d" "fa_loan_chain_id f = cd_chain_id d"
    and ex: "\<exists>p. pair_repayment_events (final_logs chain tx) (cd_contracts d) (lg_index (l :: chain_log)) key False = Some p \<and> facts_of_pair sha rpc chain d f p = Inr (rf, af)"
    using facts by (rule found_facts)
  then obtain r a v where p: "pair_repayment_events (final_logs chain tx) (cd_contracts d) (lg_index l) key False = Some (r, a, v)"
    and fp: "facts_of_pair sha rpc chain d f (r, a, v) = Inr (rf, af)" by auto
  from fp have fs: "receipt_fact_of sha rpc chain d f r v = Inr rf" "allocation_fact_of sha rpc d f r a v = Inr af" by (auto simp: facts_of_pair_def then_do_eq_Inr)
  obtain payee where q: "loan_asset f = Inr (rf_asset rf)" "arg_int v ''received'' = Inr (rf_amount rf)" "rf_receipt_id rf = cash_id sha d r" "rf_source_kind rf = ''DIRECT_REPAYMENT''"
    "rf_profile rf = cd_profile d" "rf_canonical rf = still_canonical rpc r" using fs(1) by (rule receipt_fact_parts)
  note al = allocation_fact_parts [OF fs(2)] and fin = final_pair [OF p]
  have fid: "List.find (\<lambda>x. fa_id x = af_facility_id af) (db_facilities db) = Some f" using f(1) al find_Some_iff [OF f(1)] by simp
  have hex: "is_hex32 (lg_tx_hash r)" using fin final_log_in assms(2) by (auto simp: list_all_iff log_checks_def)
  note am = allocation_amounts [OF _ fs(2) hex]
  have leg: "leg_amounts_agree r a v" using fin by simp
  have amount: "af_received af = rf_amount rf" using al q(2) by simp
  have tok: "as_chain_id (rf_asset rf) = fa_loan_chain_id f" "as_address (rf_asset rf) = fa_loan_token f" "as_decimals (rf_asset rf) = fa_loan_decimals f"
    using loan_asset_parts [OF q(1)] assms(3) find_Some_iff [OF f(1)] by simp_all
  have fresh: "\<not> has_key cr_id (db_cash_receipts db) (rf_receipt_id rf)" using sc by (simp add: new_cash_receipt_def)
  have rid: "af_receipt_id af = rf_receipt_id rf" using al q(3) by simp
  have find: "List.find (\<lambda>r. cr_id r = af_receipt_id af) (db_cash_receipts db1) = Some ?row"
    unfolding conjunct1 [OF conjunct2 [OF sc]] rid by (rule find_new_row) (use fresh in \<open>simp_all add: new_cash_receipt_def\<close>)
  have none: "\<forall>a \<in> set (db_allocations db1). aw_receipt_id a \<noteq> af_receipt_id af" using sc fresh assms(1) al q(3) by (auto simp: cash_inv_def)
  have kind: "cr_source_kind ?row = ''DIRECT_REPAYMENT''" using sk q(4) by (auto simp: new_cash_receipt_def effective_kind_def split: if_splits)
  have quar: "\<not> cash_quarantined (cr_id ?row) db1" using assms(9) sk by (simp add: cash_quarantined_def new_cash_receipt_def)
  have route: "\<not> route_mismatch af ?row (Some f)" using tok vault fid al f(3) by (simp add: route_mismatch_def new_cash_receipt_def)
  have checks: "allocation_checks (new_allocation af)" using am [OF leg] al hex by (simp add: allocation_checks_def new_allocation_def stable_id_is_ulid)
  obtain db2 res2 where g: "record_confirmed_allocation uid' now' reference (Some (reader_at (Some (rf, af)))) db1 = Inr (db2, res2)" "re_created res2"
    "db_allocations db2 = db_allocations db1 @ [new_allocation af]"
    "db_cash_receipts db2 = update_where (\<lambda>r. cr_id r = af_receipt_id af) (\<lambda>r. r\<lparr>cr_state := CS_ALLOCATED\<rparr>) (db_cash_receipts db1)"
    using full_allocation [of af db1 ?row f uid' now' reference rf] am [OF leg] find fid sk al r q(5,6) route f(2) kind quar none amount checks assms(10) sc
    by (auto simp: new_cash_receipt_def)
  have "List.find (\<lambda>r. cr_id r = rf_receipt_id rf) (db_cash_receipts db2) = Some (?row\<lparr>cr_state := CS_ALLOCATED\<rparr>)"
    unfolding g(4) rid conjunct1 [OF conjunct2 [OF sc]] by (rule find_marked_row [of cr_id, OF fresh]) (simp_all add: new_cash_receipt_def)
  moreover have "record_chain_allocation uid' now' sha dec rpc chain bindings reference db1 = Inr (db2, res2)" using facts g(1) sk by (simp add: record_chain_allocation_def)
  ultimately show ?thesis using g sc amount by (intro exI [of _ db2] exI [of _ res2] exI [of _ "?row\<lparr>cr_state := CS_ALLOCATED\<rparr>"]) (simp add: new_cash_receipt_def new_allocation_def)
qed

section \<open>A sample repayment\<close>

definition vault_addr :: string where
  "vault_addr = ''0x'' @ replicate 40 CHR ''b''"

definition reader_deployment :: chain_deployment where
  "reader_deployment = \<lparr>cd_chain_id = 102031, cd_profile = EP_NATIVE_TESTNET, cd_block = 1,
     cd_contracts = [(''CreditFacilityManager'', vault_addr), (''DebtLedger'', vault_addr), (''LendingVaultV2'', vault_addr)], cd_finality_depth = 1\<rparr>"

definition direct_log :: "int \<Rightarrow> string \<Rightarrow> string \<Rightarrow> chain_log" where
  "direct_log i contract ev = sample_log T_FINALIZED i vault_addr contract ev
     [(''facilityId'', JStr ''f''), (''payer'', JStr (''0x'' @ replicate 40 CHR ''e'')), (''requested'', JInt 3600), (''received'', JInt 3600), (''applied'', JInt 3600), (''excess'', JInt 0),
      (''feePaid'', JInt 100), (''interestPaid'', JInt 500), (''principalPaid'', JInt 3000), (''newDebt'', JInt 1400)]"

definition direct_logs :: "chain_log list" where
  "direct_logs = [direct_log 0 ''DebtLedger'' ''Allocated'', direct_log 1 ''LendingVaultV2'' ''RepaymentReceived'', direct_log 2 ''CreditFacilityManager'' ''Repaid'']"

definition reader_chain :: chain_db where
  "reader_chain = \<lparr>ch_deployment = Some reader_deployment, ch_cursor = None,
     ch_blocks = [\<lparr>cb_number = 1, cb_hash = sample_ref, cb_parent = sample_ref, cb_timestamp = 0, cb_tier = T_FINALIZED\<rparr>], ch_logs = direct_logs, ch_reorgs = [],
     ch_models = (empty_model, empty_model)\<rparr>"

definition reader_node :: reader_rpc where
  "reader_node = \<lparr>rq_chain_id = 102031, rq_transaction = \<lambda>_. None, rq_block = \<lambda>n. Some \<lparr>rb_number = n, rb_hash = sample_ref, rb_parent = sample_ref, rb_timestamp = 0\<rparr>,
     rq_receipt = \<lambda>_. Some \<lparr>tr_block_hash = sample_ref, tr_status = 1\<rparr>, rq_read = \<lambda>_ _ _ _. Inr (JStr (''0x'' @ replicate 40 CHR ''a''))\<rparr>"

definition no_digest :: hash_fun where
  "no_digest x = []"

definition reader_rf :: receipt_fact where
  "reader_rf = \<lparr>rf_receipt_id = cash_id no_digest reader_deployment (direct_logs ! 2), rf_asset = sample_asset\<lparr>as_symbol := ''LOAN''\<rparr>, rf_amount = 3600, rf_tx_hash = sample_ref,
     rf_log_index = 2, rf_block_hash = sample_ref, rf_block_number = 1, rf_payer = Some (''0x'' @ replicate 40 CHR ''e''), rf_payee = vault_addr,
     rf_source_kind = ''DIRECT_REPAYMENT'', rf_profile = EP_NATIVE_TESTNET, rf_received_at = Aware 0, rf_canonical = True, rf_finalized = True, rf_status = 1, rf_settlement_id = None\<rparr>"

definition reader_af :: allocation_fact where
  "reader_af = \<lparr>af_allocation_id = stable_id no_digest (''allocation:'' @ str_int 102031 @ '':'' @ canonical_reference (direct_logs ! 2)),
     af_receipt_id = cash_id no_digest reader_deployment (direct_logs ! 2), af_facility_id = ''F1'', af_received = 3600, af_fee_paid = 100, af_interest_paid = 500,
     af_principal_paid = 3000, af_excess = 0, af_new_debt = 1400, af_tx_hash = sample_ref, af_chain_id = 102031, af_profile = EP_NATIVE_TESTNET, af_canonical = True,
     af_finalized = True, af_status = 1\<rparr>"

lemma vault_addr_simps [simp]: "is_addr vault_addr" "str_lower vault_addr = vault_addr"
proof -
  show "is_addr vault_addr" by (simp add: vault_addr_def)
  then show "str_lower vault_addr = vault_addr" by (rule lower_addr)
qed

lemma sample_ref_lower [simp]: "str_lower sample_ref = sample_ref" "CHR '':'' \<notin> set sample_ref"
  by (simp_all add: sample_ref_def str_lower_def lower_char_def)

lemma direct_log_simps [simp]:
  "lg_tx_hash (direct_log i c e) = sample_ref" "lg_block (direct_log i c e) = 1" "lg_block_hash (direct_log i c e) = sample_ref" "lg_index (direct_log i c e) = i"
  "lg_contract (direct_log i c e) = c" "lg_event (direct_log i c e) = e" "lg_tier (direct_log i c e) = T_FINALIZED" "lg_status (direct_log i c e) = 1"
  "lg_address (direct_log i c e) = vault_addr" "lg_tx_index (direct_log i c e) = 0"
  by (simp_all add: direct_log_def sample_log_def)

lemma direct_args:
  "lg_args (direct_log i c e) = JObj [(''facilityId'', JStr ''f''), (''payer'', JStr (''0x'' @ replicate 40 CHR ''e'')), (''requested'', JInt 3600), (''received'', JInt 3600),
     (''applied'', JInt 3600), (''excess'', JInt 0), (''feePaid'', JInt 100), (''interestPaid'', JInt 500), (''principalPaid'', JInt 3000), (''newDebt'', JInt 1400)]"
  by (simp add: direct_log_def sample_log_def)

lemma direct_final: "final_logs reader_chain sample_ref = direct_logs"
  by (simp add: final_logs_def reader_chain_def direct_logs_def)

lemma direct_pair: "pair_repayment_events direct_logs (cd_contracts reader_deployment) 2 ''f'' False = Some (direct_logs ! 2, direct_logs ! 0, direct_logs ! 1)"
proof -
  have f: "str_lower ''f'' = ''f''" by (simp add: str_lower_def lower_char_def)
  show ?thesis
    by (simp add: pair_repayment_events_def direct_logs_def event_configured_def direct_args json_get_def f reader_deployment_def is_repaid_def is_allocated_def is_receipt_def
        REPAYMENT_CONTRACTS_def tx_identity_def leg_of_def previous_repaid_def settlement_marked_def direct_reference_def leg_amounts_agree_def uint_arg_def canonical_uint_def Let_def)
qed

lemma direct_reference_split: "rsplit_colon (sample_ref @ '':2'') = Some (sample_ref, ''2'')"
  by (simp add: rsplit_colon_def)

lemma direct_facts:
  "repayment_facts no_digest (\<lambda>_ _. Inr []) reader_node reader_chain [\<lparr>fb_facility_id = ''F1'', fb_onchain_id = ''f''\<rparr>] (db_facilities sample_cash_db) (sample_ref @ '':2'') =
     Inr (Some (reader_rf, reader_af))"
proof -
  have two: "py_int ''2'' = Some 2" by (simp add: py_int_def str_strip_def is_space_def nat_of_str_def char_digit_def)
  have d: "ch_deployment reader_chain = Some reader_deployment" by (simp add: reader_chain_def)
  have l: "find_repaid ''2'' direct_logs = Inr (Some (direct_logs ! 2))" by (simp add: direct_logs_def is_repaid_def REPAYMENT_CONTRACTS_def two)
  have k: "arg_str (direct_logs ! 2) ''facilityId'' = Inr ''f''" by (simp add: direct_logs_def direct_args arg_str_def need_str_def json_get_def)
  have i: "lg_index (direct_logs ! 2) = 2" "lg_contract (direct_logs ! 2) = ''CreditFacilityManager''" by (simp_all add: direct_logs_def)
  have a: "str_lower (''0x'' @ replicate 40 CHR ''a'') = ''0x'' @ replicate 40 CHR ''a''" "addr_re (''0x'' @ replicate 40 CHR ''a'')"
    by (rule lower_addr, simp) (simp add: addr_re_def is_hex_char_def list_all_iff Let_def)
  have p: "facts_of_pair no_digest reader_node reader_chain reader_deployment (hd (db_facilities sample_cash_db)) (direct_logs ! 2, direct_logs ! 0, direct_logs ! 1) = Inr (reader_rf, reader_af)"
    using a by (simp add: facts_of_pair_def reader_node_def sample_cash_db_def rcv_db.defs json_opt_def events_agree_def direct_logs_def direct_args json_field_def json_get_def receipt_fact_of_def
        loan_asset_def make_asset_def arg_int_def arg_str_def need_str_def reader_deployment_def reader_chain_def block_at_def utc_of_def still_canonical_def receipt_ok_def Let_def
        allocation_fact_of_def reader_rf_def reader_af_def sample_asset_def)
  let ?f = "hd (db_facilities sample_cash_db)"
  have b: "List.find (\<lambda>b. fb_onchain_id b = ''f'') [\<lparr>fb_facility_id = ''F1'', fb_onchain_id = ''f''\<rparr>] = Some \<lparr>fb_facility_id = ''F1'', fb_onchain_id = ''f''\<rparr>" by simp
  have f: "List.find (\<lambda>f. fa_id f = ''F1'') (db_facilities sample_cash_db) = Some ?f" by (simp add: sample_cash_db_def rcv_db.defs)
  have c: "rq_chain_id reader_node = cd_chain_id reader_deployment" "fa_profile ?f = cd_profile reader_deployment \<and> fa_loan_chain_id ?f = cd_chain_id reader_deployment"
    by (simp_all add: reader_node_def reader_deployment_def sample_cash_db_def rcv_db.defs)
  have r: "(''CreditFacilityManager'' = ''RepaymentRouter'') = False" by simp
  show ?thesis
    by (simp only: repayment_facts_def direct_reference_split d direct_final l k b f c i r direct_pair p option.case prod.case then_do_Inr ensure_True fst_conv if_False facility_binding.simps simp_thms
        if_True not_True_eq_False)
qed

lemma direct_checks: "list_all log_checks (ch_logs reader_chain)"
  by (simp add: reader_chain_def direct_logs_def log_checks_def)

theorem chain_facts_are_final_witness:
  "\<exists>v. v \<in> set (ch_logs reader_chain) \<and> is_receipt v \<and> arg_int v ''received'' = Inr (rf_amount reader_rf) \<and> check_allocation_fact reader_af = Inr () \<and>
     result_ok (check_receipt_fact reader_rf sample_route)"
proof -
  have "is_addr (dr_receiver sample_route)" by (simp add: sample_route_def)
  with chain_facts_are_final [OF direct_facts direct_checks] show ?thesis by blast
qed

lemma direct_received:
  "\<exists>db res. record_chain_receipt (\<lambda>_. ''X'') 7 no_digest (\<lambda>_ _. Inr []) reader_node reader_chain [\<lparr>fb_facility_id = ''F1'', fb_onchain_id = ''f''\<rparr>] sample_route (sample_ref @ '':2'')
     sample_cash_db = Inr (db, res) \<and> re_created res \<and> re_reason res = None"
proof -
  have u: "is_ulid (cash_id no_digest reader_deployment (direct_logs ! 2))" unfolding cash_id_def by (rule stable_id_is_ulid)
  have v: "vault_addr = ''0x'' @ replicate 40 CHR ''b''" by (rule vault_addr_def)
  have "\<exists>db res. record_destination_receipt (\<lambda>_. ''X'') 7 (sample_ref @ '':2'') sample_route (Some (reader_at (Some (reader_rf, reader_af)))) sample_cash_db = Inr (db, res) \<and>
      re_created res \<and> re_reason res = None"
    using u by (simp add: record_destination_receipt_def reader_at_def reader_rf_def v store_receipt_def insert_cash_receipt_def cash_receipt_checks_def
      check_receipt_fact_def emit_def receipt_event_key_def has_key_def sample_defs sample_cash_db_def empty_rcv_db_def empty_proof_db_def
      rcv_db.defs proof_db.defs core_db.defs Let_def ensure_def)
  then show ?thesis by (simp add: record_chain_receipt_def direct_facts)
qed

theorem chain_repayment_is_allocated_witness:
  "\<exists>db1 db2 res row. record_chain_allocation (\<lambda>_. ''X'') 8 no_digest (\<lambda>_ _. Inr []) reader_node reader_chain [\<lparr>fb_facility_id = ''F1'', fb_onchain_id = ''f''\<rparr>] (sample_ref @ '':2'') db1 =
     Inr (db2, res) \<and> db_allocations db2 = [new_allocation reader_af] \<and> List.find (\<lambda>r. cr_id r = rf_receipt_id reader_rf) (db_cash_receipts db2) = Some row \<and>
     cr_state row = CS_ALLOCATED \<and> cr_amount row = 3600"
proof -
  obtain db1 res where r: "record_chain_receipt (\<lambda>_. ''X'') 7 no_digest (\<lambda>_ _. Inr []) reader_node reader_chain [\<lparr>fb_facility_id = ''F1'', fb_onchain_id = ''f''\<rparr>] sample_route
      (sample_ref @ '':2'') sample_cash_db = Inr (db1, res)" "re_created res" "re_reason res = None" using direct_received by blast
  have e: "db_allocations sample_cash_db = []" "db_cash_receipts sample_cash_db = []" "db_exceptions sample_cash_db = []"
    by (simp_all add: sample_cash_db_def rcv_db.defs proof_db.defs empty_rcv_db_def)
  have i: "cash_inv sample_cash_db" by (simp add: cash_inv_def e unique_on_def)
  have t: "\<forall>f \<in> set (db_facilities sample_cash_db). case fa_loan_token f of None \<Rightarrow> True | Some a \<Rightarrow> is_addr a" by (simp add: sample_cash_db_def rcv_db.defs)
  have v: "map_option fa_vault_id (List.find (\<lambda>f. fa_id f = af_facility_id reader_af) (db_facilities sample_cash_db)) = Some (dr_vault_id sample_route)"
    by (simp add: sample_cash_db_def rcv_db.defs reader_af_def sample_route_def)
  have q: "\<not> cash_quarantined (rf_receipt_id reader_rf) sample_cash_db" "\<not> has_key aw_id (db_allocations sample_cash_db) (af_allocation_id reader_af)"
    by (simp_all add: cash_quarantined_def e has_key_def)
  have "rf_amount reader_rf = 3600" by (simp add: reader_rf_def)
  with chain_repayment_is_allocated [OF i direct_checks t direct_facts r v q, of "\<lambda>_. ''X''" 8] e show ?thesis by auto
qed

end
