(* ===== verification/Spec2Isabelle.thy ===== *)
theory Spec2Isabelle
  imports Vault_Ledger Outbox Job_Worker Proof_Lifecycle Dispatcher Receivables Spv_Relayer Reconcile_Reference Settlement_Legs Account_Links Control_Executor Webhook Cash_Reader
begin

text \<open>
  A verification development for the off-chain services of Rackline (package names \<open>hashcredit_*\<close>):
  credit facilities for GPU operators, whose receivables are evidenced by native proofs, plus the older
  Bitcoin payout path. The sources are Python under \<open>src/offchain\<close>; contracts, web application and
  infrastructure are outside.

  \<^bold>\<open>The program and how its parts interact.\<close> The accounting reference computes interest, repayments, the
  LP vault and the borrowing base. A PostgreSQL database holds everything else: jobs and their leases,
  an outbox, an audit log, proof requests, receivables and their revisions, transaction intents. Workers claim
  jobs, run a handler and complete the job in one transaction; the proof job moves a request through its
  statuses; receivable revisions withdraw credit decisions; the dispatcher turns an action into one transaction
  intent, signs it and reconciles it with the chain. The reference reconciler reduces observations to economic
  events and applies them; the cash engine records loan currency that arrived and the repayments made of it; settlement
  legs move settlement cash over a rail to where the engine sees it. Ingestion collects what providers report, page by page or by
  webhook, and opens proof requests for settlements; the control executor asks partners to pay out or to change a receiver.
  The indexer journals the logs of the contracts and replays from them the read models that the services show; the cash engine reads repayments from that
  journal. On the Bitcoin side the watcher finds payouts to watched addresses, the proof
  builder makes SPV proofs, and the relayer submits them.

  \<^bold>\<open>Theories, in the order of the code.\<close>
  \<^item> \<open>Prelude\<close>, \<open>Python_Std\<close>: fallible results, dictionaries, tables, strings, hexadecimal, JSON; the locales
    \<open>keyed_store\<close>, \<open>inv_machine\<close> and \<open>refined_machine\<close>.
  \<^item> \<open>Facility_Ledger\<close>, \<open>Vault_Ledger\<close>: \<open>accounting/reference.py\<close> (\<open>FacilityLedger\<close>, \<open>VaultLedger\<close>, the borrowing
    base). Interest is exact and independent of the accrual schedule, repayments follow the waterfall, every
    reachable vault is well formed, the share price never falls by deposits and withdrawals, draws, third-party
    repayments and write-offs move exactly what they should.
  \<^item> \<open>Core_DB\<close>, \<open>Domain\<close>: identifiers, audit log, roles, enumerations, money (\<open>db/*\<close>, \<open>domain/*\<close>).
  \<^item> \<open>Job_Queue\<close>, \<open>Job_Worker\<close>, \<open>Outbox\<close>: \<open>jobs/queue.py\<close>, \<open>jobs/worker.py\<close>, \<open>jobs/outbox.py\<close> with the SQL function
    \<open>hcg_lease_job\<close>. Tables stay consistent, a superseded lease can do nothing, an effect is committed
    exactly when its job completes, emission is idempotent.
  \<^item> \<open>Proof_Lifecycle\<close>: \<open>jobs/proof.py\<close> and the triggers of the evidence ledger. A status is always backed by its
    artifact, verification and consumption; terminal requests never change.
  \<^item> \<open>Receivables\<close>: \<open>receivables/service.py\<close> and the monotonicity trigger. Balances are the totals of the revisions
    that took effect, each takes effect once, and a revision withdraws the credit it backed.
  \<^item> \<open>Abi\<close>, \<open>Tx_Intents\<close>, \<open>Dispatcher\<close>: \<open>transactions/*\<close>. Keccak rounds are the standard ones, purposes keep
    credentials apart, settled intents stay settled, signed hashes are never lost, nonces are free when
    allocated, a retry reuses its transaction, finality needs a canonical receipt.
  \<^item> \<open>Reconcile_Reference\<close>: \<open>reconciliation/reference.py\<close>. One event per id with the strongest trust; debt falls only
    by allocations of cash that arrived.
  \<^item> \<open>Cash_Engine\<close>: \<open>reconciliation/engine.py\<close> and the trigger on allocations. A log of the chain is one receipt, the
    allocations of a receipt never exceed it and fill it exactly when it is marked, a retry changes nothing.
  \<^item> \<open>Settlement_Legs\<close>: \<open>settlement/legs.py\<close>. Planned legs stay within the source payment, a leg the rail accepted is
    never sent again, and a leg finishes only with cash or a refund.
  \<^item> \<open>Asset_Registry\<close>: \<open>assets/registry.py\<close>, \<open>encumbrance.py\<close>, \<open>evidence.py\<close>, \<open>roles.py\<close> and their tables. No asset is
    financed twice, an eligible asset is clean, the collateral count ends and counts each unit once.
  \<^item> \<open>Account_Links\<close>: \<open>assets/entities.py\<close>. One live link per account, to the borrower it is bound to.
  \<^item> \<open>Datetime\<close>: the calendar and the ISO 8601 text that cursors and links store; the text parses back to its instant.
  \<^item> \<open>Providers\<close>, \<open>Control_Executor\<close>: \<open>providers/types.py\<close>, \<open>base.py\<close>, \<open>errors.py\<close> and \<open>control/executor.py\<close>. A partner is written
    to only under an authority in force at that moment, and never again for an action it accepted.
  \<^item> \<open>Ingestion\<close>, \<open>Webhook\<close>: \<open>ingestion/cursors.py\<close>, \<open>collector.py\<close>, \<open>proof_candidates.py\<close>, \<open>backfill.py\<close>, \<open>webhook.py\<close>. A served window
    is collected, effects happen once, a backfill covers its range, a webhook is authentic and counts once.
  \<^item> \<open>Json_Access\<close>: reading JSON objects as the executor and the projections do.
  \<^item> \<open>Chain_Decoder\<close>, \<open>Projections\<close>, \<open>Chain_Indexer\<close>: \<open>projections/decoders.py\<close>, \<open>indexer.py\<close>, \<open>db/projections_models.py\<close> and
    \<open>pair_repayment_events\<close> of \<open>reconciliation/chain_reader.py\<close>. The journal is a linked chain whatever the node answers, final rows stay
    while the head does not fall, projected receivables and shares balance, no allocation is counted for two repayments, and
    nothing pending shows in the finalized view.
  \<^item> \<open>Contract_Views\<close>: \<open>projections/views.py\<close>, \<open>reconcile.py\<close>. Comparing read models with the contracts corrects nothing and repeats nothing.
  \<^item> \<open>Cash_Reader\<close>: the rest of \<open>reconciliation/chain_reader.py\<close>, from the journal to the cash engine. The facts are final events of the chain, and a
    canonical repayment whose receipt is stored is allocated in full.
  \<^item> \<open>Bitcoin\<close>, \<open>Btc_Address\<close>, \<open>Proof_Builder\<close>: \<open>hashcredit_prover/bitcoin.py\<close>, \<open>address.py\<close>, \<open>proof_builder.py\<close> and
    \<open>rpc.py\<close>. Generated Merkle proofs verify, forged ones exhibit a collision, transactions parse back to their
    outputs, decoded addresses are well formed, a built proof passes the local check.
  \<^item> \<open>Payout_Watcher\<close>, \<open>Spv_Relayer\<close>: \<open>watcher.py\<close>, \<open>relayer.py\<close>. Amounts are converted exactly; the relayer
    implements the abstract life of a payout, submits each at most once and records exactly what was accepted.

  \<^bold>\<open>How code becomes definitions.\<close> A class is a record and its methods are functions on it; a table is a list of
  rows, a dictionary an association list in insertion order; a call that raises is \<open>Inl\<close>, a call that returns
  \<open>Inr\<close>. Where writes made before an exception stay, a method returns its outcome together with the state. A
  database transaction is a function whose \<open>Inl\<close> keeps the old state. Time, random identifiers, SHA-256, ABI
  encoding, signing, and the answers of nodes are parameters of the definitions that use them.
  Components that run for long (queue, proof requests, receivables, cash, legs, assets, account links, intents,
  ingestion, partner actions, the chain journal, vault, relayer) are step relations,
  interpreted in \<open>inv_machine\<close> or \<open>refined_machine\<close>, so that their properties hold along every run.

  \<^bold>\<open>Bounds.\<close> No definition uses fuel: loops of the source are structural recursions or \<open>function\<close>s with a
  measure (the Merkle levels, bit regrouping, decimal digits, the indexer's walk back to the last common block); the walk to an asset's root is a partial function,
  proved to end in every reachable state, and so are the collector's loop over pages, proved to return when the provider serves the
  window, and the windows of a backfill, proved to end when the chunk exceeds the overlap. Integers are unbounded as in Python; the
  places with a width are written out: 64-bit lanes in \<open>Abi\<close>, the column types in \<open>Payout_Watcher\<close>, the 28 digits of
  \<open>Decimal\<close>. \<open>btc_to_sats_exact\<close> assumes at most 28 digits and exponents between -1000 and 1000, which
  holds for every amount a node can report. Strings are ASCII.

  \<^bold>\<open>Not modelled.\<close> HTTP transports, FastAPI routers and settings, command-line programs, logging, the
  migrations beyond the functions, triggers and constraints used here, the mock
  provider, requests made by hand,
  monitoring, the attestation worker and
  bootstrap scripts. Concurrency appears as the interleaving of whole transactions, which is what the
  database's isolation gives the code.
\<close>

section \<open>Properties across components\<close>

text \<open>C40: a payout from a block with several transactions is never submitted. Through the node, the Merkle proof, the proof
  builder and the relayer: when the payout's block holds more than one transaction, \<open>_submit_payout\<close> raises,
  whatever the ABI encoder and the EVM client do, and leaves the relayer's state as it was, so the payout
  stays pending. The hash is assumed to give bytes.\<close>

theorem full_block_payout_never_submitted:
  assumes "\<forall>x. is_bytes (sha x)" and "bn_block_hash (wn_node wn) (pp_block_height payout) = Inr bh"
    and "bn_block_txids (wn_node wn) bh = Inr ids" and "1 < length ids"
  shows "snd (submit_one sha abi now wn ev payout checkpoint st) = st \<and> (\<exists>e. fst (submit_one sha abi now wn ev payout checkpoint st) = Inl e)"
proof (cases "build_proof sha (wn_node wn) (pp_txid payout) (pp_output_index payout) checkpoint (pp_block_height payout) (pp_borrower payout) None")
  case (Inl e)
  then show ?thesis by (simp add: submit_one_def)
next
  case (Inr res)
  with multi_tx_proof_not_encodable [OF assms(1) Inr assms(2-4)] show ?thesis by (simp add: submit_one_def)
qed

definition full_block_payout :: pending_row where
  "full_block_payout = \<lparr>pp_txid = replicate 64 CHR ''0'', pp_output_index = 0, pp_borrower = ''0xb'', pp_btc_address = ''a'', pp_amount_sats = 5000,
     pp_block_height = 101, pp_block_hash = ''b'', pp_first_seen = 1\<rparr>"

theorem full_block_payout_never_submitted_witness:
  "snd (submit_one constant_hash (\<lambda>_. Inr []) 7 (sample_watch\<lparr>wn_node := sample_btc_node\<rparr>) sample_evm full_block_payout 100 sample_start) = sample_start"
  using full_block_payout_never_submitted [of constant_hash "sample_watch\<lparr>wn_node := sample_btc_node\<rparr>" full_block_payout "''b''"
      "[replicate 64 CHR ''0'', replicate 64 CHR ''0'']"] constant_hash_bytes
  by (simp add: sample_btc_node_def)

end
